(* ===== verification/Prelude.thy ===== *)
theory Prelude
  imports Complex_Main
begin

text \<open>
  Shared vocabulary of the development.

  The services are Python programs. Their floats are read as exact rationals
  (every finite double is one; the rounding of single operations is not
  modelled), instants of \<open>datetime\<close> and of the monotonic clock as rational
  seconds, strings as \<open>char list\<close>, UUIDs as natural numbers, an exception as
  the left value of a sum. A dictionary is a partial map where its order does
  not matter and an association list where it does.
\<close>

named_theorems defs "unfolding equations of the model's operations"
named_theorems inv_intros "facts that an operation keeps an invariant"

type_synonym seconds = rat
type_synonym instant = rat
type_synonym duty = rat
type_synonym uuid = nat

section \<open>Exceptions\<close>

datatype py_error =
    ValueError string
  | SubjectError string
  | TypeError string
  | KeyError string
  | RuntimeError string
  | OSError string
  | ClockUntrustedError
  | ConsumerLostError string
  | AlertStoreError string
  | IntegrityError string
  | TimeoutError string
  | NatsError string
  | CancelledError
  | ExceptionGroup "py_error list"

type_synonym 'a result = "py_error + 'a"

definition res_bind :: "'a result \<Rightarrow> ('a \<Rightarrow> 'b result) \<Rightarrow> 'b result" where
  "res_bind r f = (case r of Inl e \<Rightarrow> Inl e | Inr x \<Rightarrow> f x)"

lemma res_bind_simps [simp]:
  "res_bind (Inl e) f = Inl e"
  "res_bind (Inr x) f = f x"
  by (simp_all add: res_bind_def)

lemma res_bind_eq_Inr: "res_bind r f = Inr y \<longleftrightarrow> (\<exists>x. r = Inr x \<and> f x = Inr y)"
  by (cases r) auto

definition isOk :: "'a result \<Rightarrow> bool" where
  "isOk r = (case r of Inl _ \<Rightarrow> False | Inr _ \<Rightarrow> True)"

lemma isOk_simps [simp]: "isOk (Inr x)" "\<not> isOk (Inl e)"
  by (simp_all add: isOk_def)

lemma isOk_iff: "isOk r \<longleftrightarrow> (\<exists>x. r = Inr x)"
  by (cases r) auto

text \<open>A sequence of guards, each raising its own error: the first that fails wins.\<close>

fun first_failure :: "(bool \<times> py_error) list \<Rightarrow> py_error option" where
  "first_failure [] = None"
| "first_failure ((ok, e) # rest) = (if ok then first_failure rest else Some e)"

lemma first_failure_None: "first_failure gs = None \<longleftrightarrow> (\<forall>g \<in> set gs. fst g)"
  by (induction gs rule: first_failure.induct) auto

definition validated :: "(bool \<times> py_error) list \<Rightarrow> 'a \<Rightarrow> 'a result" where
  "validated gs x = (case first_failure gs of None \<Rightarrow> Inr x | Some e \<Rightarrow> Inl e)"

lemma validated_Inr: "validated gs x = Inr y \<longleftrightarrow> y = x \<and> (\<forall>g \<in> set gs. fst g)"
  by (auto simp: validated_def first_failure_None [symmetric] split: option.splits)

lemma validated_isOk: "isOk (validated gs x) \<longleftrightarrow> (\<forall>g \<in> set gs. fst g)"
  by (simp add: isOk_iff validated_Inr)

lemma validated_Inl: "validated gs x = Inl e \<Longrightarrow> e \<in> snd ` set gs"
proof -
  have "first_failure gs = Some e \<Longrightarrow> e \<in> snd ` set gs"
    by (induction gs rule: first_failure.induct) (auto split: if_splits)
  then show "validated gs x = Inl e \<Longrightarrow> e \<in> snd ` set gs"
    by (simp add: validated_def split: option.splits)
qed

section \<open>Instants with or without a time zone\<close>

text \<open>
  A \<open>datetime\<close> either carries a zone (and then denotes an instant) or does not.
  The code refuses the second kind with a \<open>ValueError\<close>.
\<close>

datatype pydatetime = Aware instant | Naive seconds

section \<open>Numbers\<close>

text \<open>Python's \<open>round\<close> to an integer: to the nearest, ties to the even one.\<close>

definition py_round :: "rat \<Rightarrow> int" where
  "py_round x =
     (let f = \<lfloor>x\<rfloor>; d = x - of_int f
      in if d < 1/2 then f else if d > 1/2 then f + 1
         else if even f then f else f + 1)"

text \<open>Python's \<open>int(x)\<close> on a float: truncation towards zero.\<close>

definition py_int :: "rat \<Rightarrow> int" where
  "py_int x = (if 0 \<le> x then \<lfloor>x\<rfloor> else \<lceil>x\<rceil>)"

lemma py_round_bounds: "\<bar>of_int (py_round x) - x\<bar> \<le> 1/2"
proof -
  have "of_int \<lfloor>x\<rfloor> \<le> x" "x < of_int \<lfloor>x\<rfloor> + 1"
    by linarith+
  then show ?thesis
    unfolding py_round_def Let_def by (auto simp: abs_if simp del: of_int_le_iff)
      (linarith+)?
qed

lemma py_round_unique:
  assumes "of_int n - 1/2 < x" "x < of_int n + 1/2"
  shows "py_round x = n"
proof -
  have "\<bar>of_int (py_round x) - x\<bar> \<le> 1/2" by (rule py_round_bounds)
  with assms have "of_int (py_round x) < (of_int (n + 1) :: rat)" "(of_int (n - 1) :: rat) < of_int (py_round x)"
    by (simp_all add: abs_if split: if_splits)
  then show ?thesis unfolding of_int_less_iff by simp
qed

lemma py_round_mono:
  assumes "x \<le> y"
  shows "py_round x \<le> py_round y"
proof (rule ccontr)
  assume "\<not> py_round x \<le> py_round y"
  then have "of_int (py_round y) + 1 \<le> (of_int (py_round x) :: rat)" by linarith
  with assms py_round_bounds [of x] py_round_bounds [of y] have "x = y" by linarith
  with \<open>\<not> py_round x \<le> py_round y\<close> show False by simp
qed

lemma py_round_nonneg: "0 \<le> x \<Longrightarrow> 0 \<le> py_round x"
  by (simp add: py_round_def Let_def)

lemma py_int_le: "0 \<le> x \<Longrightarrow> of_int (py_int x) \<le> x"
  by (simp add: py_int_def)

lemma py_int_nonneg: "0 \<le> x \<Longrightarrow> 0 \<le> py_int x"
  by (simp add: py_int_def)

lemma py_int_mono: "0 \<le> x \<Longrightarrow> x \<le> y \<Longrightarrow> py_int x \<le> py_int y"
  by (simp add: py_int_def floor_mono)

section \<open>Strings\<close>

fun split_on :: "char \<Rightarrow> string \<Rightarrow> string list" where
  "split_on c [] = [[]]"
| "split_on c (x # xs) =
     (if x = c then [] # split_on c xs
      else case split_on c xs of
             [] \<Rightarrow> [[x]]
           | y # ys \<Rightarrow> (x # y) # ys)"

fun join_with :: "char \<Rightarrow> string list \<Rightarrow> string" where
  "join_with c [] = []"
| "join_with c [x] = x"
| "join_with c (x # y # ys) = x @ c # join_with c (y # ys)"

lemma split_on_nonempty [simp]: "split_on c s \<noteq> []"
  by (induction s) (auto split: list.splits)

lemma split_on_plain: "c \<notin> set s \<Longrightarrow> split_on c s = [s]"
  by (induction s) auto

lemma split_on_append: "c \<notin> set s \<Longrightarrow> split_on c (s @ c # t) = s # split_on c t"
  by (induction s) auto

lemma split_on_join:
  "xs \<noteq> [] \<Longrightarrow> (\<And>x. x \<in> set xs \<Longrightarrow> c \<notin> set x) \<Longrightarrow> split_on c (join_with c xs) = xs"
proof (induction c xs rule: join_with.induct)
  case (3 c x y ys)
  have "split_on c (join_with c (y # ys)) = y # ys"
    by (rule "3.IH") (use "3.prems" in auto)
  with "3.prems" show ?case by (simp add: split_on_append)
qed (auto simp: split_on_plain)

section \<open>Maps and lists\<close>

definition map_pop :: "'k \<Rightarrow> ('k \<rightharpoonup> 'v) \<Rightarrow> ('k \<rightharpoonup> 'v)" where
  "map_pop k m = m(k := None)"

lemma map_pop_simps [simp]:
  "map_pop k m k = None"
  "j \<noteq> k \<Longrightarrow> map_pop k m j = m j"
  by (simp_all add: map_pop_def)

text \<open>An insertion-ordered dictionary: overwriting keeps the position.\<close>

fun alist_put :: "'k \<Rightarrow> 'v \<Rightarrow> ('k \<times> 'v) list \<Rightarrow> ('k \<times> 'v) list" where
  "alist_put k v [] = [(k, v)]"
| "alist_put k v ((k', v') # xs) =
     (if k = k' then (k, v) # xs else (k', v') # alist_put k v xs)"

lemma map_of_alist_put [simp]: "map_of (alist_put k v xs) = (map_of xs)(k \<mapsto> v)"
  by (induction k v xs rule: alist_put.induct) auto

lemma keys_alist_put:
  "map fst (alist_put k v xs)
     = (if k \<in> fst ` set xs then map fst xs else map fst xs @ [k])"
  by (induction k v xs rule: alist_put.induct) auto

lemma distinct_alist_put [intro]:
  "distinct (map fst xs) \<Longrightarrow> distinct (map fst (alist_put k v xs))"
  by (auto simp: keys_alist_put)

lemma set_alist_putD: "x \<in> set (alist_put k v xs) \<Longrightarrow> x = (k, v) \<or> x \<in> set xs"
  by (induction k v xs rule: alist_put.induct) (auto split: if_splits)

definition alist_pop :: "'k \<Rightarrow> ('k \<times> 'v) list \<Rightarrow> ('k \<times> 'v) list" where
  "alist_pop k xs = filter (\<lambda>kv. fst kv \<noteq> k) xs"

lemma map_of_alist_pop [simp]: "map_of (alist_pop k xs) = (map_of xs)(k := None)"
  by (induction xs) (auto simp: alist_pop_def)

lemma keys_alist_pop [simp]: "fst ` set (alist_pop k xs) = fst ` set xs - {k}"
  by (force simp: alist_pop_def)

lemma distinct_alist_pop [intro]:
  "distinct (map fst xs) \<Longrightarrow> distinct (map fst (alist_pop k xs))"
  unfolding alist_pop_def by (rule distinct_map_filter)

text \<open>The values of a list of optional results, in order.\<close>

fun somes :: "'a option list \<Rightarrow> 'a list" where
  "somes [] = []"
| "somes (None # xs) = somes xs"
| "somes (Some x # xs) = x # somes xs"

lemma set_somes: "set (somes xs) = {x. Some x \<in> set xs}"
  by (induction xs rule: somes.induct) auto

text \<open>A loop that stops at the first exception.\<close>

fun map_result :: "('a \<Rightarrow> 'b result) \<Rightarrow> 'a list \<Rightarrow> 'b list result" where
  "map_result f [] = Inr []"
| "map_result f (x # xs) =
     res_bind (f x) (\<lambda>y. res_bind (map_result f xs) (\<lambda>ys. Inr (y # ys)))"

lemma map_result_ok:
  "\<forall>x \<in> set xs. isOk (f x) \<Longrightarrow> \<exists>ys. map_result f xs = Inr ys \<and> length ys = length xs
     \<and> list_all2 (\<lambda>x y. f x = Inr y) xs ys"
  by (induction xs) (auto simp: isOk_iff)

lemma map_result_Inr:
  "map_result f xs = Inr ys \<longleftrightarrow> list_all2 (\<lambda>x y. f x = Inr y) xs ys"
  by (induction xs arbitrary: ys) (auto simp: res_bind_eq_Inr list_all2_Cons1)

lemma map_result_total:
  "(\<And>x. x \<in> set xs \<Longrightarrow> f x = Inr (g x)) \<Longrightarrow> map_result f xs = Inr (map g xs)"
  by (induction xs) auto

lemma map_result_mem:
  "map_result f xs = Inr ys \<Longrightarrow> y \<in> set ys \<Longrightarrow> \<exists>x \<in> set xs. f x = Inr y"
  by (induction xs arbitrary: ys) (auto simp: res_bind_eq_Inr)

lemma snd_memD: "x \<in> set (map snd xs) \<Longrightarrow> \<exists>c. (c, x) \<in> set xs"
  by auto

lemma somes_append [simp]: "somes (xs @ ys) = somes xs @ somes ys"
  by (induction xs rule: somes.induct) auto

lemma fst_alist_put: "fst ` set (alist_put k v xs) = insert k (fst ` set xs)"
  using arg_cong [OF keys_alist_put [of k v xs], of set] by (auto split: if_splits)

lemma list_all2_mem1: "list_all2 P xs ys \<Longrightarrow> x \<in> set xs \<Longrightarrow> \<exists>y \<in> set ys. P x y"
  by (induction rule: list_all2_induct) auto

lemma list_all2_mem2: "list_all2 P xs ys \<Longrightarrow> y \<in> set ys \<Longrightarrow> \<exists>x \<in> set xs. P x y"
  by (induction rule: list_all2_induct) auto

lemma map_of_fold_put:
  "distinct (map k xs) \<Longrightarrow> map_of (fold (\<lambda>x. alist_put (k x) (f x)) xs m) t =
     (case find (\<lambda>x. k x = t) xs of Some x \<Rightarrow> Some (f x) | None \<Rightarrow> map_of m t)"
proof (induction xs arbitrary: m)
  case (Cons x xs)
  have "find (\<lambda>y. k y = k x) xs = None" using Cons.prems by (simp add: find_None_iff) (metis image_eqI)
  then show ?case using Cons by (auto split: option.splits)
qed simp

section \<open>Effects on a state, with exceptions\<close>

type_synonym ('b, 'a) io = "'b \<Rightarrow> 'a result \<times> 'b"

definition io_return :: "'a \<Rightarrow> ('b, 'a) io" where "io_return x b = (Inr x, b)"
definition io_fail :: "py_error \<Rightarrow> ('b, 'a) io" where "io_fail e b = (Inl e, b)"

definition io_bind :: "('b, 'a) io \<Rightarrow> ('a \<Rightarrow> ('b, 'c) io) \<Rightarrow> ('b, 'c) io" where
  "io_bind m f b = (case m b of (Inl e, b) \<Rightarrow> (Inl e, b) | (Inr x, b) \<Rightarrow> f x b)"

lemma io_bind_Inr: "io_bind m f b = (Inr y, b') \<longleftrightarrow> (\<exists>x b1. m b = (Inr x, b1) \<and> f x b1 = (Inr y, b'))"
  by (auto simp: io_bind_def split: prod.splits sum.splits)

lemma io_bind_ok: "m b = (Inr x, b1) \<Longrightarrow> io_bind m f b = f x b1"
  by (simp add: io_bind_def)

section \<open>Decimal numbers as text\<close>

text \<open>\<open>round(x, 1)\<close>.\<close>

definition py_round_1 :: "rat \<Rightarrow> rat" where
  "py_round_1 x = of_int (py_round (x * 10)) / 10"

definition digit_char :: "nat \<Rightarrow> char" where "digit_char n = ''0123456789'' ! n"

fun nat_digits :: "nat \<Rightarrow> string" where
  "nat_digits n = (if n < 10 then [digit_char n] else nat_digits (n div 10) @ [digit_char (n mod 10)])"

declare nat_digits.simps [simp del]

text \<open>\<open>str\<close> of an integer.\<close>

definition py_str_int :: "int \<Rightarrow> string" where
  "py_str_int n = (if n < 0 then ''-'' @ nat_digits (nat (- n)) else nat_digits (nat n))"

definition char_digit :: "char \<Rightarrow> nat option" where
  "char_digit ch = find (\<lambda>n. digit_char n = ch) [0 ..< 10]"

text \<open>Digits, with single underscores between them, as \<open>int\<close> reads them.\<close>

fun digits_value :: "nat \<Rightarrow> string \<Rightarrow> nat option" where
  "digits_value acc [] = Some acc"
| "digits_value acc (ch # cs) =
     (case char_digit ch of
        Some n \<Rightarrow> digits_value (10 * acc + n) cs
      | None \<Rightarrow>
          if ch = CHR ''_'' \<and> cs \<noteq> [] \<and> char_digit (hd cs) \<noteq> None then digits_value acc cs else None)"

definition unsigned_value :: "string \<Rightarrow> nat option" where
  "unsigned_value s = (if s = [] \<or> char_digit (hd s) = None then None else digits_value 0 s)"

definition py_space :: "char \<Rightarrow> bool" where
  "py_space ch = (ch \<in> set [CHR '' '', CHR 0x09, CHR 0x0A, CHR 0x0B, CHR 0x0C, CHR 0x0D])"

definition py_strip :: "string \<Rightarrow> string" where
  "py_strip s = rev (dropWhile py_space (rev (dropWhile py_space s)))"

text \<open>\<open>int\<close> of a text: surrounding white space, a sign, digits.\<close>

definition py_int_of :: "string \<Rightarrow> int result" where
  "py_int_of s =
     (let s = py_strip s;
          neg = (s \<noteq> [] \<and> hd s = CHR ''-'');
          body = (if s \<noteq> [] \<and> hd s \<in> {CHR ''-'', CHR ''+''} then tl s else s)
      in case unsigned_value body of
           None \<Rightarrow> Inl (ValueError ''invalid literal for int()'')
         | Some n \<Rightarrow> Inr (if neg then - int n else int n))"

lemma digit_cases: "n < 10 \<Longrightarrow> n = 0 \<or> n = 1 \<or> n = 2 \<or> n = 3 \<or> n = 4 \<or> n = 5 \<or> n = 6 \<or> n = 7 \<or> n = 8 \<or> n = (9 :: nat)"
  by presburger

lemma char_digit_char [simp]: "n < 10 \<Longrightarrow> char_digit (digit_char n) = Some n"
  by (elim digit_cases [elim_format] disjE) (simp_all add: char_digit_def digit_char_def upt_rec)

lemma digit_plain: "n < 10 \<Longrightarrow> \<not> py_space (digit_char n) \<and> digit_char n \<noteq> CHR ''-'' \<and> digit_char n \<noteq> CHR ''+''"
  by (elim digit_cases [elim_format] disjE) (simp_all add: digit_char_def py_space_def)

lemma digits_value_append:
  "\<forall>ch \<in> set xs. char_digit ch \<noteq> None \<Longrightarrow>
     digits_value acc (xs @ ys) = (case digits_value acc xs of None \<Rightarrow> None | Some a \<Rightarrow> digits_value a ys)"
  by (induction acc xs rule: digits_value.induct) (auto split: option.splits)

lemma nat_digits_digits: "ch \<in> set (nat_digits n) \<Longrightarrow> \<exists>d < 10. ch = digit_char d"
proof (induction n rule: nat_digits.induct)
  case (1 n)
  have "\<exists>d < 10. digit_char (n mod 10) = digit_char d" by (rule exI [of _ "n mod 10"]) simp
  with 1 show ?case by (subst (asm) (2) nat_digits.simps) (auto split: if_splits)
qed

lemma nat_digits_nonempty [simp]: "nat_digits n \<noteq> []"
  by (subst nat_digits.simps) simp

lemma digits_value_nat [simp]: "digits_value 0 (nat_digits n) = Some n"
proof (induction n rule: nat_digits.induct)
  case (1 n)
  show ?case
  proof (cases "n < 10")
    case True
    then show ?thesis by (subst nat_digits.simps) simp
  next
    case False
    have "\<forall>ch \<in> set (nat_digits (n div 10)). char_digit ch \<noteq> None"
      using nat_digits_digits by fastforce
    with 1 False show ?thesis
      by (subst nat_digits.simps) (simp add: digits_value_append)
  qed
qed

lemma strip_digits: "py_strip (nat_digits n) = nat_digits n"
proof -
  have plain: "\<not> py_space ch" if "ch \<in> set (nat_digits n)" for ch
    using nat_digits_digits [OF that] digit_plain by blast
  then have "dropWhile py_space (nat_digits n) = nat_digits n"
    by (cases "nat_digits n") auto
  moreover have "dropWhile py_space (rev (nat_digits n)) = rev (nat_digits n)"
    using plain by (cases "rev (nat_digits n)") (auto dest: arg_cong [of _ _ set])
  ultimately show ?thesis by (simp add: py_strip_def)
qed

lemma py_int_of_nat: "0 \<le> n \<Longrightarrow> py_int_of (py_str_int n) = Inr n"
proof -
  assume n: "0 \<le> n"
  obtain d where d: "d < 10" "hd (nat_digits (nat n)) = digit_char d"
    using nat_digits_digits [OF hd_in_set [OF nat_digits_nonempty [of "nat n"]]] by auto
  then show ?thesis
    using n digit_plain [of d]
    by (simp add: py_int_of_def py_str_int_def strip_digits unsigned_value_def Let_def)
qed

lemma py_str_int_zero: "0 \<le> n \<Longrightarrow> py_str_int n = ''0'' \<longleftrightarrow> n = 0"
proof -
  assume n: "0 \<le> n"
  have zero: "py_str_int 0 = ''0''"
    by (subst py_str_int_def, subst nat_digits.simps) (simp add: digit_char_def)
  then have "n = 0" if "py_str_int n = ''0''"
    using that n py_int_of_nat [of n] py_int_of_nat [of 0] by simp
  with zero show ?thesis by blast
qed

end
