(* ===== verification/Subjects.thy ===== *)
theory Subjects
  imports Prelude
begin

text \<open>
  The NATS subject taxonomy, \<open>contracts/python/bellasreef_contracts/subjects.py\<close>:
  the token rule, one builder per subject, and the parser of the trailing id.
  The lemmas show that a built subject has exactly the tokens it was built from,
  so no id can re-shape the subject tree, and that parsing inverts building.
\<close>

section \<open>Tokens\<close>

definition lower_alnum :: string where
  "lower_alnum = ''abcdefghijklmnopqrstuvwxyz0123456789''"

definition token_chars :: string where
  "token_chars = lower_alnum @ ''_-''"

text \<open>The body of the pattern: one of \<open>[a-z0-9]\<close>, then at most 63 of \<open>[a-z0-9_-]\<close>.\<close>

definition token_body :: "string \<Rightarrow> bool" where
  "token_body s = (case s of [] \<Rightarrow> False
     | c # cs \<Rightarrow> c \<in> set lower_alnum \<and> length cs \<le> 63 \<and> list_all (\<lambda>x. x \<in> set token_chars) cs)"

text \<open>
  The pattern is applied with \<open>re.match\<close>. Its closing \<open>$\<close> matches at the end of
  the string and also just before a newline that ends the string.
\<close>

definition token_re_match :: "string \<Rightarrow> bool" where
  "token_re_match s =
     (token_body s \<or> (s \<noteq> [] \<and> last s = CHR 0x0A \<and> token_body (butlast s)))"

definition validate_token :: "string \<Rightarrow> string result" where
  "validate_token s =
     (if \<not> token_re_match s then Inl (SubjectError ''invalid token'') else Inr s)"

section \<open>Building\<close>

definition ROOT :: string where
  "ROOT = ''bellasreef''"

text \<open>The f-strings put the tokens behind the root, separated by dots.\<close>

definition dotted :: "string list \<Rightarrow> string" where
  "dotted ts = join_with (CHR ''.'') ts"

definition sensor :: "string \<Rightarrow> string \<Rightarrow> string result" where
  "sensor sensor_type sensor_id =
     res_bind (validate_token sensor_type) (\<lambda>_.
     res_bind (validate_token sensor_id) (\<lambda>_.
     Inr (dotted [ROOT, ''sensor'', sensor_type, sensor_id])))"

definition one_token_subject :: "string \<Rightarrow> string \<Rightarrow> string result" where
  "one_token_subject kind t =
     res_bind (validate_token t) (\<lambda>_. Inr (dotted [ROOT, kind, t]))"

definition alert :: "string \<Rightarrow> string result" where
  "alert device_id = one_token_subject ''alert'' device_id"

definition silence :: "string \<Rightarrow> string result" where
  "silence device_id = one_token_subject ''silence'' device_id"

definition capability :: "string \<Rightarrow> string result" where
  "capability source = one_token_subject ''capability'' source"

definition replace_char :: "char \<Rightarrow> char \<Rightarrow> string \<Rightarrow> string" where
  "replace_char a b s = map (\<lambda>c. if c = a then b else c) s"

definition chip :: "string \<Rightarrow> string \<Rightarrow> string result" where
  "chip source inst =
     res_bind (validate_token source) (\<lambda>_.
     if inst = [] then Inl (ValueError ''chip subject needs a source and an instance'')
     else Inr (dotted [ROOT, ''chip'', source, replace_char (CHR ''.'') (CHR ''-'') inst]))"

definition host_status :: string where
  "host_status = dotted [ROOT, ''host'', ''status'']"

definition assignment :: "string \<Rightarrow> string result" where
  "assignment device_id = one_token_subject ''assignment'' device_id"

definition cmd :: "string \<Rightarrow> string \<Rightarrow> string result" where
  "cmd actuator_class actuator_id =
     res_bind (validate_token actuator_class) (\<lambda>_.
     res_bind (validate_token actuator_id) (\<lambda>_.
     Inr (dotted [ROOT, ''cmd'', actuator_class, actuator_id])))"

definition state :: "string \<Rightarrow> string result" where
  "state device_id = one_token_subject ''state'' device_id"

definition heartbeat :: "string \<Rightarrow> string result" where
  "heartbeat component = one_token_subject ''heartbeat'' component"

definition audit :: "string \<Rightarrow> string result" where
  "audit category = one_token_subject ''audit'' category"

definition registry :: "string \<Rightarrow> string result" where
  "registry device_id = one_token_subject ''registry'' device_id"

section \<open>Parsing\<close>

definition parse_device_id :: "string \<Rightarrow> string result" where
  "parse_device_id subject =
     (let parts = split_on (CHR ''.'') subject
      in if length parts < 3 \<or> hd parts \<noteq> ROOT
         then Inl (SubjectError ''not a bellasreef subject'')
         else validate_token (last parts))"

section \<open>Wildcard subscriptions\<close>

text \<open>
  A filter \<open>bellasreef.<kind>.>\<close> delivers every subject with at least one more
  token behind its fixed prefix (the documented meaning of the closing wildcard).
\<close>

definition all_of :: "string \<Rightarrow> string" where
  "all_of kind = dotted [ROOT, kind, ''>'']"

definition matches_all_of :: "string \<Rightarrow> string \<Rightarrow> bool" where
  "matches_all_of kind subject =
     (let parts = split_on (CHR ''.'') subject
      in 2 < length parts \<and> take 2 parts = [ROOT, kind])"

section \<open>Tokens carry no structure\<close>

lemmas subject_defs =
  sensor_def alert_def silence_def capability_def assignment_def cmd_def state_def
  heartbeat_def audit_def registry_def one_token_subject_def

lemma token_chars_plain [simp]:
  "CHR ''.'' \<notin> set token_chars" "CHR ''*'' \<notin> set token_chars" "CHR ''>'' \<notin> set token_chars"
  "CHR 0x0A \<notin> set token_chars" "CHR '' '' \<notin> set token_chars"
  by (simp_all add: token_chars_def lower_alnum_def)

lemma lower_alnum_token [simp]: "c \<in> set lower_alnum \<Longrightarrow> c \<in> set token_chars"
  by (simp add: token_chars_def)

lemma token_body_chars: "token_body s \<Longrightarrow> set s \<subseteq> set token_chars"
  by (auto simp: token_body_def list_all_iff split: list.splits)

lemma token_body_length: "token_body s \<Longrightarrow> s \<noteq> [] \<and> length s \<le> 64"
  by (auto simp: token_body_def split: list.splits)

lemma token_re_match_chars:
  assumes "token_re_match s" shows "set s \<subseteq> insert (CHR 0x0A) (set token_chars)"
proof (cases "token_body s")
  case True
  then show ?thesis using token_body_chars by blast
next
  case False
  with assms have s: "s \<noteq> []" "last s = CHR 0x0A" "token_body (butlast s)"
    by (auto simp: token_re_match_def)
  then have "set s = set (butlast s) \<union> {CHR 0x0A}"
    by (metis append_butlast_last_id set_append empty_set list.simps(15))
  with token_body_chars [OF s(3)] show ?thesis by auto
qed

lemma validate_token_Inr: "validate_token s = Inr t \<longleftrightarrow> t = s \<and> token_re_match s"
  by (auto simp: validate_token_def)

lemma token_re_match_no_dot: "token_re_match s \<Longrightarrow> CHR ''.'' \<notin> set s"
  using token_re_match_chars by fastforce

lemma kinds_no_dot [simp]:
  "CHR ''.'' \<notin> set ROOT" "CHR ''.'' \<notin> set ''sensor''" "CHR ''.'' \<notin> set ''chip''"
  "CHR ''.'' \<notin> set ''cmd''"
  by (simp_all add: ROOT_def)

lemma split_dotted:
  "ts \<noteq> [] \<Longrightarrow> \<forall>t \<in> set ts. CHR ''.'' \<notin> set t \<Longrightarrow> split_on (CHR ''.'') (dotted ts) = ts"
  by (simp add: dotted_def split_on_join)

lemma parse_dotted:
  assumes "ts \<noteq> []" "\<forall>t \<in> set ts. CHR ''.'' \<notin> set t" "2 \<le> length ts" "token_re_match (last ts)"
  shows "parse_device_id (dotted (ROOT # ts)) = Inr (last ts)"
proof -
  have "split_on (CHR ''.'') (dotted (ROOT # ts)) = ROOT # ts"
    using assms by (intro split_dotted) auto
  with assms show ?thesis
    by (simp add: parse_device_id_def validate_token_def Let_def)
qed

section \<open>Properties\<close>

text \<open>
  Building a telemetry or command subject and parsing its id are inverse: whenever
  the builder accepts, the parser returns the id it was given, and the subject has
  exactly four tokens, so an id never adds a level to the subject tree.
\<close>

theorem subject_roundtrip:
  assumes "sensor t i = Inr s \<or> cmd t i = Inr s"
  shows "parse_device_id s = Inr i \<and> length (split_on (CHR ''.'') s) = 4"
proof -
  from assms have tok: "token_re_match t" "token_re_match i"
    by (auto simp: sensor_def cmd_def res_bind_eq_Inr validate_token_Inr)
  from assms have "s = dotted [ROOT, ''sensor'', t, i] \<or> s = dotted [ROOT, ''cmd'', t, i]"
    by (auto simp: sensor_def cmd_def res_bind_eq_Inr validate_token_Inr)
  then obtain kind where kind: "CHR ''.'' \<notin> set kind" and s: "s = dotted [ROOT, kind, t, i]"
    by (metis kinds_no_dot(2) kinds_no_dot(4))
  note nodot = token_re_match_no_dot [OF tok(1)] token_re_match_no_dot [OF tok(2)]
  have "split_on (CHR ''.'') s = [ROOT, kind, t, i]"
    using kind nodot by (simp add: s split_dotted)
  moreover have "parse_device_id s = Inr i"
    using parse_dotted [of "[kind, t, i]"] kind nodot tok by (simp add: s)
  ultimately show ?thesis by simp
qed

theorem subject_roundtrip_witness:
  "parse_device_id ''bellasreef.sensor.temp.tank-1'' = Inr ''tank-1''"
proof -
  have "sensor ''temp'' ''tank-1'' = Inr ''bellasreef.sensor.temp.tank-1''"
    by (simp add: sensor_def validate_token_def token_re_match_def token_body_def
        lower_alnum_def token_chars_def dotted_def ROOT_def)
  then show ?thesis using subject_roundtrip by blast
qed

text \<open>
  The token rule admits more than the characters its documentation names: a token
  that is followed by one newline is accepted too, and is put into the subject as it is.
  Apart from that newline every accepted token is made of \<open>[a-z0-9_-]\<close>.
\<close>

theorem token_newline_accepted:
  "validate_token (s @ [CHR 0x0A]) = Inr (s @ [CHR 0x0A]) \<longleftrightarrow> token_body s"
proof -
  have "\<not> token_body (s @ [CHR 0x0A])"
    using token_body_chars [of "s @ [CHR 0x0A]"] token_chars_plain(4) by auto
  then show ?thesis by (auto simp: validate_token_Inr token_re_match_def)
qed

end
