(* ===== verification/Contracts.thy ===== *)
theory Contracts
  imports Subjects
begin

text \<open>
  The wire models of \<open>contracts/python/bellasreef_contracts/messages.py\<close>: one record
  per message and, for each, the validation that runs when a message is constructed
  or parsed (field constraints first, then the model validators, in the order of the
  source). JSON encoding is the library's and is not modelled; a message on the wire
  is a value that has passed its validation. Unknown fields cannot be represented.
\<close>

section \<open>Vocabularies\<close>

datatype actuator_class = Binary | Pwm
datatype actuator_role = Light | Heater | Pump | Doser | Outlet
datatype control_authority = Authoritative | Advisory | ObserveOnly
datatype transport = Local | Network
datatype state_reason = Commanded | SafeState | InterlockLatch | ManualOverride | Startup
datatype quality = Ok | Stale | Fault
datatype capability_source = PiPwm | Pca9685 | W1Bus
datatype alert_state = Breach | Clear
datatype alert_bound = Min | Max
datatype scalar = SStr string | SInt int | SFloat rat | SBool bool

definition LIGHT_MAX_RUNTIME_S :: seconds where "LIGHT_MAX_RUNTIME_S = 18 * 3600"
definition LIGHT_HEARTBEAT_TIMEOUT_S :: seconds where "LIGHT_HEARTBEAT_TIMEOUT_S = 30"
definition SCHEMA_VERSION :: int where "SCHEMA_VERSION = 2"

text \<open>The id pattern of the models. Here the library's \<open>$\<close> is the end of the string.\<close>

definition device_id_ok :: "string \<Rightarrow> bool" where
  "device_id_ok s = token_body s"

definition str_len_ok :: "nat \<Rightarrow> nat \<Rightarrow> string \<Rightarrow> bool" where
  "str_len_ok lo hi s = (lo \<le> length s \<and> length s \<le> hi)"

definition opt_ok :: "('a \<Rightarrow> bool) \<Rightarrow> 'a option \<Rightarrow> bool" where
  "opt_ok P x = (case x of None \<Rightarrow> True | Some y \<Rightarrow> P y)"

lemma opt_ok_simps [simp]: "opt_ok P None" "opt_ok P (Some y) = P y"
  by (simp_all add: opt_ok_def)

section \<open>Levels\<close>

datatype level = BinaryLevel bool | PwmLevel duty

fun level_kind :: "level \<Rightarrow> actuator_class" where
  "level_kind (BinaryLevel _) = Binary"
| "level_kind (PwmLevel _) = Pwm"

fun level_ok :: "level \<Rightarrow> bool" where
  "level_ok (BinaryLevel _) = True"
| "level_ok (PwmLevel d) = (0 \<le> d \<and> d \<le> 1)"

section \<open>The envelope\<close>

record message =
  schema_version :: int
  message_id :: uuid
  emitted_at :: instant
  source :: string

definition message_guards :: "'a message_scheme \<Rightarrow> (bool \<times> py_error) list" where
  "message_guards m =
     [(schema_version m = SCHEMA_VERSION, ValueError ''schema_version''),
      (device_id_ok (source m), ValueError ''source'')]"

section \<open>Sensors\<close>

record sensor_reading = message +
  sr_sensor_id :: string
  sr_sensor_type :: string
  sr_value :: "rat option"
  sr_unit :: string
  sr_quality :: quality
  sr_calibration_id :: "uuid option"

definition validate_sensor_reading :: "sensor_reading \<Rightarrow> sensor_reading result" where
  "validate_sensor_reading r = validated (message_guards r @
     [(device_id_ok (sr_sensor_id r), ValueError ''sensor_id''),
      (device_id_ok (sr_sensor_type r), ValueError ''sensor_type''),
      (str_len_ok 1 16 (sr_unit r), ValueError ''unit''),
      (\<not> (sr_quality r = Ok \<and> sr_value r = None), ValueError ''quality=ok requires a value'')]) r"

record sensor_registration = message +
  sg_sensor_id :: string
  sg_sensor_type :: string
  sg_driver_id :: string
  sg_transport :: transport
  sg_unit :: string
  sg_poll_interval_s :: seconds
  sg_description :: "string option"

definition validate_sensor_registration :: "sensor_registration \<Rightarrow> sensor_registration result" where
  "validate_sensor_registration r = validated (message_guards r @
     [(device_id_ok (sg_sensor_id r), ValueError ''sensor_id''),
      (device_id_ok (sg_sensor_type r), ValueError ''sensor_type''),
      (device_id_ok (sg_driver_id r), ValueError ''driver_id''),
      (str_len_ok 1 16 (sg_unit r), ValueError ''unit''),
      (0 < sg_poll_interval_s r, ValueError ''poll_interval_s''),
      (opt_ok (str_len_ok 0 512) (sg_description r), ValueError ''description'')]) r"

section \<open>Capabilities, chips and the host\<close>

record capability_channel =
  cc_channel :: string
  cc_detail :: "(string \<times> scalar) list"

record capability_announcement = message +
  ca_hardware_source :: capability_source
  ca_channels :: "capability_channel list"

definition validate_capability_announcement ::
    "capability_announcement \<Rightarrow> capability_announcement result" where
  "validate_capability_announcement a = validated (message_guards a @
     [(list_all (\<lambda>c. str_len_ok 1 64 (cc_channel c)) (ca_channels a), ValueError ''channel'')]) a"

record chip_state = message +
  cs_hardware_source :: capability_source
  cs_instance :: string
  cs_initialised :: bool
  cs_initialised_at :: "instant option"
  cs_facts :: "(string \<times> scalar) list"

definition validate_chip_state :: "chip_state \<Rightarrow> chip_state result" where
  "validate_chip_state c = validated (message_guards c @
     [(str_len_ok 1 64 (cs_instance c), ValueError ''instance'')]) c"

record host_status_message = message +
  hs_load_1m :: rat
  hs_load_5m :: rat
  hs_load_15m :: rat
  hs_cpu_count :: int
  hs_mem_total_kb :: int
  hs_mem_available_kb :: int
  hs_temp_c :: "rat option"
  hs_uptime_s :: rat

definition validate_host_status :: "host_status_message \<Rightarrow> host_status_message result" where
  "validate_host_status h = validated (message_guards h @
     [(0 \<le> hs_load_1m h, ValueError ''load_1m''),
      (0 \<le> hs_load_5m h, ValueError ''load_5m''),
      (0 \<le> hs_load_15m h, ValueError ''load_15m''),
      (1 \<le> hs_cpu_count h, ValueError ''cpu_count''),
      (0 \<le> hs_mem_total_kb h, ValueError ''mem_total_kb''),
      (0 \<le> hs_mem_available_kb h, ValueError ''mem_available_kb''),
      (0 \<le> hs_uptime_s h, ValueError ''uptime_s'')]) h"

section \<open>Assignments\<close>

record device_assignment = message +
  da_device_id :: string
  da_adopted :: bool
  da_role :: "actuator_role option"
  da_driver_type :: "string option"
  da_binding :: "(string \<times> string) list option"

definition validate_device_assignment :: "device_assignment \<Rightarrow> device_assignment result" where
  "validate_device_assignment a = validated (message_guards a @
     [(device_id_ok (da_device_id a), ValueError ''device_id''),
      (\<not> (da_adopted a \<and> (da_driver_type a = None \<or> da_binding a = None)),
       ValueError ''an adopted assignment requires driver_type and binding'')]) a"

section \<open>Alerts\<close>

record sensor_silence = message +
  ss_device_id :: string
  ss_sensor_type :: string
  ss_state :: alert_state
  ss_silent_for_s :: seconds
  ss_silence_threshold_s :: seconds
  ss_last_reading_at :: "instant option"

definition validate_sensor_silence :: "sensor_silence \<Rightarrow> sensor_silence result" where
  "validate_sensor_silence s = validated (message_guards s @
     [(device_id_ok (ss_device_id s), ValueError ''device_id''),
      (device_id_ok (ss_sensor_type s), ValueError ''sensor_type''),
      (0 \<le> ss_silent_for_s s, ValueError ''silent_for_s''),
      (0 < ss_silence_threshold_s s, ValueError ''silence_threshold_s''),
      (\<not> (ss_state s = Breach \<and> ss_silent_for_s s < ss_silence_threshold_s s),
       ValueError ''silence breach requires silent_for_s >= silence_threshold_s'')]) s"

record sensor_alert = message +
  sa_device_id :: string
  sa_sensor_type :: string
  sa_state :: alert_state
  sa_bound :: alert_bound
  sa_value :: rat
  sa_threshold :: rat
  sa_clear_margin :: rat
  sa_unit :: string

definition validate_sensor_alert :: "sensor_alert \<Rightarrow> sensor_alert result" where
  "validate_sensor_alert a = validated (message_guards a @
     [(device_id_ok (sa_device_id a), ValueError ''device_id''),
      (device_id_ok (sa_sensor_type a), ValueError ''sensor_type''),
      (0 < sa_clear_margin a, ValueError ''clear_margin''),
      (str_len_ok 1 16 (sa_unit a), ValueError ''unit''),
      (\<not> (sa_state a = Breach \<and> sa_bound a = Min \<and> sa_threshold a \<le> sa_value a),
       ValueError ''min breach requires value < threshold''),
      (\<not> (sa_state a = Breach \<and> sa_bound a = Max \<and> sa_value a \<le> sa_threshold a),
       ValueError ''max breach requires value > threshold'')]) a"

section \<open>Actuators\<close>

record actuator_command = message +
  ac_actuator_id :: string
  ac_actuator_class :: actuator_class
  ac_level :: level
  ac_idempotency_key :: uuid
  ac_expires_at :: instant
  ac_reason :: "string option"

definition validate_actuator_command :: "actuator_command \<Rightarrow> actuator_command result" where
  "validate_actuator_command c = validated (message_guards c @
     [(device_id_ok (ac_actuator_id c), ValueError ''actuator_id''),
      (level_ok (ac_level c), ValueError ''duty''),
      (opt_ok (str_len_ok 0 512) (ac_reason c), ValueError ''reason''),
      (level_kind (ac_level c) = ac_actuator_class c, ValueError ''level.kind does not match''),
      (emitted_at c < ac_expires_at c, ValueError ''expires_at must be strictly after emitted_at'')]) c"

text \<open>\<open>is_expired\<close> refuses a clock without a zone.\<close>

fun is_expired :: "'a actuator_command_scheme \<Rightarrow> pydatetime \<Rightarrow> bool result" where
  "is_expired c (Naive _) = Inl (ValueError ''now must be timezone-aware'')"
| "is_expired c (Aware now) = Inr (ac_expires_at c \<le> now)"

record actuator_state = message +
  as_actuator_id :: string
  as_level :: level
  as_reason :: state_reason
  as_since :: instant
  as_latched :: bool
  as_command_acked :: "bool option"
  as_last_exchange_age_s :: "seconds option"

definition validate_actuator_state :: "actuator_state \<Rightarrow> actuator_state result" where
  "validate_actuator_state a = validated (message_guards a @
     [(device_id_ok (as_actuator_id a), ValueError ''actuator_id''),
      (level_ok (as_level a), ValueError ''duty''),
      (opt_ok (\<lambda>x. 0 \<le> x) (as_last_exchange_age_s a), ValueError ''last_exchange_age_s'')]) a"

record heartbeat_message = message +
  hb_component :: string
  hb_sequence :: int
  hb_interval_s :: seconds

definition validate_heartbeat :: "heartbeat_message \<Rightarrow> heartbeat_message result" where
  "validate_heartbeat h = validated (message_guards h @
     [(device_id_ok (hb_component h), ValueError ''component''),
      (0 \<le> hb_sequence h, ValueError ''sequence''),
      (0 < hb_interval_s h, ValueError ''interval_s'')]) h"

record actuator_registration = message +
  ar_actuator_id :: string
  ar_actuator_class :: actuator_class
  ar_role :: actuator_role
  ar_driver_id :: string
  ar_control_authority :: control_authority
  ar_failsafe_capable :: bool
  ar_transport :: transport
  ar_safe_state :: "level option"
  ar_max_runtime_s :: "seconds option"
  ar_heartbeat_timeout_s :: "seconds option"
  ar_description :: "string option"

definition missing_triple :: "'a actuator_registration_scheme \<Rightarrow> string list" where
  "missing_triple r =
     (if ar_safe_state r = None then [''safe_state''] else []) @
     (if ar_max_runtime_s r = None then [''max_runtime_s''] else []) @
     (if ar_heartbeat_timeout_s r = None then [''heartbeat_timeout_s''] else [])"

definition authority_governs_safety :: "'a actuator_registration_scheme \<Rightarrow> py_error option" where
  "authority_governs_safety r =
     (if ar_control_authority r = Authoritative then
        (if \<not> ar_failsafe_capable r
         then Some (ValueError ''authoritative devices must be failsafe_capable'')
         else if ar_transport r \<noteq> Local
         then Some (ValueError ''authoritative devices must be transport=local'')
         else if missing_triple r \<noteq> []
         then Some (ValueError ''authoritative devices must declare the full safety triple'')
         else None)
      else if ar_safe_state r \<noteq> None
      then Some (ValueError ''devices without authority must not declare a safe_state'')
      else None)"

definition safe_state_matches_class :: "'a actuator_registration_scheme \<Rightarrow> bool" where
  "safe_state_matches_class r = opt_ok (\<lambda>l. level_kind l = ar_actuator_class r) (ar_safe_state r)"

definition validate_actuator_registration ::
    "actuator_registration \<Rightarrow> actuator_registration result" where
  "validate_actuator_registration r =
     res_bind (validated (message_guards r @
       [(device_id_ok (ar_actuator_id r), ValueError ''actuator_id''),
        (device_id_ok (ar_driver_id r), ValueError ''driver_id''),
        (opt_ok level_ok (ar_safe_state r), ValueError ''safe_state''),
        (opt_ok (\<lambda>x. 0 < x) (ar_max_runtime_s r), ValueError ''max_runtime_s''),
        (opt_ok (\<lambda>x. 0 < x) (ar_heartbeat_timeout_s r), ValueError ''heartbeat_timeout_s''),
        (opt_ok (str_len_ok 0 512) (ar_description r), ValueError ''description'')]) r) (\<lambda>r.
     case authority_governs_safety r of
       Some e \<Rightarrow> Inl e
     | None \<Rightarrow> if safe_state_matches_class r then Inr r
               else Inl (ValueError ''safe_state.kind does not match actuator_class''))"

section \<open>What validation gives\<close>

lemmas validation_defs =
  validated_Inr validated_isOk message_guards_def SCHEMA_VERSION_def

lemma device_id_token: "device_id_ok s \<Longrightarrow> token_re_match s"
  by (simp add: device_id_ok_def token_re_match_def)

lemma device_id_validates [simp]: "device_id_ok s \<Longrightarrow> validate_token s = Inr s"
  by (simp add: validate_token_Inr device_id_token)

lemma missing_triple_Nil:
  "missing_triple r = [] \<longleftrightarrow>
     ar_safe_state r \<noteq> None \<and> ar_max_runtime_s r \<noteq> None \<and> ar_heartbeat_timeout_s r \<noteq> None"
  by (auto simp: missing_triple_def)

text \<open>
  C39. An authoritative registration that passes validation is failsafe-capable, local, and
  carries the whole safety triple: a safe state of its own class, a positive maximum
  runtime and a positive heartbeat timeout. A registration of any other authority that
  passes declares no safe state.
\<close>

theorem registration_safety_triple:
  assumes "validate_actuator_registration r = Inr r'"
  shows "if ar_control_authority r = Authoritative
         then ar_failsafe_capable r \<and> ar_transport r = Local
            \<and> (\<exists>l rt hb. ar_safe_state r = Some l \<and> level_ok l \<and> level_kind l = ar_actuator_class r
                 \<and> ar_max_runtime_s r = Some rt \<and> 0 < rt
                 \<and> ar_heartbeat_timeout_s r = Some hb \<and> 0 < hb)
         else ar_safe_state r = None"
proof -
  from assms have fields: "opt_ok level_ok (ar_safe_state r)"
      "opt_ok (\<lambda>x. 0 < x) (ar_max_runtime_s r)" "opt_ok (\<lambda>x. 0 < x) (ar_heartbeat_timeout_s r)"
    and auth: "authority_governs_safety r = None" and cls: "safe_state_matches_class r"
    by (auto simp: validate_actuator_registration_def res_bind_eq_Inr validation_defs
        split: option.splits if_splits)
  show ?thesis
    using fields auth cls
    by (auto simp: authority_governs_safety_def missing_triple_Nil safe_state_matches_class_def
        split: if_splits)
qed

definition sample_registration :: actuator_registration where
  "sample_registration =
     \<lparr>schema_version = 2, message_id = 1, emitted_at = 0, source = ''hardware-io'',
      ar_actuator_id = ''blue'', ar_actuator_class = Pwm, ar_role = Light, ar_driver_id = ''rp1-pwm'',
      ar_control_authority = Authoritative, ar_failsafe_capable = True, ar_transport = Local,
      ar_safe_state = Some (PwmLevel 0), ar_max_runtime_s = Some 64800,
      ar_heartbeat_timeout_s = Some 30, ar_description = None\<rparr>"

lemma sample_registration_valid:
  "validate_actuator_registration sample_registration = Inr sample_registration"
  by (simp add: sample_registration_def validate_actuator_registration_def validated_def
      message_guards_def SCHEMA_VERSION_def device_id_ok_def token_body_def lower_alnum_def
      token_chars_def authority_governs_safety_def missing_triple_def safe_state_matches_class_def)

theorem registration_safety_triple_witness:
  "ar_transport sample_registration = Local \<and> (\<exists>l. ar_safe_state sample_registration = Some l)"
  using registration_safety_triple [OF sample_registration_valid]
  by (auto simp: sample_registration_def)

definition class_token :: "actuator_class \<Rightarrow> string" where
  "class_token k = (case k of Binary \<Rightarrow> ''binary'' | Pwm \<Rightarrow> ''pwm'')"

text \<open>
  A command that validates was emitted before it expires, carries a level of its own
  class, and names an actuator whose command subject exists; once it is expired it stays
  expired.
\<close>

theorem command_wellformed:
  assumes "validate_actuator_command c = Inr c'"
  shows "is_expired c (Aware (emitted_at c)) = Inr False
    \<and> level_kind (ac_level c) = ac_actuator_class c
    \<and> isOk (cmd (class_token (ac_actuator_class c)) (ac_actuator_id c))
    \<and> (\<forall>t u. is_expired c (Aware t) = Inr True \<and> t \<le> u \<longrightarrow> is_expired c (Aware u) = Inr True)"
proof -
  from assms have "emitted_at c < ac_expires_at c" "level_kind (ac_level c) = ac_actuator_class c"
    and "device_id_ok (ac_actuator_id c)"
    by (auto simp: validate_actuator_command_def validation_defs)
  moreover have "validate_token (class_token k) = Inr (class_token k)" for k
    by (cases k) (simp_all add: class_token_def validate_token_Inr token_re_match_def
        token_body_def lower_alnum_def token_chars_def)
  ultimately show ?thesis by (auto simp: cmd_def)
qed

definition sample_command :: actuator_command where
  "sample_command =
     \<lparr>schema_version = 2, message_id = 7, emitted_at = 100, source = ''control-engine'',
      ac_actuator_id = ''blue'', ac_actuator_class = Pwm, ac_level = PwmLevel (1/2),
      ac_idempotency_key = 8, ac_expires_at = 130, ac_reason = None\<rparr>"

lemma sample_command_valid: "validate_actuator_command sample_command = Inr sample_command"
  by (simp add: sample_command_def validate_actuator_command_def validated_def
      message_guards_def SCHEMA_VERSION_def device_id_ok_def token_body_def lower_alnum_def
      token_chars_def)

theorem command_wellformed_witness:
  "is_expired sample_command (Aware 100) = Inr False"
  using command_wellformed [OF sample_command_valid] by (simp add: sample_command_def)

end
