(* ===== verification/Drivers.thy ===== *)
theory Drivers
  imports Contracts
begin

text \<open>
  The seam between the interlocks and the silicon: \<open>drivers/dimming.py\<close>, the driver
  protocol (\<open>contracts/driver.py\<close> with the extension of \<open>safety.py\<close>) and the in-memory
  drivers of \<open>fakes.py\<close>. A driver is a record of functions over the state of its device;
  each returns its exception or its result and the device afterwards. The locale
  \<open>safety_driver\<close> states what the interlocks rely on; every driver of the code
  interprets it.
\<close>

section \<open>A blocking call that a cancellation cannot abandon\<close>

text \<open>
  \<open>to_thread_uncancellable\<close> awaits a shielded task in a loop. Each await ends in one of
  three ways: the task returned, the task raised, or this coroutine was cancelled - and
  then the task may or may not be done already. A cancellation carries its own exception
  object, named here by a number.
\<close>

datatype wakeup = TaskReturned | TaskRaised py_error | WokenByCancel nat bool

datatype thread_outcome = CallReturned | CallRaised py_error | CancelRaised nat

fun to_thread_loop :: "nat option \<Rightarrow> wakeup list \<Rightarrow> (thread_outcome \<times> wakeup list) option" where
  "to_thread_loop cancelled [] = None"
| "to_thread_loop cancelled (WokenByCancel m task_done # ws) =
     (if task_done then Some (CancelRaised m, ws) else to_thread_loop (Some m) ws)"
| "to_thread_loop cancelled (TaskRaised e # ws) =
     (case cancelled of Some m \<Rightarrow> Some (CancelRaised m, ws) | None \<Rightarrow> Some (CallRaised e, ws))"
| "to_thread_loop cancelled (TaskReturned # ws) =
     (case cancelled of Some m \<Rightarrow> Some (CancelRaised m, ws) | None \<Rightarrow> Some (CallReturned, ws))"

definition to_thread_uncancellable :: "wakeup list \<Rightarrow> (thread_outcome \<times> wakeup list) option" where
  "to_thread_uncancellable = to_thread_loop None"

text \<open>The task is finished at a wakeup that reports it so.\<close>

fun task_finished :: "wakeup \<Rightarrow> bool" where
  "task_finished (WokenByCancel _ fin) = fin"
| "task_finished _ = True"

fun cancels :: "wakeup list \<Rightarrow> nat list" where
  "cancels [] = []"
| "cancels (WokenByCancel m _ # ws) = m # cancels ws"
| "cancels (_ # ws) = cancels ws"

lemma cancels_append [simp]: "cancels (us @ ws) = cancels us @ cancels ws"
  by (induction us rule: cancels.induct) auto

lemma to_thread_loop_splits:
  "to_thread_loop c ws = Some (out, rest) \<Longrightarrow>
     \<exists>us w. ws = us @ w # rest \<and> task_finished w \<and> (\<forall>u \<in> set us. \<not> task_finished u)
       \<and> (case (case c of None \<Rightarrow> [] | Some m \<Rightarrow> [m]) @ cancels (us @ [w]) of
            [] \<Rightarrow> (case w of TaskRaised e \<Rightarrow> out = CallRaised e | _ \<Rightarrow> out = CallReturned)
          | ms \<Rightarrow> out = CancelRaised (last ms))"
proof (induction c ws rule: to_thread_loop.induct)
  case (2 c m fin ws)
  show ?case
  proof (cases fin)
    case True
    with "2.prems" show ?thesis
      by (intro exI [of _ "[]"] exI [of _ "WokenByCancel m True"]) (auto split: option.splits)
  next
    case False
    with 2 obtain us w where uw: "ws = us @ w # rest" "task_finished w"
        "\<forall>u \<in> set us. \<not> task_finished u"
        "out = CancelRaised (last (m # cancels (us @ [w])))"
      by auto
    show ?thesis
      by (rule exI [of _ "WokenByCancel m fin # us"], rule exI [of _ w])
        (use uw False in \<open>auto split: option.splits list.splits\<close>)
  qed
next
  case (3 c e ws)
  then show ?case
    by (intro exI [of _ "[]"] exI [of _ "TaskRaised e"]) (auto split: option.splits)
next
  case (4 c ws)
  then show ?case
    by (intro exI [of _ "[]"] exI [of _ "TaskReturned"]) (auto split: option.splits)
qed simp

lemma to_thread_loop_waits_only:
  "to_thread_loop c ws = None \<Longrightarrow> \<forall>w \<in> set ws. \<not> task_finished w"
  by (induction c ws rule: to_thread_loop.induct) (auto split: if_splits option.splits)

text \<open>
  The offloaded bus write is never abandoned: the call returns only at a wakeup at
  which the thread has finished, however many cancellations arrive before it. If any
  cancellation arrived, the last one is raised - it wins over the write's own success or
  exception; if none did, the write's own outcome is the caller's.
\<close>

theorem offload_outlives_cancellation:
  "case to_thread_uncancellable ws of
     None \<Rightarrow> \<forall>w \<in> set ws. \<not> task_finished w
   | Some (out, rest) \<Rightarrow>
       (\<exists>us w. ws = us @ w # rest \<and> task_finished w \<and> (\<forall>u \<in> set us. \<not> task_finished u)
         \<and> out = (case cancels (us @ [w]) of
                    [] \<Rightarrow> (case w of TaskRaised e \<Rightarrow> CallRaised e | _ \<Rightarrow> CallReturned)
                  | ms \<Rightarrow> CancelRaised (last ms)))"
proof (cases "to_thread_uncancellable ws")
  case None
  then show ?thesis
    by (auto simp: to_thread_uncancellable_def dest: to_thread_loop_waits_only)
next
  case (Some r)
  obtain out rest where r: "r = (out, rest)" by fastforce
  with Some have "to_thread_loop None ws = Some (out, rest)"
    by (simp add: to_thread_uncancellable_def)
  from to_thread_loop_splits [OF this] obtain us w where
      "ws = us @ w # rest" "task_finished w" "\<forall>u \<in> set us. \<not> task_finished u"
      "case cancels (us @ [w]) of
         [] \<Rightarrow> (case w of TaskRaised e \<Rightarrow> out = CallRaised e | _ \<Rightarrow> out = CallReturned)
       | ms \<Rightarrow> out = CancelRaised (last ms)"
    by auto
  then have "\<exists>us w. ws = us @ w # rest \<and> task_finished w \<and> (\<forall>u \<in> set us. \<not> task_finished u)
       \<and> out = (case cancels (us @ [w]) of
                  [] \<Rightarrow> (case w of TaskRaised e \<Rightarrow> CallRaised e | _ \<Rightarrow> CallReturned)
                | ms \<Rightarrow> CancelRaised (last ms))"
    by (intro exI [of _ us] exI [of _ w]) (auto split: list.splits wakeup.splits)
  with Some r show ?thesis by simp
qed

theorem offload_outlives_cancellation_witness:
  "to_thread_uncancellable [WokenByCancel 1 False, WokenByCancel 2 False, TaskRaised (OSError [])]
     = Some (CancelRaised 2, [])
   \<and> task_finished (TaskRaised (OSError []))"
proof -
  let ?ws = "[WokenByCancel 1 False, WokenByCancel 2 False, TaskRaised (OSError [])]"
  have run: "to_thread_uncancellable ?ws = Some (CancelRaised 2, [])"
    by (simp add: to_thread_uncancellable_def)
  obtain us w where "?ws = us @ w # []" "task_finished w"
    using offload_outlives_cancellation [of ?ws] unfolding run by auto
  with run show ?thesis by (cases us rule: rev_cases) auto
qed

section \<open>The undefined band\<close>

definition MIN_USABLE_DUTY :: duty where "MIN_USABLE_DUTY = 8 / 100"

definition snap_duty :: "duty \<Rightarrow> duty" where
  "snap_duty d = (if d < MIN_USABLE_DUTY then 0 else min d 1)"

lemma snap_duty_range: "snap_duty d = 0 \<or> MIN_USABLE_DUTY \<le> snap_duty d \<and> snap_duty d \<le> 1"
  by (auto simp: snap_duty_def MIN_USABLE_DUTY_def)

lemma snap_duty_idem [simp]: "snap_duty (snap_duty d) = snap_duty d"
  by (auto simp: snap_duty_def MIN_USABLE_DUTY_def)

lemma snap_duty_mono: "d \<le> e \<Longrightarrow> snap_duty d \<le> snap_duty e"
  by (auto simp: snap_duty_def MIN_USABLE_DUTY_def min_def)

lemma snap_duty_zero [simp]: "snap_duty 0 = 0"
  by (simp add: snap_duty_def MIN_USABLE_DUTY_def)

lemma snap_duty_pos: "0 < snap_duty d \<longleftrightarrow> MIN_USABLE_DUTY \<le> d"
  by (auto simp: snap_duty_def MIN_USABLE_DUTY_def)

lemma snap_duty_nonneg [simp]: "0 \<le> snap_duty d" "snap_duty d \<le> 1"
  using snap_duty_range [of d] by (auto simp: MIN_USABLE_DUTY_def)

section \<open>The registration of a dimmable light\<close>

definition light_registration ::
    "uuid \<Rightarrow> instant \<Rightarrow> string \<Rightarrow> string \<Rightarrow> level option \<Rightarrow> seconds \<Rightarrow> seconds
       \<Rightarrow> actuator_registration result" where
  "light_registration mid now actuator driver safe max_runtime heartbeat_timeout =
     validate_actuator_registration
       \<lparr>schema_version = SCHEMA_VERSION, message_id = mid, emitted_at = now,
        source = ''hardware-io'', ar_actuator_id = actuator, ar_actuator_class = Pwm,
        ar_role = Light, ar_driver_id = driver, ar_control_authority = Authoritative,
        ar_failsafe_capable = True, ar_transport = Local,
        ar_safe_state = Some (case safe of Some l \<Rightarrow> l | None \<Rightarrow> PwmLevel 0),
        ar_max_runtime_s = Some max_runtime,
        ar_heartbeat_timeout_s = Some heartbeat_timeout, ar_description = None\<rparr>"

section \<open>The driver protocol\<close>

text \<open>
  \<open>apply\<close> and \<open>drive_safe\<close> change the device, \<open>read_back\<close> may ask it, \<open>effective_level\<close>
  is the pure prediction of what \<open>apply\<close> puts on the pin.
\<close>

record 'd driver =
  drv_open :: "'d \<Rightarrow> unit result \<times> 'd"
  drv_apply :: "level \<Rightarrow> 'd \<Rightarrow> unit result \<times> 'd"
  drv_drive_safe :: "'d \<Rightarrow> unit result \<times> 'd"
  drv_read_back :: "'d \<Rightarrow> level option result \<times> 'd"
  drv_effective :: "level \<Rightarrow> level result"

text \<open>
  What the interlocks rely on, of a device that has been brought up (\<open>ok\<close>). A write either
  lands or raises: a successful \<open>apply\<close> leaves the output at the safe level exactly when the
  effective level is the safe one, a successful \<open>drive_safe\<close> leaves it there, a call that
  raises has not moved it, and no call takes the device down.
\<close>

locale safety_driver =
  fixes drv :: "'d driver" and safe :: level and dark :: "'d \<Rightarrow> bool" and ok :: "'d \<Rightarrow> bool"
  assumes apply_lands:
      "\<And>l d d'. ok d \<Longrightarrow> drv_apply drv l d = (Inr (), d') \<Longrightarrow>
         \<exists>e. drv_effective drv l = Inr e \<and> (dark d' \<longleftrightarrow> e = safe)"
    and apply_raises: "\<And>l d e d'. ok d \<Longrightarrow> drv_apply drv l d = (Inl e, d') \<Longrightarrow> dark d' = dark d"
    and safe_lands: "\<And>d d'. ok d \<Longrightarrow> drv_drive_safe drv d = (Inr (), d') \<Longrightarrow> dark d'"
    and safe_raises: "\<And>d e d'. ok d \<Longrightarrow> drv_drive_safe drv d = (Inl e, d') \<Longrightarrow> dark d' = dark d"
    and apply_ok: "\<And>l d r d'. ok d \<Longrightarrow> drv_apply drv l d = (r, d') \<Longrightarrow> ok d'"
    and safe_ok: "\<And>d r d'. ok d \<Longrightarrow> drv_drive_safe drv d = (r, d') \<Longrightarrow> ok d'"
begin

lemma apply_dark_iff:
  "ok d \<Longrightarrow> drv_apply drv l d = (Inr (), d') \<Longrightarrow> drv_effective drv l = Inr e \<Longrightarrow> dark d' \<longleftrightarrow> e = safe"
  using apply_lands by fastforce

lemma drive_safe_keeps_dark:
  assumes "ok d" "dark d" "drv_drive_safe drv d = (r, d')"
  shows "dark d'"
  using assms safe_lands safe_raises by (cases r) auto

end

section \<open>The in-memory drivers\<close>

record fake_actuator =
  fa_actuator_id :: string
  fa_safe_state :: level
  fa_level :: level
  fa_applied :: "level list"
  fa_safe_calls :: nat
  fa_opened :: nat
  fa_stuck :: bool
  fa_fail_safe_raises :: bool
  fa_open_raises :: bool
  fa_apply_raises :: "py_error option"

definition fake_open :: "fake_actuator \<Rightarrow> unit result \<times> fake_actuator" where
  "fake_open d =
     (if fa_open_raises d then (Inl (OSError ''cannot be brought up''), d)
      else (Inr (), d\<lparr>fa_opened := Suc (fa_opened d)\<rparr>))"

definition fake_apply :: "level \<Rightarrow> fake_actuator \<Rightarrow> unit result \<times> fake_actuator" where
  "fake_apply l d =
     (case fa_apply_raises d of
        Some e \<Rightarrow> (Inl e, d)
      | None \<Rightarrow>
          let d = d\<lparr>fa_applied := fa_applied d @ [l]\<rparr>
          in (Inr (), if fa_stuck d then d else d\<lparr>fa_level := l\<rparr>))"

definition fake_drive_safe :: "fake_actuator \<Rightarrow> unit result \<times> fake_actuator" where
  "fake_drive_safe d =
     (let d = d\<lparr>fa_safe_calls := Suc (fa_safe_calls d)\<rparr>
      in if fa_fail_safe_raises d then (Inl (RuntimeError ''drive_safe failed''), d)
         else (Inr (), if fa_stuck d then d else d\<lparr>fa_level := fa_safe_state d\<rparr>))"

definition fake_driver :: "fake_actuator driver" where
  "fake_driver =
     \<lparr>drv_open = fake_open, drv_apply = fake_apply, drv_drive_safe = fake_drive_safe,
      drv_read_back = \<lambda>d. (Inr (Some (fa_level d)), d), drv_effective = Inr\<rparr>"

text \<open>The snapping driver: its safe duty is fixed at construction, its device is the level.\<close>

fun snap_level :: "level \<Rightarrow> level result" where
  "snap_level (PwmLevel d) = Inr (PwmLevel (snap_duty d))"
| "snap_level (BinaryLevel _) = Inl (TypeError ''is a PWM channel'')"

definition snapping_apply :: "level \<Rightarrow> level \<Rightarrow> unit result \<times> level" where
  "snapping_apply l d = (case snap_level l of Inl e \<Rightarrow> (Inl e, d) | Inr e \<Rightarrow> (Inr (), e))"

definition snapping_driver :: "duty \<Rightarrow> level driver" where
  "snapping_driver safe_duty =
     \<lparr>drv_open = \<lambda>d. (Inr (), d), drv_apply = snapping_apply,
      drv_drive_safe = \<lambda>d. (Inr (), PwmLevel safe_duty),
      drv_read_back = \<lambda>d. (Inr (Some d), d), drv_effective = snap_level\<rparr>"

interpretation snapping: safety_driver "snapping_driver s" "PwmLevel s" "\<lambda>d. d = PwmLevel s" "\<lambda>_. True" for s
  by unfold_locales (auto simp: snapping_driver_def snapping_apply_def split: sum.splits)

end
