(* ===== verification/Safety.thy ===== *)
theory Safety
  imports Drivers
begin

text \<open>
  The interlock supervisor of \<open>hardware_io/safety.py\<close>. One guard per actuator holds the
  registration, the device behind its driver, the latch, the heartbeat bookkeeping and the
  two background tasks. Every stretch of code between two awaits is one function below,
  and \<open>sup_step\<close> interleaves them the way the event loop may: a driver call waits for the
  driver's lock (if it has one), writes in its thread, lands, and its caller resumes later.
\<close>

section \<open>Events and outcomes\<close>

datatype trip_reason =
    HeartbeatTimeout | MaxRuntimeExceeded | CommandExpired | LatchedReason | ClockUntrusted
  | Shutdown | UnknownActuator

datatype command_outcome =
    Applied | RejectedExpired | RejectedLatched | RejectedClock | RejectedUnknown

text \<open>The texts of the events, each with what it interpolates.\<close>

datatype event_detail =
    NoDetail
  | NoHeartbeatFor seconds
  | RanPast seconds
  | ClockNotSynchronised
  | ExpiredAt instant
  | LatchedBecause event_detail
  | NoSuchActuator
  | StartupUnsafe py_error
  | SupervisorStopping
  | ShutdownDriveFailed py_error
  | TripDriveFailed py_error
  | LatchClearedBy string

record safety_event =
  se_actuator_id :: string
  se_reason :: trip_reason
  se_at :: pydatetime
  se_detail :: event_detail
  se_reached_safe :: bool

text \<open>
  The event sink is the caller's coroutine: on an event it completes, with or without
  suspending on the way, or it raises.
\<close>

datatype sink_outcome = SinkCompletes bool | SinkRaises py_error

type_synonym event_sink = "safety_event \<Rightarrow> sink_outcome"

definition RETRY_BACKOFF_S :: seconds where "RETRY_BACKOFF_S = 1"

section \<open>The state\<close>

text \<open>Where an awaited driver call is.\<close>

datatype call_phase = Waiting | Writing | Landed "unit result"

text \<open>Where \<open>_drive_safe_with_retry\<close> is.\<close>

datatype trip_pc =
    Driving call_phase
  | EmittingFailure safety_event
  | BackingOff seconds
  | EmittingSuccess safety_event

text \<open>The runtime-cap task: created, asleep until its deadline, tripping, or finished.\<close>

datatype runtime_pc = RtStarting | RtSleeping seconds | RtTripping trip_pc

datatype runtime_task = RtLive runtime_pc | RtDone

text \<open>The heartbeat watcher.\<close>

datatype watch_pc = WatchTop | WatchTripping trip_pc | WatchForBeat | WatchUntil seconds | WatchEnded

text \<open>
  A cancelled runtime task that has not unwound yet: its offloaded write cannot be
  abandoned, and a task that cancelled itself still runs the sink.
\<close>

datatype unwinding = FinishingDrive call_phase | FinishingEmit safety_event

record 'd guard =
  g_registration :: actuator_registration
  g_device :: 'd
  g_beat :: bool
  g_last_beat :: seconds
  g_latched :: bool
  g_latch_detail :: event_detail
  g_heartbeat_lost :: bool
  g_at_safe_state :: bool
  g_runtime_task :: "runtime_task option"
  g_watch_task :: "watch_pc option"
  g_unwinding :: "unwinding list"

definition heartbeat_timeout_s :: "'d guard \<Rightarrow> seconds" where
  "heartbeat_timeout_s g = the (ar_heartbeat_timeout_s (g_registration g))"

definition max_runtime_s :: "'d guard \<Rightarrow> seconds" where
  "max_runtime_s g = the (ar_max_runtime_s (g_registration g))"

definition safe_state_of :: "'d guard \<Rightarrow> level" where
  "safe_state_of g = the (ar_safe_state (g_registration g))"

text \<open>An \<open>apply\<close> that awaits the driver: actuator, commanded level, effective level, phase.\<close>

record in_flight =
  fl_actuator_id :: string
  fl_level :: level
  fl_effective :: level
  fl_phase :: call_phase

record 'd supervisor =
  sv_guards :: "(string \<times> 'd guard) list"
  sv_clock_trusted :: bool
  sv_running :: bool
  sv_loop_time :: seconds
  sv_now :: pydatetime
  sv_in_flight :: "in_flight option"
  sv_events :: "safety_event list"
  sv_heard :: "safety_event list"

definition guard_of :: "'d supervisor \<Rightarrow> string \<Rightarrow> 'd guard option" where
  "guard_of sv aid = map_of (sv_guards sv) aid"

definition upd_guard :: "string \<Rightarrow> ('d guard \<Rightarrow> 'd guard) \<Rightarrow> 'd supervisor \<Rightarrow> 'd supervisor" where
  "upd_guard aid f sv =
     sv\<lparr>sv_guards := map (\<lambda>(k, g). (k, if k = aid then f g else g)) (sv_guards sv)\<rparr>"

lemma guard_of_upd [simp]:
  "guard_of (upd_guard aid f sv) k =
     (if k = aid then map_option f (guard_of sv k) else guard_of sv k)"
proof -
  have "map_of (map (\<lambda>(k, g). (k, if k = aid then f g else g)) xs) k =
      (if k = aid then map_option f (map_of xs k) else map_of xs k)" for xs
    by (induction xs) auto
  then show ?thesis by (simp add: guard_of_def upd_guard_def)
qed

lemma upd_guard_fields [simp]:
  "sv_clock_trusted (upd_guard aid f sv) = sv_clock_trusted sv"
  "sv_running (upd_guard aid f sv) = sv_running sv"
  "sv_loop_time (upd_guard aid f sv) = sv_loop_time sv"
  "sv_now (upd_guard aid f sv) = sv_now sv"
  "sv_in_flight (upd_guard aid f sv) = sv_in_flight sv"
  "sv_events (upd_guard aid f sv) = sv_events sv"
  "sv_heard (upd_guard aid f sv) = sv_heard sv"
  "map fst (sv_guards (upd_guard aid f sv)) = map fst (sv_guards sv)"
  by (simp_all add: upd_guard_def case_prod_beta comp_def)

lemma guard_of_fields [simp]:
  "guard_of (sv\<lparr>sv_in_flight := fl\<rparr>) = guard_of sv"
  "guard_of (sv\<lparr>sv_events := evs\<rparr>) = guard_of sv"
  "guard_of (sv\<lparr>sv_heard := hs\<rparr>) = guard_of sv"
  "guard_of (sv\<lparr>sv_clock_trusted := c\<rparr>) = guard_of sv"
  "guard_of (sv\<lparr>sv_running := r\<rparr>) = guard_of sv"
  "guard_of (sv\<lparr>sv_loop_time := t\<rparr>) = guard_of sv"
  "guard_of (sv\<lparr>sv_now := n\<rparr>) = guard_of sv"
  by (simp_all add: guard_of_def fun_eq_iff)

definition supervisor_init :: "pydatetime \<Rightarrow> bool \<Rightarrow> seconds \<Rightarrow> 'd supervisor" where
  "supervisor_init now trusted t =
     \<lparr>sv_guards = [], sv_clock_trusted = trusted, sv_running = False, sv_loop_time = t,
      sv_now = now, sv_in_flight = None, sv_events = [], sv_heard = []\<rparr>"

section \<open>Telling the sink\<close>

definition safety_event_of ::
    "'d supervisor \<Rightarrow> string \<Rightarrow> trip_reason \<Rightarrow> event_detail \<Rightarrow> bool \<Rightarrow> safety_event" where
  "safety_event_of sv aid reason detail reached =
     \<lparr>se_actuator_id = aid, se_reason = reason, se_at = sv_now sv, se_detail = detail,
      se_reached_safe = reached\<rparr>"

definition tell :: "safety_event \<Rightarrow> 'd supervisor \<Rightarrow> 'd supervisor" where
  "tell ev sv = sv\<lparr>sv_events := sv_events sv @ [ev]\<rparr>"

definition hear :: "event_sink \<Rightarrow> safety_event \<Rightarrow> 'd supervisor \<Rightarrow> unit result \<times> 'd supervisor" where
  "hear sink ev sv =
     (case sink ev of
        SinkRaises e \<Rightarrow> (Inl e, sv)
      | SinkCompletes _ \<Rightarrow> (Inr (), sv\<lparr>sv_heard := sv_heard sv @ [ev]\<rparr>))"

text \<open>\<open>_emit\<close> and \<open>_emit_unowned\<close>, from a task nobody is cancelling.\<close>

definition emit_event ::
    "event_sink \<Rightarrow> string \<Rightarrow> trip_reason \<Rightarrow> event_detail \<Rightarrow> bool \<Rightarrow> 'd supervisor
       \<Rightarrow> unit result \<times> 'd supervisor" where
  "emit_event sink aid reason detail reached sv =
     (let ev = safety_event_of sv aid reason detail reached in hear sink ev (tell ev sv))"

text \<open>What is left of the sink's run in a task that is already being cancelled.\<close>

definition hear_cancelled :: "event_sink \<Rightarrow> safety_event \<Rightarrow> 'd supervisor \<Rightarrow> 'd supervisor" where
  "hear_cancelled sink ev sv =
     (if sink ev = SinkCompletes False then sv\<lparr>sv_heard := sv_heard sv @ [ev]\<rparr> else sv)"

section \<open>Bookkeeping on a guard\<close>

text \<open>\<open>Task.cancel\<close> on the runtime task: what of it remains to unwind.\<close>

fun cancelled_runtime :: "runtime_task option \<Rightarrow> unwinding list" where
  "cancelled_runtime (Some (RtLive (RtTripping (Driving Writing)))) = [FinishingDrive Writing]"
| "cancelled_runtime (Some (RtLive (RtTripping (EmittingSuccess ev)))) = [FinishingEmit ev]"
| "cancelled_runtime (Some (RtLive (RtTripping (Driving (Landed r))))) = [FinishingDrive (Landed r)]"
| "cancelled_runtime _ = []"

fun runtime_live :: "runtime_task option \<Rightarrow> bool" where
  "runtime_live (Some (RtLive _)) = True"
| "runtime_live _ = False"

definition mark_safe :: "'d guard \<Rightarrow> 'd guard" where
  "mark_safe g =
     (let g = g\<lparr>g_at_safe_state := True\<rparr>
      in if runtime_live (g_runtime_task g)
         then g\<lparr>g_unwinding := g_unwinding g @ cancelled_runtime (g_runtime_task g),
                g_runtime_task := None\<rparr>
         else g)"

definition note_level :: "level \<Rightarrow> 'd guard \<Rightarrow> 'd guard" where
  "note_level l g =
     (if l = safe_state_of g
      then g\<lparr>g_at_safe_state := True,
             g_unwinding := g_unwinding g @ cancelled_runtime (g_runtime_task g),
             g_runtime_task := None\<rparr>
      else if g_at_safe_state g \<or> \<not> runtime_live (g_runtime_task g)
      then g\<lparr>g_at_safe_state := False,
             g_runtime_task := (if runtime_live (g_runtime_task g) then g_runtime_task g
                                else Some (RtLive RtStarting))\<rparr>
      else g)"

section \<open>Commands\<close>

text \<open>A refusal: tell the sink, then return the outcome.\<close>

definition refuse ::
    "event_sink \<Rightarrow> string \<Rightarrow> trip_reason \<Rightarrow> event_detail \<Rightarrow> command_outcome \<Rightarrow> 'd supervisor
       \<Rightarrow> command_outcome option result \<times> 'd supervisor" where
  "refuse sink aid reason detail out sv =
     (case emit_event sink aid reason detail True sv of
        (Inl e, sv) \<Rightarrow> (Inl e, sv) | (Inr (), sv) \<Rightarrow> (Inr (Some out), sv))"

text \<open>
  \<open>apply\<close> up to its first await of the driver: either it answers, or it raises, or the
  driver call is in flight.
\<close>

definition apply_admit ::
    "'d driver \<Rightarrow> event_sink \<Rightarrow> actuator_command \<Rightarrow> 'd supervisor
       \<Rightarrow> command_outcome option result \<times> 'd supervisor" where
  "apply_admit drv sink c sv =
     (let aid = ac_actuator_id c
      in case guard_of sv aid of
           None \<Rightarrow> refuse sink aid UnknownActuator NoSuchActuator RejectedUnknown sv
         | Some g \<Rightarrow>
             if \<not> sv_clock_trusted sv
             then refuse sink aid ClockUntrusted ClockNotSynchronised RejectedClock sv
             else case is_expired c (sv_now sv) of
               Inl e \<Rightarrow> (Inl e, sv)
             | Inr True \<Rightarrow>
                 refuse sink aid CommandExpired (ExpiredAt (ac_expires_at c)) RejectedExpired sv
             | Inr False \<Rightarrow>
                 if g_latched g
                 then refuse sink aid LatchedReason (LatchedBecause (g_latch_detail g)) RejectedLatched sv
                 else case drv_effective drv (ac_level c) of
                   Inl e \<Rightarrow> (Inl e, sv)
                 | Inr eff \<Rightarrow>
                     (Inr None, sv\<lparr>sv_in_flight := Some
                        \<lparr>fl_actuator_id = aid, fl_level = ac_level c, fl_effective = eff,
                         fl_phase = Waiting\<rparr>\<rparr>))"

text \<open>The write of the awaited call takes effect.\<close>

definition apply_land :: "'d driver \<Rightarrow> in_flight \<Rightarrow> 'd guard \<Rightarrow> unit result \<times> 'd guard" where
  "apply_land drv fl g =
     (case drv_apply drv (fl_level fl) (g_device g) of (r, d) \<Rightarrow> (r, g\<lparr>g_device := d\<rparr>))"

text \<open>The rest of \<open>apply\<close>, once the driver call has ended.\<close>

fun apply_resume :: "in_flight \<Rightarrow> unit result \<Rightarrow> 'd guard \<Rightarrow> command_outcome result \<times> 'd guard" where
  "apply_resume fl (Inl e) g = (Inl e, g)"
| "apply_resume fl (Inr ()) g = (Inr Applied, note_level (fl_effective fl) g)"

text \<open>\<open>apply\<close> when nothing else runs while it awaits the driver.\<close>

definition sup_apply ::
    "'d driver \<Rightarrow> event_sink \<Rightarrow> actuator_command \<Rightarrow> 'd supervisor
       \<Rightarrow> command_outcome result \<times> 'd supervisor" where
  "sup_apply drv sink c sv =
     (case apply_admit drv sink c sv of
        (Inl e, sv) \<Rightarrow> (Inl e, sv)
      | (Inr (Some out), sv) \<Rightarrow> (Inr out, sv)
      | (Inr None, sv) \<Rightarrow>
          (case (sv_in_flight sv, guard_of sv (ac_actuator_id c)) of
             (Some fl, Some g) \<Rightarrow>
               (case apply_land drv fl g of
                  (r, g) \<Rightarrow>
                    (case apply_resume fl r g of
                       (out, g) \<Rightarrow>
                         (out, upd_guard (ac_actuator_id c) (\<lambda>_. g) (sv\<lparr>sv_in_flight := None\<rparr>))))
           | _ \<Rightarrow> (Inl (KeyError (ac_actuator_id c)), sv)))"

section \<open>Registration, latch, heartbeat\<close>

definition new_guard :: "actuator_registration \<Rightarrow> 'd \<Rightarrow> 'd guard" where
  "new_guard r d =
     \<lparr>g_registration = r, g_device = d, g_beat = False, g_last_beat = 0, g_latched = False,
      g_latch_detail = NoDetail, g_heartbeat_lost = False, g_at_safe_state = True,
      g_runtime_task = None, g_watch_task = None, g_unwinding = []\<rparr>"

definition register :: "actuator_registration \<Rightarrow> 'd \<Rightarrow> 'd supervisor \<Rightarrow> 'd supervisor result" where
  "register r d sv =
     (let aid = ar_actuator_id r
      in if guard_of sv aid \<noteq> None then Inl (ValueError ''actuator already registered'')
         else if ar_control_authority r \<noteq> Authoritative
         then Inl (ValueError ''hardware-io registers authoritative actuators only'')
         else if ar_safe_state r = None \<or> ar_max_runtime_s r = None \<or> ar_heartbeat_timeout_s r = None
         then Inl (ValueError ''is authoritative but incomplete'')
         else
           let g = new_guard r d;
               g = (if sv_running sv
                    then g\<lparr>g_last_beat := sv_loop_time sv, g_watch_task := Some WatchTop\<rparr> else g)
           in Inr (sv\<lparr>sv_guards := sv_guards sv @ [(aid, g)]\<rparr>))"

definition sup_heartbeat :: "'d supervisor \<Rightarrow> 'd supervisor" where
  "sup_heartbeat sv =
     sv\<lparr>sv_guards := map (\<lambda>(k, g). (k, g\<lparr>g_last_beat := sv_loop_time sv, g_beat := True\<rparr>))
                        (sv_guards sv)\<rparr>"

definition set_clock_trusted :: "bool \<Rightarrow> 'd supervisor \<Rightarrow> 'd supervisor" where
  "set_clock_trusted v sv = sv\<lparr>sv_clock_trusted := v\<rparr>"

definition clear_latch ::
    "event_sink \<Rightarrow> string \<Rightarrow> string \<Rightarrow> 'd supervisor \<Rightarrow> unit result \<times> 'd supervisor" where
  "clear_latch sink aid operator sv =
     (case guard_of sv aid of
        None \<Rightarrow> (Inl (KeyError aid), sv)
      | Some _ \<Rightarrow>
          emit_event sink aid LatchedReason (LatchClearedBy operator) True
            (upd_guard aid (\<lambda>g. g\<lparr>g_latched := False, g_latch_detail := NoDetail\<rparr>) sv))"

definition is_latched :: "string \<Rightarrow> 'd supervisor \<Rightarrow> bool result" where
  "is_latched aid sv =
     (case guard_of sv aid of None \<Rightarrow> Inl (KeyError aid) | Some g \<Rightarrow> Inr (g_latched g))"

definition is_at_safe_state :: "string \<Rightarrow> 'd supervisor \<Rightarrow> bool result" where
  "is_at_safe_state aid sv =
     (case guard_of sv aid of None \<Rightarrow> Inl (KeyError aid) | Some g \<Rightarrow> Inr (g_at_safe_state g))"

definition registration_of :: "string \<Rightarrow> 'd supervisor \<Rightarrow> actuator_registration result" where
  "registration_of aid sv =
     (case guard_of sv aid of None \<Rightarrow> Inl (KeyError aid) | Some g \<Rightarrow> Inr (g_registration g))"

definition actuator_ids :: "'d supervisor \<Rightarrow> string list" where
  "actuator_ids sv = map fst (sv_guards sv)"

section \<open>Start and stop\<close>

text \<open>
  \<open>start\<close> runs before any command; its awaits are the drivers', one guard after the other.
  A sink that raises escapes it.
\<close>

definition start_guard ::
    "'d driver \<Rightarrow> event_sink \<Rightarrow> string \<Rightarrow> 'd guard \<Rightarrow> 'd supervisor
       \<Rightarrow> py_error option result \<times> 'd supervisor" where
  "start_guard drv sink aid g sv =
     (case drv_drive_safe drv (g_device g) of
        (Inr (), d) \<Rightarrow>
          (Inr None, upd_guard aid (\<lambda>g. g\<lparr>g_last_beat := sv_loop_time sv, g_device := d,
             g_at_safe_state := True, g_watch_task := Some WatchTop\<rparr>) sv)
      | (Inl e, d) \<Rightarrow>
          (case emit_event sink aid Shutdown (StartupUnsafe e) False
                  (upd_guard aid (\<lambda>g. g\<lparr>g_last_beat := sv_loop_time sv, g_device := d,
                     g_latched := True, g_latch_detail := StartupUnsafe e\<rparr>) sv) of
             (Inl e', sv) \<Rightarrow> (Inl e', sv)
           | (Inr (), sv) \<Rightarrow>
               (Inr (Some e), upd_guard aid (\<lambda>g. g\<lparr>g_watch_task := Some WatchTop\<rparr>) sv)))"

text \<open>
  \<open>stop\<close> on one guard: both tasks are cancelled and awaited - a drive already writing
  finishes its write - and then the guard is driven safe once more. Whatever
  \<open>_drive_safe\<close> raises, the driver's exception or the sink's, is reported the same way.
\<close>

fun unwind_drive :: "'d driver \<Rightarrow> trip_pc \<Rightarrow> 'd \<Rightarrow> 'd" where
  "unwind_drive drv (Driving Writing) d = snd (drv_drive_safe drv d)"
| "unwind_drive drv _ d = d"

fun unwind_watch :: "'d driver \<Rightarrow> watch_pc option \<Rightarrow> 'd \<Rightarrow> 'd" where
  "unwind_watch drv (Some (WatchTripping pc)) d = unwind_drive drv pc d"
| "unwind_watch drv _ d = d"

fun unwind_runtime :: "'d driver \<Rightarrow> runtime_task option \<Rightarrow> 'd \<Rightarrow> 'd" where
  "unwind_runtime drv (Some (RtLive (RtTripping pc))) d = unwind_drive drv pc d"
| "unwind_runtime drv _ d = d"

definition cancel_tasks :: "'d driver \<Rightarrow> 'd guard \<Rightarrow> 'd guard" where
  "cancel_tasks drv g =
     g\<lparr>g_device := unwind_runtime drv (g_runtime_task g) (unwind_watch drv (g_watch_task g) (g_device g)),
       g_watch_task := None, g_runtime_task := None\<rparr>"

definition drive_safe_once ::
    "'d driver \<Rightarrow> event_sink \<Rightarrow> string \<Rightarrow> 'd guard \<Rightarrow> trip_reason \<Rightarrow> event_detail \<Rightarrow> 'd supervisor
       \<Rightarrow> unit result \<times> 'd supervisor" where
  "drive_safe_once drv sink aid g reason detail sv =
     (case drv_drive_safe drv (g_device g) of
        (Inl e, d) \<Rightarrow> (Inl e, upd_guard aid (\<lambda>_. g\<lparr>g_device := d\<rparr>) sv)
      | (Inr (), d) \<Rightarrow>
          emit_event sink aid reason detail True
            (upd_guard aid (\<lambda>_. mark_safe (g\<lparr>g_device := d\<rparr>)) sv))"

definition stop_guard ::
    "'d driver \<Rightarrow> event_sink \<Rightarrow> string \<Rightarrow> 'd guard \<Rightarrow> 'd supervisor
       \<Rightarrow> py_error option result \<times> 'd supervisor" where
  "stop_guard drv sink aid g sv =
     (case drive_safe_once drv sink aid (cancel_tasks drv g) Shutdown SupervisorStopping sv of
        (Inr (), sv) \<Rightarrow> (Inr None, sv)
      | (Inl e, sv) \<Rightarrow>
          (case emit_event sink aid Shutdown (ShutdownDriveFailed e) False sv of
             (Inl e', sv) \<Rightarrow> (Inl e', sv)
           | (Inr (), sv) \<Rightarrow> (Inr (Some e), sv)))"

text \<open>Both loop over the guards in order and raise what failed, together, at the end.\<close>

fun each_guard ::
    "(string \<Rightarrow> 'd guard \<Rightarrow> 'd supervisor \<Rightarrow> py_error option result \<times> 'd supervisor)
       \<Rightarrow> string list \<Rightarrow> py_error list \<Rightarrow> 'd supervisor \<Rightarrow> unit result \<times> 'd supervisor" where
  "each_guard f [] failures sv =
     (if failures = [] then (Inr (), sv) else (Inl (ExceptionGroup failures), sv))"
| "each_guard f (aid # aids) failures sv =
     (case guard_of sv aid of
        None \<Rightarrow> each_guard f aids failures sv
      | Some g \<Rightarrow>
          (case f aid g sv of
             (Inl e, sv) \<Rightarrow> (Inl e, sv)
           | (Inr None, sv) \<Rightarrow> each_guard f aids failures sv
           | (Inr (Some e), sv) \<Rightarrow> each_guard f aids (failures @ [e]) sv))"

definition sup_start :: "'d driver \<Rightarrow> event_sink \<Rightarrow> 'd supervisor \<Rightarrow> unit result \<times> 'd supervisor" where
  "sup_start drv sink sv =
     each_guard (start_guard drv sink) (actuator_ids sv) [] (sv\<lparr>sv_running := True\<rparr>)"

definition sup_stop :: "'d driver \<Rightarrow> event_sink \<Rightarrow> 'd supervisor \<Rightarrow> unit result \<times> 'd supervisor" where
  "sup_stop drv sink sv =
     each_guard (stop_guard drv sink) (actuator_ids sv) [] (sv\<lparr>sv_running := False\<rparr>)"

section \<open>The background tasks\<close>

text \<open>
  One segment of \<open>_drive_safe_with_retry\<close>: it goes on to another point, or it has just
  driven safe and tells so, or it returns. A sink that raises is ignored.
\<close>

datatype trip_segment = TripAt trip_pc | TripDroveSafe safety_event | TripReturned

fun trip_run ::
    "event_sink \<Rightarrow> string \<Rightarrow> trip_reason \<Rightarrow> event_detail \<Rightarrow> trip_pc \<Rightarrow> 'd supervisor
       \<Rightarrow> (trip_segment \<times> 'd supervisor) option" where
  "trip_run sink aid reason detail (Driving (Landed (Inr ()))) sv =
     (let ev = safety_event_of sv aid reason detail True in Some (TripDroveSafe ev, tell ev sv))"
| "trip_run sink aid reason detail (Driving (Landed (Inl e))) sv =
     (let ev = safety_event_of sv aid reason (TripDriveFailed e) False
      in Some (TripAt (EmittingFailure ev), tell ev sv))"
| "trip_run sink aid reason detail (Driving _) sv = None"
| "trip_run sink aid reason detail (EmittingFailure ev) sv =
     Some (if sv_running sv then TripAt (BackingOff (sv_loop_time sv + RETRY_BACKOFF_S))
           else TripReturned, snd (hear sink ev sv))"
| "trip_run sink aid reason detail (BackingOff until) sv =
     (if until \<le> sv_loop_time sv then Some (TripAt (Driving Waiting), sv) else None)"
| "trip_run sink aid reason detail (EmittingSuccess ev) sv =
     Some (TripReturned, snd (hear sink ev sv))"

text \<open>The top of the watcher's loop, down to its next await.\<close>

definition watch_top :: "bool \<Rightarrow> seconds \<Rightarrow> 'd guard \<Rightarrow> 'd guard" where
  "watch_top running t g =
     (if \<not> running then g\<lparr>g_watch_task := Some WatchEnded\<rparr>
      else
        let remaining = (g_last_beat g + heartbeat_timeout_s g) - t
        in if remaining \<le> 0
           then if \<not> g_heartbeat_lost g
                then g\<lparr>g_heartbeat_lost := True, g_watch_task := Some (WatchTripping (Driving Waiting))\<rparr>
                else g\<lparr>g_watch_task := Some WatchForBeat\<rparr>
           else g\<lparr>g_watch_task := Some (WatchUntil (t + remaining))\<rparr>)"

definition watch_run :: "event_sink \<Rightarrow> string \<Rightarrow> 'd guard \<Rightarrow> 'd supervisor \<Rightarrow> 'd supervisor option" where
  "watch_run sink aid g sv =
     (case g_watch_task g of
        None \<Rightarrow> None
      | Some WatchEnded \<Rightarrow> None
      | Some WatchTop \<Rightarrow> Some (upd_guard aid (watch_top (sv_running sv) (sv_loop_time sv)) sv)
      | Some WatchForBeat \<Rightarrow>
          if g_beat g
          then Some (upd_guard aid (\<lambda>g. g\<lparr>g_beat := False, g_heartbeat_lost := False,
                       g_watch_task := Some WatchTop\<rparr>) sv)
          else None
      | Some (WatchUntil deadline) \<Rightarrow>
          if g_beat g
          then Some (upd_guard aid (\<lambda>g. g\<lparr>g_beat := False, g_watch_task := Some WatchTop\<rparr>) sv)
          else if deadline \<le> sv_loop_time sv
          then Some (upd_guard aid (\<lambda>g. g\<lparr>g_watch_task := Some WatchTop\<rparr>) sv)
          else None
      | Some (WatchTripping pc) \<Rightarrow>
          (case trip_run sink aid HeartbeatTimeout (NoHeartbeatFor (heartbeat_timeout_s g)) pc sv of
             None \<Rightarrow> None
           | Some (TripAt pc, sv) \<Rightarrow>
               Some (upd_guard aid (\<lambda>g. g\<lparr>g_watch_task := Some (WatchTripping pc)\<rparr>) sv)
           | Some (TripDroveSafe ev, sv) \<Rightarrow>
               Some (upd_guard aid (\<lambda>g. mark_safe
                       (g\<lparr>g_watch_task := Some (WatchTripping (EmittingSuccess ev))\<rparr>)) sv)
           | Some (TripReturned, sv) \<Rightarrow>
               Some (upd_guard aid (\<lambda>g. g\<lparr>g_watch_task := Some WatchForBeat\<rparr>) sv)))"

text \<open>
  \<open>_runtime_deadline\<close>. When its own drive lands, \<open>_mark_safe\<close> cancels the task that is
  running it: what remains is the sink's run, to be cut at its first suspension.
\<close>

definition runtime_run :: "event_sink \<Rightarrow> string \<Rightarrow> 'd guard \<Rightarrow> 'd supervisor \<Rightarrow> 'd supervisor option" where
  "runtime_run sink aid g sv =
     (case g_runtime_task g of
        Some (RtLive RtStarting) \<Rightarrow>
          Some (upd_guard aid (\<lambda>g. g\<lparr>g_runtime_task :=
                  Some (RtLive (RtSleeping (sv_loop_time sv + max_runtime_s g)))\<rparr>) sv)
      | Some (RtLive (RtSleeping deadline)) \<Rightarrow>
          if deadline \<le> sv_loop_time sv
          then Some (upd_guard aid (\<lambda>g. g\<lparr>g_latched := True,
                  g_latch_detail := RanPast (max_runtime_s g),
                  g_runtime_task := Some (RtLive (RtTripping (Driving Waiting)))\<rparr>) sv)
          else None
      | Some (RtLive (RtTripping pc)) \<Rightarrow>
          (case trip_run sink aid MaxRuntimeExceeded (RanPast (max_runtime_s g)) pc sv of
             None \<Rightarrow> None
           | Some (TripAt pc, sv) \<Rightarrow>
               Some (upd_guard aid (\<lambda>g. g\<lparr>g_runtime_task := Some (RtLive (RtTripping pc))\<rparr>) sv)
           | Some (TripDroveSafe ev, sv) \<Rightarrow>
               Some (upd_guard aid (\<lambda>g. mark_safe
                       (g\<lparr>g_runtime_task := Some (RtLive (RtTripping (EmittingSuccess ev)))\<rparr>)) sv)
           | Some (TripReturned, sv) \<Rightarrow>
               Some (upd_guard aid (\<lambda>g. g\<lparr>g_runtime_task := Some RtDone\<rparr>) sv))
      | _ \<Rightarrow> None)"

end
