(* ===== verification/SafetySteps.thy ===== *)
theory SafetySteps
  imports Safety
begin

text \<open>
  The event loop's interleavings of the supervisor. \<open>serial\<close> says whether the drivers hold
  a lock from before the write until their caller runs again (the PCA9685 does, the RP1
  driver has none). The invariants are proved in \<open>safety_driver\<close>, for every driver that
  keeps its laws.
\<close>

section \<open>Interleaving\<close>

fun phase_busy :: "call_phase \<Rightarrow> nat" where
  "phase_busy Waiting = 0"
| "phase_busy _ = 1"

fun trip_busy :: "trip_pc \<Rightarrow> nat" where
  "trip_busy (Driving ph) = phase_busy ph"
| "trip_busy _ = 0"

fun watch_busy :: "watch_pc option \<Rightarrow> nat" where
  "watch_busy (Some (WatchTripping pc)) = trip_busy pc"
| "watch_busy _ = 0"

fun runtime_busy :: "runtime_task option \<Rightarrow> nat" where
  "runtime_busy (Some (RtLive (RtTripping pc))) = trip_busy pc"
| "runtime_busy _ = 0"

fun unwinding_busy :: "unwinding list \<Rightarrow> nat" where
  "unwinding_busy [] = 0"
| "unwinding_busy (FinishingDrive ph # us) = phase_busy ph + unwinding_busy us"
| "unwinding_busy (FinishingEmit _ # us) = unwinding_busy us"

definition flight_busy :: "string \<Rightarrow> in_flight option \<Rightarrow> nat" where
  "flight_busy aid fl =
     (case fl of Some f \<Rightarrow> if fl_actuator_id f = aid then phase_busy (fl_phase f) else 0 | None \<Rightarrow> 0)"

text \<open>How many driver calls on this actuator are past the lock and not yet back.\<close>

definition busy_calls :: "string \<Rightarrow> in_flight option \<Rightarrow> 'd guard \<Rightarrow> nat" where
  "busy_calls aid fl g =
     watch_busy (g_watch_task g) + runtime_busy (g_runtime_task g)
       + unwinding_busy (g_unwinding g) + flight_busy aid fl"

datatype sup_label =
    Advance seconds pydatetime
  | Beat
  | TrustChanges bool
  | LatchCleared string string
  | ApplyCalled actuator_command
  | ApplyAcquires
  | ApplyLands
  | ApplyResumes
  | WatchRuns string
  | WatchAcquires string
  | WatchLands string
  | RuntimeRuns string
  | RuntimeAcquires string
  | RuntimeLands string
  | UnwindLands string
  | UnwindEnds string

text \<open>The guard a driver call moves: its device, by \<open>drive_safe\<close>.\<close>

definition land_safe :: "'d driver \<Rightarrow> 'd guard \<Rightarrow> unit result \<times> 'd guard" where
  "land_safe drv g = (case drv_drive_safe drv (g_device g) of (r, d) \<Rightarrow> (r, g\<lparr>g_device := d\<rparr>))"

definition may_acquire :: "bool \<Rightarrow> string \<Rightarrow> 'd supervisor \<Rightarrow> 'd guard \<Rightarrow> bool" where
  "may_acquire serial aid sv g = (serial \<longrightarrow> busy_calls aid (sv_in_flight sv) g = 0)"

definition apply_step ::
    "bool \<Rightarrow> 'd driver \<Rightarrow> sup_label \<Rightarrow> 'd supervisor \<Rightarrow> 'd supervisor option" where
  "apply_step serial drv lab sv =
     (case sv_in_flight sv of
        None \<Rightarrow> None
      | Some fl \<Rightarrow>
          let aid = fl_actuator_id fl
          in case guard_of sv aid of
               None \<Rightarrow> None
             | Some g \<Rightarrow>
                 (case (lab, fl_phase fl) of
                    (ApplyAcquires, Waiting) \<Rightarrow>
                      if may_acquire serial aid sv g
                      then Some (sv\<lparr>sv_in_flight := Some (fl\<lparr>fl_phase := Writing\<rparr>)\<rparr>) else None
                  | (ApplyLands, Writing) \<Rightarrow>
                      (case apply_land drv fl g of
                         (r, g) \<Rightarrow> Some (upd_guard aid (\<lambda>_. g)
                                     (sv\<lparr>sv_in_flight := Some (fl\<lparr>fl_phase := Landed r\<rparr>)\<rparr>)))
                  | (ApplyResumes, Landed r) \<Rightarrow>
                      Some (upd_guard aid (\<lambda>_. snd (apply_resume fl r g)) (sv\<lparr>sv_in_flight := None\<rparr>))
                  | _ \<Rightarrow> None))"

definition watch_call_step ::
    "bool \<Rightarrow> 'd driver \<Rightarrow> bool \<Rightarrow> string \<Rightarrow> 'd guard \<Rightarrow> 'd supervisor \<Rightarrow> 'd supervisor option" where
  "watch_call_step serial drv land aid g sv =
     (case g_watch_task g of
        Some (WatchTripping (Driving ph)) \<Rightarrow>
          (if \<not> land \<and> ph = Waiting \<and> may_acquire serial aid sv g
           then Some (upd_guard aid (\<lambda>g. g\<lparr>g_watch_task := Some (WatchTripping (Driving Writing))\<rparr>) sv)
           else if land \<and> ph = Writing
           then (case land_safe drv g of
                   (r, g) \<Rightarrow> Some (upd_guard aid
                     (\<lambda>_. g\<lparr>g_watch_task := Some (WatchTripping (Driving (Landed r)))\<rparr>) sv))
           else None)
      | _ \<Rightarrow> None)"

definition runtime_call_step ::
    "bool \<Rightarrow> 'd driver \<Rightarrow> bool \<Rightarrow> string \<Rightarrow> 'd guard \<Rightarrow> 'd supervisor \<Rightarrow> 'd supervisor option" where
  "runtime_call_step serial drv land aid g sv =
     (case g_runtime_task g of
        Some (RtLive (RtTripping (Driving ph))) \<Rightarrow>
          (if \<not> land \<and> ph = Waiting \<and> may_acquire serial aid sv g
           then Some (upd_guard aid
                  (\<lambda>g. g\<lparr>g_runtime_task := Some (RtLive (RtTripping (Driving Writing)))\<rparr>) sv)
           else if land \<and> ph = Writing
           then (case land_safe drv g of
                   (r, g) \<Rightarrow> Some (upd_guard aid
                     (\<lambda>_. g\<lparr>g_runtime_task := Some (RtLive (RtTripping (Driving (Landed r))))\<rparr>) sv))
           else None)
      | _ \<Rightarrow> None)"

text \<open>The first of the cancelled tasks that still unwind takes its next step.\<close>

definition unwind_step ::
    "'d driver \<Rightarrow> event_sink \<Rightarrow> bool \<Rightarrow> string \<Rightarrow> 'd guard \<Rightarrow> 'd supervisor \<Rightarrow> 'd supervisor option" where
  "unwind_step drv sink land aid g sv =
     (case g_unwinding g of
        [] \<Rightarrow> None
      | FinishingDrive Writing # us \<Rightarrow>
          if land
          then (case land_safe drv g of
                  (r, g) \<Rightarrow> Some (upd_guard aid
                    (\<lambda>_. g\<lparr>g_unwinding := FinishingDrive (Landed r) # us\<rparr>) sv))
          else None
      | FinishingDrive (Landed _) # us \<Rightarrow>
          if land then None else Some (upd_guard aid (\<lambda>g. g\<lparr>g_unwinding := us\<rparr>) sv)
      | FinishingDrive Waiting # us \<Rightarrow>
          if land then None else Some (upd_guard aid (\<lambda>g. g\<lparr>g_unwinding := us\<rparr>) sv)
      | FinishingEmit ev # us \<Rightarrow>
          if land then None
          else Some (upd_guard aid (\<lambda>g. g\<lparr>g_unwinding := us\<rparr>) (hear_cancelled sink ev sv)))"

lemma apply_step_cases:
  assumes "apply_step serial drv lab sv = Some sv'"
  obtains (acquires) fl g where "sv_in_flight sv = Some fl" "guard_of sv (fl_actuator_id fl) = Some g"
      "lab = ApplyAcquires" "fl_phase fl = Waiting" "sv' = sv\<lparr>sv_in_flight := Some (fl\<lparr>fl_phase := Writing\<rparr>)\<rparr>"
  | (lands) fl g r d where "sv_in_flight sv = Some fl" "guard_of sv (fl_actuator_id fl) = Some g"
      "lab = ApplyLands" "fl_phase fl = Writing" "drv_apply drv (fl_level fl) (g_device g) = (r, d)"
      "sv' = upd_guard (fl_actuator_id fl) (\<lambda>_. g\<lparr>g_device := d\<rparr>)
         (sv\<lparr>sv_in_flight := Some (fl\<lparr>fl_phase := Landed r\<rparr>)\<rparr>)"
  | (resumes) fl g r where "sv_in_flight sv = Some fl" "guard_of sv (fl_actuator_id fl) = Some g"
      "lab = ApplyResumes" "fl_phase fl = Landed r"
      "sv' = upd_guard (fl_actuator_id fl) (\<lambda>_. snd (apply_resume fl r g)) (sv\<lparr>sv_in_flight := None\<rparr>)"
proof -
  from assms obtain fl g where fl: "sv_in_flight sv = Some fl" "guard_of sv (fl_actuator_id fl) = Some g"
    by (auto simp: apply_step_def Let_def split: option.splits)
  consider (acq) "lab = ApplyAcquires" "fl_phase fl = Waiting"
    | (lnd) "lab = ApplyLands" "fl_phase fl = Writing"
    | (res) r where "lab = ApplyResumes" "fl_phase fl = Landed r"
    using assms fl by (auto simp: apply_step_def Let_def split: sup_label.splits call_phase.splits)
  then show thesis
  proof cases
    case acq
    with assms fl show ?thesis by (intro acquires [OF fl]) (auto simp: apply_step_def split: if_splits)
  next
    case lnd
    obtain r d where "drv_apply drv (fl_level fl) (g_device g) = (r, d)" by fastforce
    with lnd assms fl show ?thesis by (intro lands [OF fl]) (auto simp: apply_step_def apply_land_def)
  next
    case (res r)
    with assms fl show ?thesis by (intro resumes [OF fl]) (auto simp: apply_step_def)
  qed
qed

lemma unwind_step_eq:
  assumes "unwind_step drv sink land aid g sv = Some sv'"
  obtains (drive) d us where "sv' = upd_guard aid (\<lambda>_. g\<lparr>g_device := d, g_unwinding := us\<rparr>) sv"
  | (ends) us where "sv' = upd_guard aid (\<lambda>g. g\<lparr>g_unwinding := us\<rparr>) sv"
  | (emit) ev us where "sv' = upd_guard aid (\<lambda>g. g\<lparr>g_unwinding := us\<rparr>) (hear_cancelled sink ev sv)"
  using assms by (auto simp: unwind_step_def land_safe_def
      split: list.splits unwinding.splits call_phase.splits if_splits prod.splits)

definition on_guard ::
    "string \<Rightarrow> ('d guard \<Rightarrow> 'd supervisor \<Rightarrow> 'd supervisor option) \<Rightarrow> 'd supervisor
       \<Rightarrow> 'd supervisor option" where
  "on_guard aid f sv = (case guard_of sv aid of None \<Rightarrow> None | Some g \<Rightarrow> f g sv)"

fun sup_step ::
    "bool \<Rightarrow> 'd driver \<Rightarrow> event_sink \<Rightarrow> sup_label \<Rightarrow> 'd supervisor \<Rightarrow> 'd supervisor option" where
  "sup_step serial drv sink (Advance t now) sv =
     (if sv_loop_time sv \<le> t then Some (sv\<lparr>sv_loop_time := t, sv_now := now\<rparr>) else None)"
| "sup_step serial drv sink Beat sv = Some (sup_heartbeat sv)"
| "sup_step serial drv sink (TrustChanges v) sv = Some (set_clock_trusted v sv)"
| "sup_step serial drv sink (LatchCleared aid operator) sv =
     Some (snd (clear_latch sink aid operator sv))"
| "sup_step serial drv sink (ApplyCalled c) sv =
     (if sv_in_flight sv = None then Some (snd (apply_admit drv sink c sv)) else None)"
| "sup_step serial drv sink ApplyAcquires sv = apply_step serial drv ApplyAcquires sv"
| "sup_step serial drv sink ApplyLands sv = apply_step serial drv ApplyLands sv"
| "sup_step serial drv sink ApplyResumes sv = apply_step serial drv ApplyResumes sv"
| "sup_step serial drv sink (WatchRuns aid) sv = on_guard aid (watch_run sink aid) sv"
| "sup_step serial drv sink (WatchAcquires aid) sv =
     on_guard aid (watch_call_step serial drv False aid) sv"
| "sup_step serial drv sink (WatchLands aid) sv =
     on_guard aid (watch_call_step serial drv True aid) sv"
| "sup_step serial drv sink (RuntimeRuns aid) sv = on_guard aid (runtime_run sink aid) sv"
| "sup_step serial drv sink (RuntimeAcquires aid) sv =
     on_guard aid (runtime_call_step serial drv False aid) sv"
| "sup_step serial drv sink (RuntimeLands aid) sv =
     on_guard aid (runtime_call_step serial drv True aid) sv"
| "sup_step serial drv sink (UnwindLands aid) sv = on_guard aid (unwind_step drv sink True aid) sv"
| "sup_step serial drv sink (UnwindEnds aid) sv = on_guard aid (unwind_step drv sink False aid) sv"

inductive sup_run ::
    "bool \<Rightarrow> 'd driver \<Rightarrow> event_sink \<Rightarrow> 'd supervisor \<Rightarrow> sup_label list \<Rightarrow> 'd supervisor \<Rightarrow> bool"
  for serial drv sink where
  sup_run_nil: "sup_run serial drv sink sv [] sv"
| sup_run_snoc: "sup_run serial drv sink sv ls sv' \<Longrightarrow> sup_step serial drv sink l sv' = Some sv''
     \<Longrightarrow> sup_run serial drv sink sv (ls @ [l]) sv''"

fun sup_exec ::
    "bool \<Rightarrow> 'd driver \<Rightarrow> event_sink \<Rightarrow> sup_label list \<Rightarrow> 'd supervisor \<Rightarrow> 'd supervisor option" where
  "sup_exec serial drv sink [] sv = Some sv"
| "sup_exec serial drv sink (l # ls) sv =
     (case sup_step serial drv sink l sv of None \<Rightarrow> None | Some sv' \<Rightarrow> sup_exec serial drv sink ls sv')"

lemma sup_exec_append:
  "sup_exec serial drv sink (ls @ ms) sv =
     (case sup_exec serial drv sink ls sv of None \<Rightarrow> None | Some sv' \<Rightarrow> sup_exec serial drv sink ms sv')"
  by (induction ls arbitrary: sv) (auto split: option.splits)

lemma sup_run_exec: "sup_run serial drv sink sv ls sv' \<longleftrightarrow> sup_exec serial drv sink ls sv = Some sv'"
proof
  show "sup_run serial drv sink sv ls sv' \<Longrightarrow> sup_exec serial drv sink ls sv = Some sv'"
    by (induction rule: sup_run.induct) (auto simp: sup_exec_append)
  show "sup_exec serial drv sink ls sv = Some sv' \<Longrightarrow> sup_run serial drv sink sv ls sv'"
    by (induction ls arbitrary: sv' rule: rev_induct)
      (auto simp: sup_exec_append intro: sup_run.intros split: option.splits)
qed

end
