(* ===== verification/SafetyInv.thy ===== *)
theory SafetyInv
  imports SafetySteps
begin

text \<open>
  The safety invariant of the supervisor over serial drivers: an output that is not at its
  safe level has a live runtime-cap task, and the recorded \<open>at_safe_state\<close> is true of the
  device. It is kept by every step of every interleaving.
\<close>

section \<open>The safety invariant\<close>

text \<open>An \<open>apply\<close> has just lit the output and has not come back to its caller yet.\<close>

definition just_lit :: "level \<Rightarrow> string \<Rightarrow> in_flight option \<Rightarrow> bool" where
  "just_lit safe aid fl =
     (case fl of Some f \<Rightarrow> fl_actuator_id f = aid \<and> fl_phase f = Landed (Inr ()) \<and> fl_effective f \<noteq> safe
      | None \<Rightarrow> False)"

fun flight_truthful :: "level \<Rightarrow> bool \<Rightarrow> string \<Rightarrow> in_flight option \<Rightarrow> bool" where
  "flight_truthful safe drk aid (Some f) =
     (fl_actuator_id f = aid \<and> fl_phase f = Landed (Inr ()) \<longrightarrow> (drk \<longleftrightarrow> fl_effective f = safe))"
| "flight_truthful safe drk aid None = True"

fun watch_truthful :: "bool \<Rightarrow> watch_pc option \<Rightarrow> bool" where
  "watch_truthful drk (Some (WatchTripping (Driving (Landed (Inr ()))))) = drk"
| "watch_truthful drk _ = True"

fun runtime_truthful :: "bool \<Rightarrow> runtime_task option \<Rightarrow> bool" where
  "runtime_truthful drk (Some (RtLive (RtTripping (Driving (Landed (Inr ())))))) = drk"
| "runtime_truthful drk (Some (RtLive (RtTripping (EmittingSuccess _)))) = False"
| "runtime_truthful drk (Some RtDone) = False"
| "runtime_truthful drk _ = True"

definition guard_inv :: "level \<Rightarrow> bool \<Rightarrow> string \<Rightarrow> in_flight option \<Rightarrow> 'd guard \<Rightarrow> bool" where
  "guard_inv safe drk aid fl g =
     (safe_state_of g = safe
      \<and> busy_calls aid fl g \<le> 1
      \<and> watch_truthful drk (g_watch_task g)
      \<and> runtime_truthful drk (g_runtime_task g)
      \<and> flight_truthful safe drk aid fl
      \<and> (drk \<or> runtime_live (g_runtime_task g) \<or> just_lit safe aid fl)
      \<and> (g_at_safe_state g \<longrightarrow> drk \<or> just_lit safe aid fl))"

definition flight_ok :: "'d driver \<Rightarrow> in_flight option \<Rightarrow> bool" where
  "flight_ok drv fl = (case fl of Some f \<Rightarrow> drv_effective drv (fl_level f) = Inr (fl_effective f) | None \<Rightarrow> True)"

definition sup_inv :: "'d driver \<Rightarrow> level \<Rightarrow> ('d \<Rightarrow> bool) \<Rightarrow> ('d \<Rightarrow> bool) \<Rightarrow> 'd supervisor \<Rightarrow> bool" where
  "sup_inv drv safe dark ok sv =
     (sv_running sv \<and> flight_ok drv (sv_in_flight sv)
      \<and> (\<forall>aid g. guard_of sv aid = Some g \<longrightarrow>
           ok (g_device g) \<and> guard_inv safe (dark (g_device g)) aid (sv_in_flight sv) g))"

lemma runtime_live_iff: "runtime_live r \<longleftrightarrow> (\<exists>pc. r = Some (RtLive pc))"
  by (cases r rule: runtime_live.cases) auto

lemma unwinding_busy_append [simp]: "unwinding_busy (us @ vs) = unwinding_busy us + unwinding_busy vs"
  by (induction us rule: unwinding_busy.induct) auto

lemma cancelled_runtime_busy: "unwinding_busy (cancelled_runtime r) \<le> runtime_busy r"
  by (cases r rule: cancelled_runtime.cases) auto

lemma phase_busy_le [simp]: "phase_busy ph \<le> 1"
  by (cases ph) auto

lemma runtime_busy_None [simp]: "runtime_busy None = 0" by simp

lemma safe_state_upd [simp]:
  "safe_state_of (mark_safe g) = safe_state_of g"
  "safe_state_of (note_level l g) = safe_state_of g"
  by (simp_all add: safe_state_of_def mark_safe_def note_level_def Let_def)

lemma mark_safe_fields [simp]:
  "g_device (mark_safe g) = g_device g"
  "g_watch_task (mark_safe g) = g_watch_task g"
  "g_at_safe_state (mark_safe g)"
  "g_registration (mark_safe g) = g_registration g"
  "g_latched (mark_safe g) = g_latched g"
  by (simp_all add: mark_safe_def Let_def)

lemma note_level_fields [simp]:
  "g_device (note_level l g) = g_device g"
  "g_watch_task (note_level l g) = g_watch_task g"
  "g_registration (note_level l g) = g_registration g"
  "g_latched (note_level l g) = g_latched g"
  by (simp_all add: note_level_def)

lemma mark_safe_busy: "busy_calls aid fl (mark_safe g) \<le> busy_calls aid fl g"
  using cancelled_runtime_busy [of "g_runtime_task g"]
  by (auto simp: busy_calls_def mark_safe_def Let_def)

lemma mark_safe_runtime: "g_runtime_task (mark_safe g) =
    (if runtime_live (g_runtime_task g) then None else g_runtime_task g)"
  by (simp add: mark_safe_def Let_def)

lemma note_level_busy: "busy_calls aid fl (note_level l g) \<le> busy_calls aid fl g"
  using cancelled_runtime_busy [of "g_runtime_task g"]
  by (auto simp: busy_calls_def note_level_def)

lemma note_level_runtime: "g_runtime_task (note_level l g) =
    (if l = safe_state_of g then None
     else if runtime_live (g_runtime_task g) then g_runtime_task g else Some (RtLive RtStarting))"
  by (simp add: note_level_def)

lemma note_level_at_safe: "g_at_safe_state (note_level l g) \<longleftrightarrow> l = safe_state_of g"
  by (auto simp: note_level_def)

lemma heartbeat_guards:
  "guard_of (sup_heartbeat sv) aid =
     map_option (\<lambda>g. g\<lparr>g_last_beat := sv_loop_time sv, g_beat := True\<rparr>) (guard_of sv aid)"
proof -
  have "map_of (map (\<lambda>(k, g). (k, f g)) xs) aid = map_option f (map_of xs aid)" for f :: "'a guard \<Rightarrow> 'a guard" and xs
    by (induction xs) auto
  then show ?thesis by (simp add: guard_of_def sup_heartbeat_def)
qed

lemma heartbeat_fields [simp]:
  "sv_running (sup_heartbeat sv) = sv_running sv" "sv_in_flight (sup_heartbeat sv) = sv_in_flight sv"
  "sv_loop_time (sup_heartbeat sv) = sv_loop_time sv" "sv_events (sup_heartbeat sv) = sv_events sv"
  "sv_clock_trusted (sup_heartbeat sv) = sv_clock_trusted sv" "sv_now (sup_heartbeat sv) = sv_now sv"
  by (simp_all add: sup_heartbeat_def)

lemma emit_event_fields:
  assumes "emit_event sink aid reason detail reached sv = (r, sv')"
  shows "guard_of sv' = guard_of sv" "sv_in_flight sv' = sv_in_flight sv"
    "sv_running sv' = sv_running sv" "sv_clock_trusted sv' = sv_clock_trusted sv"
    "sv_loop_time sv' = sv_loop_time sv" "sv_now sv' = sv_now sv"
    "sv_events sv' = sv_events sv @ [safety_event_of sv aid reason detail reached]"
  using assms by (auto simp: emit_event_def hear_def tell_def Let_def split: sink_outcome.splits)

lemma hear_fields [simp]:
  "guard_of (snd (hear sink ev sv)) = guard_of sv"
  "sv_in_flight (snd (hear sink ev sv)) = sv_in_flight sv"
  "sv_running (snd (hear sink ev sv)) = sv_running sv"
  "sv_loop_time (snd (hear sink ev sv)) = sv_loop_time sv"
  "sv_now (snd (hear sink ev sv)) = sv_now sv"
  "sv_events (snd (hear sink ev sv)) = sv_events sv"
  by (auto simp: hear_def split: sink_outcome.splits)

lemma tell_fields [simp]:
  "guard_of (tell ev sv) = guard_of sv"
  "sv_in_flight (tell ev sv) = sv_in_flight sv"
  "sv_running (tell ev sv) = sv_running sv"
  "sv_loop_time (tell ev sv) = sv_loop_time sv"
  "sv_now (tell ev sv) = sv_now sv"
  "sv_events (tell ev sv) = sv_events sv @ [ev]"
  by (simp_all add: tell_def)

lemma hear_cancelled_fields [simp]:
  "guard_of (hear_cancelled sink ev sv) = guard_of sv"
  "sv_in_flight (hear_cancelled sink ev sv) = sv_in_flight sv"
  "sv_running (hear_cancelled sink ev sv) = sv_running sv"
  "sv_loop_time (hear_cancelled sink ev sv) = sv_loop_time sv"
  "sv_events (hear_cancelled sink ev sv) = sv_events sv"
  by (simp_all add: hear_cancelled_def)

text \<open>A step on one guard that leaves the call in flight alone.\<close>

lemma sup_inv_guard:
  assumes "sup_inv drv safe dark ok sv" "guard_of sv aid = Some g"
    and "sv' = upd_guard aid f sv1" "guard_of sv1 = guard_of sv"
    and "sv_running sv1 = sv_running sv" "sv_in_flight sv1 = sv_in_flight sv"
    and "guard_inv safe (dark (g_device g)) aid (sv_in_flight sv) g \<Longrightarrow>
         guard_inv safe (dark (g_device (f g))) aid (sv_in_flight sv) (f g)"
    and "ok (g_device g) \<Longrightarrow> ok (g_device (f g))"
  shows "sup_inv drv safe dark ok sv'"
  using assms by (auto simp: sup_inv_def)

lemma guard_inv_cong_fields:
  assumes "guard_inv safe drk aid fl g"
    and "g_watch_task g' = g_watch_task g" "g_runtime_task g' = g_runtime_task g"
    and "g_unwinding g' = g_unwinding g" "g_at_safe_state g' = g_at_safe_state g"
    and "g_registration g' = g_registration g"
  shows "guard_inv safe drk aid fl g'"
  using assms by (simp add: guard_inv_def safe_state_of_def busy_calls_def)

lemma guard_inv_watch:
  assumes "guard_inv safe drk aid fl g"
    and "watch_busy (g_watch_task g') \<le> watch_busy (g_watch_task g)"
    and "watch_truthful drk (g_watch_task g')" "g_runtime_task g' = g_runtime_task g"
    and "g_unwinding g' = g_unwinding g" "g_at_safe_state g' = g_at_safe_state g"
    and "g_registration g' = g_registration g"
  shows "guard_inv safe drk aid fl g'"
  using assms by (simp add: guard_inv_def safe_state_of_def busy_calls_def)

lemma guard_inv_runtime:
  assumes "guard_inv safe drk aid fl g"
    and "runtime_busy (g_runtime_task g') \<le> runtime_busy (g_runtime_task g)"
    and "runtime_truthful drk (g_runtime_task g')" "runtime_live (g_runtime_task g')"
    and "g_watch_task g' = g_watch_task g"
    and "g_unwinding g' = g_unwinding g" "g_at_safe_state g' = g_at_safe_state g"
    and "g_registration g' = g_registration g"
  shows "guard_inv safe drk aid fl g'"
  using assms by (simp add: guard_inv_def safe_state_of_def busy_calls_def)

lemma guard_inv_mark_safe:
  assumes "guard_inv safe drk aid fl g" "drk" "watch_truthful drk w"
    and "watch_busy w \<le> watch_busy (g_watch_task g)"
  shows "guard_inv safe drk aid fl (mark_safe (g\<lparr>g_watch_task := w\<rparr>))"
  using assms mark_safe_busy [of aid fl "g\<lparr>g_watch_task := w\<rparr>"]
  by (auto simp: guard_inv_def safe_state_of_def busy_calls_def mark_safe_runtime runtime_live_iff)

definition trip_seg_ok :: "trip_pc \<Rightarrow> trip_segment \<Rightarrow> bool" where
  "trip_seg_ok pc seg =
     (case seg of TripAt pc' \<Rightarrow> (\<forall>ph. pc' = Driving ph \<longrightarrow> ph = Waiting) \<and> (\<forall>ev. pc' \<noteq> EmittingSuccess ev)
      | TripDroveSafe ev \<Rightarrow> pc = Driving (Landed (Inr ()))
      | TripReturned \<Rightarrow> pc \<noteq> Driving (Landed (Inr ())))"

lemma trip_run_frame:
  assumes "trip_run sink aid rs dt pc sv = Some (seg, sv1)"
  shows "guard_of sv1 = guard_of sv \<and> sv_running sv1 = sv_running sv
    \<and> sv_in_flight sv1 = sv_in_flight sv \<and> sv_loop_time sv1 = sv_loop_time sv \<and> sv_now sv1 = sv_now sv"
  using assms by (cases "(sink, aid, rs, dt, pc, sv)" rule: trip_run.cases)
    (auto simp: Let_def split: if_splits)

lemma trip_run_ok:
  assumes "trip_run sink aid rs dt pc sv = Some (seg, sv1)"
  shows "trip_seg_ok pc seg"
  using assms by (cases "(sink, aid, rs, dt, pc, sv)" rule: trip_run.cases)
    (auto simp: Let_def trip_seg_ok_def split: if_splits)

lemma trip_returned:
  assumes "trip_run sink aid rs dt pc sv = Some (TripReturned, sv1)" "sv_running sv"
  shows "\<exists>ev. pc = EmittingSuccess ev"
  using assms by (cases "(sink, aid, rs, dt, pc, sv)" rule: trip_run.cases)
    (auto simp: Let_def split: if_splits)

lemma trip_seg_quiet:
  "trip_seg_ok pc (TripAt pc') \<Longrightarrow> trip_busy pc' = 0 \<and> watch_truthful drk (Some (WatchTripping pc'))
     \<and> runtime_truthful drk (Some (RtLive (RtTripping pc')))"
  by (cases pc') (auto simp: trip_seg_ok_def)

fun watch_after :: "trip_segment \<Rightarrow> 'd guard \<Rightarrow> 'd guard" where
  "watch_after (TripAt pc) g = g\<lparr>g_watch_task := Some (WatchTripping pc)\<rparr>"
| "watch_after (TripDroveSafe ev) g = mark_safe (g\<lparr>g_watch_task := Some (WatchTripping (EmittingSuccess ev))\<rparr>)"
| "watch_after TripReturned g = g\<lparr>g_watch_task := Some WatchForBeat\<rparr>"

fun runtime_after :: "trip_segment \<Rightarrow> 'd guard \<Rightarrow> 'd guard" where
  "runtime_after (TripAt pc) g = g\<lparr>g_runtime_task := Some (RtLive (RtTripping pc))\<rparr>"
| "runtime_after (TripDroveSafe ev) g =
     mark_safe (g\<lparr>g_runtime_task := Some (RtLive (RtTripping (EmittingSuccess ev)))\<rparr>)"
| "runtime_after TripReturned g = g\<lparr>g_runtime_task := Some RtDone\<rparr>"

lemma watch_after_inv:
  assumes "guard_inv safe drk aid fl g" "g_watch_task g = Some (WatchTripping pc)" "trip_seg_ok pc seg"
  shows "guard_inv safe drk aid fl (watch_after seg g)"
proof (cases seg)
  case (TripAt pc')
  then show ?thesis using assms trip_seg_quiet [of pc pc' drk]
    by (auto intro!: guard_inv_watch [OF assms(1)])
next
  case (TripDroveSafe ev)
  then have "drk" using assms by (simp add: guard_inv_def trip_seg_ok_def)
  then show ?thesis using assms TripDroveSafe by (auto intro!: guard_inv_mark_safe)
next
  case TripReturned
  then show ?thesis using assms by (auto intro!: guard_inv_watch [OF assms(1)])
qed

lemma watch_run_cases:
  assumes "watch_run sink aid g sv = Some sv'"
  obtains (top) "g_watch_task g = Some WatchTop"
      "sv' = upd_guard aid (watch_top (sv_running sv) (sv_loop_time sv)) sv"
  | (beat) w where "w = WatchForBeat \<or> (\<exists>d. w = WatchUntil d)" "g_watch_task g = Some w"
      "g_beat g" "sv' = upd_guard aid (\<lambda>g. g\<lparr>g_beat := False,
         g_heartbeat_lost := (if w = WatchForBeat then False else g_heartbeat_lost g),
         g_watch_task := Some WatchTop\<rparr>) sv"
  | (due) d where "g_watch_task g = Some (WatchUntil d)" "\<not> g_beat g" "d \<le> sv_loop_time sv"
      "sv' = upd_guard aid (\<lambda>g. g\<lparr>g_watch_task := Some WatchTop\<rparr>) sv"
  | (trip) pc seg sv1 where "g_watch_task g = Some (WatchTripping pc)"
      "trip_run sink aid HeartbeatTimeout (NoHeartbeatFor (heartbeat_timeout_s g)) pc sv = Some (seg, sv1)"
      "sv' = upd_guard aid (watch_after seg) sv1"
proof (cases "g_watch_task g")
  case (Some w)
  show ?thesis
  proof (cases w)
    case (WatchUntil d)
    show ?thesis
    proof (cases "g_beat g")
      case True
      with assms Some WatchUntil show ?thesis
        by (intro beat [of w]) (simp_all add: watch_run_def)
    next
      case False
      with assms Some WatchUntil show ?thesis
        by (intro due [of d]) (auto simp: watch_run_def split: if_splits)
    qed
  next
    case (WatchTripping pc)
    with assms Some obtain seg sv1 where
      tr: "trip_run sink aid HeartbeatTimeout (NoHeartbeatFor (heartbeat_timeout_s g)) pc sv = Some (seg, sv1)"
      by (auto simp: watch_run_def split: option.splits)
    show ?thesis
      by (rule trip [OF _ tr]) (use assms Some WatchTripping tr in
        \<open>auto simp: watch_run_def fun_eq_iff intro!: arg_cong2 [where f = "upd_guard aid"] split: trip_segment.splits\<close>)
  qed (use assms Some top beat in \<open>auto simp: watch_run_def split: if_splits\<close>)
qed (use assms in \<open>simp add: watch_run_def\<close>)

lemma watch_run_inv:
  assumes inv: "sup_inv drv safe dark ok sv" and g: "guard_of sv aid = Some g"
    and run: "watch_run sink aid g sv = Some sv'"
  shows "sup_inv drv safe dark ok sv'"
  using run
proof (cases rule: watch_run_cases)
  case top
  show ?thesis
    by (rule sup_inv_guard [OF inv g top(2)])
      (auto simp: watch_top_def Let_def elim!: guard_inv_watch)
next
  case (beat w)
  show ?thesis by (rule sup_inv_guard [OF inv g beat(4)]) (auto elim!: guard_inv_watch)
next
  case (due d)
  show ?thesis by (rule sup_inv_guard [OF inv g due(4)]) (auto elim!: guard_inv_watch)
next
  case (trip pc seg sv1)
  note fr = trip_run_frame [OF trip(2)]
  have dev: "g_device (watch_after seg g) = g_device g" by (cases seg) auto
  show ?thesis
    by (rule sup_inv_guard [OF inv g trip(3)])
      (use fr watch_after_inv [OF _ trip(1) trip_run_ok [OF trip(2)]] dev in auto)
qed

lemma runtime_after_inv:
  assumes gi: "guard_inv safe drk aid fl g" and rt: "g_runtime_task g = Some (RtLive (RtTripping pc))"
    and ok: "trip_seg_ok pc seg" and ret: "seg = TripReturned \<Longrightarrow> \<exists>ev. pc = EmittingSuccess ev"
  shows "guard_inv safe drk aid fl (runtime_after seg g)"
proof (cases seg)
  case (TripAt pc')
  then show ?thesis using assms trip_seg_quiet [of pc pc' drk]
    by (auto intro!: guard_inv_runtime [OF gi])
next
  case (TripDroveSafe ev)
  with ok rt gi have "drk" by (simp add: guard_inv_def trip_seg_ok_def)
  with TripDroveSafe gi show ?thesis
    by (simp add: guard_inv_def mark_safe_def busy_calls_def safe_state_of_def)
next
  case TripReturned
  with ret rt gi show ?thesis by (auto simp: guard_inv_def)
qed

lemma runtime_run_cases:
  assumes "runtime_run sink aid g sv = Some sv'"
  obtains (starting) "g_runtime_task g = Some (RtLive RtStarting)"
      "sv' = upd_guard aid (\<lambda>g. g\<lparr>g_runtime_task :=
                  Some (RtLive (RtSleeping (sv_loop_time sv + max_runtime_s g)))\<rparr>) sv"
  | (due) d where "g_runtime_task g = Some (RtLive (RtSleeping d))" "d \<le> sv_loop_time sv"
      "sv' = upd_guard aid (\<lambda>g. g\<lparr>g_latched := True, g_latch_detail := RanPast (max_runtime_s g),
                  g_runtime_task := Some (RtLive (RtTripping (Driving Waiting)))\<rparr>) sv"
  | (trip) pc seg sv1 where "g_runtime_task g = Some (RtLive (RtTripping pc))"
      "trip_run sink aid MaxRuntimeExceeded (RanPast (max_runtime_s g)) pc sv = Some (seg, sv1)"
      "sv' = upd_guard aid (runtime_after seg) sv1"
proof (cases "g_runtime_task g")
  case (Some r)
  show ?thesis
  proof (cases r)
    case (RtLive p)
    show ?thesis
    proof (cases p)
      case (RtSleeping d)
      with assms Some RtLive show ?thesis
        by (intro due [of d]) (auto simp: runtime_run_def split: if_splits)
    next
      case (RtTripping pc)
      with assms Some RtLive obtain seg sv1 where
        tr: "trip_run sink aid MaxRuntimeExceeded (RanPast (max_runtime_s g)) pc sv = Some (seg, sv1)"
        by (auto simp: runtime_run_def split: option.splits)
      show ?thesis
        by (rule trip [OF _ tr]) (use assms Some RtLive RtTripping tr in
          \<open>auto simp: runtime_run_def fun_eq_iff intro!: arg_cong2 [where f = "upd_guard aid"] split: trip_segment.splits\<close>)
    qed (use assms Some RtLive starting in \<open>auto simp: runtime_run_def\<close>)
  qed (use assms Some in \<open>simp add: runtime_run_def\<close>)
qed (use assms in \<open>simp add: runtime_run_def\<close>)

lemma runtime_run_inv:
  assumes inv: "sup_inv drv safe dark ok sv" and g: "guard_of sv aid = Some g"
    and run: "runtime_run sink aid g sv = Some sv'"
  shows "sup_inv drv safe dark ok sv'"
  using run
proof (cases rule: runtime_run_cases)
  case starting
  show ?thesis
    by (rule sup_inv_guard [OF inv g starting(2)]) (use starting(1) in \<open>auto elim!: guard_inv_runtime\<close>)
next
  case (due d)
  show ?thesis
    by (rule sup_inv_guard [OF inv g due(3)]) (use due(1) in \<open>auto elim!: guard_inv_runtime\<close>)
next
  case (trip pc seg sv1)
  note fr = trip_run_frame [OF trip(2)]
  have dev: "g_device (runtime_after seg g) = g_device g" by (cases seg) auto
  have "sv_running sv" using inv by (simp add: sup_inv_def)
  then have ret: "seg = TripReturned \<Longrightarrow> \<exists>ev. pc = EmittingSuccess ev"
    using trip_returned trip(2) by blast
  show ?thesis
    by (rule sup_inv_guard [OF inv g trip(3)])
      (use fr runtime_after_inv [OF _ trip(1) trip_run_ok [OF trip(2)] ret] dev in auto)
qed

lemma flight_quiet:
  assumes "flight_busy aid fl = 0"
  shows "flight_truthful safe drk aid fl" "\<not> just_lit safe aid fl"
  using assms by (auto simp: flight_busy_def just_lit_def split: option.splits if_splits)

lemma watch_quiet: "watch_busy w = 0 \<Longrightarrow> watch_truthful drk w"
  by (cases "(drk, w)" rule: watch_truthful.cases) auto

lemma runtime_quiet: "runtime_busy r = 0 \<Longrightarrow> runtime_truthful drk r \<Longrightarrow> runtime_truthful drk' r"
  by (cases "(drk, r)" rule: runtime_truthful.cases) auto

lemma guard_inv_other:
  assumes "\<forall>f. fl = Some f \<longrightarrow> fl_actuator_id f \<noteq> k" "\<forall>f. fl' = Some f \<longrightarrow> fl_actuator_id f \<noteq> k"
  shows "guard_inv safe drk k fl g = guard_inv safe drk k fl' g"
proof -
  have "flight_busy k fl = flight_busy k fl'" "flight_truthful safe drk k fl = flight_truthful safe drk k fl'"
    "just_lit safe k fl = just_lit safe k fl'"
    using assms by (cases fl; cases fl'; auto simp: flight_busy_def just_lit_def)+
  then show ?thesis by (simp add: guard_inv_def busy_calls_def)
qed

text \<open>A step on the call in flight, and on the guard it is for.\<close>

lemma sup_inv_flight:
  assumes inv: "sup_inv drv safe dark ok sv" and fl: "sv_in_flight sv = Some fl"
    and g: "guard_of sv (fl_actuator_id fl) = Some g"
    and gd: "\<And>k. guard_of sv' k = (if k = fl_actuator_id fl then Some g' else guard_of sv k)"
    and run: "sv_running sv'" and fl': "sv_in_flight sv' = fl'"
    and fok: "flight_ok drv fl'" and same: "\<forall>f. fl' = Some f \<longrightarrow> fl_actuator_id f = fl_actuator_id fl"
    and keep: "guard_inv safe (dark (g_device g)) (fl_actuator_id fl) (Some fl) g \<Longrightarrow>
          guard_inv safe (dark (g_device g')) (fl_actuator_id fl) fl' g'"
    and okk: "ok (g_device g) \<Longrightarrow> ok (g_device g')"
  shows "sup_inv drv safe dark ok sv'"
proof -
  have "guard_inv safe (dark (g_device k)) aid fl' k"
    if "aid \<noteq> fl_actuator_id fl" "guard_of sv aid = Some k" for aid k
  proof -
    have "guard_inv safe (dark (g_device k)) aid (Some fl) k"
      using inv fl that by (auto simp: sup_inv_def)
    moreover have "\<forall>f. Some fl = Some f \<longrightarrow> fl_actuator_id f \<noteq> aid"
      using that(1) by simp
    moreover have "\<forall>f. fl' = Some f \<longrightarrow> fl_actuator_id f \<noteq> aid"
      using that(1) same by metis
    ultimately show ?thesis
      using guard_inv_other [of "Some fl" aid fl' safe "dark (g_device k)" k] by simp
  qed
  note other = this
  have own: "guard_inv safe (dark (g_device g')) (fl_actuator_id fl) fl' g'"
    by (rule keep) (use inv fl g in \<open>simp add: sup_inv_def\<close>)
  have "guard_inv safe (dark (g_device k)) aid fl' k" if k: "guard_of sv' aid = Some k" for aid k
  proof (cases "aid = fl_actuator_id fl")
    case True
    with k gd own show ?thesis by simp
  next
    case False
    with k gd have "guard_of sv aid = Some k" by simp
    with False other show ?thesis by blast
  qed
  moreover have "ok (g_device k)" if k: "guard_of sv' aid = Some k" for aid k
    using k gd okk inv g unfolding sup_inv_def by (cases "aid = fl_actuator_id fl") auto
  ultimately show ?thesis using fok run fl' by (simp add: sup_inv_def)
qed

lemma guards_kept_inv:
  assumes inv: "sup_inv drv safe dark ok sv" and run: "sv_running sv' = sv_running sv"
    and fl: "sv_in_flight sv' = sv_in_flight sv"
    and keep: "\<forall>k g'. guard_of sv' k = Some g' \<longrightarrow>
      (\<exists>g. guard_of sv k = Some g \<and> g_watch_task g' = g_watch_task g
        \<and> g_runtime_task g' = g_runtime_task g \<and> g_unwinding g' = g_unwinding g
        \<and> g_at_safe_state g' = g_at_safe_state g \<and> g_registration g' = g_registration g
        \<and> g_device g' = g_device g)"
  shows "sup_inv drv safe dark ok sv'"
proof -
  have "guard_inv safe (dark (g_device g')) k (sv_in_flight sv) g'" if k: "guard_of sv' k = Some g'" for k g'
  proof -
    from keep k obtain g where g: "guard_of sv k = Some g" "g_watch_task g' = g_watch_task g"
        "g_runtime_task g' = g_runtime_task g" "g_unwinding g' = g_unwinding g"
        "g_at_safe_state g' = g_at_safe_state g" "g_registration g' = g_registration g"
        "g_device g' = g_device g"
      by blast
    from inv g(1) have "guard_inv safe (dark (g_device g)) k (sv_in_flight sv) g"
      by (simp add: sup_inv_def)
    with g show ?thesis using guard_inv_cong_fields by metis
  qed
  moreover have "ok (g_device g')" if k: "guard_of sv' k = Some g'" for k g'
  proof -
    from keep k obtain g where "guard_of sv k = Some g" "g_device g' = g_device g" by blast
    with inv show ?thesis by (simp add: sup_inv_def)
  qed
  ultimately show ?thesis using inv run fl by (simp add: sup_inv_def)
qed

lemma guard_inv_waiting:
  "guard_inv safe drk k None g \<Longrightarrow> fl_phase f = Waiting \<Longrightarrow> guard_inv safe drk k (Some f) g"
  by (simp add: guard_inv_def busy_calls_def flight_busy_def just_lit_def)

definition refused_frame :: "'d supervisor \<Rightarrow> 'd supervisor \<Rightarrow> bool" where
  "refused_frame sv sv' \<longleftrightarrow>
     guard_of sv' = guard_of sv \<and> sv_running sv' = sv_running sv
     \<and> sv_in_flight sv' = sv_in_flight sv \<and> sv_loop_time sv' = sv_loop_time sv"

definition flight_of :: "actuator_command \<Rightarrow> level \<Rightarrow> in_flight" where
  "flight_of c eff = \<lparr>fl_actuator_id = ac_actuator_id c, fl_level = ac_level c,
     fl_effective = eff, fl_phase = Waiting\<rparr>"

lemma refused_frame_refl [simp]: "refused_frame sv sv"
  by (simp add: refused_frame_def)

lemma refuse_eq:
  "refuse sink aid rs dt out sv =
     (case fst (emit_event sink aid rs dt True sv) of Inl e \<Rightarrow> Inl e | Inr _ \<Rightarrow> Inr (Some out),
      snd (emit_event sink aid rs dt True sv))"
  by (simp add: refuse_def split: prod.split sum.split unit.split)

lemma refuse_frame:
  assumes "refuse sink aid rs dt out sv = (r, sv')"
  shows "r \<noteq> Inr None \<and> refused_frame sv sv'"
proof -
  obtain x sv1 where e: "emit_event sink aid rs dt True sv = (x, sv1)" by fastforce
  with assms have "sv' = sv1" "r \<noteq> Inr None" by (auto simp: refuse_eq split: sum.splits)
  with emit_event_fields [OF e] show ?thesis by (simp add: refused_frame_def)
qed

lemma apply_admit_cases:
  assumes adm: "apply_admit drv sink c sv = (r, sv')"
  obtains (admitted) g eff where "r = Inr None" "guard_of sv (ac_actuator_id c) = Some g"
      "sv_clock_trusted sv" "is_expired c (sv_now sv) = Inr False" "\<not> g_latched g"
      "drv_effective drv (ac_level c) = Inr eff" "sv' = sv\<lparr>sv_in_flight := Some (flight_of c eff)\<rparr>"
  | (refused) "r \<noteq> Inr None" "refused_frame sv sv'"
proof (cases "guard_of sv (ac_actuator_id c)")
  case None
  with adm have "refuse sink (ac_actuator_id c) UnknownActuator NoSuchActuator RejectedUnknown sv = (r, sv')"
    by (simp add: apply_admit_def Let_def)
  from refuse_frame [OF this] show ?thesis using refused by blast
next
  case (Some g)
  show ?thesis
  proof (cases "sv_clock_trusted sv")
    case False
    with adm Some have "refuse sink (ac_actuator_id c) ClockUntrusted ClockNotSynchronised RejectedClock sv = (r, sv')"
      by (simp add: apply_admit_def Let_def)
    from refuse_frame [OF this] show ?thesis using refused by blast
  next
    case True
    show ?thesis
    proof (cases "is_expired c (sv_now sv)")
      case (Inl e)
      with adm Some True show ?thesis using refused by (auto simp: apply_admit_def Let_def)
    next
      case (Inr b)
      show ?thesis
      proof (cases "b \<or> g_latched g")
        case True
        with adm Some \<open>sv_clock_trusted sv\<close> Inr obtain rs dt out where
            "refuse sink (ac_actuator_id c) rs dt out sv = (r, sv')"
          by (cases b) (auto simp: apply_admit_def Let_def)
        from refuse_frame [OF this] show ?thesis using refused by blast
      next
        case False
        with adm Some True Inr show ?thesis
          using refused admitted [of g]
          by (cases "drv_effective drv (ac_level c)") (auto simp: apply_admit_def Let_def flight_of_def)
      qed
    qed
  qed
qed

context safety_driver
begin

lemma land_safe_guard:
  assumes gi: "guard_inv safe (dark (g_device g)) aid fl g" and dok: "ok (g_device g)"
    and land: "drv_drive_safe drv (g_device g) = (r, d)"
    and quiet: "flight_busy aid fl = 0"
    and w: "watch_busy (g_watch_task g) = 0 \<and> g_watch_task h = g_watch_task g
              \<or> g_watch_task h = Some (WatchTripping (Driving (Landed r))) \<and> watch_busy (g_watch_task g) = 1"
    and rt: "runtime_busy (g_runtime_task g) = 0 \<and> g_runtime_task h = g_runtime_task g
              \<or> g_runtime_task h = Some (RtLive (RtTripping (Driving (Landed r))))
                \<and> runtime_busy (g_runtime_task g) = 1"
    and h: "g_device h = d" "g_registration h = g_registration g"
      "g_at_safe_state h = g_at_safe_state g" "unwinding_busy (g_unwinding h) = unwinding_busy (g_unwinding g)"
  shows "guard_inv safe (dark (g_device h)) aid fl h"
proof -
  have dd: "dark (g_device g) \<longrightarrow> dark d" "r = Inr () \<longrightarrow> dark d"
    using drive_safe_keeps_dark [OF dok _ land] safe_lands [OF dok] land by auto
  have "watch_truthful (dark d) (g_watch_task h)"
    using w
  proof
    assume "watch_busy (g_watch_task g) = 0 \<and> g_watch_task h = g_watch_task g"
    then show ?thesis by (simp add: watch_quiet)
  next
    assume "g_watch_task h = Some (WatchTripping (Driving (Landed r))) \<and> watch_busy (g_watch_task g) = 1"
    then show ?thesis using dd(2) by (cases r) simp_all
  qed
  moreover have "runtime_truthful (dark d) (g_runtime_task h)"
    using rt
  proof
    assume q: "runtime_busy (g_runtime_task g) = 0 \<and> g_runtime_task h = g_runtime_task g"
    have "runtime_truthful (dark (g_device g)) (g_runtime_task g)" using gi by (simp add: guard_inv_def)
    with q show ?thesis using runtime_quiet by metis
  next
    assume "g_runtime_task h = Some (RtLive (RtTripping (Driving (Landed r))))
      \<and> runtime_busy (g_runtime_task g) = 1"
    then show ?thesis using dd(2) by (cases r) simp_all
  qed
  moreover have "runtime_live (g_runtime_task g) \<Longrightarrow> runtime_live (g_runtime_task h)"
    using rt by auto
  moreover have "busy_calls aid fl h = busy_calls aid fl g"
    unfolding busy_calls_def h(4) using w rt by (elim disjE conjE) simp_all
  ultimately show ?thesis
    using gi h(1,2,3) dd(1) flight_quiet [OF quiet, of safe]
    unfolding guard_inv_def safe_state_of_def by simp blast
qed

lemma watch_call_inv:
  assumes inv: "sup_inv drv safe dark ok sv" and g: "guard_of sv aid = Some g"
    and run: "watch_call_step True drv land aid g sv = Some sv'"
  shows "sup_inv drv safe dark ok sv'"
proof -
  from run obtain ph where w: "g_watch_task g = Some (WatchTripping (Driving ph))"
    by (auto simp: watch_call_step_def split: option.splits watch_pc.splits trip_pc.splits)
  from inv g have gi: "guard_inv safe (dark (g_device g)) aid (sv_in_flight sv) g"
    and dok: "ok (g_device g)"
    by (simp_all add: sup_inv_def)
  show ?thesis
  proof (cases land)
    case False
    with run w have free: "busy_calls aid (sv_in_flight sv) g = 0" and
      eq: "sv' = upd_guard aid (\<lambda>g. g\<lparr>g_watch_task := Some (WatchTripping (Driving Writing))\<rparr>) sv"
      by (auto simp: watch_call_step_def may_acquire_def split: if_splits)
    show ?thesis
      by (rule sup_inv_guard [OF inv g eq])
        (use free in \<open>auto simp: guard_inv_def busy_calls_def safe_state_of_def\<close>)
  next
    case True
    obtain r d where lnd: "drv_drive_safe drv (g_device g) = (r, d)" by fastforce
    let ?h = "g\<lparr>g_device := d, g_watch_task := Some (WatchTripping (Driving (Landed r)))\<rparr>"
    from True run w lnd have ph: "ph = Writing" and eq: "sv' = upd_guard aid (\<lambda>_. ?h) sv"
      by (auto simp: watch_call_step_def land_safe_def split: if_splits)
    have b: "runtime_busy (g_runtime_task g) = 0" "flight_busy aid (sv_in_flight sv) = 0"
      using gi w ph by (auto simp: guard_inv_def busy_calls_def)
    have "guard_inv safe (dark (g_device ?h)) aid (sv_in_flight sv) ?h"
      by (rule land_safe_guard [OF gi dok lnd b(2)]) (use w ph b(1) in simp_all)
    then show ?thesis
      by (intro sup_inv_guard [OF inv g eq]) (use safe_ok [OF dok lnd] in simp_all)
  qed
qed

lemma runtime_call_inv:
  assumes inv: "sup_inv drv safe dark ok sv" and g: "guard_of sv aid = Some g"
    and run: "runtime_call_step True drv land aid g sv = Some sv'"
  shows "sup_inv drv safe dark ok sv'"
proof -
  from run obtain ph where w: "g_runtime_task g = Some (RtLive (RtTripping (Driving ph)))"
    by (auto simp: runtime_call_step_def
        split: option.splits runtime_task.splits runtime_pc.splits trip_pc.splits)
  from inv g have gi: "guard_inv safe (dark (g_device g)) aid (sv_in_flight sv) g"
    and dok: "ok (g_device g)"
    by (simp_all add: sup_inv_def)
  show ?thesis
  proof (cases land)
    case False
    with run w have free: "busy_calls aid (sv_in_flight sv) g = 0" and
      eq: "sv' = upd_guard aid (\<lambda>g. g\<lparr>g_runtime_task := Some (RtLive (RtTripping (Driving Writing)))\<rparr>) sv"
      by (auto simp: runtime_call_step_def may_acquire_def split: if_splits)
    show ?thesis
      by (rule sup_inv_guard [OF inv g eq])
        (use free in \<open>auto simp: guard_inv_def busy_calls_def safe_state_of_def\<close>)
  next
    case True
    obtain r d where lnd: "drv_drive_safe drv (g_device g) = (r, d)" by fastforce
    let ?h = "g\<lparr>g_device := d, g_runtime_task := Some (RtLive (RtTripping (Driving (Landed r))))\<rparr>"
    from True run w lnd have ph: "ph = Writing" and eq: "sv' = upd_guard aid (\<lambda>_. ?h) sv"
      by (auto simp: runtime_call_step_def land_safe_def split: if_splits)
    have b: "watch_busy (g_watch_task g) = 0" "flight_busy aid (sv_in_flight sv) = 0"
      using gi w ph by (auto simp: guard_inv_def busy_calls_def)
    have "guard_inv safe (dark (g_device ?h)) aid (sv_in_flight sv) ?h"
      by (rule land_safe_guard [OF gi dok lnd b(2)]) (use w ph b(1) in simp_all)
    then show ?thesis
      by (intro sup_inv_guard [OF inv g eq]) (use safe_ok [OF dok lnd] in simp_all)
  qed
qed

lemma unwind_inv:
  assumes inv: "sup_inv drv safe dark ok sv" and g: "guard_of sv aid = Some g"
    and run: "unwind_step drv sink land aid g sv = Some sv'"
  shows "sup_inv drv safe dark ok sv'"
proof -
  from inv g have gi: "guard_inv safe (dark (g_device g)) aid (sv_in_flight sv) g"
    and dok: "ok (g_device g)"
    by (simp_all add: sup_inv_def)
  from run obtain u us where u: "g_unwinding g = u # us"
    by (auto simp: unwind_step_def split: list.splits)
  show ?thesis
  proof (cases land)
    case True
    obtain r d where lnd: "drv_drive_safe drv (g_device g) = (r, d)" by fastforce
    let ?h = "g\<lparr>g_device := d, g_unwinding := FinishingDrive (Landed r) # us\<rparr>"
    from True run u lnd have ph: "u = FinishingDrive Writing" and eq: "sv' = upd_guard aid (\<lambda>_. ?h) sv"
      by (auto simp: unwind_step_def land_safe_def split: unwinding.splits call_phase.splits)
    have b: "watch_busy (g_watch_task g) = 0" "runtime_busy (g_runtime_task g) = 0"
        "flight_busy aid (sv_in_flight sv) = 0"
      using gi u ph by (auto simp: guard_inv_def busy_calls_def)
    have "guard_inv safe (dark (g_device ?h)) aid (sv_in_flight sv) ?h"
      by (rule land_safe_guard [OF gi dok lnd b(3)]) (use u ph b in simp_all)
    then show ?thesis
      by (intro sup_inv_guard [OF inv g eq]) (use safe_ok [OF dok lnd] in simp_all)
  next
    case False
    with run u obtain sv1 where eq: "sv' = upd_guard aid (\<lambda>g. g\<lparr>g_unwinding := us\<rparr>) sv1"
      and fr: "guard_of sv1 = guard_of sv" "sv_running sv1 = sv_running sv"
        "sv_in_flight sv1 = sv_in_flight sv"
      by (auto simp: unwind_step_def split: unwinding.splits call_phase.splits)
    have "unwinding_busy us \<le> unwinding_busy (g_unwinding g)"
      by (cases u) (simp_all add: u)
    then have "guard_inv safe (dark (g_device g)) aid (sv_in_flight sv) (g\<lparr>g_unwinding := us\<rparr>)"
      using gi by (auto simp: guard_inv_def busy_calls_def safe_state_of_def)
    then show ?thesis
      by (intro sup_inv_guard [OF inv g eq fr]) simp_all
  qed
qed

lemma apply_step_inv:
  assumes inv: "sup_inv drv safe dark ok sv" and run: "apply_step True drv lab sv = Some sv'"
  shows "sup_inv drv safe dark ok sv'"
proof -
  from run obtain fl g where fl: "sv_in_flight sv = Some fl"
    and g: "guard_of sv (fl_actuator_id fl) = Some g"
    by (auto simp: apply_step_def Let_def split: option.splits)
  from inv g fl have gi: "guard_inv safe (dark (g_device g)) (fl_actuator_id fl) (Some fl) g"
    and dok: "ok (g_device g)"
    by (simp_all add: sup_inv_def)
  have eff: "drv_effective drv (fl_level fl) = Inr (fl_effective fl)"
    using inv fl by (simp add: sup_inv_def flight_ok_def)
  consider (acq) "lab = ApplyAcquires" "fl_phase fl = Waiting"
    | (lnd) "lab = ApplyLands" "fl_phase fl = Writing"
    | (res) r where "lab = ApplyResumes" "fl_phase fl = Landed r"
    using run fl g by (auto simp: apply_step_def Let_def split: sup_label.splits call_phase.splits)
  then show ?thesis
  proof cases
    case acq
    with run fl g have free: "busy_calls (fl_actuator_id fl) (Some fl) g = 0"
      and eq: "sv' = sv\<lparr>sv_in_flight := Some (fl\<lparr>fl_phase := Writing\<rparr>)\<rparr>"
      by (auto simp: apply_step_def may_acquire_def split: if_splits)
    have "guard_inv safe (dark (g_device g)) (fl_actuator_id fl) (Some (fl\<lparr>fl_phase := Writing\<rparr>)) g"
      using gi free acq by (auto simp: guard_inv_def busy_calls_def flight_busy_def just_lit_def)
    then show ?thesis
      by (intro sup_inv_flight [OF inv fl g, where g' = g])
        (use eq g inv eff in \<open>simp_all add: flight_ok_def sup_inv_def\<close>)
  next
    case lnd
    obtain r d where ap: "drv_apply drv (fl_level fl) (g_device g) = (r, d)" by fastforce
    let ?h = "g\<lparr>g_device := d\<rparr>" and ?fl = "fl\<lparr>fl_phase := Landed r\<rparr>"
    from lnd run fl g ap have eq: "sv' = upd_guard (fl_actuator_id fl) (\<lambda>_. ?h) (sv\<lparr>sv_in_flight := Some ?fl\<rparr>)"
      by (simp add: apply_step_def apply_land_def)
    have b: "watch_busy (g_watch_task g) = 0" "runtime_busy (g_runtime_task g) = 0"
        "unwinding_busy (g_unwinding g) = 0"
      using gi lnd by (auto simp: guard_inv_def busy_calls_def flight_busy_def)
    have dk: "case r of Inr _ \<Rightarrow> dark d \<longleftrightarrow> fl_effective fl = safe | Inl _ \<Rightarrow> dark d = dark (g_device g)"
      using ap apply_dark_iff [OF dok _ eff] apply_raises [OF dok] by (cases r) auto
    have nj: "\<not> just_lit safe (fl_actuator_id fl) (Some fl)" using lnd by (simp add: just_lit_def)
    have "guard_inv safe (dark d) (fl_actuator_id fl) (Some ?fl) ?h"
      using gi b dk nj runtime_quiet [OF b(2)] watch_quiet [OF b(1)]
      by (cases r) (auto simp: guard_inv_def busy_calls_def safe_state_of_def flight_busy_def just_lit_def)
    then show ?thesis
      by (intro sup_inv_flight [OF inv fl g, where g' = ?h])
        (use eq g inv eff apply_ok [OF dok ap] in \<open>simp_all add: flight_ok_def sup_inv_def\<close>)
  next
    case (res r)
    let ?h = "snd (apply_resume fl r g)"
    from res run fl g have eq: "sv' = upd_guard (fl_actuator_id fl) (\<lambda>_. ?h) (sv\<lparr>sv_in_flight := None\<rparr>)"
      by (simp add: apply_step_def)
    have b: "watch_busy (g_watch_task g) = 0" "runtime_busy (g_runtime_task g) = 0"
        "unwinding_busy (g_unwinding g) = 0"
      using gi res by (auto simp: guard_inv_def busy_calls_def flight_busy_def)
    have "guard_inv safe (dark (g_device ?h)) (fl_actuator_id fl) None ?h"
    proof (cases r)
      case (Inl e)
      then show ?thesis using gi res b
        by (auto simp: guard_inv_def busy_calls_def flight_busy_def just_lit_def)
    next
      case (Inr u)
      have "busy_calls (fl_actuator_id fl) None (note_level (fl_effective fl) g) = 0"
        using note_level_busy [of "fl_actuator_id fl" None "fl_effective fl" g] b
        by (simp add: busy_calls_def flight_busy_def)
      then show ?thesis using gi res b Inr
        by (auto simp: guard_inv_def note_level_runtime note_level_at_safe flight_busy_def just_lit_def)
    qed
    moreover have "g_device ?h = g_device g" by (cases r) simp_all
    ultimately show ?thesis
      by (intro sup_inv_flight [OF inv fl g, where g' = ?h])
        (use eq g inv in \<open>simp_all add: flight_ok_def sup_inv_def\<close>)
  qed
qed

lemma sup_step_inv:
  assumes inv: "sup_inv drv safe dark ok sv" and step: "sup_step True drv sink l sv = Some sv'"
  shows "sup_inv drv safe dark ok sv'"
proof (cases l)
  case (Advance t now)
  with step show ?thesis by (intro guards_kept_inv [OF inv]) (auto split: if_splits)
next
  case Beat
  with step show ?thesis
    by (intro guards_kept_inv [OF inv]) (auto simp: heartbeat_guards)
next
  case (TrustChanges v)
  with step show ?thesis
    by (intro guards_kept_inv [OF inv]) (auto simp: set_clock_trusted_def)
next
  case (LatchCleared aid operator)
  show ?thesis
  proof (cases "guard_of sv aid")
    case None
    with LatchCleared step inv show ?thesis by (simp add: clear_latch_def)
  next
    case (Some g)
    obtain r sv1 where e: "emit_event sink aid LatchedReason (LatchClearedBy operator) True
            (upd_guard aid (\<lambda>g. g\<lparr>g_latched := False, g_latch_detail := NoDetail\<rparr>) sv) = (r, sv1)"
      by fastforce
    with LatchCleared step Some have "sv' = sv1" by (simp add: clear_latch_def)
    with emit_event_fields [OF e] show ?thesis
      by (intro guards_kept_inv [OF inv]) (auto split: if_splits)
  qed
next
  case (ApplyCalled c)
  with step have none: "sv_in_flight sv = None" and eq: "sv' = snd (apply_admit drv sink c sv)"
    by (auto split: if_splits)
  obtain r where "apply_admit drv sink c sv = (r, sv')"
    using eq by (cases "apply_admit drv sink c sv") simp
  then show ?thesis
  proof (cases rule: apply_admit_cases)
    case (admitted g eff)
    with inv none show ?thesis
      by (auto simp: sup_inv_def flight_ok_def flight_of_def intro: guard_inv_waiting)
  next
    case refused
    then show ?thesis by (intro guards_kept_inv [OF inv]) (auto simp: refused_frame_def)
  qed
next
  case (WatchRuns aid)
  with step show ?thesis by (auto simp: on_guard_def intro: watch_run_inv [OF inv] split: option.splits)
next
  case (RuntimeRuns aid)
  with step show ?thesis by (auto simp: on_guard_def intro: runtime_run_inv [OF inv] split: option.splits)
next
  case (WatchAcquires aid)
  with step show ?thesis by (auto simp: on_guard_def intro: watch_call_inv [OF inv] split: option.splits)
next
  case (WatchLands aid)
  with step show ?thesis by (auto simp: on_guard_def intro: watch_call_inv [OF inv] split: option.splits)
next
  case (RuntimeAcquires aid)
  with step show ?thesis by (auto simp: on_guard_def intro: runtime_call_inv [OF inv] split: option.splits)
next
  case (RuntimeLands aid)
  with step show ?thesis by (auto simp: on_guard_def intro: runtime_call_inv [OF inv] split: option.splits)
next
  case (UnwindLands aid)
  with step show ?thesis by (auto simp: on_guard_def intro: unwind_inv [OF inv] split: option.splits)
next
  case (UnwindEnds aid)
  with step show ?thesis by (auto simp: on_guard_def intro: unwind_inv [OF inv] split: option.splits)
qed (use step in \<open>auto intro: apply_step_inv [OF inv]\<close>)

lemma sup_run_inv:
  "sup_run True drv sink sv ls sv' \<Longrightarrow> sup_inv drv safe dark ok sv \<Longrightarrow> sup_inv drv safe dark ok sv'"
  by (induction rule: sup_run.induct) (auto intro: sup_step_inv)

end

end
