(* ===== verification/SafetyView.thy ===== *)
theory SafetyView
  imports SafetyInv
begin

text \<open>
  The supervisor as one actuator sees it: each step of the interleaving is one of nine moves
  of that guard's latch and runtime-cap task, whatever the driver and the lock do.
\<close>

section \<open>One actuator's view of a step\<close>

text \<open>
  Everything a step of the supervisor can do to one guard: its latch, its runtime task and
  the bookkeeping of a level. \<open>cleared\<close> says the operator's \<open>clear_latch\<close> is the step.
\<close>

inductive guard_step ::
    "bool \<Rightarrow> string \<Rightarrow> in_flight option \<Rightarrow> bool \<Rightarrow> seconds \<Rightarrow> 'd guard \<Rightarrow> 'd guard \<Rightarrow> bool"
  for cleared aid fl running t where
  gs_other: "g_runtime_task g' = g_runtime_task g \<Longrightarrow> g_registration g' = g_registration g \<Longrightarrow>
     g_latched g' = g_latched g \<Longrightarrow> guard_step cleared aid fl running t g g'"
| gs_cleared: "cleared \<Longrightarrow> g_runtime_task g' = g_runtime_task g \<Longrightarrow>
     g_registration g' = g_registration g \<Longrightarrow> guard_step cleared aid fl running t g g'"
| gs_note: "fl = Some f \<Longrightarrow> fl_actuator_id f = aid \<Longrightarrow> fl_phase f = Landed (Inr ()) \<Longrightarrow>
     g' = note_level (fl_effective f) g \<Longrightarrow> guard_step cleared aid fl running t g g'"
| gs_watch_safe: "g_watch_task g = Some (WatchTripping (Driving (Landed (Inr ())))) \<Longrightarrow>
     g' = mark_safe (g\<lparr>g_watch_task := w\<rparr>) \<Longrightarrow> guard_step cleared aid fl running t g g'"
| gs_starts: "g_runtime_task g = Some (RtLive RtStarting) \<Longrightarrow>
     g' = g\<lparr>g_runtime_task := Some (RtLive (RtSleeping (t + max_runtime_s g)))\<rparr> \<Longrightarrow>
     guard_step cleared aid fl running t g g'"
| gs_due: "g_runtime_task g = Some (RtLive (RtSleeping d)) \<Longrightarrow> d \<le> t \<Longrightarrow>
     g' = g\<lparr>g_latched := True, g_latch_detail := RanPast (max_runtime_s g),
            g_runtime_task := Some (RtLive (RtTripping (Driving Waiting)))\<rparr> \<Longrightarrow>
     guard_step cleared aid fl running t g g'"
| gs_trips: "g_runtime_task g = Some (RtLive (RtTripping pc)) \<Longrightarrow>
     g_runtime_task g' = Some (RtLive (RtTripping pc')) \<Longrightarrow>
     g_registration g' = g_registration g \<Longrightarrow> g_latched g' = g_latched g \<Longrightarrow>
     guard_step cleared aid fl running t g g'"
| gs_runtime_safe: "g_runtime_task g = Some (RtLive (RtTripping (Driving (Landed (Inr ()))))) \<Longrightarrow>
     g' = mark_safe (g\<lparr>g_runtime_task := Some (RtLive (RtTripping (EmittingSuccess ev)))\<rparr>) \<Longrightarrow>
     guard_step cleared aid fl running t g g'"
| gs_done: "g_runtime_task g = Some (RtLive (RtTripping pc)) \<Longrightarrow>
     running \<longrightarrow> (\<exists>ev. pc = EmittingSuccess ev) \<Longrightarrow>
     g' = g\<lparr>g_runtime_task := Some RtDone\<rparr> \<Longrightarrow> guard_step cleared aid fl running t g g'"

inductive_cases guard_step_elim: "guard_step cleared aid fl running t g g'"

definition step_view :: "bool \<Rightarrow> string \<Rightarrow> 'd supervisor \<Rightarrow> 'd supervisor \<Rightarrow> bool" where
  "step_view cleared aid sv sv' =
     (\<forall>g. guard_of sv aid = Some g \<longrightarrow> (\<exists>g'. guard_of sv' aid = Some g'
        \<and> guard_step cleared aid (sv_in_flight sv) (sv_running sv) (sv_loop_time sv) g g'))"

lemma step_view_guards:
  "guard_of sv' = guard_of sv \<Longrightarrow> step_view cleared aid sv sv'"
  by (auto simp: step_view_def intro: gs_other)

lemma step_view_upd:
  assumes "sv' = upd_guard k f sv1" "guard_of sv1 = guard_of sv"
    and "\<forall>g. k = aid \<and> guard_of sv aid = Some g \<longrightarrow>
      guard_step cleared aid (sv_in_flight sv) (sv_running sv) (sv_loop_time sv) g (f g)"
  shows "step_view cleared aid sv sv'"
  using assms by (auto simp: step_view_def intro: gs_other)

lemma watch_run_view:
  assumes g: "guard_of sv k = Some g" and run: "watch_run sink k g sv = Some sv'"
  shows "step_view cleared aid sv sv'"
  using run
proof (cases rule: watch_run_cases)
  case top
  show ?thesis by (rule step_view_upd [OF top(2)]) (auto simp: watch_top_def Let_def intro!: gs_other)
next
  case (beat w)
  show ?thesis by (rule step_view_upd [OF beat(4)]) (auto intro!: gs_other)
next
  case (due d)
  show ?thesis by (rule step_view_upd [OF due(4)]) (auto intro!: gs_other)
next
  case (trip pc seg sv1)
  note ok = trip_run_ok [OF trip(2)]
  have "guard_step cleared aid (sv_in_flight sv) (sv_running sv) (sv_loop_time sv) g (watch_after seg g)"
  proof (cases seg)
    case (TripDroveSafe ev)
    with ok trip(1) show ?thesis
      by (intro gs_watch_safe [where w = "Some (WatchTripping (EmittingSuccess ev))"])
        (simp_all add: trip_seg_ok_def)
  qed (auto intro!: gs_other)
  then show ?thesis
    by (intro step_view_upd [OF trip(3)]) (use trip_run_frame [OF trip(2)] g in auto)
qed

lemma runtime_run_view:
  assumes g: "guard_of sv k = Some g" and run: "runtime_run sink k g sv = Some sv'"
  shows "step_view cleared aid sv sv'"
  using run
proof (cases rule: runtime_run_cases)
  case starting
  show ?thesis by (rule step_view_upd [OF starting(2)]) (use g starting(1) in \<open>auto intro: gs_starts\<close>)
next
  case (due d)
  show ?thesis by (rule step_view_upd [OF due(3)]) (use g due in \<open>auto intro: gs_due\<close>)
next
  case (trip pc seg sv1)
  note ok = trip_run_ok [OF trip(2)]
  have "guard_step cleared aid (sv_in_flight sv) (sv_running sv) (sv_loop_time sv) g (runtime_after seg g)"
  proof (cases seg)
    case (TripDroveSafe ev)
    with ok trip(1) show ?thesis by (intro gs_runtime_safe) (simp_all add: trip_seg_ok_def)
  next
    case (TripAt pc')
    with trip(1) show ?thesis by (intro gs_trips [where pc = pc and pc' = pc']) simp_all
  next
    case TripReturned
    with trip_returned [of sink k MaxRuntimeExceeded _ pc sv sv1] trip(2)
    have "sv_running sv \<longrightarrow> (\<exists>ev. pc = EmittingSuccess ev)" by blast
    with TripReturned trip(1) show ?thesis by (intro gs_done [where pc = pc]) simp_all
  qed
  then show ?thesis
    by (intro step_view_upd [OF trip(3)]) (use trip_run_frame [OF trip(2)] g in auto)
qed

lemma watch_call_view:
  assumes g: "guard_of sv k = Some g" and "watch_call_step serial drv land k g sv = Some sv'"
  shows "step_view cleared aid sv sv'"
proof -
  from assms(2) obtain f where eq: "sv' = upd_guard k f sv"
      and f: "g_runtime_task (f g) = g_runtime_task g" "g_registration (f g) = g_registration g"
        "g_latched (f g) = g_latched g"
    by (auto simp: watch_call_step_def land_safe_def
        split: option.splits watch_pc.splits trip_pc.splits if_splits prod.splits)
  show ?thesis by (rule step_view_upd [OF eq]) (use f g in \<open>auto intro!: gs_other\<close>)
qed

lemma runtime_call_view:
  assumes g: "guard_of sv k = Some g" and "runtime_call_step serial drv land k g sv = Some sv'"
  shows "step_view cleared aid sv sv'"
proof -
  from assms(2) obtain f pc pc' where eq: "sv' = upd_guard k f sv"
      and f: "g_runtime_task g = Some (RtLive (RtTripping pc))"
        "g_runtime_task (f g) = Some (RtLive (RtTripping pc'))" "g_registration (f g) = g_registration g"
        "g_latched (f g) = g_latched g"
    by (auto simp: runtime_call_step_def land_safe_def
        split: option.splits runtime_task.splits runtime_pc.splits trip_pc.splits if_splits prod.splits)
  show ?thesis by (rule step_view_upd [OF eq]) (use f g in \<open>auto intro!: gs_trips\<close>)
qed

lemma unwind_view:
  assumes g: "guard_of sv k = Some g" and "unwind_step drv sink land k g sv = Some sv'"
  shows "step_view cleared aid sv sv'"
proof -
  from assms(2) obtain f sv1 where eq: "sv' = upd_guard k f sv1" "guard_of sv1 = guard_of sv"
      and f: "g_runtime_task (f g) = g_runtime_task g" "g_registration (f g) = g_registration g"
        "g_latched (f g) = g_latched g"
    by (cases rule: unwind_step_eq) (auto simp: hear_cancelled_def)
  show ?thesis by (rule step_view_upd [OF eq]) (use f g in \<open>auto intro!: gs_other\<close>)
qed

lemma apply_step_view:
  assumes "apply_step serial drv lab sv = Some sv'"
  shows "step_view cleared aid sv sv'"
  using assms
proof (cases rule: apply_step_cases)
  case acquires
  then show ?thesis by (intro step_view_guards) simp
next
  case (lands fl g r d)
  show ?thesis by (rule step_view_upd [OF lands(6)]) (use lands(2) in \<open>auto intro!: gs_other\<close>)
next
  case (resumes fl g r)
  have "guard_step cleared (fl_actuator_id fl) (Some fl) (sv_running sv) (sv_loop_time sv) g
      (snd (apply_resume fl r g))"
    using resumes(4) by (cases r) (auto intro: gs_other gs_note)
  then show ?thesis by (intro step_view_upd [OF resumes(5)]) (use resumes(1,2) in auto)
qed

lemma sup_step_view:
  assumes step: "sup_step serial drv sink l sv = Some sv'"
  shows "step_view (\<exists>op. l = LatchCleared aid op) aid sv sv'"
proof (cases l)
  case (Advance t now)
  with step have "guard_of sv' = guard_of sv" by (auto split: if_splits)
  then show ?thesis by (rule step_view_guards)
next
  case Beat
  with step show ?thesis by (auto simp: step_view_def heartbeat_guards intro!: gs_other)
next
  case (TrustChanges v)
  with step have "guard_of sv' = guard_of sv" by (auto simp: set_clock_trusted_def)
  then show ?thesis by (rule step_view_guards)
next
  case (LatchCleared k operator)
  show ?thesis
  proof (cases "guard_of sv k")
    case None
    with LatchCleared step have "sv' = sv" by (simp add: clear_latch_def)
    then show ?thesis by (simp add: step_view_guards)
  next
    case (Some g)
    let ?up = "upd_guard k (\<lambda>g. g\<lparr>g_latched := False, g_latch_detail := NoDetail\<rparr>) sv"
    obtain r sv1 where e: "emit_event sink k LatchedReason (LatchClearedBy operator) True ?up = (r, sv1)"
      by fastforce
    with LatchCleared step Some have "sv' = sv1" by (simp add: clear_latch_def)
    with emit_event_fields(1) [OF e] LatchCleared show ?thesis
      by (auto simp: step_view_def intro: gs_other gs_cleared)
  qed
next
  case (ApplyCalled c)
  with step have eq: "sv' = snd (apply_admit drv sink c sv)" by (auto split: if_splits)
  obtain r where "apply_admit drv sink c sv = (r, sv')"
    using eq by (cases "apply_admit drv sink c sv") simp
  then have "guard_of sv' = guard_of sv"
    by (cases rule: apply_admit_cases) (simp_all add: refused_frame_def)
  then show ?thesis by (rule step_view_guards)
next
  case (WatchRuns k)
  with step show ?thesis by (auto simp: on_guard_def intro: watch_run_view split: option.splits)
next
  case (RuntimeRuns k)
  with step show ?thesis by (auto simp: on_guard_def intro: runtime_run_view split: option.splits)
next
  case (WatchAcquires k)
  with step show ?thesis by (auto simp: on_guard_def intro: watch_call_view split: option.splits)
next
  case (WatchLands k)
  with step show ?thesis by (auto simp: on_guard_def intro: watch_call_view split: option.splits)
next
  case (RuntimeAcquires k)
  with step show ?thesis by (auto simp: on_guard_def intro: runtime_call_view split: option.splits)
next
  case (RuntimeLands k)
  with step show ?thesis by (auto simp: on_guard_def intro: runtime_call_view split: option.splits)
next
  case (UnwindLands k)
  with step show ?thesis by (auto simp: on_guard_def intro: unwind_view split: option.splits)
next
  case (UnwindEnds k)
  with step show ?thesis by (auto simp: on_guard_def intro: unwind_view split: option.splits)
qed (use step in \<open>auto intro: apply_step_view\<close>)

end
