(* ===== verification/Interlocks.thy ===== *)
theory Interlocks
  imports SafetyView
begin

text \<open>
  What the interlocks promise over every interleaving: a lit output is on the clock, its cap
  is never extended, a latch holds until the operator clears it, refusals come in order.
\<close>

section \<open>Where runs start\<close>

text \<open>Registered, running, nothing driven yet, every output at its safe level.\<close>

definition sup_fresh :: "level \<Rightarrow> ('d \<Rightarrow> bool) \<Rightarrow> ('d \<Rightarrow> bool) \<Rightarrow> 'd supervisor \<Rightarrow> bool" where
  "sup_fresh safe dark ok sv =
     (sv_running sv \<and> sv_in_flight sv = None
      \<and> (\<forall>aid g. guard_of sv aid = Some g \<longrightarrow>
           safe_state_of g = safe \<and> ok (g_device g) \<and> dark (g_device g) \<and> g_runtime_task g = None
           \<and> g_watch_task g = Some WatchTop \<and> g_unwinding g = []))"

lemma fresh_inv: "sup_fresh safe dark ok sv \<Longrightarrow> sup_inv drv safe dark ok sv"
  by (auto simp: sup_fresh_def sup_inv_def guard_inv_def busy_calls_def flight_busy_def flight_ok_def)

lemma guard_of_append:
  "guard_of (sv\<lparr>sv_guards := sv_guards sv @ [(aid, g)]\<rparr>) k =
     (case guard_of sv k of Some h \<Rightarrow> Some h | None \<Rightarrow> if k = aid then Some g else None)"
  by (auto simp: guard_of_def map_add_def split: option.splits)

lemma register_fresh:
  assumes "sup_fresh safe dark ok sv" "register r d sv = Inr sv'" "ar_safe_state r = Some safe" "dark d" "ok d"
  shows "sup_fresh safe dark ok sv'"
  using assms unfolding sup_fresh_def
  by (auto simp: register_def Let_def guard_of_append new_guard_def safe_state_of_def
      split: if_splits option.splits)

lemma register_inv:
  assumes "sup_inv drv safe dark ok sv" "register r d sv = Inr sv'" "ar_safe_state r = Some safe" "dark d" "ok d"
    and "sv_in_flight sv = None"
  shows "sup_inv drv safe dark ok sv'"
proof -
  from assms(2) obtain g where g: "sv' = sv\<lparr>sv_guards := sv_guards sv @ [(ar_actuator_id r, g)]\<rparr>"
      "g_registration g = r" "g_device g = d" "g_runtime_task g = None" "g_unwinding g = []"
      "g_watch_task g = None \<or> g_watch_task g = Some WatchTop"
    by (auto simp: register_def Let_def new_guard_def split: if_splits)
  have new: "guard_inv safe (dark (g_device g)) k None g" for k
    using g assms(3,4) by (auto simp: guard_inv_def safe_state_of_def busy_calls_def flight_busy_def)
  show ?thesis
    unfolding sup_inv_def
  proof (intro conjI allI impI)
    fix k h assume "guard_of sv' k = Some h"
    then have "guard_of sv k = Some h \<or> h = g"
      unfolding g(1) guard_of_append by (auto split: option.splits if_splits)
    then show "ok (g_device h)" "guard_inv safe (dark (g_device h)) k (sv_in_flight sv') h"
      using assms(1,5,6) new g(1,3) by (auto simp: sup_inv_def)
  qed (use assms(1) g(1) in \<open>simp_all add: sup_inv_def\<close>)
qed

definition quiet_sink :: event_sink where "quiet_sink ev = SinkCompletes False"

definition blue_sup :: "'d \<Rightarrow> 'd supervisor" where
  "blue_sup d =
     (case register sample_registration d ((supervisor_init (Aware 100) True 0)\<lparr>sv_running := True\<rparr>) of
        Inr sv \<Rightarrow> sv | Inl _ \<Rightarrow> supervisor_init (Aware 100) True 0)"

lemma blue_register:
  "register sample_registration d ((supervisor_init (Aware 100) True 0)\<lparr>sv_running := True\<rparr>) = Inr (blue_sup d)"
  by (simp add: blue_sup_def register_def supervisor_init_def guard_of_def sample_registration_def)

lemma blue_fresh: "dark d \<Longrightarrow> ok d \<Longrightarrow> sup_fresh (PwmLevel 0) dark ok (blue_sup d)"
  by (rule register_fresh [OF _ blue_register])
    (simp_all add: sup_fresh_def supervisor_init_def guard_of_def sample_registration_def)

section \<open>Properties\<close>

lemma sup_inv_of_run:
  assumes "safety_driver drv safe dark ok" "sup_fresh safe dark ok sv0" "sup_run True drv sink sv0 ls sv"
  shows "sup_inv drv safe dark ok sv"
  using safety_driver.sup_run_inv [OF assms(1,3)] fresh_inv assms(2) by blast

text \<open>
  C4. A lit output is always on the clock. Over any interleaving of commands, heartbeats,
  trips and retries from a fresh start, with a driver that keeps its lock until its caller
  runs: an output that is not at its safe level has a live runtime-cap task, or the write
  that lit it has landed this instant and its \<open>apply\<close> has not resumed; and what
  \<open>is_at_safe_state\<close> answers is true of the device, with the same exception.
\<close>

theorem lit_output_is_on_the_clock:
  assumes "safety_driver drv safe dark ok" "sup_fresh safe dark ok sv0" "sup_run True drv sink sv0 ls sv"
    and "guard_of sv aid = Some g"
  shows "(\<not> dark (g_device g) \<longrightarrow>
            runtime_live (g_runtime_task g) \<or> just_lit safe aid (sv_in_flight sv))
       \<and> (is_at_safe_state aid sv = Inr True \<longrightarrow>
            dark (g_device g) \<or> just_lit safe aid (sv_in_flight sv))"
  using sup_inv_of_run [OF assms(1-3)] assms(4)
  by (auto simp: sup_inv_def guard_inv_def is_at_safe_state_def)

definition light_up :: "sup_label list" where
  "light_up = [ApplyCalled sample_command, ApplyAcquires, ApplyLands, ApplyResumes, RuntimeRuns ''blue'']"

definition lit_sup :: "level supervisor" where
  "lit_sup = the (sup_exec True (snapping_driver 0) quiet_sink light_up (blue_sup (PwmLevel 0)))"

lemmas run_simps = light_up_def blue_sup_def register_def supervisor_init_def guard_of_def
  sample_registration_def sample_command_def apply_admit_def apply_step_def apply_land_def
  may_acquire_def busy_calls_def flight_busy_def snapping_driver_def snapping_apply_def
  on_guard_def runtime_run_def note_level_def new_guard_def upd_guard_def safe_state_of_def
  max_runtime_s_def snap_duty_def MIN_USABLE_DUTY_def quiet_sink_def

lemma blue_lit_fresh: "sup_fresh (PwmLevel 0) (\<lambda>d. d = PwmLevel 0) (\<lambda>_. True) (blue_sup (PwmLevel 0))"
  by (rule blue_fresh) simp_all

lemma light_up_runs:
  "sup_run True (snapping_driver 0) quiet_sink (blue_sup (PwmLevel 0)) light_up lit_sup"
  by (simp add: sup_run_exec lit_sup_def run_simps Let_def)

lemma lit_sup_guard:
  "\<exists>g. guard_of lit_sup ''blue'' = Some g \<and> g_device g = PwmLevel (1/2)
     \<and> g_runtime_task g = Some (RtLive (RtSleeping 64800))"
  by (simp add: lit_sup_def run_simps Let_def)

theorem lit_output_is_on_the_clock_witness:
  "\<exists>g. guard_of lit_sup ''blue'' = Some g \<and> g_device g = PwmLevel (1/2)
     \<and> (runtime_live (g_runtime_task g) \<or> just_lit (PwmLevel 0) ''blue'' (sv_in_flight lit_sup))"
proof -
  obtain g where g: "guard_of lit_sup ''blue'' = Some g" "g_device g = PwmLevel (1/2)"
    using lit_sup_guard by blast
  with lit_output_is_on_the_clock [OF snapping.safety_driver_axioms blue_lit_fresh light_up_runs, of "''blue''" g]
  show ?thesis by simp
qed

section \<open>The runtime cap\<close>

text \<open>A stretch of a run during which the output stays lit.\<close>

inductive lit_run ::
    "'d driver \<Rightarrow> event_sink \<Rightarrow> ('d \<Rightarrow> bool) \<Rightarrow> string \<Rightarrow> 'd supervisor \<Rightarrow> 'd supervisor \<Rightarrow> bool"
  for drv sink dark aid where
  lit_start: "guard_of sv aid = Some g \<Longrightarrow> \<not> dark (g_device g) \<Longrightarrow> lit_run drv sink dark aid sv sv"
| lit_step: "lit_run drv sink dark aid sv sv' \<Longrightarrow> sup_step True drv sink l sv' = Some sv'' \<Longrightarrow>
     guard_of sv'' aid = Some g \<Longrightarrow> \<not> dark (g_device g) \<Longrightarrow> lit_run drv sink dark aid sv sv''"

lemma upd_guard_time [simp]: "sv_loop_time (upd_guard aid f sv) = sv_loop_time sv"
  by simp

lemma refused_time: "refused_frame sv sv' \<Longrightarrow> sv_loop_time sv' = sv_loop_time sv"
  by (simp add: refused_frame_def)

lemma on_guard_Some: "on_guard aid f sv = Some sv' \<longleftrightarrow> (\<exists>g. guard_of sv aid = Some g \<and> f g sv = Some sv')"
  by (auto simp: on_guard_def split: option.splits)

lemma call_step_time:
  "watch_call_step serial drv land aid g sv = Some sv' \<Longrightarrow> sv_loop_time sv' = sv_loop_time sv"
  "runtime_call_step serial drv land aid g sv = Some sv' \<Longrightarrow> sv_loop_time sv' = sv_loop_time sv"
  "unwind_step drv sink land aid g sv = Some sv' \<Longrightarrow> sv_loop_time sv' = sv_loop_time sv"
  "apply_step serial drv lab sv = Some sv' \<Longrightarrow> sv_loop_time sv' = sv_loop_time sv"
  by (auto simp: watch_call_step_def runtime_call_step_def unwind_step_def apply_step_def Let_def
      split: option.splits watch_pc.splits runtime_task.splits runtime_pc.splits trip_pc.splits
        if_splits prod.splits list.splits unwinding.splits call_phase.splits sup_label.splits)

lemma run_step_time:
  "watch_run sink aid g sv = Some sv' \<Longrightarrow> sv_loop_time sv' = sv_loop_time sv"
  "runtime_run sink aid g sv = Some sv' \<Longrightarrow> sv_loop_time sv' = sv_loop_time sv"
  subgoal by (erule watch_run_cases) (simp_all add: trip_run_frame)
  subgoal by (erule runtime_run_cases) (simp_all add: trip_run_frame)
  done

lemma sup_step_time:
  assumes "sup_step serial drv sink l sv = Some sv'"
  shows "sv_loop_time sv \<le> sv_loop_time sv'"
proof (cases l)
  case (LatchCleared k operator)
  show ?thesis
  proof (cases "guard_of sv k")
    case (Some g)
    obtain r sv1 where e: "emit_event sink k LatchedReason (LatchClearedBy operator) True
        (upd_guard k (\<lambda>g. g\<lparr>g_latched := False, g_latch_detail := NoDetail\<rparr>) sv) = (r, sv1)"
      by fastforce
    with LatchCleared assms Some emit_event_fields(5) [OF e] show ?thesis by (auto simp: clear_latch_def)
  qed (use LatchCleared assms in \<open>auto simp: clear_latch_def\<close>)
next
  case (ApplyCalled c)
  with assms have eq: "sv' = snd (apply_admit drv sink c sv)" by (auto split: if_splits)
  obtain r where "apply_admit drv sink c sv = (r, sv')"
    using eq by (cases "apply_admit drv sink c sv") simp
  then show ?thesis by (cases rule: apply_admit_cases) (simp_all add: refused_time)
qed (use assms in \<open>auto simp: on_guard_Some set_clock_trusted_def call_step_time run_step_time split: if_splits\<close>)

fun on_clock :: "seconds \<Rightarrow> seconds \<Rightarrow> runtime_task option \<Rightarrow> bool" where
  "on_clock d t (Some (RtLive (RtSleeping e))) = (e = d)"
| "on_clock d t (Some (RtLive (RtTripping _))) = (d \<le> t)"
| "on_clock d t _ = False"

lemma on_clock_later: "on_clock d t r \<Longrightarrow> t \<le> u \<Longrightarrow> on_clock d u r"
  by (cases "(d, t, r)" rule: on_clock.cases) auto

context safety_driver
begin

lemma lit_step_on_clock:
  assumes inv: "sup_inv drv safe dark ok sv" and step: "sup_step True drv sink l sv = Some sv'"
    and g: "guard_of sv aid = Some g" "\<not> dark (g_device g)"
    and g': "guard_of sv' aid = Some g'" "\<not> dark (g_device g')"
    and clock: "on_clock d (sv_loop_time sv) (g_runtime_task g)"
  shows "on_clock d (sv_loop_time sv') (g_runtime_task g')"
proof -
  from inv g(1) have gi: "guard_inv safe (dark (g_device g)) aid (sv_in_flight sv) g"
    and run: "sv_running sv"
    by (simp_all add: sup_inv_def)
  from sup_step_view [OF step, of aid] g(1) g'(1)
  have "guard_step (\<exists>op. l = LatchCleared aid op) aid (sv_in_flight sv) (sv_running sv) (sv_loop_time sv) g g'"
    by (simp add: step_view_def)
  then have "on_clock d (sv_loop_time sv) (g_runtime_task g')"
  proof cases
    case (gs_note f)
    with gi g(2) have "fl_effective f \<noteq> safe" "safe_state_of g = safe" by (auto simp: guard_inv_def)
    moreover have "runtime_live (g_runtime_task g)"
      using clock by (cases "(d, sv_loop_time sv, g_runtime_task g)" rule: on_clock.cases) auto
    ultimately show ?thesis using gs_note clock by (simp add: note_level_runtime)
  next
    case (gs_watch_safe w)
    with gi g(2) show ?thesis by (simp add: guard_inv_def)
  next
    case (gs_runtime_safe ev)
    with gi g(2) show ?thesis by (simp add: guard_inv_def)
  next
    case (gs_done pc)
    with gi run show ?thesis by (auto simp: guard_inv_def)
  qed (use clock in auto)
  with sup_step_time [OF step] show ?thesis by (rule on_clock_later [rotated])
qed

lemma lit_run_on_clock:
  assumes "lit_run drv sink dark aid sv sv'" "sup_inv drv safe dark ok sv"
    and "guard_of sv aid = Some g" "on_clock d (sv_loop_time sv) (g_runtime_task g)"
  shows "sup_inv drv safe dark ok sv' \<and> (\<exists>g'. guard_of sv' aid = Some g' \<and> \<not> dark (g_device g')
     \<and> on_clock d (sv_loop_time sv') (g_runtime_task g'))"
  using assms
proof (induction rule: lit_run.induct)
  case (lit_step sv sv' l sv'' h)
  then obtain g' where inv: "sup_inv drv safe dark ok sv'" and g': "guard_of sv' aid = Some g'"
      "\<not> dark (g_device g')" "on_clock d (sv_loop_time sv') (g_runtime_task g')"
    by blast
  have "on_clock d (sv_loop_time sv'') (g_runtime_task h)"
    by (rule lit_step_on_clock [OF inv lit_step.hyps(2) g'(1,2) lit_step.hyps(3,4) g'(3)])
  with lit_step.hyps(3,4) sup_step_inv [OF inv lit_step.hyps(2)] show ?case by blast
qed auto

end

text \<open>
  C5. Nothing extends the runtime cap. While an output stays lit, however often and however
  the controller commands it and whatever else interleaves, its cap keeps the deadline it was
  given: at any later moment the task still sleeps until that same deadline, or the deadline
  has passed and the trip to safe state is under way.
\<close>

theorem runtime_cap_never_extended:
  assumes "safety_driver drv safe dark ok" "sup_fresh safe dark ok sv0" "sup_run True drv sink sv0 ls sv"
    and "guard_of sv aid = Some g" "g_runtime_task g = Some (RtLive (RtSleeping deadline))"
    and "lit_run drv sink dark aid sv sv'"
  shows "\<exists>g'. guard_of sv' aid = Some g'
    \<and> (g_runtime_task g' = Some (RtLive (RtSleeping deadline))
       \<or> (deadline \<le> sv_loop_time sv' \<and> (\<exists>pc. g_runtime_task g' = Some (RtLive (RtTripping pc)))))"
proof -
  have "on_clock deadline (sv_loop_time sv) (g_runtime_task g)" using assms(5) by simp
  from safety_driver.lit_run_on_clock [OF assms(1,6) sup_inv_of_run [OF assms(1-3)] assms(4) this]
  obtain g' where "guard_of sv' aid = Some g'" "on_clock deadline (sv_loop_time sv') (g_runtime_task g')"
    by blast
  then show ?thesis
    by (cases "(deadline, sv_loop_time sv', g_runtime_task g')" rule: on_clock.cases) auto
qed

definition recommand :: "sup_label list" where
  "recommand = [Advance 60 (Aware 110), ApplyCalled sample_command, ApplyAcquires, ApplyLands, ApplyResumes]"

lemma lit_run_cons:
  assumes "lit_run drv sink dark aid sv1 sv2" "sup_step True drv sink l sv = Some sv1"
    and "guard_of sv aid = Some g" "\<not> dark (g_device g)"
  shows "lit_run drv sink dark aid sv sv2"
  using assms
proof (induction rule: lit_run.induct)
  case (lit_start sv1 h)
  then show ?case by (blast intro: lit_run.intros)
next
  case (lit_step sv1 sv2 l' sv3 h)
  then show ?case by (blast intro: lit_run.lit_step)
qed

fun stays_lit :: "'d driver \<Rightarrow> event_sink \<Rightarrow> ('d \<Rightarrow> bool) \<Rightarrow> string \<Rightarrow> sup_label list \<Rightarrow> 'd supervisor \<Rightarrow> bool" where
  "stays_lit drv sink dark aid ls sv =
     ((case guard_of sv aid of Some g \<Rightarrow> \<not> dark (g_device g) | None \<Rightarrow> False)
      \<and> (case ls of [] \<Rightarrow> True
         | l # ls \<Rightarrow> (case sup_step True drv sink l sv of
             None \<Rightarrow> False | Some sv' \<Rightarrow> stays_lit drv sink dark aid ls sv')))"

lemma stays_lit_run:
  "stays_lit drv sink dark aid ls sv \<Longrightarrow>
     \<exists>sv'. sup_exec True drv sink ls sv = Some sv' \<and> lit_run drv sink dark aid sv sv'"
proof (induction ls arbitrary: sv)
  case Nil
  then show ?case by (auto intro: lit_start split: option.splits)
next
  case (Cons l ls)
  then obtain sv1 g where st: "sup_step True drv sink l sv = Some sv1" "stays_lit drv sink dark aid ls sv1"
      "guard_of sv aid = Some g" "\<not> dark (g_device g)"
    by (auto split: option.splits)
  from Cons.IH [OF st(2)] obtain sv' where "sup_exec True drv sink ls sv1 = Some sv'"
      "lit_run drv sink dark aid sv1 sv'" by blast
  with st lit_run_cons [of drv sink dark aid sv1 sv' l sv g] show ?case by auto
qed

theorem runtime_cap_never_extended_witness:
  "\<exists>sv g. sup_exec True (snapping_driver 0) quiet_sink recommand lit_sup = Some sv
     \<and> guard_of sv ''blue'' = Some g \<and> g_runtime_task g = Some (RtLive (RtSleeping 64800))"
proof -
  obtain g where g: "guard_of lit_sup ''blue'' = Some g"
      "g_runtime_task g = Some (RtLive (RtSleeping 64800))"
    using lit_sup_guard by blast
  have "stays_lit (snapping_driver 0) quiet_sink (\<lambda>d. d = PwmLevel 0) ''blue'' recommand lit_sup"
    by (simp add: recommand_def lit_sup_def run_simps Let_def)
  from stays_lit_run [OF this] obtain sv where
    ex: "sup_exec True (snapping_driver 0) quiet_sink recommand lit_sup = Some sv"
    and lit: "lit_run (snapping_driver 0) quiet_sink (\<lambda>d. d = PwmLevel 0) ''blue'' lit_sup sv" by blast
  have "sv_loop_time sv = 60"
    using ex by (simp add: recommand_def lit_sup_def run_simps Let_def) (auto simp: run_simps)
  with runtime_cap_never_extended [OF snapping.safety_driver_axioms blue_lit_fresh light_up_runs g lit] ex
  show ?thesis by fastforce
qed

section \<open>The latch\<close>

text \<open>
  C7. A latch holds until the operator clears it. From a moment at which an actuator is
  latched, over any interleaving, any driver and any sink in which its latch is not cleared
  by \<open>clear_latch\<close>, it stays latched and no command for it is admitted.
\<close>

theorem latch_holds:
  assumes "sup_run serial drv sink sv ls sv'" "is_latched aid sv = Inr True"
    and "\<forall>op. LatchCleared aid op \<notin> set ls"
  shows "is_latched aid sv' = Inr True
    \<and> (\<forall>c. ac_actuator_id c = aid \<longrightarrow> fst (apply_admit drv sink c sv') \<noteq> Inr None)"
proof -
  have latched: "\<exists>g. guard_of sv' aid = Some g \<and> g_latched g"
    using assms
  proof (induction rule: sup_run.induct)
    case (sup_run_nil sv)
    then show ?case by (auto simp: is_latched_def split: option.splits)
  next
    case (sup_run_snoc sv ls sv' l sv'')
    then obtain g where g: "guard_of sv' aid = Some g" "g_latched g" by auto
    have no: "(\<exists>op. l = LatchCleared aid op) = False" using sup_run_snoc.prems(2) by auto
    from sup_step_view [OF sup_run_snoc.hyps(2), of aid] g(1)
    obtain g' where g': "guard_of sv'' aid = Some g'"
      and st: "guard_step False aid (sv_in_flight sv') (sv_running sv') (sv_loop_time sv') g g'"
      unfolding no by (auto simp: step_view_def)
    from st g(2) have "g_latched g'" by cases simp_all
    with g' show ?case by blast
  qed
  moreover have "fst (apply_admit drv sink c sv') \<noteq> Inr None" if "ac_actuator_id c = aid" for c
  proof -
    obtain r sv1 where "apply_admit drv sink c sv' = (r, sv1)" by fastforce
    then show ?thesis
      by (cases rule: apply_admit_cases) (use latched that \<open>apply_admit drv sink c sv' = (r, sv1)\<close> in auto)
  qed
  ultimately show ?thesis by (auto simp: is_latched_def)
qed

definition overrun :: "sup_label list" where
  "overrun = light_up @ [Advance 64800 (Aware 64900), RuntimeRuns ''blue'']"

definition overrun_sup :: "level supervisor" where
  "overrun_sup = the (sup_exec True (snapping_driver 0) quiet_sink overrun (blue_sup (PwmLevel 0)))"

theorem latch_holds_witness:
  "is_latched ''blue'' (sup_heartbeat overrun_sup) = Inr True
     \<and> fst (apply_admit (snapping_driver 0) quiet_sink sample_command (sup_heartbeat overrun_sup)) \<noteq> Inr None"
proof -
  have latched: "is_latched ''blue'' overrun_sup = Inr True"
    by (simp add: overrun_sup_def overrun_def is_latched_def run_simps Let_def)
  have run: "sup_run True (snapping_driver 0) quiet_sink overrun_sup [Beat] (sup_heartbeat overrun_sup)"
    by (simp add: sup_run_exec)
  show ?thesis using latch_holds [OF run latched] by (simp add: sample_command_def)
qed

section \<open>The order of the refusals\<close>

lemma is_expired_error: "is_expired c n = Inl e \<Longrightarrow> e \<noteq> CancelledError"
  by (cases n) auto

lemma admit_cases:
  obtains (unknown) "guard_of sv (ac_actuator_id c) = None"
      "apply_admit drv sink c sv = refuse sink (ac_actuator_id c) UnknownActuator NoSuchActuator RejectedUnknown sv"
  | (clock) g where "guard_of sv (ac_actuator_id c) = Some g" "\<not> sv_clock_trusted sv"
      "apply_admit drv sink c sv = refuse sink (ac_actuator_id c) ClockUntrusted ClockNotSynchronised RejectedClock sv"
  | (naive) g e where "guard_of sv (ac_actuator_id c) = Some g" "sv_clock_trusted sv" "is_expired c (sv_now sv) = Inl e"
      "apply_admit drv sink c sv = (Inl e, sv)"
  | (expired) g where "guard_of sv (ac_actuator_id c) = Some g" "sv_clock_trusted sv" "is_expired c (sv_now sv) = Inr True"
      "apply_admit drv sink c sv =
         refuse sink (ac_actuator_id c) CommandExpired (ExpiredAt (ac_expires_at c)) RejectedExpired sv"
  | (latched) g where "guard_of sv (ac_actuator_id c) = Some g" "sv_clock_trusted sv" "is_expired c (sv_now sv) = Inr False"
      "g_latched g" "apply_admit drv sink c sv =
         refuse sink (ac_actuator_id c) LatchedReason (LatchedBecause (g_latch_detail g)) RejectedLatched sv"
  | (refused) g e where "guard_of sv (ac_actuator_id c) = Some g" "sv_clock_trusted sv" "is_expired c (sv_now sv) = Inr False"
      "\<not> g_latched g" "drv_effective drv (ac_level c) = Inl e" "apply_admit drv sink c sv = (Inl e, sv)"
  | (flying) g eff where "guard_of sv (ac_actuator_id c) = Some g" "sv_clock_trusted sv" "is_expired c (sv_now sv) = Inr False"
      "\<not> g_latched g" "drv_effective drv (ac_level c) = Inr eff"
      "apply_admit drv sink c sv = (Inr None, sv\<lparr>sv_in_flight := Some (flight_of c eff)\<rparr>)"
proof (cases "guard_of sv (ac_actuator_id c)")
  case None
  then show thesis by (intro unknown) (simp_all add: apply_admit_def)
next
  case g: (Some g)
  show thesis
  proof (cases "sv_clock_trusted sv")
    case False
    with g show thesis by (intro clock [of g]) (simp_all add: apply_admit_def)
  next
    case trusted: True
    show thesis
    proof (cases "is_expired c (sv_now sv)")
      case (Inl e)
      with g trusted show thesis by (intro naive [of g e]) (simp_all add: apply_admit_def)
    next
      case (Inr b)
      show thesis
      proof (cases b)
        case True
        with g trusted Inr show thesis by (intro expired [of g]) (simp_all add: apply_admit_def)
      next
        case live: False
        show thesis
        proof (cases "g_latched g")
          case True
          with g trusted Inr live show thesis by (intro latched [of g]) (simp_all add: apply_admit_def)
        next
          case False
          with g trusted Inr live show thesis
            by (cases "drv_effective drv (ac_level c)")
              (auto simp: apply_admit_def flight_of_def intro: refused [of g] flying [of g])
        qed
      qed
    qed
  qed
qed


text \<open>What the interlocks answer, as a list of checks; \<open>None\<close> is "go ahead".\<close>

fun first_refusal :: "(bool \<times> command_outcome) list \<Rightarrow> command_outcome option" where
  "first_refusal [] = None"
| "first_refusal ((refused, out) # rest) = (if refused then Some out else first_refusal rest)"

definition interlock_verdict :: "'d supervisor \<Rightarrow> actuator_command \<Rightarrow> instant \<Rightarrow> command_outcome option" where
  "interlock_verdict sv c now = first_refusal
     [(guard_of sv (ac_actuator_id c) = None, RejectedUnknown),
      (\<not> sv_clock_trusted sv, RejectedClock),
      (ac_expires_at c \<le> now, RejectedExpired),
      (is_latched (ac_actuator_id c) sv = Inr True, RejectedLatched)]"

lemma refuse_total:
  assumes "\<forall>ev. \<exists>b. sink ev = SinkCompletes b"
  shows "\<exists>sv' ev. refuse sink aid rs dt out sv = (Inr (Some out), sv') \<and> guard_of sv' = guard_of sv
    \<and> sv_events sv' = sv_events sv @ [ev] \<and> se_reached_safe ev"
proof -
  obtain r sv' where e: "emit_event sink aid rs dt True sv = (r, sv')" by fastforce
  obtain b where "sink (safety_event_of sv aid rs dt True) = SinkCompletes b" using assms by blast
  with e have "r = Inr ()" by (simp add: emit_event_def hear_def Let_def)
  with e emit_event_fields [OF e] show ?thesis
    by (simp add: refuse_eq) (simp add: safety_event_of_def)
qed

definition verdict_given ::
    "'d supervisor \<Rightarrow> actuator_command \<Rightarrow> level \<Rightarrow> command_outcome option
       \<Rightarrow> command_outcome option result \<times> 'd supervisor \<Rightarrow> bool" where
  "verdict_given sv c eff v res =
     (fst res = Inr v
      \<and> (case v of
           None \<Rightarrow> snd res = sv\<lparr>sv_in_flight := Some (flight_of c eff)\<rparr>
         | Some _ \<Rightarrow> guard_of (snd res) = guard_of sv
             \<and> (\<exists>ev. sv_events (snd res) = sv_events sv @ [ev] \<and> se_reached_safe ev)))"

lemma refuse_verdict:
  assumes "\<forall>ev. \<exists>b. sink ev = SinkCompletes b"
  shows "verdict_given sv c eff (Some out) (refuse sink aid rs dt out sv)"
  using refuse_total [OF assms, of aid rs dt out sv] by (auto simp: verdict_given_def)

lemma apply_admit_verdict:
  assumes sink: "\<forall>ev. \<exists>b. sink ev = SinkCompletes b" and now: "sv_now sv = Aware now"
    and eff: "drv_effective drv (ac_level c) = Inr eff"
  shows "verdict_given sv c eff (interlock_verdict sv c now) (apply_admit drv sink c sv)"
proof (cases "guard_of sv (ac_actuator_id c)")
  case None
  then show ?thesis by (simp add: apply_admit_def interlock_verdict_def refuse_verdict [OF sink])
next
  case (Some g)
  consider (clock) "\<not> sv_clock_trusted sv" | (expired) "sv_clock_trusted sv" "ac_expires_at c \<le> now"
    | (latched) "sv_clock_trusted sv" "\<not> ac_expires_at c \<le> now" "g_latched g"
    | (admitted) "sv_clock_trusted sv" "\<not> ac_expires_at c \<le> now" "\<not> g_latched g"
    by blast
  then show ?thesis
  proof cases
    case admitted
    with Some now eff show ?thesis
      by (simp add: apply_admit_def interlock_verdict_def is_latched_def flight_of_def verdict_given_def)
  qed (use Some now in \<open>simp_all add: apply_admit_def interlock_verdict_def is_latched_def
        refuse_verdict [OF sink]\<close>)
qed

lemma sup_apply_admitted:
  assumes "apply_admit drv sink c sv = (Inr None, sv\<lparr>sv_in_flight := Some (flight_of c eff)\<rparr>)"
    and "guard_of sv (ac_actuator_id c) = Some g"
  shows "fst (sup_apply drv sink c sv)
    = map_sum id (\<lambda>_. Applied) (fst (drv_apply drv (ac_level c) (g_device g)))"
proof -
  obtain x d where ap: "drv_apply drv (ac_level c) (g_device g) = (x, d)" by fastforce
  then have land: "apply_land drv (flight_of c eff) g = (x, g\<lparr>g_device := d\<rparr>)"
    by (simp add: apply_land_def flight_of_def)
  show ?thesis
    unfolding sup_apply_def assms(1) ap by (cases x) (simp_all add: assms(2) land)
qed

text \<open>
  The interlocks answer in a fixed order: not ours, clock not trusted, expired, latched.
  With a sink that completes, a refusal returns the first of these that holds, moves no device
  and tells the sink exactly one event; only when none holds is the driver asked, and then the
  outcome is the driver's.
\<close>

theorem refusals_in_order:
  assumes "\<forall>ev. \<exists>b. sink ev = SinkCompletes b" and "sv_now sv = Aware now"
    and "drv_effective drv (ac_level c) = Inr eff" and "sup_apply drv sink c sv = (r, sv')"
  shows "case interlock_verdict sv c now of
      Some out \<Rightarrow> r = Inr out \<and> guard_of sv' = guard_of sv
        \<and> (\<exists>ev. sv_events sv' = sv_events sv @ [ev] \<and> se_reached_safe ev)
    | None \<Rightarrow> (\<exists>g. guard_of sv (ac_actuator_id c) = Some g
        \<and> r = map_sum id (\<lambda>_. Applied) (fst (drv_apply drv (ac_level c) (g_device g))))"
proof -
  note v = apply_admit_verdict [OF assms(1-3)]
  show ?thesis
  proof (cases "interlock_verdict sv c now")
    case None
    then obtain g where g: "guard_of sv (ac_actuator_id c) = Some g"
      by (auto simp: interlock_verdict_def split: if_splits)
    have "apply_admit drv sink c sv = (Inr None, sv\<lparr>sv_in_flight := Some (flight_of c eff)\<rparr>)"
      using v None by (simp add: verdict_given_def prod_eq_iff)
    from sup_apply_admitted [OF this g] assms(4) g None show ?thesis by simp
  next
    case (Some out)
    obtain sv1 where adm: "apply_admit drv sink c sv = (Inr (Some out), sv1)"
      using v Some by (cases "apply_admit drv sink c sv") (simp add: verdict_given_def)
    with assms(4) have "r = Inr out" "sv' = sv1" by (simp_all add: sup_apply_def)
    with v Some adm show ?thesis by (simp add: verdict_given_def)
  qed
qed

theorem refusals_in_order_witness:
  "fst (sup_apply (snapping_driver 0) quiet_sink sample_command
     (set_clock_trusted False (blue_sup (PwmLevel 0)))) = Inr RejectedClock"
proof -
  let ?sv = "set_clock_trusted False (blue_sup (PwmLevel 0))"
  obtain r sv' where ap: "sup_apply (snapping_driver 0) quiet_sink sample_command ?sv = (r, sv')"
    by fastforce
  have q: "\<forall>ev. \<exists>b. quiet_sink ev = SinkCompletes b" by (auto simp: quiet_sink_def)
  have n: "sv_now ?sv = Aware 100" by (simp add: set_clock_trusted_def run_simps Let_def)
  have e: "drv_effective (snapping_driver 0) (ac_level sample_command) = Inr (PwmLevel (1/2))"
    by (simp add: run_simps)
  have v: "interlock_verdict ?sv sample_command 100 = Some RejectedClock"
    by (simp add: interlock_verdict_def set_clock_trusted_def run_simps Let_def)
  from refusals_in_order [OF q n e ap] show ?thesis unfolding v ap by simp
qed

end
