(* ===== verification/Trips.thy ===== *)
theory Trips
  imports Interlocks
begin

text \<open>
  The ways to the safe state: the heartbeat watcher with its retries, and the loops of
  \<open>start\<close> and \<open>stop\<close>, in which one actuator's failure must not strand another.
\<close>

section \<open>Losing the heartbeat\<close>

definition heartbeat_due :: "'d guard \<Rightarrow> seconds" where
  "heartbeat_due g = g_last_beat g + heartbeat_timeout_s g"

text \<open>One failed attempt to drive safe, and the last one, as the steps of the watcher.\<close>

definition failed_attempt :: "string \<Rightarrow> seconds \<Rightarrow> pydatetime \<Rightarrow> sup_label list" where
  "failed_attempt aid t now =
     [WatchAcquires aid, WatchLands aid, WatchRuns aid, WatchRuns aid, Advance t now, WatchRuns aid]"

definition last_attempt :: "string \<Rightarrow> sup_label list" where
  "last_attempt aid = [WatchAcquires aid, WatchLands aid, WatchRuns aid]"

fun attempts :: "string \<Rightarrow> nat \<Rightarrow> seconds \<Rightarrow> pydatetime \<Rightarrow> sup_label list" where
  "attempts aid 0 t now = last_attempt aid"
| "attempts aid (Suc n) t now =
     failed_attempt aid (t + RETRY_BACKOFF_S) now @ attempts aid n (t + RETRY_BACKOFF_S) now"

text \<open>The device after n failed \<open>drive_safe\<close> calls and one that lands.\<close>

fun safe_after :: "'d driver \<Rightarrow> nat \<Rightarrow> 'd \<Rightarrow> 'd option" where
  "safe_after drv 0 d = (case drv_drive_safe drv d of (Inr _, d') \<Rightarrow> Some d' | (Inl _, _) \<Rightarrow> None)"
| "safe_after drv (Suc n) d =
     (case drv_drive_safe drv d of (Inl _, d') \<Rightarrow> safe_after drv n d' | (Inr _, _) \<Rightarrow> None)"

text \<open>A watcher about to drive, with the lock free.\<close>

definition watch_ready :: "string \<Rightarrow> 'd guard \<Rightarrow> 'd supervisor \<Rightarrow> bool" where
  "watch_ready aid g sv =
     (sv_running sv \<and> guard_of sv aid = Some g
      \<and> g_watch_task g = Some (WatchTripping (Driving Waiting))
      \<and> busy_calls aid (sv_in_flight sv) g = 0)"

lemma watch_attempt:
  assumes "watch_ready aid g sv" "drv_drive_safe drv (g_device g) = (r, d)"
  shows "\<exists>sv1. sup_exec serial drv sink [WatchAcquires aid, WatchLands aid] sv = Some sv1
    \<and> guard_of sv1 aid = Some (g\<lparr>g_device := d, g_watch_task := Some (WatchTripping (Driving (Landed r)))\<rparr>)
    \<and> sv_running sv1 \<and> sv_in_flight sv1 = sv_in_flight sv \<and> sv_loop_time sv1 = sv_loop_time sv
    \<and> sv_now sv1 = sv_now sv \<and> sv_events sv1 = sv_events sv \<and> sv_heard sv1 = sv_heard sv"
  using assms
  by (simp add: watch_ready_def on_guard_def watch_call_step_def may_acquire_def land_safe_def)

lemma failed_attempt_runs:
  assumes "watch_ready aid g sv" "drv_drive_safe drv (g_device g) = (Inl e, d)"
    and "t = sv_loop_time sv + RETRY_BACKOFF_S"
  shows "\<exists>sv1 ev. sup_exec serial drv sink (failed_attempt aid t now) sv = Some sv1
    \<and> watch_ready aid (g\<lparr>g_device := d\<rparr>) sv1 \<and> sv_loop_time sv1 = t
    \<and> sv_in_flight sv1 = sv_in_flight sv
    \<and> sv_events sv1 = sv_events sv @ [ev] \<and> se_reason ev = HeartbeatTimeout \<and> \<not> se_reached_safe ev"
proof -
  obtain sv1 where sv1: "sup_exec serial drv sink [WatchAcquires aid, WatchLands aid] sv = Some sv1"
    "guard_of sv1 aid = Some (g\<lparr>g_device := d, g_watch_task := Some (WatchTripping (Driving (Landed (Inl e))))\<rparr>)"
    "sv_running sv1" "sv_in_flight sv1 = sv_in_flight sv" "sv_loop_time sv1 = sv_loop_time sv"
    "sv_events sv1 = sv_events sv"
    using watch_attempt [OF assms(1,2)] by blast
  have busy: "busy_calls aid (sv_in_flight sv) g = 0" and w: "g_watch_task g = Some (WatchTripping (Driving Waiting))"
    using assms(1) by (simp_all add: watch_ready_def)
  have split: "failed_attempt aid t now = [WatchAcquires aid, WatchLands aid]
      @ [WatchRuns aid, WatchRuns aid, Advance t now, WatchRuns aid]"
    by (simp add: failed_attempt_def)
  have t: "sv_loop_time sv \<le> t" using assms(3) by (simp add: RETRY_BACKOFF_S_def)
  show ?thesis
    unfolding split sup_exec_append sv1(1) option.case
    using sv1 busy w t assms(3)
    by (simp add: on_guard_def watch_run_def watch_ready_def busy_calls_def Let_def safety_event_of_def)
qed

lemma last_attempt_runs:
  assumes "watch_ready aid g sv" "drv_drive_safe drv (g_device g) = (Inr u, d)"
  shows "\<exists>sv1 g1 ev. sup_exec serial drv sink (last_attempt aid) sv = Some sv1
    \<and> guard_of sv1 aid = Some g1 \<and> g_device g1 = d \<and> g_at_safe_state g1
    \<and> \<not> runtime_live (g_runtime_task g1) \<and> g_latched g1 = g_latched g
    \<and> sv_events sv1 = sv_events sv @ [ev] \<and> se_reason ev = HeartbeatTimeout \<and> se_reached_safe ev"
proof -
  obtain sv1 where sv1: "sup_exec serial drv sink [WatchAcquires aid, WatchLands aid] sv = Some sv1"
    "guard_of sv1 aid = Some (g\<lparr>g_device := d, g_watch_task := Some (WatchTripping (Driving (Landed (Inr u))))\<rparr>)"
    "sv_running sv1" "sv_in_flight sv1 = sv_in_flight sv" "sv_loop_time sv1 = sv_loop_time sv"
    "sv_events sv1 = sv_events sv"
    using watch_attempt [OF assms(1,2)] by blast
  have split: "last_attempt aid = [WatchAcquires aid, WatchLands aid] @ [WatchRuns aid]"
    by (simp add: last_attempt_def)
  show ?thesis
    unfolding split sup_exec_append sv1(1) option.case
    using sv1
    by (simp add: on_guard_def watch_run_def Let_def safety_event_of_def mark_safe_runtime)
qed

lemma retry_until_landed:
  assumes "watch_ready aid g sv" "safe_after drv n (g_device g) = Some d" "t = sv_loop_time sv"
  shows "\<exists>sv1 g1 evs ev. sup_exec serial drv sink (attempts aid n t now) sv = Some sv1
    \<and> guard_of sv1 aid = Some g1 \<and> g_device g1 = d \<and> g_at_safe_state g1
    \<and> \<not> runtime_live (g_runtime_task g1) \<and> g_latched g1 = g_latched g
    \<and> sv_events sv1 = sv_events sv @ evs @ [ev] \<and> length evs = n
    \<and> list_all (\<lambda>e. se_reason e = HeartbeatTimeout \<and> \<not> se_reached_safe e) evs
    \<and> se_reason ev = HeartbeatTimeout \<and> se_reached_safe ev"
  using assms
proof (induction n arbitrary: g sv t)
  case 0
  obtain r d' where r: "drv_drive_safe drv (g_device g) = (r, d')" by fastforce
  with "0.prems"(2) obtain u where "r = Inr u" "d' = d" by (cases r) auto
  with last_attempt_runs [OF "0.prems"(1), of drv u d serial sink] r obtain sv1 g1 ev where
      "sup_exec serial drv sink (last_attempt aid) sv = Some sv1" "guard_of sv1 aid = Some g1"
      "g_device g1 = d" "g_at_safe_state g1" "\<not> runtime_live (g_runtime_task g1)"
      "g_latched g1 = g_latched g" "sv_events sv1 = sv_events sv @ [ev]"
      "se_reason ev = HeartbeatTimeout" "se_reached_safe ev"
    by auto
  then show ?case
    by (intro exI [of _ sv1] exI [of _ g1] exI [of _ "[]"] exI [of _ ev]) simp
next
  case (Suc n)
  obtain r d' where r: "drv_drive_safe drv (g_device g) = (r, d')" by fastforce
  with Suc.prems(2) obtain e where e: "r = Inl e" "safe_after drv n d' = Some d" by (cases r) auto
  from failed_attempt_runs [OF Suc.prems(1), of drv e d' "t + RETRY_BACKOFF_S" serial sink now] r e Suc.prems(3)
  obtain sv1 ev1 where one: "sup_exec serial drv sink (failed_attempt aid (t + RETRY_BACKOFF_S) now) sv = Some sv1"
    "watch_ready aid (g\<lparr>g_device := d'\<rparr>) sv1" "sv_loop_time sv1 = t + RETRY_BACKOFF_S"
    "sv_events sv1 = sv_events sv @ [ev1]" "se_reason ev1 = HeartbeatTimeout" "\<not> se_reached_safe ev1"
    by auto
  have "safe_after drv n (g_device (g\<lparr>g_device := d'\<rparr>)) = Some d" using e(2) by simp
  from Suc.IH [OF one(2) this one(3) [symmetric]] obtain sv2 g2 evs ev where
    two: "sup_exec serial drv sink (attempts aid n (t + RETRY_BACKOFF_S) now) sv1 = Some sv2"
      "guard_of sv2 aid = Some g2" "g_device g2 = d" "g_at_safe_state g2"
      "\<not> runtime_live (g_runtime_task g2)" "g_latched g2 = g_latched (g\<lparr>g_device := d'\<rparr>)"
      "sv_events sv2 = sv_events sv1 @ evs @ [ev]" "length evs = n"
      "list_all (\<lambda>e. se_reason e = HeartbeatTimeout \<and> \<not> se_reached_safe e) evs"
      "se_reason ev = HeartbeatTimeout" "se_reached_safe ev"
    by blast
  have "sup_exec serial drv sink (attempts aid (Suc n) t now) sv = Some sv2"
    using one(1) two(1) by (simp add: sup_exec_append)
  with two one show ?case
    by (intro exI [of _ sv2] exI [of _ g2] exI [of _ "ev1 # evs"] exI [of _ ev]) simp
qed

text \<open>The watcher's own steps from asleep at its deadline to about to drive.\<close>

lemma deadline_trips:
  assumes g: "guard_of sv aid = Some g" and w: "g_watch_task g = Some (WatchUntil d)" "d \<le> heartbeat_due g"
    and quiet: "\<not> g_beat g" "\<not> g_heartbeat_lost g" "heartbeat_due g \<le> sv_loop_time sv"
    and free: "sv_running sv" "busy_calls aid (sv_in_flight sv) g = 0"
  shows "\<exists>sv1. sup_exec serial drv sink [WatchRuns aid, WatchRuns aid] sv = Some sv1
    \<and> watch_ready aid (g\<lparr>g_heartbeat_lost := True, g_watch_task := Some (WatchTripping (Driving Waiting))\<rparr>) sv1
    \<and> sv_loop_time sv1 = sv_loop_time sv \<and> sv_events sv1 = sv_events sv"
  using assms
  by (simp add: on_guard_def watch_run_def watch_top_def watch_ready_def heartbeat_due_def
      heartbeat_timeout_s_def busy_calls_def)

text \<open>
  C8. Losing the heartbeat puts an output dark, however long its driver fails. Once no beat
  has come for the timeout, with the actuator's lock free, the watcher's next steps drive it
  safe: if \<open>drive_safe\<close> fails n times and then lands, they make n+1 attempts one backoff
  apart, tell the sink n failures and then the one success, and end with the device at what
  the last call made of it, \<open>at_safe_state\<close> set and the runtime cap stopped - without a latch.
\<close>

theorem heartbeat_loss_drives_safe:
  assumes "guard_of sv aid = Some g" "g_watch_task g = Some (WatchUntil until)" "until \<le> heartbeat_due g"
    and "\<not> g_beat g" "\<not> g_heartbeat_lost g" "heartbeat_due g \<le> sv_loop_time sv"
    and "sv_running sv" "busy_calls aid (sv_in_flight sv) g = 0"
    and "safe_after drv n (g_device g) = Some d"
  shows "\<exists>sv1 g1 evs ev.
    sup_exec serial drv sink ([WatchRuns aid, WatchRuns aid] @ attempts aid n (sv_loop_time sv) now) sv = Some sv1
    \<and> guard_of sv1 aid = Some g1 \<and> g_device g1 = d \<and> g_at_safe_state g1
    \<and> \<not> runtime_live (g_runtime_task g1) \<and> g_latched g1 = g_latched g
    \<and> sv_events sv1 = sv_events sv @ evs @ [ev] \<and> length evs = n
    \<and> list_all (\<lambda>e. se_reason e = HeartbeatTimeout \<and> \<not> se_reached_safe e) evs
    \<and> se_reason ev = HeartbeatTimeout \<and> se_reached_safe ev"
proof -
  let ?g = "g\<lparr>g_heartbeat_lost := True, g_watch_task := Some (WatchTripping (Driving Waiting))\<rparr>"
  obtain sv0 where sv0: "sup_exec serial drv sink [WatchRuns aid, WatchRuns aid] sv = Some sv0"
    "watch_ready aid ?g sv0" "sv_loop_time sv0 = sv_loop_time sv" "sv_events sv0 = sv_events sv"
    using deadline_trips [OF assms(1-8)] by blast
  have "safe_after drv n (g_device ?g) = Some d" using assms(9) by simp
  from retry_until_landed [OF sv0(2) this sv0(3) [symmetric], of serial sink now]
  show ?thesis unfolding sup_exec_append sv0(1) option.case sv0(4) by simp
qed

text \<open>A lit output whose controller fell silent at loop time 0.\<close>

definition silent_sup :: "level supervisor" where
  "silent_sup = the (sup_exec True (snapping_driver 0) quiet_sink
     [WatchRuns ''blue'', Advance 30 (Aware 130)] lit_sup)"

lemma silent_sup_guard:
  "\<exists>g. guard_of silent_sup ''blue'' = Some g \<and> g_watch_task g = Some (WatchUntil 30)
     \<and> heartbeat_due g = 30 \<and> \<not> g_beat g \<and> \<not> g_heartbeat_lost g \<and> g_device g = PwmLevel (1/2)
     \<and> busy_calls ''blue'' (sv_in_flight silent_sup) g = 0"
  by (simp add: silent_sup_def lit_sup_def run_simps Let_def watch_run_def watch_top_def
      heartbeat_due_def heartbeat_timeout_s_def)

theorem heartbeat_loss_drives_safe_witness:
  "\<exists>sv1 g1. sup_exec True (snapping_driver 0) quiet_sink
      ([WatchRuns ''blue'', WatchRuns ''blue''] @ attempts ''blue'' 0 (sv_loop_time silent_sup) (Aware 130))
      silent_sup = Some sv1
    \<and> guard_of sv1 ''blue'' = Some g1 \<and> g_device g1 = PwmLevel 0 \<and> g_at_safe_state g1"
proof -
  obtain g where g: "guard_of silent_sup ''blue'' = Some g" "g_watch_task g = Some (WatchUntil 30)"
      "heartbeat_due g = 30" "\<not> g_beat g" "\<not> g_heartbeat_lost g"
      "busy_calls ''blue'' (sv_in_flight silent_sup) g = 0"
    using silent_sup_guard by blast
  have s: "30 \<le> heartbeat_due g" "heartbeat_due g \<le> sv_loop_time silent_sup" "sv_running silent_sup"
    using g(3) by (simp_all add: silent_sup_def lit_sup_def run_simps Let_def watch_run_def watch_top_def
        heartbeat_timeout_s_def)
  have d: "safe_after (snapping_driver 0) 0 (g_device g) = Some (PwmLevel 0)"
    by (simp add: snapping_driver_def)
  from heartbeat_loss_drives_safe [OF g(1,2) s(1) g(4,5) s(2,3) g(6) d]
  show ?thesis by blast
qed

section \<open>Start and stop\<close>

text \<open>Which guards a lifecycle loop fails on, by the driver alone.\<close>

definition safe_error :: "'d driver \<Rightarrow> 'd \<Rightarrow> py_error option" where
  "safe_error drv d = (case fst (drv_drive_safe drv d) of Inl e \<Rightarrow> Some e | Inr _ \<Rightarrow> None)"

text \<open>
  A loop body that never raises, touches only its own guard, and fails exactly when that
  guard's drive does: then every guard is driven, whatever happens to the others.
\<close>

definition isolated ::
    "seconds \<Rightarrow> (string \<Rightarrow> 'd guard \<Rightarrow> 'd supervisor \<Rightarrow> py_error option result \<times> 'd supervisor)
       \<Rightarrow> ('d guard \<Rightarrow> 'd guard) \<Rightarrow> ('d guard \<Rightarrow> py_error option) \<Rightarrow> bool" where
  "isolated t body after err \<longleftrightarrow>
     (\<forall>aid g sv. guard_of sv aid = Some g \<and> sv_loop_time sv = t \<longrightarrow>
        fst (body aid g sv) = Inr (err g) \<and> sv_loop_time (snd (body aid g sv)) = t
        \<and> guard_of (snd (body aid g sv)) = (guard_of sv)(aid \<mapsto> after g))"

definition failures_of :: "('d guard \<Rightarrow> py_error option) \<Rightarrow> 'd supervisor \<Rightarrow> string list \<Rightarrow> py_error list" where
  "failures_of err sv aids = somes (map (\<lambda>aid. err (the (guard_of sv aid))) aids)"

lemma failures_of_Cons:
  "failures_of err sv (aid # aids) =
     (case err (the (guard_of sv aid)) of None \<Rightarrow> failures_of err sv aids | Some e \<Rightarrow> e # failures_of err sv aids)"
  by (simp add: failures_of_def split: option.split)

lemma failures_of_cong:
  "\<forall>aid \<in> set aids. guard_of sv aid = guard_of sv' aid \<Longrightarrow> failures_of err sv aids = failures_of err sv' aids"
  unfolding failures_of_def by (metis (mono_tags, lifting) map_eq_conv)

lemma each_guard_isolated:
  assumes iso: "isolated t body after err" and "distinct aids" "sv_loop_time sv = t"
    and "\<forall>aid \<in> set aids. guard_of sv aid \<noteq> None"
  shows "\<exists>sv'. each_guard body aids fs sv =
      (if fs @ failures_of err sv aids = [] then Inr ()
       else Inl (ExceptionGroup (fs @ failures_of err sv aids)), sv')
    \<and> (\<forall>k. guard_of sv' k = (if k \<in> set aids then map_option after (guard_of sv k) else guard_of sv k))"
  using assms(2,3,4)
proof (induction aids arbitrary: fs sv)
  case Nil
  then show ?case by (auto simp: failures_of_def)
next
  case (Cons aid aids)
  then obtain g where g: "guard_of sv aid = Some g" by auto
  obtain r sv1 where b: "body aid g sv = (r, sv1)" by fastforce
  from iso [unfolded isolated_def, rule_format, of sv aid g] g b Cons.prems(2)
  have r: "r = Inr (err g)" and t: "sv_loop_time sv1 = t" and gs: "guard_of sv1 = (guard_of sv)(aid \<mapsto> after g)"
    by simp_all
  have prem: "distinct aids" "\<forall>k \<in> set aids. guard_of sv1 k \<noteq> None"
    using Cons.prems gs by auto
  have same: "failures_of err sv1 aids = failures_of err sv aids"
    by (rule failures_of_cong) (use Cons.prems(1) gs in auto)
  define fs' where "fs' = (case err g of None \<Rightarrow> fs | Some e \<Rightarrow> fs @ [e])"
  have step: "each_guard body (aid # aids) fs sv = each_guard body aids fs' sv1"
    using g b r by (simp add: fs'_def split: option.split)
  have fails: "fs @ failures_of err sv (aid # aids) = fs' @ failures_of err sv1 aids"
    using same g by (simp add: failures_of_Cons fs'_def split: option.split)
  from Cons.IH [OF prem(1) t prem(2), of fs'] obtain sv' where
    "each_guard body aids fs' sv1 = (if fs' @ failures_of err sv1 aids = [] then Inr ()
       else Inl (ExceptionGroup (fs' @ failures_of err sv1 aids)), sv')"
    "\<forall>k. guard_of sv' k = (if k \<in> set aids then map_option after (guard_of sv1 k) else guard_of sv1 k)"
    by blast
  then show ?case
    unfolding step fails using gs g Cons.prems(1) by (intro exI [of _ sv']) auto
qed

lemma guard_of_ids: "\<forall>aid \<in> set (actuator_ids sv). guard_of sv aid \<noteq> None"
  by (auto simp: actuator_ids_def guard_of_def map_of_eq_None_iff)

lemma guard_of_id: "guard_of sv aid = Some g \<Longrightarrow> aid \<in> set (actuator_ids sv)"
  unfolding actuator_ids_def guard_of_def by (metis domI dom_map_of_conv_image_fst set_map)

lemma emit_total:
  assumes "\<forall>ev. \<exists>b. sink ev = SinkCompletes b"
  shows "\<exists>sv'. emit_event sink aid rs dt reached sv = (Inr (), sv') \<and> guard_of sv' = guard_of sv"
proof -
  obtain r sv' where e: "emit_event sink aid rs dt reached sv = (r, sv')" by fastforce
  obtain b where "sink (safety_event_of sv aid rs dt reached) = SinkCompletes b" using assms by blast
  with e have "r = Inr ()" by (simp add: emit_event_def hear_def Let_def)
  with e emit_event_fields [OF e] show ?thesis by simp
qed

definition started :: "'d driver \<Rightarrow> seconds \<Rightarrow> 'd guard \<Rightarrow> 'd guard" where
  "started drv t g =
     (case drv_drive_safe drv (g_device g) of
        (Inr _, d) \<Rightarrow> g\<lparr>g_last_beat := t, g_device := d, g_at_safe_state := True, g_watch_task := Some WatchTop\<rparr>
      | (Inl e, d) \<Rightarrow> g\<lparr>g_last_beat := t, g_device := d, g_latched := True,
           g_latch_detail := StartupUnsafe e, g_watch_task := Some WatchTop\<rparr>)"

definition stopped :: "'d driver \<Rightarrow> 'd guard \<Rightarrow> 'd guard" where
  "stopped drv g =
     (case drv_drive_safe drv (g_device (cancel_tasks drv g)) of
        (Inr _, d) \<Rightarrow> mark_safe ((cancel_tasks drv g)\<lparr>g_device := d\<rparr>)
      | (Inl e, d) \<Rightarrow> (cancel_tasks drv g)\<lparr>g_device := d\<rparr>)"

lemma upd_guard_map: "guard_of sv aid = Some g \<Longrightarrow> guard_of (upd_guard aid f sv) = (guard_of sv)(aid \<mapsto> f g)"
  by (auto simp: fun_eq_iff)

lemma start_guard_eq:
  assumes sink: "\<forall>ev. \<exists>b. sink ev = SinkCompletes b"
    and g: "guard_of sv aid = Some g"
  obtains sv' where "start_guard drv sink aid g sv = (Inr (safe_error drv (g_device g)), sv')"
    "sv_loop_time sv' = sv_loop_time sv"
    "guard_of sv' = (guard_of sv)(aid \<mapsto> started drv (sv_loop_time sv) g)"
proof (cases "drv_drive_safe drv (g_device g)")
  case (Pair r d)
  show thesis
  proof (cases r)
    case (Inr u)
    with Pair have dr: "drv_drive_safe drv (g_device g) = (Inr (), d)" by simp
    show thesis
      by (rule that [of "upd_guard aid (\<lambda>g. g\<lparr>g_last_beat := sv_loop_time sv, g_device := d,
             g_at_safe_state := True, g_watch_task := Some WatchTop\<rparr>) sv"])
        (simp_all add: start_guard_def dr safe_error_def started_def upd_guard_map [OF g] split: unit.split)
  next
    case (Inl e)
    with Pair have dr: "drv_drive_safe drv (g_device g) = (Inl e, d)" by simp
    let ?up = "upd_guard aid (\<lambda>g. g\<lparr>g_last_beat := sv_loop_time sv, g_device := d,
                     g_latched := True, g_latch_detail := StartupUnsafe e\<rparr>) sv"
    obtain sv1 where em: "emit_event sink aid Shutdown (StartupUnsafe e) False ?up = (Inr (), sv1)"
      and gu: "guard_of sv1 = guard_of ?up"
      using emit_total [OF sink] by blast
    have g1: "guard_of sv1 = (guard_of sv)(aid \<mapsto> g\<lparr>g_last_beat := sv_loop_time sv, g_device := d,
                     g_latched := True, g_latch_detail := StartupUnsafe e\<rparr>)"
      using gu by (simp add: upd_guard_map [OF g])
    then have g1': "guard_of sv1 aid = Some (g\<lparr>g_last_beat := sv_loop_time sv, g_device := d,
                     g_latched := True, g_latch_detail := StartupUnsafe e\<rparr>)" by simp
    show thesis
      by (rule that [of "upd_guard aid (\<lambda>g. g\<lparr>g_watch_task := Some WatchTop\<rparr>) sv1"])
        (simp_all add: start_guard_def dr em safe_error_def started_def upd_guard_map [OF g1'] g1
          emit_event_fields(5) [OF em] split: unit.split)
  qed
qed

lemma stop_guard_eq:
  assumes sink: "\<forall>ev. \<exists>b. sink ev = SinkCompletes b"
    and g: "guard_of sv aid = Some g"
  obtains sv' where
    "stop_guard drv sink aid g sv = (Inr (safe_error drv (g_device (cancel_tasks drv g))), sv')"
    "sv_loop_time sv' = sv_loop_time sv" "guard_of sv' = (guard_of sv)(aid \<mapsto> stopped drv g)"
proof (cases "drv_drive_safe drv (g_device (cancel_tasks drv g))")
  case (Pair r d)
  let ?g = "cancel_tasks drv g"
  show thesis
  proof (cases r)
    case (Inr u)
    with Pair have dr: "drv_drive_safe drv (g_device ?g) = (Inr (), d)" by simp
    obtain sv1 where em: "emit_event sink aid Shutdown SupervisorStopping True
        (upd_guard aid (\<lambda>_. mark_safe (?g\<lparr>g_device := d\<rparr>)) sv) = (Inr (), sv1)"
      and gu: "guard_of sv1 = guard_of (upd_guard aid (\<lambda>_. mark_safe (?g\<lparr>g_device := d\<rparr>)) sv)"
      using emit_total [OF sink] by blast
    show thesis
      by (rule that [of sv1]) (simp_all add: stop_guard_def drive_safe_once_def dr em safe_error_def
          stopped_def gu upd_guard_map [OF g] emit_event_fields(5) [OF em] split: unit.split)
  next
    case (Inl e)
    with Pair have dr: "drv_drive_safe drv (g_device ?g) = (Inl e, d)" by simp
    obtain sv1 where em: "emit_event sink aid Shutdown (ShutdownDriveFailed e) False
        (upd_guard aid (\<lambda>_. ?g\<lparr>g_device := d\<rparr>) sv) = (Inr (), sv1)"
      and gu: "guard_of sv1 = guard_of (upd_guard aid (\<lambda>_. ?g\<lparr>g_device := d\<rparr>) sv)"
      using emit_total [OF sink] by blast
    show thesis
      by (rule that [of sv1]) (simp_all add: stop_guard_def drive_safe_once_def dr em safe_error_def
          stopped_def gu upd_guard_map [OF g] emit_event_fields(5) [OF em] split: unit.split)
  qed
qed

lemma start_isolated:
  assumes "\<forall>ev. \<exists>b. sink ev = SinkCompletes b"
  shows "isolated t (start_guard drv sink) (started drv t) (\<lambda>g. safe_error drv (g_device g))"
  unfolding isolated_def
proof (intro allI impI, elim conjE)
  fix aid and g :: "'a guard" and sv :: "'a supervisor"
  assume g: "guard_of sv aid = Some g" and t: "sv_loop_time sv = t"
  obtain sv' where "start_guard drv sink aid g sv = (Inr (safe_error drv (g_device g)), sv')"
    "sv_loop_time sv' = sv_loop_time sv" "guard_of sv' = (guard_of sv)(aid \<mapsto> started drv (sv_loop_time sv) g)"
    using start_guard_eq [OF assms g] by metis
  with t show "fst (start_guard drv sink aid g sv) = Inr (safe_error drv (g_device g))
    \<and> sv_loop_time (snd (start_guard drv sink aid g sv)) = t
    \<and> guard_of (snd (start_guard drv sink aid g sv)) = (guard_of sv)(aid \<mapsto> started drv t g)"
    by simp
qed

lemma stop_isolated:
  assumes "\<forall>ev. \<exists>b. sink ev = SinkCompletes b"
  shows "isolated t (stop_guard drv sink) (stopped drv) (\<lambda>g. safe_error drv (g_device (cancel_tasks drv g)))"
  unfolding isolated_def
proof (intro allI impI, elim conjE)
  fix aid and g :: "'a guard" and sv :: "'a supervisor"
  assume g: "guard_of sv aid = Some g" and t: "sv_loop_time sv = t"
  obtain sv' where "stop_guard drv sink aid g sv = (Inr (safe_error drv (g_device (cancel_tasks drv g))), sv')"
    "sv_loop_time sv' = sv_loop_time sv" "guard_of sv' = (guard_of sv)(aid \<mapsto> stopped drv g)"
    using stop_guard_eq [OF assms g] by metis
  with t show "fst (stop_guard drv sink aid g sv) = Inr (safe_error drv (g_device (cancel_tasks drv g)))
    \<and> sv_loop_time (snd (stop_guard drv sink aid g sv)) = t
    \<and> guard_of (snd (stop_guard drv sink aid g sv)) = (guard_of sv)(aid \<mapsto> stopped drv g)"
    by simp
qed

text \<open>
  One bad driver strands nobody. With a sink that completes, \<open>stop\<close> cancels both tasks
  of every actuator and drives every one of them safe, in whatever state and however many of
  the drives raise; what it raises at the end is exactly the failures, in order, together.
\<close>

lemma stop_drives_all:
  assumes "\<forall>ev. \<exists>b. sink ev = SinkCompletes b" and "distinct (actuator_ids sv)"
  shows "\<exists>sv'. sup_stop drv sink sv =
      (let es = failures_of (\<lambda>g. safe_error drv (g_device (cancel_tasks drv g))) sv (actuator_ids sv)
       in if es = [] then Inr () else Inl (ExceptionGroup es), sv')
    \<and> (\<forall>aid g. guard_of sv aid = Some g \<longrightarrow> (\<exists>g'. guard_of sv' aid = Some g'
         \<and> g_device g' = snd (drv_drive_safe drv (g_device (cancel_tasks drv g)))
         \<and> g_watch_task g' = None \<and> g_runtime_task g' = None
         \<and> (safe_error drv (g_device (cancel_tasks drv g)) = None \<longrightarrow> g_at_safe_state g')))"
proof -
  let ?sv = "sv\<lparr>sv_running := False\<rparr>"
  have ids: "distinct (actuator_ids ?sv)" "\<forall>aid \<in> set (actuator_ids ?sv). guard_of ?sv aid \<noteq> None"
    "actuator_ids ?sv = actuator_ids sv"
    using assms(2) guard_of_ids [of sv] by (simp_all add: actuator_ids_def)
  have fs: "failures_of err ?sv aids = failures_of err sv aids" for err aids
    by (rule failures_of_cong) simp
  obtain sv' where ex: "each_guard (stop_guard drv sink) (actuator_ids ?sv) [] ?sv =
      (if [] @ failures_of (\<lambda>g. safe_error drv (g_device (cancel_tasks drv g))) ?sv (actuator_ids ?sv) = []
       then Inr () else Inl (ExceptionGroup
         ([] @ failures_of (\<lambda>g. safe_error drv (g_device (cancel_tasks drv g))) ?sv (actuator_ids ?sv))), sv')"
    and gs: "\<forall>k. guard_of sv' k = (if k \<in> set (actuator_ids ?sv)
         then map_option (stopped drv) (guard_of ?sv k) else guard_of ?sv k)"
    using each_guard_isolated [OF stop_isolated [OF assms(1)] ids(1) refl ids(2)] by blast
  have "\<exists>g'. guard_of sv' aid = Some g'
         \<and> g_device g' = snd (drv_drive_safe drv (g_device (cancel_tasks drv g)))
         \<and> g_watch_task g' = None \<and> g_runtime_task g' = None
         \<and> (safe_error drv (g_device (cancel_tasks drv g)) = None \<longrightarrow> g_at_safe_state g')"
    if "guard_of sv aid = Some g" for aid g
    using gs that guard_of_id [OF that] ids(3)
    by (auto simp: stopped_def safe_error_def cancel_tasks_def mark_safe_runtime split: prod.split sum.split)
  with ex fs ids(3) show ?thesis by (auto simp: sup_stop_def Let_def)
qed

lemma stop_drives_all_example:
  "\<exists>sv' g'. sup_stop (snapping_driver 0) quiet_sink lit_sup = (Inr (), sv')
     \<and> guard_of sv' ''blue'' = Some g' \<and> g_device g' = PwmLevel 0 \<and> g_at_safe_state g'"
proof -
  have q: "\<forall>ev. \<exists>b. quiet_sink ev = SinkCompletes b" by (auto simp: quiet_sink_def)
  have d: "distinct (actuator_ids lit_sup)"
    by (simp add: lit_sup_def run_simps Let_def actuator_ids_def)
  have ok: "safe_error (snapping_driver 0) x = None" "snd (drv_drive_safe (snapping_driver 0) x) = PwmLevel 0" for x
    by (simp_all add: safe_error_def snapping_driver_def)
  have none: "failures_of (\<lambda>_. None) lit_sup xs = []" for xs
    by (induction xs) (simp_all add: failures_of_def)
  obtain g where "guard_of lit_sup ''blue'' = Some g" using lit_sup_guard by blast
  with stop_drives_all [OF q d, of "snapping_driver 0"] show ?thesis
    unfolding ok none by fastforce
qed

end
