(* ===== verification/PiPwm.thy ===== *)
theory PiPwm
  imports Drivers
begin

text \<open>
  The RP1 PWM driver, \<open>drivers/pipwm.py\<close>. The kernel's sysfs files are not part of the
  repository: the four operations of \<open>SysfsWriter\<close> are a parameter over an abstract file
  system state, in which time passes by \<open>sleeping\<close>. The kernel's rules as the repository
  writes them down, in the fake of \<open>tests/test_pipwm.py\<close>, give the concrete file system
  on which the driver is shown to come up.
\<close>

section \<open>The seam\<close>

type_synonym path = "string list"

record 's sysfs =
  sf_write :: "path \<Rightarrow> string \<Rightarrow> ('s, unit) io"
  sf_read :: "path \<Rightarrow> ('s, string) io"
  sf_exists :: "path \<Rightarrow> 's \<Rightarrow> bool \<times> 's"
  sf_writable :: "path \<Rightarrow> 's \<Rightarrow> bool \<times> 's"
  sf_sleeping :: "seconds \<Rightarrow> 's \<Rightarrow> 's"

definition PWM_CHIP_ROOT :: path where
  "PWM_CHIP_ROOT = [''sys'', ''class'', ''pwm'', ''pwmchip0'']"

definition DEFAULT_PERIOD_NS :: int where "DEFAULT_PERIOD_NS = 2000000"
definition EXPORT_TIMEOUT_S :: seconds where "EXPORT_TIMEOUT_S = 2"
definition EXPORT_POLL_S :: seconds where "EXPORT_POLL_S = 1 / 100"

text \<open>\<open>int(snap_duty(duty) * period_ns)\<close>.\<close>

definition duty_to_ns :: "duty \<Rightarrow> int \<Rightarrow> int" where
  "duty_to_ns d period_ns = py_int (snap_duty d * of_int period_ns)"

section \<open>One channel\<close>

record 's pipwm =
  pp_channel :: int
  pp_chip :: path
  pp_period_ns :: int
  pp_inverted :: bool
  pp_sysfs :: "'s sysfs"

definition pp_dir :: "'s pipwm \<Rightarrow> path" where
  "pp_dir c = pp_chip c @ [''pwm'' @ py_str_int (pp_channel c)]"

definition polarity :: "'s pipwm \<Rightarrow> string" where
  "polarity c = (if pp_inverted c then ''inversed'' else ''normal'')"

definition pp_write :: "'s pipwm \<Rightarrow> string \<Rightarrow> string \<Rightarrow> ('s, unit) io" where
  "pp_write c attr v = sf_write (pp_sysfs c) (pp_dir c @ [attr]) v"

definition polls_left :: "seconds \<Rightarrow> nat" where
  "polls_left waited = nat \<lceil>(EXPORT_TIMEOUT_S - waited) / EXPORT_POLL_S\<rceil>"

lemma polls_left_decrease:
  assumes "w < EXPORT_TIMEOUT_S"
  shows "polls_left (w + EXPORT_POLL_S) < polls_left w"
proof -
  have "(EXPORT_TIMEOUT_S - (w + EXPORT_POLL_S)) / EXPORT_POLL_S = (EXPORT_TIMEOUT_S - w) / EXPORT_POLL_S - 1"
    by (simp add: EXPORT_POLL_S_def field_simps)
  moreover have "0 < (EXPORT_TIMEOUT_S - w) / EXPORT_POLL_S"
    using assms by (simp add: EXPORT_POLL_S_def)
  ultimately show ?thesis by (simp add: polls_left_def)
qed

text \<open>\<open>_await_export\<close>: both waits in one poll, then the two different complaints.\<close>

function await_export_loop :: "'s pipwm \<Rightarrow> seconds \<Rightarrow> 's \<Rightarrow> bool \<times> 's" where
  "await_export_loop c waited s =
     (if waited < EXPORT_TIMEOUT_S
      then case sf_exists (pp_sysfs c) (pp_dir c) s of
             (False, s) \<Rightarrow> await_export_loop c (waited + EXPORT_POLL_S) (sf_sleeping (pp_sysfs c) EXPORT_POLL_S s)
           | (True, s) \<Rightarrow>
               (case sf_writable (pp_sysfs c) (pp_dir c @ [''duty_cycle'']) s of
                  (True, s) \<Rightarrow> (True, s)
                | (False, s) \<Rightarrow>
                    await_export_loop c (waited + EXPORT_POLL_S) (sf_sleeping (pp_sysfs c) EXPORT_POLL_S s))
      else (False, s))"
  by pat_completeness auto
termination
  by (relation "measure (\<lambda>(c, waited, s). polls_left waited)") (auto intro: polls_left_decrease)

declare await_export_loop.simps [simp del]

definition await_export :: "'s pipwm \<Rightarrow> ('s, unit) io" where
  "await_export c s =
     (case await_export_loop c 0 s of
        (True, s) \<Rightarrow> (Inr (), s)
      | (False, s) \<Rightarrow>
          (case sf_exists (pp_sysfs c) (pp_dir c) s of
             (False, s) \<Rightarrow> (Inl (RuntimeError ''did not appear''), s)
           | (True, s) \<Rightarrow> (Inl (RuntimeError ''never became writable''), s)))"

text \<open>\<open>open\<close>: disable or export, then the five writes.\<close>

definition pp_prepare :: "'s pipwm \<Rightarrow> ('s, unit) io" where
  "pp_prepare c s =
     (case sf_exists (pp_sysfs c) (pp_dir c) s of
        (True, s) \<Rightarrow> pp_write c ''enable'' ''0'' s
      | (False, s) \<Rightarrow>
          io_bind (sf_write (pp_sysfs c) (pp_chip c @ [''export'']) (py_str_int (pp_channel c)))
            (\<lambda>_. await_export c) s)"

definition pp_configure :: "'s pipwm \<Rightarrow> ('s, unit) io" where
  "pp_configure c =
     io_bind (pp_write c ''duty_cycle'' ''0'') (\<lambda>_.
     io_bind (pp_write c ''period'' (py_str_int (pp_period_ns c))) (\<lambda>_.
     io_bind (pp_write c ''polarity'' (polarity c)) (\<lambda>_.
     io_bind (pp_write c ''duty_cycle'' ''0'') (\<lambda>_.
     pp_write c ''enable'' ''1''))))"

definition pp_open :: "'s pipwm \<Rightarrow> ('s, unit) io" where
  "pp_open c = io_bind (pp_prepare c) (\<lambda>_. pp_configure c)"

definition pp_close :: "'s pipwm \<Rightarrow> ('s, unit) io" where
  "pp_close c s =
     (case sf_exists (pp_sysfs c) (pp_dir c) s of
        (False, s) \<Rightarrow> (Inr (), s)
      | (True, s) \<Rightarrow>
          io_bind (pp_write c ''duty_cycle'' ''0'') (\<lambda>_.
          io_bind (pp_write c ''enable'' ''0'') (\<lambda>_.
          sf_write (pp_sysfs c) (pp_chip c @ [''unexport'']) (py_str_int (pp_channel c)))) s)"

fun pp_apply :: "'s pipwm \<Rightarrow> level \<Rightarrow> ('s, unit) io" where
  "pp_apply c (PwmLevel d) = pp_write c ''duty_cycle'' (py_str_int (duty_to_ns d (pp_period_ns c)))"
| "pp_apply c (BinaryLevel _) = io_fail (TypeError ''is a PWM channel'')"

definition pp_drive_safe :: "'s pipwm \<Rightarrow> ('s, unit) io" where
  "pp_drive_safe c = pp_write c ''duty_cycle'' ''0''"

text \<open>\<open>read_back\<close> answers \<open>None\<close> on an unreadable or senseless file.\<close>

definition read_int :: "'s pipwm \<Rightarrow> string \<Rightarrow> ('s, int) io" where
  "read_int c attr s =
     (case sf_read (pp_sysfs c) (pp_dir c @ [attr]) s of
        (Inl e, s) \<Rightarrow> (Inl e, s) | (Inr v, s) \<Rightarrow> (py_int_of v, s))"

definition pp_read_back :: "'s pipwm \<Rightarrow> 's \<Rightarrow> level option result \<times> 's" where
  "pp_read_back c s =
     (case io_bind (read_int c ''duty_cycle'') (\<lambda>duty_ns.
           io_bind (read_int c ''period'') (\<lambda>period_ns. io_return (duty_ns, period_ns))) s of
        (Inl e, s) \<Rightarrow>
          ((case e of OSError _ \<Rightarrow> Inr None | ValueError _ \<Rightarrow> Inr None | _ \<Rightarrow> Inl e), s)
      | (Inr (duty_ns, period_ns), s) \<Rightarrow>
          (Inr (if period_ns \<le> 0 then None
                else Some (PwmLevel (min (of_int duty_ns / of_int period_ns) 1))), s))"

definition pipwm_driver :: "'s pipwm \<Rightarrow> 's driver" where
  "pipwm_driver c =
     \<lparr>drv_open = pp_open c, drv_apply = pp_apply c, drv_drive_safe = pp_drive_safe c,
      drv_read_back = pp_read_back c, drv_effective = snap_level\<rparr>"

text \<open>The chip's identity and facts; the resolved \<open>device\<close> link is an argument.\<close>

definition chip_identity_and_facts ::
    "string \<Rightarrow> path \<Rightarrow> int \<Rightarrow> string \<Rightarrow> int option \<Rightarrow> string \<times> (string \<times> scalar) list" where
  "chip_identity_and_facts device chip_root period_ns pol channels =
     (device,
      [(''chip'', SStr (last chip_root)), (''device'', SStr device), (''period_ns'', SInt period_ns),
       (''frequency_hz'', SFloat (py_round_1 (1000000000 / of_int period_ns))),
       (''polarity'', SStr pol)] @
      (case channels of None \<Rightarrow> [] | Some n \<Rightarrow> [(''channels'', SInt n)]))"

section \<open>On-time arithmetic\<close>

lemma duty_ns_le: "0 \<le> p \<Longrightarrow> duty_to_ns d p \<le> p"
proof -
  assume p: "0 \<le> p"
  have "snap_duty d * of_int p \<le> 1 * of_int p" by (rule mult_right_mono) (use p in simp_all)
  moreover have "of_int (duty_to_ns d p) \<le> snap_duty d * of_int p"
    unfolding duty_to_ns_def by (rule py_int_le) (use p in simp)
  ultimately have "(of_int (duty_to_ns d p) :: rat) \<le> of_int p" by simp
  then show ?thesis by simp
qed

lemma duty_ns_nonneg: "0 \<le> p \<Longrightarrow> 0 \<le> duty_to_ns d p"
  unfolding duty_to_ns_def by (rule py_int_nonneg) simp

lemma duty_ns_zero: "13 \<le> p \<Longrightarrow> duty_to_ns d p = 0 \<longleftrightarrow> snap_duty d = 0"
proof -
  assume p: "13 \<le> p"
  have "1 \<le> snap_duty d * of_int p" if "snap_duty d \<noteq> 0"
  proof -
    have "MIN_USABLE_DUTY \<le> snap_duty d" using snap_duty_range [of d] that by blast
    then have "MIN_USABLE_DUTY * of_int 13 \<le> snap_duty d * of_int p"
      by (intro mult_mono) (use p in \<open>simp_all\<close>)
    then show ?thesis by (simp add: MIN_USABLE_DUTY_def)
  qed
  then have "1 \<le> duty_to_ns d p" if "snap_duty d \<noteq> 0"
    using that p by (simp add: duty_to_ns_def py_int_def)
  moreover have "duty_to_ns d p = 0" if "snap_duty d = 0"
    using that by (simp add: duty_to_ns_def py_int_def)
  ultimately show ?thesis by (cases "snap_duty d = 0") auto
qed

lemma duty_ns_near: "0 \<le> p \<Longrightarrow> \<bar>of_int (duty_to_ns d p) - snap_duty d * of_int p\<bar> < 1"
  unfolding duty_to_ns_def py_int_def by simp linarith

section \<open>What the kernel promises\<close>

text \<open>
  An attribute file holds the last value written to it; a rejected write changes nothing.
  \<open>export\<close> and \<open>unexport\<close> are commands, not attributes.
\<close>

locale pwm_sysfs =
  fixes sf :: "'s sysfs" and attr :: "'s \<Rightarrow> path \<Rightarrow> string option"
  assumes write_lands:
      "\<And>p v s s'. last p \<noteq> ''export'' \<Longrightarrow> last p \<noteq> ''unexport'' \<Longrightarrow>
         sf_write sf p v s = (Inr (), s') \<Longrightarrow> attr s' = (attr s)(p \<mapsto> v)"
    and write_rejected: "\<And>p v s e s'. sf_write sf p v s = (Inl e, s') \<Longrightarrow> attr s' = attr s"
    and read_attr:
      "\<And>p v s. attr s p = Some v \<Longrightarrow> \<exists>s'. sf_read sf p s = (Inr v, s') \<and> attr s' = attr s"

locale pwm_channel = pwm_sysfs +
  fixes c :: "'a pipwm"
  assumes own_files: "pp_sysfs c = sf" and long_period: "13 \<le> pp_period_ns c"
begin

definition is_dark where "is_dark s = (attr s (pp_dir c @ [''duty_cycle'']) = Some ''0'')"

lemma duty_lands:
  assumes "pp_write c ''duty_cycle'' v s = (Inr (), s')"
  shows "attr s' = (attr s)(pp_dir c @ [''duty_cycle''] \<mapsto> v)"
  by (rule write_lands [OF _ _ assms [unfolded pp_write_def own_files]]) simp_all

lemma duty_rejected:
  assumes "pp_write c ''duty_cycle'' v s = (Inl e, s')"
  shows "attr s' = attr s"
  using assms unfolding pp_write_def own_files by (rule write_rejected)

lemma zero_text: "py_str_int (duty_to_ns d (pp_period_ns c)) = ''0'' \<longleftrightarrow> snap_duty d = 0"
  using long_period duty_ns_zero [of "pp_period_ns c" d] duty_ns_nonneg [of "pp_period_ns c" d]
  by (simp add: py_str_int_zero)

lemma read_back_attr:
  assumes "attr s (pp_dir c @ [''duty_cycle'']) = Some (py_str_int n)"
    and "attr s (pp_dir c @ [''period'']) = Some (py_str_int p)" and "0 \<le> n" "0 < p"
  shows "fst (pp_read_back c s) = Inr (Some (PwmLevel (min (of_int n / of_int p) 1)))"
proof -
  obtain s1 where s1: "sf_read sf (pp_dir c @ [''duty_cycle'']) s = (Inr (py_str_int n), s1)" "attr s1 = attr s"
    using read_attr [OF assms(1)] by blast
  obtain s2 where "sf_read sf (pp_dir c @ [''period'']) s1 = (Inr (py_str_int p), s2)"
    using read_attr [of s1 _ "py_str_int p"] assms(2) s1(2) by auto
  with s1 assms(3,4) show ?thesis
    by (simp add: pp_read_back_def io_bind_def io_return_def read_int_def own_files py_int_of_nat)
qed

end

sublocale pwm_channel \<subseteq> chan: safety_driver "pipwm_driver c" "PwmLevel 0" is_dark "\<lambda>_. True"
proof
  fix l d d'
  assume "drv_apply (pipwm_driver c) l d = (Inr (), d')"
  then obtain x where x: "l = PwmLevel x"
      "pp_write c ''duty_cycle'' (py_str_int (duty_to_ns x (pp_period_ns c))) d = (Inr (), d')"
    by (cases l) (auto simp: pipwm_driver_def io_fail_def)
  show "\<exists>e. drv_effective (pipwm_driver c) l = Inr e \<and> is_dark d' = (e = PwmLevel 0)"
    using duty_lands [OF x(2)] by (simp add: x(1) pipwm_driver_def is_dark_def zero_text)
next
  fix l d e d'
  assume "drv_apply (pipwm_driver c) l d = (Inl e, d')"
  then show "is_dark d' = is_dark d"
    by (cases l) (auto simp: pipwm_driver_def io_fail_def is_dark_def dest: duty_rejected)
next
  fix d d'
  assume "drv_drive_safe (pipwm_driver c) d = (Inr (), d')"
  then show "is_dark d'"
    by (auto simp: pipwm_driver_def pp_drive_safe_def is_dark_def dest: duty_lands)
next
  fix d e d'
  assume "drv_drive_safe (pipwm_driver c) d = (Inl e, d')"
  then show "is_dark d' = is_dark d"
    by (auto simp: pipwm_driver_def pp_drive_safe_def is_dark_def dest: duty_rejected)
qed simp_all

section \<open>The constructor's defaults\<close>

definition pipwm_channel :: "int \<Rightarrow> bool \<Rightarrow> 's sysfs \<Rightarrow> 's pipwm" where
  "pipwm_channel ch inverted sf =
     \<lparr>pp_channel = ch, pp_chip = PWM_CHIP_ROOT, pp_period_ns = DEFAULT_PERIOD_NS,
      pp_inverted = inverted, pp_sysfs = sf\<rparr>"

section \<open>The rules of the kernel, as the tests' fake enforces them\<close>

record fake_sysfs =
  fs_values :: "path \<Rightarrow> string option"
  fs_writes :: "(string \<times> string) list"
  fs_exported :: "int set"
  fs_npwm :: int
  fs_export_delay :: nat
  fs_checks :: nat
  fs_chgrp_delay :: nat
  fs_perm_checks :: nat
  fs_slept :: seconds

definition fake_exists :: "path \<Rightarrow> fake_sysfs \<Rightarrow> bool \<times> fake_sysfs" where
  "fake_exists p s =
     (let name = last p in
      if take 3 name = ''pwm'' \<and> name \<noteq> ''pwmchip0''
      then case py_int_of (drop 3 name) of
             Inl _ \<Rightarrow> (False, s)
           | Inr ch \<Rightarrow>
               if ch \<notin> fs_exported s then (False, s)
               else (fs_export_delay s < Suc (fs_checks s), s\<lparr>fs_checks := Suc (fs_checks s)\<rparr>)
      else (True, s))"

definition fake_writable :: "path \<Rightarrow> fake_sysfs \<Rightarrow> bool \<times> fake_sysfs" where
  "fake_writable p s =
     (case fake_exists (butlast p) s of
        (False, s) \<Rightarrow> (False, s)
      | (True, s) \<Rightarrow>
          (fs_chgrp_delay s < Suc (fs_perm_checks s), s\<lparr>fs_perm_checks := Suc (fs_perm_checks s)\<rparr>))"

text \<open>\<open>int\<close> of an attribute, \<open>"0"\<close> where it was never written.\<close>

definition attr_int :: "(path \<Rightarrow> string option) \<Rightarrow> path \<Rightarrow> int result" where
  "attr_int vals p = py_int_of (case vals p of None \<Rightarrow> ''0'' | Some v \<Rightarrow> v)"

definition kernel_rule :: "string \<Rightarrow> string \<Rightarrow> path \<Rightarrow> (path \<Rightarrow> string option) \<Rightarrow> unit result" where
  "kernel_rule name v dir vals =
     (if name = ''duty_cycle'' then
        res_bind (attr_int vals (dir @ [''period''])) (\<lambda>period.
        res_bind (py_int_of v) (\<lambda>n.
          if period < n then Inl (OSError ''duty_cycle exceeds period'') else Inr ()))
      else if name = ''period'' then
        res_bind (attr_int vals (dir @ [''duty_cycle''])) (\<lambda>duty.
        res_bind (py_int_of v) (\<lambda>n.
          if n < duty then Inl (OSError ''period below standing duty_cycle'') else Inr ()))
      else if name = ''polarity'' \<and> vals (dir @ [''enable'']) = Some ''1''
      then Inl (OSError ''polarity is writable only while the channel is disabled'')
      else Inr ())"

definition fake_attr_write :: "path \<Rightarrow> string \<Rightarrow> (fake_sysfs, unit) io" where
  "fake_attr_write p v s =
     (case fake_exists (butlast p) s of
        (False, s) \<Rightarrow> (Inl (OSError ''not exported''), s)
      | (True, s) \<Rightarrow>
          (case kernel_rule (last p) v (butlast p) (fs_values s) of
             Inl e \<Rightarrow> (Inl e, s)
           | Inr u \<Rightarrow>
               (Inr (), s\<lparr>fs_values := (fs_values s)(p \<mapsto> v), fs_writes := fs_writes s @ [(last p, v)]\<rparr>)))"

definition fake_write :: "path \<Rightarrow> string \<Rightarrow> (fake_sysfs, unit) io" where
  "fake_write p v s =
     (let name = last p in
      if name = ''export'' then
        (case py_int_of v of
           Inl e \<Rightarrow> (Inl e, s)
         | Inr ch \<Rightarrow>
             if fs_npwm s \<le> ch then (Inl (OSError ''beyond npwm''), s)
             else (Inr (), s\<lparr>fs_exported := insert ch (fs_exported s), fs_checks := 0,
                             fs_writes := fs_writes s @ [(name, v)]\<rparr>))
      else if name = ''unexport'' then
        (case py_int_of v of
           Inl e \<Rightarrow> (Inl e, s)
         | Inr ch \<Rightarrow> (Inr (), s\<lparr>fs_exported := fs_exported s - {ch},
                                fs_writes := fs_writes s @ [(name, v)]\<rparr>))
      else fake_attr_write p v s)"

definition fake_read :: "path \<Rightarrow> (fake_sysfs, string) io" where
  "fake_read p s = (case fs_values s p of None \<Rightarrow> (Inl (OSError ''no such attribute''), s) | Some v \<Rightarrow> (Inr v, s))"

definition fake_files :: "fake_sysfs sysfs" where
  "fake_files =
     \<lparr>sf_write = fake_write, sf_read = fake_read, sf_exists = fake_exists, sf_writable = fake_writable,
      sf_sleeping = \<lambda>dt s. s\<lparr>fs_slept := fs_slept s + dt\<rparr>\<rparr>"

lemma fake_exists_frame:
  "fake_exists p s = (b, s') \<Longrightarrow> fs_values s' = fs_values s \<and> fs_slept s' = fs_slept s"
  by (auto simp: fake_exists_def Let_def split: if_splits sum.splits)

lemma fake_writable_frame:
  "fake_writable p s = (b, s') \<Longrightarrow> fs_values s' = fs_values s \<and> fs_slept s' = fs_slept s"
  by (auto simp: fake_writable_def split: prod.splits bool.splits dest: fake_exists_frame)

lemma fake_attr_write_values:
  assumes "fake_attr_write p v s = (r, s')"
  shows "fs_values s' = (if isOk r then (fs_values s)(p \<mapsto> v) else fs_values s)"
proof -
  obtain b s1 where ex: "fake_exists (butlast p) s = (b, s1)" by fastforce
  have s1: "fs_values s1 = fs_values s" using fake_exists_frame [OF ex] by simp
  obtain k where k: "kernel_rule (last p) v (butlast p) (fs_values s) = k" by simp
  have "(r, s') = (if b then (case k of Inl e \<Rightarrow> (Inl e, s1)
      | Inr u \<Rightarrow> (Inr (), s1\<lparr>fs_values := (fs_values s)(p \<mapsto> v), fs_writes := fs_writes s1 @ [(last p, v)]\<rparr>))
      else (Inl (OSError ''not exported''), s1))"
    unfolding assms [symmetric] by (simp add: fake_attr_write_def ex s1 k split: bool.split sum.split)
  with s1 show ?thesis by (cases b; cases k) auto
qed

lemma fake_write_attr:
  "last p \<noteq> ''export'' \<Longrightarrow> last p \<noteq> ''unexport'' \<Longrightarrow> fake_write p v s = fake_attr_write p v s"
  by (simp add: fake_write_def Let_def)

lemma fake_write_rejected:
  assumes "fake_write p v s = (Inl e, s')"
  shows "fs_values s' = fs_values s"
proof (cases "last p = ''export'' \<or> last p = ''unexport''")
  case True
  with assms show ?thesis
    by (auto simp: fake_write_def Let_def split: sum.splits if_splits)
next
  case False
  with assms show ?thesis by (auto simp: fake_write_attr dest: fake_attr_write_values)
qed

interpretation kernel: pwm_sysfs fake_files fs_values
proof
  fix p v s s'
  assume "last p \<noteq> ''export''" "last p \<noteq> ''unexport''" "sf_write fake_files p v s = (Inr (), s')"
  then show "fs_values s' = (fs_values s)(p \<mapsto> v)"
    by (simp add: fake_files_def fake_write_attr) (drule fake_attr_write_values, simp)
next
  fix p v s e s'
  assume "sf_write fake_files p v s = (Inl e, s')"
  then show "fs_values s' = fs_values s"
    using fake_write_rejected by (simp add: fake_files_def)
next
  fix p v and s :: fake_sysfs
  assume "fs_values s p = Some v"
  then show "\<exists>s'. sf_read fake_files p s = (Inr v, s') \<and> fs_values s' = fs_values s"
    by (simp add: fake_files_def fake_read_def)
qed

interpretation kernel_channel: pwm_channel fake_files fs_values "pipwm_channel ch inverted fake_files" for ch inverted
  by unfold_locales (simp_all add: pipwm_channel_def DEFAULT_PERIOD_NS_def)

section \<open>Bring-up\<close>

lemma await_export_poll:
  assumes "waited < EXPORT_TIMEOUT_S" "sf_exists (pp_sysfs c) (pp_dir c) s = (e, s1)"
    and "sf_writable (pp_sysfs c) (pp_dir c @ [''duty_cycle'']) s1 = (w, s2)"
  shows "await_export_loop c waited s =
    (if e \<and> w then (True, s2)
     else await_export_loop c (waited + EXPORT_POLL_S)
            (sf_sleeping (pp_sysfs c) EXPORT_POLL_S (if e then s2 else s1)))"
  using assms by (subst await_export_loop.simps) simp

lemma export_loop_time:
  assumes quiet: "\<And>p s. clock (snd (sf_exists (pp_sysfs c) p s)) = clock s"
      "\<And>p s. clock (snd (sf_writable (pp_sysfs c) p s)) = clock s"
    and sleeps: "\<And>dt s. clock (sf_sleeping (pp_sysfs c) dt s) = clock s + (dt :: seconds)"
  shows "waited + of_nat n * EXPORT_POLL_S = EXPORT_TIMEOUT_S \<Longrightarrow>
    await_export_loop c waited s = (b, s') \<Longrightarrow>
    clock s' \<le> clock s + of_nat n * EXPORT_POLL_S
    \<and> (if b then \<exists>s2. sf_writable (pp_sysfs c) (pp_dir c @ [''duty_cycle'']) s2 = (True, s')
       else clock s' = clock s + of_nat n * EXPORT_POLL_S)"
proof (induction n arbitrary: waited s)
  case 0
  then show ?case by (subst (asm) await_export_loop.simps) auto
next
  case (Suc n)
  obtain e s1 where e: "sf_exists (pp_sysfs c) (pp_dir c) s = (e, s1)" by fastforce
  obtain w s2 where w: "sf_writable (pp_sysfs c) (pp_dir c @ [''duty_cycle'']) s1 = (w, s2)" by fastforce
  have still: "clock s1 = clock s" "clock s2 = clock s"
    using quiet(1) [of "pp_dir c" s] quiet(2) [of "pp_dir c @ [''duty_cycle'']" s1] e w by simp_all
  have poll: "0 < EXPORT_POLL_S" by (simp add: EXPORT_POLL_S_def)
  then have "waited < EXPORT_TIMEOUT_S"
    unfolding Suc.prems(1) [symmetric] by (simp add: add_pos_nonneg distrib_right)
  note step = await_export_poll [OF this e w]
  show ?case
  proof (cases "e \<and> w")
    case True
    then have "b" "s' = s2" using Suc.prems(2) step by simp_all
    with w True still poll show ?thesis by auto
  next
    case False
    let ?s = "sf_sleeping (pp_sysfs c) EXPORT_POLL_S (if e then s2 else s1)"
    have at: "clock ?s = clock s + EXPORT_POLL_S" using still sleeps by simp
    have "await_export_loop c (waited + EXPORT_POLL_S) ?s = (b, s')"
      using Suc.prems(2) step False by simp
    from Suc.IH [OF _ this] Suc.prems(1) show ?thesis
      unfolding at by (simp add: algebra_simps)
  qed
qed

text \<open>
  Waiting for an exported channel ends: on any file system whose clock advances by
  sleeping only, \<open>_await_export\<close> has slept at most \<open>_EXPORT_TIMEOUT_S\<close> when it returns, it
  returns normally only after a poll that found a writable \<open>duty_cycle\<close>, and it raises only
  after the whole time-out.
\<close>

theorem export_wait_is_bounded:
  assumes "\<And>p s. clock (snd (sf_exists (pp_sysfs c) p s)) = clock s"
    and "\<And>p s. clock (snd (sf_writable (pp_sysfs c) p s)) = clock s"
    and "\<And>dt s. clock (sf_sleeping (pp_sysfs c) dt s) = clock s + (dt :: seconds)"
  shows "case await_export c s of
      (Inr _, s') \<Rightarrow> clock s' \<le> clock s + EXPORT_TIMEOUT_S
        \<and> (\<exists>s2. sf_writable (pp_sysfs c) (pp_dir c @ [''duty_cycle'']) s2 = (True, s'))
    | (Inl _, s') \<Rightarrow> clock s' = clock s + EXPORT_TIMEOUT_S"
proof -
  obtain b s1 where loop: "await_export_loop c 0 s = (b, s1)" by fastforce
  obtain e s2 where ex: "sf_exists (pp_sysfs c) (pp_dir c) s1 = (e, s2)" by fastforce
  have "0 + of_nat 200 * EXPORT_POLL_S = EXPORT_TIMEOUT_S"
    by (simp add: EXPORT_POLL_S_def EXPORT_TIMEOUT_S_def)
  note time = export_loop_time [OF assms this loop]
  then show ?thesis
    using ex assms(1) [of "pp_dir c" s1]
    by (cases b; cases e) (simp_all add: await_export_def loop EXPORT_POLL_S_def EXPORT_TIMEOUT_S_def)
qed

section \<open>Bring-up under the kernel's rules\<close>

lemma fake_exists_channel:
  assumes "0 \<le> ch"
  shows "fake_exists (d @ [''pwm'' @ py_str_int ch]) s =
    (if ch \<notin> fs_exported s then (False, s)
     else (fs_export_delay s < Suc (fs_checks s), s\<lparr>fs_checks := Suc (fs_checks s)\<rparr>))"
proof -
  have "py_str_int ch \<noteq> ''chip0''"
  proof
    assume "py_str_int ch = ''chip0''"
    with py_int_of_nat [OF assms] have "py_int_of ''chip0'' = Inr ch" by simp
    then show False by (simp add: py_int_of_def py_strip_def py_space_def unsigned_value_def char_digit_def digit_char_def upt_rec Let_def)
  qed
  then show ?thesis
    using py_int_of_nat [OF assms] by (simp add: fake_exists_def)
qed

lemma exists_dir:
  "0 \<le> pp_channel c \<Longrightarrow> fake_exists (pp_dir c) s =
    (if pp_channel c \<notin> fs_exported s then (False, s)
     else (fs_export_delay s < Suc (fs_checks s), s\<lparr>fs_checks := Suc (fs_checks s)\<rparr>))"
  using fake_exists_channel [of "pp_channel c" "pp_chip c" s] by (simp add: pp_dir_def)

text \<open>The channel directory is there.\<close>

definition fake_ready :: "fake_sysfs pipwm \<Rightarrow> fake_sysfs \<Rightarrow> bool" where
  "fake_ready c s = (pp_channel c \<in> fs_exported s \<and> fs_export_delay s \<le> fs_checks s)"

lemma ready_write:
  assumes "pp_sysfs c = fake_files" "0 \<le> pp_channel c" "fake_ready c s"
    and "a \<noteq> ''export''" "a \<noteq> ''unexport''" "kernel_rule a v (pp_dir c) (fs_values s) = Inr ()"
  shows "pp_write c a v s =
    (Inr (), s\<lparr>fs_checks := Suc (fs_checks s), fs_values := (fs_values s)(pp_dir c @ [a] \<mapsto> v),
              fs_writes := fs_writes s @ [(a, v)]\<rparr>)"
proof -
  have ex: "fake_exists (pp_dir c) s = (True, s\<lparr>fs_checks := Suc (fs_checks s)\<rparr>)"
    using exists_dir [OF assms(2)] assms(3) by (simp add: fake_ready_def)
  show ?thesis
    using assms(4-6) by (simp add: pp_write_def assms(1) fake_files_def fake_write_attr fake_attr_write_def ex)
qed

lemma fake_export_loop:
  assumes c: "pp_sysfs c = fake_files" "0 \<le> pp_channel c"
  shows "pp_channel c \<in> fs_exported s \<Longrightarrow>
    need = (fs_export_delay s - fs_checks s) + (fs_chgrp_delay s - fs_perm_checks s) \<Longrightarrow>
    waited + of_nat need * EXPORT_POLL_S < EXPORT_TIMEOUT_S \<Longrightarrow>
    \<exists>s'. await_export_loop c waited s = (True, s') \<and> fake_ready c s'
      \<and> fs_values s' = fs_values s \<and> fs_writes s' = fs_writes s"
proof (induction need arbitrary: waited s)
  case (0 waited s)
  let ?s1 = "s\<lparr>fs_checks := Suc (fs_checks s)\<rparr>"
  have e: "sf_exists (pp_sysfs c) (pp_dir c) s = (True, ?s1)"
    using 0 exists_dir [OF c(2)] by (simp add: c(1) fake_files_def)
  have w: "sf_writable (pp_sysfs c) (pp_dir c @ [''duty_cycle'']) ?s1 =
      (True, ?s1\<lparr>fs_checks := Suc (Suc (fs_checks s)), fs_perm_checks := Suc (fs_perm_checks s)\<rparr>)"
    using 0 exists_dir [OF c(2)] by (simp add: c(1) fake_files_def fake_writable_def)
  from 0 await_export_poll [OF _ e w] show ?case by (auto simp: fake_ready_def)
next
  case (Suc need waited s)
  let ?s1 = "s\<lparr>fs_checks := Suc (fs_checks s)\<rparr>"
  obtain e where e: "sf_exists (pp_sysfs c) (pp_dir c) s = (e, ?s1)" and e': "e \<longleftrightarrow> fs_export_delay s \<le> fs_checks s"
    using Suc.prems(1) exists_dir [OF c(2)] by (auto simp: c(1) fake_files_def less_Suc_eq_le)
  have perm: "fs_perm_checks s < fs_chgrp_delay s" if e using that e' Suc.prems(2) by simp
  obtain w s2 where w: "sf_writable (pp_sysfs c) (pp_dir c @ [''duty_cycle'']) ?s1 = (w, s2)" by fastforce
  have w': "\<not> w \<and> s2 = ?s1\<lparr>fs_checks := Suc (Suc (fs_checks s)), fs_perm_checks := Suc (fs_perm_checks s)\<rparr>" if e
    using w Suc.prems(1) e' that perm [OF that] exists_dir [OF c(2)]
    by (auto simp: c(1) fake_files_def fake_writable_def)
  have poll: "0 < EXPORT_POLL_S" by (simp add: EXPORT_POLL_S_def)
  have less: "waited + EXPORT_POLL_S + of_nat need * EXPORT_POLL_S < EXPORT_TIMEOUT_S"
    using Suc.prems(3) by (simp add: algebra_simps)
  moreover have "0 \<le> of_nat need * EXPORT_POLL_S" using poll by simp
  ultimately have "waited < EXPORT_TIMEOUT_S" using poll by linarith
  note step = await_export_poll [OF this e w]
  let ?s = "sf_sleeping (pp_sysfs c) EXPORT_POLL_S (if e then s2 else ?s1)"
  have frame: "pp_channel c \<in> fs_exported ?s" "fs_values ?s = fs_values s" "fs_writes ?s = fs_writes s"
    and left: "need = (fs_export_delay ?s - fs_checks ?s) + (fs_chgrp_delay ?s - fs_perm_checks ?s)"
    using Suc.prems(1,2) w' e' by (auto simp: c(1) fake_files_def)
  from Suc.IH [OF frame(1) left less] obtain s' where
    "await_export_loop c (waited + EXPORT_POLL_S) ?s = (True, s')" "fake_ready c s'"
    "fs_values s' = fs_values ?s" "fs_writes s' = fs_writes ?s" by blast
  with step w' frame show ?case by (cases e) auto
qed

lemma zero_of: "py_int_of ''0'' = Inr 0"
  using py_int_of_nat [of 0] py_str_int_zero [of 0] by simp

lemma kernel_rules [simp]:
  "attr_int vals (dir @ [''period'']) = Inr p \<Longrightarrow> 0 \<le> p \<Longrightarrow> kernel_rule ''duty_cycle'' ''0'' dir vals = Inr ()"
  "vals (dir @ [''duty_cycle'']) = Some ''0'' \<Longrightarrow> 0 \<le> p \<Longrightarrow> kernel_rule ''period'' (py_str_int p) dir vals = Inr ()"
  "vals (dir @ [''enable'']) \<noteq> Some ''1'' \<Longrightarrow> kernel_rule ''polarity'' v dir vals = Inr ()"
  "kernel_rule ''enable'' v dir vals = Inr ()"
  by (simp_all add: kernel_rule_def attr_int_def zero_of py_int_of_nat)

text \<open>Once the channel is disabled, the rest of the sequence is accepted.\<close>

lemma open_sequence:
  assumes c: "pp_sysfs c = fake_files" "0 \<le> pp_channel c" and P: "0 \<le> pp_period_ns c"
    and ready: "fake_ready c s" and off: "fs_values s (pp_dir c @ [''enable'']) \<noteq> Some ''1''"
    and standing: "attr_int (fs_values s) (pp_dir c @ [''period'']) = Inr p" "0 \<le> p"
  shows "\<exists>s'. pp_configure c s = (Inr (), s')
    \<and> fs_values s' = (fs_values s)(pp_dir c @ [''duty_cycle''] \<mapsto> ''0'',
        pp_dir c @ [''period''] \<mapsto> py_str_int (pp_period_ns c), pp_dir c @ [''polarity''] \<mapsto> polarity c,
        pp_dir c @ [''enable''] \<mapsto> ''1'')
    \<and> fs_writes s' = fs_writes s @ [(''duty_cycle'', ''0''), (''period'', py_str_int (pp_period_ns c)),
        (''polarity'', polarity c), (''duty_cycle'', ''0''), (''enable'', ''1'')]"
proof -
  note w = ready_write [OF c]
  show ?thesis
    using ready off standing P
    by (simp add: pp_configure_def io_bind_def w fake_ready_def attr_int_def py_int_of_nat fun_upd_twist)
qed

text \<open>
  C36. Bring-up is in the one order the kernel accepts, from a cold chip and from a warm
  restart alike. Of a channel the chip has, at any standing on-time and period, \<open>open\<close>
  succeeds under every rule of the kernel and leaves the channel enabled, dark, at its period
  and polarity, having written exactly the documented sequence; a channel beyond the chip's
  \<open>npwm\<close> is refused with nothing written.
\<close>

theorem channel_comes_up_dark:
  assumes "pp_sysfs c = fake_files" "0 \<le> pp_channel c" "0 \<le> pp_period_ns c"
    and standing: "attr_int (fs_values s) (pp_dir c @ [''period'']) = Inr p" "0 \<le> p"
    and warm: "pp_channel c \<in> fs_exported s \<Longrightarrow> fake_ready c s"
    and cold: "pp_channel c \<notin> fs_exported s \<Longrightarrow>
      fs_values s (pp_dir c @ [''enable'']) \<noteq> Some ''1''
      \<and> fs_export_delay s + (fs_chgrp_delay s - fs_perm_checks s) < 200"
  shows "if pp_channel c < fs_npwm s \<or> pp_channel c \<in> fs_exported s
    then \<exists>s'. pp_open c s = (Inr (), s')
      \<and> fs_values s' (pp_dir c @ [''enable'']) = Some ''1''
      \<and> fs_values s' (pp_dir c @ [''duty_cycle'']) = Some ''0''
      \<and> fs_values s' (pp_dir c @ [''period'']) = Some (py_str_int (pp_period_ns c))
      \<and> fs_values s' (pp_dir c @ [''polarity'']) = Some (polarity c)
      \<and> fs_writes s' = fs_writes s
          @ [if pp_channel c \<in> fs_exported s then (''enable'', ''0'') else (''export'', py_str_int (pp_channel c)),
             (''duty_cycle'', ''0''), (''period'', py_str_int (pp_period_ns c)), (''polarity'', polarity c),
             (''duty_cycle'', ''0''), (''enable'', ''1'')]
    else \<exists>e s'. pp_open c s = (Inl (OSError e), s') \<and> fs_writes s' = fs_writes s \<and> fs_values s' = fs_values s"
proof (cases "pp_channel c \<in> fs_exported s")
  case True
  let ?s1 = "s\<lparr>fs_checks := Suc (fs_checks s)\<rparr>"
  let ?s2 = "?s1\<lparr>fs_checks := Suc (Suc (fs_checks s)), fs_values := (fs_values s)(pp_dir c @ [''enable''] \<mapsto> ''0''),
     fs_writes := fs_writes s @ [(''enable'', ''0'')]\<rparr>"
  have ready: "fake_ready c s" "fake_ready c ?s1" using warm True by (auto simp: fake_ready_def)
  then have ex: "sf_exists (pp_sysfs c) (pp_dir c) s = (True, ?s1)"
    by (simp add: assms(1) fake_files_def exists_dir [OF assms(2)] fake_ready_def)
  have en: "pp_write c ''enable'' ''0'' ?s1 = (Inr (), ?s2)"
    using ready_write [OF assms(1,2) ready(2), of "''enable''" "''0''"] by simp
  have "fake_ready c ?s2" using ready by (simp add: fake_ready_def)
  from open_sequence [OF assms(1-3) this _ _ standing(2)] standing(1) obtain s' where
    s': "pp_configure c ?s2 = (Inr (), s')" "fs_values s' = (fs_values ?s2)(pp_dir c @ [''duty_cycle''] \<mapsto> ''0'',
        pp_dir c @ [''period''] \<mapsto> py_str_int (pp_period_ns c), pp_dir c @ [''polarity''] \<mapsto> polarity c,
        pp_dir c @ [''enable''] \<mapsto> ''1'')" "fs_writes s' = fs_writes ?s2 @ [(''duty_cycle'', ''0''),
        (''period'', py_str_int (pp_period_ns c)), (''polarity'', polarity c), (''duty_cycle'', ''0''), (''enable'', ''1'')]"
    by (auto simp: attr_int_def)
  have "pp_prepare c s = (Inr (), ?s2)" by (simp add: pp_prepare_def ex en)
  then have "pp_open c s = (Inr (), s')" using s'(1) by (simp add: pp_open_def io_bind_ok)
  then show ?thesis using s'(2,3) True by simp
next
  case False
  let ?s1 = "s\<lparr>fs_exported := insert (pp_channel c) (fs_exported s), fs_checks := 0,
     fs_writes := fs_writes s @ [(''export'', py_str_int (pp_channel c))]\<rparr>"
  have ex: "sf_exists (pp_sysfs c) (pp_dir c) s = (False, s)"
    using False by (simp add: assms(1) fake_files_def exists_dir [OF assms(2)])
  have xp: "sf_write (pp_sysfs c) (pp_chip c @ [''export'']) (py_str_int (pp_channel c)) s =
      (if fs_npwm s \<le> pp_channel c then (Inl (OSError ''beyond npwm''), s) else (Inr (), ?s1))"
    by (simp add: assms(1) fake_files_def fake_write_def py_int_of_nat assms(2))
  show ?thesis
  proof (cases "pp_channel c < fs_npwm s")
    case in_range: True
    obtain s2 where s2: "await_export_loop c 0 ?s1 = (True, s2)" "fake_ready c s2"
        "fs_values s2 = fs_values s" "fs_writes s2 = fs_writes ?s1"
      using fake_export_loop [OF assms(1,2), of ?s1 _ 0] cold [OF False]
      by (auto simp: EXPORT_POLL_S_def EXPORT_TIMEOUT_S_def)
    have "await_export c ?s1 = (Inr (), s2)" by (simp add: await_export_def s2)
    then have prep: "pp_prepare c s = (Inr (), s2)" using in_range by (simp add: pp_prepare_def ex io_bind_def xp)
    from open_sequence [OF assms(1-3) s2(2) _ _ standing(2)] standing(1) cold [OF False] s2(3) obtain s' where
      s': "pp_configure c s2 = (Inr (), s')" "fs_values s' = (fs_values s2)(pp_dir c @ [''duty_cycle''] \<mapsto> ''0'',
        pp_dir c @ [''period''] \<mapsto> py_str_int (pp_period_ns c), pp_dir c @ [''polarity''] \<mapsto> polarity c,
        pp_dir c @ [''enable''] \<mapsto> ''1'')" "fs_writes s' = fs_writes s2 @ [(''duty_cycle'', ''0''),
        (''period'', py_str_int (pp_period_ns c)), (''polarity'', polarity c), (''duty_cycle'', ''0''), (''enable'', ''1'')]"
      by auto
    have "pp_open c s = (Inr (), s')" using s'(1) prep by (simp add: pp_open_def io_bind_ok)
    then show ?thesis using s'(2,3) s2(3,4) False in_range by simp
  next
    case beyond: False
    then have "pp_open c s = (Inl (OSError ''beyond npwm''), s)"
      by (simp add: pp_open_def pp_prepare_def io_bind_def ex xp)
    then show ?thesis using False beyond by simp
  qed
qed

text \<open>Channel 1 of a four-channel chip whose \<open>udev\<close> is slow: a cold export, and a warm restart at full duty.\<close>

definition chip_cold :: fake_sysfs where
  "chip_cold = \<lparr>fs_values = Map.empty, fs_writes = [], fs_exported = {}, fs_npwm = 4, fs_export_delay = 3,
     fs_checks = 0, fs_chgrp_delay = 30, fs_perm_checks = 0, fs_slept = 0\<rparr>"

definition blue_channel :: "fake_sysfs pipwm" where
  "blue_channel = pipwm_channel 1 False fake_files"

lemma blue_channel_simps [simp]:
  "pp_sysfs blue_channel = fake_files" "pp_channel blue_channel = 1" "pp_period_ns blue_channel = 2000000"
  by (simp_all add: blue_channel_def pipwm_channel_def DEFAULT_PERIOD_NS_def)

lemma chip_cold_simps [simp]:
  "fs_values chip_cold = Map.empty" "fs_exported chip_cold = {}" "fs_npwm chip_cold = 4" "fs_slept chip_cold = 0"
  "fs_export_delay chip_cold = 3" "fs_chgrp_delay chip_cold = 30" "fs_perm_checks chip_cold = 0"
  by (simp_all add: chip_cold_def)

theorem channel_comes_up_dark_witness:
  "\<exists>s'. pp_open blue_channel chip_cold = (Inr (), s')
     \<and> fs_values s' (pp_dir blue_channel @ [''duty_cycle'']) = Some ''0''"
proof -
  have standing: "attr_int (fs_values chip_cold) (pp_dir blue_channel @ [''period'']) = Inr 0"
    by (simp add: attr_int_def zero_of)
  show ?thesis
    using channel_comes_up_dark [of blue_channel chip_cold, OF _ _ _ standing] by auto
qed

theorem export_wait_is_bounded_witness:
  "case await_export blue_channel (chip_cold\<lparr>fs_exported := {1}\<rparr>) of
     (Inr _, s') \<Rightarrow> fs_slept s' \<le> 2 | (Inl _, s') \<Rightarrow> fs_slept s' = 2"
proof -
  have quiet: "fs_slept (snd (sf_exists fake_files p s)) = fs_slept s"
      "fs_slept (snd (sf_writable fake_files p s)) = fs_slept s" for p s
    using fake_exists_frame [OF surjective_pairing, of p s] fake_writable_frame [OF surjective_pairing, of p s]
    by (simp_all add: fake_files_def)
  have sleeps: "fs_slept (sf_sleeping fake_files dt s) = fs_slept s + dt" for dt s
    by (simp add: fake_files_def)
  show ?thesis
    using export_wait_is_bounded [of fs_slept blue_channel "chip_cold\<lparr>fs_exported := {1}\<rparr>"] quiet sleeps
    by (simp add: EXPORT_TIMEOUT_S_def split: prod.splits sum.splits)
qed

section \<open>Telling the truth about the pin\<close>

text \<open>
  On any file system that keeps the kernel's promises, what the kernel reads back after a
  successful \<open>apply\<close> is within one nanosecond of the snapped duty, never above it, and is dark
  exactly when the driver's own prediction \<open>effective_level\<close> is dark.
\<close>

theorem read_back_is_the_snapped_duty:
  assumes "pwm_sysfs (pp_sysfs c) attr" "13 \<le> pp_period_ns c"
    and "attr s (pp_dir c @ [''period'']) = Some (py_str_int (pp_period_ns c))"
    and "pp_apply c (PwmLevel d) s = (Inr (), s')"
  shows "\<exists>r. fst (pp_read_back c s') = Inr (Some (PwmLevel r))
    \<and> r \<le> snap_duty d \<and> snap_duty d - r < 1 / of_int (pp_period_ns c)
    \<and> (r = 0 \<longleftrightarrow> drv_effective (pipwm_driver c) (PwmLevel d) = Inr (PwmLevel 0))"
proof -
  let ?p = "pp_period_ns c" and ?n = "duty_to_ns d (pp_period_ns c)"
  have chan: "pwm_channel (pp_sysfs c) attr c"
    using assms(1,2) by (simp add: pwm_channel_def pwm_channel_axioms_def)
  have "attr s' = (attr s)(pp_dir c @ [''duty_cycle''] \<mapsto> py_str_int ?n)"
    by (rule pwm_channel.duty_lands [OF chan]) (use assms(4) in simp)
  then have rb: "fst (pp_read_back c s') = Inr (Some (PwmLevel (min (of_int ?n / of_int ?p) 1)))"
    using assms(2,3) by (intro pwm_channel.read_back_attr [OF chan]) (simp_all add: duty_ns_nonneg)
  have p: "0 < (of_int ?p :: rat)" using assms(2) by simp
  have low: "of_int ?n \<le> snap_duty d * of_int ?p"
    unfolding duty_to_ns_def by (rule py_int_le) (use assms(2) in simp)
  have near: "snap_duty d * of_int ?p < of_int ?n + (1 :: rat)"
    using duty_ns_near [of ?p d] assms(2) by (simp add: abs_if split: if_splits)
  have "of_int ?n / of_int ?p \<le> snap_duty d" using low p by (simp add: field_simps)
  moreover have "snap_duty d - of_int ?n / of_int ?p < 1 / of_int ?p"
  proof -
    have "snap_duty d - of_int ?n / of_int ?p = (snap_duty d * of_int ?p - of_int ?n) / of_int ?p"
      using p by (simp add: diff_divide_distrib)
    moreover have "\<dots> < 1 / of_int ?p" by (rule divide_strict_right_mono) (use near p in linarith)+
    ultimately show ?thesis by simp
  qed
  moreover have "of_int ?n / of_int ?p = (0 :: rat) \<longleftrightarrow> snap_duty d = 0"
    using p duty_ns_zero [OF assms(2), of d] by simp
  moreover have "min (of_int ?n / of_int ?p) 1 = (of_int ?n / of_int ?p :: rat)"
    using \<open>of_int ?n / of_int ?p \<le> snap_duty d\<close> snap_duty_nonneg(2) [of d] by linarith
  ultimately show ?thesis
    using rb by (simp add: pipwm_driver_def)
qed

definition chip_open :: fake_sysfs where
  "chip_open = chip_cold\<lparr>fs_exported := {1}, fs_checks := 3,
     fs_values := [pp_dir blue_channel @ [''period''] \<mapsto> py_str_int 2000000]\<rparr>"

theorem read_back_is_the_snapped_duty_witness:
  "\<exists>r s'. pp_apply blue_channel (PwmLevel (1 / 2)) chip_open = (Inr (), s')
     \<and> fst (pp_read_back blue_channel s') = Inr (Some (PwmLevel r)) \<and> r \<le> 1 / 2 \<and> 1 / 2 - r < 1 / 2000000"
proof -
  have rule: "kernel_rule ''duty_cycle'' (py_str_int 1000000) (pp_dir blue_channel) (fs_values chip_open) = Inr ()"
    by (simp add: kernel_rule_def attr_int_def chip_open_def py_int_of_nat)
  have "fake_ready blue_channel chip_open" by (simp add: fake_ready_def chip_open_def)
  then obtain s' where "pp_write blue_channel ''duty_cycle'' (py_str_int 1000000) chip_open = (Inr (), s')"
    using ready_write [OF _ _ _ _ _ rule] by simp
  then have s': "pp_apply blue_channel (PwmLevel (1 / 2)) chip_open = (Inr (), s')"
    by (simp add: duty_to_ns_def snap_duty_def MIN_USABLE_DUTY_def py_int_def)
  have kernel: "pwm_sysfs (pp_sysfs blue_channel) fs_values" by (simp add: kernel.pwm_sysfs_axioms)
  have "fs_values chip_open (pp_dir blue_channel @ [''period'']) = Some (py_str_int (pp_period_ns blue_channel))"
    by (simp add: chip_open_def)
  from read_back_is_the_snapped_duty [OF kernel _ this s'] s' show ?thesis
    by (auto simp: snap_duty_def MIN_USABLE_DUTY_def)
qed

end
