(* ===== verification/Races.thy ===== *)
theory Races
  imports Interlocks PiPwm
begin

text \<open>
  What the interlocks do not promise: a driver without a lock can lose the runtime cap, and
  the event of a cap trip is lost in a sink that suspends.
\<close>

section \<open>A driver without a lock\<close>

definition stale_write :: "sup_label list" where
  "stale_write =
     [WatchRuns ''blue'', Advance 30 (Aware 100), WatchRuns ''blue'', WatchRuns ''blue'',
      ApplyCalled sample_command, ApplyAcquires, WatchAcquires ''blue'', WatchLands ''blue'',
      ApplyLands, ApplyResumes, WatchRuns ''blue'']"

lemma stale_write_runs:
  assumes "drv_drive_safe drv d0 = (Inr (), d1)" "drv_apply drv (PwmLevel (1/2)) d1 = (Inr (), d2)"
    and "drv_effective drv (PwmLevel (1/2)) = Inr (PwmLevel (1/2))"
  shows "\<exists>sv g. sup_run False drv quiet_sink (blue_sup d0) stale_write sv
    \<and> guard_of sv ''blue'' = Some g \<and> g_device g = d2 \<and> g_runtime_task g = None
    \<and> g_unwinding g = [] \<and> sv_in_flight sv = None \<and> is_at_safe_state ''blue'' sv = Inr True"
  by (simp add: sup_run_exec assms stale_write_def run_simps Let_def watch_run_def watch_top_def
      heartbeat_timeout_s_def watch_call_step_def land_safe_def is_at_safe_state_def mark_safe_def
      tell_def safety_event_of_def)

text \<open>The blue channel, up at its period, and a state one on-time later.\<close>

definition blue_up :: "fake_sysfs \<Rightarrow> bool" where
  "blue_up s = (fake_ready blue_channel s
     \<and> fs_values s (pp_dir blue_channel @ [''period'']) = Some (py_str_int 2000000))"

definition on_time :: "int \<Rightarrow> fake_sysfs \<Rightarrow> fake_sysfs" where
  "on_time n s = s\<lparr>fs_checks := Suc (fs_checks s),
     fs_values := (fs_values s)(pp_dir blue_channel @ [''duty_cycle''] \<mapsto> py_str_int n),
     fs_writes := fs_writes s @ [(''duty_cycle'', py_str_int n)]\<rparr>"

lemma blue_write:
  assumes "blue_up s" "0 \<le> n" "n \<le> 2000000"
  shows "pp_write blue_channel ''duty_cycle'' (py_str_int n) s = (Inr (), on_time n s)"
    and "blue_up (on_time n s)"
    and "fs_values (on_time n s) (pp_dir blue_channel @ [''duty_cycle'']) = Some (py_str_int n)"
proof -
  have "kernel_rule ''duty_cycle'' (py_str_int n) (pp_dir blue_channel) (fs_values s) = Inr ()"
    using assms by (simp add: kernel_rule_def attr_int_def py_int_of_nat blue_up_def)
  from ready_write [OF _ _ _ _ _ this] assms(1)
  show "pp_write blue_channel ''duty_cycle'' (py_str_int n) s = (Inr (), on_time n s)"
    by (simp add: blue_up_def on_time_def)
qed (use assms(1) in \<open>simp_all add: blue_up_def on_time_def fake_ready_def\<close>)

lemma blue_up_open: "blue_up chip_open"
  by (simp add: blue_up_def fake_ready_def chip_open_def)

lemma blue_half:
  assumes "blue_up s"
  shows "drv_apply (pipwm_driver blue_channel) (PwmLevel (1/2)) s = (Inr (), on_time 1000000 s)"
proof -
  have "duty_to_ns (1/2) 2000000 = 1000000"
    by (simp add: duty_to_ns_def snap_duty_def MIN_USABLE_DUTY_def py_int_def)
  with blue_write(1) [OF assms, of 1000000] show ?thesis by (simp add: pipwm_driver_def)
qed

lemma blue_zero:
  assumes "blue_up s"
  shows "drv_drive_safe (pipwm_driver blue_channel) s = (Inr (), on_time 0 s)"
proof -
  have "py_str_int 0 = ''0''" by (simp add: py_str_int_zero)
  with blue_write(1) [OF assms, of 0] show ?thesis by (simp add: pipwm_driver_def pp_drive_safe_def)
qed

lemma blue_reads_half:
  assumes "blue_up s"
  shows "fst (pp_read_back blue_channel (on_time 1000000 s)) = Inr (Some (PwmLevel (1/2)))"
proof -
  have "pwm_channel fake_files fs_values blue_channel"
    unfolding blue_channel_def by (rule kernel_channel.pwm_channel_axioms)
  from pwm_channel.read_back_attr [OF this, of "on_time 1000000 s" 1000000 2000000]
    blue_write(2,3) [OF assms, of 1000000]
  show ?thesis by (simp add: blue_up_def min_def)
qed

text \<open>
  C27. The RP1 driver has no lock, and the interlocks rely on one. On a channel that is up,
  with its kernel obeying every rule, there is an interleaving - a heartbeat trip whose zero
  lands just before a command's on-time does, and whose caller resumes just after the
  command's - that ends with the pin lit, nothing in flight, \<open>is_at_safe_state\<close> answering
  true and no runtime cap on the clock.
\<close>

theorem lockless_driver_loses_the_cap:
  "\<exists>sv g. sup_run False (pipwm_driver blue_channel) quiet_sink (blue_sup chip_open) stale_write sv
    \<and> guard_of sv ''blue'' = Some g \<and> sv_in_flight sv = None
    \<and> is_at_safe_state ''blue'' sv = Inr True \<and> g_runtime_task g = None
    \<and> fst (pp_read_back blue_channel (g_device g)) = Inr (Some (PwmLevel (1/2)))"
proof -
  have zero: "blue_up (on_time 0 chip_open)" by (rule blue_write(2) [OF blue_up_open]) simp_all
  have "drv_effective (pipwm_driver blue_channel) (PwmLevel (1/2)) = Inr (PwmLevel (1/2))"
    by (simp add: pipwm_driver_def snap_duty_def MIN_USABLE_DUTY_def)
  from stale_write_runs [OF blue_zero [OF blue_up_open] blue_half [OF zero] this] obtain sv g where
    "sup_run False (pipwm_driver blue_channel) quiet_sink (blue_sup chip_open) stale_write sv"
    "guard_of sv ''blue'' = Some g" "g_device g = on_time 1000000 (on_time 0 chip_open)"
    "g_runtime_task g = None" "sv_in_flight sv = None" "is_at_safe_state ''blue'' sv = Inr True"
    by blast
  then show ?thesis
    using blue_reads_half [OF zero] by (intro exI [of _ sv] exI [of _ g] conjI) simp_all
qed

section \<open>The event of a runtime trip\<close>

text \<open>The event that says the cap tripped and the output is safe.\<close>

definition cap_trip :: "safety_event \<Rightarrow> bool" where
  "cap_trip ev = (se_reason ev = MaxRuntimeExceeded \<and> se_reached_safe ev)"

fun pc_untold :: "trip_pc \<Rightarrow> bool" where
  "pc_untold (EmittingFailure ev) = (\<not> cap_trip ev)"
| "pc_untold (EmittingSuccess ev) = (\<not> cap_trip ev)"
| "pc_untold _ = True"

fun rt_untold :: "runtime_task option \<Rightarrow> bool" where
  "rt_untold (Some (RtLive (RtTripping (EmittingSuccess _)))) = False"
| "rt_untold (Some (RtLive (RtTripping pc))) = pc_untold pc"
| "rt_untold _ = True"

fun watch_untold :: "watch_pc option \<Rightarrow> bool" where
  "watch_untold (Some (WatchTripping pc)) = pc_untold pc"
| "watch_untold _ = True"

definition untold :: "'d supervisor \<Rightarrow> bool" where
  "untold sv = (list_all (\<lambda>ev. \<not> cap_trip ev) (sv_heard sv)
     \<and> (\<forall>aid g. guard_of sv aid = Some g \<longrightarrow> watch_untold (g_watch_task g) \<and> rt_untold (g_runtime_task g)))"

definition suspends_on_cap :: "event_sink \<Rightarrow> bool" where
  "suspends_on_cap sink = (\<forall>ev. cap_trip ev \<longrightarrow> sink ev \<noteq> SinkCompletes False)"

lemma untold_upd:
  assumes "untold sv1" "\<And>g. guard_of sv1 aid = Some g \<Longrightarrow> watch_untold (g_watch_task (f g)) \<and> rt_untold (g_runtime_task (f g))"
  shows "untold (upd_guard aid f sv1)"
  using assms by (auto simp: untold_def)

lemma untold_frame:
  "untold sv \<Longrightarrow> guard_of sv' = guard_of sv \<Longrightarrow> sv_heard sv' = sv_heard sv \<Longrightarrow> untold sv'"
  by (simp add: untold_def)

lemma untold_hear: "untold sv \<Longrightarrow> \<not> cap_trip ev \<Longrightarrow> untold (snd (hear sink ev sv))"
  by (auto simp: untold_def hear_def split: sink_outcome.split)

lemma untold_hear_cancelled: "untold sv \<Longrightarrow> suspends_on_cap sink \<Longrightarrow> untold (hear_cancelled sink ev sv)"
  by (auto simp: untold_def hear_cancelled_def suspends_on_cap_def)

lemma untold_tell: "untold sv \<Longrightarrow> untold (tell ev sv)"
  by (erule untold_frame) (simp_all add: tell_def)

lemma untold_emit:
  assumes "untold sv" "rs \<noteq> MaxRuntimeExceeded"
  shows "untold (snd (emit_event sink aid rs dt reached sv))"
  unfolding emit_event_def Let_def
  by (rule untold_hear) (use assms in \<open>simp_all add: untold_tell cap_trip_def safety_event_of_def\<close>)

lemma note_level_untold: "rt_untold (g_runtime_task g) \<Longrightarrow> rt_untold (g_runtime_task (note_level l g))"
  by (simp add: note_level_def)

lemma mark_safe_untold: "rt_untold (g_runtime_task (mark_safe g)) \<longleftrightarrow> \<not> runtime_live (g_runtime_task g) \<or> rt_untold None"
  by (cases "g_runtime_task g" rule: runtime_live.cases) (auto simp: mark_safe_def Let_def)

lemma trip_run_untold:
  assumes "trip_run sink aid rs dt pc sv = Some (seg, sv1)" "untold sv" "pc_untold pc"
  shows "untold sv1" "seg = TripAt pc' \<Longrightarrow> pc_untold pc' \<and> (\<forall>ev. pc' \<noteq> EmittingSuccess ev)"
    "seg = TripDroveSafe ev \<Longrightarrow> rs \<noteq> MaxRuntimeExceeded \<Longrightarrow> \<not> cap_trip ev"
  using assms by (cases "(sink, aid, rs, dt, pc, sv)" rule: trip_run.cases;
      auto simp: Let_def untold_tell untold_hear cap_trip_def safety_event_of_def split: if_splits)+

lemma call_steps_untold:
  "watch_call_step serial drv land aid g sv = Some sv' \<Longrightarrow> guard_of sv aid = Some g \<Longrightarrow> untold sv \<Longrightarrow> untold sv'"
  "runtime_call_step serial drv land aid g sv = Some sv' \<Longrightarrow> guard_of sv aid = Some g \<Longrightarrow> untold sv \<Longrightarrow> untold sv'"
  by (auto simp: watch_call_step_def runtime_call_step_def land_safe_def untold_def
      split: option.splits watch_pc.splits runtime_task.splits runtime_pc.splits trip_pc.splits if_splits prod.splits)

lemma hear_cancelled_guards [simp]: "guard_of (hear_cancelled sink ev sv) = guard_of sv"
  by (simp add: hear_cancelled_def)

lemma unwind_untold:
  assumes "unwind_step drv sink land aid g sv = Some sv'" "guard_of sv aid = Some g" "untold sv" "suspends_on_cap sink"
  shows "untold sv'"
proof -
  have g: "watch_untold (g_watch_task g)" "rt_untold (g_runtime_task g)" using assms(2,3) by (auto simp: untold_def)
  from assms(1) show ?thesis
  proof (cases rule: unwind_step_eq)
    case drive
    then show ?thesis using g by (auto intro!: untold_upd [OF assms(3)])
  next
    case ends
    then show ?thesis using g assms(2) by (auto intro!: untold_upd [OF assms(3)])
  next
    case emit
    then show ?thesis using g assms(2) by (auto intro!: untold_upd [OF untold_hear_cancelled [OF assms(3,4)]])
  qed
qed

lemma apply_step_untold:
  assumes "apply_step serial drv lab sv = Some sv'" "untold sv"
  shows "untold sv'"
  using assms(1)
proof (cases rule: apply_step_cases)
  case acquires
  with assms(2) show ?thesis by (simp add: untold_def)
next
  case (lands fl g r d)
  have "untold (sv\<lparr>sv_in_flight := Some (fl\<lparr>fl_phase := Landed r\<rparr>)\<rparr>)" using assms(2) by (simp add: untold_def)
  then show ?thesis
    unfolding lands(6) by (rule untold_upd) (use assms(2) lands(2) in \<open>simp add: untold_def\<close>)
next
  case (resumes fl g r)
  have "untold (sv\<lparr>sv_in_flight := None\<rparr>)" using assms(2) by (simp add: untold_def)
  moreover have "rt_untold (g_runtime_task (snd (apply_resume fl r g)))" "g_watch_task (snd (apply_resume fl r g)) = g_watch_task g"
    using assms(2) resumes(2) note_level_untold [of g]
    by (cases r; auto simp: untold_def note_level_def)+
  ultimately show ?thesis
    unfolding resumes(5) by (intro untold_upd) (use assms(2) resumes(2) in \<open>simp_all add: untold_def\<close>)
qed

lemma apply_admit_untold:
  assumes "untold sv"
  shows "untold (snd (apply_admit drv sink c sv))"
proof -
  have refuse: "untold (snd (refuse sink aid rs dt out sv))" if "rs \<noteq> MaxRuntimeExceeded" for aid rs dt out
    using untold_emit [OF assms that] by (simp add: refuse_eq)
  have flies: "untold (sv\<lparr>sv_in_flight := fl\<rparr>)" for fl using assms by (simp add: untold_def)
  show ?thesis
    by (cases rule: admit_cases [of sv c drv sink]) (simp_all add: refuse assms flies)
qed

lemma heartbeat_untold: "untold sv \<Longrightarrow> untold (sup_heartbeat sv)"
  by (auto simp: untold_def heartbeat_guards) (simp add: sup_heartbeat_def)

lemma untold_step:
  assumes "sup_step serial drv sink l sv = Some sv'" "untold sv" "suspends_on_cap sink"
  shows "untold sv'"
proof (cases l)
  case (WatchRuns k)
  then obtain g where g: "guard_of sv k = Some g" "watch_run sink k g sv = Some sv'"
    using assms(1) by (auto simp: on_guard_Some)
  then have old: "watch_untold (g_watch_task g)" "rt_untold (g_runtime_task g)"
    using assms(2) by (auto simp: untold_def)
  from g(2) show ?thesis
  proof (cases rule: watch_run_cases)
    case (trip pc seg sv1)
    have "pc_untold pc" using old trip(1) by simp
    note t = trip_run_untold [OF trip(2) assms(2) this]
    show ?thesis unfolding trip(3)
    proof (rule untold_upd [OF t(1)])
      fix h assume "guard_of sv1 k = Some h"
      with g(1) trip_run_frame [OF trip(2)] have "h = g" by simp
      with old t(2,3) show "watch_untold (g_watch_task (watch_after seg h)) \<and> rt_untold (g_runtime_task (watch_after seg h))"
        by (cases seg) (auto simp: mark_safe_def Let_def)
    qed
  qed (use g(1) old assms(2) in \<open>auto intro!: untold_upd simp: watch_top_def Let_def\<close>)
next
  case (RuntimeRuns k)
  then obtain g where g: "guard_of sv k = Some g" "runtime_run sink k g sv = Some sv'"
    using assms(1) by (auto simp: on_guard_Some)
  then have old: "watch_untold (g_watch_task g)" "rt_untold (g_runtime_task g)"
    using assms(2) by (auto simp: untold_def)
  from g(2) show ?thesis
  proof (cases rule: runtime_run_cases)
    case (trip pc seg sv1)
    have pc: "pc_untold pc" using old(2) trip(1) by (cases pc) auto
    note t = trip_run_untold [OF trip(2) assms(2) pc]
    show ?thesis unfolding trip(3)
    proof (rule untold_upd [OF t(1)])
      fix h assume "guard_of sv1 k = Some h"
      with g(1) trip_run_frame [OF trip(2)] have "h = g" by simp
      with old t(2) show "watch_untold (g_watch_task (runtime_after seg h)) \<and> rt_untold (g_runtime_task (runtime_after seg h))"
      proof (cases seg)
        case (TripAt pc')
        with t(2) [OF this] old \<open>h = g\<close> show ?thesis by (cases pc') auto
      qed (auto simp: mark_safe_def Let_def)
    qed
  qed (use g(1) old assms(2) in \<open>auto intro!: untold_upd\<close>)
next
  case (LatchCleared k operator)
  have cleared: "untold (upd_guard k (\<lambda>g. g\<lparr>g_latched := False, g_latch_detail := NoDetail\<rparr>) sv)"
    by (rule untold_upd [OF assms(2)]) (use assms(2) in \<open>simp add: untold_def\<close>)
  show ?thesis
    using assms(1,2) LatchCleared untold_emit [OF cleared] by (auto simp: clear_latch_def split: option.splits)
next
  case (ApplyCalled c)
  then have "untold (snd (apply_admit drv sink c sv))"
    by (intro apply_admit_untold [OF assms(2)])
  with ApplyCalled assms(1) show ?thesis by (auto split: if_splits)
next
  case (Advance t now)
  with assms show ?thesis by (auto simp: untold_def split: if_splits)
next
  case (TrustChanges v)
  with assms show ?thesis by (auto simp: untold_def set_clock_trusted_def)
next
  case Beat
  with assms show ?thesis by (auto intro: heartbeat_untold)
qed (use assms in \<open>auto simp: on_guard_Some intro: apply_step_untold call_steps_untold unwind_untold\<close>)

text \<open>
  The event of a runtime-cap trip never reaches a sink that suspends. With a sink that
  awaits anything when it is told that the cap drove an actuator safe (the service's sink
  publishes), no run of any length delivers such an event: \<open>_mark_safe\<close> has cancelled the task
  that is about to tell it.
\<close>

theorem cap_trip_never_heard:
  assumes "sup_run serial drv sink sv0 ls sv" "sup_fresh safe dark ok sv0" "sv_heard sv0 = []"
    and "\<And>ev. se_reason ev = MaxRuntimeExceeded \<Longrightarrow> se_reached_safe ev \<Longrightarrow> sink ev \<noteq> SinkCompletes False"
  shows "list_all (\<lambda>ev. \<not> (se_reason ev = MaxRuntimeExceeded \<and> se_reached_safe ev)) (sv_heard sv)"
proof -
  have sink: "suspends_on_cap sink" using assms(4) by (auto simp: suspends_on_cap_def cap_trip_def)
  have "untold sv0" using assms(2,3) by (auto simp: untold_def sup_fresh_def)
  with assms(1) have "untold sv"
    by (induction rule: sup_run.induct) (auto intro: untold_step [OF _ _ sink])
  then show ?thesis by (simp add: untold_def cap_trip_def)
qed

definition publishing_sink :: event_sink where
  "publishing_sink ev = SinkCompletes True"

definition cap_run :: "sup_label list" where
  "cap_run = light_up @ [Advance 64800 (Aware 64900), RuntimeRuns ''blue'', RuntimeAcquires ''blue'',
     RuntimeLands ''blue'', RuntimeRuns ''blue'', UnwindEnds ''blue'']"

text \<open>The cap trips, the light is driven dark, the event is made and nobody hears it.\<close>

definition cap_sup :: "level supervisor" where
  "cap_sup = the (sup_exec True (snapping_driver 0) publishing_sink cap_run (blue_sup (PwmLevel 0)))"

lemmas cap_simps = cap_run_def run_simps Let_def runtime_call_step_def land_safe_def mark_safe_def tell_def
  safety_event_of_def unwind_step_def hear_cancelled_def publishing_sink_def

lemma cap_sup_runs:
  "sup_exec True (snapping_driver 0) publishing_sink cap_run (blue_sup (PwmLevel 0)) = Some cap_sup"
  by (simp add: cap_sup_def cap_simps)

theorem cap_trip_never_heard_witness:
  "map (\<lambda>ev. (se_reason ev, se_reached_safe ev)) (sv_events cap_sup) = [(MaxRuntimeExceeded, True)]
     \<and> is_latched ''blue'' cap_sup = Inr True \<and> is_at_safe_state ''blue'' cap_sup = Inr True
     \<and> list_all (\<lambda>ev. \<not> (se_reason ev = MaxRuntimeExceeded \<and> se_reached_safe ev)) (sv_heard cap_sup)"
proof -
  have "sv_heard (blue_sup (PwmLevel 0)) = []" by (simp add: run_simps Let_def)
  from cap_trip_never_heard [OF cap_sup_runs [folded sup_run_exec] blue_lit_fresh this]
  have "list_all (\<lambda>ev. \<not> (se_reason ev = MaxRuntimeExceeded \<and> se_reached_safe ev)) (sv_heard cap_sup)"
    by (simp add: publishing_sink_def)
  moreover have "map (\<lambda>ev. (se_reason ev, se_reached_safe ev)) (sv_events cap_sup) = [(MaxRuntimeExceeded, True)]"
    "is_latched ''blue'' cap_sup = Inr True" "is_at_safe_state ''blue'' cap_sup = Inr True"
    by (simp_all add: cap_sup_def cap_simps is_latched_def is_at_safe_state_def)
  ultimately show ?thesis by blast
qed

end
