(* ===== verification/CapRefinement.thy ===== *)
theory CapRefinement
  imports SafetyView Interlocks
begin

text \<open>
  The runtime cap as the interlock documents it - a timer with a latch, one per actuator - and
  the proof that the supervisor's tasks, locks, cancellations and retries implement it: every
  step of any interleaving is one event of the timer or none.
\<close>

section \<open>The specification\<close>

datatype cap = CapOff | CapArming | CapRunning seconds | CapTripping

record cap_state =
  cap_clock :: seconds
  cap_timer :: cap
  cap_latch :: bool

datatype cap_event = Tick seconds | Idle | OperatorClears | Arm | Begin | Expire | Disarm

text \<open>
  The timer is armed once, begins at the moment its task first runs, expires only at its
  deadline and latches then; only the operator clears the latch, and no event moves a deadline.
\<close>

fun cap_next :: "seconds \<Rightarrow> cap_event \<Rightarrow> cap_state \<Rightarrow> cap_state option" where
  "cap_next M (Tick t) s = (if cap_clock s \<le> t then Some (s\<lparr>cap_clock := t\<rparr>) else None)"
| "cap_next M Idle s = Some s"
| "cap_next M OperatorClears s = Some (s\<lparr>cap_latch := False\<rparr>)"
| "cap_next M Arm s = (if cap_timer s = CapOff then Some (s\<lparr>cap_timer := CapArming\<rparr>) else None)"
| "cap_next M Begin s =
     (if cap_timer s = CapArming then Some (s\<lparr>cap_timer := CapRunning (cap_clock s + M)\<rparr>) else None)"
| "cap_next M Expire s =
     (case cap_timer s of
        CapRunning d \<Rightarrow> if d \<le> cap_clock s then Some (s\<lparr>cap_timer := CapTripping, cap_latch := True\<rparr>) else None
      | _ \<Rightarrow> None)"
| "cap_next M Disarm s = Some (s\<lparr>cap_timer := CapOff\<rparr>)"

fun cap_exec :: "seconds \<Rightarrow> cap_event list \<Rightarrow> cap_state \<Rightarrow> cap_state option" where
  "cap_exec M [] s = Some s"
| "cap_exec M (e # es) s = (case cap_next M e s of None \<Rightarrow> None | Some s \<Rightarrow> cap_exec M es s)"

text \<open>What the timer promises: between two disarmings its deadline is the one it began with.\<close>

lemma tripping_stays:
  assumes "cap_exec M es s = Some s'" "cap_timer s = CapTripping" "Disarm \<notin> set es"
  shows "cap_timer s' = CapTripping"
  using assms
proof (induction es arbitrary: s)
  case (Cons e es)
  then obtain s1 where s1: "cap_next M e s = Some s1" "cap_exec M es s1 = Some s'" by (auto split: option.splits)
  with Cons.prems have "cap_timer s1 = CapTripping" by (cases e) (auto split: if_splits)
  with Cons.IH s1(2) Cons.prems(3) show ?case by simp
qed simp

lemma deadline_never_moves:
  assumes "cap_exec M es s = Some s'" "cap_timer s = CapRunning d" "Disarm \<notin> set es"
  shows "cap_timer s' = CapRunning d \<or> cap_timer s' = CapTripping"
  using assms
proof (induction es arbitrary: s)
  case (Cons e es)
  then obtain s1 where s1: "cap_next M e s = Some s1" "cap_exec M es s1 = Some s'" by (auto split: option.splits)
  with Cons.prems have "cap_timer s1 = CapRunning d \<or> cap_timer s1 = CapTripping" by (cases e) (auto split: if_splits)
  with Cons.IH tripping_stays s1(2) Cons.prems(3) show ?case by fastforce
qed simp

section \<open>The abstraction\<close>

fun cap_of :: "runtime_task option \<Rightarrow> cap" where
  "cap_of (Some (RtLive RtStarting)) = CapArming"
| "cap_of (Some (RtLive (RtSleeping d))) = CapRunning d"
| "cap_of (Some (RtLive (RtTripping pc))) = CapTripping"
| "cap_of _ = CapOff"

definition cap_view :: "'d supervisor \<Rightarrow> 'd guard \<Rightarrow> cap_state" where
  "cap_view sv g = \<lparr>cap_clock = sv_loop_time sv, cap_timer = cap_of (g_runtime_task g), cap_latch = g_latched g\<rparr>"

text \<open>Which events of one actuator's timer a step of the supervisor may be.\<close>

fun cap_events :: "string \<Rightarrow> sup_label \<Rightarrow> cap_event set" where
  "cap_events aid (Advance t now) = {Tick t}"
| "cap_events aid (LatchCleared k operator) = {if k = aid then OperatorClears else Idle}"
| "cap_events aid ApplyResumes = {Idle, Arm, Disarm}"
| "cap_events aid (WatchRuns k) = (if k = aid then {Idle, Disarm} else {Idle})"
| "cap_events aid (RuntimeRuns k) = (if k = aid then {Idle, Begin, Expire, Disarm} else {Idle})"
| "cap_events aid _ = {Idle}"

lemma cap_of_dead: "\<not> runtime_live r \<Longrightarrow> cap_of r = CapOff"
  by (cases r rule: cap_of.cases) auto

definition cap_simulates :: "cap_event set \<Rightarrow> string \<Rightarrow> 'd supervisor \<Rightarrow> 'd supervisor \<Rightarrow> bool" where
  "cap_simulates es aid sv sv' \<longleftrightarrow> (\<forall>g. guard_of sv aid = Some g \<longrightarrow>
     (\<exists>g' e. guard_of sv' aid = Some g' \<and> g_registration g' = g_registration g \<and> e \<in> es
        \<and> cap_next (max_runtime_s g) e (cap_view sv g) = Some (cap_view sv' g')))"

lemma simulates_idle:
  assumes "guard_of sv' = guard_of sv" "sv_loop_time sv' = sv_loop_time sv"
  shows "cap_simulates {Idle} aid sv sv'"
  using assms by (simp add: cap_simulates_def cap_view_def)

lemma simulates_upd:
  assumes "sv' = upd_guard k f sv1" "guard_of sv1 = guard_of sv" "sv_loop_time sv1 = sv_loop_time sv" "guard_of sv k = Some g"
    and "g_registration (f g) = g_registration g" "e \<in> es"
    and "cap_next (max_runtime_s g) e (cap_view sv g) = Some (cap_view sv (f g))"
  shows "cap_simulates (if k = aid then es else {Idle}) aid sv sv'"
  using assms by (auto simp: cap_simulates_def cap_view_def)

lemma simulates_mono: "cap_simulates es aid sv sv' \<Longrightarrow> es \<subseteq> es' \<Longrightarrow> cap_simulates es' aid sv sv'"
  by (fastforce simp: cap_simulates_def)

lemma simulates_same:
  assumes "sv' = upd_guard k f sv1" "guard_of sv1 = guard_of sv" "sv_loop_time sv1 = sv_loop_time sv" "guard_of sv k = Some g"
    and "g_registration (f g) = g_registration g" "cap_of (g_runtime_task (f g)) = cap_of (g_runtime_task g)"
      "g_latched (f g) = g_latched g"
  shows "cap_simulates {Idle} aid sv sv'"
  using assms by (auto simp: cap_simulates_def cap_view_def)

section \<open>Each step\<close>

lemma mark_safe_next:
  "cap_next M (if runtime_live (g_runtime_task g) then Disarm else Idle) (cap_view sv g) = Some (cap_view sv (mark_safe g))"
  by (simp add: cap_view_def mark_safe_runtime cap_of_dead)

lemma watch_run_cap:
  assumes g: "guard_of sv k = Some g" and run: "watch_run sink k g sv = Some sv'"
  shows "cap_simulates (if k = aid then {Idle, Disarm} else {Idle}) aid sv sv'"
  using run
proof (cases rule: watch_run_cases)
  case top
  show ?thesis by (rule simulates_mono [OF simulates_same [OF top(2) refl refl g]]) (auto simp: watch_top_def Let_def)
next
  case (beat w)
  show ?thesis by (rule simulates_mono [OF simulates_same [OF beat(4) refl refl g]]) auto
next
  case (due d)
  show ?thesis by (rule simulates_mono [OF simulates_same [OF due(4) refl refl g]]) auto
next
  case (trip pc seg sv1)
  have frame: "guard_of sv1 = guard_of sv" "sv_loop_time sv1 = sv_loop_time sv" using trip_run_frame [OF trip(2)] by auto
  show ?thesis
  proof (cases seg)
    case (TripDroveSafe ev)
    let ?g = "g\<lparr>g_watch_task := Some (WatchTripping (EmittingSuccess ev))\<rparr>"
    show ?thesis
      by (rule simulates_upd [OF trip(3) frame g, where e = "if runtime_live (g_runtime_task ?g) then Disarm else Idle"])
        (use mark_safe_next [of "max_runtime_s g" ?g sv] TripDroveSafe in \<open>simp_all add: cap_view_def\<close>)
  next
    case (TripAt pc')
    show ?thesis by (rule simulates_mono [OF simulates_same [OF trip(3) frame g]]) (auto simp: TripAt)
  next
    case TripReturned
    show ?thesis by (rule simulates_mono [OF simulates_same [OF trip(3) frame g]]) (auto simp: TripReturned)
  qed
qed

lemma runtime_run_cap:
  assumes g: "guard_of sv k = Some g" and run: "runtime_run sink k g sv = Some sv'"
  shows "cap_simulates (if k = aid then {Idle, Begin, Expire, Disarm} else {Idle}) aid sv sv'"
  using run
proof (cases rule: runtime_run_cases)
  case starting
  show ?thesis
    by (rule simulates_upd [OF starting(2) refl refl g, where e = Begin])
      (use starting(1) in \<open>simp_all add: cap_view_def\<close>)
next
  case (due d)
  show ?thesis
    by (rule simulates_upd [OF due(3) refl refl g, where e = Expire])
      (use due(1,2) in \<open>simp_all add: cap_view_def\<close>)
next
  case (trip pc seg sv1)
  have frame: "guard_of sv1 = guard_of sv" "sv_loop_time sv1 = sv_loop_time sv" using trip_run_frame [OF trip(2)] by auto
  show ?thesis
  proof (cases seg)
    case (TripDroveSafe ev)
    let ?g = "g\<lparr>g_runtime_task := Some (RtLive (RtTripping (EmittingSuccess ev)))\<rparr>"
    show ?thesis
      by (rule simulates_upd [OF trip(3) frame g, where e = Disarm])
        (use mark_safe_next [of "max_runtime_s g" ?g sv] TripDroveSafe in \<open>simp_all add: cap_view_def\<close>)
  next
    case (TripAt pc')
    show ?thesis
      by (rule simulates_mono [OF simulates_same [OF trip(3) frame g]]) (use trip(1) in \<open>auto simp: TripAt\<close>)
  next
    case TripReturned
    show ?thesis
      by (rule simulates_upd [OF trip(3) frame g, where e = Disarm])
        (use trip(1) in \<open>simp_all add: TripReturned cap_view_def\<close>)
  qed
qed

lemma apply_resumes_cap:
  assumes "apply_step serial drv lab sv = Some sv'"
  shows "cap_simulates (if lab = ApplyResumes then {Idle, Arm, Disarm} else {Idle}) aid sv sv'"
  using assms
proof (cases rule: apply_step_cases)
  case (acquires fl g)
  have "cap_simulates {Idle} aid sv sv'" by (rule simulates_idle) (simp_all add: acquires)
  then show ?thesis using acquires(3) by simp
next
  case (lands fl g r d)
  have "cap_simulates {Idle} aid sv sv'" by (rule simulates_same [OF lands(6) _ _ lands(2)]) simp_all
  then show ?thesis using lands(3) by simp
next
  case (resumes fl g r)
  let ?k = "fl_actuator_id fl" and ?g' = "snd (apply_resume fl r g)"
  obtain e where e: "e \<in> {Idle, Arm, Disarm}" "cap_next (max_runtime_s g) e (cap_view sv g) = Some (cap_view sv ?g')"
  proof (cases r)
    case (Inl x)
    then show thesis by (intro that [of Idle]) simp_all
  next
    case (Inr u)
    let ?l = "fl_effective fl"
    have "cap_next (max_runtime_s g) (if ?l = safe_state_of g then Disarm
        else if runtime_live (g_runtime_task g) then Idle else Arm) (cap_view sv g) = Some (cap_view sv (note_level ?l g))"
      by (auto simp: cap_view_def note_level_runtime cap_of_dead)
    with Inr show thesis by (intro that) (simp_all split: if_splits)
  qed
  have reg: "g_registration ?g' = g_registration g" by (cases r) auto
  have "cap_simulates (if ?k = aid then {Idle, Arm, Disarm} else {Idle}) aid sv sv'"
    by (rule simulates_upd [OF resumes(5) _ _ resumes(2) reg e(1)]) (use e(2) in simp_all)
  then show ?thesis by (rule simulates_mono) (use resumes(3) in auto)
qed

lemma heartbeat_cap: "cap_simulates {Idle} aid sv (sup_heartbeat sv)"
  by (simp add: cap_simulates_def heartbeat_guards cap_view_def)

lemma clear_latch_cap: "cap_simulates {if k = aid then OperatorClears else Idle} aid sv (snd (clear_latch sink k operator sv))"
proof (cases "guard_of sv k")
  case None
  then have "snd (clear_latch sink k operator sv) = sv" by (simp add: clear_latch_def)
  with None show ?thesis by (auto simp: cap_simulates_def cap_view_def)
next
  case (Some g)
  let ?up = "upd_guard k (\<lambda>g. g\<lparr>g_latched := False, g_latch_detail := NoDetail\<rparr>) sv"
  obtain r sv1 where e: "emit_event sink k LatchedReason (LatchClearedBy operator) True ?up = (r, sv1)" by fastforce
  with Some have "snd (clear_latch sink k operator sv) = sv1" by (simp add: clear_latch_def)
  with emit_event_fields(1,5) [OF e] show ?thesis
    by (auto simp: cap_simulates_def cap_view_def)
qed

lemma admit_cap: "cap_simulates {Idle} aid sv (snd (apply_admit drv sink c sv))"
proof -
  obtain r sv' where a: "apply_admit drv sink c sv = (r, sv')" by fastforce
  then have "guard_of sv' = guard_of sv \<and> sv_loop_time sv' = sv_loop_time sv"
    by (cases rule: apply_admit_cases) (simp_all add: refused_frame_def)
  with a show ?thesis by (simp add: simulates_idle)
qed

lemma calls_cap:
  assumes "guard_of sv k = Some g"
  shows "watch_call_step serial drv land k g sv = Some sv' \<Longrightarrow> cap_simulates {Idle} aid sv sv'"
    "runtime_call_step serial drv land k g sv = Some sv' \<Longrightarrow> cap_simulates {Idle} aid sv sv'"
    "unwind_step drv sink land k g sv = Some sv' \<Longrightarrow> cap_simulates {Idle} aid sv sv'"
proof -
  assume "watch_call_step serial drv land k g sv = Some sv'"
  then obtain f where f: "sv' = upd_guard k f sv" "g_runtime_task (f g) = g_runtime_task g"
      "g_registration (f g) = g_registration g" "g_latched (f g) = g_latched g"
    by (auto simp: watch_call_step_def land_safe_def
        split: option.splits watch_pc.splits trip_pc.splits if_splits prod.splits)
  show "cap_simulates {Idle} aid sv sv'" by (rule simulates_same [OF f(1) refl refl assms]) (use f in simp_all)
next
  assume "runtime_call_step serial drv land k g sv = Some sv'"
  then obtain f pc pc' where f: "sv' = upd_guard k f sv" "g_runtime_task g = Some (RtLive (RtTripping pc))"
      "g_runtime_task (f g) = Some (RtLive (RtTripping pc'))" "g_registration (f g) = g_registration g"
      "g_latched (f g) = g_latched g"
    by (auto simp: runtime_call_step_def land_safe_def
        split: option.splits runtime_task.splits runtime_pc.splits trip_pc.splits if_splits prod.splits)
  show "cap_simulates {Idle} aid sv sv'" by (rule simulates_same [OF f(1) refl refl assms]) (use f in simp_all)
next
  assume "unwind_step drv sink land k g sv = Some sv'"
  then obtain f sv1 where f: "sv' = upd_guard k f sv1" "guard_of sv1 = guard_of sv" "sv_loop_time sv1 = sv_loop_time sv"
      "g_runtime_task (f g) = g_runtime_task g" "g_registration (f g) = g_registration g" "g_latched (f g) = g_latched g"
    by (cases rule: unwind_step_eq) auto
  show "cap_simulates {Idle} aid sv sv'" by (rule simulates_same [OF f(1-3) assms]) (use f in simp_all)
qed

lemma sup_step_cap:
  assumes step: "sup_step serial drv sink l sv = Some sv'"
  shows "cap_simulates (cap_events aid l) aid sv sv'"
proof (cases l)
  case (Advance t now)
  with step show ?thesis by (auto simp: cap_simulates_def cap_view_def split: if_splits)
next
  case Beat
  with step show ?thesis using heartbeat_cap [where sv = sv] by simp
next
  case (TrustChanges v)
  with step show ?thesis by (auto simp: set_clock_trusted_def intro!: simulates_idle)
next
  case (LatchCleared k operator)
  with step show ?thesis using clear_latch_cap [where sv = sv and k = k and aid = aid and sink = sink and operator = operator] by (auto split: if_splits)
next
  case (ApplyCalled c)
  with step show ?thesis using admit_cap [where sv = sv] by (auto split: if_splits)
next
  case (WatchRuns k)
  with step obtain g where g: "guard_of sv k = Some g" by (auto simp: on_guard_def split: option.splits)
  with step WatchRuns show ?thesis using watch_run_cap [OF g] by (auto simp: on_guard_def)
next
  case (RuntimeRuns k)
  with step obtain g where g: "guard_of sv k = Some g" by (auto simp: on_guard_def split: option.splits)
  with step RuntimeRuns show ?thesis using runtime_run_cap [OF g] by (auto simp: on_guard_def)
next
  case (WatchAcquires k)
  with step obtain g where g: "guard_of sv k = Some g" by (auto simp: on_guard_def split: option.splits)
  with step WatchAcquires show ?thesis using calls_cap(1) [OF g] by (auto simp: on_guard_def)
next
  case (WatchLands k)
  with step obtain g where g: "guard_of sv k = Some g" by (auto simp: on_guard_def split: option.splits)
  with step WatchLands show ?thesis using calls_cap(1) [OF g] by (auto simp: on_guard_def)
next
  case (RuntimeAcquires k)
  with step obtain g where g: "guard_of sv k = Some g" by (auto simp: on_guard_def split: option.splits)
  with step RuntimeAcquires show ?thesis using calls_cap(2) [OF g] by (auto simp: on_guard_def)
next
  case (RuntimeLands k)
  with step obtain g where g: "guard_of sv k = Some g" by (auto simp: on_guard_def split: option.splits)
  with step RuntimeLands show ?thesis using calls_cap(2) [OF g] by (auto simp: on_guard_def)
next
  case (UnwindLands k)
  with step obtain g where g: "guard_of sv k = Some g" by (auto simp: on_guard_def split: option.splits)
  with step UnwindLands show ?thesis using calls_cap(3) [OF g] by (auto simp: on_guard_def)
next
  case (UnwindEnds k)
  with step obtain g where g: "guard_of sv k = Some g" by (auto simp: on_guard_def split: option.splits)
  with step UnwindEnds show ?thesis using calls_cap(3) [OF g] by (auto simp: on_guard_def)
next
  case ApplyAcquires
  with step show ?thesis using apply_resumes_cap [of serial drv ApplyAcquires sv sv' aid] by simp
next
  case ApplyLands
  with step show ?thesis using apply_resumes_cap [of serial drv ApplyLands sv sv' aid] by simp
next
  case ApplyResumes
  with step show ?thesis using apply_resumes_cap [of serial drv ApplyResumes sv sv' aid] by simp
qed

text \<open>
  C6. The interlock implements its timer. Over any run of the supervisor - any driver, locks
  or none, any sink, commands, beats, trips, cancellations and retries interleaved in any way -
  what happens to one actuator's runtime task and latch is an execution of the timer's
  specification on its own, one event per step: its clock ticks only when time passes, its
  latch is cleared only by the operator's step, it is armed only when an \<open>apply\<close> resumes, it
  begins and expires only when its own task runs.
\<close>

theorem interlock_implements_timer:
  assumes "sup_exec serial drv sink ls sv = Some sv'" "guard_of sv aid = Some g"
  shows "\<exists>g' es. guard_of sv' aid = Some g' \<and> list_all2 (\<lambda>e l. e \<in> cap_events aid l) es ls
    \<and> cap_exec (max_runtime_s g) es (cap_view sv g) = Some (cap_view sv' g')"
  using assms
proof (induction ls arbitrary: sv g)
  case (Cons l ls)
  then obtain sv1 where sv1: "sup_step serial drv sink l sv = Some sv1" "sup_exec serial drv sink ls sv1 = Some sv'"
    by (auto split: option.splits)
  from sup_step_cap [OF sv1(1), of aid] Cons.prems(2) obtain g1 e where
    one: "guard_of sv1 aid = Some g1" "g_registration g1 = g_registration g" "e \<in> cap_events aid l"
      "cap_next (max_runtime_s g) e (cap_view sv g) = Some (cap_view sv1 g1)"
    unfolding cap_simulates_def by blast
  from Cons.IH [OF sv1(2) one(1)] obtain g' es where rest: "guard_of sv' aid = Some g'"
    "list_all2 (\<lambda>e l. e \<in> cap_events aid l) es ls"
    "cap_exec (max_runtime_s g1) es (cap_view sv1 g1) = Some (cap_view sv' g')" by blast
  have "max_runtime_s g1 = max_runtime_s g" using one(2) by (simp add: max_runtime_s_def)
  with one rest show ?case by (intro exI [of _ g'] exI [of _ "e # es"]) simp
qed auto

theorem interlock_implements_timer_witness:
  "\<exists>g g' es. guard_of (blue_sup (PwmLevel 0)) ''blue'' = Some g \<and> guard_of lit_sup ''blue'' = Some g'
     \<and> length es = 5 \<and> cap_exec (max_runtime_s g) es (cap_view (blue_sup (PwmLevel 0)) g) = Some (cap_view lit_sup g')
     \<and> cap_timer (cap_view lit_sup g') = CapRunning 64800"
proof -
  have run: "sup_exec True (snapping_driver 0) quiet_sink light_up (blue_sup (PwmLevel 0)) = Some lit_sup"
    using light_up_runs by (simp add: sup_run_exec)
  obtain g where g: "guard_of (blue_sup (PwmLevel 0)) ''blue'' = Some g" by (simp add: run_simps)
  obtain g' es where r: "guard_of lit_sup ''blue'' = Some g'" "list_all2 (\<lambda>e l. e \<in> cap_events ''blue'' l) es light_up"
    "cap_exec (max_runtime_s g) es (cap_view (blue_sup (PwmLevel 0)) g) = Some (cap_view lit_sup g')"
    using interlock_implements_timer [OF run g] by blast
  have "length es = 5" using list_all2_lengthD [OF r(2)] by (simp add: light_up_def)
  moreover have "cap_timer (cap_view lit_sup g') = CapRunning 64800"
    using lit_sup_guard r(1) by (auto simp: cap_view_def)
  ultimately show ?thesis using g r by blast
qed

end
