(* ===== verification/Spine.thy ===== *)
theory Spine
  imports Interlocks
begin

text \<open>
  The NATS spine of hardware-io, \<open>hardware_io/spine.py\<close>: publishing, provisioning, the
  retained assignments, and the command consumer. The NATS client is not part of the
  repository: a function that answers every call, given the calls made before it, stands for
  it, and every call is recorded in the order it was made.
\<close>

section \<open>Talking to the broker\<close>

datatype hw_audit =
    MalformedCommand string py_error
  | CommandRefused command_outcome actuator_command instant nat

datatype payload =
    PCommand actuator_command | PReading sensor_reading | PState actuator_state
  | PBeat heartbeat_message | PRegistration actuator_registration
  | PSensorRegistration sensor_registration | PCapabilities capability_announcement
  | PChip chip_state | PHost host_status_message | PAudit uuid hw_audit

text \<open>One message of the command queue: its delivery, its subject, what its data decodes to.\<close>

record delivery =
  dl_id :: nat
  dl_subject :: string
  dl_command :: "actuator_command result"
  dl_delivered :: nat

datatype broker_call =
    CorePublish string payload
  | StreamPublish string payload "uuid option"
  | AddStream string | UpdateStream string
  | PullSubscribe string "string option" | CoreSubscribe string | Unsubscribe
  | Fetch nat seconds
  | Ack nat | Nak nat seconds | Term nat
  | Pause seconds

datatype reply = Done | Deliveries "delivery list" | Retained "(nat \<times> device_assignment result) list"

type_synonym nats = "broker_call list \<Rightarrow> broker_call \<Rightarrow> reply result"

record spine =
  sp_connected :: bool
  sp_log :: "broker_call list"

definition ask :: "nats \<Rightarrow> broker_call \<Rightarrow> ('a spine_scheme, reply) io" where
  "ask nats call s = (nats (sp_log s) call, s\<lparr>sp_log := sp_log s @ [call]\<rparr>)"

definition req :: "nats \<Rightarrow> broker_call \<Rightarrow> ('a spine_scheme, unit) io" where
  "req nats call = io_bind (ask nats call) (\<lambda>_. io_return ())"

text \<open>What every publisher checks first, and the \<open>js\<close> property.\<close>

definition need_connection :: "('a spine_scheme, unit) io" where
  "need_connection s =
     (if sp_connected s then Inr () else Inl (RuntimeError ''spine not connected''), s)"

definition io_result :: "'c result \<Rightarrow> ('b, 'c) io" where
  "io_result r s = (r, s)"

definition spine_publish :: "nats \<Rightarrow> string result \<Rightarrow> (string \<Rightarrow> broker_call) \<Rightarrow> ('a spine_scheme, unit) io" where
  "spine_publish nats subj call =
     io_bind need_connection (\<lambda>_. io_bind (io_result subj) (\<lambda>subj. req nats (call subj)))"

section \<open>Streams\<close>

datatype retention = WorkQueue | Limits

record stream_config =
  st_name :: string
  st_subject :: string
  st_retention :: retention
  st_max_age :: "seconds option"
  st_max_msgs_per_subject :: "nat option"

definition last_value :: "string \<Rightarrow> string \<Rightarrow> stream_config" where
  "last_value name subj =
     \<lparr>st_name = name, st_subject = subj, st_retention = Limits, st_max_age = None,
      st_max_msgs_per_subject = Some 1\<rparr>"

definition STREAMS :: "stream_config list" where
  "STREAMS =
     [\<lparr>st_name = ''BR_CMD'', st_subject = all_of ''cmd'', st_retention = WorkQueue, st_max_age = Some 3600,
       st_max_msgs_per_subject = None\<rparr>,
      last_value ''BR_STATE'' (all_of ''state''),
      last_value ''BR_REGISTRY'' (all_of ''registry''),
      last_value ''BR_CAPABILITY'' (all_of ''capability''),
      last_value ''BR_CHIP'' (all_of ''chip''),
      last_value ''BR_HOST'' (all_of ''host''),
      last_value ''BR_ASSIGNMENT'' (all_of ''assignment''),
      \<lparr>st_name = ''BR_AUDIT'', st_subject = all_of ''audit'', st_retention = WorkQueue, st_max_age = Some 604800,
       st_max_msgs_per_subject = None\<rparr>]"

text \<open>\<open>provision\<close>: create, or update what the broker says is there already.\<close>

definition provision_one :: "nats \<Rightarrow> string \<Rightarrow> ('a spine_scheme, unit) io" where
  "provision_one nats name =
     io_bind need_connection (\<lambda>_ s.
       case req nats (AddStream name) s of
         (Inl e, s) \<Rightarrow> if e = NatsError ''BadRequestError'' then req nats (UpdateStream name) s else (Inl e, s)
       | (Inr u, s) \<Rightarrow> (Inr (), s))"

fun provision_all :: "nats \<Rightarrow> stream_config list \<Rightarrow> ('a spine_scheme, unit) io" where
  "provision_all nats [] = io_return ()"
| "provision_all nats (c # cs) = io_bind (provision_one nats (st_name c)) (\<lambda>_. provision_all nats cs)"

definition provision :: "nats \<Rightarrow> ('a spine_scheme, unit) io" where
  "provision nats = provision_all nats STREAMS"

section \<open>Publishing\<close>

fun source_token :: "capability_source \<Rightarrow> string" where
  "source_token PiPwm = ''pi-pwm''"
| "source_token Pca9685 = ''pca9685''"
| "source_token W1Bus = ''w1-bus''"

definition spine_publish_command :: "nats \<Rightarrow> actuator_command \<Rightarrow> ('a spine_scheme, unit) io" where
  "spine_publish_command nats c =
     spine_publish nats (cmd (class_token (ac_actuator_class c)) (ac_actuator_id c))
       (\<lambda>subj. StreamPublish subj (PCommand c) (Some (ac_idempotency_key c)))"

definition spine_publish_sensor :: "nats \<Rightarrow> sensor_reading \<Rightarrow> ('a spine_scheme, unit) io" where
  "spine_publish_sensor nats r =
     spine_publish nats (sensor (sr_sensor_type r) (sr_sensor_id r)) (\<lambda>subj. CorePublish subj (PReading r))"

definition spine_publish_state :: "nats \<Rightarrow> actuator_state \<Rightarrow> ('a spine_scheme, unit) io" where
  "spine_publish_state nats st =
     spine_publish nats (state (as_actuator_id st)) (\<lambda>subj. StreamPublish subj (PState st) None)"

definition spine_publish_heartbeat :: "nats \<Rightarrow> heartbeat_message \<Rightarrow> ('a spine_scheme, unit) io" where
  "spine_publish_heartbeat nats b =
     spine_publish nats (Subjects.heartbeat (hb_component b)) (\<lambda>subj. CorePublish subj (PBeat b))"

definition spine_publish_registration :: "nats \<Rightarrow> actuator_registration \<Rightarrow> ('a spine_scheme, unit) io" where
  "spine_publish_registration nats r =
     spine_publish nats (registry (ar_actuator_id r)) (\<lambda>subj. CorePublish subj (PRegistration r))"

definition spine_publish_sensor_registration :: "nats \<Rightarrow> sensor_registration \<Rightarrow> ('a spine_scheme, unit) io" where
  "spine_publish_sensor_registration nats r =
     spine_publish nats (registry (sg_sensor_id r)) (\<lambda>subj. CorePublish subj (PSensorRegistration r))"

definition spine_publish_capabilities :: "nats \<Rightarrow> capability_announcement \<Rightarrow> ('a spine_scheme, unit) io" where
  "spine_publish_capabilities nats a =
     spine_publish nats (capability (source_token (ca_hardware_source a)))
       (\<lambda>subj. CorePublish subj (PCapabilities a))"

definition spine_publish_chip_state :: "nats \<Rightarrow> chip_state \<Rightarrow> ('a spine_scheme, unit) io" where
  "spine_publish_chip_state nats c =
     spine_publish nats (chip (source_token (cs_hardware_source c)) (cs_instance c))
       (\<lambda>subj. CorePublish subj (PChip c))"

definition spine_publish_host_status :: "nats \<Rightarrow> host_status_message \<Rightarrow> ('a spine_scheme, unit) io" where
  "spine_publish_host_status nats h =
     spine_publish nats (Inr Subjects.host_status) (\<lambda>subj. CorePublish subj (PHost h))"

text \<open>The id is the event's own or a fresh one, in the payload and in the header.\<close>

definition spine_publish_audit :: "nats \<Rightarrow> string \<Rightarrow> uuid \<Rightarrow> hw_audit \<Rightarrow> ('a spine_scheme, unit) io" where
  "spine_publish_audit nats category mid ev =
     spine_publish nats (Subjects.audit category) (\<lambda>subj. StreamPublish subj (PAudit mid ev) (Some mid))"

section \<open>The retained assignments\<close>

fun take_assignments ::
    "nats \<Rightarrow> (nat \<times> device_assignment result) list \<Rightarrow> device_assignment list
       \<Rightarrow> ('a spine_scheme, device_assignment list) io" where
  "take_assignments nats [] found = io_return found"
| "take_assignments nats ((mid, data) # msgs) found =
     io_bind (req nats (Ack mid)) (\<lambda>_. take_assignments nats msgs
       (case data of Inl e \<Rightarrow> found | Inr a \<Rightarrow> found @ [a]))"

partial_function (option) read_loop ::
    "nats \<Rightarrow> device_assignment list \<Rightarrow> 'a spine_scheme
       \<Rightarrow> (device_assignment list result \<times> 'a spine_scheme) option" where
  "read_loop nats found s =
     (case ask nats (Fetch 32 1) s of
        (Inl e, s) \<Rightarrow>
          Some (case e of TimeoutError _ \<Rightarrow> (Inr found, snd (ask nats Unsubscribe s)) | _ \<Rightarrow> (Inl e, s))
      | (Inr r, s) \<Rightarrow>
          (case take_assignments nats (case r of Retained msgs \<Rightarrow> msgs | _ \<Rightarrow> []) found s of
             (Inl e, s) \<Rightarrow> Some (Inl e, s)
           | (Inr found, s) \<Rightarrow> read_loop nats found s))"

definition read_assignments ::
    "nats \<Rightarrow> 'a spine_scheme \<Rightarrow> (device_assignment list result \<times> 'a spine_scheme) option" where
  "read_assignments nats s =
     (case io_bind need_connection (\<lambda>_. req nats (PullSubscribe (all_of ''assignment'') None)) s of
        (Inl e, s) \<Rightarrow> Some (if e = NatsError ''NotFoundError'' then Inr [] else Inl e, s)
      | (Inr u, s) \<Rightarrow> read_loop nats [] s)"

section \<open>The command consumer\<close>

definition MAX_HEAL_ATTEMPTS :: nat where "MAX_HEAL_ATTEMPTS = 5"
definition HEAL_BACKOFF_S :: seconds where "HEAL_BACKOFF_S = 1 / 2"

record 'd consumer = spine +
  co_sup :: "'d supervisor"
  co_subscribed :: bool
  co_heal_attempts :: nat
  co_heal_cause :: "py_error option"

text \<open>What the consumer's code reads off the world: the id, the time, of what it publishes.\<close>

record consumer_env =
  ce_nats :: nats
  ce_fresh :: uuid
  ce_now :: instant

definition subscribe :: "nats \<Rightarrow> ('d consumer, unit) io" where
  "subscribe nats =
     io_bind need_connection (\<lambda>_.
     io_bind (req nats (PullSubscribe (all_of ''cmd'') (Some ''hardware-io''))) (\<lambda>_ s.
       (Inr (), s\<lparr>co_subscribed := True\<rparr>)))"

text \<open>\<open>except Exception\<close> stops everything but a cancellation.\<close>

definition swallow :: "('s, unit) io \<Rightarrow> ('s, unit) io" where
  "swallow m s = (case m s of (Inl e, s) \<Rightarrow> (if e = CancelledError then Inl e else Inr (), s) | (Inr u, s) \<Rightarrow> (Inr (), s))"

definition heal :: "nats \<Rightarrow> py_error \<Rightarrow> ('d consumer, unit) io" where
  "heal nats cause s =
     (let attempts = co_heal_attempts s + 1;
          s = s\<lparr>co_heal_attempts := attempts, co_subscribed := False, co_heal_cause := Some cause\<rparr>
      in if MAX_HEAL_ATTEMPTS < attempts then (Inl (ConsumerLostError ''hardware-io''), s)
         else
           let s = s\<lparr>sp_log := sp_log s @ [Pause (HEAL_BACKOFF_S * 2 ^ (attempts - 1))]\<rparr>
           in case io_bind (provision nats) (\<lambda>_. subscribe nats) s of
                (Inl e, s) \<Rightarrow> (if e = CancelledError then Inl e else Inr (), s)
              | (Inr u, s) \<Rightarrow> (Inr (), s\<lparr>co_heal_attempts := 0, co_heal_cause := None\<rparr>))"

definition consumer_audit :: "consumer_env \<Rightarrow> hw_audit \<Rightarrow> ('d consumer, unit) io" where
  "consumer_audit env ev = swallow (spine_publish_audit (ce_nats env) ''command'' (ce_fresh env) ev)"

text \<open>The level on the truth line: what the driver reads back, else its prediction, else the command.\<close>

definition applied_level :: "'d driver \<Rightarrow> actuator_command \<Rightarrow> ('d supervisor, level) io" where
  "applied_level drv c sv =
     (case guard_of sv (ac_actuator_id c) of
        None \<Rightarrow> (Inr (ac_level c), sv)
      | Some g \<Rightarrow>
          (case drv_read_back drv (g_device g) of
             (r, d) \<Rightarrow>
               (case r of
                  Inl e \<Rightarrow> if e = CancelledError then Inl e else Inr (ac_level c)
                | Inr (Some l) \<Rightarrow> Inr l
                | Inr None \<Rightarrow> Inr (case drv_effective drv (ac_level c) of Inr l \<Rightarrow> l | Inl e \<Rightarrow> ac_level c),
                upd_guard (ac_actuator_id c) (\<lambda>g. g\<lparr>g_device := d\<rparr>) sv)))"

definition applied_state :: "consumer_env \<Rightarrow> actuator_command \<Rightarrow> level \<Rightarrow> actuator_state result" where
  "applied_state env c l = validate_actuator_state
     \<lparr>schema_version = SCHEMA_VERSION, message_id = ce_fresh env, emitted_at = ce_now env,
      source = ''hardware-io'', as_actuator_id = ac_actuator_id c, as_level = l, as_reason = Commanded,
      as_since = ce_now env, as_latched = False, as_command_acked = None, as_last_exchange_age_s = None\<rparr>"

definition publish_applied_state :: "consumer_env \<Rightarrow> 'd driver \<Rightarrow> actuator_command \<Rightarrow> ('d consumer, unit) io" where
  "publish_applied_state env drv c s =
     (case applied_level drv c (co_sup s) of
        (Inl e, sv) \<Rightarrow> (Inl e, s\<lparr>co_sup := sv\<rparr>)
      | (Inr l, sv) \<Rightarrow>
          swallow (io_bind (io_result (applied_state env c l)) (spine_publish_state (ce_nats env)))
            (s\<lparr>co_sup := sv\<rparr>))"

text \<open>
  One message of a batch. The supervisor's \<open>apply\<close> runs to its end here; what else may run
  while it awaits its driver is the business of \<open>SafetySteps\<close>.
\<close>

definition settle_refusal ::
    "consumer_env \<Rightarrow> delivery \<Rightarrow> actuator_command \<Rightarrow> command_outcome \<Rightarrow> ('d consumer, command_outcome option) io" where
  "settle_refusal env m c out =
     io_bind (consumer_audit env (CommandRefused out c (ce_now env) (dl_delivered m))) (\<lambda>_.
     io_bind (req (ce_nats env) (Term (dl_id m))) (\<lambda>_. io_return (Some out)))"

definition deliver ::
    "consumer_env \<Rightarrow> 'd driver \<Rightarrow> event_sink \<Rightarrow> delivery \<Rightarrow> ('d consumer, command_outcome option) io" where
  "deliver env drv sink m s =
     (case dl_command m of
        Inl e \<Rightarrow>
          io_bind (consumer_audit env (MalformedCommand (dl_subject m) e)) (\<lambda>_.
          io_bind (req (ce_nats env) (Term (dl_id m))) (\<lambda>_. io_return None)) s
      | Inr c \<Rightarrow>
          (case sup_apply drv sink c (co_sup s) of
             (Inl e, sv) \<Rightarrow>
               if e = CancelledError then (Inl e, s\<lparr>co_sup := sv\<rparr>)
               else io_bind (req (ce_nats env) (Nak (dl_id m) 1)) (\<lambda>_. io_return None) (s\<lparr>co_sup := sv\<rparr>)
           | (Inr out, sv) \<Rightarrow>
               (if out = Applied
                then io_bind (req (ce_nats env) (Ack (dl_id m))) (\<lambda>_.
                     io_bind (publish_applied_state env drv c) (\<lambda>_. io_return (Some out)))
                else settle_refusal env m c out) (s\<lparr>co_sup := sv\<rparr>)))"

fun deliver_all ::
    "consumer_env \<Rightarrow> 'd driver \<Rightarrow> event_sink \<Rightarrow> delivery list \<Rightarrow> ('d consumer, command_outcome list) io" where
  "deliver_all env drv sink [] = io_return []"
| "deliver_all env drv sink (m # ms) =
     io_bind (deliver env drv sink m) (\<lambda>out.
     io_bind (deliver_all env drv sink ms) (\<lambda>outs.
     io_return (case out of None \<Rightarrow> outs | Some out \<Rightarrow> out # outs)))"

definition lost_consumer :: "py_error \<Rightarrow> bool" where
  "lost_consumer e = (e = NatsError ''NotFoundError'' \<or> e = NatsError ''ServiceUnavailableError'')"

definition drain_once ::
    "consumer_env \<Rightarrow> 'd driver \<Rightarrow> event_sink \<Rightarrow> nat \<Rightarrow> seconds \<Rightarrow> ('d consumer, command_outcome list) io" where
  "drain_once env drv sink batch wait s =
     (if \<not> co_subscribed s
      then case co_heal_cause s of
             None \<Rightarrow> (Inl (RuntimeError ''not subscribed''), s)
           | Some cause \<Rightarrow> io_bind (heal (ce_nats env) cause) (\<lambda>_. io_return []) s
      else case ask (ce_nats env) (Fetch batch wait) s of
             (Inl (TimeoutError t), s) \<Rightarrow> (Inr [], s)
           | (Inl e, s) \<Rightarrow>
               if lost_consumer e then io_bind (heal (ce_nats env) e) (\<lambda>_. io_return []) s else (Inl e, s)
           | (Inr r, s) \<Rightarrow>
               deliver_all env drv sink (case r of Deliveries ms \<Rightarrow> ms | _ \<Rightarrow> []) s)"

text \<open>The heartbeat subscription's callback: an undecodable beat is dropped.\<close>

definition on_heartbeat_message :: "heartbeat_message result \<Rightarrow> 'd supervisor \<Rightarrow> 'd supervisor" where
  "on_heartbeat_message payload sv = (case payload of Inl e \<Rightarrow> sv | Inr b \<Rightarrow> sup_heartbeat sv)"

text \<open>The core subscriptions, live assignments and one component's beats.\<close>

definition spine_watch_assignments :: "nats \<Rightarrow> ('a spine_scheme, unit) io" where
  "spine_watch_assignments nats = spine_publish nats (Inr (all_of ''assignment'')) CoreSubscribe"

definition spine_subscribe_heartbeats :: "nats \<Rightarrow> string \<Rightarrow> ('a spine_scheme, unit) io" where
  "spine_subscribe_heartbeats nats component = spine_publish nats (Subjects.heartbeat component) CoreSubscribe"

definition spine_close :: "('a spine_scheme, unit) io" where
  "spine_close s = (Inr (), s\<lparr>sp_connected := False\<rparr>)"

end
