(* ===== verification/Consumer.thy ===== *)
theory Consumer
  imports Spine
begin

text \<open>
  What the command consumer promises, whatever the broker answers: every message is settled
  once, an expired one never actuates, and a lost consumer comes back or gives up.
\<close>

section \<open>What a call leaves in the log\<close>

fun is_settlement :: "broker_call \<Rightarrow> bool" where
  "is_settlement (Ack _) = True"
| "is_settlement (Nak _ _) = True"
| "is_settlement (Term _) = True"
| "is_settlement _ = False"

definition settlements :: "broker_call list \<Rightarrow> broker_call list" where
  "settlements = filter is_settlement"

lemma settlements_simps [simp]:
  "settlements [] = []" "settlements (xs @ ys) = settlements xs @ settlements ys"
  "settlements (c # cs) = (if is_settlement c then c # settlements cs else settlements cs)"
  by (simp_all add: settlements_def)

text \<open>The broker's answers to acks, naks and terms; and nothing is cancelled meanwhile.\<close>

definition settles_ok :: "nats \<Rightarrow> bool" where
  "settles_ok nats = (\<forall>past call. is_settlement call \<longrightarrow> isOk (nats past call))"

definition never_cancels :: "nats \<Rightarrow> 'd driver \<Rightarrow> event_sink \<Rightarrow> bool" where
  "never_cancels nats drv sink =
     ((\<forall>past call. nats past call \<noteq> Inl CancelledError) \<and> (\<forall>l d. fst (drv_apply drv l d) \<noteq> Inl CancelledError)
      \<and> (\<forall>d. fst (drv_read_back drv d) \<noteq> Inl CancelledError) \<and> (\<forall>l. drv_effective drv l \<noteq> Inl CancelledError)
      \<and> (\<forall>ev. sink ev \<noteq> SinkRaises CancelledError))"

lemma req_simps: "req nats call s =
    (case nats (sp_log s) call of Inl e \<Rightarrow> Inl e | Inr _ \<Rightarrow> Inr (), s\<lparr>sp_log := sp_log s @ [call]\<rparr>)"
  by (simp add: req_def ask_def io_bind_def io_return_def split: sum.split)

lemma subjects_not_cancelled [simp]:
  "Subjects.audit k \<noteq> Inl CancelledError" "Subjects.state k \<noteq> Inl CancelledError"
  by (simp_all add: Subjects.audit_def Subjects.state_def one_token_subject_def validate_token_def)

lemma spine_publish_cases:
  assumes "spine_publish nats subj call s = (r, s')"
  obtains (quiet) "s' = s" "r \<noteq> Inr ()" "r = Inl CancelledError \<Longrightarrow> subj = Inl CancelledError"
  | (sent) x where "subj = Inr x" "s' = s\<lparr>sp_log := sp_log s @ [call x]\<rparr>"
      "r = Inl CancelledError \<Longrightarrow> nats (sp_log s) (call x) = Inl CancelledError"
  using assms by (auto simp: spine_publish_def need_connection_def io_bind_def io_result_def req_simps
      split: if_splits sum.splits)

text \<open>A swallowed publish of something that settles nothing.\<close>

lemma swallow_publish:
  assumes "\<And>past call. nats past call \<noteq> Inl CancelledError" "subj \<noteq> Inl CancelledError"
    and "\<And>x. \<not> is_settlement (call x)"
  shows "\<exists>cs. swallow (spine_publish nats subj call) s = (Inr (), s\<lparr>sp_log := sp_log s @ cs\<rparr>) \<and> settlements cs = []"
proof -
  obtain r s' where p: "spine_publish nats subj call s = (r, s')" by fastforce
  then show ?thesis
  proof (cases rule: spine_publish_cases)
    case quiet
    with p assms(2) show ?thesis
      by (intro exI [of _ "[]"]) (auto simp: swallow_def split: sum.split)
  next
    case (sent x)
    with p assms show ?thesis
      by (intro exI [of _ "[call x]"]) (auto simp: swallow_def split: sum.split)
  qed
qed

lemma applied_state_not_cancelled: "applied_state env c l \<noteq> Inl CancelledError"
proof
  assume "applied_state env c l = Inl CancelledError"
  from validated_Inl [OF this [unfolded applied_state_def validate_actuator_state_def]]
  show False by (auto simp: message_guards_def)
qed

section \<open>One message\<close>

text \<open>How a message is settled, by what it was and what came of it.\<close>

fun settled :: "delivery \<Rightarrow> command_outcome option \<Rightarrow> broker_call \<Rightarrow> bool" where
  "settled m (Some Applied) v = (isOk (dl_command m) \<and> v = Ack (dl_id m))"
| "settled m (Some _) v = (isOk (dl_command m) \<and> v = Term (dl_id m))"
| "settled m None v = (v = (if isOk (dl_command m) then Nak (dl_id m) 1 else Term (dl_id m)))"

lemma req_settles:
  assumes "settles_ok nats" "is_settlement call"
  shows "req nats call s = (Inr (), s\<lparr>sp_log := sp_log s @ [call]\<rparr>)"
proof -
  from assms obtain r where "nats (sp_log s) call = Inr r" unfolding settles_ok_def isOk_iff by blast
  then show ?thesis by (simp add: req_simps)
qed

lemma consumer_audit_quiet:
  assumes "never_cancels (ce_nats env) drv sink"
  shows "\<exists>cs. consumer_audit env ev s = (Inr (), s\<lparr>sp_log := sp_log s @ cs\<rparr>) \<and> settlements cs = []"
  unfolding consumer_audit_def spine_publish_audit_def
  by (rule swallow_publish) (use assms in \<open>simp_all add: never_cancels_def\<close>)

lemma swallow_bind:
  "swallow (io_bind (io_result r) f) s =
     (case r of Inl e \<Rightarrow> (if e = CancelledError then Inl e else Inr (), s) | Inr x \<Rightarrow> swallow (f x) s)"
  by (simp add: swallow_def io_bind_def io_result_def split: sum.split)

lemma publish_applied_quiet:
  assumes "never_cancels (ce_nats env) drv sink"
  shows "\<exists>cs sv. publish_applied_state env drv c s = (Inr (), s\<lparr>co_sup := sv, sp_log := sp_log s @ cs\<rparr>) \<and> settlements cs = []"
proof -
  obtain r sv where l: "applied_level drv c (co_sup s) = (r, sv)" by fastforce
  have "\<exists>l. r = Inr l"
  proof (cases "guard_of (co_sup s) (ac_actuator_id c)")
    case None
    with l show ?thesis by (auto simp: applied_level_def)
  next
    case (Some g)
    obtain x d where x: "drv_read_back drv (g_device g) = (x, d)" by fastforce
    then have "x \<noteq> Inl CancelledError" using assms by (auto simp: never_cancels_def dest: spec [of _ "g_device g"])
    show ?thesis
    proof (cases x)
      case (Inl e)
      with Some x l \<open>x \<noteq> Inl CancelledError\<close> show ?thesis by (auto simp: applied_level_def)
    next
      case (Inr seen)
      show ?thesis
      proof (cases seen)
        case None
        with Some x l Inr have "r = Inr (case drv_effective drv (ac_level c) of Inr l \<Rightarrow> l | Inl e \<Rightarrow> ac_level c)"
          by (simp add: applied_level_def)
        then show ?thesis by (rule exI)
      qed (use Some x l Inr in \<open>auto simp: applied_level_def\<close>)
    qed
  qed
  then obtain l where l': "applied_level drv c (co_sup s) = (Inr l, sv)" using l by auto
  have quiet: "\<exists>cs. swallow (spine_publish_state (ce_nats env) st) (s\<lparr>co_sup := sv\<rparr>)
      = (Inr (), s\<lparr>co_sup := sv, sp_log := sp_log s @ cs\<rparr>) \<and> settlements cs = []" for st
  proof -
    have "\<exists>cs. swallow (spine_publish_state (ce_nats env) st) (s\<lparr>co_sup := sv\<rparr>)
      = (Inr (), (s\<lparr>co_sup := sv\<rparr>)\<lparr>sp_log := sp_log (s\<lparr>co_sup := sv\<rparr>) @ cs\<rparr>) \<and> settlements cs = []"
      unfolding spine_publish_state_def
      by (rule swallow_publish) (use assms in \<open>simp_all add: never_cancels_def\<close>)
    then show ?thesis by auto
  qed
  show ?thesis
  proof (cases "applied_state env c l")
    case (Inl e)
    with applied_state_not_cancelled [of env c l] l' show ?thesis
      by (intro exI [of _ "[]"] exI [of _ sv]) (simp add: publish_applied_state_def swallow_bind)
  next
    case (Inr st)
    from quiet [of st] obtain cs where "swallow (spine_publish_state (ce_nats env) st) (s\<lparr>co_sup := sv\<rparr>)
      = (Inr (), s\<lparr>co_sup := sv, sp_log := sp_log s @ cs\<rparr>)" "settlements cs = []" by blast
    with l' Inr show ?thesis
      by (intro exI [of _ cs] exI [of _ sv]) (simp add: publish_applied_state_def swallow_bind)
  qed
qed

lemma sup_apply_not_cancelled:
  assumes "never_cancels nats drv sink"
  shows "fst (sup_apply drv sink c sv) \<noteq> Inl CancelledError"
proof -
  have sink: "sink ev \<noteq> SinkRaises CancelledError" and dr: "fst (drv_apply drv l d) \<noteq> Inl CancelledError"
    and eff: "drv_effective drv l \<noteq> Inl CancelledError" for ev l d
    using assms by (simp_all add: never_cancels_def)
  have refuse: "fst (refuse sink aid rs dt out sv) \<noteq> Inl CancelledError"
      "fst (refuse sink aid rs dt out sv) \<noteq> Inr None" for aid rs dt out
    using sink by (auto simp: refuse_eq emit_event_def hear_def Let_def split: sink_outcome.splits sum.splits)
  have ends: "fst (sup_apply drv sink c sv) \<noteq> Inl CancelledError"
    if "fst (apply_admit drv sink c sv) \<noteq> Inl CancelledError" "fst (apply_admit drv sink c sv) \<noteq> Inr None"
    using that by (auto simp: sup_apply_def split: prod.splits sum.splits option.splits)
  show ?thesis
  proof (cases rule: admit_cases [of sv c drv sink])
    case (flying g eff)
    obtain r d where ap: "drv_apply drv (ac_level c) (g_device g) = (r, d)" by fastforce
    have "fst (sup_apply drv sink c sv) = map_sum id (\<lambda>_. Applied) r"
      using sup_apply_admitted [of drv sink c sv eff g] flying ap by simp
    moreover have "r \<noteq> Inl CancelledError" using dr [of "ac_level c" "g_device g"] ap by simp
    ultimately show ?thesis by (cases r) auto
  next
    case (naive g e)
    then show ?thesis by (intro ends) (auto dest: is_expired_error)
  next
    case (refused g e)
    then show ?thesis using eff [of "ac_level c"] by (intro ends) auto
  qed (use ends refuse in metis)+
qed

lemma deliver_settles:
  assumes "settles_ok (ce_nats env)" "never_cancels (ce_nats env) drv sink"
  shows "\<exists>out s' v. deliver env drv sink m s = (Inr out, s') \<and> settled m out v
     \<and> settlements (sp_log s') = settlements (sp_log s) @ [v]"
proof (cases "dl_command m")
  case (Inl e)
  obtain cs where "consumer_audit env (MalformedCommand (dl_subject m) e) s = (Inr (), s\<lparr>sp_log := sp_log s @ cs\<rparr>)"
      "settlements cs = []"
    using consumer_audit_quiet [OF assms(2)] by blast
  then show ?thesis
    by (simp add: deliver_def Inl io_bind_def req_settles [OF assms(1)] io_return_def isOk_iff)
next
  case (Inr c)
  obtain r sv where ap: "sup_apply drv sink c (co_sup s) = (r, sv)" by fastforce
  with sup_apply_not_cancelled [OF assms(2), of c "co_sup s"] have nc: "r \<noteq> Inl CancelledError" by simp
  show ?thesis
  proof (cases r)
    case (Inl e)
    with ap nc show ?thesis
      by (auto simp: deliver_def Inr io_bind_def req_settles [OF assms(1)] io_return_def isOk_iff)
  next
    case out: (Inr out)
    show ?thesis
    proof (cases "out = Applied")
      case True
      obtain cs sv' where "publish_applied_state env drv c (s\<lparr>co_sup := sv, sp_log := sp_log s @ [Ack (dl_id m)]\<rparr>)
          = (Inr (), s\<lparr>co_sup := sv', sp_log := sp_log s @ [Ack (dl_id m)] @ cs\<rparr>)" "settlements cs = []"
        using publish_applied_quiet [OF assms(2), of c "s\<lparr>co_sup := sv, sp_log := sp_log s @ [Ack (dl_id m)]\<rparr>"]
        by auto
      with ap out True show ?thesis
        by (simp add: deliver_def Inr io_bind_def req_settles [OF assms(1)] io_return_def isOk_iff)
    next
      case False
      obtain cs where "consumer_audit env (CommandRefused out c (ce_now env) (dl_delivered m)) (s\<lparr>co_sup := sv\<rparr>)
          = (Inr (), s\<lparr>co_sup := sv, sp_log := sp_log s @ cs\<rparr>)" "settlements cs = []"
        using consumer_audit_quiet [OF assms(2), of _ "s\<lparr>co_sup := sv\<rparr>"] by auto
      with ap out False show ?thesis
        by (cases out) (simp_all add: deliver_def settle_refusal_def Inr io_bind_def req_settles [OF assms(1)] io_return_def isOk_iff)
    qed
  qed
qed

lemma deliver_all_settles:
  assumes "settles_ok (ce_nats env)" "never_cancels (ce_nats env) drv sink"
  shows "\<exists>outs s' vs. deliver_all env drv sink ms s = (Inr (somes outs), s')
     \<and> length outs = length ms \<and> length vs = length ms
     \<and> list_all (\<lambda>(m, out, v). settled m out v) (zip ms (zip outs vs))
     \<and> settlements (sp_log s') = settlements (sp_log s) @ vs"
proof (induction ms arbitrary: s)
  case Nil
  show ?case by (intro exI [of _ "[]"] exI [of _ s]) (simp add: io_return_def)
next
  case (Cons m ms)
  obtain out s1 v where one: "deliver env drv sink m s = (Inr out, s1)" "settled m out v"
      "settlements (sp_log s1) = settlements (sp_log s) @ [v]"
    using deliver_settles [OF assms] by blast
  from Cons [of s1] obtain outs s' vs where rest: "deliver_all env drv sink ms s1 = (Inr (somes outs), s')"
      "length outs = length ms" "length vs = length ms"
      "list_all (\<lambda>(m, out, v). settled m out v) (zip ms (zip outs vs))"
      "settlements (sp_log s') = settlements (sp_log s1) @ vs" by blast
  show ?case
    by (intro exI [of _ "out # outs"] exI [of _ s'] exI [of _ "v # vs"])
      (use one rest in \<open>auto simp: io_bind_def io_return_def split: option.split\<close>)
qed

text \<open>
  C28. Every message of a batch is settled, once and in order. Whatever the driver and the
  interlocks answer and however the audit and state publishes fail, as long as the broker
  takes acks, naks and terms a drain returns normally: a malformed message is terminated, a
  driver fault is naked for redelivery in a second, a refusal is terminated and only an
  applied command is acked.
\<close>

theorem batch_is_settled:
  assumes "settles_ok (ce_nats env)" "never_cancels (ce_nats env) drv sink"
    and "co_subscribed s" "ce_nats env (sp_log s) (Fetch batch wait) = Inr (Deliveries ms)"
  shows "\<exists>outs s' vs. drain_once env drv sink batch wait s = (Inr (somes outs), s')
     \<and> length outs = length ms \<and> length vs = length ms
     \<and> list_all (\<lambda>(m, out, v). settled m out v) (zip ms (zip outs vs))
     \<and> settlements (sp_log s') = settlements (sp_log s) @ vs"
proof -
  have "drain_once env drv sink batch wait s = deliver_all env drv sink ms (s\<lparr>sp_log := sp_log s @ [Fetch batch wait]\<rparr>)"
    using assms(3,4) by (simp add: drain_once_def ask_def)
  with deliver_all_settles [OF assms(1,2), of ms "s\<lparr>sp_log := sp_log s @ [Fetch batch wait]\<rparr>"]
  show ?thesis by simp
qed

section \<open>An expired redelivery\<close>

text \<open>
  C29. An expired command never actuates and never vanishes. Whatever actuator it names and
  whatever the interlocks hold, delivering it (again) leaves every device and latch as it
  was, publishes its refusal for the audit and terminates the message.
\<close>

theorem expired_redelivery_never_actuates:
  assumes "dl_command m = Inr c" "sv_now (co_sup s) = Aware now" "ac_expires_at c \<le> now"
    and "\<forall>ev. \<exists>b. sink ev = SinkCompletes b" "sp_connected s" "settles_ok (ce_nats env)"
    and "\<And>past call. ce_nats env past call \<noteq> Inl CancelledError"
  shows "\<exists>out s' subj. deliver env drv sink m s = (Inr (Some out), s') \<and> out \<noteq> Applied
     \<and> guard_of (co_sup s') = guard_of (co_sup s)
     \<and> sp_log s' = sp_log s @ [StreamPublish subj (PAudit (ce_fresh env)
           (CommandRefused out c (ce_now env) (dl_delivered m))) (Some (ce_fresh env)), Term (dl_id m)]"
proof -
  obtain out sv where refused: "apply_admit drv sink c (co_sup s) = (Inr (Some out), sv)" "out \<noteq> Applied"
      "guard_of sv = guard_of (co_sup s)"
  proof (cases rule: admit_cases [of "co_sup s" c drv sink])
    case unknown
    with refuse_total [OF assms(4)] that show thesis by (metis command_outcome.distinct(7))
  next
    case clock
    with refuse_total [OF assms(4)] that show thesis by (metis command_outcome.distinct(5))
  next
    case expired
    with refuse_total [OF assms(4)] that show thesis by (metis command_outcome.distinct(1))
  qed (use assms(2,3) in simp_all)
  then have ap: "sup_apply drv sink c (co_sup s) = (Inr out, sv)" by (simp add: sup_apply_def)
  obtain subj where subj: "Subjects.audit ''command'' = Inr subj"
    by (simp add: Subjects.audit_def one_token_subject_def validate_token_def token_re_match_def
        token_body_def lower_alnum_def token_chars_def)
  let ?call = "StreamPublish subj (PAudit (ce_fresh env) (CommandRefused out c (ce_now env) (dl_delivered m)))
    (Some (ce_fresh env))"
  have "ce_nats env (sp_log s) ?call \<noteq> Inl CancelledError" by (rule assms(7))
  then have au: "consumer_audit env (CommandRefused out c (ce_now env) (dl_delivered m)) (s\<lparr>co_sup := sv\<rparr>)
      = (Inr (), s\<lparr>co_sup := sv, sp_log := sp_log s @ [?call]\<rparr>)"
    by (auto simp: consumer_audit_def swallow_def spine_publish_audit_def spine_publish_def subj assms(5)
        need_connection_def io_bind_def io_result_def req_simps split: sum.split)
  have "deliver env drv sink m s = (Inr (Some out), s\<lparr>co_sup := sv, sp_log := sp_log s @ [?call, Term (dl_id m)]\<rparr>)"
    using refused(2) by (simp add: deliver_def assms(1) ap settle_refusal_def io_bind_def au
        req_settles [OF assms(6)] io_return_def)
  with refused(2,3) show ?thesis by auto
qed

section \<open>Healing ends\<close>

fun slept :: "broker_call list \<Rightarrow> seconds" where
  "slept [] = 0"
| "slept (Pause t # cs) = t + slept cs"
| "slept (_ # cs) = slept cs"

lemma slept_append [simp]: "slept (xs @ ys) = slept xs + slept ys"
  by (induction xs rule: slept.induct) auto

text \<open>A call that only adds to the log, and does not sleep.\<close>

definition only_asks :: "('a spine_scheme, unit) io \<Rightarrow> bool" where
  "only_asks m = (\<forall>s. \<exists>cs. snd (m s) = s\<lparr>sp_log := sp_log s @ cs\<rparr> \<and> slept cs = 0)"

lemma only_asks_nothing: "(\<And>s. snd (m s) = s) \<Longrightarrow> only_asks m"
  unfolding only_asks_def by (intro allI exI [of _ "[]"]) simp

lemma only_asks_req:
  assumes "\<And>t. call \<noteq> Pause t"
  shows "only_asks (req nats call)"
proof -
  have "slept [call] = 0" using assms by (cases call) auto
  then show ?thesis unfolding only_asks_def by (intro allI exI [of _ "[call]"]) (simp add: req_simps)
qed

lemma only_asks_bind:
  assumes "only_asks m" "only_asks n"
  shows "only_asks (io_bind m (\<lambda>_. n))"
  unfolding only_asks_def
proof
  fix s
  obtain r s1 where m: "m s = (r, s1)" by fastforce
  with assms(1) obtain cs where cs: "s1 = s\<lparr>sp_log := sp_log s @ cs\<rparr>" "slept cs = 0"
    unfolding only_asks_def by (metis snd_conv)
  show "\<exists>cs. snd (io_bind m (\<lambda>_. n) s) = s\<lparr>sp_log := sp_log s @ cs\<rparr> \<and> slept cs = 0"
  proof (cases r)
    case (Inl e)
    with m cs show ?thesis by (intro exI [of _ cs]) (simp add: io_bind_def)
  next
    case (Inr u)
    from assms(2) obtain ds where "snd (n s1) = s1\<lparr>sp_log := sp_log s1 @ ds\<rparr>" "slept ds = 0"
      unfolding only_asks_def by blast
    with m cs Inr show ?thesis by (intro exI [of _ "cs @ ds"]) (simp add: io_bind_def)
  qed
qed

lemma provision_asks: "only_asks (provision nats)"
proof -
  have one: "only_asks (provision_one nats name)" for name
  proof -
    have "only_asks (\<lambda>s. case req nats (AddStream name) s of
         (Inl e, s) \<Rightarrow> if e = NatsError ''BadRequestError'' then req nats (UpdateStream name) s else (Inl e, s)
       | (Inr u, s) \<Rightarrow> (Inr (), s))"
      unfolding only_asks_def
    proof
      fix s
      show "\<exists>cs. snd (case req nats (AddStream name) s of
         (Inl e, s) \<Rightarrow> if e = NatsError ''BadRequestError'' then req nats (UpdateStream name) s else (Inl e, s)
       | (Inr u, s) \<Rightarrow> (Inr (), s)) = s\<lparr>sp_log := sp_log s @ cs\<rparr> \<and> slept cs = 0"
        by (cases "nats (sp_log s) (AddStream name) = Inl (NatsError ''BadRequestError'')")
          (auto simp: req_simps split: sum.split intro: exI [of _ "[AddStream name]"]
            exI [of _ "[AddStream name, UpdateStream name]"])
    qed
    moreover have "only_asks (need_connection :: ('x spine_scheme, unit) io)"
      by (rule only_asks_nothing) (simp add: need_connection_def)
    ultimately show ?thesis unfolding provision_one_def by (intro only_asks_bind)
  qed
  have "only_asks (provision_all nats cs)" for cs
    by (induction cs) (auto intro: only_asks_bind one only_asks_nothing simp: io_return_def)
  then show ?thesis by (simp add: provision_def)
qed

lemma heal_cases:
  assumes "heal nats cause s = (r, s')" "\<not> co_subscribed s" "co_heal_attempts s \<le> MAX_HEAL_ATTEMPTS"
  obtains (gave_up) "r = Inl (ConsumerLostError ''hardware-io'')" "co_heal_attempts s = MAX_HEAL_ATTEMPTS"
      "sp_log s' = sp_log s"
  | (cancelled) "r = Inl CancelledError" "co_heal_attempts s < MAX_HEAL_ATTEMPTS"
      "slept (sp_log s') = slept (sp_log s) + HEAL_BACKOFF_S * 2 ^ co_heal_attempts s"
  | (recovered) "r = Inr ()" "co_heal_attempts s < MAX_HEAL_ATTEMPTS"
      "co_subscribed s'" "co_heal_attempts s' = 0" "co_heal_cause s' = None"
      "slept (sp_log s') = slept (sp_log s) + HEAL_BACKOFF_S * 2 ^ co_heal_attempts s"
  | (again) "r = Inr ()" "co_heal_attempts s < MAX_HEAL_ATTEMPTS" "\<not> co_subscribed s'"
      "co_heal_attempts s' = Suc (co_heal_attempts s)" "co_heal_cause s' = Some cause"
      "slept (sp_log s') = slept (sp_log s) + HEAL_BACKOFF_S * 2 ^ co_heal_attempts s"
proof (cases "co_heal_attempts s = MAX_HEAL_ATTEMPTS")
  case True
  with assms(1) show thesis by (intro gave_up) (auto simp: heal_def Let_def)
next
  case False
  with assms(3) have less: "co_heal_attempts s < MAX_HEAL_ATTEMPTS" by simp
  let ?s1 = "s\<lparr>co_heal_attempts := Suc (co_heal_attempts s), co_subscribed := False, co_heal_cause := Some cause,
    sp_log := sp_log s @ [Pause (HEAL_BACKOFF_S * 2 ^ co_heal_attempts s)]\<rparr>"
  obtain p s2 where p: "provision nats ?s1 = (p, s2)" by fastforce
  with provision_asks obtain cs where cs: "s2 = ?s1\<lparr>sp_log := sp_log ?s1 @ cs\<rparr>" "slept cs = 0"
    unfolding only_asks_def by (metis snd_conv)
  obtain q s3 where q: "io_bind (provision nats) (\<lambda>_. subscribe nats) ?s1 = (q, s3)" by fastforce
  have frame: "(q = Inr () \<longleftrightarrow> co_subscribed s3) \<and> co_heal_attempts s3 = Suc (co_heal_attempts s)
      \<and> co_heal_cause s3 = Some cause \<and> slept (sp_log s3) = slept (sp_log ?s1)"
    using q cs by (cases p) (auto simp: io_bind_def p subscribe_def need_connection_def req_simps
        split: sum.splits)
  have h: "heal nats cause s = (case q of Inl e \<Rightarrow> (if e = CancelledError then Inl e else Inr (), s3)
      | Inr u \<Rightarrow> (Inr (), s3\<lparr>co_heal_attempts := 0, co_heal_cause := None\<rparr>))"
    using less q by (cases q) (simp_all add: heal_def Let_def)
  show thesis
  proof (cases q)
    case (Inl e)
    with h assms(1) frame less show thesis
      by (cases "e = CancelledError") (auto intro: cancelled again)
  next
    case (Inr u)
    with h assms(1) frame less show thesis by (intro recovered) auto
  qed
qed

text \<open>Drains of a lost consumer, until it is back.\<close>

fun drain_lost ::
    "consumer_env list \<Rightarrow> 'd driver \<Rightarrow> event_sink \<Rightarrow> nat \<Rightarrow> seconds \<Rightarrow> ('d consumer, unit) io" where
  "drain_lost [] drv sink batch wait s = (Inr (), s)"
| "drain_lost (env # envs) drv sink batch wait s =
     (if co_subscribed s then (Inr (), s)
      else io_bind (drain_once env drv sink batch wait) (\<lambda>_. drain_lost envs drv sink batch wait) s)"

lemma drain_lost_bound:
  assumes "\<not> co_subscribed s" "co_heal_cause s \<noteq> None"
    and "length envs + co_heal_attempts s = Suc MAX_HEAL_ATTEMPTS" "co_heal_attempts s \<le> MAX_HEAL_ATTEMPTS"
    and "drain_lost envs drv sink batch wait s = (r, s')"
  shows "(r \<in> {Inl (ConsumerLostError ''hardware-io''), Inl CancelledError}
      \<or> r = Inr () \<and> co_subscribed s' \<and> co_heal_attempts s' = 0 \<and> co_heal_cause s' = None)
    \<and> slept (sp_log s') \<le> slept (sp_log s) + HEAL_BACKOFF_S * (2 ^ MAX_HEAL_ATTEMPTS - 2 ^ co_heal_attempts s)"
  using assms
proof (induction envs arbitrary: s)
  case Nil
  then show ?case by simp
next
  case (Cons env envs)
  obtain cause where cause: "co_heal_cause s = Some cause" using Cons.prems(2) by blast
  obtain h s1 where h: "heal (ce_nats env) cause s = (h, s1)" by fastforce
  have "drain_lost (env # envs) drv sink batch wait s =
      (case h of Inl e \<Rightarrow> (Inl e, s1) | Inr u \<Rightarrow> drain_lost envs drv sink batch wait s1)"
    using Cons.prems(1) cause h by (cases h) (simp_all add: drain_once_def io_bind_def io_return_def)
  with Cons.prems(5) have run: "(r, s') =
      (case h of Inl e \<Rightarrow> (Inl e, s1) | Inr u \<Rightarrow> drain_lost envs drv sink batch wait s1)" by simp
  have pos: "(0 :: rat) \<le> HEAL_BACKOFF_S" by (simp add: HEAL_BACKOFF_S_def)
  have step: "HEAL_BACKOFF_S * 2 ^ n + HEAL_BACKOFF_S * (2 ^ MAX_HEAL_ATTEMPTS - 2 ^ Suc n)
      = HEAL_BACKOFF_S * (2 ^ MAX_HEAL_ATTEMPTS - 2 ^ n)" for n
    by (simp add: algebra_simps)
  have left: "0 \<le> HEAL_BACKOFF_S * (2 ^ MAX_HEAL_ATTEMPTS - 2 ^ Suc n)" if "n < MAX_HEAL_ATTEMPTS" for n
  proof -
    have "(2 :: rat) ^ Suc n \<le> 2 ^ MAX_HEAL_ATTEMPTS" using that by (intro power_increasing) simp_all
    with pos show ?thesis by simp
  qed
  from h Cons.prems(1,4) show ?case
  proof (cases rule: heal_cases)
    case gave_up
    with run pos show ?thesis by simp
  next
    case cancelled
    with run step [of "co_heal_attempts s"] left [of "co_heal_attempts s"] show ?thesis by simp
  next
    case recovered
    have "drain_lost envs drv sink batch wait s1 = (Inr (), s1)" using recovered(3) by (cases envs) simp_all
    with run recovered step [of "co_heal_attempts s"] left [of "co_heal_attempts s"] show ?thesis by simp
  next
    case again
    from Cons.IH [of s1] again Cons.prems(3) run step [of "co_heal_attempts s"] show ?thesis by simp
  qed
qed


section \<open>Witnesses\<close>

text \<open>A broker that takes every settlement and refuses every publish.\<close>

definition deaf_broker :: "delivery list \<Rightarrow> nats" where
  "deaf_broker ms past call =
     (case call of Fetch _ _ \<Rightarrow> Inr (Deliveries ms) | StreamPublish _ _ _ \<Rightarrow> Inl (TimeoutError ''nats'') | _ \<Rightarrow> Inr Done)"

definition blue_consumer :: "level consumer" where
  "blue_consumer = \<lparr>sp_connected = True, sp_log = [], co_sup = blue_sup (PwmLevel 0), co_subscribed = True,
     co_heal_attempts = 0, co_heal_cause = None\<rparr>"

definition two_messages :: "delivery list" where
  "two_messages =
     [\<lparr>dl_id = 1, dl_subject = ''bellasreef.cmd.pwm.blue'', dl_command = Inl (ValueError ''json''), dl_delivered = 1\<rparr>,
      \<lparr>dl_id = 2, dl_subject = ''bellasreef.cmd.pwm.blue'', dl_command = Inr sample_command, dl_delivered = 1\<rparr>]"

lemma snapping_never_cancels:
  "(\<And>past call. nats past call \<noteq> Inl CancelledError) \<Longrightarrow> never_cancels nats (snapping_driver d) quiet_sink"
proof -
  have "fst (snapping_apply l x) \<noteq> Inl CancelledError" "snap_level l \<noteq> Inl CancelledError" for l x
    by (cases l; simp add: snapping_apply_def)+
  then show "(\<And>past call. nats past call \<noteq> Inl CancelledError) \<Longrightarrow> ?thesis"
    by (simp add: never_cancels_def snapping_driver_def quiet_sink_def)
qed

lemma deaf_broker_props [simp]:
  "settles_ok (deaf_broker ms)" "deaf_broker ms past call \<noteq> Inl CancelledError"
proof -
  have "isOk (deaf_broker ms past call)" if "is_settlement call" for past call
    using that by (cases call) (simp_all add: deaf_broker_def)
  then show "settles_ok (deaf_broker ms)" by (simp add: settles_ok_def)
  show "deaf_broker ms past call \<noteq> Inl CancelledError" by (cases call) (simp_all add: deaf_broker_def)
qed

theorem batch_is_settled_witness:
  "\<exists>outs s'. drain_once \<lparr>ce_nats = deaf_broker two_messages, ce_fresh = 7, ce_now = 100\<rparr> (snapping_driver 0)
       quiet_sink 16 1 blue_consumer = (Inr outs, s') \<and> length (settlements (sp_log s')) = 2"
proof -
  let ?env = "\<lparr>ce_nats = deaf_broker two_messages, ce_fresh = 7, ce_now = 100\<rparr>"
  have "ce_nats ?env (sp_log blue_consumer) (Fetch 16 1) = Inr (Deliveries two_messages)"
    by (simp add: deaf_broker_def)
  from batch_is_settled [of ?env "snapping_driver 0" quiet_sink blue_consumer, OF _ _ _ this]
    snapping_never_cancels [of "deaf_broker two_messages" 0]
  show ?thesis by (auto simp: blue_consumer_def two_messages_def)
qed

theorem expired_redelivery_never_actuates_witness:
  "\<exists>out s'. deliver \<lparr>ce_nats = deaf_broker [], ce_fresh = 7, ce_now = 999\<rparr> (snapping_driver 0) quiet_sink
       (two_messages ! 1) (blue_consumer\<lparr>co_sup := (blue_sup (PwmLevel 0))\<lparr>sv_now := Aware 999999\<rparr>\<rparr>) = (Inr (Some out), s')
     \<and> out \<noteq> Applied \<and> last (sp_log s') = Term 2"
proof -
  let ?env = "\<lparr>ce_nats = deaf_broker [], ce_fresh = 7, ce_now = 999\<rparr>"
  let ?s = "blue_consumer\<lparr>co_sup := (blue_sup (PwmLevel 0))\<lparr>sv_now := Aware 999999\<rparr>\<rparr>"
  have "dl_command (two_messages ! 1) = Inr sample_command" by (simp add: two_messages_def)
  moreover have "sv_now (co_sup ?s) = Aware 999999" by simp
  moreover have "ac_expires_at sample_command \<le> 999999" by (simp add: sample_command_def)
  moreover have "\<forall>ev. \<exists>b. quiet_sink ev = SinkCompletes b" by (auto simp: quiet_sink_def)
  moreover have "sp_connected ?s" by (simp add: blue_consumer_def)
  ultimately show ?thesis
    using expired_redelivery_never_actuates [of "two_messages ! 1" sample_command ?s 999999 quiet_sink ?env "snapping_driver 0"]
    by (auto simp: two_messages_def)
qed

text \<open>A broker that has lost the stream and refuses everything.\<close>

definition lost_env :: consumer_env where
  "lost_env = \<lparr>ce_nats = \<lambda>_ _. Inl (NatsError ''NotFoundError''), ce_fresh = 7, ce_now = 100\<rparr>"


end
