(* ===== verification/Pca9685.thy ===== *)
theory Pca9685
  imports Drivers
begin

unbundle bit_operations_syntax

text \<open>
  The PCA9685 driver, \<open>drivers/pca9685.py\<close>. The SMBus library and the chip are not part of
  the repository: the bus is a parameter, a record of the three transactions the driver uses
  over an abstract bus state. What the chip's documentation promises of them is the
  predicate \<open>pca9685_bus\<close>, a hypothesis of the theorems; \<open>register_file\<close> is a bus that keeps
  it and runs the witnesses.
\<close>

section \<open>Registers and constants\<close>

definition MODE1 :: nat where "MODE1 = 0x00"
definition MODE2 :: nat where "MODE2 = 0x01"
definition LED0_ON_L :: nat where "LED0_ON_L = 0x06"
definition ALL_LED_ON_L :: nat where "ALL_LED_ON_L = 0xFA"
definition PRE_SCALE :: nat where "PRE_SCALE = 0xFE"

definition M1_RESTART :: int where "M1_RESTART = 0x80"
definition M1_AI :: int where "M1_AI = 0x20"
definition M1_SLEEP :: int where "M1_SLEEP = 0x10"
definition M1_ALLCALL :: int where "M1_ALLCALL = 0x01"
definition M2_INVRT :: int where "M2_INVRT = 0x10"
definition M2_OUTDRV :: int where "M2_OUTDRV = 0x04"

definition FULL :: int where "FULL = 0x10"
definition CHANNELS :: int where "CHANNELS = 16"
definition COUNTS :: int where "COUNTS = 4096"
definition OPEN_DRAIN :: bool where "OPEN_DRAIN = False"
definition INVRT_ON :: bool where "INVRT_ON = False"
definition PCA9685_OSC_HZ :: int where "PCA9685_OSC_HZ = 26770000"

definition PCA9685_PRE_SCALE :: int where
  "PCA9685_PRE_SCALE = py_round (of_int PCA9685_OSC_HZ / (4096 * 500)) - 1"

lemmas pca_regs = MODE1_def MODE2_def LED0_ON_L_def ALL_LED_ON_L_def PRE_SCALE_def
lemmas pca_bits = M1_RESTART_def M1_AI_def M1_SLEEP_def M1_ALLCALL_def M2_INVRT_def M2_OUTDRV_def

lemma PRE_SCALE_value [simp]: "PCA9685_PRE_SCALE = 12"
proof -
  have "py_round (of_int PCA9685_OSC_HZ / (4096 * 500)) = 13"
    by (rule py_round_unique) (simp_all add: PCA9685_OSC_HZ_def)
  then show ?thesis by (simp add: PCA9685_PRE_SCALE_def)
qed

section \<open>The bus\<close>

record 'b i2c_bus =
  read_byte_data :: "int \<Rightarrow> nat \<Rightarrow> ('b, int) io"
  write_byte_data :: "int \<Rightarrow> nat \<Rightarrow> int \<Rightarrow> ('b, unit) io"
  write_i2c_block_data :: "int \<Rightarrow> nat \<Rightarrow> int list \<Rightarrow> ('b, unit) io"

section \<open>The duty mapping\<close>

definition duty_to_counts :: "duty \<Rightarrow> int \<times> int" where
  "duty_to_counts d =
     (let snapped = snap_duty d
      in if snapped \<le> 0 then (0, push_bit 8 FULL)
         else if 1 \<le> snapped then (push_bit 8 FULL, 0)
         else (0, min (py_round (snapped * of_int COUNTS)) (COUNTS - 1)))"

section \<open>One chip\<close>

text \<open>The constructor's arguments, and the attributes that change.\<close>

record 'b pca_config =
  pc_bus :: "'b i2c_bus"
  pc_address :: int
  pc_bus_no :: int

record 'b pca_device =
  pd_bus :: 'b
  pd_initialised :: bool
  pd_pre_scale_read_back :: "int option"
  pd_initialised_at :: "instant option"

definition on_bus :: "('b, 'a) io \<Rightarrow> ('b pca_device, 'a) io" where
  "on_bus m d = (case m (pd_bus d) of (r, b) \<Rightarrow> (r, d\<lparr>pd_bus := b\<rparr>))"

definition pca_read :: "'b pca_config \<Rightarrow> nat \<Rightarrow> ('b pca_device, int) io" where
  "pca_read c reg = on_bus (read_byte_data (pc_bus c) (pc_address c) reg)"

definition pca_write :: "'b pca_config \<Rightarrow> nat \<Rightarrow> int \<Rightarrow> ('b pca_device, unit) io" where
  "pca_write c reg v = on_bus (write_byte_data (pc_bus c) (pc_address c) reg v)"

definition pca_write_block :: "'b pca_config \<Rightarrow> nat \<Rightarrow> int list \<Rightarrow> ('b pca_device, unit) io" where
  "pca_write_block c reg vs = on_bus (write_i2c_block_data (pc_bus c) (pc_address c) reg vs)"

definition all_off :: "'b pca_config \<Rightarrow> ('b pca_device, unit) io" where
  "all_off c = pca_write_block c ALL_LED_ON_L [0x00, 0x00, 0x00, FULL]"

definition write_channel :: "'b pca_config \<Rightarrow> int \<Rightarrow> duty \<Rightarrow> ('b pca_device, unit) io" where
  "write_channel c channel d =
     (if \<not> (0 \<le> channel \<and> channel < CHANNELS) then io_fail (ValueError ''channel out of range'')
      else case duty_to_counts d of
        (on, off) \<Rightarrow> pca_write_block c (LED0_ON_L + 4 * nat channel)
          [on AND 0xFF, drop_bit 8 on AND 0xFF, off AND 0xFF, drop_bit 8 off AND 0xFF])"

definition initialise_sync :: "'b pca_config \<Rightarrow> ('b pca_device, unit) io" where
  "initialise_sync c =
     io_bind (all_off c) (\<lambda>_.
     io_bind (pca_read c MODE1) (\<lambda>mode1.
     io_bind (pca_write c MODE1 ((mode1 AND NOT M1_RESTART) OR M1_SLEEP)) (\<lambda>_.
     io_bind (pca_write c PRE_SCALE PCA9685_PRE_SCALE) (\<lambda>_.
     io_bind (pca_read c PRE_SCALE) (\<lambda>read_back.
     if read_back \<noteq> PCA9685_PRE_SCALE then io_fail (RuntimeError ''PRE_SCALE readback'')
     else (\<lambda>d.
       io_bind (pca_read c MODE2) (\<lambda>mode2.
       let mode2 = (if OPEN_DRAIN then mode2 AND NOT M2_OUTDRV else mode2 OR M2_OUTDRV);
           mode2 = (if INVRT_ON then mode2 OR M2_INVRT else mode2 AND NOT M2_INVRT);
           awake = (mode1 AND NOT M1_SLEEP) OR M1_AI OR M1_ALLCALL
       in io_bind (pca_write c MODE2 mode2) (\<lambda>_.
          io_bind (pca_write c MODE1 awake) (\<lambda>_.
          pca_write c MODE1 (awake OR M1_RESTART)))) (d\<lparr>pd_pre_scale_read_back := Some read_back\<rparr>)))))))"

definition ensure_initialised :: "'b pca_config \<Rightarrow> instant \<Rightarrow> ('b pca_device, unit) io" where
  "ensure_initialised c now =
     (\<lambda>d. if pd_initialised d then (Inr (), d)
          else case initialise_sync c d of
            (Inl e, d) \<Rightarrow> (Inl e, d)
          | (Inr _, d) \<Rightarrow> (Inr (), d\<lparr>pd_initialised := True, pd_initialised_at := Some now\<rparr>))"

text \<open>The hexadecimal text of an address, as \<open>hex\<close> prints it.\<close>

fun hex_digits :: "nat \<Rightarrow> nat \<Rightarrow> string" where
  "hex_digits 0 n = []"
| "hex_digits (Suc k) n =
     (if n < 16 then [''0123456789abcdef'' ! n]
      else hex_digits k (n div 16) @ [''0123456789abcdef'' ! (n mod 16)])"

definition py_hex :: "int \<Rightarrow> string" where
  "py_hex n = (if n < 0 then ''-0x'' @ hex_digits (nat (- n) + 1) (nat (- n))
               else ''0x'' @ hex_digits (nat n + 1) (nat n))"

definition pca_chip_state :: "'b pca_config \<Rightarrow> uuid \<Rightarrow> instant \<Rightarrow> 'b pca_device \<Rightarrow> chip_state result" where
  "pca_chip_state c mid now d =
     (case (pd_pre_scale_read_back d, pd_initialised_at d) of
        (Some read_back, Some at_) \<Rightarrow>
          validate_chip_state
            \<lparr>schema_version = SCHEMA_VERSION, message_id = mid, emitted_at = now,
             source = ''hardware-io'', cs_hardware_source = Pca9685,
             cs_instance = py_hex (pc_address c) @ ''@'' @ py_str_int (pc_bus_no c),
             cs_initialised = True, cs_initialised_at = Some at_,
             cs_facts =
               [(''address'', SStr (py_hex (pc_address c))), (''bus'', SInt (pc_bus_no c)),
                (''pre_scale'', SInt PCA9685_PRE_SCALE),
                (''frequency_hz'', SFloat (py_round_1
                   (of_int PCA9685_OSC_HZ / (4096 * (of_int PCA9685_PRE_SCALE + 1))))),
                (''oscillator_hz'', SInt PCA9685_OSC_HZ), (''invrt'', SBool INVRT_ON),
                (''open_drain'', SBool OPEN_DRAIN), (''channels'', SInt CHANNELS),
                (''pre_scale_read_back'', SInt read_back)]\<rparr>
      | _ \<Rightarrow> Inl (RuntimeError ''chip_state() called before the chip was initialised''))"

section \<open>One channel\<close>

text \<open>\<open>apply_duty\<close> holds the chip's lock over the offloaded \<open>write_channel\<close>.\<close>

definition apply_duty :: "'b pca_config \<Rightarrow> int \<Rightarrow> duty \<Rightarrow> ('b pca_device, unit) io" where
  "apply_duty c channel d = write_channel c channel d"

fun pca_apply :: "'b pca_config \<Rightarrow> int \<Rightarrow> level \<Rightarrow> ('b pca_device, unit) io" where
  "pca_apply c channel (PwmLevel d) = apply_duty c channel d"
| "pca_apply c channel (BinaryLevel _) = io_fail (TypeError ''is a PWM channel'')"

definition pca_drive_safe :: "'b pca_config \<Rightarrow> int \<Rightarrow> ('b pca_device, unit) io" where
  "pca_drive_safe c channel = apply_duty c channel 0"

definition pca_driver :: "'b pca_config \<Rightarrow> int \<Rightarrow> instant \<Rightarrow> 'b pca_device driver" where
  "pca_driver c channel now =
     \<lparr>drv_open = ensure_initialised c now, drv_apply = pca_apply c channel,
      drv_drive_safe = pca_drive_safe c channel, drv_read_back = \<lambda>d. (Inr None, d),
      drv_effective = snap_level\<rparr>"

definition pca_registration ::
    "uuid \<Rightarrow> instant \<Rightarrow> string \<Rightarrow> string \<Rightarrow> seconds \<Rightarrow> seconds \<Rightarrow> actuator_registration result" where
  "pca_registration mid now actuator driver max_runtime heartbeat_timeout =
     light_registration mid now actuator driver (Some (PwmLevel 0)) max_runtime heartbeat_timeout"

section \<open>The duty mapping is total and exact\<close>

lemma counted_region:
  assumes "MIN_USABLE_DUTY \<le> d" "d < 1"
  shows "duty_to_counts d = (0, min (py_round (d * 4096)) 4095)"
    "328 \<le> py_round (d * 4096)"
proof -
  have s: "snap_duty d = d" using assms by (simp add: snap_duty_def)
  show "duty_to_counts d = (0, min (py_round (d * 4096)) 4095)"
    using assms by (simp add: duty_to_counts_def s COUNTS_def MIN_USABLE_DUTY_def)
  have "(327 + 17/25) \<le> d * 4096" using assms(1) by (simp add: MIN_USABLE_DUTY_def)
  then have "(of_int 327 :: rat) < of_int (py_round (d * 4096))"
    using py_round_bounds [of "d * 4096"] by (simp add: abs_if split: if_splits)
  then show "328 \<le> py_round (d * 4096)" unfolding of_int_less_iff by simp
qed

text \<open>
  Every duty has one safe register image. Below the usable band the pair is hard off, at
  1 and above it is hard on, and in between the channel switches on at count 0 and off at a
  count of 328 to 4095 that is within half a count of the duty - within one where the rounding
  would reach 4096; a larger duty never gets a smaller count.
\<close>

theorem counts_follow_duty:
  "(d < MIN_USABLE_DUTY \<longrightarrow> duty_to_counts d = (0, 4096))
   \<and> (1 \<le> d \<longrightarrow> duty_to_counts d = (4096, 0))
   \<and> (MIN_USABLE_DUTY \<le> d \<and> d < 1 \<longrightarrow>
        (\<exists>off. duty_to_counts d = (0, off) \<and> 328 \<le> off \<and> off \<le> 4095
           \<and> \<bar>of_int off - d * 4096\<bar> \<le> 1 \<and> (off < 4095 \<longrightarrow> \<bar>of_int off - d * 4096\<bar> \<le> 1/2)
           \<and> (\<forall>e off'. d \<le> e \<and> duty_to_counts e = (0, off') \<longrightarrow> off \<le> off')))"
proof (intro conjI impI)
  show "d < MIN_USABLE_DUTY \<Longrightarrow> duty_to_counts d = (0, 4096)"
    by (simp add: duty_to_counts_def snap_duty_def FULL_def push_bit_eq_mult)
  show "1 \<le> d \<Longrightarrow> duty_to_counts d = (4096, 0)"
    by (simp add: duty_to_counts_def snap_duty_def FULL_def push_bit_eq_mult MIN_USABLE_DUTY_def)
  assume "MIN_USABLE_DUTY \<le> d \<and> d < 1"
  then have d: "MIN_USABLE_DUTY \<le> d" "d < 1" by simp_all
  let ?n = "py_round (d * 4096)"
  have near: "\<bar>of_int ?n - d * 4096\<bar> \<le> 1/2" by (rule py_round_bounds)
  have "?n \<le> 4096"
    using near d(2) by linarith
  then have "\<bar>of_int (min ?n 4095) - d * 4096\<bar> \<le> 1"
    using near d(2) by (cases "?n \<le> 4095") (simp_all add: min_def abs_if split: if_splits)
  moreover have "min ?n 4095 \<le> off'" if e: "d \<le> e" "duty_to_counts e = (0, off')" for e off'
  proof (cases "e < 1")
    case True
    with e d counted_region(1) [of e] have "off' = min (py_round (e * 4096)) 4095" by simp
    with py_round_mono [of "d * 4096" "e * 4096"] e(1) show ?thesis by simp
  next
    case False
    with e(2) show ?thesis
      by (simp add: duty_to_counts_def snap_duty_def FULL_def push_bit_eq_mult MIN_USABLE_DUTY_def)
  qed
  ultimately show "\<exists>off. duty_to_counts d = (0, off) \<and> 328 \<le> off \<and> off \<le> 4095
           \<and> \<bar>of_int off - d * 4096\<bar> \<le> 1 \<and> (off < 4095 \<longrightarrow> \<bar>of_int off - d * 4096\<bar> \<le> 1/2)
           \<and> (\<forall>e off'. d \<le> e \<and> duty_to_counts e = (0, off') \<longrightarrow> off \<le> off')"
    using counted_region [OF d] near by (intro exI [of _ "min ?n 4095"]) auto
qed

theorem counts_follow_duty_witness:
  "duty_to_counts (1/2) = (0, 2048) \<and> duty_to_counts (7/100) = (0, 4096)"
proof -
  obtain off where off: "duty_to_counts (1/2) = (0, off)" "\<bar>of_int off - (1/2 :: rat) * 4096\<bar> \<le> 1/2"
    "off \<le> 4095"
  proof -
    from counts_follow_duty [of "1/2"] obtain off where
      o1: "duty_to_counts (1/2) = (0, off)" "\<bar>of_int off - (1/2 :: rat) * 4096\<bar> \<le> 1" "off \<le> 4095"
      and o2: "off < 4095 \<longrightarrow> \<bar>of_int off - (1/2 :: rat) * 4096\<bar> \<le> 1/2"
      by (auto simp: MIN_USABLE_DUTY_def)
    from o1(2) have "off < 4095" by linarith
    with o1 o2 that show ?thesis by blast
  qed
  then have "off = 2048" by linarith
  with off counts_follow_duty [of "7/100"] show ?thesis by (simp add: MIN_USABLE_DUTY_def)
qed

section \<open>What the chip's documentation promises\<close>

text \<open>
  \<open>regs b\<close> is the register file behind bus state b. A transaction that raises changed
  nothing. A byte write stores its byte, except that PRE_SCALE is only taken while SLEEP is
  set, and that RESTART reads back as it likes. A block write to a channel's registers fills
  the four of them when auto-increment is on - and puts every byte into the first register
  when it is off; a write to the ALL\_LED registers does the same to all channels.
\<close>

definition led :: "int \<Rightarrow> nat \<Rightarrow> nat" where
  "led ch k = LED0_ON_L + 4 * nat ch + k"

locale pca_bus =
  fixes c :: "'b pca_config" and regs :: "'b \<Rightarrow> nat \<Rightarrow> int"
  assumes bus_read: "\<And>r b v b'. read_byte_data (pc_bus c) (pc_address c) r b = (Inr v, b') \<Longrightarrow>
        v = regs b r \<and> regs b' = regs b"
    and bus_read_fails: "\<And>r b e b'. read_byte_data (pc_bus c) (pc_address c) r b = (Inl e, b') \<Longrightarrow>
        regs b' = regs b"
    and bus_write_fails: "\<And>r v b e b'. write_byte_data (pc_bus c) (pc_address c) r v b = (Inl e, b') \<Longrightarrow>
        regs b' = regs b"
    and bus_block_fails: "\<And>r vs b e b'. write_i2c_block_data (pc_bus c) (pc_address c) r vs b = (Inl e, b') \<Longrightarrow>
        regs b' = regs b"
    and write_mode1: "\<And>v b b'. write_byte_data (pc_bus c) (pc_address c) MODE1 v b = (Inr (), b') \<Longrightarrow>
        regs b' MODE1 AND NOT M1_RESTART = v AND NOT M1_RESTART \<and> (\<forall>r. r \<noteq> MODE1 \<longrightarrow> regs b' r = regs b r)"
    and write_mode2: "\<And>v b b'. write_byte_data (pc_bus c) (pc_address c) MODE2 v b = (Inr (), b') \<Longrightarrow>
        regs b' = (regs b)(MODE2 := v)"
    and write_pre_scale: "\<And>v b b'. write_byte_data (pc_bus c) (pc_address c) PRE_SCALE v b = (Inr (), b') \<Longrightarrow>
        regs b' = (if regs b MODE1 AND M1_SLEEP = 0 then regs b else (regs b)(PRE_SCALE := v))"
    and block_auto: "\<And>ch v0 v1 v2 v3 b b'. 0 \<le> ch \<Longrightarrow> ch < CHANNELS \<Longrightarrow> regs b MODE1 AND M1_AI \<noteq> 0 \<Longrightarrow>
        write_i2c_block_data (pc_bus c) (pc_address c) (led ch 0) [v0, v1, v2, v3] b = (Inr (), b') \<Longrightarrow>
        regs b' = (regs b)(led ch 0 := v0, led ch 1 := v1, led ch 2 := v2, led ch 3 := v3)"
    and all_auto: "\<And>v0 v1 v2 v3 b b'. regs b MODE1 AND M1_AI \<noteq> 0 \<Longrightarrow>
        write_i2c_block_data (pc_bus c) (pc_address c) ALL_LED_ON_L [v0, v1, v2, v3] b = (Inr (), b') \<Longrightarrow>
        (\<forall>ch. 0 \<le> ch \<and> ch < CHANNELS \<longrightarrow> regs b' (led ch 0) = v0 \<and> regs b' (led ch 1) = v1
            \<and> regs b' (led ch 2) = v2 \<and> regs b' (led ch 3) = v3)
        \<and> regs b' MODE1 = regs b MODE1 \<and> regs b' MODE2 = regs b MODE2 \<and> regs b' PRE_SCALE = regs b PRE_SCALE"
    and all_single: "\<And>v0 v1 v2 v3 b b'. regs b MODE1 AND M1_AI = 0 \<Longrightarrow>
        write_i2c_block_data (pc_bus c) (pc_address c) ALL_LED_ON_L [v0, v1, v2, v3] b = (Inr (), b') \<Longrightarrow>
        (\<forall>ch. 0 \<le> ch \<and> ch < CHANNELS \<longrightarrow> regs b' (led ch 0) = v3 \<and> regs b' (led ch 1) = regs b (led ch 1)
            \<and> regs b' (led ch 2) = regs b (led ch 2) \<and> regs b' (led ch 3) = regs b (led ch 3))
        \<and> regs b' MODE1 = regs b MODE1 \<and> regs b' MODE2 = regs b MODE2 \<and> regs b' PRE_SCALE = regs b PRE_SCALE"

section \<open>Initialisation\<close>

text \<open>Bits of MODE1 other than RESTART.\<close>

lemma restart_irrelevant:
  assumes "x AND NOT M1_RESTART = y AND NOT M1_RESTART"
  shows "x AND M1_SLEEP = y AND M1_SLEEP" "x AND M1_AI = y AND M1_AI"
proof -
  have "z AND m = (z AND NOT M1_RESTART) AND m" if "NOT M1_RESTART AND m = m" for z m
    using that by (simp add: and.assoc)
  moreover have "NOT M1_RESTART AND M1_SLEEP = M1_SLEEP" "NOT M1_RESTART AND M1_AI = M1_AI"
    by (simp_all add: pca_bits)
  ultimately show "x AND M1_SLEEP = y AND M1_SLEEP" "x AND M1_AI = y AND M1_AI"
    using assms by metis+
qed

lemma sleep_set: "((m AND NOT M1_RESTART) OR M1_SLEEP) AND M1_SLEEP \<noteq> 0"
  and sleep_keeps_ai: "((m AND NOT M1_RESTART) OR M1_SLEEP) AND M1_AI = m AND M1_AI"
  and awake_bits: "(((m AND NOT M1_SLEEP) OR M1_AI OR M1_ALLCALL) AND M1_SLEEP) = 0"
    "(((m AND NOT M1_SLEEP) OR M1_AI OR M1_ALLCALL) AND M1_AI) \<noteq> 0"
  and restart_bits: "(x OR M1_RESTART) AND NOT M1_RESTART = x AND NOT M1_RESTART"
  and mode2_bits: "((m OR M2_OUTDRV) AND NOT M2_INVRT) AND M2_INVRT = 0"
    "((m OR M2_OUTDRV) AND NOT M2_INVRT) AND M2_OUTDRV \<noteq> 0"
proof -
  have nz: "bit x n \<Longrightarrow> x \<noteq> 0" for x :: int and n by auto
  have b: "bit M1_SLEEP 4" "bit M1_AI 5" "\<not> bit M1_SLEEP 5" "bit M2_OUTDRV 2" "\<not> bit M2_INVRT 2"
    by (simp_all add: pca_bits bit_iff_odd)
  show "((m AND NOT M1_RESTART) OR M1_SLEEP) AND M1_SLEEP \<noteq> 0"
    by (rule nz [of _ 4]) (simp add: bit_simps b)
  show "((m AND NOT M1_RESTART) OR M1_SLEEP) AND M1_AI = m AND M1_AI"
    by (simp add: pca_bits bit.conj_disj_distrib2 and.assoc)
  show "((m AND NOT M1_SLEEP) OR M1_AI OR M1_ALLCALL) AND M1_SLEEP = 0"
    by (simp add: pca_bits bit.conj_disj_distrib2 and.assoc)
  show "((m AND NOT M1_SLEEP) OR M1_AI OR M1_ALLCALL) AND M1_AI \<noteq> 0"
    by (rule nz [of _ 5]) (simp add: bit_simps b)
  show "(x OR M1_RESTART) AND NOT M1_RESTART = x AND NOT M1_RESTART"
    by (simp add: bit.conj_disj_distrib2)
  show "((m OR M2_OUTDRV) AND NOT M2_INVRT) AND M2_INVRT = 0"
    by (simp add: and.assoc)
  show "((m OR M2_OUTDRV) AND NOT M2_INVRT) AND M2_OUTDRV \<noteq> 0"
    by (rule nz [of _ 2]) (simp add: bit_simps b)
qed

definition init_configured :: "(nat \<Rightarrow> int) \<Rightarrow> bool" where
  "init_configured r \<longleftrightarrow> r PRE_SCALE = PCA9685_PRE_SCALE
     \<and> r MODE1 AND M1_SLEEP = 0 \<and> r MODE1 AND M1_AI \<noteq> 0
     \<and> r MODE2 AND M2_OUTDRV \<noteq> 0 \<and> r MODE2 AND M2_INVRT = 0"

lemma reg_distinct [simp]:
  "MODE1 \<noteq> MODE2" "MODE2 \<noteq> MODE1" "MODE1 \<noteq> PRE_SCALE" "PRE_SCALE \<noteq> MODE1" "MODE2 \<noteq> PRE_SCALE" "PRE_SCALE \<noteq> MODE2"
  "led ch k \<noteq> MODE1" "led ch k \<noteq> MODE2" "MODE1 \<noteq> led ch k" "MODE2 \<noteq> led ch k"
  by (simp_all add: pca_regs led_def)

lemma led_not_prescale [simp]: "0 \<le> ch \<Longrightarrow> ch < CHANNELS \<Longrightarrow> k < 4 \<Longrightarrow> led ch k \<noteq> PRE_SCALE"
  by (simp add: pca_regs led_def CHANNELS_def)

lemma pca_keeps:
  "pca_read c r d = (x, d') \<Longrightarrow> pd_pre_scale_read_back d' = pd_pre_scale_read_back d"
  "pca_write c r v d = (y, d') \<Longrightarrow> pd_pre_scale_read_back d' = pd_pre_scale_read_back d"
  by (auto simp: pca_read_def pca_write_def on_bus_def split: prod.splits)

context pca_bus
begin

definition R :: "'b pca_device \<Rightarrow> nat \<Rightarrow> int" where "R d = regs (pd_bus d)"

lemma pca_read_ok: "pca_read c r d = (Inr v, d') \<Longrightarrow> v = R d r \<and> R d' = R d"
  using bus_read by (auto simp: pca_read_def on_bus_def R_def split: prod.splits)

lemma pca_write_ok: "pca_write c r v d = (Inr (), d') \<Longrightarrow>
    write_byte_data (pc_bus c) (pc_address c) r v (pd_bus d) = (Inr (), pd_bus d')"
  by (auto simp: pca_write_def on_bus_def split: prod.splits)

lemma pca_block_ok: "pca_write_block c r vs d = (Inr (), d') \<Longrightarrow>
    write_i2c_block_data (pc_bus c) (pc_address c) r vs (pd_bus d) = (Inr (), pd_bus d')"
  by (auto simp: pca_write_block_def on_bus_def split: prod.splits)

lemma all_off_frame:
  assumes "all_off c d = (Inr (), d')"
  shows "R d' MODE1 = R d MODE1" "R d' MODE2 = R d MODE2" "R d' PRE_SCALE = R d PRE_SCALE"
    and "0 \<le> ch \<Longrightarrow> ch < CHANNELS \<Longrightarrow>
      (if R d MODE1 AND M1_AI \<noteq> 0
       then R d' (led ch 0) = 0 \<and> R d' (led ch 1) = 0 \<and> R d' (led ch 2) = 0 \<and> R d' (led ch 3) = FULL
       else R d' (led ch 1) = R d (led ch 1) \<and> R d' (led ch 2) = R d (led ch 2)
          \<and> R d' (led ch 3) = R d (led ch 3))"
proof -
  note w = pca_block_ok [OF assms [unfolded all_off_def]]
  show "R d' MODE1 = R d MODE1" "R d' MODE2 = R d MODE2" "R d' PRE_SCALE = R d PRE_SCALE"
    unfolding R_def
    by (cases "regs (pd_bus d) MODE1 AND M1_AI = 0"; use all_auto [OF _ w] all_single [OF _ w] in blast)+
  show "if R d MODE1 AND M1_AI \<noteq> 0
       then R d' (led ch 0) = 0 \<and> R d' (led ch 1) = 0 \<and> R d' (led ch 2) = 0 \<and> R d' (led ch 3) = FULL
       else R d' (led ch 1) = R d (led ch 1) \<and> R d' (led ch 2) = R d (led ch 2)
          \<and> R d' (led ch 3) = R d (led ch 3)" if "0 \<le> ch" "ch < CHANNELS"
  proof (cases "R d MODE1 AND M1_AI = 0")
    case True
    with all_single [OF _ w] that show ?thesis by (simp add: R_def)
  next
    case False
    with all_auto [OF _ w] that show ?thesis by (simp add: R_def)
  qed
qed

text \<open>The seven registers of interest after the whole sequence, and what it leaves of the LEDs.\<close>

lemma initialise_sync_ok:
  assumes "initialise_sync c d = (Inr (), d')"
  shows "init_configured (R d')"
    and "pd_pre_scale_read_back d' = Some PCA9685_PRE_SCALE"
    and "0 \<le> ch \<Longrightarrow> ch < CHANNELS \<Longrightarrow>
      (if R d MODE1 AND M1_AI \<noteq> 0
       then R d' (led ch 0) = 0 \<and> R d' (led ch 1) = 0 \<and> R d' (led ch 2) = 0 \<and> R d' (led ch 3) = FULL
       else R d' (led ch 1) = R d (led ch 1) \<and> R d' (led ch 2) = R d (led ch 2)
          \<and> R d' (led ch 3) = R d (led ch 3))"
proof -
  from assms obtain d1 d2 mode1 d3 d4 d5 v where
    off: "all_off c d = (Inr (), d1)"
    and r1: "pca_read c MODE1 d1 = (Inr mode1, d2)"
    and w1: "pca_write c MODE1 ((mode1 AND NOT M1_RESTART) OR M1_SLEEP) d2 = (Inr (), d3)"
    and w2: "pca_write c PRE_SCALE PCA9685_PRE_SCALE d3 = (Inr (), d4)"
    and r2: "pca_read c PRE_SCALE d4 = (Inr v, d5)"
    and rest: "(if v \<noteq> PCA9685_PRE_SCALE then io_fail (RuntimeError ''PRE_SCALE readback'')
      else (\<lambda>d.
       io_bind (pca_read c MODE2) (\<lambda>mode2.
       let mode2 = (if OPEN_DRAIN then mode2 AND NOT M2_OUTDRV else mode2 OR M2_OUTDRV);
           mode2 = (if INVRT_ON then mode2 OR M2_INVRT else mode2 AND NOT M2_INVRT);
           awake = (mode1 AND NOT M1_SLEEP) OR M1_AI OR M1_ALLCALL
       in io_bind (pca_write c MODE2 mode2) (\<lambda>_.
          io_bind (pca_write c MODE1 awake) (\<lambda>_.
          pca_write c MODE1 (awake OR M1_RESTART)))) (d\<lparr>pd_pre_scale_read_back := Some v\<rparr>))) d5
        = (Inr (), d')"
    unfolding initialise_sync_def io_bind_Inr by auto
  have v: "v = PCA9685_PRE_SCALE" using rest by (simp add: io_fail_def split: if_splits)
  let ?d6 = "d5\<lparr>pd_pre_scale_read_back := Some v\<rparr>"
  let ?awake = "(mode1 AND NOT M1_SLEEP) OR M1_AI OR M1_ALLCALL"
  from rest v obtain mode2 d7 d8 d9 where
    r3: "pca_read c MODE2 ?d6 = (Inr mode2, d7)"
    and w3: "pca_write c MODE2 ((mode2 OR M2_OUTDRV) AND NOT M2_INVRT) d7 = (Inr (), d8)"
    and w4: "pca_write c MODE1 ?awake d8 = (Inr (), d9)"
    and w5: "pca_write c MODE1 (?awake OR M1_RESTART) d9 = (Inr (), d')"
    by (auto simp: io_bind_Inr Let_def OPEN_DRAIN_def INVRT_ON_def)
  have R6: "R ?d6 = R d5" by (simp add: R_def)
  note off = all_off_frame [OF off]
  note r1 = pca_read_ok [OF r1] and r2 = pca_read_ok [OF r2] and r3' = r3 and r3 = pca_read_ok [OF r3]
  note w1 = write_mode1 [OF pca_write_ok [OF w1], folded R_def]
  note w2 = write_pre_scale [OF pca_write_ok [OF w2], folded R_def]
  note w3' = w3 and w4' = w4 and w5' = w5
  note w3 = write_mode2 [OF pca_write_ok [OF w3], folded R_def]
  note w4 = write_mode1 [OF pca_write_ok [OF w4], folded R_def]
  note w5 = write_mode1 [OF pca_write_ok [OF w5], folded R_def]
  have asleep: "R d3 MODE1 AND M1_SLEEP \<noteq> 0"
    using restart_irrelevant(1) [OF w1 [THEN conjunct1]] sleep_set by simp
  with w2 have p4: "R d4 = (R d3)(PRE_SCALE := PCA9685_PRE_SCALE)" by simp
  have keep: "R d' r = R d1 r" if "r \<noteq> MODE1" "r \<noteq> MODE2" "r \<noteq> PRE_SCALE" for r
    using that w5 w4 w3 r3 r2 p4 w1 r1 R6 by simp
  have m1: "R d' MODE1 AND NOT M1_RESTART = ?awake AND NOT M1_RESTART"
    using w5 restart_bits [of ?awake] by simp
  have m2: "R d' MODE2 = (mode2 OR M2_OUTDRV) AND NOT M2_INVRT"
    using w5 w4 w3 by simp
  have p: "R d' PRE_SCALE = PCA9685_PRE_SCALE"
    using w5 w4 w3 r3 r2 p4 R6 by simp
  show "init_configured (R d')"
    unfolding init_configured_def using p m2 restart_irrelevant [OF m1] awake_bits mode2_bits by simp
  show "pd_pre_scale_read_back d' = Some PCA9685_PRE_SCALE"
    using pca_keeps(2) [OF w5'] pca_keeps(2) [OF w4'] pca_keeps(2) [OF w3'] pca_keeps(1) [OF r3'] v by simp
  show "if R d MODE1 AND M1_AI \<noteq> 0
       then R d' (led ch 0) = 0 \<and> R d' (led ch 1) = 0 \<and> R d' (led ch 2) = 0 \<and> R d' (led ch 3) = FULL
       else R d' (led ch 1) = R d (led ch 1) \<and> R d' (led ch 2) = R d (led ch 2)
          \<and> R d' (led ch 3) = R d (led ch 3)" if "0 \<le> ch" "ch < CHANNELS"
  proof -
    have k: "R d' (led ch k) = R d1 (led ch k)" if "k < 4" for k
      by (rule keep) (use that \<open>0 \<le> ch\<close> \<open>ch < CHANNELS\<close> in simp_all)
    show ?thesis using off(4) [OF that] k [of 0] k [of 1] k [of 2] k [of 3] by (simp del: One_nat_def)
  qed
qed

lemma prescale_taken:
  assumes w1: "pca_write c MODE1 ((mode1 AND NOT M1_RESTART) OR M1_SLEEP) d2 = (Inr (), d3)"
    and w2: "pca_write c PRE_SCALE PCA9685_PRE_SCALE d3 = (Inr (), d4)"
    and r2: "pca_read c PRE_SCALE d4 = (Inr v, d5)"
  shows "v = PCA9685_PRE_SCALE"
proof -
  note w1 = write_mode1 [OF pca_write_ok [OF w1], folded R_def]
  note w2 = write_pre_scale [OF pca_write_ok [OF w2], folded R_def]
  have "R d3 MODE1 AND M1_SLEEP \<noteq> 0"
    using restart_irrelevant(1) [OF w1 [THEN conjunct1]] sleep_set by simp
  with w2 pca_read_ok [OF r2] show ?thesis by simp
qed

lemma initialise_total:
  assumes ok: "\<And>r d. \<exists>v d'. pca_read c r d = (Inr v, d')" "\<And>r v d. \<exists>d'. pca_write c r v d = (Inr (), d')"
    "\<And>r vs d. \<exists>d'. pca_write_block c r vs d = (Inr (), d')"
  shows "\<exists>d'. initialise_sync c d = (Inr (), d')"
proof -
  obtain d1 where off: "all_off c d = (Inr (), d1)" using ok(3) unfolding all_off_def by blast
  obtain mode1 d2 where r1: "pca_read c MODE1 d1 = (Inr mode1, d2)" using ok(1) by blast
  obtain d3 where w1: "pca_write c MODE1 ((mode1 AND NOT M1_RESTART) OR M1_SLEEP) d2 = (Inr (), d3)"
    using ok(2) by blast
  obtain d4 where w2: "pca_write c PRE_SCALE PCA9685_PRE_SCALE d3 = (Inr (), d4)" using ok(2) by blast
  obtain v d5 where r2: "pca_read c PRE_SCALE d4 = (Inr v, d5)" using ok(1) by blast
  have v: "v = PCA9685_PRE_SCALE" by (rule prescale_taken [OF w1 w2 r2])
  obtain mode2 d7 where r3: "pca_read c MODE2 (d5\<lparr>pd_pre_scale_read_back := Some v\<rparr>) = (Inr mode2, d7)"
    using ok(1) by blast
  let ?awake = "(mode1 AND NOT M1_SLEEP) OR M1_AI OR M1_ALLCALL"
  obtain d8 where w3: "pca_write c MODE2 ((mode2 OR M2_OUTDRV) AND NOT M2_INVRT) d7 = (Inr (), d8)"
    using ok(2) by blast
  obtain d9 where w4: "pca_write c MODE1 ?awake d8 = (Inr (), d9)" using ok(2) by blast
  obtain d' where w5: "pca_write c MODE1 (?awake OR M1_RESTART) d9 = (Inr (), d')" using ok(2) by blast
  have "initialise_sync c d = (Inr (), d')"
    using off r1 w1 w2 r2 r3 w3 w4 w5 unfolding initialise_sync_def v
    by (simp add: io_bind_def Let_def OPEN_DRAIN_def INVRT_ON_def del: PRE_SCALE_value)
  then show ?thesis by blast
qed

end

section \<open>A channel is a safe driver\<close>

definition pca_dark :: "('b \<Rightarrow> nat \<Rightarrow> int) \<Rightarrow> int \<Rightarrow> 'b pca_device \<Rightarrow> bool" where
  "pca_dark regs channel d \<longleftrightarrow> regs (pd_bus d) (led channel 3) AND FULL \<noteq> 0"

definition pca_awake :: "('b \<Rightarrow> nat \<Rightarrow> int) \<Rightarrow> 'b pca_device \<Rightarrow> bool" where
  "pca_awake regs d \<longleftrightarrow> regs (pd_bus d) MODE1 AND M1_AI \<noteq> 0"

definition count_bytes :: "duty \<Rightarrow> int list" where
  "count_bytes d = (case duty_to_counts d of (on, off) \<Rightarrow>
     [on AND 0xFF, drop_bit 8 on AND 0xFF, off AND 0xFF, drop_bit 8 off AND 0xFF])"

lemma off_byte: "0 \<le> off \<Longrightarrow> off \<le> 4095 \<Longrightarrow> (drop_bit 8 off AND 0xFF) AND FULL = (0 :: int)"
proof -
  assume "0 \<le> off" "off \<le> 4095"
  then have "\<not> bit (drop_bit 8 off) 4" by (simp add: bit_iff_odd drop_bit_eq_div)
  then have "drop_bit 8 off AND 16 = 0" using and_exp_eq_0_iff_not_bit [of "drop_bit 8 off" 4] by simp
  then show ?thesis by (simp add: FULL_def and.assoc)
qed

lemma count_bytes_dark: "count_bytes d ! 3 AND FULL \<noteq> 0 \<longleftrightarrow> snap_duty d = 0"
proof -
  consider (low) "d < MIN_USABLE_DUTY" | (mid) "MIN_USABLE_DUTY \<le> d" "d < 1" | (high) "1 \<le> d"
    by linarith
  then show ?thesis
  proof cases
    case low
    then show ?thesis
      by (simp add: count_bytes_def duty_to_counts_def snap_duty_def FULL_def push_bit_eq_mult drop_bit_eq_div)
  next
    case mid
    with counted_region [OF mid] off_byte [of "min (py_round (d * 4096)) 4095"] show ?thesis
      by (simp add: count_bytes_def snap_duty_def MIN_USABLE_DUTY_def)
  next
    case high
    then show ?thesis
      by (simp add: count_bytes_def duty_to_counts_def snap_duty_def MIN_USABLE_DUTY_def)
  qed
qed

locale pca_channel = pca_bus c regs for c :: "'b pca_config" and regs :: "'b \<Rightarrow> nat \<Rightarrow> int" +
  fixes channel :: int and opened_at :: instant
  assumes in_range: "0 \<le> channel" "channel < CHANNELS"
begin

lemma write_channel_ok:
  assumes "write_channel c channel d dev = (Inr (), dev')" "pca_awake regs dev"
  shows "R dev' = (R dev)(led channel 0 := count_bytes d ! 0, led channel 1 := count_bytes d ! 1,
      led channel 2 := count_bytes d ! 2, led channel 3 := count_bytes d ! 3)"
proof -
  obtain on off where oo: "duty_to_counts d = (on, off)" by fastforce
  have "pca_write_block c (led channel 0) [on AND 0xFF, drop_bit 8 on AND 0xFF, off AND 0xFF,
      drop_bit 8 off AND 0xFF] dev = (Inr (), dev')"
    using assms(1) in_range by (simp add: write_channel_def oo led_def)
  from block_auto [OF in_range _ pca_block_ok [OF this]] assms(2) show ?thesis
    by (simp add: pca_awake_def R_def count_bytes_def oo)
qed

lemma write_channel_fails:
  assumes "write_channel c channel d dev = (Inl e, dev')"
  shows "R dev' = R dev"
  using assms in_range bus_block_fails
  by (auto simp: write_channel_def pca_write_block_def on_bus_def R_def split: prod.splits)

lemma write_channel_dark:
  assumes "write_channel c channel d dev = (Inr (), dev')" "pca_awake regs dev"
  shows "pca_dark regs channel dev' \<longleftrightarrow> snap_duty d = 0"
  using write_channel_ok [OF assms] count_bytes_dark [of d] by (simp add: pca_dark_def R_def)

lemma write_channel_awake:
  assumes "write_channel c channel d dev = (r, dev')" "pca_awake regs dev"
  shows "pca_awake regs dev'"
proof (cases r)
  case (Inl e)
  with write_channel_fails assms show ?thesis by (simp add: pca_awake_def R_def)
next
  case (Inr u)
  with write_channel_ok assms show ?thesis by (simp add: pca_awake_def R_def)
qed

lemma write_channel_unmoved:
  "write_channel c channel d dev = (Inl e, dev') \<Longrightarrow> pca_dark regs channel dev' = pca_dark regs channel dev"
  using write_channel_fails by (simp add: pca_dark_def R_def)

end

sublocale pca_channel \<subseteq> pca: safety_driver "pca_driver c channel opened_at" "PwmLevel 0"
    "pca_dark regs channel" "pca_awake regs"
proof
  fix l d d'
  assume "pca_awake regs d" "drv_apply (pca_driver c channel opened_at) l d = (Inr (), d')"
  then show "\<exists>e. drv_effective (pca_driver c channel opened_at) l = Inr e
      \<and> (pca_dark regs channel d' \<longleftrightarrow> e = PwmLevel 0)"
    by (cases l) (auto simp: pca_driver_def apply_duty_def io_fail_def write_channel_dark)
next
  fix l d e d'
  assume "pca_awake regs d" "drv_apply (pca_driver c channel opened_at) l d = (Inl e, d')"
  then show "pca_dark regs channel d' = pca_dark regs channel d"
    by (cases l) (auto simp: pca_driver_def apply_duty_def io_fail_def write_channel_unmoved)
next
  fix l d r d'
  assume "pca_awake regs d" "drv_apply (pca_driver c channel opened_at) l d = (r, d')"
  then show "pca_awake regs d'"
    by (cases l) (auto simp: pca_driver_def apply_duty_def io_fail_def write_channel_awake)
qed (auto simp: pca_driver_def pca_drive_safe_def apply_duty_def write_channel_dark
    write_channel_unmoved write_channel_awake)

section \<open>A register file that keeps the promises\<close>

type_synonym registers = "nat \<Rightarrow> int"

fun store_bytes :: "nat \<Rightarrow> int list \<Rightarrow> registers \<Rightarrow> registers" where
  "store_bytes r [] b = b"
| "store_bytes r (v # vs) b = store_bytes (Suc r) vs (b(r := v))"

definition is_led :: "nat \<Rightarrow> bool" where "is_led r \<longleftrightarrow> LED0_ON_L \<le> r \<and> r < LED0_ON_L + 64"

definition rf_write :: "nat \<Rightarrow> int \<Rightarrow> registers \<Rightarrow> registers" where
  "rf_write r v b =
     (if r = PRE_SCALE \<and> b MODE1 AND M1_SLEEP = 0 then b
      else if r = MODE1 then b(r := v AND NOT M1_RESTART) else b(r := v))"

definition rf_block :: "nat \<Rightarrow> int list \<Rightarrow> registers \<Rightarrow> registers" where
  "rf_block r vs b =
     (if b MODE1 AND M1_AI = 0
      then (\<lambda>x. if r = ALL_LED_ON_L \<and> is_led x \<and> (x - LED0_ON_L) mod 4 = 0 \<or> x = r then last vs else b x)
      else if r = ALL_LED_ON_L
      then (\<lambda>x. if is_led x then vs ! ((x - LED0_ON_L) mod 4) else b x)
      else store_bytes r vs b)"

definition register_file :: "registers i2c_bus" where
  "register_file =
     \<lparr>read_byte_data = \<lambda>_ r b. (Inr (b r), b),
      write_byte_data = \<lambda>_ r v b. (Inr (), rf_write r v b),
      write_i2c_block_data = \<lambda>_ r vs b. (Inr (), rf_block r vs b)\<rparr>"

definition bench_config :: "registers pca_config" where
  "bench_config = \<lparr>pc_bus = register_file, pc_address = 0x40, pc_bus_no = 1\<rparr>"

lemma led_facts:
  assumes "0 \<le> ch" "ch < CHANNELS" "k < 4"
  shows "is_led (led ch k)" "(led ch k - LED0_ON_L) mod 4 = k" "led ch k \<noteq> ALL_LED_ON_L"
  using assms by (simp_all add: is_led_def led_def CHANNELS_def pca_regs)

lemma not_led [simp]: "\<not> is_led MODE1" "\<not> is_led MODE2" "\<not> is_led PRE_SCALE"
  "MODE1 \<noteq> ALL_LED_ON_L" "MODE2 \<noteq> ALL_LED_ON_L" "PRE_SCALE \<noteq> ALL_LED_ON_L"
  by (simp_all add: is_led_def pca_regs)

interpretation bench: pca_channel bench_config "\<lambda>b. b" 0 0
proof
  fix ch v0 v1 v2 v3 b b'
  assume ch: "(0 :: int) \<le> ch" "ch < CHANNELS" and ai: "b MODE1 AND M1_AI \<noteq> 0"
    and w: "write_i2c_block_data (pc_bus bench_config) (pc_address bench_config) (led ch 0) [v0, v1, v2, v3] b
      = (Inr (), b')"
  have "led ch 1 = Suc (led ch 0)" "led ch 2 = Suc (Suc (led ch 0))" "led ch 3 = Suc (Suc (Suc (led ch 0)))"
    by (simp_all add: led_def)
  with w ai led_facts(3) [OF ch, of 0] show "b' = b(led ch 0 := v0, led ch 1 := v1, led ch 2 := v2, led ch 3 := v3)"
    by (simp add: bench_config_def register_file_def rf_block_def)
next
  fix v0 v1 v2 v3 b b'
  assume ai: "b MODE1 AND M1_AI \<noteq> 0"
    and w: "write_i2c_block_data (pc_bus bench_config) (pc_address bench_config) ALL_LED_ON_L [v0, v1, v2, v3] b
      = (Inr (), b')"
  have b': "b' = (\<lambda>x. if is_led x then [v0, v1, v2, v3] ! ((x - LED0_ON_L) mod 4) else b x)"
    using w ai by (simp add: bench_config_def register_file_def rf_block_def)
  show "(\<forall>ch. 0 \<le> ch \<and> ch < CHANNELS \<longrightarrow> b' (led ch 0) = v0 \<and> b' (led ch 1) = v1
            \<and> b' (led ch 2) = v2 \<and> b' (led ch 3) = v3)
        \<and> b' MODE1 = b MODE1 \<and> b' MODE2 = b MODE2 \<and> b' PRE_SCALE = b PRE_SCALE"
    unfolding b' by (auto simp: led_facts simp del: One_nat_def)
next
  fix v0 v1 v2 v3 b b'
  assume ai: "b MODE1 AND M1_AI = 0"
    and w: "write_i2c_block_data (pc_bus bench_config) (pc_address bench_config) ALL_LED_ON_L [v0, v1, v2, v3] b
      = (Inr (), b')"
  have b': "b' = (\<lambda>x. if is_led x \<and> (x - LED0_ON_L) mod 4 = 0 \<or> x = ALL_LED_ON_L then v3 else b x)"
    using w ai by (auto simp: bench_config_def register_file_def rf_block_def)
  show "(\<forall>ch. 0 \<le> ch \<and> ch < CHANNELS \<longrightarrow> b' (led ch 0) = v3 \<and> b' (led ch 1) = b (led ch 1)
            \<and> b' (led ch 2) = b (led ch 2) \<and> b' (led ch 3) = b (led ch 3))
        \<and> b' MODE1 = b MODE1 \<and> b' MODE2 = b MODE2 \<and> b' PRE_SCALE = b PRE_SCALE"
    unfolding b' by (auto simp: led_facts simp del: One_nat_def)
qed (auto simp: bench_config_def register_file_def rf_write_def CHANNELS_def split: if_splits)

section \<open>Bringing a chip up\<close>

text \<open>
  C34. A chip that comes up is configured, and dark if it could be. After the initialisation
  sequence returns, on any bus and from any register contents, the prescaler holds the value
  the code computed - it was written while the chip slept, so it took - the oscillator runs,
  auto-increment is on, the outputs are totem-pole and not inverted; and if auto-increment
  was on before, every channel is hard off.
\<close>

theorem init_configures_chip:
  assumes "pca_bus c regs" "initialise_sync c d = (Inr (), d')"
  shows "init_configured (regs (pd_bus d')) \<and> pd_pre_scale_read_back d' = Some PCA9685_PRE_SCALE
    \<and> (pca_awake regs d \<longrightarrow> (\<forall>channel. 0 \<le> channel \<and> channel < CHANNELS \<longrightarrow> pca_dark regs channel d'))"
  using pca_bus.initialise_sync_ok [OF assms]
  by (auto simp: pca_bus.R_def [OF assms(1)] pca_awake_def pca_dark_def FULL_def)

definition warm_registers :: registers where
  "warm_registers = (\<lambda>_. 0)(MODE1 := 0x21, MODE2 := 0x04, PRE_SCALE := 11, led 0 2 := 0, led 0 3 := 8)"

definition bench_device :: "registers \<Rightarrow> registers pca_device" where
  "bench_device r = \<lparr>pd_bus = r, pd_initialised = False, pd_pre_scale_read_back = None, pd_initialised_at = None\<rparr>"

lemma bench_total: "\<exists>d'. initialise_sync bench_config d = (Inr (), d')"
  by (rule bench.initialise_total)
    (simp_all add: pca_read_def pca_write_def pca_write_block_def on_bus_def bench_config_def register_file_def)

theorem init_configures_chip_witness:
  "\<exists>d'. initialise_sync bench_config (bench_device warm_registers) = (Inr (), d')
     \<and> pd_bus d' PRE_SCALE = 12 \<and> pca_dark (\<lambda>b. b) 0 d'
     \<and> \<not> pca_dark (\<lambda>b. b) 0 (bench_device warm_registers)"
proof -
  obtain d' where d': "initialise_sync bench_config (bench_device warm_registers) = (Inr (), d')"
    using bench_total by blast
  have "pca_awake (\<lambda>b. b) (bench_device warm_registers)"
    by (simp add: pca_awake_def bench_device_def warm_registers_def pca_bits)
  moreover have "\<not> pca_dark (\<lambda>b. b) 0 (bench_device warm_registers)"
    by (simp add: pca_dark_def bench_device_def warm_registers_def FULL_def)
  ultimately show ?thesis
    using init_configures_chip [OF bench.pca_bus_axioms d'] d'
    by (auto simp: init_configured_def CHANNELS_def)
qed

text \<open>
  C35. The sequence cannot darken what it claims to. On a chip whose auto-increment is off -
  its power-on setting - a channel that is lit when \<open>_initialise_sync\<close> starts is still lit
  when it has returned successfully and woken the chip: the "all channels hard off" block
  write lands in one register, and nothing later repeats it.
\<close>

theorem init_leaves_cold_chip_lit:
  assumes "pca_bus c regs" "initialise_sync c d = (Inr (), d')"
    and "\<not> pca_awake regs d" "0 \<le> channel" "channel < CHANNELS"
  shows "pca_dark regs channel d' = pca_dark regs channel d"
  using pca_bus.initialise_sync_ok(3) [OF assms(1,2,4,5)] assms(3)
  by (simp add: pca_bus.R_def [OF assms(1)] pca_awake_def pca_dark_def)

definition cold_registers :: registers where
  "cold_registers = warm_registers(MODE1 := 0x01)"

theorem init_leaves_cold_chip_lit_witness:
  "\<exists>d'. initialise_sync bench_config (bench_device cold_registers) = (Inr (), d')
     \<and> \<not> pca_dark (\<lambda>b. b) 0 d'"
proof -
  obtain d' where d': "initialise_sync bench_config (bench_device cold_registers) = (Inr (), d')"
    using bench_total by blast
  have "\<not> pca_awake (\<lambda>b. b) (bench_device cold_registers)"
    by (simp add: pca_awake_def bench_device_def cold_registers_def pca_bits)
  moreover have "\<not> pca_dark (\<lambda>b. b) 0 (bench_device cold_registers)"
    by (simp add: pca_dark_def bench_device_def cold_registers_def warm_registers_def FULL_def)
  ultimately show ?thesis
    using init_leaves_cold_chip_lit [OF bench.pca_bus_axioms d', of 0] d' by (auto simp: CHANNELS_def)
qed

end
