(* ===== verification/PyText.thy ===== *)
theory PyText
  imports Prelude
begin

text \<open>
  The regular expressions and the number texts the drivers parse. A \<open>search\<close> is the leftmost
  position at which a match function succeeds; each match function is written out beside the
  code that owns the pattern.
\<close>

section \<open>Regular expressions\<close>

definition re_space :: "char \<Rightarrow> bool" where
  "re_space ch = (ch \<in> set [CHR '' '', CHR 0x09, CHR 0x0A, CHR 0x0B, CHR 0x0C, CHR 0x0D,
     CHR 0x1C, CHR 0x1D, CHR 0x1E, CHR 0x1F, CHR 0x85, CHR 0xA0])"

text \<open>\<open>\w\<close>: letters, digits and numbers of the first 256 code points, and the underscore.\<close>

definition re_word :: "char \<Rightarrow> bool" where
  "re_word ch =
     (let n = of_char ch :: nat in
        48 \<le> n \<and> n \<le> 57 \<or> 65 \<le> n \<and> n \<le> 90 \<or> n = 95 \<or> 97 \<le> n \<and> n \<le> 122
        \<or> n \<in> {170, 178, 179, 181, 185, 186, 188, 189, 190} \<or> 192 \<le> n \<and> n \<noteq> 215 \<and> n \<noteq> 247)"

fun drop_prefix :: "string \<Rightarrow> string \<Rightarrow> string option" where
  "drop_prefix [] s = Some s"
| "drop_prefix (p # ps) [] = None"
| "drop_prefix (p # ps) (x # xs) = (if p = x then drop_prefix ps xs else None)"

text \<open>\<open>\s*$\<close> in multi-line mode.\<close>

definition re_line_end :: "string \<Rightarrow> bool" where
  "re_line_end s = (let w = takeWhile re_space s in CHR 0x0A \<in> set w \<or> w = s)"

text \<open>\<open>search\<close>: the leftmost position that matches, with the character before it.\<close>

fun re_search :: "(char option \<Rightarrow> string \<Rightarrow> 'a option) \<Rightarrow> char option \<Rightarrow> string \<Rightarrow> 'a option" where
  "re_search f prev [] = f prev []"
| "re_search f prev (x # xs) = (case f prev (x # xs) of Some r \<Rightarrow> Some r | None \<Rightarrow> re_search f (Some x) xs)"


definition py_digit :: "char \<Rightarrow> bool" where "py_digit ch = (char_digit ch \<noteq> None)"

section \<open>Numbers\<close>

lemma digits_taken: "\<not> py_digit c \<Longrightarrow> takeWhile py_digit (nat_digits n @ c # s) = nat_digits n"
proof -
  assume c: "\<not> py_digit c"
  have "\<forall>ch \<in> set (nat_digits n). py_digit ch"
    using nat_digits_digits by (fastforce simp: py_digit_def)
  then show ?thesis using takeWhile_append2 [of "nat_digits n" py_digit "c # s"] c by simp
qed

lemma nl_no_digit: "\<not> py_digit (CHR 0x0A)"
  by (simp add: py_digit_def char_digit_def digit_char_def upt_rec)

lemma digit_plain_in: "ch \<in> set (nat_digits k) \<Longrightarrow> \<not> py_space ch \<and> ch \<noteq> CHR ''-'' \<and> ch \<noteq> CHR ''+''"
proof -
  assume "ch \<in> set (nat_digits k)"
  from nat_digits_digits [OF this] obtain d where "d < 10" "ch = digit_char d" by auto
  then show ?thesis using digit_plain [of d] by simp
qed

lemma digit_head: "hd (nat_digits k) \<noteq> CHR ''-''"
  using digit_plain_in [OF hd_in_set [OF nat_digits_nonempty]] by (rule conjunct1 [OF conjunct2])

lemma py_int_of_str: "py_int_of (py_str_int n) = Inr n"
proof (cases "0 \<le> n")
  case False
  let ?ds = "nat_digits (nat (- n))"
  have "\<not> py_space (last ?ds)" using digit_plain_in [OF last_in_set [OF nat_digits_nonempty]] by (rule conjunct1)
  then have "py_strip (CHR ''-'' # ?ds) = CHR ''-'' # ?ds"
    by (cases ?ds rule: rev_cases) (simp_all add: py_strip_def py_space_def)
  moreover obtain d where "d < 10" "hd ?ds = digit_char d"
    using nat_digits_digits [OF hd_in_set [OF nat_digits_nonempty]] by auto
  ultimately show ?thesis
    using False by (simp add: py_int_of_def py_str_int_def unsigned_value_def Let_def)
qed (simp add: py_int_of_nat)

end
