(* ===== verification/Discovery.thy ===== *)
theory Discovery
  imports Pca9685 PyText "HOL-Library.Sublist" "HOL-Library.List_Lexorder" "HOL-Library.Char_ord"
begin

text \<open>
  What the hub's hardware can offer, \<open>hardware_io/capabilities.py\<close>. The machine is a
  parameter: what the entries of \<open>/sys/class/pwm\<close> resolve to and read as, what \<open>pinctrl\<close>
  printed, what the 1-Wire directory lists and how the I2C bus answers.
\<close>

section \<open>Finding the PWM chip\<close>

definition RP1_PWM0_DEVICE :: string where "RP1_PWM0_DEVICE = ''1f00098000.pwm''"
definition RP1_PWM_COMPATIBLE :: string where "RP1_PWM_COMPATIBLE = ''raspberrypi,rp1-pwm''"
definition W1_BUS_MASTER :: string where "W1_BUS_MASTER = ''w1_bus_master1''"

text \<open>One entry of the class directory: its name, the name of the device it resolves to, two files.\<close>

record pwm_entry =
  pe_name :: string
  pe_device :: "string result"
  pe_compatible :: "string result"
  pe_npwm :: "string result"

fun is_os_error :: "py_error \<Rightarrow> bool" where
  "is_os_error (OSError t) = True"
| "is_os_error (TimeoutError t) = True"
| "is_os_error e = False"

fun is_value_error :: "py_error \<Rightarrow> bool" where
  "is_value_error (ValueError t) = True"
| "is_value_error _ = False"

fun scan_pwm :: "pwm_entry list \<Rightarrow> pwm_entry option result" where
  "scan_pwm [] = Inr None"
| "scan_pwm (e # es) =
     (case pe_device e of
        Inl x \<Rightarrow> if is_os_error x then scan_pwm es else Inl x
      | Inr name \<Rightarrow>
          if name \<noteq> RP1_PWM0_DEVICE then scan_pwm es
          else case pe_compatible e of
                 Inl x \<Rightarrow> if is_os_error x then Inr None else Inl x
               | Inr compatible \<Rightarrow>
                   Inr (if sublist RP1_PWM_COMPATIBLE compatible then Some e else None))"

text \<open>The directory's entries in the order of their names; no directory, no chip.\<close>

definition find_pwm_chip :: "pwm_entry list option \<Rightarrow> pwm_entry option result" where
  "find_pwm_chip entries = (case entries of None \<Rightarrow> Inr None | Some es \<Rightarrow> scan_pwm (sort_key pe_name es))"

section \<open>The pin mux\<close>

definition line_break :: "char \<Rightarrow> bool" where
  "line_break ch = (ch \<in> set [CHR 0x0A, CHR 0x0B, CHR 0x0C, CHR 0x0D, CHR 0x1C, CHR 0x1D, CHR 0x1E, CHR 0x85])"

text \<open>\<open>splitlines\<close>; a carriage return and a line feed are one break.\<close>

function lines_from :: "string \<Rightarrow> string \<Rightarrow> string list" where
  "lines_from acc [] = (if acc = [] then [] else [rev acc])"
| "lines_from acc (x # xs) =
     (if line_break x
      then rev acc # lines_from [] (if x = CHR 0x0D \<and> xs \<noteq> [] \<and> hd xs = CHR 0x0A then tl xs else xs)
      else lines_from (x # acc) xs)"
  by pat_completeness auto
termination by (relation "measure (\<lambda>(acc, s). length s)") (auto split: if_splits)

definition splitlines :: "string \<Rightarrow> string list" where "splitlines s = lines_from [] s"

text \<open>The pattern of one line; a run of digits is always a number.\<close>

definition pinctrl_at :: "char option \<Rightarrow> string \<Rightarrow> (nat \<times> nat) option" where
  "pinctrl_at prev s =
     Option.bind (drop_prefix ''//'' s) (\<lambda>r.
     Option.bind (drop_prefix ''GPIO'' (dropWhile re_space r)) (\<lambda>r.
     let gpio = takeWhile py_digit r in
     Option.bind (drop_prefix ''='' (dropWhile re_space (drop (length gpio) r))) (\<lambda>r.
     Option.bind (drop_prefix ''PWM0_CHAN'' (dropWhile re_space r)) (\<lambda>r.
     let channel = takeWhile py_digit r in
     if dropWhile re_space (drop (length channel) r) \<noteq> [] then None
     else Option.bind (unsigned_value gpio) (\<lambda>g. Option.bind (unsigned_value channel) (\<lambda>c. Some (g, c)))))))"

definition add_pin :: "(int \<times> int) list \<Rightarrow> string \<Rightarrow> (int \<times> int) list" where
  "add_pin mux line = (case re_search pinctrl_at None line of
     None \<Rightarrow> mux | Some (gpio, channel) \<Rightarrow> alist_put (int channel) (int gpio) mux)"

definition parse_pinctrl :: "string \<Rightarrow> (int \<times> int) list" where
  "parse_pinctrl output = foldl add_pin [] (splitlines output)"

text \<open>How the subprocess ended: it could not run, or its return code and output.\<close>

definition read_pwm_mux :: "(int \<times> string) result \<Rightarrow> (int \<times> int) list option result" where
  "read_pwm_mux run =
     (case run of
        Inl e \<Rightarrow> if is_os_error e then Inr None else Inl e
      | Inr (code, out) \<Rightarrow> Inr (if code \<noteq> 0 then None else Some (parse_pinctrl out)))"

section \<open>Announcements\<close>

definition announcement ::
    "uuid \<Rightarrow> instant \<Rightarrow> capability_source \<Rightarrow> capability_channel list \<Rightarrow> capability_announcement result" where
  "announcement mid now src channels = validate_capability_announcement
     \<lparr>schema_version = SCHEMA_VERSION, message_id = mid, emitted_at = now, source = ''hardware-io'',
      ca_hardware_source = src, ca_channels = channels\<rparr>"

definition res_some :: "'a result \<Rightarrow> 'a option result" where
  "res_some r = res_bind r (\<lambda>x. Inr (Some x))"

text \<open>The chip by identity and its channel count, or nothing to say.\<close>

definition pwm_chip_and_count :: "pwm_entry list option \<Rightarrow> (pwm_entry \<times> int) option result" where
  "pwm_chip_and_count entries =
     res_bind (find_pwm_chip entries) (\<lambda>chip.
       case chip of
         None \<Rightarrow> Inr None
       | Some e \<Rightarrow>
           (case res_bind (pe_npwm e) py_int_of of
              Inl x \<Rightarrow> if is_os_error x \<or> is_value_error x then Inr None else Inl x
            | Inr n \<Rightarrow> Inr (Some (e, n))))"

definition muxed_below :: "int \<Rightarrow> (int \<times> int) list \<Rightarrow> int list" where
  "muxed_below npwm mux = filter (\<lambda>index. index < npwm) (sort (map fst mux))"

definition discover_pwm ::
    "uuid \<Rightarrow> instant \<Rightarrow> pwm_entry list option \<Rightarrow> (int \<times> string) result
       \<Rightarrow> capability_announcement option result" where
  "discover_pwm mid now entries run =
     res_bind (pwm_chip_and_count entries) (\<lambda>found.
       case found of
         None \<Rightarrow> Inr None
       | Some (e, npwm) \<Rightarrow>
           res_bind (read_pwm_mux run) (\<lambda>mux.
             case mux of
               None \<Rightarrow> Inr None
             | Some mux \<Rightarrow> res_some (announcement mid now PiPwm
                 (map (\<lambda>index. \<lparr>cc_channel = py_str_int index,
                     cc_detail = [(''chip'', SStr (pe_name e)), (''gpio'', SInt (the (map_of mux index)))]\<rparr>)
                   (muxed_below npwm mux)))))"

definition muxed_pwm_channel_count ::
    "pwm_entry list option \<Rightarrow> (int \<times> string) result \<Rightarrow> nat option result" where
  "muxed_pwm_channel_count entries run =
     res_bind (pwm_chip_and_count entries) (\<lambda>found.
       case found of
         None \<Rightarrow> Inr None
       | Some (e, npwm) \<Rightarrow>
           res_bind (read_pwm_mux run) (\<lambda>mux.
             case mux of
               None \<Rightarrow> Inr None
             | Some mux \<Rightarrow> Inr (Some (length (filter (\<lambda>index. index < npwm) (map fst mux))))))"

definition discover_w1 :: "uuid \<Rightarrow> instant \<Rightarrow> string list option \<Rightarrow> capability_announcement option result" where
  "discover_w1 mid now names =
     (case names of
        None \<Rightarrow> Inr None
      | Some names \<Rightarrow> res_some (announcement mid now W1Bus
          (map (\<lambda>name. \<lparr>cc_channel = name,
              cc_detail = [(''family'', SStr ''28''), (''bus_master'', SStr W1_BUS_MASTER)]\<rparr>)
            (filter (\<lambda>name. take 3 name = ''28-'') (sort names)))))"

section \<open>The I2C probe\<close>

datatype bus_call = OpenBus int | ReadByte int nat | CloseBus

definition PCA9685_MODE1 :: nat where "PCA9685_MODE1 = 0x00"
definition PCA9685_CHANNELS :: nat where "PCA9685_CHANNELS = 16"

text \<open>Two hexadecimal digits at least.\<close>

definition two_hex :: "nat \<Rightarrow> string" where
  "two_hex n = (let h = hex_digits (n + 1) n in ''0x'' @ (if length h < 2 then CHR ''0'' # h else h))"

text \<open>
  The bus answers the opening and the one read; every call made of it is recorded. Whatever
  closing does is ignored, an import that fails counts as a bus that cannot be opened.
\<close>

definition discover_pca9685 ::
    "uuid \<Rightarrow> instant \<Rightarrow> bool \<Rightarrow> unit result \<Rightarrow> int result \<Rightarrow> int \<Rightarrow> int
       \<Rightarrow> capability_announcement option result \<times> bus_call list" where
  "discover_pca9685 mid now dev_exists opened answer bus address =
     (if \<not> dev_exists then (Inr None, [])
      else case opened of
             Inl e \<Rightarrow> (if is_os_error e then Inr None else Inl e, [OpenBus bus])
           | Inr _ \<Rightarrow>
               (let calls = [OpenBus bus, ReadByte address PCA9685_MODE1, CloseBus];
                    detail = [(''bus'', SInt bus), (''address'', SStr (two_hex (nat address)))];
                    all = map (\<lambda>index. \<lparr>cc_channel = py_str_int (int index), cc_detail = detail\<rparr>)
                            [0 ..< PCA9685_CHANNELS]
                in case answer of
                     Inl e \<Rightarrow> (if is_os_error e then res_some (announcement mid now Pca9685 []) else Inl e, calls)
                   | Inr mode1 \<Rightarrow> (res_some (announcement mid now Pca9685 all), calls)))"

section \<open>What is announced\<close>

lemma res_some_eq [simp]: "res_some r = Inr (Some x) \<longleftrightarrow> r = Inr x" "res_some r \<noteq> Inr None"
  by (cases r; simp add: res_some_def)+

lemma announcement_Inr:
  "announcement mid now src channels = Inr a \<Longrightarrow> ca_channels a = channels \<and> ca_hardware_source a = src"
  by (auto simp: announcement_def validate_capability_announcement_def validated_Inr)

lemma add_pin_distinct: "distinct (map fst mux) \<Longrightarrow> distinct (map fst (add_pin mux line))"
  by (auto simp: add_pin_def split: option.splits)

lemma parse_pinctrl_distinct: "distinct (map fst (parse_pinctrl out))"
proof -
  have "distinct (map fst mux) \<Longrightarrow> distinct (map fst (foldl add_pin mux ls))" for mux ls
    by (induction ls arbitrary: mux) (auto intro: add_pin_distinct)
  then show ?thesis by (simp add: parse_pinctrl_def)
qed

lemma pwm_chip_and_count_Some:
  assumes "pwm_chip_and_count entries = Inr (Some (e, npwm))"
  shows "find_pwm_chip entries = Inr (Some e) \<and> res_bind (pe_npwm e) py_int_of = Inr npwm"
proof -
  obtain c where c: "find_pwm_chip entries = Inr (Some c)"
    using assms by (cases "find_pwm_chip entries") (auto simp: pwm_chip_and_count_def split: option.splits)
  with assms show ?thesis
    by (cases "res_bind (pe_npwm c) py_int_of") (auto simp: pwm_chip_and_count_def split: if_splits)
qed

lemma muxed_below_distinct:
  "distinct (map fst mux) \<Longrightarrow>
     muxed_below npwm mux = filter (\<lambda>i. i < npwm) (sorted_list_of_set (fst ` set mux))"
  using sorted_list_of_set_sort_remdups [of "map fst mux"] by (simp add: muxed_below_def distinct_remdups_id)

lemma muxed_below_length: "length (muxed_below npwm mux) = length (filter (\<lambda>i. i < npwm) (map fst mux))"
  unfolding muxed_below_def by (metis filter_sort length_sort)

text \<open>
  The offer and the chip state agree by construction: when the RP1's channels are
  announced, the announcement is exactly the muxed channels below the chip's count, once each
  and in order, each with the pin the mux ties to it, and the count reported beside the chip
  is its length; when nothing is announced, because the chip or the mux cannot be read, the
  count is unknown too.
\<close>

theorem offer_agrees_with_count:
  assumes "discover_pwm mid now entries run = Inr r"
  shows "muxed_pwm_channel_count entries run = Inr (map_option (\<lambda>a. length (ca_channels a)) r)
    \<and> (case r of
         None \<Rightarrow> True
       | Some a \<Rightarrow> \<exists>e npwm out. find_pwm_chip entries = Inr (Some e) \<and> run = Inr (0, out)
           \<and> res_bind (pe_npwm e) py_int_of = Inr npwm
           \<and> ca_channels a = map (\<lambda>i. \<lparr>cc_channel = py_str_int i, cc_detail = [(''chip'', SStr (pe_name e)),
                 (''gpio'', SInt (the (map_of (parse_pinctrl out) i)))]\<rparr>)
               (filter (\<lambda>i. i < npwm) (sorted_list_of_set (fst ` set (parse_pinctrl out)))))"
proof (cases r)
  case None
  then show ?thesis
    using assms unfolding discover_pwm_def muxed_pwm_channel_count_def
    by (auto simp: res_bind_eq_Inr split: option.splits prod.splits)
next
  case (Some a)
  then obtain e npwm mux where found: "pwm_chip_and_count entries = Inr (Some (e, npwm))"
    "read_pwm_mux run = Inr (Some mux)"
    "announcement mid now PiPwm (map (\<lambda>index. \<lparr>cc_channel = py_str_int index,
        cc_detail = [(''chip'', SStr (pe_name e)), (''gpio'', SInt (the (map_of mux index)))]\<rparr>)
      (muxed_below npwm mux)) = Inr a"
    using assms unfolding discover_pwm_def by (auto simp: res_bind_eq_Inr split: option.splits prod.splits)
  obtain out where out: "run = Inr (0, out)" "mux = parse_pinctrl out"
    using found(2) by (auto simp: read_pwm_mux_def split: sum.splits if_splits)
  have "find_pwm_chip entries = Inr (Some e)" "res_bind (pe_npwm e) py_int_of = Inr npwm"
    using pwm_chip_and_count_Some [OF found(1)] by simp_all
  moreover have "muxed_pwm_channel_count entries run = Inr (Some (length (muxed_below npwm mux)))"
    using found by (simp add: muxed_pwm_channel_count_def muxed_below_length)
  ultimately show ?thesis
    using announcement_Inr [OF found(3)] out
    by (simp add: Some muxed_below_distinct [OF parse_pinctrl_distinct])
qed

lemma find_pwm_chip_unique:
  assumes "filter (\<lambda>e. pe_device e = Inr RP1_PWM0_DEVICE) es = [e]"
    and "list_all (\<lambda>e. case pe_device e of Inl x \<Rightarrow> is_os_error x | Inr name \<Rightarrow> True) es"
  shows "find_pwm_chip (Some es) =
     (case pe_compatible e of
        Inl x \<Rightarrow> if is_os_error x then Inr None else Inl x
      | Inr compatible \<Rightarrow> Inr (if sublist RP1_PWM_COMPATIBLE compatible then Some e else None))"
proof -
  have scan: "scan_pwm xs =
     (case pe_compatible e of
        Inl x \<Rightarrow> if is_os_error x then Inr None else Inl x
      | Inr compatible \<Rightarrow> Inr (if sublist RP1_PWM_COMPATIBLE compatible then Some e else None))"
    if "filter (\<lambda>e. pe_device e = Inr RP1_PWM0_DEVICE) xs = [e]"
      and "list_all (\<lambda>e. case pe_device e of Inl x \<Rightarrow> is_os_error x | Inr name \<Rightarrow> True) xs" for xs
    using that
  proof (induction xs)
    case (Cons x xs)
    show ?case
    proof (cases "pe_device x = Inr RP1_PWM0_DEVICE")
      case True
      with Cons.prems show ?thesis by (simp split: sum.splits)
    next
      case False
      then have "scan_pwm (x # xs) = scan_pwm xs"
        using Cons.prems by (cases "pe_device x") auto
      with Cons False show ?thesis by simp
    qed
  qed simp
  have "filter (\<lambda>e. pe_device e = Inr RP1_PWM0_DEVICE) (sort_key pe_name es) = [e]"
    using assms(1) by (simp add: filter_sort)
  moreover have "list_all (\<lambda>e. case pe_device e of Inl x \<Rightarrow> is_os_error x | Inr name \<Rightarrow> True) (sort_key pe_name es)"
    using assms(2) by (simp add: list_all_iff)
  ultimately show ?thesis by (simp add: find_pwm_chip_def scan)
qed

text \<open>
  The PWM block is found by what it is: when exactly one entry of the class fronts the
  RP1's first PWM block, the search answers with that entry whatever the entries are called
  and in whatever order the kernel numbers them, and with nothing when its device-tree
  compatible is another's or cannot be read.
\<close>

theorem pwm_chip_by_identity:
  assumes "filter (\<lambda>e. pe_device e = Inr RP1_PWM0_DEVICE) es = [e]"
    and "list_all (\<lambda>e. case pe_device e of Inl x \<Rightarrow> is_os_error x | Inr name \<Rightarrow> True) es"
  shows "find_pwm_chip (Some es) =
     (case pe_compatible e of
        Inl x \<Rightarrow> if is_os_error x then Inr None else Inl x
      | Inr compatible \<Rightarrow> Inr (if sublist RP1_PWM_COMPATIBLE compatible then Some e else None))"
  using assms by (rule find_pwm_chip_unique)

section \<open>Reading the mux back\<close>

text \<open>A line as \<open>pinctrl get\<close> prints it: what comes before, the pin, the function it is tied to.\<close>

datatype pin_line = PwmPin string nat nat | OtherPin string nat string

fun pin_text :: "pin_line \<Rightarrow> string" where
  "pin_text (PwmPin pre gpio channel) =
     pre @ ''// GPIO'' @ nat_digits gpio @ '' = PWM0_CHAN'' @ nat_digits channel"
| "pin_text (OtherPin pre gpio func) = pre @ ''// GPIO'' @ nat_digits gpio @ '' = '' @ func"

definition plain_text :: "string \<Rightarrow> bool" where
  "plain_text s = list_all (\<lambda>ch. ch \<noteq> CHR ''/'' \<and> \<not> line_break ch) s"

fun pin_line_ok :: "pin_line \<Rightarrow> bool" where
  "pin_line_ok (PwmPin pre gpio channel) = plain_text pre"
| "pin_line_ok (OtherPin pre gpio func) =
     (plain_text pre \<and> plain_text func \<and> func \<noteq> [] \<and> \<not> re_space (hd func) \<and> drop_prefix ''PWM0_CHAN'' func = None)"

definition pinctrl_text :: "pin_line list \<Rightarrow> string" where
  "pinctrl_text ls = concat (map (\<lambda>l. pin_text l @ [CHR 0x0A]) ls)"

fun tie_pin :: "(int \<times> int) list \<Rightarrow> pin_line \<Rightarrow> (int \<times> int) list" where
  "tie_pin mux (PwmPin pre gpio channel) = alist_put (int channel) (int gpio) mux"
| "tie_pin mux (OtherPin pre gpio func) = mux"

lemma digit_not: "ch \<in> set (nat_digits n) \<Longrightarrow> ch \<noteq> CHR ''/'' \<and> \<not> line_break ch"
proof -
  assume "ch \<in> set (nat_digits n)"
  from nat_digits_digits [OF this] obtain d where "d < 10" "ch = digit_char d" by auto
  then show ?thesis
    by (elim digit_cases [elim_format] disjE) (simp_all add: digit_char_def line_break_def)
qed

lemma plain_digits: "plain_text (nat_digits n)"
  using digit_not by (simp add: plain_text_def list_all_iff)

lemma plain_append [simp]: "plain_text (xs @ ys) \<longleftrightarrow> plain_text xs \<and> plain_text ys"
  by (simp add: plain_text_def)

lemma lines_from_line:
  "list_all (\<lambda>ch. \<not> line_break ch) l \<Longrightarrow> lines_from acc (l @ CHR 0x0A # s) = (rev acc @ l) # lines_from [] s"
  by (induction l arbitrary: acc) (auto simp: line_break_def)

lemma pin_line_breaks: "pin_line_ok l \<Longrightarrow> list_all (\<lambda>ch. \<not> line_break ch) (pin_text l)"
proof -
  have plain: "plain_text xs \<Longrightarrow> list_all (\<lambda>ch. \<not> line_break ch) xs" for xs
    by (auto simp: plain_text_def list_all_iff)
  assume "pin_line_ok l"
  then show ?thesis
    using plain plain_digits by (cases l) (auto simp: line_break_def)
qed

lemma splitlines_text: "list_all pin_line_ok ls \<Longrightarrow> splitlines (pinctrl_text ls) = map pin_text ls"
  unfolding splitlines_def
  by (induction ls) (simp_all add: pinctrl_text_def lines_from_line pin_line_breaks)

lemma pinctrl_at_no_slash: "x \<noteq> CHR ''/'' \<Longrightarrow> pinctrl_at prev (x # xs) = None"
  by (simp add: pinctrl_at_def)

lemma search_plain: "plain_text s \<Longrightarrow> re_search pinctrl_at prev s = None"
proof (induction s arbitrary: prev)
  case Nil
  show ?case by (simp add: pinctrl_at_def)
next
  case (Cons x xs)
  then show ?case by (simp add: plain_text_def pinctrl_at_no_slash)
qed

lemma search_skips:
  "plain_text pre \<Longrightarrow> \<exists>q. re_search pinctrl_at prev (pre @ s) = re_search pinctrl_at q s"
  by (induction pre arbitrary: prev) (auto simp: plain_text_def pinctrl_at_no_slash)

lemma unsigned_digits: "unsigned_value (nat_digits n) = Some n"
proof -
  from nat_digits_digits [OF hd_in_set [OF nat_digits_nonempty [of n]]]
  obtain d where "d < 10" "hd (nat_digits n) = digit_char d" by auto
  then show ?thesis by (simp add: unsigned_value_def)
qed

lemma space_no_digit: "\<not> py_digit (CHR '' '')"
  by (simp add: py_digit_def char_digit_def digit_char_def upt_rec)

lemma all_digits: "takeWhile py_digit (nat_digits n) = nat_digits n"
  using nat_digits_digits by (fastforce simp: py_digit_def takeWhile_eq_all_conv)

lemma add_pin_text:
  assumes "pin_line_ok l"
  shows "add_pin mux (pin_text l) = tie_pin mux l"
proof (cases l)
  case (PwmPin pre gpio channel)
  have "plain_text pre" using assms by (simp add: PwmPin)
  from search_skips [OF this, of None "''// GPIO'' @ nat_digits gpio @ '' = PWM0_CHAN'' @ nat_digits channel"]
  obtain q where "re_search pinctrl_at None (pin_text l) = re_search pinctrl_at q (''// GPIO'' @ nat_digits gpio @ '' = PWM0_CHAN'' @ nat_digits channel)"
    by (auto simp: PwmPin)
  moreover have "pinctrl_at q (''// GPIO'' @ nat_digits gpio @ '' = PWM0_CHAN'' @ nat_digits channel)
      = Some (gpio, channel)"
    by (simp add: pinctrl_at_def re_space_def digits_taken space_no_digit all_digits unsigned_digits Let_def)
  ultimately show ?thesis by (simp add: add_pin_def PwmPin)
next
  case (OtherPin pre gpio func)
  have "plain_text pre" using assms by (simp add: OtherPin)
  from search_skips [OF this, of None "''// GPIO'' @ nat_digits gpio @ '' = '' @ func"]
  obtain q where "re_search pinctrl_at None (pin_text l) = re_search pinctrl_at q (''// GPIO'' @ nat_digits gpio @ '' = '' @ func)"
    by (auto simp: OtherPin)
  moreover have "pinctrl_at q (''// GPIO'' @ nat_digits gpio @ '' = '' @ func) = None"
    using assms by (cases func)
      (simp_all add: OtherPin pinctrl_at_def re_space_def digits_taken space_no_digit Let_def)
  moreover have "re_search pinctrl_at p ('' GPIO'' @ nat_digits gpio @ '' = '' @ func) = None" for p
    using assms plain_digits by (intro search_plain) (simp add: OtherPin plain_text_def line_break_def)
  ultimately show ?thesis by (simp add: add_pin_def OtherPin pinctrl_at_def)
qed

lemma parse_pinctrl_text:
  assumes "list_all pin_line_ok ls"
  shows "parse_pinctrl (pinctrl_text ls) = foldl tie_pin [] ls"
proof -
  have "foldl add_pin mux (map pin_text ls) = foldl tie_pin mux ls" for mux
    using assms by (induction ls arbitrary: mux) (simp_all add: add_pin_text)
  then show ?thesis using assms by (simp add: parse_pinctrl_def splitlines_text)
qed

text \<open>
  The mux read from what \<open>pinctrl\<close> prints is the mux that was printed: every pin tied to a
  channel of the RP1's first block and no other, and of two pins on one channel the later.
\<close>

theorem pinctrl_roundtrip:
  assumes "list_all pin_line_ok ls"
  shows "parse_pinctrl (pinctrl_text ls) = foldl tie_pin [] ls"
  using assms by (rule parse_pinctrl_text)

section \<open>A bench\<close>

definition bench_pins :: "pin_line list" where
  "bench_pins = [OtherPin '' 4: ip    pu | hi '' 4 ''input'', PwmPin ''13: a0    pd | lo '' 13 1,
     PwmPin ''12: a0    pd | lo '' 12 0, PwmPin ''18: a3    pd | lo '' 18 6]"

definition fan_entry :: pwm_entry where
  "fan_entry = \<lparr>pe_name = ''pwmchip0'', pe_device = Inr ''1f0009c000.pwm'', pe_compatible = Inr RP1_PWM_COMPATIBLE,
     pe_npwm = Inr ''4''\<rparr>"

definition light_entry :: pwm_entry where
  "light_entry = \<lparr>pe_name = ''pwmchip4'', pe_device = Inr RP1_PWM0_DEVICE, pe_compatible = Inr RP1_PWM_COMPATIBLE,
     pe_npwm = Inr (py_str_int 4)\<rparr>"

lemma bench_pins_ok [simp]: "list_all pin_line_ok bench_pins"
  by (simp add: bench_pins_def plain_text_def line_break_def re_space_def)

lemma bench_ties: "foldl tie_pin [] bench_pins = [(1, 13), (0, 12), (6, 18)]"
  by (simp add: bench_pins_def)

theorem pinctrl_roundtrip_witness:
  "parse_pinctrl (pinctrl_text bench_pins) = [(1, 13), (0, 12), (6, 18)]"
  using pinctrl_roundtrip [OF bench_pins_ok] unfolding bench_ties .

theorem pwm_chip_by_identity_witness:
  "find_pwm_chip (Some [fan_entry, light_entry]) = Inr (Some light_entry)"
  using pwm_chip_by_identity [of "[fan_entry, light_entry]" light_entry]
  by (simp add: fan_entry_def light_entry_def RP1_PWM0_DEVICE_def)

lemma bench_found: "pwm_chip_and_count (Some [fan_entry, light_entry]) = Inr (Some (light_entry, 4))"
proof -
  have "find_pwm_chip (Some [fan_entry, light_entry]) = Inr (Some light_entry)"
    using find_pwm_chip_unique [of "[fan_entry, light_entry]" light_entry]
    by (simp add: fan_entry_def light_entry_def RP1_PWM0_DEVICE_def)
  moreover have "pe_npwm light_entry = Inr (py_str_int 4)" by (simp add: light_entry_def)
  ultimately show ?thesis by (simp add: pwm_chip_and_count_def py_int_of_str)
qed

lemma bench_mux: "parse_pinctrl (pinctrl_text bench_pins) = [(1, 13), (0, 12), (6, 18)]"
  using parse_pinctrl_text [OF bench_pins_ok] unfolding bench_ties .

theorem offer_agrees_with_count_witness:
  "muxed_pwm_channel_count (Some [fan_entry, light_entry]) (Inr (0, pinctrl_text bench_pins)) = Inr (Some 2)"
proof -
  have below: "muxed_below 4 [(1, 13), (0, 12), (6, 18)] = [0, 1]"
    by (simp add: muxed_below_def)
  have short: "py_str_int 0 = ''0''" "py_str_int 1 = ''1''"
    by (simp_all add: py_str_int_def nat_digits.simps digit_char_def)
  have "device_id_ok ''hardware-io''"
    by (simp add: device_id_ok_def token_body_def lower_alnum_def token_chars_def)
  then have "\<exists>a. length (ca_channels a) = 2
    \<and> discover_pwm 1 0 (Some [fan_entry, light_entry]) (Inr (0, pinctrl_text bench_pins)) = Inr (Some a)"
    by (simp add: discover_pwm_def bench_found read_pwm_mux_def bench_mux res_some_def announcement_def
        validate_capability_announcement_def validated_def message_guards_def SCHEMA_VERSION_def
        below short str_len_ok_def)
  then obtain a where a: "length (ca_channels a) = 2"
    "discover_pwm 1 0 (Some [fan_entry, light_entry]) (Inr (0, pinctrl_text bench_pins)) = Inr (Some a)"
    by blast
  from offer_agrees_with_count [OF a(2)] a(1) show ?thesis by simp
qed

end
