(* ===== verification/OneWire.thy ===== *)
theory OneWire
  imports Contracts PyText "HOL-Library.List_Lexorder" "HOL-Library.Char_ord"
begin

text \<open>
  The DS18B20 probe of \<open>drivers/onewire.py\<close>. The bus lock and the reader thread are the
  outcome of the timed wait; what the file said is parsed as the two regular expressions of
  the source match it.
\<close>

section \<open>Samples and devices\<close>

record sensor_sample =
  ss_value :: "rat option"
  ss_raw :: "rat option"
  ss_unit :: string
  ss_quality :: quality
  ss_calibration_id :: "uuid option"

definition hex_char :: "char \<Rightarrow> bool" where "hex_char ch = (ch \<in> set ''0123456789abcdef'')"

definition one_wire_device :: "string \<Rightarrow> string result" where
  "one_wire_device rom =
     (if length rom = 15 \<and> rom ! 2 = CHR ''-'' \<and> list_all hex_char (take 2 rom) \<and> list_all hex_char (drop 3 rom)
      then Inr rom else Inl (ValueError ''device_id''))"

record ds18b20 =
  ds_driver_id :: string
  ds_rom :: string
  ds_poll_interval_s :: seconds
  ds_read_timeout_s :: seconds
  ds_offset_c :: rat
  ds_calibration_id :: "uuid option"

definition ds18b20_new :: "string \<Rightarrow> string option \<Rightarrow> seconds \<Rightarrow> seconds \<Rightarrow> ds18b20 result" where
  "ds18b20_new rom driver_id poll_interval_s read_timeout_s = validated
     [(\<not> poll_interval_s \<le> 0, ValueError ''poll_interval_s must be > 0''),
      (\<not> read_timeout_s \<le> 0, ValueError ''read_timeout_s must be > 0''),
      (\<not> read_timeout_s < 1, ValueError ''below the measured 831 ms conversion cost'')]
     \<lparr>ds_driver_id = (case driver_id of Some d \<Rightarrow> if d = [] then ''ds18b20-'' @ rom else d | None \<Rightarrow> ''ds18b20-'' @ rom),
      ds_rom = rom, ds_poll_interval_s = poll_interval_s, ds_read_timeout_s = read_timeout_s,
      ds_offset_c = 0, ds_calibration_id = None\<rparr>"

section \<open>The two regular expressions\<close>

definition crc_at :: "char option \<Rightarrow> string \<Rightarrow> bool option" where
  "crc_at prev s =
     (case drop_prefix ''crc='' s of
        Some (a # b # rest) \<Rightarrow>
          if hex_char a \<and> hex_char b \<and> takeWhile re_space rest \<noteq> []
          then case drop_prefix ''YES'' (dropWhile re_space rest) of
                 Some t \<Rightarrow> if re_line_end t then Some True else None
               | None \<Rightarrow>
                   (case drop_prefix ''NO'' (dropWhile re_space rest) of
                      Some t \<Rightarrow> if re_line_end t then Some False else None
                    | None \<Rightarrow> None)
          else None
      | _ \<Rightarrow> None)"

definition temp_at :: "char option \<Rightarrow> string \<Rightarrow> string option" where
  "temp_at prev s =
     (case (prev, drop_prefix ''t='' s) of
        (_, None) \<Rightarrow> None
      | (prev, Some r) \<Rightarrow>
          if (case prev of Some p \<Rightarrow> re_word p | None \<Rightarrow> False) then None
          else
            let sign = (if r \<noteq> [] \<and> hd r = CHR ''-'' then ''-'' else []);
                body = drop (length sign) r;
                ds = takeWhile py_digit body
            in if ds \<noteq> [] \<and> re_line_end (drop (length ds) body) then Some (sign @ ds) else None)"

section \<open>Reading\<close>

definition POWER_ON_RESET_MILLIC :: int where "POWER_ON_RESET_MILLIC = 85000"

definition ds_fault :: "ds18b20 \<Rightarrow> sensor_sample" where
  "ds_fault d = \<lparr>ss_value = None, ss_raw = None, ss_unit = ''degC'', ss_quality = Fault,
     ss_calibration_id = ds_calibration_id d\<rparr>"

definition ds_parse :: "ds18b20 \<Rightarrow> string \<Rightarrow> sensor_sample result" where
  "ds_parse d text =
     (if re_search crc_at None text \<noteq> Some True then Inr (ds_fault d)
      else case re_search temp_at None text of
             None \<Rightarrow> Inr (ds_fault d)
           | Some t \<Rightarrow>
               res_bind (py_int_of t) (\<lambda>millic.
                 if millic = POWER_ON_RESET_MILLIC then Inr (ds_fault d)
                 else Inr \<lparr>ss_value = Some (of_int millic / 1000 + ds_offset_c d), ss_raw = Some (of_int millic / 1000),
                           ss_unit = ''degC'', ss_quality = Ok, ss_calibration_id = ds_calibration_id d\<rparr>))"

text \<open>\<open>read\<close>, given how the timed wait for the reader thread ended.\<close>

definition ds_read :: "string result \<Rightarrow> ds18b20 \<Rightarrow> sensor_sample result" where
  "ds_read outcome d =
     (case outcome of
        Inl (TimeoutError _) \<Rightarrow> Inr (ds_fault d)
      | Inl (OSError _) \<Rightarrow> Inr (ds_fault d)
      | Inl e \<Rightarrow> Inl e
      | Inr text \<Rightarrow> ds_parse d text)"

section \<open>Calibration\<close>

text \<open>A point is its raw and its reference value.\<close>

definition ds_calibrate ::
    "uuid \<Rightarrow> (rat \<times> rat) list \<Rightarrow> ds18b20 \<Rightarrow> (uuid \<times> rat \<times> rat) result \<times> ds18b20" where
  "ds_calibrate fresh points d =
     (if points = [] then (Inl (ValueError ''calibration needs at least one reference point''), d)
      else
        let offset = sum_list (map (\<lambda>(raw, ref). ref - raw) points) / of_nat (length points);
            residual = foldr max (map (\<lambda>(raw, ref). \<bar>(raw + offset) - ref\<bar>) points) 0
        in (Inr (fresh, offset, residual), d\<lparr>ds_offset_c := offset, ds_calibration_id := Some fresh\<rparr>))"

text \<open>The probes on the bus, given the entries of the directory, if there is one.\<close>

definition discover_probes :: "string list option \<Rightarrow> string list result" where
  "discover_probes entries =
     (case entries of
        None \<Rightarrow> Inr []
      | Some names \<Rightarrow> map_result one_wire_device (filter (\<lambda>n. take 3 n = ''28-'') (sort names)))"

section \<open>What is parsed\<close>

text \<open>The text the kernel's driver prints for a scratchpad: its bytes twice, the check, the value.\<close>

definition byte_line :: "(char \<times> char) list \<Rightarrow> string" where
  "byte_line bytes = concat (map (\<lambda>(a, b). [a, b, CHR '' '']) bytes)"

definition kernel_text :: "(char \<times> char) list \<Rightarrow> char \<times> char \<Rightarrow> bool \<Rightarrow> int \<Rightarrow> string" where
  "kernel_text bytes crc ok millic =
     byte_line bytes @ '': crc='' @ [fst crc, snd crc] @ (if ok then '' YES'' else '' NO'') @ [CHR 0x0A]
       @ byte_line bytes @ ''t='' @ py_str_int millic @ [CHR 0x0A]"

definition hex_pair :: "char \<times> char \<Rightarrow> bool" where
  "hex_pair p = (hex_char (fst p) \<and> hex_char (snd p))"

lemma hex_char_not: "hex_char ch \<Longrightarrow> ch \<noteq> CHR ''r'' \<and> ch \<noteq> CHR ''t'' \<and> ch \<noteq> CHR ''='' \<and> ch \<noteq> CHR '' ''"
  by (auto simp: hex_char_def)

lemma crc_skips_bytes:
  "list_all hex_pair bytes \<Longrightarrow> \<exists>q. re_search crc_at prev (byte_line bytes @ CHR '':'' # s) = re_search crc_at q s"
proof (induction bytes arbitrary: prev)
  case Nil
  show ?case by (simp add: byte_line_def crc_at_def) blast
next
  case (Cons p bytes)
  obtain a b where p: "p = (a, b)" by (cases p)
  note hex = hex_char_not [of a] hex_char_not [of b]
  have "re_search crc_at prev (byte_line (p # bytes) @ CHR '':'' # s)
      = re_search crc_at (Some (CHR '' '')) (byte_line bytes @ CHR '':'' # s)"
    using Cons.prems hex by (simp add: p byte_line_def hex_pair_def crc_at_def)
  with Cons.IH [of "Some (CHR '' '')"] Cons.prems show ?case by simp
qed

lemma temp_not_here: "x \<noteq> CHR ''t'' \<Longrightarrow> temp_at prev (x # xs) = None"
  by (simp add: temp_at_def split: option.splits)

lemma temp_skips_bytes:
  "list_all hex_pair bytes \<Longrightarrow>
     re_search temp_at prev (byte_line bytes @ s) = re_search temp_at (if bytes = [] then prev else Some (CHR '' '')) s"
proof (induction bytes arbitrary: prev)
  case (Cons p bytes)
  then show ?case
    using hex_char_not [of "fst p"] hex_char_not [of "snd p"]
    by (cases p) (simp add: byte_line_def hex_pair_def temp_not_here)
qed (simp add: byte_line_def)

lemma number_read:
  assumes "\<And>p. prev = Some p \<Longrightarrow> \<not> re_word p"
  shows "temp_at prev (''t='' @ py_str_int n @ [CHR 0x0A]) = Some (py_str_int n)"
proof -
  have start: "\<not> (case prev of Some p \<Rightarrow> re_word p | None \<Rightarrow> False)" using assms by (auto split: option.splits)
  have stop: "re_line_end [CHR 0x0A]" by (simp add: re_line_end_def re_space_def)
  show ?thesis
    by (simp add: temp_at_def py_str_int_def digits_taken nl_no_digit Let_def digit_head start stop)
qed

text \<open>
  C40. A scratchpad printed by the kernel is read back: with a good check the sample carries
  exactly the printed millidegrees, plus the calibration offset in its value, and the id of
  the calibration that made it; a failed check, or the value the probe holds before its first
  conversion, is a fault with no value.
\<close>

theorem probe_text_roundtrip:
  assumes "list_all hex_pair bytes" and "hex_pair crc"
  shows "ds_parse d (kernel_text bytes crc ok millic) =
     Inr (if ok \<and> millic \<noteq> 85000
          then \<lparr>ss_value = Some (of_int millic / 1000 + ds_offset_c d), ss_raw = Some (of_int millic / 1000),
                ss_unit = ''degC'', ss_quality = Ok, ss_calibration_id = ds_calibration_id d\<rparr>
          else ds_fault d)"
proof -
  obtain a b where crc: "crc = (a, b)" "hex_char a" "hex_char b"
    using assms(2) by (cases crc) (simp add: hex_pair_def)
  have hex: "a \<noteq> CHR ''t''" "b \<noteq> CHR ''t''" using hex_char_not crc by auto
  define tail where "tail = byte_line bytes @ ''t='' @ py_str_int millic @ [CHR 0x0A]"
  have whole: "kernel_text bytes crc ok millic = byte_line bytes @ CHR '':'' #
      ('' crc='' @ [a, b] @ (if ok then '' YES'' else '' NO'') @ CHR 0x0A # tail)"
    by (simp add: kernel_text_def tail_def crc)
  have check: "re_search crc_at None (kernel_text bytes crc ok millic) = Some ok"
  proof -
    obtain q where "re_search crc_at None (kernel_text bytes crc ok millic) =
        re_search crc_at q ('' crc='' @ [a, b] @ (if ok then '' YES'' else '' NO'') @ CHR 0x0A # tail)"
      using crc_skips_bytes [OF assms(1)] whole by metis
    then show ?thesis
      using crc by (cases ok) (simp_all add: crc_at_def re_space_def re_line_end_def Let_def)
  qed
  have temp: "re_search temp_at None (kernel_text bytes crc ok millic) = Some (py_str_int millic)"
  proof -
    have "re_search temp_at None (kernel_text bytes crc ok millic) = re_search temp_at (Some (CHR 0x0A)) tail"
      unfolding whole temp_skips_bytes [OF assms(1)] using hex
      by (cases ok) (simp_all add: temp_not_here)
    also have "\<dots> = re_search temp_at (if bytes = [] then Some (CHR 0x0A) else Some (CHR '' ''))
        (''t='' @ py_str_int millic @ [CHR 0x0A])"
      unfolding tail_def by (rule temp_skips_bytes [OF assms(1)])
    finally show ?thesis
      using number_read [of "if bytes = [] then Some (CHR 0x0A) else Some (CHR '' '')" millic]
      by (auto simp: re_word_def split: if_splits)
  qed
  show ?thesis
    using check temp by (cases ok) (simp_all add: ds_parse_def py_int_of_str POWER_ON_RESET_MILLIC_def)
qed

definition probe :: ds18b20 where
  "probe = \<lparr>ds_driver_id = ''probe-1'', ds_rom = ''28-0000075d1b2c'', ds_poll_interval_s = 5,
     ds_read_timeout_s = 2, ds_offset_c = 1 / 4, ds_calibration_id = Some 7\<rparr>"

theorem probe_text_roundtrip_witness:
  "ds_parse probe (kernel_text [(CHR ''7'', CHR ''2''), (CHR ''f'', CHR ''f'')] (CHR ''9'', CHR ''c'') True (- 1500)) =
     Inr \<lparr>ss_value = Some (- 5 / 4), ss_raw = Some (- 3 / 2), ss_unit = ''degC'', ss_quality = Ok,
          ss_calibration_id = Some 7\<rparr>"
  using probe_text_roundtrip [of "[(CHR ''7'', CHR ''2''), (CHR ''f'', CHR ''f'')]" "(CHR ''9'', CHR ''c'')" probe True "- 1500"]
  by (simp add: hex_pair_def hex_char_def probe_def)

text \<open>A probe that does not answer is a fault; nothing the bus does is raised.\<close>

lemma read_never_raises:
  "ds_read (Inl (TimeoutError t)) d = Inr (ds_fault d)" "ds_read (Inl (OSError t)) d = Inr (ds_fault d)"
  "\<exists>smp. ds_parse d content = Inr smp \<or> (\<exists>e. ds_parse d content = Inl (ValueError e))"
  by (auto simp: ds_read_def ds_parse_def py_int_of_def Let_def split: option.splits)

section \<open>Calibration\<close>

lemma foldr_max: "(x :: rat) \<in> set xs \<Longrightarrow> x \<le> foldr max xs 0"
  by (induction xs) (auto simp: le_max_iff_disj)

lemma sum_shift: "sum_list (map (\<lambda>(raw, ref). (raw + off) - ref) points)
    = of_nat (length points) * (off :: rat) - sum_list (map (\<lambda>(raw, ref). ref - raw) points)"
  by (induction points) (auto simp: algebra_simps)

lemma calibration_fits:
  assumes "ds_calibrate fresh points d = (Inr (cid, off, residual), d')"
  shows "sum_list (map (\<lambda>(raw, ref). (raw + ds_offset_c d') - ref) points) = 0"
    and "(raw, ref) \<in> set points \<Longrightarrow> \<bar>(raw + ds_offset_c d') - ref\<bar> \<le> residual"
    and "ds_calibration_id d' = Some fresh" "cid = fresh" "off = ds_offset_c d'"
proof -
  have d': "points \<noteq> []" "d' = d\<lparr>ds_offset_c := off, ds_calibration_id := Some fresh\<rparr>" "cid = fresh"
    "off = sum_list (map (\<lambda>(raw, ref). ref - raw) points) / of_nat (length points)"
    "residual = foldr max (map (\<lambda>(raw, ref). \<bar>(raw + off) - ref\<bar>) points) 0"
    using assms by (auto simp: ds_calibrate_def Let_def split: if_splits)
  show "sum_list (map (\<lambda>(raw, ref). (raw + ds_offset_c d') - ref) points) = 0"
    unfolding sum_shift using d' by simp
  show "\<bar>(raw + ds_offset_c d') - ref\<bar> \<le> residual" if "(raw, ref) \<in> set points"
    using that d'(2,5) by (auto intro!: foldr_max image_eqI [of _ _ "(raw, ref)"])
  show "ds_calibration_id d' = Some fresh" "cid = fresh" "off = ds_offset_c d'" using d' by simp_all
qed

end
