(* ===== verification/Factory.thy ===== *)
theory Factory
  imports Discovery OneWire PiPwm
begin

text \<open>
  Turning assignments into drivers, \<open>hardware_io/factory.py\<close>. Opening an I2C bus and the
  entries of \<open>/sys/class/pwm\<close> are parameters; what is built is recorded as the constructor's
  arguments, a chip shared by its channels under its bus and address.
\<close>

section \<open>One assignment per device\<close>

definition last_per_device :: "device_assignment list \<Rightarrow> device_assignment list" where
  "last_per_device as =
     (let last_index = fold (\<lambda>(i, a). alist_put (da_device_id a) i) (enumerate 0 as) [];
          keep = set (map snd last_index)
      in map snd (filter (\<lambda>(i, a). i \<in> keep) (enumerate 0 as)))"

section \<open>What is built\<close>

datatype built_driver =
    PiPwmBuilt int path
  | Pca9685Built "int \<times> int" int

record built_actuator =
  ba_driver :: built_driver
  ba_registration :: actuator_registration

text \<open>What an assignment that cannot be built raises: the factory's own error or another.\<close>

datatype build_error = TopologyError string | Raised py_error

fun skips :: "build_error \<Rightarrow> bool" where
  "skips (TopologyError t) = True"
| "skips (Raised (KeyError t)) = True"
| "skips (Raised (ValueError t)) = True"
| "skips (Raised e) = False"

record build_env =
  be_open_i2c :: "(int \<Rightarrow> unit result) option"
  be_pwm_class :: "pwm_entry list option"
  be_fresh :: "string \<Rightarrow> uuid"
  be_now :: instant

record build =
  bu_actuators :: "built_actuator list"
  bu_sensors :: "ds18b20 list"
  bu_chips :: "(int \<times> int) list"
  bu_chip_root :: "path option"
  bu_resolved :: bool

definition fresh_build :: "path option \<Rightarrow> build" where
  "fresh_build chip_root = \<lparr>bu_actuators = [], bu_sensors = [], bu_chips = [], bu_chip_root = chip_root,
     bu_resolved = (chip_root \<noteq> None)\<rparr>"

definition binding_at :: "(string \<times> string) list \<Rightarrow> string \<Rightarrow> string result" where
  "binding_at b k = (case map_of b k of None \<Rightarrow> Inl (KeyError k) | Some v \<Rightarrow> Inr v)"

definition binding_int :: "(string \<times> string) list \<Rightarrow> string \<Rightarrow> int \<Rightarrow> int result" where
  "binding_int b k dflt = (case map_of b k of None \<Rightarrow> Inr dflt | Some v \<Rightarrow> py_int_of v)"

definition registration_for :: "build_env \<Rightarrow> device_assignment \<Rightarrow> string \<Rightarrow> actuator_registration result" where
  "registration_for env a driver = light_registration (be_fresh env (da_device_id a)) (be_now env) (da_device_id a)
     driver None LIGHT_MAX_RUNTIME_S LIGHT_HEARTBEAT_TIMEOUT_S"

definition build_sensor :: "device_assignment \<Rightarrow> (string \<times> string) list \<Rightarrow> ds18b20 result" where
  "build_sensor a b =
     res_bind (binding_at b ''rom'') (\<lambda>rom. res_bind (one_wire_device rom) (\<lambda>rom.
       ds18b20_new rom (Some (da_device_id a)) 5 2))"

text \<open>The channel is read before the registration is made.\<close>

definition build_channel ::
    "build_env \<Rightarrow> device_assignment \<Rightarrow> (string \<times> string) list \<Rightarrow> string \<Rightarrow> (int \<Rightarrow> built_driver)
       \<Rightarrow> built_actuator result" where
  "build_channel env a b driver mk =
     res_bind (binding_at b ''channel'') (\<lambda>text. res_bind (py_int_of text) (\<lambda>channel.
     res_bind (registration_for env a driver) (\<lambda>reg.
       Inr \<lparr>ba_driver = mk channel, ba_registration = reg\<rparr>)))"

definition class_path :: "pwm_entry \<Rightarrow> path" where
  "class_path e = [''sys'', ''class'', ''pwm'', pe_name e]"

definition resolve_root :: "build_env \<Rightarrow> build \<Rightarrow> (build_error + unit) \<times> build" where
  "resolve_root env bu =
     (if bu_resolved bu then (Inr (), bu)
      else case find_pwm_chip (be_pwm_class env) of
             Inl e \<Rightarrow> (Inl (Raised e), bu)
           | Inr e \<Rightarrow> (Inr (), bu\<lparr>bu_chip_root := map_option class_path e, bu_resolved := True\<rparr>))"

definition open_chip :: "build_env \<Rightarrow> int \<times> int \<Rightarrow> build \<Rightarrow> (build_error + unit) \<times> build" where
  "open_chip env key bu =
     (if key \<in> set (bu_chips bu) then (Inr (), bu)
      else case be_open_i2c env of
             None \<Rightarrow> (Inl (TopologyError ''no I2C bus provided to the factory''), bu)
           | Some open_i2c \<Rightarrow>
               (case open_i2c (fst key) of
                  Inl e \<Rightarrow> (Inl (Raised e), bu)
                | Inr _ \<Rightarrow> (Inr (), bu\<lparr>bu_chips := bu_chips bu @ [key]\<rparr>)))"

definition keep_actuator :: "built_actuator result \<Rightarrow> build \<Rightarrow> (build_error + unit) \<times> build" where
  "keep_actuator r bu =
     (case r of
        Inl e \<Rightarrow> (Inl (Raised e), bu)
      | Inr ba \<Rightarrow> (Inr (), bu\<lparr>bu_actuators := bu_actuators bu @ [ba]\<rparr>))"

definition build_one :: "build_env \<Rightarrow> device_assignment \<Rightarrow> build \<Rightarrow> (build_error + unit) \<times> build" where
  "build_one env a bu =
     (let b = (case da_binding a of None \<Rightarrow> [] | Some b \<Rightarrow> b) in
      if da_driver_type a = Some ''ds18b20'' then
        (case build_sensor a b of
           Inl e \<Rightarrow> (Inl (Raised e), bu)
         | Inr d \<Rightarrow> (Inr (), bu\<lparr>bu_sensors := bu_sensors bu @ [d]\<rparr>))
      else if da_driver_type a = Some ''pi-pwm'' then
        (case resolve_root env bu of
           (Inl e, bu) \<Rightarrow> (Inl e, bu)
         | (Inr _, bu) \<Rightarrow>
             (case bu_chip_root bu of
                None \<Rightarrow> (Inl (TopologyError ''no RP1 PWM0 chip resolved by identity''), bu)
              | Some chip_root \<Rightarrow> keep_actuator (build_channel env a b ''rp1-pwm'' (\<lambda>ch. PiPwmBuilt ch chip_root)) bu))
      else if da_driver_type a = Some ''pca9685'' then
        (case res_bind (binding_int b ''bus'' 1) (\<lambda>bus.
              res_bind (binding_int b ''address'' 0x40) (\<lambda>address. Inr (bus, address))) of
           Inl e \<Rightarrow> (Inl (Raised e), bu)
         | Inr key \<Rightarrow>
             (case open_chip env key bu of
                (Inl e, bu) \<Rightarrow> (Inl e, bu)
              | (Inr _, bu) \<Rightarrow> keep_actuator (build_channel env a b ''pca9685'' (Pca9685Built key)) bu))
      else (Inl (TopologyError ''unknown driver type''), bu))"

fun build_loop ::
    "build_env \<Rightarrow> device_assignment list \<Rightarrow> build \<Rightarrow> (built_actuator list \<times> ds18b20 list) result" where
  "build_loop env [] bu = Inr (bu_actuators bu, bu_sensors bu)"
| "build_loop env (a # as) bu =
     (if \<not> da_adopted a then build_loop env as bu
      else case build_one env a bu of
             (Inr _, bu) \<Rightarrow> build_loop env as bu
           | (Inl (Raised e), bu) \<Rightarrow> if skips (Raised e) then build_loop env as bu else Inl e
           | (Inl (TopologyError t), bu) \<Rightarrow> build_loop env as bu)"

definition build_from_assignments ::
    "build_env \<Rightarrow> path option \<Rightarrow> device_assignment list \<Rightarrow> (built_actuator list \<times> ds18b20 list) result" where
  "build_from_assignments env chip_root as = build_loop env (last_per_device as) (fresh_build chip_root)"

section \<open>The last assignment of a device wins\<close>

fun last_rec :: "device_assignment list \<Rightarrow> device_assignment list" where
  "last_rec [] = []"
| "last_rec (a # as) =
     (if list_ex (\<lambda>b. da_device_id b = da_device_id a) as then last_rec as else a # last_rec as)"

definition last_index :: "device_assignment list \<Rightarrow> (string \<times> nat) list" where
  "last_index as = fold (\<lambda>(i, a). alist_put (da_device_id a) i) (enumerate 0 as) []"

lemma last_index_snoc: "last_index (as @ [a]) = alist_put (da_device_id a) (length as) (last_index as)"
  by (simp add: last_index_def enumerate_append_eq)

lemma last_index_Nil [simp]: "last_index [] = []"
  by (simp add: last_index_def)

lemma last_index_sound:
  "map_of (last_index as) d = Some i \<Longrightarrow> i < length as \<and> da_device_id (as ! i) = d"
proof (induction as rule: rev_induct)
  case (snoc a as)
  then show ?case by (cases "d = da_device_id a") (auto simp: last_index_snoc nth_append)
qed simp

lemma last_index_distinct: "distinct (map fst (last_index as))"
  by (induction as rule: rev_induct) (auto simp: last_index_snoc)

lemma last_index_keeps:
  assumes "(i, a) \<in> set (enumerate 0 as)"
  shows "i \<in> set (map snd (last_index as)) \<longleftrightarrow> map_of (last_index as) (da_device_id a) = Some i"
proof
  assume "i \<in> set (map snd (last_index as))"
  then obtain d where "map_of (last_index as) d = Some i"
    using last_index_distinct by (auto simp: map_of_eq_Some_iff)
  with last_index_sound [OF this] assms show "map_of (last_index as) (da_device_id a) = Some i"
    by (auto simp: in_set_enumerate_eq)
qed (auto dest!: map_of_SomeD intro: rev_image_eqI)

lemma last_rec_snoc: "last_rec (as @ [a]) = filter (\<lambda>b. da_device_id b \<noteq> da_device_id a) (last_rec as) @ [a]"
  by (induction as) auto

lemma last_per_device_rec: "last_per_device as = last_rec as"
proof -
  have kept: "filter (\<lambda>(i, a). i \<in> set (map snd (last_index as))) (enumerate 0 as)
      = filter (\<lambda>(i, a). map_of (last_index as) (da_device_id a) = Some i) (enumerate 0 as)" for as
    by (rule filter_cong) (use last_index_keeps in auto)
  have "map snd (filter (\<lambda>(i, a). map_of (last_index as) (da_device_id a) = Some i) (enumerate 0 as)) = last_rec as"
  proof (induction as rule: rev_induct)
    case (snoc a as)
    have "filter (\<lambda>(i, b). map_of (last_index (as @ [a])) (da_device_id b) = Some i) (enumerate 0 as)
        = filter (\<lambda>(i, b). da_device_id b \<noteq> da_device_id a)
            (filter (\<lambda>(i, b). map_of (last_index as) (da_device_id b) = Some i) (enumerate 0 as))"
      unfolding filter_filter
      by (rule filter_cong) (auto simp: last_index_snoc in_set_enumerate_eq)
    note older = this
    have ids: "map snd (filter (\<lambda>(i, b). da_device_id b \<noteq> da_device_id a) ps)
        = filter (\<lambda>b. da_device_id b \<noteq> da_device_id a) (map snd ps)" for ps :: "(nat \<times> device_assignment) list"
      by (simp add: filter_map comp_def split_def)
    have "map snd (filter (\<lambda>(i, b). map_of (last_index (as @ [a])) (da_device_id b) = Some i) (enumerate 0 (as @ [a])))
        = map snd (filter (\<lambda>(i, b). map_of (last_index (as @ [a])) (da_device_id b) = Some i) (enumerate 0 as)) @ [a]"
      by (simp add: enumerate_append_eq last_index_snoc)
    also have "\<dots> = last_rec (as @ [a])"
      unfolding older ids snoc.IH last_rec_snoc ..
    finally show ?case .
  qed simp
  moreover have "last_per_device as = map snd (filter (\<lambda>(i, a). i \<in> set (map snd (last_index as))) (enumerate 0 as))"
    by (simp only: last_per_device_def last_index_def Let_def)
  ultimately show ?thesis by (simp only: kept)
qed

section \<open>Every device on its own\<close>

definition build_ok :: "build_env \<Rightarrow> path option \<Rightarrow> build \<Rightarrow> bool" where
  "build_ok env chip_root bu \<longleftrightarrow>
     (case chip_root of
        Some r \<Rightarrow> bu_resolved bu \<and> bu_chip_root bu = Some r
      | None \<Rightarrow> bu_resolved bu \<longrightarrow> find_pwm_chip (be_pwm_class env) = Inr None \<and> bu_chip_root bu = None
               \<or> (\<exists>e. find_pwm_chip (be_pwm_class env) = Inr (Some e) \<and> bu_chip_root bu = Some (class_path e)))
     \<and> (\<forall>key \<in> set (bu_chips bu). \<exists>f. be_open_i2c env = Some f \<and> f (fst key) = Inr ())"

lemma fresh_build_ok [simp]: "build_ok env chip_root (fresh_build chip_root)"
  by (auto simp: build_ok_def fresh_build_def split: option.splits)

lemma build_ok_frame [simp]:
  "build_ok env chip_root (bu\<lparr>bu_actuators := xs\<rparr>) = build_ok env chip_root bu"
  "build_ok env chip_root (bu\<lparr>bu_sensors := ys\<rparr>) = build_ok env chip_root bu"
  by (cases chip_root; simp add: build_ok_def)+

lemma build_ok_chip:
  "build_ok env chip_root bu \<Longrightarrow> key \<in> set (bu_chips bu) \<Longrightarrow> \<exists>f. be_open_i2c env = Some f \<and> f (fst key) = Inr ()"
  by (simp add: build_ok_def)

lemma build_ok_add_chip:
  "build_ok env chip_root bu \<Longrightarrow> be_open_i2c env = Some f \<Longrightarrow> f (fst key) = Inr () \<Longrightarrow>
     build_ok env chip_root (bu\<lparr>bu_chips := bu_chips bu @ [key]\<rparr>)"
  by (cases chip_root; simp add: build_ok_def)

lemma fresh_build_simps [simp]:
  "bu_actuators (fresh_build r) = []" "bu_sensors (fresh_build r) = []" "bu_chips (fresh_build r) = []"
  "bu_chip_root (fresh_build r) = r" "bu_resolved (fresh_build r) = (r \<noteq> None)"
  by (simp_all add: fresh_build_def)

definition same_lists :: "build \<Rightarrow> build \<Rightarrow> bool" where
  "same_lists bu bu' \<longleftrightarrow> bu_actuators bu' = bu_actuators bu \<and> bu_sensors bu' = bu_sensors bu"

lemma resolve_root_alone:
  assumes "build_ok env chip_root bu"
  obtains e bu0 bu1 where "resolve_root env (fresh_build chip_root) = (Inl e, bu0)" "resolve_root env bu = (Inl e, bu1)"
      "build_ok env chip_root bu1" "same_lists bu bu1" "same_lists (fresh_build chip_root) bu0"
  | bu0 bu1 where "resolve_root env (fresh_build chip_root) = (Inr (), bu0)" "resolve_root env bu = (Inr (), bu1)"
      "build_ok env chip_root bu1" "same_lists bu bu1" "same_lists (fresh_build chip_root) bu0"
      "bu_chip_root bu1 = bu_chip_root bu0"
proof (cases "bu_resolved bu")
  case True
  then have bu: "resolve_root env bu = (Inr (), bu)" by (simp add: resolve_root_def)
  show ?thesis
  proof (cases "resolve_root env (fresh_build chip_root)")
    case (Pair r bu0)
    with True assms have "r = Inr ()" "bu_chip_root bu = bu_chip_root bu0" "same_lists (fresh_build chip_root) bu0"
      by (cases chip_root; auto simp: resolve_root_def build_ok_def same_lists_def)+
    with Pair bu assms show ?thesis by (auto intro: that(2) simp: same_lists_def)
  qed
next
  case False
  with assms have root: "chip_root = None" by (cases chip_root) (auto simp: build_ok_def)
  show ?thesis
  proof (cases "find_pwm_chip (be_pwm_class env)")
    case (Inl x)
    with False root assms show ?thesis by (auto intro: that(1) simp: resolve_root_def same_lists_def)
  next
    case (Inr x)
    with False root assms show ?thesis
      by (cases x) (auto intro!: that(2) simp: resolve_root_def same_lists_def build_ok_def)
  qed
qed

lemma open_chip_alone:
  assumes "build_ok env chip_root bu"
  obtains e where "open_chip env key (fresh_build chip_root) = (Inl e, fresh_build chip_root)"
      "open_chip env key bu = (Inl e, bu)"
  | bu0 bu1 where "open_chip env key (fresh_build chip_root) = (Inr (), bu0)" "open_chip env key bu = (Inr (), bu1)"
      "build_ok env chip_root bu1" "same_lists bu bu1" "same_lists (fresh_build chip_root) bu0"
proof (cases "be_open_i2c env")
  case None
  then have "key \<notin> set (bu_chips bu)" using build_ok_chip [OF assms, of key] by auto
  then show ?thesis using None that(1) by (simp add: open_chip_def)
next
  case (Some f)
  show ?thesis
  proof (cases "f (fst key)")
    case (Inl e)
    then have "key \<notin> set (bu_chips bu)" using build_ok_chip [OF assms, of key] Some by auto
    then show ?thesis using Inl Some that(1) by (simp add: open_chip_def)
  next
    case (Inr u)
    then have f: "f (fst key) = Inr ()" by simp
    have "open_chip env key (fresh_build chip_root) = (Inr (), fresh_build chip_root\<lparr>bu_chips := [key]\<rparr>)"
      using Some f by (simp add: open_chip_def)
    moreover have "open_chip env key bu = (Inr (), if key \<in> set (bu_chips bu) then bu else bu\<lparr>bu_chips := bu_chips bu @ [key]\<rparr>)"
      using Some f by (simp add: open_chip_def)
    ultimately show ?thesis
      using assms build_ok_add_chip [OF assms Some f] by (auto intro: that(2) simp: same_lists_def)
  qed
qed

lemma keep_actuator_alone:
  "fst (keep_actuator r bu1) = fst (keep_actuator r bu0)"
  "build_ok env chip_root (snd (keep_actuator r bu1)) = build_ok env chip_root bu1"
  "bu_actuators (snd (keep_actuator r bu1)) = bu_actuators bu1 @ (case r of Inl e \<Rightarrow> [] | Inr ba \<Rightarrow> [ba])"
  "bu_sensors (snd (keep_actuator r bu1)) = bu_sensors bu1"
  by (auto simp: keep_actuator_def split: sum.splits)

definition adds_alone :: "build_env \<Rightarrow> path option \<Rightarrow> build \<Rightarrow> (build_error + unit) \<times> build
    \<Rightarrow> (build_error + unit) \<times> build \<Rightarrow> bool" where
  "adds_alone env chip_root bu q0 q \<longleftrightarrow> fst q = fst q0 \<and> build_ok env chip_root (snd q)
     \<and> bu_actuators (snd q) = bu_actuators bu @ bu_actuators (snd q0)
     \<and> bu_sensors (snd q) = bu_sensors bu @ bu_sensors (snd q0)"

lemma build_one_alone:
  assumes ok: "build_ok env chip_root bu"
  shows "adds_alone env chip_root bu (build_one env a (fresh_build chip_root)) (build_one env a bu)"
proof -
  let ?b = "case da_binding a of None \<Rightarrow> [] | Some b \<Rightarrow> b"
  consider (probe) "da_driver_type a = Some ''ds18b20''" | (pwm) "da_driver_type a = Some ''pi-pwm''"
    | (pca) "da_driver_type a = Some ''pca9685''"
    | (other) "da_driver_type a \<notin> {Some ''ds18b20'', Some ''pi-pwm'', Some ''pca9685''}"
    by blast
  then show ?thesis
  proof cases
    case probe
    then show ?thesis
      using ok by (cases "build_sensor a ?b") (simp_all add: build_one_def adds_alone_def)
  next
    case pwm
    from ok show ?thesis
    proof (cases rule: resolve_root_alone)
      case (1 e bu0 bu1)
      with pwm show ?thesis by (simp add: build_one_def adds_alone_def same_lists_def)
    next
      case (2 bu0 bu1)
      from 2 pwm show ?thesis
        by (cases "bu_chip_root bu0")
          (simp_all add: build_one_def adds_alone_def same_lists_def keep_actuator_alone (2-4)
            keep_actuator_alone (1) [of _ bu1 bu0])
    qed
  next
    case pca
    show ?thesis
    proof (cases "res_bind (binding_int ?b ''bus'' 1) (\<lambda>bus.
        res_bind (binding_int ?b ''address'' 0x40) (\<lambda>address. Inr (bus, address)))")
      case (Inl e)
      with pca ok show ?thesis by (simp add: build_one_def adds_alone_def)
    next
      case (Inr key)
      from ok show ?thesis
      proof (cases rule: open_chip_alone [where key = key])
        case (1 e)
        with Inr pca ok show ?thesis by (simp add: build_one_def adds_alone_def)
      next
        case (2 bu0 bu1)
        with Inr pca show ?thesis
          by (simp add: build_one_def adds_alone_def same_lists_def keep_actuator_alone (2-4)
            keep_actuator_alone (1) [of _ bu1 bu0])
      qed
    qed
  next
    case other
    then show ?thesis using ok by (simp add: build_one_def adds_alone_def)
  qed
qed

lemma build_loop_alone:
  "build_ok env chip_root bu \<Longrightarrow>
     build_loop env as bu =
       (case map_result (\<lambda>a. build_loop env [a] (fresh_build chip_root)) as of
          Inl e \<Rightarrow> Inl e
        | Inr parts \<Rightarrow> Inr (bu_actuators bu @ concat (map fst parts), bu_sensors bu @ concat (map snd parts)))"
proof (induction as arbitrary: bu)
  case (Cons a as)
  show ?case
  proof (cases "da_adopted a")
    case False
    with Cons show ?thesis by (auto split: sum.splits simp: res_bind_def)
  next
    case True
    obtain r0 b0 r b where one: "build_one env a (fresh_build chip_root) = (r0, b0)" "build_one env a bu = (r, b)"
      by fastforce
    then have alone: "r = r0" "build_ok env chip_root b" "bu_actuators b = bu_actuators bu @ bu_actuators b0"
      "bu_sensors b = bu_sensors bu @ bu_sensors b0"
      using build_one_alone [OF Cons.prems, of a] by (auto simp: adds_alone_def)
    show ?thesis
      using True one alone Cons.IH [OF alone(2)]
      by (auto simp: res_bind_def split: sum.splits build_error.splits)
  qed
qed simp

lemma build_alone:
  "build_from_assignments env chip_root as =
     (case map_result (\<lambda>a. build_from_assignments env chip_root [a]) (last_per_device as) of
        Inl e \<Rightarrow> Inl e
      | Inr parts \<Rightarrow> Inr (concat (map fst parts), concat (map snd parts)))"
proof -
  have single: "build_from_assignments env chip_root [a] = build_loop env [a] (fresh_build chip_root)" for a
    by (simp add: build_from_assignments_def last_per_device_rec)
  have all: "build_from_assignments env chip_root as = build_loop env (last_per_device as) (fresh_build chip_root)"
    by (simp only: build_from_assignments_def)
  show ?thesis
    unfolding all single
    by (subst build_loop_alone [OF fresh_build_ok]) (simp only: fresh_build_simps append_Nil)
qed

section \<open>What a bad assignment costs\<close>

text \<open>
  A device is built the way it would be built alone: the build of a registry is the
  builds of its devices one after the other, each device counted once with its last
  assignment, so a bad assignment, a chip another device opened first or the search another
  device made first change nothing for the rest; it raises exactly when one of them raises.
\<close>

theorem each_device_builds_alone:
  "build_from_assignments env chip_root as =
     (case map_result (\<lambda>a. build_from_assignments env chip_root [a]) (last_per_device as) of
        Inl e \<Rightarrow> Inl e
      | Inr parts \<Rightarrow> Inr (concat (map fst parts), concat (map snd parts)))
   \<and> distinct (map da_device_id (last_per_device as))
   \<and> find (\<lambda>a. da_device_id a = d) (last_per_device as) = find (\<lambda>a. da_device_id a = d) (rev as)"
proof -
  have ids: "da_device_id ` set (last_rec bs) = da_device_id ` set bs" for bs
    by (induction bs) (auto simp: list_ex_iff intro: image_eqI [OF sym])
  have "distinct (map da_device_id (last_rec as))"
    by (induction as) (auto simp: ids list_ex_iff)
  moreover have "find (\<lambda>a. da_device_id a = d) (last_rec as) = find (\<lambda>a. da_device_id a = d) (rev as)"
  proof -
    have split: "find P (xs @ ys) = (case find P xs of Some x \<Rightarrow> Some x | None \<Rightarrow> find P ys)"
      for P and xs ys :: "device_assignment list"
      by (induction xs) auto
    show ?thesis
    proof (induction as)
      case (Cons a as)
      show ?case
      proof (cases "list_ex (\<lambda>b. da_device_id b = da_device_id a) as")
        case True
        then have "da_device_id a = d \<Longrightarrow> find (\<lambda>a. da_device_id a = d) (rev as) \<noteq> None"
          by (auto simp: find_None_iff list_ex_iff)
        with True Cons show ?thesis by (auto simp: split split: option.splits)
      next
        case False
        then have "da_device_id a = d \<Longrightarrow> find (\<lambda>a. da_device_id a = d) (rev as) = None"
          by (auto simp: find_None_iff list_ex_iff)
        with False Cons show ?thesis by (auto simp: split split: option.splits)
      qed
    qed simp
  qed
  ultimately show ?thesis
    using build_alone [of env chip_root as] by (simp only: last_per_device_rec)
qed

lemma skips_value: "is_value_error e \<Longrightarrow> skips (Raised e)"
  by (cases e) auto

lemma validated_value_error:
  "validated gs x = Inl e \<Longrightarrow> list_all (\<lambda>g. is_value_error (snd g)) gs \<Longrightarrow> is_value_error e"
  using validated_Inl by (fastforce simp: list_all_iff)

lemma light_registration_skips:
  "light_registration mid now aid driver safe rt hb = Inl e \<Longrightarrow> skips (Raised e)"
  by (auto simp: light_registration_def validate_actuator_registration_def authority_governs_safety_def
      message_guards_def missing_triple_Nil res_bind_def
      intro!: skips_value dest!: validated_value_error split: sum.splits if_splits)

lemma build_sensor_skips: "build_sensor a b = Inl e \<Longrightarrow> skips (Raised e)"
  by (auto simp: build_sensor_def binding_at_def one_wire_device_def ds18b20_new_def validated_def
      split: option.splits if_splits)

lemma py_int_skips: "py_int_of t = Inl e \<Longrightarrow> skips (Raised e)"
  by (auto simp: py_int_of_def Let_def split: option.splits)

lemma build_channel_skips: "build_channel env a b driver mk = Inl e \<Longrightarrow> skips (Raised e)"
  by (auto simp: build_channel_def binding_at_def registration_for_def res_bind_def
      dest: py_int_skips light_registration_skips split: option.splits sum.splits)

lemma binding_key_skips:
  "res_bind (binding_int b ''bus'' 1) (\<lambda>bus. res_bind (binding_int b ''address'' 0x40) (\<lambda>address. Inr (bus, address))) = Inl e
     \<Longrightarrow> skips (Raised e)"
  by (auto simp: binding_int_def res_bind_def dest: py_int_skips split: option.splits sum.splits)

lemma build_one_skips:
  assumes "isOk (find_pwm_chip (be_pwm_class env))"
    and "\<And>f bus e. be_open_i2c env = Some f \<Longrightarrow> f bus = Inl e \<Longrightarrow> skips (Raised e)"
    and "build_one env a bu = (Inl e, bu')"
  shows "skips e"
proof -
  have keep: "keep_actuator (build_channel env a b driver mk) u = (Inl e, u') \<Longrightarrow> skips e" for b driver mk u u'
    by (auto simp: keep_actuator_def dest: build_channel_skips split: sum.splits)
  have root: "resolve_root env bu \<noteq> (Inl x, u)" for x u
    using assms(1) by (auto simp: resolve_root_def split: sum.splits)
  have chip: "open_chip env key bu = (Inl x, u) \<Longrightarrow> skips x" for key x u
    using assms(2) by (auto simp: open_chip_def split: if_splits option.splits sum.splits)
  show ?thesis
    using assms(3) root unfolding build_one_def Let_def
    by (auto dest: build_sensor_skips keep chip binding_key_skips split: if_splits sum.splits prod.splits option.splits)
qed

lemma build_loop_survives:
  assumes "isOk (find_pwm_chip (be_pwm_class env))"
    and "\<And>f bus e. be_open_i2c env = Some f \<Longrightarrow> f bus = Inl e \<Longrightarrow> skips (Raised e)"
  shows "isOk (build_loop env as bu)"
proof (induction as arbitrary: bu)
  case (Cons a as)
  obtain r bu' where one: "build_one env a bu = (r, bu')" by fastforce
  show ?case
  proof (cases r)
    case (Inl e)
    with build_one_skips [OF assms] one have "skips e" by simp
    with one Inl Cons.IH show ?thesis by (cases e) auto
  qed (use one Cons.IH in simp)
qed simp

text \<open>
  A bad assignment is not fatal: as long as the search for the PWM chip returns, and
  opening a bus raises nothing but the two exceptions the factory catches, the build returns,
  whatever the assignments are.
\<close>

theorem bad_assignments_are_skipped:
  assumes "isOk (find_pwm_chip (be_pwm_class env))"
    and "\<And>f bus e. be_open_i2c env = Some f \<Longrightarrow> f bus = Inl e \<Longrightarrow> skips (Raised e)"
  shows "isOk (build_from_assignments env chip_root as)"
  unfolding build_from_assignments_def by (rule build_loop_survives [OF assms])

lemma map_result_raises: "x \<in> set xs \<Longrightarrow> f x = Inl e \<Longrightarrow> \<exists>e. map_result f xs = Inl e"
  by (induction xs) (auto simp: res_bind_def split: sum.splits)

text \<open>
  A bus that is not there takes every device down: an adopted PCA9685 channel on a bus
  whose opening raises an \<open>OSError\<close> makes the whole build raise, whatever else the hub owns
  and however well the rest would build.
\<close>

theorem missing_bus_stops_the_build:
  assumes "a \<in> set (last_per_device as)" "da_adopted a" "da_driver_type a = Some ''pca9685''"
    and "da_binding a = Some b" "binding_int b ''bus'' 1 = Inr bus" "binding_int b ''address'' 0x40 = Inr address"
    and "be_open_i2c env = Some open_i2c" "open_i2c bus = Inl (OSError t)"
  shows "\<exists>e. build_from_assignments env chip_root as = Inl e"
proof -
  have "build_from_assignments env chip_root [a] = Inl (OSError t)"
    using assms by (simp add: build_from_assignments_def last_per_device_rec build_one_def open_chip_def)
  with map_result_raises [OF assms(1), of "\<lambda>a. build_from_assignments env chip_root [a]"]
  show ?thesis unfolding build_alone [of env chip_root as] by auto
qed

section \<open>A hub with a probe and a light\<close>

definition probe_assignment :: device_assignment where
  "probe_assignment = \<lparr>schema_version = 2, message_id = 1, emitted_at = 0, source = ''api'',
     da_device_id = ''tank'', da_adopted = True, da_role = None, da_driver_type = Some ''ds18b20'',
     da_binding = Some [(''rom'', ''28-0000075d1b2c'')]\<rparr>"

definition light_assignment :: device_assignment where
  "light_assignment = \<lparr>schema_version = 2, message_id = 2, emitted_at = 0, source = ''api'',
     da_device_id = ''blue'', da_adopted = True, da_role = Some Light, da_driver_type = Some ''pca9685'',
     da_binding = Some [(''channel'', ''3'')]\<rparr>"

definition no_bus :: build_env where
  "no_bus = \<lparr>be_open_i2c = Some (\<lambda>bus. Inl (OSError ''No such file or directory'')), be_pwm_class = None,
     be_fresh = (\<lambda>d. 7), be_now = 0\<rparr>"

definition no_open :: build_env where
  "no_open = no_bus\<lparr>be_open_i2c := None\<rparr>"

theorem missing_bus_stops_the_build_witness:
  "\<exists>e. build_from_assignments no_bus None [probe_assignment, light_assignment] = Inl e"
  by (rule missing_bus_stops_the_build [where a = light_assignment and b = "[(''channel'', ''3'')]" and bus = "1"
        and address = "0x40" and open_i2c = "\<lambda>bus. Inl (OSError ''No such file or directory'')"
        and t = "''No such file or directory''"])
    (simp_all add: last_per_device_rec probe_assignment_def light_assignment_def binding_int_def no_bus_def)

theorem bad_assignments_are_skipped_witness:
  "isOk (build_from_assignments no_open None [probe_assignment, light_assignment])"
  by (rule bad_assignments_are_skipped) (simp_all add: no_open_def no_bus_def find_pwm_chip_def)

lemma probe_alone_builds:
  "build_from_assignments no_bus None [probe_assignment] =
     Inr ([], [\<lparr>ds_driver_id = ''tank'', ds_rom = ''28-0000075d1b2c'', ds_poll_interval_s = 5, ds_read_timeout_s = 2,
                ds_offset_c = 0, ds_calibration_id = None\<rparr>])"
  by (simp add: build_from_assignments_def last_per_device_rec probe_assignment_def build_one_def build_sensor_def
      binding_at_def one_wire_device_def hex_char_def ds18b20_new_def validated_def)

end
