(* ===== verification/Clock.thy ===== *)
theory Clock
  imports Prelude
begin

text \<open>
  The shared clock predicate and the liveness guard,
  \<open>services/shared/bellasreef_service/clock.py\<close> and \<open>watchdog.py\<close>. What the operating system
  answers (the subprocess, the system call, the environment) is the argument.
\<close>

section \<open>Whether the clock can be believed\<close>

datatype adjtimex_answer = NoSyscall | SyscallRaised | Returned int

definition TIME_ERROR :: int where "TIME_ERROR = 5"

definition kernel_clock_synchronised :: "adjtimex_answer \<Rightarrow> bool option" where
  "kernel_clock_synchronised a =
     (case a of NoSyscall \<Rightarrow> None | SyscallRaised \<Rightarrow> None
      | Returned r \<Rightarrow> if r < 0 then None else Some (r \<noteq> TIME_ERROR))"

datatype timedatectl_answer = Unreachable | Exited int string

definition is_space :: "char \<Rightarrow> bool" where
  "is_space c = (c \<in> {CHR '' '', CHR 0x09, CHR 0x0A, CHR 0x0B, CHR 0x0C, CHR 0x0D,
     CHR 0x1C, CHR 0x1D, CHR 0x1E, CHR 0x1F})"

definition str_strip :: "string \<Rightarrow> string" where
  "str_strip s = rev (dropWhile is_space (rev (dropWhile is_space s)))"

definition lower_char :: "char \<Rightarrow> char" where
  "lower_char c = (let n = of_char c :: nat in if 65 \<le> n \<and> n \<le> 90 then char_of (n + 32) else c)"

definition timedatectl_says_trusted :: "timedatectl_answer \<Rightarrow> bool option" where
  "timedatectl_says_trusted a =
     (case a of Unreachable \<Rightarrow> None
      | Exited rc out \<Rightarrow> if rc \<noteq> 0 then None else Some (map lower_char (str_strip out) = ''yes''))"

text \<open>The latch behind the disagreement log: whether to warn, and the latch afterwards.\<close>

definition shadow_disagreement :: "bool option \<Rightarrow> bool \<Rightarrow> bool option \<Rightarrow> bool \<times> bool option" where
  "shadow_disagreement krn returned last_shadow =
     (if krn = None \<or> krn = Some returned then (False, None)
      else if last_shadow = krn then (False, last_shadow)
      else (True, krn))"

definition clock_is_trusted ::
    "timedatectl_answer \<Rightarrow> adjtimex_answer \<Rightarrow> string option \<Rightarrow> bool option
       \<Rightarrow> bool \<times> bool \<times> bool option" where
  "clock_is_trusted td ax assume_env last_shadow =
     (case timedatectl_says_trusted td of
        Some b \<Rightarrow> (b, shadow_disagreement (kernel_clock_synchronised ax) b last_shadow)
      | None \<Rightarrow>
         (case kernel_clock_synchronised ax of
            Some k \<Rightarrow> (k, False, last_shadow)
          | None \<Rightarrow> (assume_env = Some ''1'', False, last_shadow)))"

text \<open>
  The clock is trusted only on a positive answer. When systemd answers, its answer
  stands; otherwise the kernel's does; and when neither answers the only way to be trusted
  is the explicit environment opt-in. In particular the opt-in never overrides an oracle
  that says the clock is wrong.
\<close>

theorem clock_trust_needs_an_oracle:
  "fst (clock_is_trusted td ax assume_env l) \<longleftrightarrow>
     (case td of
        Exited rc out \<Rightarrow> rc = 0 \<and> map lower_char (str_strip out) = ''yes''
          \<or> rc \<noteq> 0 \<and> (case kernel_clock_synchronised ax of Some k \<Rightarrow> k | None \<Rightarrow> assume_env = Some ''1'')
      | Unreachable \<Rightarrow> (case kernel_clock_synchronised ax of Some k \<Rightarrow> k | None \<Rightarrow> assume_env = Some ''1''))"
  by (cases td) (auto simp: clock_is_trusted_def timedatectl_says_trusted_def split: option.splits)

section \<open>The liveness guard\<close>

record liveness_guard =
  lg_timeout_s :: seconds
  lg_check_interval_s :: seconds
  lg_last_beat :: seconds
  lg_exited :: "int option"

definition LIVENESS_EXIT_CODE :: int where "LIVENESS_EXIT_CODE = 70"

definition liveness_new :: "seconds \<Rightarrow> seconds \<Rightarrow> seconds \<Rightarrow> liveness_guard result" where
  "liveness_new timeout_s check_interval_s now = validated
     [(\<not> timeout_s \<le> 0, ValueError ''timeout_s must be > 0'')]
     \<lparr>lg_timeout_s = timeout_s, lg_check_interval_s = min check_interval_s (timeout_s / 2),
      lg_last_beat = now, lg_exited = None\<rparr>"

definition liveness_beat :: "seconds \<Rightarrow> liveness_guard \<Rightarrow> liveness_guard" where
  "liveness_beat now g = g\<lparr>lg_last_beat := now\<rparr>"

definition liveness_age_s :: "seconds \<Rightarrow> liveness_guard \<Rightarrow> seconds" where
  "liveness_age_s now g = now - lg_last_beat g"

text \<open>One turn of the guard's thread; the process is gone after an exit.\<close>

definition liveness_check :: "seconds \<Rightarrow> liveness_guard \<Rightarrow> liveness_guard" where
  "liveness_check now g =
     (if lg_exited g = None \<and> lg_timeout_s g < liveness_age_s now g
      then g\<lparr>lg_exited := Some LIVENESS_EXIT_CODE\<rparr> else g)"

datatype guard_event = Beat | Check

fun guard_run :: "(seconds \<times> guard_event) list \<Rightarrow> liveness_guard \<Rightarrow> liveness_guard" where
  "guard_run [] g = g"
| "guard_run ((t, Beat) # es) g = guard_run es (liveness_beat t g)"
| "guard_run ((t, Check) # es) g = guard_run es (liveness_check t g)"

text \<open>The largest age a check of the trace sees.\<close>

fun stalls :: "seconds \<Rightarrow> seconds \<Rightarrow> (seconds \<times> guard_event) list \<Rightarrow> bool" where
  "stalls timeout b [] = False"
| "stalls timeout b ((t, Beat) # es) = stalls timeout t es"
| "stalls timeout b ((t, Check) # es) = (timeout < t - b \<or> stalls timeout b es)"

lemma guard_run_exited:
  "lg_exited (guard_run es g) =
     (if lg_exited g \<noteq> None then lg_exited g
      else if stalls (lg_timeout_s g) (lg_last_beat g) es then Some LIVENESS_EXIT_CODE else None)"
  by (induction es g rule: guard_run.induct)
    (auto simp: liveness_beat_def liveness_check_def liveness_age_s_def)

text \<open>
  The guard kills the process, with its own exit code, exactly when some check of its
  thread finds the last beat older than the timeout; a loop that keeps beating in time is
  never killed, and one that stops is killed at the first check past the timeout.
\<close>

theorem guard_kills_stalled_loop:
  assumes "liveness_new timeout_s check_s t0 = Inr g"
  shows "lg_exited (guard_run es g) = (if stalls timeout_s t0 es then Some LIVENESS_EXIT_CODE else None)
    \<and> lg_check_interval_s g \<le> timeout_s / 2"
  using assms by (auto simp: guard_run_exited liveness_new_def validated_Inr)

theorem guard_kills_stalled_loop_witness:
  "\<exists>g. liveness_new 15 (1/2) 0 = Inr g
     \<and> lg_exited (guard_run [(1, Beat), (16, Check)] g) = None
     \<and> lg_exited (guard_run [(1, Beat), (16 + 1/2, Check)] g) = Some 70"
proof -
  obtain g where g: "liveness_new 15 (1/2) 0 = Inr g" by (simp add: liveness_new_def validated_def)
  from guard_kills_stalled_loop [OF g, of "[(1, Beat), (16, Check)]"]
    guard_kills_stalled_loop [OF g, of "[(1, Beat), (16 + 1/2, Check)]"] g
  show ?thesis by (simp add: LIVENESS_EXIT_CODE_def)
qed

end
