(* ===== verification/HardwareIO.thy ===== *)
theory HardwareIO
  imports Consumer Factory Clock
begin

text \<open>
  The service of \<open>hardware_io/app.py\<close> and the cadence of \<open>host.py\<close>: start-up from the retained
  assignments, one iteration of the loop, what the callbacks do, and the shutdown. The
  supervisor, the consumer and the factory are those of the other theories; the machine, the
  broker and the drivers are parameters. Metrics, logs and the freeze drill are left out.
\<close>

section \<open>The state\<close>

text \<open>The sorted items of a binding stand for their JSON text.\<close>

type_synonym fingerprint = "bool \<times> actuator_role option \<times> string option \<times> (string \<times> string) list option"

definition fingerprint :: "device_assignment \<Rightarrow> fingerprint" where
  "fingerprint a =
     (da_adopted a, da_role a, da_driver_type a, map_option (sort_key fst) (da_binding a))"

record 'd service =
  io_core :: "'d consumer"
  io_has_spine :: bool
  io_commands :: bool
  io_sensors :: "ds18b20 list"
  io_registrations :: "actuator_registration list"
  io_assignments :: "string \<rightharpoonup> fingerprint"
  io_beat_seq :: int
  io_sensor_deadlines :: "string \<rightharpoonup> seconds"
  io_published_chips :: "(capability_source \<times> string) list"
  io_clock_trusted :: bool
  io_clock_refresh_due :: seconds
  io_stopping :: bool
  io_liveness :: liveness_guard
  io_host_due :: seconds
  io_loop_interval_s :: seconds
  io_liveness_timeout_s :: seconds

definition service_init :: "bool \<Rightarrow> seconds \<Rightarrow> seconds \<Rightarrow> pydatetime \<Rightarrow> seconds \<Rightarrow> 'd service result" where
  "service_init trusted loop_interval_s liveness_timeout_s now t =
     res_bind (liveness_new liveness_timeout_s (1 / 2) t) (\<lambda>guard. Inr
     \<lparr>io_core = \<lparr>sp_connected = False, sp_log = [], co_sup = supervisor_init now trusted t, co_subscribed = False,
        co_heal_attempts = 0, co_heal_cause = None\<rparr>,
      io_has_spine = False, io_commands = False, io_sensors = [], io_registrations = [],
      io_assignments = Map.empty, io_beat_seq = 0, io_sensor_deadlines = Map.empty, io_published_chips = [],
      io_clock_trusted = trusted, io_clock_refresh_due = 0, io_stopping = False, io_liveness = guard,
      io_host_due = 0, io_loop_interval_s = loop_interval_s, io_liveness_timeout_s = liveness_timeout_s\<rparr>)"

definition io_sup :: "'d service \<Rightarrow> 'd supervisor" where "io_sup s = co_sup (io_core s)"

definition set_sup :: "'d supervisor \<Rightarrow> 'd service \<Rightarrow> 'd service" where
  "set_sup sv s = s\<lparr>io_core := (io_core s)\<lparr>co_sup := sv\<rparr>\<rparr>"

definition on_core :: "('d consumer, 'a) io \<Rightarrow> ('d service, 'a) io" where
  "on_core m s = (case m (io_core s) of (r, c) \<Rightarrow> (r, s\<lparr>io_core := c\<rparr>))"

fun each_io :: "('x \<Rightarrow> ('s, unit) io) \<Rightarrow> 'x list \<Rightarrow> ('s, unit) io" where
  "each_io f [] = io_return ()"
| "each_io f (x # xs) = io_bind (f x) (\<lambda>_. each_io f xs)"

section \<open>Publishing a state\<close>

definition state_message ::
    "consumer_env \<Rightarrow> string \<Rightarrow> level \<Rightarrow> state_reason \<Rightarrow> bool \<Rightarrow> actuator_state result" where
  "state_message env aid l reason latched = validate_actuator_state
     \<lparr>schema_version = SCHEMA_VERSION, message_id = ce_fresh env, emitted_at = ce_now env,
      source = ''hardware-io'', as_actuator_id = aid, as_level = l, as_reason = reason,
      as_since = ce_now env, as_latched = latched, as_command_acked = None, as_last_exchange_age_s = None\<rparr>"

definition io_publish_state ::
    "consumer_env \<Rightarrow> string \<Rightarrow> level \<Rightarrow> state_reason \<Rightarrow> bool \<Rightarrow> ('d service, unit) io" where
  "io_publish_state env aid l reason latched s =
     (if \<not> io_has_spine s then (Inr (), s)
      else on_core (swallow (io_bind (io_result (state_message env aid l reason latched))
             (spine_publish_state (ce_nats env)))) s)"

definition publish_startup_state :: "consumer_env \<Rightarrow> actuator_registration \<Rightarrow> ('d service, unit) io" where
  "publish_startup_state env r s =
     (case ar_safe_state r of
        None \<Rightarrow> (Inr (), s)
      | Some l \<Rightarrow>
          io_bind (io_result (is_latched (ar_actuator_id r) (io_sup s)))
            (\<lambda>latched. io_publish_state env (ar_actuator_id r) l Startup latched) s)"

definition publish_startup_states :: "consumer_env \<Rightarrow> ('d service, unit) io" where
  "publish_startup_states env s = each_io (publish_startup_state env) (io_registrations s) s"

definition republish_safe_state :: "consumer_env \<Rightarrow> actuator_registration \<Rightarrow> ('d service, unit) io" where
  "republish_safe_state env r s =
     io_bind (io_result (is_at_safe_state (ar_actuator_id r) (io_sup s))) (\<lambda>safe.
       if \<not> safe then io_return ()
       else case ar_safe_state r of
              None \<Rightarrow> io_return ()
            | Some l \<Rightarrow>
                io_bind (io_result (is_latched (ar_actuator_id r) (io_sup s)))
                  (\<lambda>latched. io_publish_state env (ar_actuator_id r) l SafeState latched)) s"

definition republish_safe_states :: "consumer_env \<Rightarrow> ('d service, unit) io" where
  "republish_safe_states env s = each_io (republish_safe_state env) (io_registrations s) s"

text \<open>The reconnect callback as \<open>connect\<close> wires it: nothing it raises reaches the client.\<close>

definition io_reconnected :: "consumer_env \<Rightarrow> ('d service, unit) io" where
  "io_reconnected env = swallow (republish_safe_states env)"

section \<open>Safety events\<close>

fun trip_state_reason :: "trip_reason \<Rightarrow> state_reason option" where
  "trip_state_reason HeartbeatTimeout = Some SafeState"
| "trip_state_reason MaxRuntimeExceeded = Some InterlockLatch"
| "trip_state_reason Shutdown = Some SafeState"
| "trip_state_reason _ = None"

definition on_safety_event :: "consumer_env \<Rightarrow> safety_event \<Rightarrow> ('d service, unit) io" where
  "on_safety_event env ev =
     (case trip_state_reason (se_reason ev) of
        None \<Rightarrow> io_return ()
      | Some reason \<Rightarrow> swallow (\<lambda>s.
          if \<not> se_reached_safe ev then (Inr (), s)
          else io_bind (io_result (registration_of (se_actuator_id ev) (io_sup s))) (\<lambda>r.
                 case ar_safe_state r of
                   None \<Rightarrow> io_return ()
                 | Some l \<Rightarrow>
                     io_bind (io_result (is_latched (se_actuator_id ev) (io_sup s)))
                       (\<lambda>latched. io_publish_state env (se_actuator_id ev) l reason latched)) s))"

text \<open>The callback as the supervisor sees it: it completes, and suspends when it publishes.\<close>

definition service_sink :: "bool \<Rightarrow> event_sink" where
  "service_sink has_spine ev =
     SinkCompletes (has_spine \<and> trip_state_reason (se_reason ev) \<noteq> None \<and> se_reached_safe ev)"

text \<open>
  A call of the supervisor, and the callback on every event it heard meanwhile. A cancellation
  of the callback is one of the task it runs in, which the supervisor's own steps model.
\<close>

definition with_events ::
    "consumer_env \<Rightarrow> ('d supervisor \<Rightarrow> 'a \<times> 'd supervisor) \<Rightarrow> 'd service \<Rightarrow> 'a \<times> 'd service" where
  "with_events env f s =
     (case f (io_sup s) of
        (r, sv) \<Rightarrow>
          (r, snd (each_io (on_safety_event env) (drop (length (sv_heard (io_sup s))) (sv_heard sv)) (set_sup sv s))))"

section \<open>Building from the registry\<close>

record 'd startup =
  su_env :: consumer_env
  su_build :: build_env
  su_device :: "built_driver \<Rightarrow> 'd"
  su_connect :: "unit result"
  su_pca_state :: "int \<times> int \<Rightarrow> 'd \<Rightarrow> chip_state result"
  su_pwm_device :: "path \<Rightarrow> string result"
  su_pinctrl :: "(int \<times> string) result"
  su_w1_names :: "string list option"
  su_i2c_node :: bool
  su_mode1 :: "int result"

definition remember_assignments :: "device_assignment list \<Rightarrow> 'd service \<Rightarrow> 'd service" where
  "remember_assignments as s = s\<lparr>io_assignments := map_of (rev (map (\<lambda>a. (da_device_id a, fingerprint a)) as))\<rparr>"

definition publish_chip_state_once :: "consumer_env \<Rightarrow> chip_state \<Rightarrow> ('d service, unit) io" where
  "publish_chip_state_once env cs s =
     (let key = (cs_hardware_source cs, cs_instance cs)
      in if key \<in> set (io_published_chips s) \<or> \<not> io_has_spine s then (Inr (), s)
         else case on_core (spine_publish_chip_state (ce_nats env) cs) s of
                (Inl e, s) \<Rightarrow> (if e = CancelledError then Inl e else Inr (), s)
              | (Inr _, s) \<Rightarrow> (Inr (), s\<lparr>io_published_chips := io_published_chips s @ [key]\<rparr>))"

definition present_chip ::
    "consumer_env \<Rightarrow> capability_source \<Rightarrow> string \<Rightarrow> (string \<times> scalar) list \<Rightarrow> chip_state result" where
  "present_chip env src inst facts = validate_chip_state
     \<lparr>schema_version = SCHEMA_VERSION, message_id = ce_fresh env, emitted_at = ce_now env,
      source = ''hardware-io'', cs_hardware_source = src, cs_instance = inst, cs_initialised = True,
      cs_initialised_at = Some (ce_now env), cs_facts = facts\<rparr>"

definition actuator_chip_state :: "'d startup \<Rightarrow> built_driver \<Rightarrow> 'd \<Rightarrow> chip_state result" where
  "actuator_chip_state su built d =
     (case built of
        Pca9685Built key channel \<Rightarrow> su_pca_state su key d
      | PiPwmBuilt channel chip_root \<Rightarrow>
          res_bind (muxed_pwm_channel_count (be_pwm_class (su_build su)) (su_pinctrl su)) (\<lambda>n.
          res_bind (su_pwm_device su chip_root) (\<lambda>device.
          case chip_identity_and_facts device chip_root DEFAULT_PERIOD_NS ''normal'' (map_option int n) of
            (inst, facts) \<Rightarrow> present_chip (su_env su) PiPwm inst facts)))"

definition io_register :: "actuator_registration \<Rightarrow> 'd \<Rightarrow> ('d service, unit) io" where
  "io_register r d s =
     (case register r d (io_sup s) of
        Inl e \<Rightarrow> (Inl e, s)
      | Inr sv \<Rightarrow> (Inr (), (set_sup sv s)\<lparr>io_registrations := io_registrations s @ [r]\<rparr>))"

text \<open>The drill's actuator, registered before the start.\<close>

definition drill_registration :: "consumer_env \<Rightarrow> actuator_registration result" where
  "drill_registration env = validate_actuator_registration
     \<lparr>schema_version = SCHEMA_VERSION, message_id = ce_fresh env, emitted_at = ce_now env,
      source = ''hardware-io'', ar_actuator_id = ''drill-dummy'', ar_actuator_class = Binary, ar_role = Outlet,
      ar_driver_id = ''fake-actuator'', ar_control_authority = Authoritative, ar_failsafe_capable = True,
      ar_transport = Local, ar_safe_state = Some (BinaryLevel False), ar_max_runtime_s = Some 3600,
      ar_heartbeat_timeout_s = Some 30, ar_description = None\<rparr>"

definition register_drill_actuator :: "consumer_env \<Rightarrow> 'd \<Rightarrow> ('d service, unit) io" where
  "register_drill_actuator env d = io_bind (io_result (drill_registration env)) (\<lambda>r. io_register r d)"

text \<open>A channel that cannot be opened is skipped; what comes after its opening is not guarded.\<close>

definition bring_up :: "'d driver \<Rightarrow> 'd startup \<Rightarrow> built_actuator \<Rightarrow> ('d service, unit) io" where
  "bring_up drv su ba s =
     (case drv_open drv (su_device su (ba_driver ba)) of
        (Inl e, d) \<Rightarrow> (if e = CancelledError then Inl e else Inr (), s)
      | (Inr _, d) \<Rightarrow>
          io_bind (io_result (actuator_chip_state su (ba_driver ba) d)) (\<lambda>cs.
          io_bind (publish_chip_state_once (su_env su) cs) (\<lambda>_.
          io_register (ba_registration ba) d)) s)"

definition build_from_registry :: "'d driver \<Rightarrow> 'd startup \<Rightarrow> device_assignment list \<Rightarrow> ('d service, unit) io" where
  "build_from_registry drv su as s =
     (let s = remember_assignments as s
      in case build_from_assignments (su_build su) None as of
           Inl e \<Rightarrow> (Inl e, s)
         | Inr (actuators, sensors) \<Rightarrow>
             each_io (bring_up drv su) actuators (s\<lparr>io_sensors := io_sensors s @ sensors\<rparr>))"

section \<open>Start-up\<close>

text \<open>The three sources in their order, each isolated.\<close>

definition announce_one :: "'d startup \<Rightarrow> capability_announcement option result \<Rightarrow> ('d service, unit) io" where
  "announce_one su found = swallow (
     case found of
       Inl e \<Rightarrow> io_fail e
     | Inr None \<Rightarrow> io_return ()
     | Inr (Some a) \<Rightarrow>
         io_bind (on_core (spine_publish_capabilities (ce_nats (su_env su)) a)) (\<lambda>_.
           if ca_hardware_source a \<noteq> W1Bus then io_return ()
           else io_bind (io_result (present_chip (su_env su) W1Bus W1_BUS_MASTER
                    [(''bus_master'', SStr W1_BUS_MASTER), (''probes'', SInt (int (length (ca_channels a))))]))
                  (publish_chip_state_once (su_env su))))"

text \<open>The service always passes its own \<open>_open_i2c\<close>; calling a missing one is Python's TypeError.\<close>

definition announce_capabilities :: "'d startup \<Rightarrow> ('d service, unit) io" where
  "announce_capabilities su s =
     (if \<not> io_has_spine s then (Inr (), s)
      else
        let env = su_env su; mid = ce_fresh env; now = ce_now env;
            opened = (case be_open_i2c (su_build su) of None \<Rightarrow> Inl (TypeError ''None'') | Some f \<Rightarrow> f 1)
        in each_io (announce_one su)
             [discover_pwm mid now (be_pwm_class (su_build su)) (su_pinctrl su),
              discover_w1 mid now (su_w1_names su),
              fst (discover_pca9685 mid now (su_i2c_node su) opened (su_mode1 su) 1 0x40)] s)"

definition sensor_registration_of :: "consumer_env \<Rightarrow> ds18b20 \<Rightarrow> sensor_registration result" where
  "sensor_registration_of env d = validate_sensor_registration
     \<lparr>schema_version = SCHEMA_VERSION, message_id = ce_fresh env, emitted_at = ce_now env,
      source = ''hardware-io'', sg_sensor_id = ds_driver_id d, sg_sensor_type = ''temp'',
      sg_driver_id = ds_driver_id d, sg_transport = Local, sg_unit = ''degC'',
      sg_poll_interval_s = ds_poll_interval_s d, sg_description = None\<rparr>"

definition after_build :: "'d startup \<Rightarrow> ('d service, unit) io" where
  "after_build su =
     (let env = su_env su; nats = ce_nats env in
      io_bind (on_core (spine_watch_assignments nats)) (\<lambda>_.
      io_bind (announce_capabilities su) (\<lambda>_.
      io_bind (\<lambda>s. each_io (\<lambda>r. on_core (spine_publish_registration nats r)) (io_registrations s) s) (\<lambda>_.
      io_bind (\<lambda>s. each_io (\<lambda>d. io_bind (io_result (sensor_registration_of env d))
                 (\<lambda>r. on_core (spine_publish_sensor_registration nats r))) (io_sensors s) s) (\<lambda>_.
      io_bind (publish_startup_states env) (\<lambda>_.
      io_bind (\<lambda>s. (Inr (), s\<lparr>io_commands := True\<rparr>)) (\<lambda>_.
      io_bind (on_core (subscribe nats)) (\<lambda>_.
      on_core (spine_subscribe_heartbeats nats ''control-engine'')))))))))"

text \<open>Reading the retained stream may never return; everything else of start-up does.\<close>

definition connect_spine :: "'d driver \<Rightarrow> 'd startup \<Rightarrow> 'd service \<Rightarrow> (unit result \<times> 'd service) option" where
  "connect_spine drv su s =
     (let nats = ce_nats (su_env su); s = s\<lparr>io_has_spine := True\<rparr>
      in case su_connect su of
           Inl e \<Rightarrow> Some (Inl e, s)
         | Inr _ \<Rightarrow>
             (case on_core (\<lambda>c. provision nats (c\<lparr>sp_connected := True\<rparr>)) s of
                (Inl e, s) \<Rightarrow> Some (Inl e, s)
              | (Inr _, s) \<Rightarrow>
                  (case read_assignments nats (io_core s) of
                     None \<Rightarrow> None
                   | Some (r, c) \<Rightarrow>
                       Some (io_bind (io_result r) (\<lambda>as.
                             io_bind (build_from_registry drv su as) (\<lambda>_. after_build su)) (s\<lparr>io_core := c\<rparr>)))))"

text \<open>Up to the loop: the assertion of whatever is registered already, then the spine, if any.\<close>

definition start_service ::
    "'d driver \<Rightarrow> 'd startup option \<Rightarrow> unit result \<Rightarrow> consumer_env \<Rightarrow> 'd service \<Rightarrow> (unit result \<times> 'd service) option" where
  "start_service drv su http env s =
     (case with_events env (sup_start drv (service_sink (io_has_spine s))) s of
        (Inl e, s) \<Rightarrow> Some (Inl e, s)
      | (Inr _, s) \<Rightarrow>
          (case su of
             None \<Rightarrow> Some (http, s)
           | Some su \<Rightarrow>
               (case connect_spine drv su s of
                  None \<Rightarrow> None
                | Some (Inl e, s) \<Rightarrow> Some (Inl e, s)
                | Some (Inr _, s) \<Rightarrow> Some (http, s))))"

section \<open>Live assignments\<close>

definition request_stop :: "'d service \<Rightarrow> 'd service" where "request_stop s = s\<lparr>io_stopping := True\<rparr>"

definition on_assignment_message :: "device_assignment result \<Rightarrow> 'd service \<Rightarrow> 'd service" where
  "on_assignment_message payload s =
     (case payload of
        Inl e \<Rightarrow> request_stop s
      | Inr a \<Rightarrow> if io_assignments s (da_device_id a) = Some (fingerprint a) then s else request_stop s)"

section \<open>One iteration\<close>

definition IO_CLOCK_REFRESH_S :: seconds where "IO_CLOCK_REFRESH_S = 30"
definition HOST_STATUS_INTERVAL_S :: seconds where "HOST_STATUS_INTERVAL_S = 30"

record io_env =
  ie_env :: consumer_env
  ie_now :: seconds
  ie_refresh_now :: seconds
  ie_trusted :: bool
  ie_probe :: "string \<Rightarrow> string result"
  ie_host :: "host_status_message result"

definition io_refresh_clock_trust :: "seconds \<Rightarrow> bool \<Rightarrow> 'd service \<Rightarrow> 'd service" where
  "io_refresh_clock_trust now trusted s =
     (if now < io_clock_refresh_due s then s
      else
        let s = s\<lparr>io_clock_refresh_due := now + IO_CLOCK_REFRESH_S\<rparr>
        in if trusted = io_clock_trusted s then s
           else set_sup (set_clock_trusted trusted (io_sup s)) (s\<lparr>io_clock_trusted := trusted\<rparr>))"

definition io_beat :: "consumer_env \<Rightarrow> 'd service \<Rightarrow> heartbeat_message result" where
  "io_beat env s = validate_heartbeat
     \<lparr>schema_version = SCHEMA_VERSION, message_id = ce_fresh env, emitted_at = ce_now env,
      source = ''hardware-io'', hb_component = ''hardware-io'', hb_sequence = io_beat_seq s,
      hb_interval_s = io_loop_interval_s s\<rparr>"

definition beat_and_serve :: "consumer_env \<Rightarrow> 'd driver \<Rightarrow> ('d service, unit) io" where
  "beat_and_serve env drv s =
     (if \<not> io_has_spine s then (Inr (), s)
      else
        let s = s\<lparr>io_beat_seq := io_beat_seq s + 1\<rparr>
        in io_bind (io_result (io_beat env s)) (\<lambda>b.
           io_bind (on_core (spine_publish_heartbeat (ce_nats env) b)) (\<lambda>_ s.
             if \<not> io_commands s then (Inr (), s)
             else io_bind (on_core (drain_once env drv (service_sink (io_has_spine s)) 16 (1 / 5)))
                    (\<lambda>_. io_return ()) s)) s)"

definition reading_of :: "consumer_env \<Rightarrow> ds18b20 \<Rightarrow> sensor_sample \<Rightarrow> sensor_reading result" where
  "reading_of env d smp = validate_sensor_reading
     \<lparr>schema_version = SCHEMA_VERSION, message_id = ce_fresh env, emitted_at = ce_now env,
      source = ''hardware-io'', sr_sensor_id = ds_driver_id d, sr_sensor_type = ''temp'',
      sr_value = ss_value smp, sr_unit = ss_unit smp, sr_quality = ss_quality smp,
      sr_calibration_id = ss_calibration_id smp\<rparr>"

definition publish_reading :: "consumer_env \<Rightarrow> ds18b20 \<Rightarrow> sensor_sample \<Rightarrow> ('d service, unit) io" where
  "publish_reading env d smp s =
     (if \<not> io_has_spine s then (Inr (), s)
      else on_core (swallow (io_bind (io_result (reading_of env d smp)) (spine_publish_sensor (ce_nats env)))) s)"

definition sensor_due :: "seconds \<Rightarrow> 'd service \<Rightarrow> ds18b20 \<Rightarrow> bool" where
  "sensor_due now s d =
     ((case io_sensor_deadlines s (ds_driver_id d) of None \<Rightarrow> 0 | Some t \<Rightarrow> t) \<le> now)"

definition poll_one :: "io_env \<Rightarrow> ds18b20 \<Rightarrow> ('d service, unit) io" where
  "poll_one ie d s =
     (let s = s\<lparr>io_sensor_deadlines := (io_sensor_deadlines s)(ds_driver_id d \<mapsto> ie_now ie + ds_poll_interval_s d)\<rparr>
      in case ds_read (ie_probe ie (ds_driver_id d)) d of
           Inl e \<Rightarrow> (Inr (), s)
         | Inr smp \<Rightarrow> publish_reading (ie_env ie) d smp s)"

definition poll_due_sensors :: "io_env \<Rightarrow> ('d service, unit) io" where
  "poll_due_sensors ie s = each_io (poll_one ie) (filter (sensor_due (ie_now ie) s) (io_sensors s)) s"

definition maybe_publish_host :: "io_env \<Rightarrow> ('d service, unit) io" where
  "maybe_publish_host ie s =
     (if ie_now ie < io_host_due s \<or> \<not> io_has_spine s then (Inr (), s)
      else on_core (swallow (io_bind (io_result (ie_host ie)) (spine_publish_host_status (ce_nats (ie_env ie)))))
             (s\<lparr>io_host_due := ie_now ie + HOST_STATUS_INTERVAL_S\<rparr>))"

definition io_iteration :: "'d driver \<Rightarrow> io_env \<Rightarrow> ('d service, unit) io" where
  "io_iteration drv ie s =
     (let s = s\<lparr>io_liveness := liveness_beat (ie_now ie) (io_liveness s)\<rparr>;
          s = io_refresh_clock_trust (ie_refresh_now ie) (ie_trusted ie) s
      in io_bind (beat_and_serve (ie_env ie) drv) (\<lambda>_.
         io_bind (poll_due_sensors ie) (\<lambda>_. maybe_publish_host ie)) s)"

section \<open>The loop and the end\<close>

text \<open>What happens to the service, one thing at a time: an iteration, or a callback between two.\<close>

datatype occurrence =
    Iteration io_env
  | AssignmentArrives "device_assignment result"
  | BeatArrives "heartbeat_message result"
  | Reconnects consumer_env
  | Background consumer_env sup_label
  | StopSignal

fun occur :: "bool \<Rightarrow> 'd driver \<Rightarrow> occurrence \<Rightarrow> ('d service, unit) io" where
  "occur serial drv (Iteration ie) s = io_iteration drv ie s"
| "occur serial drv (AssignmentArrives payload) s = (Inr (), on_assignment_message payload s)"
| "occur serial drv (BeatArrives payload) s = (Inr (), set_sup (on_heartbeat_message payload (io_sup s)) s)"
| "occur serial drv (Reconnects env) s = io_reconnected env s"
| "occur serial drv (Background env lbl) s =
     with_events env (\<lambda>sv. case sup_step serial drv (service_sink (io_has_spine s)) lbl sv of
                             None \<Rightarrow> (Inr (), sv) | Some sv \<Rightarrow> (Inr (), sv)) s"
| "occur serial drv StopSignal s = (Inr (), request_stop s)"

fun io_loop :: "bool \<Rightarrow> 'd driver \<Rightarrow> occurrence list \<Rightarrow> ('d service, unit) io" where
  "io_loop serial drv [] s = (Inr (), s)"
| "io_loop serial drv (oc # ocs) s =
     (if io_stopping s then (Inr (), s) else io_bind (occur serial drv oc) (\<lambda>_. io_loop serial drv ocs) s)"

fun is_exception_group :: "py_error \<Rightarrow> bool" where
  "is_exception_group (ExceptionGroup es) = True"
| "is_exception_group e = False"

definition close_spine :: "('d service, unit) io" where
  "close_spine s = (if io_has_spine s then on_core spine_close s else (Inr (), s))"

text \<open>The metrics server first, then the actuators, then the spine.\<close>

definition shutdown :: "consumer_env \<Rightarrow> unit result \<Rightarrow> 'd driver \<Rightarrow> ('d service, unit) io" where
  "shutdown env http_stop drv s =
     (case http_stop of
        Inl e \<Rightarrow> (Inl e, s)
      | Inr _ \<Rightarrow>
          (case with_events env (sup_stop drv (service_sink (io_has_spine s))) s of
             (Inl e, s) \<Rightarrow> if is_exception_group e then close_spine s else (Inl e, s)
           | (Inr _, s) \<Rightarrow> close_spine s))"

text \<open>The loop in its \<open>try\<close>, and the shutdown in its \<open>finally\<close>.\<close>

definition serve ::
    "bool \<Rightarrow> 'd driver \<Rightarrow> occurrence list \<Rightarrow> consumer_env \<Rightarrow> unit result \<Rightarrow> ('d service, unit) io" where
  "serve serial drv ocs env http_stop s =
     (case io_loop serial drv ocs s of
        (r, s) \<Rightarrow> (case shutdown env http_stop drv s of
                    (Inl e, s) \<Rightarrow> (Inl e, s)
                  | (Inr _, s) \<Rightarrow> (r, s)))"

section \<open>Health\<close>

record health =
  he_healthy :: bool
  he_reason :: string
  he_loop_stall_s :: seconds
  he_clock_trusted :: bool
  he_actuators :: nat
  he_latched :: "string list"

definition py_round_3 :: "rat \<Rightarrow> rat" where "py_round_3 x = of_int (py_round (x * 1000)) / 1000"

text \<open>\<open>{stall:.1f}\<close> of a stall, which is never negative.\<close>

definition tenths_text :: "rat \<Rightarrow> string" where
  "tenths_text x = (let n = nat (py_round (x * 10)) in nat_digits (n div 10) @ ''.'' @ nat_digits (n mod 10))"

definition io_health :: "seconds \<Rightarrow> 'd service \<Rightarrow> health" where
  "io_health now s =
     (let stall = liveness_age_s now (io_liveness s);
          (ok, reason) = (if io_liveness_timeout_s s < stall then (False, ''supervisor loop stalled for '' @ tenths_text stall @ ''s'')
                          else if \<not> io_clock_trusted s then (False, ''host clock is not synchronised'')
                          else (True, ''ok''))
      in \<lparr>he_healthy = ok, he_reason = reason, he_loop_stall_s = py_round_3 stall,
         he_clock_trusted = io_clock_trusted s, he_actuators = length (actuator_ids (io_sup s)),
         he_latched = filter (\<lambda>a. is_latched a (io_sup s) = Inr True) (actuator_ids (io_sup s))\<rparr>)"

end
