(* ===== verification/HardwareFrame.thy ===== *)
theory HardwareFrame
  imports HardwareIO Trips
begin

text \<open>
  What the operations of the hardware service leave alone: which actuators its supervisor
  guards under which registration, through every callback, iteration and call to the broker.
\<close>

section \<open>What an operation preserves\<close>

named_theorems preserving

definition preserves :: "('s \<Rightarrow> bool) \<Rightarrow> ('s, 'a) io \<Rightarrow> bool" where
  "preserves P m \<longleftrightarrow> (\<forall>s. P s \<longrightarrow> P (snd (m s)))"

lemma preservesI: "(\<And>s r s'. P s \<Longrightarrow> m s = (r, s') \<Longrightarrow> P s') \<Longrightarrow> preserves P m"
  unfolding preserves_def by (metis prod.collapse)

lemma preservesD: "preserves P m \<Longrightarrow> P s \<Longrightarrow> m s = (r, s') \<Longrightarrow> P s'"
  unfolding preserves_def by (metis snd_conv)

lemma preserves_bind [preserving]:
  "preserves P m \<Longrightarrow> (\<And>x. preserves P (f x)) \<Longrightarrow> preserves P (io_bind m f)"
  unfolding preserves_def io_bind_def by (force split: prod.splits sum.splits)

lemma preserves_pure [preserving]:
  "preserves P (io_return x)" "preserves P (io_fail e)" "preserves P (io_result r)"
  by (simp_all add: preserves_def io_return_def io_fail_def io_result_def)

lemma preserves_swallow [preserving]: "preserves P m \<Longrightarrow> preserves P (swallow m)"
  unfolding preserves_def swallow_def by (force split: prod.splits sum.splits)

lemma preserves_each [preserving]: "(\<And>x. preserves P (f x)) \<Longrightarrow> preserves P (each_io f xs)"
  by (induction xs) (auto intro!: preserving)

lemma preserves_cases [preserving]:
  "preserves P m \<Longrightarrow> (\<And>x. preserves P (f x)) \<Longrightarrow> preserves P (case opt of None \<Rightarrow> m | Some x \<Rightarrow> f x)"
  "preserves P m \<Longrightarrow> preserves P n \<Longrightarrow> preserves P (if b then m else n)"
  by (simp_all split: option.split)

text \<open>An operation that looks at the state first.\<close>

lemma preserves_at: "(\<And>s. preserves P (m s)) \<Longrightarrow> preserves P (\<lambda>s. m s s)"
  by (simp add: preserves_def)

lemma preserves_look [preserving]:
  "preserves P m \<Longrightarrow> preserves P n \<Longrightarrow> preserves P (\<lambda>s. if g s then m s else n s)"
  "(\<And>s. preserves P (m' s)) \<Longrightarrow> (\<And>s x. preserves P (f s x)) \<Longrightarrow> preserves P (\<lambda>s. io_bind (m' s) (f s) s)"
  "(\<And>s x. preserves P (f' s x)) \<Longrightarrow> preserves P (\<lambda>s. each_io (f' s) (xs s) s)"
  "preserves P (\<lambda>s. (r s, s))"
  by (simp add: preserves_def) (rule preserves_at, rule preserves_bind, assumption+,
    rule preserves_at, rule preserves_each, assumption, simp add: preserves_def)

lemma preserves_look_option [preserving]:
  "preserves P m \<Longrightarrow> (\<And>x. preserves P (f x)) \<Longrightarrow> preserves P (\<lambda>s. case opt s of None \<Rightarrow> m s | Some x \<Rightarrow> f x s)"
  by (simp add: preserves_def split: option.split)

text \<open>What keeps a part of the state preserves whatever that part decides.\<close>

lemma keeps_preserves: "(\<And>x. preserves (\<lambda>s. f s = x) m) \<Longrightarrow> preserves (\<lambda>s. Q (f s)) m"
  by (simp add: preserves_def)

lemma keepsD: "(\<And>x. preserves (\<lambda>s. f s = x) m) \<Longrightarrow> m s = (r, s') \<Longrightarrow> f s' = f s"
  unfolding preserves_def by (metis snd_conv)

lemma keeps_eq: "(\<And>x. preserves (\<lambda>s. f s = x) m) \<Longrightarrow> f (snd (m s)) = f s"
  unfolding preserves_def by blast

section \<open>The supervisor's roster\<close>

text \<open>Which actuators are guarded, in order, under which registration.\<close>

definition roster :: "'d supervisor \<Rightarrow> string list \<times> (string \<rightharpoonup> actuator_registration)" where
  "roster sv = (actuator_ids sv, \<lambda>aid. map_option g_registration (guard_of sv aid))"

lemma roster_fields [simp]:
  "roster (sv\<lparr>sv_running := b\<rparr>) = roster sv" "roster (sv\<lparr>sv_in_flight := f\<rparr>) = roster sv"
  "roster (sv\<lparr>sv_loop_time := t, sv_now := n\<rparr>) = roster sv" "roster (set_clock_trusted v sv) = roster sv"
  "roster (tell ev sv) = roster sv" "roster (snd (hear sink ev sv)) = roster sv"
  "roster (hear_cancelled sink ev sv) = roster sv"
  by (simp_all add: roster_def actuator_ids_def guard_of_def set_clock_trusted_def tell_def hear_def
      hear_cancelled_def split: sink_outcome.split)

lemma roster_upd:
  "(\<And>g. guard_of sv aid = Some g \<Longrightarrow> g_registration (f g) = g_registration g) \<Longrightarrow> roster (upd_guard aid f sv) = roster sv"
  by (auto simp: roster_def actuator_ids_def fun_eq_iff) (auto simp: upd_guard_def map_option_case split: option.split)

lemma roster_put [simp]:
  "map_option g_registration (guard_of sv aid) = Some (g_registration g') \<Longrightarrow> roster (upd_guard aid (\<lambda>_. g') sv) = roster sv"
  by (rule roster_upd) auto

lemma emit_roster: "emit_event sink aid rs dt b sv = (r, sv') \<Longrightarrow> roster sv' = roster sv"
  using roster_fields(6) [of sink "safety_event_of sv aid rs dt b" "tell (safety_event_of sv aid rs dt b) sv"]
  by (simp add: emit_event_def Let_def)

lemma trip_run_roster: "trip_run sink aid rs dt pc sv = Some (seg, sv') \<Longrightarrow> roster sv' = roster sv"
  by (cases "(sink, aid, rs, dt, pc, sv)" rule: trip_run.cases) (auto simp: Let_def split: if_splits)

lemma heartbeat_roster: "roster (sup_heartbeat sv) = roster sv"
  by (auto simp: roster_def heartbeat_guards fun_eq_iff option.map_comp o_def)
    (auto simp: actuator_ids_def sup_heartbeat_def)

lemma after_registration [simp]:
  "g_registration (watch_after seg g) = g_registration g" "g_registration (runtime_after seg g) = g_registration g"
  "g_registration (watch_top b t g) = g_registration g" "g_registration (cancel_tasks drv g) = g_registration g"
  by (cases seg; simp)+ (simp_all add: watch_top_def Let_def cancel_tasks_def)

lemma admit_roster: "roster (snd (apply_admit drv sink c sv)) = roster sv"
proof -
  have emit: "roster (snd (emit_event sink aid rs dt b sv)) = roster sv" for aid rs dt b
    by (rule emit_roster [OF prod.collapse [symmetric]])
  show ?thesis
    by (simp add: apply_admit_def refuse_eq Let_def emit split: option.split sum.split bool.split)
qed

lemma sup_step_roster:
  assumes step: "sup_step serial drv sink l sv = Some sv'"
  shows "roster sv' = roster sv"
proof -
  have watch: "roster sv' = roster sv" if "watch_run sink aid g sv = Some sv'" for aid g
    using that by (cases rule: watch_run_cases) (auto simp: roster_upd dest: trip_run_roster)
  have runtime: "roster sv' = roster sv" if "runtime_run sink aid g sv = Some sv'" for aid g
    using that by (cases rule: runtime_run_cases) (auto simp: roster_upd dest: trip_run_roster)
  have calls: "watch_call_step serial drv land aid g sv = Some sv' \<Longrightarrow> roster sv' = roster sv"
      "runtime_call_step serial drv land aid g sv = Some sv' \<Longrightarrow> roster sv' = roster sv"
    if "guard_of sv aid = Some g" for aid g land
    using that
    by (auto simp: watch_call_step_def runtime_call_step_def land_safe_def roster_upd
        split: option.splits watch_pc.splits runtime_task.splits runtime_pc.splits trip_pc.splits if_splits prod.splits)
  have unwinding: "roster sv' = roster sv" if "guard_of sv aid = Some g" "unwind_step drv sink land aid g sv = Some sv'"
    for aid g land
    using that(2,1) by (cases rule: unwind_step_eq) (auto simp: roster_upd)
  have applying: "roster sv' = roster sv" if "apply_step serial drv lab sv = Some sv'" for lab
    using that
  proof (cases rule: apply_step_cases)
    case (resumes fl g r)
    then show ?thesis by (cases r) (auto simp: roster_upd)
  qed (auto simp: roster_upd)
  show ?thesis
  proof (cases l)
    case (LatchCleared aid operator)
    then show ?thesis using step
      by (auto simp: clear_latch_def roster_upd split: option.splits prod.splits dest: emit_roster
        intro: trans [OF emit_roster [OF prod.collapse [symmetric]]])
  next
    case (ApplyCalled c)
    with step show ?thesis by (auto simp: admit_roster split: if_splits)
  qed (use step watch runtime calls unwinding applying in
      \<open>auto simp: on_guard_def heartbeat_roster split: if_splits option.splits\<close>)
qed

lemma sup_apply_roster: "roster (snd (sup_apply drv sink c sv)) = roster sv"
proof (cases "apply_admit drv sink c sv")
  case (Pair r sv1)
  with admit_roster [of drv sink c sv] have "roster sv1 = roster sv" by simp
  moreover have "apply_resume fl r1 g = (out, g') \<Longrightarrow> g_registration g' = g_registration g" for fl r1 out and g g' :: "'a guard"
    by (cases r1) auto
  ultimately show ?thesis using Pair
    by (auto simp: sup_apply_def apply_land_def Let_def split: sum.split option.split prod.split)
qed

text \<open>The loops of \<open>start\<close> and \<open>stop\<close>.\<close>

lemma each_guard_roster:
  assumes "\<And>aid g sv. guard_of sv aid = Some g \<Longrightarrow> roster (snd (f aid g sv)) = roster sv"
  shows "roster (snd (each_guard f aids fs sv)) = roster sv"
proof (induction aids arbitrary: fs sv)
  case (Cons aid aids)
  show ?case
  proof (cases "guard_of sv aid")
    case (Some g)
    obtain r sv1 where "f aid g sv = (r, sv1)" by fastforce
    with Some assms [OF Some] Cons.IH show ?thesis by (auto split: sum.split option.split)
  qed (simp add: Cons.IH)
qed simp

lemma sup_start_roster: "roster (snd (sup_start drv sink sv)) = roster sv"
proof -
  have "roster (snd (start_guard drv sink aid g sv)) = roster sv" if "guard_of sv aid = Some g" for aid g sv
    using that by (auto simp: start_guard_def roster_upd dest!: emit_roster split: prod.split sum.split unit.split)
  then show ?thesis by (simp add: sup_start_def each_guard_roster)
qed

lemma sup_stop_roster: "roster (snd (sup_stop drv sink sv)) = roster sv"
proof -
  have "roster (snd (stop_guard drv sink aid g sv)) = roster sv" if "guard_of sv aid = Some g" for aid g sv
    using that by (auto simp: stop_guard_def drive_safe_once_def dest!: emit_roster split: prod.splits sum.splits unit.split)
  then show ?thesis by (simp add: sup_stop_def each_guard_roster)
qed

section \<open>Calls to the broker\<close>

lemma only_asks_keeps: "only_asks m \<Longrightarrow> preserves (\<lambda>c. co_sup c = x) m"
  unfolding preserves_def only_asks_def by (metis consumer.select_convs(1) consumer.surjective consumer.update_convs spine.update_convs(2))

lemma only_asks_publish: "(\<And>x t. call x \<noteq> Pause t) \<Longrightarrow> only_asks (spine_publish nats subj call)"
proof -
  assume call: "\<And>x t. call x \<noteq> Pause t"
  have "only_asks (need_connection :: ('x spine_scheme, unit) io)"
    by (rule only_asks_nothing) (simp add: need_connection_def)
  moreover have "only_asks (io_bind (io_result subj) (\<lambda>s. req nats (call s)))"
  proof (cases subj)
    case (Inl e)
    then show ?thesis by (intro only_asks_nothing) (simp add: io_bind_def io_result_def)
  next
    case (Inr x)
    with only_asks_req [of "call x"] call show ?thesis by (simp add: io_bind_def io_result_def only_asks_def)
  qed
  ultimately show ?thesis unfolding spine_publish_def by (rule only_asks_bind)
qed

lemma spine_keeps [preserving]:
  "preserves (\<lambda>c. co_sup c = x) (spine_publish nats subj call)" if "\<And>x t. call x \<noteq> Pause t"
  by (rule only_asks_keeps, rule only_asks_publish) (rule that)

lemmas publishers = spine_publish_state_def spine_publish_heartbeat_def spine_publish_registration_def
  spine_publish_sensor_registration_def spine_publish_capabilities_def spine_publish_chip_state_def
  spine_publish_host_status_def spine_publish_audit_def spine_publish_sensor_def
  spine_watch_assignments_def spine_subscribe_heartbeats_def

lemma publishers_keep [preserving]:
  "preserves (\<lambda>c. co_sup c = x) (spine_publish_state nats st)"
  "preserves (\<lambda>c. co_sup c = x) (spine_publish_heartbeat nats b)"
  "preserves (\<lambda>c. co_sup c = x) (spine_publish_registration nats r)"
  "preserves (\<lambda>c. co_sup c = x) (spine_publish_sensor_registration nats g)"
  "preserves (\<lambda>c. co_sup c = x) (spine_publish_capabilities nats a)"
  "preserves (\<lambda>c. co_sup c = x) (spine_publish_chip_state nats cs)"
  "preserves (\<lambda>c. co_sup c = x) (spine_publish_host_status nats h)"
  "preserves (\<lambda>c. co_sup c = x) (spine_publish_audit nats cat mid ev)"
  "preserves (\<lambda>c. co_sup c = x) (spine_publish_sensor nats rd)"
  "preserves (\<lambda>c. co_sup c = x) (spine_watch_assignments nats)"
  "preserves (\<lambda>c. co_sup c = x) (spine_subscribe_heartbeats nats name)"
  unfolding publishers by (rule spine_keeps, simp)+

lemma calls_keep [preserving]:
  "preserves (\<lambda>c. co_sup c = x) (provision nats)"
  "preserves (\<lambda>c. co_sup c = x) (subscribe nats)"
  "preserves (\<lambda>c. co_sup c = x) spine_close"
  "preserves (\<lambda>c. co_sup c = x) (heal nats cause)"
  "preserves (\<lambda>c. co_sup c = x) (req nats call)"
proof -
  show p: "preserves (\<lambda>c. co_sup c = x) (provision nats)" by (rule only_asks_keeps, rule provision_asks)
  show s: "preserves (\<lambda>c. co_sup c = x) (subscribe nats)"
    by (simp add: preserves_def subscribe_def io_bind_def need_connection_def req_simps split: sum.split)
  show "preserves (\<lambda>c. co_sup c = x) spine_close" by (simp add: preserves_def spine_close_def)
  show "preserves (\<lambda>c. co_sup c = x) (req nats call)" by (simp add: preserves_def req_simps)
  show "preserves (\<lambda>c. co_sup c = x) (heal nats cause)"
  proof (rule preservesI)
    fix c :: "'a consumer" and r c' assume c: "co_sup c = x" and h: "heal nats cause c = (r, c')"
    let ?n = "co_heal_attempts c + 1"
    let ?c = "c\<lparr>co_heal_attempts := ?n, co_subscribed := False, co_heal_cause := Some cause\<rparr>"
    obtain q c1 where q: "io_bind (provision nats) (\<lambda>_. subscribe nats)
        (?c\<lparr>sp_log := sp_log ?c @ [Pause (HEAL_BACKOFF_S * 2 ^ (?n - 1))]\<rparr>) = (q, c1)" by fastforce
    have "co_sup c1 = x" by (rule preservesD [OF preserves_bind [OF p s] _ q]) (use c in simp)
    with h c q show "co_sup c' = x" by (auto simp: heal_def Let_def split: if_splits sum.splits)
  qed
qed

text \<open>A delivered command moves devices and levels, never the roster.\<close>

lemma core_keeps:
  "(\<And>x. preserves (\<lambda>c. co_sup c = x) m) \<Longrightarrow> preserves (\<lambda>c. roster (co_sup c) = y) m"
  by (rule keeps_preserves)

lemmas calls_keep_roster [preserving] = publishers_keep [THEN core_keeps] calls_keep [THEN core_keeps]

lemma deliver_keeps: "preserves (\<lambda>c. roster (co_sup c) = x) (deliver env drv sink m)"
proof -
  let ?P = "\<lambda>c :: 'a consumer. roster (co_sup c) = x"
  have audit: "preserves ?P (consumer_audit env ev)" for ev
    unfolding consumer_audit_def by (intro preserving)
  have refusal: "preserves ?P (settle_refusal env m c out)" for c out
    unfolding settle_refusal_def by (intro preserving audit)
  have applied: "preserves ?P (publish_applied_state env drv c)" for c
  proof (rule preservesI)
    fix s :: "'a consumer" and r s' assume s: "?P s" and p: "publish_applied_state env drv c s = (r, s')"
    obtain l sv where l: "applied_level drv c (co_sup s) = (l, sv)" by fastforce
    then have "?P (s\<lparr>co_sup := sv\<rparr>)" using s by (auto simp: applied_level_def roster_upd split: option.splits prod.splits sum.splits)
    have "preserves (\<lambda>c. roster (co_sup c) = y)
        (swallow (io_bind (io_result (applied_state env c k)) (spine_publish_state (ce_nats env))))" for y k
      by (intro preserving)
    note publishing = keepsD [where f = "\<lambda>c. roster (co_sup c)", OF this]
    show "?P s'"
      using p l \<open>?P (s\<lparr>co_sup := sv\<rparr>)\<close> by (cases l) (auto simp: publish_applied_state_def dest!: publishing)
  qed
  show ?thesis
  proof (cases "dl_command m")
    case (Inl e)
    have "preserves ?P (io_bind (consumer_audit env (MalformedCommand (dl_subject m) e))
        (\<lambda>_. io_bind (req (ce_nats env) (Term (dl_id m))) (\<lambda>_. io_return None)))"
      by (intro preserving audit)
    with Inl show ?thesis by (simp add: preserves_def deliver_def)
  next
    case (Inr c)
    show ?thesis
    proof (rule preservesI)
      fix s :: "'a consumer" and r s' assume s: "?P s" and d: "deliver env drv sink m s = (r, s')"
      obtain out sv where out: "sup_apply drv sink c (co_sup s) = (out, sv)" by fastforce
      with sup_apply_roster [of drv sink c "co_sup s"] s have sv: "?P (s\<lparr>co_sup := sv\<rparr>)" by simp
      have nak: "preserves ?P (io_bind (req (ce_nats env) (Nak (dl_id m) 1)) (\<lambda>_. io_return (None :: command_outcome option)))"
        by (intro preserving)
      have ack: "preserves ?P (io_bind (req (ce_nats env) (Ack (dl_id m))) (\<lambda>_.
          io_bind (publish_applied_state env drv c) (\<lambda>_. io_return (Some o'))))" for o'
        by (intro preserving applied)
      show "?P s'"
        using d Inr out sv preservesD [OF nak sv] preservesD [OF ack sv] preservesD [OF refusal sv]
        by (auto simp: deliver_def split: sum.splits if_splits)
    qed
  qed
qed

lemma drain_keeps [preserving]: "preserves (\<lambda>c. roster (co_sup c) = x) (drain_once env drv sink n wait)"
proof -
  have "preserves (\<lambda>c. roster (co_sup c) = y) (deliver_all env drv sink ms)" for y ms
    by (induction ms) (auto intro!: preserving deliver_keeps)
  note all = keepsD [where f = "\<lambda>c. roster (co_sup c)", OF this]
  have "preserves (\<lambda>c. roster (co_sup c) = y)
      (io_bind (heal (ce_nats env) cause) (\<lambda>_. io_return ([] :: command_outcome list)))" for y cause
    by (intro preserving)
  note healing = keepsD [where f = "\<lambda>c. roster (co_sup c)", OF this]
  show ?thesis
    by (rule preservesI) (auto simp: drain_once_def ask_def lost_consumer_def
      split: if_splits option.splits sum.splits py_error.splits dest!: all healing)
qed

section \<open>The service\<close>

definition service_roster :: "'d service \<Rightarrow> (string list \<times> (string \<rightharpoonup> actuator_registration)) \<times> actuator_registration list" where
  "service_roster s = (roster (io_sup s), io_registrations s)"

text \<open>The supervisor and the registrations themselves.\<close>

definition service_core :: "'d service \<Rightarrow> 'd supervisor \<times> actuator_registration list" where
  "service_core s = (io_sup s, io_registrations s)"

lemma core_roster: "(\<And>x. preserves (\<lambda>s. service_core s = x) m) \<Longrightarrow> preserves (\<lambda>s. service_roster s = y) m"
  using keeps_preserves [of service_core m "\<lambda>(sv, rs). (roster sv, rs) = y"]
  by (simp add: service_core_def service_roster_def)

lemma on_core_roster [preserving]:
  "(\<And>y. preserves (\<lambda>c. roster (co_sup c) = y) m) \<Longrightarrow> preserves (\<lambda>s. service_roster s = x) (on_core m)"
proof (rule preservesI)
  fix s :: "'a service" and r s' assume m: "\<And>y. preserves (\<lambda>c. roster (co_sup c) = y) m"
    and s: "service_roster s = x" and o: "on_core m s = (r, s')"
  obtain r1 c where c: "m (io_core s) = (r1, c)" by fastforce
  have "roster (co_sup c) = roster (co_sup (io_core s))"
    by (rule keepsD [where f = "\<lambda>c. roster (co_sup c)"]) (rule m, rule c)
  with s o c show "service_roster s' = x" by (auto simp: on_core_def service_roster_def io_sup_def)
qed

lemma on_core_keeps [preserving]:
  "(\<And>y. preserves (\<lambda>c. co_sup c = y) m) \<Longrightarrow> preserves (\<lambda>s. service_core s = x) (on_core m)"
proof (rule preservesI)
  fix s :: "'a service" and r s' assume m: "\<And>y. preserves (\<lambda>c. co_sup c = y) m"
    and s: "service_core s = x" and o: "on_core m s = (r, s')"
  obtain r1 c where c: "m (io_core s) = (r1, c)" by fastforce
  have "co_sup c = co_sup (io_core s)" by (rule keepsD [where f = co_sup]) (rule m, rule c)
  with s o c show "service_core s' = x" by (auto simp: on_core_def service_core_def io_sup_def)
qed

lemma set_sup_fields [simp]:
  "io_sup (set_sup sv s) = sv" "io_registrations (set_sup sv s) = io_registrations s"
  "io_has_spine (set_sup sv s) = io_has_spine s"
  by (simp_all add: set_sup_def io_sup_def)

lemma publish_state_keeps [preserving]: "preserves (\<lambda>s. service_core s = x) (io_publish_state env aid l rs b)"
  unfolding io_publish_state_def [abs_def] by (intro preserving)

lemma on_safety_event_keeps [preserving]: "preserves (\<lambda>s. service_core s = x) (on_safety_event env ev)"
  unfolding on_safety_event_def by (intro preserving)

lemma with_events_core:
  fixes s :: "'d service"
  shows "service_core (snd (with_events env f s)) = service_core (set_sup (snd (f (io_sup s))) s)"
proof -
  have "preserves (\<lambda>s :: 'd service. service_core s = x) (each_io (on_safety_event env) evs)" for x evs
    by (intro preserving)
  note keeps_eq [OF this]
  then show ?thesis by (simp add: with_events_def split: prod.split)
qed

lemma with_events_keeps:
  assumes "\<And>sv. roster (snd (f sv)) = roster sv"
  shows "preserves (\<lambda>s. service_roster s = x) (with_events env f)"
proof -
  have "service_roster (snd (with_events env f s)) = service_roster s" for s
    using with_events_core [of env f s] assms by (simp add: service_core_def service_roster_def)
  then show ?thesis by (simp add: preserves_def)
qed

text \<open>The callbacks and the loop: they move no registration.\<close>

lemma callbacks_keep [preserving]:
  "preserves (\<lambda>s. service_core s = x) (publish_startup_states env)"
  "preserves (\<lambda>s. service_core s = x) (io_reconnected env)"
  "preserves (\<lambda>s. service_core s = x) close_spine"
  unfolding publish_startup_states_def [abs_def] publish_startup_state_def [abs_def] io_reconnected_def
    republish_safe_states_def [abs_def] republish_safe_state_def [abs_def] close_spine_def [abs_def]
  by (intro preserving)+

lemma core_fields:
  "service_core (s\<lparr>io_has_spine := b\<rparr>) = service_core s" "service_core (s\<lparr>io_commands := b\<rparr>) = service_core s"
  "service_core (s\<lparr>io_sensors := ds\<rparr>) = service_core s" "service_core (s\<lparr>io_assignments := m\<rparr>) = service_core s"
  "service_core (s\<lparr>io_beat_seq := n\<rparr>) = service_core s" "service_core (s\<lparr>io_sensor_deadlines := dl\<rparr>) = service_core s"
  "service_core (s\<lparr>io_published_chips := cs\<rparr>) = service_core s" "service_core (s\<lparr>io_clock_trusted := b\<rparr>) = service_core s"
  "service_core (s\<lparr>io_clock_refresh_due := t\<rparr>) = service_core s" "service_core (s\<lparr>io_stopping := b\<rparr>) = service_core s"
  "service_core (s\<lparr>io_liveness := g\<rparr>) = service_core s" "service_core (s\<lparr>io_host_due := t\<rparr>) = service_core s"
  by (simp_all add: service_core_def io_sup_def)

lemma fields_keep:
  "service_roster (s\<lparr>io_has_spine := b\<rparr>) = service_roster s" "service_roster (s\<lparr>io_commands := b\<rparr>) = service_roster s"
  "service_roster (s\<lparr>io_sensors := ds\<rparr>) = service_roster s" "service_roster (s\<lparr>io_assignments := m\<rparr>) = service_roster s"
  "service_roster (s\<lparr>io_beat_seq := n\<rparr>) = service_roster s" "service_roster (s\<lparr>io_sensor_deadlines := dl\<rparr>) = service_roster s"
  "service_roster (s\<lparr>io_published_chips := cs\<rparr>) = service_roster s" "service_roster (s\<lparr>io_clock_trusted := b\<rparr>) = service_roster s"
  "service_roster (s\<lparr>io_clock_refresh_due := t\<rparr>) = service_roster s" "service_roster (s\<lparr>io_stopping := b\<rparr>) = service_roster s"
  "service_roster (s\<lparr>io_liveness := g\<rparr>) = service_roster s" "service_roster (s\<lparr>io_host_due := t\<rparr>) = service_roster s"
  by (simp_all add: service_roster_def io_sup_def)

text \<open>An operation that first sets such a field.\<close>

lemma preserves_set:
  "preserves P m \<Longrightarrow> (\<And>s. P (u s) = P s) \<Longrightarrow> preserves P (\<lambda>s. m (u s))"
  by (simp add: preserves_def)

lemma refresh_keeps: "service_roster (io_refresh_clock_trust now b s) = service_roster s"
  by (auto simp: io_refresh_clock_trust_def Let_def service_roster_def set_sup_def io_sup_def)

lemma beat_and_serve_keeps: "preserves (\<lambda>s. service_roster s = x) (beat_and_serve env drv)"
  unfolding beat_and_serve_def [abs_def] Let_def
proof (intro preserving)
  show "preserves (\<lambda>s. service_roster s = x) (\<lambda>s. io_bind (io_result (io_beat env (s\<lparr>io_beat_seq := io_beat_seq s + 1\<rparr>)))
      (\<lambda>b. io_bind (on_core (spine_publish_heartbeat (ce_nats env) b)) (\<lambda>_ s.
        if \<not> io_commands s then (Inr (), s)
        else io_bind (on_core (drain_once env drv (service_sink (io_has_spine s)) 16 (1 / 5))) (\<lambda>_. io_return ()) s))
      (s\<lparr>io_beat_seq := io_beat_seq s + 1\<rparr>))"
    by (rule preserves_set [where u = "\<lambda>s. s\<lparr>io_beat_seq := io_beat_seq s + 1\<rparr>"
         and m = "\<lambda>s. io_bind (io_result (io_beat env s)) _ s"]) (intro preserving, simp add: fields_keep)
qed

lemma poll_keeps: "preserves (\<lambda>s. service_core s = x) (poll_due_sensors ie :: ('d service, unit) io)"
proof -
  have reading: "preserves (\<lambda>s :: 'd service. service_core s = y) (publish_reading env d smp)" for y env d smp
    unfolding publish_reading_def [abs_def] by (intro preserving)
  have "service_core (snd (publish_reading env d smp s)) = service_core s" for env d smp and s :: "'d service"
    by (rule keeps_eq) (rule reading)
  then have "preserves (\<lambda>s :: 'd service. service_core s = x) (poll_one ie d)" for d
    by (simp add: preserves_def poll_one_def Let_def core_fields split: sum.split)
  then show ?thesis unfolding poll_due_sensors_def [abs_def] by (intro preserving)
qed

lemma host_keeps: "preserves (\<lambda>s. service_core s = x) (maybe_publish_host ie)"
  unfolding maybe_publish_host_def [abs_def]
  by (intro preserving preserves_set [where u = "\<lambda>s. s\<lparr>io_host_due := _\<rparr>"]) (simp add: core_fields)

lemma iteration_keeps: "preserves (\<lambda>s. service_roster s = x) (io_iteration drv ie)"
proof -
  let ?u = "\<lambda>s. io_refresh_clock_trust (ie_refresh_now ie) (ie_trusted ie)
    (s\<lparr>io_liveness := liveness_beat (ie_now ie) (io_liveness s)\<rparr>)"
  have "preserves (\<lambda>s. service_roster s = x) (io_bind (beat_and_serve (ie_env ie) drv) (\<lambda>_.
      io_bind (poll_due_sensors ie) (\<lambda>_. maybe_publish_host ie)))"
    by (intro preserving beat_and_serve_keeps core_roster poll_keeps host_keeps)
  then have "preserves (\<lambda>s. service_roster s = x) (\<lambda>s. io_bind (beat_and_serve (ie_env ie) drv) (\<lambda>_.
      io_bind (poll_due_sensors ie) (\<lambda>_. maybe_publish_host ie)) (?u s))"
    by (rule preserves_set [where u = ?u]) (simp add: refresh_keeps fields_keep)
  then show ?thesis by (simp add: io_iteration_def [abs_def] Let_def)
qed

lemma occur_keeps: "preserves (\<lambda>s :: 'd service. service_roster s = x) (occur serial drv oc)"
proof (cases oc)
  case (Iteration ie)
  then show ?thesis using iteration_keeps [of x drv ie] by (simp add: preserves_def)
next
  case (AssignmentArrives payload)
  then show ?thesis
    by (auto simp: preserves_def on_assignment_message_def request_stop_def fields_keep split: sum.split)
next
  case (BeatArrives payload)
  then show ?thesis
    by (auto simp: preserves_def service_roster_def on_heartbeat_message_def heartbeat_roster split: sum.split)
next
  case (Reconnects env)
  then show ?thesis using core_roster [OF callbacks_keep(2), of x env] by (simp add: preserves_def)
next
  case (Background env lbl)
  have "roster (snd (case sup_step serial drv sink lbl sv of None \<Rightarrow> (Inr (), sv) | Some sv \<Rightarrow> (Inr (), sv))) = roster sv"
    for sink and sv :: "'d supervisor"
    using sup_step_roster [of serial drv sink lbl sv] by (simp split: option.split)
  note keeps_eq [OF with_events_keeps [OF this]]
  then show ?thesis by (simp add: Background preserves_def)
next
  case StopSignal
  then show ?thesis by (simp add: preserves_def request_stop_def fields_keep)
qed

lemma loop_keeps: "preserves (\<lambda>s. service_roster s = x) (io_loop serial drv ocs)"
proof (induction ocs)
  case (Cons oc ocs)
  have "preserves (\<lambda>s. service_roster s = x)
      (\<lambda>s. if io_stopping s then (Inr (), s) else io_bind (occur serial drv oc) (\<lambda>_. io_loop serial drv ocs) s)"
    by (intro preserving occur_keeps Cons)
  then show ?case by (simp add: preserves_def)
qed (simp add: preserves_def)

text \<open>Start-up's publishes.\<close>

lemma chip_state_keeps [preserving]: "preserves (\<lambda>s. service_core s = x) (publish_chip_state_once env cs)"
proof (rule preservesI)
  fix s :: "'a service" and r s' assume s: "service_core s = x" and p: "publish_chip_state_once env cs s = (r, s')"
  have "service_core (snd (on_core (spine_publish_chip_state (ce_nats env) cs) s)) = service_core s"
    by (rule keeps_eq) (intro preserving)
  with s p show "service_core s' = x"
    by (auto simp: publish_chip_state_once_def Let_def core_fields split: if_splits prod.splits sum.splits)
qed

lemma announce_keeps [preserving]: "preserves (\<lambda>s. service_core s = x) (announce_capabilities su)"
proof -
  have one: "preserves (\<lambda>s. service_core s = x) (announce_one su found)" for found
    unfolding announce_one_def
    by (cases found) (auto intro!: preserving split: option.split)
  show ?thesis unfolding announce_capabilities_def [abs_def] Let_def by (intro preserving one)
qed

lemma after_build_keeps [preserving]: "preserves (\<lambda>s. service_core s = x) (after_build su)"
proof -
  have flag: "preserves (\<lambda>s. service_core s = x) (\<lambda>s. (Inr (), s\<lparr>io_commands := True\<rparr>))"
    by (simp add: preserves_def core_fields)
  show ?thesis unfolding after_build_def Let_def by (intro preserving flag)
qed

text \<open>Reading the retained assignments touches nothing but the broker's log.\<close>

lemma take_keeps: "preserves (\<lambda>c. co_sup c = x) (take_assignments nats ms found)"
  by (induction nats ms found rule: take_assignments.induct) (auto intro!: preserving)

lemma read_loop_keeps:
  fixes c :: "'a consumer"
  assumes "read_loop nats found c = Some y"
  shows "co_sup (snd y) = co_sup c"
proof (rule read_loop.raw_induct [where P = "\<lambda>nats found c y. co_sup (snd y) = co_sup c", OF _ assms])
  fix rec nats found and c :: "'a consumer" and y
  assume IH: "\<And>nats found c y. rec nats found c = Some y \<Longrightarrow> co_sup (snd y) = co_sup c"
    and body: "(case ask nats (Fetch 32 1) c of
        (Inl e, s) \<Rightarrow>
          Some (case e of TimeoutError _ \<Rightarrow> (Inr found, snd (ask nats Unsubscribe s)) | _ \<Rightarrow> (Inl e, s))
      | (Inr r, s) \<Rightarrow>
          (case take_assignments nats (case r of Retained msgs \<Rightarrow> msgs | _ \<Rightarrow> []) found s of
             (Inl e, s) \<Rightarrow> Some (Inl e, s)
           | (Inr found, s) \<Rightarrow> rec nats found s)) = Some y"
  have take: "take_assignments nats ms found s = (q, s') \<Longrightarrow> co_sup s' = co_sup s" for ms found q and s s' :: "'a consumer"
    by (rule keepsD [OF take_keeps])
  show "co_sup (snd y) = co_sup c"
  proof (cases "nats (sp_log c) (Fetch 32 1)")
    case (Inl e)
    with body show ?thesis by (cases e) (auto simp: ask_def)
  next
    case (Inr rp)
    let ?c = "c\<lparr>sp_log := sp_log c @ [Fetch 32 1]\<rparr>"
    obtain q c1 where t: "take_assignments nats (case rp of Retained msgs \<Rightarrow> msgs | _ \<Rightarrow> []) found ?c = (q, c1)" by fastforce
    from take [OF t] have "co_sup c1 = co_sup c" by simp
    with body Inr t show ?thesis by (cases q) (auto simp: ask_def dest!: IH)
  qed
qed

lemma read_assignments_keeps:
  fixes c :: "'d consumer"
  assumes "read_assignments nats c = Some (r, c')"
  shows "co_sup c' = co_sup c"
proof -
  let ?sub = "io_bind need_connection (\<lambda>_. req nats (PullSubscribe (all_of ''assignment'') None)) :: ('d consumer, unit) io"
  obtain q c1 where q: "?sub c = (q, c1)" by fastforce
  then have "co_sup c1 = co_sup c"
    by (auto simp: io_bind_def need_connection_def req_simps split: if_splits sum.splits)
  with assms q show ?thesis
    by (auto simp: read_assignments_def dest: read_loop_keeps split: sum.splits)
qed

end
