(* ===== verification/HardwareRun.thy ===== *)
theory HardwareRun
  imports HardwareFrame "HOL-Library.Multiset"
begin

text \<open>
  What holds of the service of \<open>hardware_io/app.py\<close> whatever happens to it: the registrations it
  announces are the actuators it guards, and however its loop ends, its actuators are driven
  safe and only then is the spine closed.
\<close>

section \<open>What the service registers it guards\<close>

text \<open>The registrations it announces are the actuators the supervisor guards, in that order, once each.\<close>

definition service_ok :: "'d service \<Rightarrow> bool" where
  "service_ok s \<longleftrightarrow> distinct (map ar_actuator_id (io_registrations s))
     \<and> roster (io_sup s) = (map ar_actuator_id (io_registrations s), map_of (map (\<lambda>r. (ar_actuator_id r, r)) (io_registrations s)))"

text \<open>Building adds an actuator to both at once, or to neither.\<close>

lemma service_ok_roster: "service_roster s = service_roster s' \<Longrightarrow> service_ok s = service_ok s'"
  by (simp add: service_ok_def service_roster_def)

lemma ok_of_keeps: "(\<And>x. preserves (\<lambda>s. service_roster s = x) m) \<Longrightarrow> preserves service_ok m"
  unfolding preserves_def by (metis service_ok_roster)

lemma register_adds:
  assumes "register r d sv = Inr sv'"
  obtains g where "g_registration g = r" "g_device g = d" "g_at_safe_state g" "guard_of sv (ar_actuator_id r) = None"
    "sv' = sv\<lparr>sv_guards := sv_guards sv @ [(ar_actuator_id r, g)]\<rparr>"
proof -
  let ?g = "if sv_running sv then (new_guard r d)\<lparr>g_last_beat := sv_loop_time sv, g_watch_task := Some WatchTop\<rparr> else new_guard r d"
  from assms have "sv' = sv\<lparr>sv_guards := sv_guards sv @ [(ar_actuator_id r, ?g)]\<rparr>" "guard_of sv (ar_actuator_id r) = None"
    by (auto simp: register_def Let_def split: if_splits)
  moreover have "g_registration ?g = r" "g_device ?g = d" "g_at_safe_state ?g" by (simp_all add: new_guard_def)
  ultimately show thesis by (intro that [of ?g])
qed

lemma register_ok: "preserves service_ok (io_register r d)"
proof (rule preservesI)
  fix s :: "'a service" and q s' assume ok: "service_ok s" and reg: "io_register r d s = (q, s')"
  show "service_ok s'"
  proof (cases "register r d (io_sup s)")
    case (Inl e)
    with reg ok show ?thesis by (simp add: io_register_def)
  next
    case (Inr sv)
    obtain g where g: "g_registration g = r" "sv_guards sv = sv_guards (io_sup s) @ [(ar_actuator_id r, g)]"
      and new: "guard_of (io_sup s) (ar_actuator_id r) = None"
      by (rule register_adds [OF Inr]) simp
    have ids: "actuator_ids sv = actuator_ids (io_sup s) @ [ar_actuator_id r]" using g by (simp add: actuator_ids_def)
    have fresh: "ar_actuator_id r \<notin> set (actuator_ids (io_sup s))"
      using new guard_of_ids [of "io_sup s"] by auto
    have regs: "map_option g_registration (guard_of sv aid) =
        (if aid = ar_actuator_id r then Some r else map_option g_registration (guard_of (io_sup s) aid))" for aid
      using g new by (auto simp: guard_of_def map_add_def split: option.split)
    have s': "s' = (set_sup sv s)\<lparr>io_registrations := io_registrations s @ [r]\<rparr>"
      using reg Inr by (simp add: io_register_def)
    have old: "map_of (map (\<lambda>r. (ar_actuator_id r, r)) (io_registrations s)) (ar_actuator_id r) = None"
      using ok fresh by (auto simp: service_ok_def roster_def map_of_eq_None_iff)
    have "io_sup s' = sv" by (simp add: s' set_sup_def io_sup_def)
    moreover have "map_option g_registration (guard_of sv aid) =
        map_of (map (\<lambda>r. (ar_actuator_id r, r)) (io_registrations s @ [r])) aid" for aid
      using ok old regs [of aid] by (auto simp: service_ok_def roster_def fun_eq_iff map_add_def split: option.split)
    ultimately show ?thesis using ok fresh ids by (auto simp: service_ok_def roster_def s')
  qed
qed

lemma bring_up_ok: "preserves service_ok (bring_up drv su ba)"
proof -
  obtain r d where o: "drv_open drv (su_device su (ba_driver ba)) = (r, d)" by fastforce
  have "preserves service_ok (io_bind (io_result (actuator_chip_state su (ba_driver ba) d)) (\<lambda>cs.
      io_bind (publish_chip_state_once (su_env su) cs) (\<lambda>_. io_register (ba_registration ba) d)))"
    by (intro preserving ok_of_keeps core_roster register_ok)
  then show ?thesis by (simp add: preserves_def bring_up_def o split: sum.split)
qed

text \<open>
  What bringing an actuator up preserves, if it is a matter of the supervisor and the
  registrations, the whole connection preserves.
\<close>

lemma of_core:
  assumes "\<And>s s'. service_core s = service_core s' \<Longrightarrow> P s = P s'" "\<And>x. preserves (\<lambda>s. service_core s = x) m"
  shows "preserves P m"
  using assms unfolding preserves_def by metis

lemma connect_spine_preserves:
  assumes core: "\<And>s s'. service_core s = service_core s' \<Longrightarrow> P s = P s'"
    and up: "\<And>ba. preserves P (bring_up drv su ba)"
    and "P s" "connect_spine drv su s = Some (r, s')"
  shows "P s'"
proof -
  let ?s = "s\<lparr>io_has_spine := True\<rparr>"
  let ?prov = "on_core (\<lambda>c. provision (ce_nats (su_env su)) (c\<lparr>sp_connected := True\<rparr>)) :: ('a service, unit) io"
  have ok: "P ?s" using assms(3) core [of ?s s] by (simp add: core_fields)
  have field: "P (s\<lparr>io_assignments := m, io_sensors := ds\<rparr>) = P s" "P (s\<lparr>io_assignments := m\<rparr>) = P s" for s m ds
    by (rule core; simp add: core_fields)+
  have each: "preserves P (each_io (bring_up drv su) actuators)" for actuators
    by (intro preserving up)
  then have build: "preserves P (build_from_registry drv su as)" for as
    by (simp add: preserves_def build_from_registry_def remember_assignments_def Let_def field split: sum.split prod.split)
  have fin: "preserves P (io_bind (io_result ra) (\<lambda>as. io_bind (build_from_registry drv su as) (\<lambda>_. after_build su)))" for ra
    by (intro preserves_bind preserves_pure build of_core [OF core] after_build_keeps)
  have "preserves (\<lambda>s. service_core s = x) ?prov" for x
    by (intro on_core_keeps preserves_set [where u = "\<lambda>c. c\<lparr>sp_connected := True\<rparr>"] preserving) simp
  from of_core [OF core this] have prov: "preserves P ?prov" .
  obtain q s1 where p: "?prov ?s = (q, s1)" by fastforce
  from preservesD [OF prov ok p] have s1: "P s1" .
  show ?thesis
  proof (cases "isOk (su_connect su) \<and> isOk q")
    case False
    then show ?thesis using assms(4) ok p s1
      by (auto simp: connect_spine_def Let_def isOk_def split: sum.splits)
  next
    case True
    then obtain u u' where "su_connect su = Inr u" "q = Inr u'" by (auto simp: isOk_def split: sum.splits)
    with assms(4) p obtain ra c where ra: "read_assignments (ce_nats (su_env su)) (io_core s1) = Some (ra, c)"
      and rest: "io_bind (io_result ra) (\<lambda>as. io_bind (build_from_registry drv su as) (\<lambda>_. after_build su))
            (s1\<lparr>io_core := c\<rparr>) = (r, s')"
      by (auto simp: connect_spine_def Let_def split: option.splits)
    have "P (s1\<lparr>io_core := c\<rparr>)"
      using s1 read_assignments_keeps [OF ra] core [of "s1\<lparr>io_core := c\<rparr>" s1] by (simp add: service_core_def io_sup_def)
    then show ?thesis using rest fin by (blast intro: preservesD)
  qed
qed

lemma connect_spine_ok: "service_ok s \<Longrightarrow> connect_spine drv su s = Some (r, s') \<Longrightarrow> service_ok s'"
  by (rule connect_spine_preserves [of service_ok]) (simp_all add: bring_up_ok service_ok_def service_core_def)

lemma start_service_ok:
  assumes "service_ok s" "start_service drv su http env s = Some (r, s')"
  shows "service_ok s'"
proof -
  obtain q s1 where w: "with_events env (sup_start drv (service_sink (io_has_spine s))) s = (q, s1)" by fastforce
  have "preserves service_ok (with_events env (sup_start drv (service_sink (io_has_spine s))))"
    by (intro ok_of_keeps with_events_keeps sup_start_roster)
  from preservesD [OF this assms(1) w] have s1: "service_ok s1" .
  show ?thesis
    using assms(2) w s1
    by (auto simp: start_service_def split: sum.splits option.splits dest: connect_spine_ok)
qed

lemma init_ok: "service_init trusted li lt now t = Inr s \<Longrightarrow> service_ok s"
  by (auto simp: service_init_def res_bind_def service_ok_def io_sup_def supervisor_init_def roster_def
      actuator_ids_def guard_of_def split: sum.splits)

lemma service_ok_guards:
  assumes "service_ok s"
  shows "actuator_ids (io_sup s) = map ar_actuator_id (io_registrations s)" "distinct (actuator_ids (io_sup s))"
    "r \<in> set (io_registrations s) \<Longrightarrow> registration_of (ar_actuator_id r) (io_sup s) = Inr r"
proof -
  show ids: "actuator_ids (io_sup s) = map ar_actuator_id (io_registrations s)" "distinct (actuator_ids (io_sup s))"
    using assms by (auto simp: service_ok_def roster_def)
  assume r: "r \<in> set (io_registrations s)"
  have "map_of (map (\<lambda>r. (ar_actuator_id r, r)) (io_registrations s)) (ar_actuator_id r) = Some r"
    using r ids by (intro map_of_is_SomeI) (auto simp: o_def)
  moreover have "(\<lambda>aid. map_option g_registration (guard_of (io_sup s) aid)) =
      map_of (map (\<lambda>r. (ar_actuator_id r, r)) (io_registrations s))"
    using assms by (simp add: service_ok_def roster_def)
  ultimately have "map_option g_registration (guard_of (io_sup s) (ar_actuator_id r)) = Some r"
    by (metis (no_types, lifting))
  then show "registration_of (ar_actuator_id r) (io_sup s) = Inr r"
    by (auto simp: registration_of_def split: option.split)
qed

lemma service_ok_guard:
  assumes "service_ok s" "r \<in> set (io_registrations s)"
  obtains g where "guard_of (io_sup s) (ar_actuator_id r) = Some g" "g_registration g = r"
  using service_ok_guards(3) [OF assms] by (auto simp: registration_of_def split: option.splits)

lemma loop_ok: "service_ok s \<Longrightarrow> io_loop serial drv ocs s = (q, s') \<Longrightarrow> service_ok s'"
  by (rule preservesD [OF ok_of_keeps [OF loop_keeps]])

lemma drill_ok: "preserves service_ok (register_drill_actuator env d)"
  unfolding register_drill_actuator_def by (intro preserving register_ok)

section \<open>The end of the loop\<close>

lemma service_sink_completes: "\<forall>ev. \<exists>b. service_sink sp ev = SinkCompletes b"
  by (simp add: service_sink_def)

lemma with_events_spine: "io_has_spine (snd (with_events env f s)) = io_has_spine s"
proof -
  have core: "preserves (\<lambda>s. io_has_spine s = b) (on_core m)" for b and m :: "('a consumer, unit) io"
    by (simp add: preserves_def on_core_def split: prod.split)
  have "preserves (\<lambda>s. io_has_spine s = b) (io_publish_state env aid l rs lt :: ('a service, unit) io)" for b aid l rs lt
    unfolding io_publish_state_def [abs_def] by (intro preserving core)
  then have "preserves (\<lambda>s. io_has_spine s = b) (each_io (on_safety_event env) evs :: ('a service, unit) io)" for b evs
    unfolding on_safety_event_def by (intro preserving)
  note keeps_eq [OF this]
  then show ?thesis by (simp add: with_events_def split: prod.split)
qed

lemma shutdown_safe:
  assumes ok: "service_ok s"
  shows "\<exists>s'. shutdown env (Inr ()) drv s = (Inr (), s') \<and> (io_has_spine s \<longrightarrow> \<not> sp_connected (io_core s'))
    \<and> service_core s' = service_core (set_sup (snd (sup_stop drv (service_sink (io_has_spine s)) (io_sup s))) s)"
proof -
  let ?stop = "sup_stop drv (service_sink (io_has_spine s))"
  obtain es sv where st: "?stop (io_sup s) = (if es = [] then Inr () else Inl (ExceptionGroup es), sv)"
    using stop_drives_all [OF service_sink_completes service_ok_guards(2) [OF ok], of drv "io_has_spine s"]
    by (elim exE conjE) (simp add: Let_def)
  obtain q s1 where w: "with_events env ?stop s = (q, s1)" by fastforce
  have q: "q = (if es = [] then Inr () else Inl (ExceptionGroup es))"
    using w st by (simp add: with_events_def)
  have s1: "service_core s1 = service_core (set_sup sv s)" "io_has_spine s1 = io_has_spine s"
    using with_events_core [of env ?stop s] with_events_spine [of env ?stop s] w st by simp_all
  have close: "\<exists>s'. close_spine s1 = (Inr (), s') \<and> (io_has_spine s \<longrightarrow> \<not> sp_connected (io_core s'))
      \<and> service_core s' = service_core s1"
    using s1(2) by (simp add: close_spine_def on_core_def spine_close_def service_core_def io_sup_def)
  have "shutdown env (Inr ()) drv s = close_spine s1"
    using w q by (cases "es = []") (simp_all add: shutdown_def)
  with close s1(1) st show ?thesis by auto
qed

section \<open>Live assignments\<close>

text \<open>The last assignment of a device in what the registry held when the service read it.\<close>

definition last_read :: "device_assignment list \<Rightarrow> string \<Rightarrow> device_assignment option" where
  "last_read as dev = find (\<lambda>b. da_device_id b = dev) (rev as)"

text \<open>What a service that holds b would build differently for a.\<close>

definition same_build :: "device_assignment \<Rightarrow> device_assignment \<Rightarrow> bool" where
  "same_build a b \<longleftrightarrow> da_adopted a = da_adopted b \<and> da_role a = da_role b \<and> da_driver_type a = da_driver_type b
     \<and> map_option map_of (da_binding a) = map_option map_of (da_binding b)"

lemma remembered: "io_assignments (remember_assignments as s) dev = map_option fingerprint (last_read as dev)"
proof -
  have "map_of (map (\<lambda>a. (da_device_id a, fingerprint a)) xs) dev = map_option fingerprint (find (\<lambda>b. da_device_id b = dev) xs)" for xs
    by (induction xs) auto
  from this [of "rev as"] show ?thesis by (simp add: remember_assignments_def last_read_def rev_map)
qed

lemma sorted_items:
  fixes xs ys :: "(string \<times> string) list"
  assumes "distinct (map fst xs)" "distinct (map fst ys)"
  shows "sort_key fst xs = sort_key fst ys \<longleftrightarrow> map_of xs = map_of ys"
proof
  assume "sort_key fst xs = sort_key fst ys"
  then have "set xs = set ys" by (metis set_sort)
  then show "map_of xs = map_of ys" using map_of_inject_set [OF assms] by blast
next
  assume "map_of xs = map_of ys"
  then have "set xs = set ys" using map_of_inject_set [OF assms] by blast
  then have "mset xs = mset (sort_key fst ys)"
    using assms by (simp add: set_eq_iff_mset_eq_distinct distinct_map)
  then show "sort_key fst xs = sort_key fst ys"
    by (rule sort_key_inj_key_eq) (use assms in \<open>simp_all add: distinct_map\<close>)
qed

lemma fingerprint_same:
  assumes "\<forall>ks. da_binding a = Some ks \<longrightarrow> distinct (map fst ks)" "\<forall>ks. da_binding b = Some ks \<longrightarrow> distinct (map fst ks)"
  shows "fingerprint b = fingerprint a \<longleftrightarrow> same_build a b"
  using assms sorted_items
  by (cases "da_binding a"; cases "da_binding b") (auto simp: fingerprint_def same_build_def)

section \<open>The safe state at start-up\<close>

text \<open>A guard as \<open>register\<close> leaves it after the driver's \<open>open\<close>, with nothing driven since.\<close>

definition only_opened :: "'d driver \<Rightarrow> 'd supervisor \<Rightarrow> bool" where
  "only_opened drv sv \<longleftrightarrow> (\<forall>aid g. guard_of sv aid = Some g \<longrightarrow>
     g_at_safe_state g \<and> (\<exists>d. drv_open drv d = (Inr (), g_device g)))"

lemma only_opened_core: "(\<And>x. preserves (\<lambda>s. service_core s = x) m) \<Longrightarrow> preserves (\<lambda>s. only_opened drv (io_sup s)) m"
  using keeps_preserves [of service_core m "\<lambda>(sv, rs). only_opened drv sv"] by (simp add: service_core_def)

lemma only_opened_fields: "service_core s = service_core s' \<Longrightarrow> only_opened drv (io_sup s) = only_opened drv (io_sup s')"
  by (simp add: service_core_def)

lemma bring_up_opened: "preserves (\<lambda>s. only_opened drv (io_sup s)) (bring_up drv su ba)"
proof -
  obtain r d where o: "drv_open drv (su_device su (ba_driver ba)) = (r, d)" by fastforce
  show ?thesis
  proof (cases r)
    case (Inl e)
    with o show ?thesis by (simp add: preserves_def bring_up_def)
  next
    case (Inr u)
    have "preserves (\<lambda>s. only_opened drv (io_sup s)) (io_register (ba_registration ba) d)"
    proof (rule preservesI)
      fix s :: "'a service" and q s' assume s: "only_opened drv (io_sup s)" and reg: "io_register (ba_registration ba) d s = (q, s')"
      show "only_opened drv (io_sup s')"
      proof (cases "register (ba_registration ba) d (io_sup s)")
        case (Inl e)
        with reg s show ?thesis by (simp add: io_register_def)
      next
        case (Inr sv)
        obtain g where g: "g_device g = d" "g_at_safe_state g"
            "sv = io_sup s\<lparr>sv_guards := sv_guards (io_sup s) @ [(ar_actuator_id (ba_registration ba), g)]\<rparr>"
          by (rule register_adds [OF Inr])
        have "only_opened drv sv"
          using s g o \<open>r = Inr u\<close> by (auto simp: only_opened_def guard_of_append split: option.splits if_splits)
        moreover have "io_sup s' = sv" using reg Inr by (auto simp: io_register_def set_sup_def io_sup_def)
        ultimately show ?thesis by simp
      qed
    qed
    note registered = this
    have "preserves (\<lambda>s. only_opened drv (io_sup s)) (io_bind (io_result (actuator_chip_state su (ba_driver ba) d)) (\<lambda>cs.
        io_bind (publish_chip_state_once (su_env su) cs) (\<lambda>_. io_register (ba_registration ba) d)))"
      by (intro preserving only_opened_core registered)
    with o Inr show ?thesis by (simp add: preserves_def bring_up_def)
  qed
qed

end
