(* ===== verification/HardwareStop.thy ===== *)
theory HardwareStop
  imports HardwareRun
begin

text \<open>
  What the wire hears of a clean stop: the states the service publishes between driving its
  actuators safe and letting go of the broker.
\<close>

section \<open>What the supervisor tells while it stops\<close>

definition stop_told :: "'d driver \<Rightarrow> 'd supervisor \<Rightarrow> string \<Rightarrow> safety_event \<Rightarrow> bool" where
  "stop_told drv sv aid ev \<longleftrightarrow> se_actuator_id ev = aid \<and> se_reason ev = Shutdown
     \<and> (se_reached_safe ev \<longleftrightarrow> safe_error drv (g_device (cancel_tasks drv (the (guard_of sv aid)))) = None)"

lemma emit_heard:
  assumes "\<forall>ev. \<exists>b. sink ev = SinkCompletes b"
  obtains sv' where "emit_event sink aid rs dt b sv = (Inr (), sv')"
    "sv_heard sv' = sv_heard sv @ [safety_event_of sv aid rs dt b]"
proof -
  obtain c where "sink (safety_event_of sv aid rs dt b) = SinkCompletes c" using assms by blast
  then show thesis by (intro that) (auto simp: emit_event_def hear_def tell_def Let_def)
qed

lemma upd_guard_heard [simp]: "sv_heard (upd_guard aid f sv) = sv_heard sv"
  by (simp add: upd_guard_def)

lemma stop_guard_heard:
  assumes "\<forall>ev. \<exists>b. sink ev = SinkCompletes b" "guard_of sv aid = Some g"
  shows "\<exists>ev. sv_heard (snd (stop_guard drv sink aid g sv)) = sv_heard sv @ [ev] \<and> stop_told drv sv aid ev"
proof -
  let ?g = "cancel_tasks drv g"
  obtain r d where d: "drv_drive_safe drv (g_device ?g) = (r, d)" by fastforce
  show ?thesis
  proof (cases r)
    case (Inl e)
    obtain sv1 where em: "emit_event sink aid Shutdown (ShutdownDriveFailed e) False (upd_guard aid (\<lambda>_. ?g\<lparr>g_device := d\<rparr>) sv) = (Inr (), sv1)"
      "sv_heard sv1 = sv_heard (upd_guard aid (\<lambda>_. ?g\<lparr>g_device := d\<rparr>) sv)
         @ [safety_event_of (upd_guard aid (\<lambda>_. ?g\<lparr>g_device := d\<rparr>) sv) aid Shutdown (ShutdownDriveFailed e) False]"
      by (rule emit_heard [OF assms(1)])
    with d Inl assms(2) show ?thesis
      by (simp add: stop_guard_def drive_safe_once_def stop_told_def safety_event_of_def safe_error_def split: unit.split)
  next
    case (Inr u)
    obtain sv1 where em: "emit_event sink aid Shutdown SupervisorStopping True (upd_guard aid (\<lambda>_. mark_safe (?g\<lparr>g_device := d\<rparr>)) sv) = (Inr (), sv1)"
      "sv_heard sv1 = sv_heard (upd_guard aid (\<lambda>_. mark_safe (?g\<lparr>g_device := d\<rparr>)) sv)
         @ [safety_event_of (upd_guard aid (\<lambda>_. mark_safe (?g\<lparr>g_device := d\<rparr>)) sv) aid Shutdown SupervisorStopping True]"
      by (rule emit_heard [OF assms(1)])
    with d Inr assms(2) show ?thesis
      by (simp add: stop_guard_def drive_safe_once_def stop_told_def safety_event_of_def safe_error_def split: unit.split)
  qed
qed

lemma each_stop_heard:
  assumes sink: "\<forall>ev. \<exists>b. sink ev = SinkCompletes b"
    and "distinct aids" "\<forall>aid \<in> set aids. guard_of sv aid \<noteq> None"
  shows "\<exists>evs. sv_heard (snd (each_guard (stop_guard drv sink) aids fs sv)) = sv_heard sv @ evs
    \<and> list_all2 (stop_told drv sv) aids evs"
  using assms(2,3)
proof (induction aids arbitrary: fs sv)
  case (Cons aid aids)
  then obtain g where g: "guard_of sv aid = Some g" by auto
  obtain sv1 where one: "stop_guard drv sink aid g sv = (Inr (safe_error drv (g_device (cancel_tasks drv g))), sv1)"
    "guard_of sv1 = (guard_of sv)(aid \<mapsto> stopped drv g)"
    using stop_guard_eq [OF sink g] by metis
  obtain ev where ev: "sv_heard sv1 = sv_heard sv @ [ev]" "stop_told drv sv aid ev"
    using stop_guard_heard [OF sink g, of drv] one(1) by auto
  have "distinct aids" "\<forall>k \<in> set aids. guard_of sv1 k \<noteq> None" using Cons.prems one(2) by auto
  from Cons.IH [OF this] obtain evs where evs: "\<And>fs. sv_heard (snd (each_guard (stop_guard drv sink) aids fs sv1)) = sv_heard sv1 @ evs fs"
    "\<And>fs. list_all2 (stop_told drv sv1) aids (evs fs)" by metis
  have "list_all2 (stop_told drv sv) aids (evs fs)" for fs
    using evs(2) [of fs] one(2) Cons.prems(1) by (auto simp: list_all2_conv_all_nth stop_told_def)
  with ev evs(1) one(1) g show ?case by (auto split: option.split)
qed simp

lemma sup_stop_heard:
  assumes "\<forall>ev. \<exists>b. sink ev = SinkCompletes b" "distinct (actuator_ids sv)"
  shows "\<exists>evs. sv_heard (snd (sup_stop drv sink sv)) = sv_heard sv @ evs \<and> list_all2 (stop_told drv sv) (actuator_ids sv) evs"
proof -
  have "stop_told drv (sv\<lparr>sv_running := False\<rparr>) = stop_told drv sv"
    by (simp add: stop_told_def fun_eq_iff)
  with each_stop_heard [OF assms, of "sv\<lparr>sv_running := False\<rparr>" drv "[]"] guard_of_ids [of sv] show ?thesis
    by (simp add: sup_stop_def)
qed

lemma sup_stop_guards:
  assumes "\<forall>ev. \<exists>b. sink ev = SinkCompletes b" "distinct (actuator_ids sv)"
  shows "guard_of (snd (sup_stop drv sink sv)) k = map_option (stopped drv) (guard_of sv k)"
proof -
  have "\<exists>sv'. snd (sup_stop drv sink sv) = sv' \<and> (\<forall>k. guard_of sv' k =
      (if k \<in> set (actuator_ids sv) then map_option (stopped drv) (guard_of sv k) else guard_of sv k))"
    using each_guard_isolated [OF stop_isolated [OF assms(1)] assms(2), of "sv\<lparr>sv_running := False\<rparr>" _ drv "[]"]
      guard_of_ids [of sv] by (auto simp: sup_stop_def)
  then show ?thesis using guard_of_id [of sv k] by (cases "guard_of sv k") auto
qed

section \<open>What the service publishes of it\<close>

lemma state_message_cases:
  "state_message env aid l rs b = Inr st \<Longrightarrow> as_actuator_id st = aid \<and> as_level st = l \<and> as_reason st = rs \<and> as_latched st = b"
  "state_message env aid l rs b \<noteq> Inl CancelledError"
proof -
  show "state_message env aid l rs b = Inr st \<Longrightarrow> as_actuator_id st = aid \<and> as_level st = l \<and> as_reason st = rs \<and> as_latched st = b"
    by (simp add: state_message_def validate_actuator_state_def validated_Inr)
  show "state_message env aid l rs b \<noteq> Inl CancelledError"
  proof
    assume "state_message env aid l rs b = Inl CancelledError"
    from validated_Inl [OF this [unfolded state_message_def validate_actuator_state_def]]
    show False by (auto simp: message_guards_def)
  qed
qed

text \<open>The requests one state costs: one, unless the message or its subject does not validate.\<close>

definition state_calls :: "consumer_env \<Rightarrow> string \<Rightarrow> level \<Rightarrow> state_reason \<Rightarrow> bool \<Rightarrow> broker_call list" where
  "state_calls env aid l rs latched =
     (case state_message env aid l rs latched of
        Inl e \<Rightarrow> []
      | Inr st \<Rightarrow> (case Subjects.state aid of Inl e \<Rightarrow> [] | Inr subj \<Rightarrow> [StreamPublish subj (PState st) None]))"

definition spine_up :: "consumer_env \<Rightarrow> 'd service \<Rightarrow> bool" where
  "spine_up env s \<longleftrightarrow> io_has_spine s \<and> sp_connected (io_core s) \<and> (\<forall>past call. ce_nats env past call \<noteq> Inl CancelledError)"

definition logged :: "'d service \<Rightarrow> broker_call list \<Rightarrow> 'd service" where
  "logged s cs = s\<lparr>io_core := (io_core s)\<lparr>sp_log := sp_log (io_core s) @ cs\<rparr>\<rparr>"

lemma logged_simps [simp]:
  "logged s [] = s" "logged (logged s cs) ds = logged s (cs @ ds)" "spine_up env (logged s cs) = spine_up env s"
  "io_sup (logged s cs) = io_sup s" "io_registrations (logged s cs) = io_registrations s"
  "sp_log (io_core (logged s cs)) = sp_log (io_core s) @ cs" "io_has_spine (logged s cs) = io_has_spine s"
  by (simp_all add: logged_def spine_up_def io_sup_def)

lemma publish_state_logs:
  assumes "spine_up env s"
  shows "io_publish_state env aid l rs b s = (Inr (), logged s (state_calls env aid l rs b))"
proof (cases "state_message env aid l rs b")
  case (Inl e)
  with state_message_cases(2) [of env aid l rs b] assms show ?thesis
    by (simp add: io_publish_state_def on_core_def swallow_def io_bind_def io_result_def state_calls_def spine_up_def
        logged_def)
next
  case (Inr st)
  with assms state_message_cases(1) [OF Inr] show ?thesis
    by (auto simp: io_publish_state_def on_core_def swallow_def io_bind_def io_result_def state_calls_def spine_up_def
        logged_def spine_publish_state_def spine_publish_def need_connection_def req_simps split: sum.split)
qed

text \<open>One told event of the stop.\<close>

definition farewell :: "consumer_env \<Rightarrow> 'd driver \<Rightarrow> 'd supervisor \<Rightarrow> actuator_registration \<Rightarrow> broker_call list" where
  "farewell env drv sv r =
     (case guard_of sv (ar_actuator_id r) of
        None \<Rightarrow> []
      | Some g \<Rightarrow>
          if safe_error drv (g_device (cancel_tasks drv g)) \<noteq> None then []
          else (case ar_safe_state r of
                  None \<Rightarrow> []
                | Some l \<Rightarrow> state_calls env (ar_actuator_id r) l SafeState (g_latched g)))"

lemma event_logs:
  assumes up: "spine_up env s" and told: "stop_told drv sv (ar_actuator_id r) ev"
    and before: "guard_of sv (ar_actuator_id r) = Some g"
    and after: "guard_of (io_sup s) (ar_actuator_id r) = Some (stopped drv g)" and reg: "g_registration g = r"
  shows "on_safety_event env ev s = (Inr (), logged s (farewell env drv sv r))"
proof -
  have same: "g_registration (stopped drv g) = r" "g_latched (stopped drv g) = g_latched g"
    using reg by (auto simp: stopped_def cancel_tasks_def split: prod.split sum.split)
  have ev: "se_actuator_id ev = ar_actuator_id r" "se_reason ev = Shutdown"
    "se_reached_safe ev \<longleftrightarrow> safe_error drv (g_device (cancel_tasks drv g)) = None"
    using told before by (simp_all add: stop_told_def)
  show ?thesis
    using up ev before after same publish_state_logs [OF up]
    by (auto simp: on_safety_event_def swallow_def io_bind_def io_result_def io_return_def registration_of_def
        is_latched_def farewell_def split: option.split)
qed

lemma events_log:
  assumes "spine_up env s" "list_all2 (stop_told drv sv) (map ar_actuator_id rs) evs"
    and "\<forall>r \<in> set rs. \<exists>g. guard_of sv (ar_actuator_id r) = Some g \<and> g_registration g = r
           \<and> guard_of (io_sup s) (ar_actuator_id r) = Some (stopped drv g)"
  shows "each_io (on_safety_event env) evs s = (Inr (), logged s (concat (map (farewell env drv sv) rs)))"
  using assms
proof (induction rs arbitrary: evs s)
  case (Cons r rs)
  then obtain ev evs' where evs: "evs = ev # evs'" "stop_told drv sv (ar_actuator_id r) ev"
    "list_all2 (stop_told drv sv) (map ar_actuator_id rs) evs'"
    by (auto simp: list_all2_Cons1)
  from Cons.prems(3) obtain g where g: "guard_of sv (ar_actuator_id r) = Some g" "g_registration g = r"
    "guard_of (io_sup s) (ar_actuator_id r) = Some (stopped drv g)" by auto
  have "on_safety_event env ev s = (Inr (), logged s (farewell env drv sv r))"
    by (rule event_logs [OF Cons.prems(1) evs(2) g(1,3,2)])
  moreover have "each_io (on_safety_event env) evs' (logged s (farewell env drv sv r))
      = (Inr (), logged (logged s (farewell env drv sv r)) (concat (map (farewell env drv sv) rs)))"
    by (rule Cons.IH) (use Cons.prems evs in auto)
  ultimately show ?case using evs(1) by (simp add: io_bind_def)
qed (simp add: io_return_def)

end
