(* ===== verification/HardwareLife.thy ===== *)
theory HardwareLife
  imports HardwareStop
begin

text \<open>
  The life of the hardware service, from its start to its end: what it registers, what it
  assumes, what makes it stop, and what it does and says when it stops.
\<close>

section \<open>A hub with one light\<close>

text \<open>A hub whose registry names one light, and whose light was left on.\<close>

definition registry_broker :: nats where
  "registry_broker past call =
     (case call of
        Fetch n t \<Rightarrow> if list_ex (\<lambda>c. case c of Fetch n t \<Rightarrow> True | _ \<Rightarrow> False) past
                     then Inl (TimeoutError ''nats: timeout'') else Inr (Retained [(1, Inr light_assignment)])
      | _ \<Rightarrow> Inr Done)"

definition boot_env :: consumer_env where
  "boot_env = \<lparr>ce_nats = registry_broker, ce_fresh = 9, ce_now = 0\<rparr>"

definition boot :: "level startup" where
  "boot = \<lparr>su_env = boot_env, su_build = no_bus\<lparr>be_open_i2c := Some (\<lambda>bus. Inr ())\<rparr>, su_device = (\<lambda>_. PwmLevel 1),
     su_connect = Inr (), su_pca_state = (\<lambda>key d. present_chip boot_env Pca9685 ''i2c-1-0x40'' []),
     su_pwm_device = (\<lambda>_. Inl (OSError ''no pwm'')), su_pinctrl = Inl (OSError ''no pinctrl''), su_w1_names = None,
     su_i2c_node = False, su_mode1 = Inr 0\<rparr>"

lemma boot_builds:
  "build_from_assignments (su_build boot) None [light_assignment] =
     Inr ([\<lparr>ba_driver = Pca9685Built (1, 0x40) 3, ba_registration =
       (sample_registration\<lparr>message_id := 7, ar_driver_id := ''pca9685''\<rparr>)\<rparr>], [])"
proof -
  have channel: "py_int_of ''3'' = Inr 3" using py_int_of_str [of 3] by (simp add: py_str_int_def nat_digits.simps [of 3] digit_char_def)
  have "registration_for (su_build boot) light_assignment ''pca9685'' =
      Inr (sample_registration\<lparr>message_id := 7, ar_driver_id := ''pca9685''\<rparr>)"
    by (simp add: registration_for_def light_registration_def boot_def no_bus_def light_assignment_def
      sample_registration_def validate_actuator_registration_def validated_def
      message_guards_def SCHEMA_VERSION_def device_id_ok_def token_body_def lower_alnum_def
      token_chars_def authority_governs_safety_def missing_triple_def safe_state_matches_class_def
      LIGHT_MAX_RUNTIME_S_def LIGHT_HEARTBEAT_TIMEOUT_S_def)
  with channel show ?thesis
    by (simp add: boot_def no_bus_def build_from_assignments_def last_per_device_rec light_assignment_def build_one_def
     binding_int_def open_chip_def keep_actuator_def build_channel_def binding_at_def fresh_build_def)
qed

text \<open>The start of that hub up to its registration.\<close>

definition fresh_hub :: "level service" where
  "fresh_hub = (case service_init True 1 15 (Aware 0) 0 of Inr s \<Rightarrow> s | Inl e \<Rightarrow> undefined)"

lemma fresh_hub_init: "service_init True 1 15 (Aware 0) 0 = Inr fresh_hub"
  by (simp add: fresh_hub_def service_init_def liveness_new_def validated_def res_bind_def)

lemma registry_read:
  assumes "sp_connected c" "list_all (\<lambda>c. \<not> (\<exists>n t. c = Fetch n t)) (sp_log c)"
  shows "read_assignments registry_broker c = Some (Inr [light_assignment], c\<lparr>sp_log := sp_log c @
    [PullSubscribe (all_of ''assignment'') None, Fetch 32 1, Ack 1, Fetch 32 1, Unsubscribe]\<rparr>)"
proof -
  have "\<not> list_ex (\<lambda>c. case c of Fetch n t \<Rightarrow> True | _ \<Rightarrow> False) (sp_log c)"
    using assms(2) by (auto simp: list_all_iff list_ex_iff split: broker_call.splits)
  then show ?thesis using assms(1)
    by (simp add: read_assignments_def io_bind_def need_connection_def req_simps registry_broker_def
        read_loop.simps ask_def io_return_def)
qed

lemma provision_quiet: "sp_connected c \<Longrightarrow> provision registry_broker c = (Inr (), c\<lparr>sp_log := sp_log c @
    [AddStream ''BR_CMD'', AddStream ''BR_STATE'', AddStream ''BR_REGISTRY'', AddStream ''BR_CAPABILITY'',
     AddStream ''BR_CHIP'', AddStream ''BR_HOST'', AddStream ''BR_ASSIGNMENT'', AddStream ''BR_AUDIT'']\<rparr>)"
  by (simp add: provision_def STREAMS_def provision_one_def io_bind_def need_connection_def req_simps
      registry_broker_def io_return_def last_value_def)

lemma registry_never_cancels: "registry_broker past call \<noteq> Inl CancelledError"
  by (simp add: registry_broker_def split: broker_call.split)

lemma boot_builds_guard:
  assumes "guard_of (io_sup s) ''blue'' = None"
  shows "\<exists>s' g. build_from_registry (snapping_driver 0) boot [light_assignment] s = (Inr (), s')
    \<and> guard_of (io_sup s') ''blue'' = Some g \<and> g_device g = PwmLevel 1"
proof -
  let ?r = "sample_registration\<lparr>message_id := 7, ar_driver_id := ''pca9685''\<rparr>"
  let ?ba = "\<lparr>ba_driver = Pca9685Built (1, 0x40) 3, ba_registration = ?r\<rparr>"
  let ?s = "(remember_assignments [light_assignment] s)\<lparr>io_sensors := io_sensors s\<rparr>"
  obtain cs where cs: "present_chip boot_env Pca9685 ''i2c-1-0x40'' [] = Inr cs"
    by (auto simp: present_chip_def validate_chip_state_def validated_def message_guards_def SCHEMA_VERSION_def
        boot_env_def str_len_ok_def device_id_ok_def token_body_def lower_alnum_def token_chars_def)
  obtain q s1 where p: "publish_chip_state_once boot_env cs ?s = (q, s1)" by fastforce
  have core: "service_core s1 = service_core ?s" by (rule keepsD [where f = service_core, OF chip_state_keeps p])
  have q: "q = Inr ()"
    using p by (auto simp: publish_chip_state_once_def Let_def on_core_def spine_publish_chip_state_def
      registry_never_cancels boot_env_def chip_def validate_token_def res_bind_def split: if_splits sum.splits prod.splits
      elim!: spine_publish_cases)
  have sup: "io_sup s1 = io_sup s"
    using core by (simp add: service_core_def remember_assignments_def io_sup_def)
  obtain sv where sv: "register ?r (PwmLevel 1) (io_sup s1) = Inr sv"
    using assms by (simp add: sup register_def Let_def sample_registration_def)
  obtain g where g: "g_device g = PwmLevel 1" "sv = io_sup s1\<lparr>sv_guards := sv_guards (io_sup s1) @ [(ar_actuator_id ?r, g)]\<rparr>"
    by (rule register_adds [OF sv])
  have "guard_of sv ''blue'' = Some g"
    using assms by (simp add: g(2) guard_of_append sup sample_registration_def)
  moreover have "bring_up (snapping_driver 0) boot ?ba ?s = (Inr (), (set_sup sv s1)\<lparr>io_registrations := io_registrations s1 @ [?r]\<rparr>)"
    using cs p q sv by (simp add: bring_up_def snapping_driver_def boot_def io_bind_def io_result_def
        actuator_chip_state_def io_register_def)
  then have "build_from_registry (snapping_driver 0) boot [light_assignment] s
      = (Inr (), (set_sup sv s1)\<lparr>io_registrations := io_registrations s1 @ [?r]\<rparr>)"
    by (simp add: build_from_registry_def boot_builds io_bind_def io_return_def remember_assignments_def)
  ultimately show ?thesis using g(1) by (intro exI conjI) (assumption | simp add: set_sup_def io_sup_def)+
qed

lemma hub_starts:
  "\<exists>p s1 g. start_service (snapping_driver 0) (Some boot) (Inr ()) boot_env fresh_hub = Some (p, s1)
     \<and> guard_of (io_sup s1) ''blue'' = Some g \<and> g_device g = PwmLevel 1"
proof -
  let ?w = "fresh_hub\<lparr>io_core := (io_core fresh_hub)\<lparr>co_sup := (co_sup (io_core fresh_hub))\<lparr>sv_running := True\<rparr>\<rparr>\<rparr>"
  have hub: "sp_log (io_core fresh_hub) = []" "sv_guards (co_sup (io_core fresh_hub)) = []"
    "sv_heard (co_sup (io_core fresh_hub)) = []"
    by (simp_all add: fresh_hub_def service_init_def liveness_new_def validated_def res_bind_def supervisor_init_def)
  have w: "with_events boot_env (sup_start (snapping_driver 0) (service_sink (io_has_spine fresh_hub))) fresh_hub = (Inr (), ?w)"
    using hub by (simp add: with_events_def sup_start_def actuator_ids_def io_sup_def set_sup_def io_return_def)
  let ?s = "?w\<lparr>io_has_spine := True\<rparr>"
  obtain c where c: "on_core (\<lambda>c. provision registry_broker (c\<lparr>sp_connected := True\<rparr>)) ?s = (Inr (), ?s\<lparr>io_core := c\<rparr>)"
    "sp_connected c" "list_all (\<lambda>c. \<not> (\<exists>n t. c = Fetch n t)) (sp_log c)" "co_sup c = co_sup (io_core ?s)"
    using hub by (simp add: on_core_def provision_quiet)
  let ?c = "c\<lparr>sp_log := sp_log c @ [PullSubscribe (all_of ''assignment'') None, Fetch 32 1, Ack 1, Fetch 32 1, Unsubscribe]\<rparr>"
  have "guard_of (io_sup (?s\<lparr>io_core := ?c\<rparr>)) ''blue'' = None"
    using c(4) hub by (simp add: io_sup_def guard_of_def)
  from boot_builds_guard [OF this] obtain s' g where build:
    "build_from_registry (snapping_driver 0) boot [light_assignment] (?s\<lparr>io_core := ?c\<rparr>) = (Inr (), s')"
    "guard_of (io_sup s') ''blue'' = Some g" "g_device g = PwmLevel 1" by blast
  obtain p s1 where fin: "after_build boot s' = (p, s1)" by fastforce
  have "service_core s1 = service_core s'" by (rule keepsD [where f = service_core, OF after_build_keeps fin])
  then have "guard_of (io_sup s1) ''blue'' = Some g" using build(2) by (simp add: service_core_def)
  moreover have "connect_spine (snapping_driver 0) boot ?w = Some (p, s1)"
    using c(1) registry_read [OF c(2,3)] build(1) fin
    by (simp add: connect_spine_def boot_def boot_env_def Let_def io_bind_def io_result_def)
  then have "\<exists>p. start_service (snapping_driver 0) (Some boot) (Inr ()) boot_env fresh_hub = Some (p, s1)"
    using w by (cases p) (simp_all add: start_service_def)
  ultimately show ?thesis using build(3) by blast
qed


text \<open>The same hub's loop, with its light lit by a command and running on its cap.\<close>

definition lit_hub :: "level service" where
  "lit_hub = fresh_hub\<lparr>io_core := (io_core fresh_hub)\<lparr>co_sup := lit_sup, sp_connected := True\<rparr>,
     io_has_spine := True, io_registrations := [sample_registration]\<rparr>"

lemma lit_hub_ok: "service_ok lit_hub"
  by (simp add: service_ok_def roster_def lit_hub_def io_sup_def lit_sup_def run_simps Let_def actuator_ids_def fun_eq_iff)

section \<open>Properties\<close>



text \<open>
  C9. However the loop ends, the lights go out and the broker is let go. Whatever happened in
  the loop and whether it returned or raised, and although any of the drivers may fail: the
  service ends with the loop's own result; every actuator it holds a registration for has had
  both its tasks cancelled and its device put through \<open>drive_safe\<close>, counts as at its safe
  state if that call succeeded; and the spine is closed.
\<close>

theorem loop_end_drives_safe:
  assumes "service_ok s" "io_loop serial drv ocs s = (q, s1)" "r \<in> set (io_registrations s)"
  shows "\<exists>s2 g g2. serve serial drv ocs env (Inr ()) s = (q, s2)
    \<and> (io_has_spine s1 \<longrightarrow> \<not> sp_connected (io_core s2))
    \<and> guard_of (io_sup s1) (ar_actuator_id r) = Some g \<and> guard_of (io_sup s2) (ar_actuator_id r) = Some g2
    \<and> g_device g2 = snd (drv_drive_safe drv (g_device (cancel_tasks drv g)))
    \<and> g_watch_task g2 = None \<and> g_runtime_task g2 = None
    \<and> (safe_error drv (g_device (cancel_tasks drv g)) = None \<longrightarrow> g_at_safe_state g2)"
proof -
  have ok: "service_ok s1" using loop_ok assms(1,2) by blast
  have "service_roster s1 = service_roster s" by (rule keepsD [where f = service_roster, OF loop_keeps assms(2)])
  with assms(3) have "r \<in> set (io_registrations s1)" by (simp add: service_roster_def)
  from service_ok_guard [OF ok this] obtain g where g: "guard_of (io_sup s1) (ar_actuator_id r) = Some g" .
  obtain s2 where s2: "shutdown env (Inr ()) drv s1 = (Inr (), s2)" "io_has_spine s1 \<longrightarrow> \<not> sp_connected (io_core s2)"
    "service_core s2 = service_core (set_sup (snd (sup_stop drv (service_sink (io_has_spine s1)) (io_sup s1))) s1)"
    using shutdown_safe [OF ok] by blast
  obtain sv where sv: "snd (sup_stop drv (service_sink (io_has_spine s1)) (io_sup s1)) = sv"
    and all: "\<And>aid g. guard_of (io_sup s1) aid = Some g \<Longrightarrow> \<exists>g'. guard_of sv aid = Some g'
         \<and> g_device g' = snd (drv_drive_safe drv (g_device (cancel_tasks drv g)))
         \<and> g_watch_task g' = None \<and> g_runtime_task g' = None
         \<and> (safe_error drv (g_device (cancel_tasks drv g)) = None \<longrightarrow> g_at_safe_state g')"
    using stop_drives_all [OF service_sink_completes service_ok_guards(2) [OF ok], of drv "io_has_spine s1"]
    by (elim exE conjE) simp
  have sup2: "io_sup s2 = sv" using s2(3) sv by (simp add: service_core_def)
  have served: "serve serial drv ocs env (Inr ()) s = (q, s2)" using assms(2) s2(1) by (simp add: serve_def)
  obtain g2 where g2: "guard_of sv (ar_actuator_id r) = Some g2"
    "g_device g2 = snd (drv_drive_safe drv (g_device (cancel_tasks drv g)))"
    "g_watch_task g2 = None" "g_runtime_task g2 = None"
    "safe_error drv (g_device (cancel_tasks drv g)) = None \<longrightarrow> g_at_safe_state g2"
    using all [OF g] by (elim exE conjE) (rule that)
  show ?thesis
    by (rule exI [of _ s2], rule exI [of _ g], rule exI [of _ g2], unfold sup2) (intro conjI served s2(2) g g2)
qed

theorem loop_end_drives_safe_witness:
  "\<exists>s2 g2. serve True (snapping_driver 0) [StopSignal] boot_env (Inr ()) lit_hub = (Inr (), s2)
     \<and> guard_of (io_sup s2) ''blue'' = Some g2 \<and> g_device g2 = PwmLevel 0 \<and> g_at_safe_state g2
     \<and> \<not> sp_connected (io_core s2)"
proof -
  have loop: "io_loop True (snapping_driver 0) [StopSignal] lit_hub = (Inr (), request_stop lit_hub)"
    by (simp add: io_bind_def lit_hub_def request_stop_def fresh_hub_def service_init_def liveness_new_def
        validated_def res_bind_def)
  have r: "sample_registration \<in> set (io_registrations lit_hub)" "ar_actuator_id sample_registration = ''blue''"
    by (simp_all add: lit_hub_def sample_registration_def)
  have "io_has_spine (request_stop lit_hub)" by (simp add: request_stop_def lit_hub_def)
  moreover have "safe_error (snapping_driver 0) d = None" "snd (drv_drive_safe (snapping_driver 0) d) = PwmLevel 0" for d
    by (simp_all add: safe_error_def snapping_driver_def)
  ultimately show ?thesis
    using loop_end_drives_safe [OF lit_hub_ok loop r(1), of boot_env] r(2) by auto
qed

text \<open>
  A clean stop tells the wire what it did before it lets go. With a broker that is
  connected and cancels nothing - refusing or failing any request is allowed -, the service
  asks it, between its last request and closing the connection, for exactly one retained
  state of each actuator whose \<open>drive_safe\<close> succeeded, in the order of the registrations:
  its declared safe state, by reason \<open>safe_state\<close>, with its latch; and for nothing about an
  actuator whose drive raised.
\<close>

theorem stop_is_announced:
  assumes "service_ok s" "io_has_spine s" "sp_connected (io_core s)"
    and "\<forall>past call. ce_nats env past call \<noteq> Inl CancelledError"
  shows "\<exists>s2. shutdown env (Inr ()) drv s = (Inr (), s2) \<and> \<not> sp_connected (io_core s2)
    \<and> sp_log (io_core s2) = sp_log (io_core s) @ concat (map (farewell env drv (io_sup s)) (io_registrations s))"
proof -
  let ?sink = "service_sink (io_has_spine s)"
  let ?stop = "sup_stop drv ?sink"
  note ids = service_ok_guards [OF assms(1)]
  obtain q sv where st: "?stop (io_sup s) = (q, sv)" by fastforce
  obtain evs where evs: "sv_heard sv = sv_heard (io_sup s) @ evs"
      "list_all2 (stop_told drv (io_sup s)) (map ar_actuator_id (io_registrations s)) evs"
    using sup_stop_heard [OF service_sink_completes ids(2), of drv "io_has_spine s"] st ids(1) by auto
  have guards: "guard_of sv k = map_option (stopped drv) (guard_of (io_sup s) k)" for k
    using sup_stop_guards [OF service_sink_completes ids(2), of drv "io_has_spine s" k] st by simp
  have up: "spine_up env (set_sup sv s)" using assms(2-4) by (simp add: spine_up_def set_sup_def)
  have each: "\<forall>r \<in> set (io_registrations s). \<exists>g. guard_of (io_sup s) (ar_actuator_id r) = Some g \<and> g_registration g = r
      \<and> guard_of (io_sup (set_sup sv s)) (ar_actuator_id r) = Some (stopped drv g)"
  proof
    fix r assume "r \<in> set (io_registrations s)"
    from service_ok_guard [OF assms(1) this] obtain g where
      "guard_of (io_sup s) (ar_actuator_id r) = Some g" "g_registration g = r" .
    with guards show "\<exists>g. guard_of (io_sup s) (ar_actuator_id r) = Some g \<and> g_registration g = r
      \<and> guard_of (io_sup (set_sup sv s)) (ar_actuator_id r) = Some (stopped drv g)" by simp
  qed
  have w: "with_events env ?stop s = (q, logged (set_sup sv s) (concat (map (farewell env drv (io_sup s)) (io_registrations s))))"
    using events_log [OF up evs(2) each] st evs(1) by (simp add: with_events_def)
  obtain s2 where s2: "shutdown env (Inr ()) drv s = (Inr (), s2)" "\<not> sp_connected (io_core s2)"
    using shutdown_safe [OF assms(1), of env drv] assms(2) by blast
  have "close_spine (logged (set_sup sv s) (concat (map (farewell env drv (io_sup s)) (io_registrations s)))) = (Inr (), s2)"
    using s2(1) w by (auto simp: shutdown_def split: sum.splits if_splits)
  then have "sp_log (io_core s2) = sp_log (io_core s) @ concat (map (farewell env drv (io_sup s)) (io_registrations s))"
    using assms(2) by (auto simp: close_spine_def on_core_def spine_close_def logged_def set_sup_def)
  with s2 show ?thesis by blast
qed

theorem stop_is_announced_witness:
  "\<exists>s2 subj st. shutdown boot_env (Inr ()) (snapping_driver 0) lit_hub = (Inr (), s2)
     \<and> sp_log (io_core s2) = sp_log (io_core lit_hub) @ [StreamPublish subj (PState st) None]
     \<and> as_actuator_id st = ''blue'' \<and> as_level st = PwmLevel 0 \<and> as_reason st = SafeState"
proof -
  have up: "io_has_spine lit_hub" "sp_connected (io_core lit_hub)" "\<forall>past call. ce_nats boot_env past call \<noteq> Inl CancelledError"
    by (simp_all add: lit_hub_def boot_env_def registry_never_cancels)
  obtain g where g: "guard_of lit_sup ''blue'' = Some g" using lit_sup_guard by blast
  have "safe_error (snapping_driver 0) d = None" for d by (simp add: safe_error_def snapping_driver_def)
  then have fare: "farewell boot_env (snapping_driver 0) (io_sup lit_hub) sample_registration
      = state_calls boot_env ''blue'' (PwmLevel 0) SafeState (g_latched g)"
    using g by (simp add: farewell_def lit_hub_def io_sup_def sample_registration_def)
  have "\<exists>st. state_message boot_env ''blue'' (PwmLevel 0) SafeState b = Inr st" for b
    by (simp add: state_message_def validate_actuator_state_def validated_def message_guards_def SCHEMA_VERSION_def
        boot_env_def device_id_ok_def token_body_def lower_alnum_def token_chars_def opt_ok_def)
  moreover have "\<exists>subj. Subjects.state ''blue'' = Inr subj"
    by (simp add: Subjects.state_def one_token_subject_def validate_token_def token_re_match_def res_bind_def
        token_body_def lower_alnum_def token_chars_def)
  ultimately obtain st subj where st: "state_message boot_env ''blue'' (PwmLevel 0) SafeState (g_latched g) = Inr st"
    "Subjects.state ''blue'' = Inr subj" by meson
  then have calls: "state_calls boot_env ''blue'' (PwmLevel 0) SafeState (g_latched g) = [StreamPublish subj (PState st) None]"
    by (simp add: state_calls_def)
  have regs: "io_registrations lit_hub = [sample_registration]" by (simp add: lit_hub_def)
  show ?thesis
    using stop_is_announced [OF lit_hub_ok up, of "snapping_driver 0"] state_message_cases(1) [OF st(1)]
    by (simp add: regs fare calls) blast
qed

text \<open>
  C11. An echo never restarts the hub, and any change does. After the registry was read, a live
  assignment stops the service exactly when it does not validate, names a device that was not
  read, or differs in what would be built - adoption, role, driver or binding, as a map - from
  the last one read of its device; republishing what was built changes nothing.
\<close>

theorem only_news_restarts:
  assumes "list_all (\<lambda>b. \<forall>ks. da_binding b = Some ks \<longrightarrow> distinct (map fst ks)) as"
    and "\<forall>a ks. payload = Inr a \<and> da_binding a = Some ks \<longrightarrow> distinct (map fst ks)"
  shows "on_assignment_message payload (remember_assignments as s) =
    (if (case payload of Inl e \<Rightarrow> True
         | Inr a \<Rightarrow> (case last_read as (da_device_id a) of None \<Rightarrow> True | Some b \<Rightarrow> \<not> same_build a b))
     then request_stop (remember_assignments as s) else remember_assignments as s)"
proof (cases payload)
  case (Inr a)
  have "fingerprint b = fingerprint a \<longleftrightarrow> same_build a b" if "last_read as (da_device_id a) = Some b" for b
  proof (rule fingerprint_same)
    have "b \<in> set as" using that unfolding last_read_def by (metis find_Some_iff nth_mem set_rev)
    with assms(1) show "\<forall>ks. da_binding b = Some ks \<longrightarrow> distinct (map fst ks)" by (auto simp: list_all_iff)
  qed (use assms(2) Inr in auto)
  with Inr show ?thesis by (auto simp: on_assignment_message_def remembered split: option.split)
qed (simp add: on_assignment_message_def)

theorem only_news_restarts_witness:
  "on_assignment_message (Inr light_assignment) (remember_assignments [probe_assignment, light_assignment] fresh_hub)
     = remember_assignments [probe_assignment, light_assignment] fresh_hub
   \<and> on_assignment_message (Inr (light_assignment\<lparr>da_role := Some Pump\<rparr>))
       (remember_assignments [probe_assignment, light_assignment] fresh_hub)
     = request_stop (remember_assignments [probe_assignment, light_assignment] fresh_hub)"
proof -
  let ?as = "[probe_assignment, light_assignment]"
  have keys: "list_all (\<lambda>b. \<forall>ks. da_binding b = Some ks \<longrightarrow> distinct (map fst ks)) ?as"
    "\<forall>a ks. Inr light_assignment = (Inr a :: device_assignment result) \<and> da_binding a = Some ks \<longrightarrow> distinct (map fst ks)"
    "\<forall>a ks. Inr (light_assignment\<lparr>da_role := Some Pump\<rparr>) = (Inr a :: device_assignment result)
       \<and> da_binding a = Some ks \<longrightarrow> distinct (map fst ks)"
    by (auto simp: probe_assignment_def light_assignment_def)
  have held: "last_read ?as ''blue'' = Some light_assignment" "da_device_id light_assignment = ''blue''"
    "same_build light_assignment light_assignment" "\<not> same_build (light_assignment\<lparr>da_role := Some Pump\<rparr>) light_assignment"
    by (simp_all add: last_read_def light_assignment_def same_build_def)
  show ?thesis
    using only_news_restarts [OF keys(1,2), of fresh_hub] only_news_restarts [OF keys(1,3), of fresh_hub] held by simp
qed

text \<open>
  What the registry owns is assumed safe at start-up, not driven safe. From a fresh start
  without the drill's actuator, whatever the registry says: when the start is over, every
  actuator counts as being at its safe state, and its device is exactly as its driver's
  \<open>open\<close> left it - the assertion of \<open>start\<close> ran before any of them was registered, and
  nothing has called \<open>drive_safe\<close> since.
\<close>

theorem startup_assumes_safe:
  assumes "service_init trusted li lt now t = Inr s0" "start_service drv (Some su) http env s0 = Some (p, s1)"
    and "guard_of (io_sup s1) aid = Some g"
  shows "g_at_safe_state g \<and> is_at_safe_state aid (io_sup s1) = Inr True \<and> (\<exists>d. drv_open drv d = (Inr (), g_device g))"
proof -
  have none: "sv_guards (io_sup s0) = []"
    using assms(1) by (auto simp: service_init_def res_bind_def io_sup_def supervisor_init_def split: sum.splits)
  obtain q s where w: "with_events env (sup_start drv (service_sink (io_has_spine s0))) s0 = (q, s)" by fastforce
  have "service_core s = service_core (set_sup (io_sup s0\<lparr>sv_running := True\<rparr>) s0)"
    using with_events_core [of env "sup_start drv (service_sink (io_has_spine s0))" s0] w none
    by (simp add: sup_start_def actuator_ids_def)
  then have s: "only_opened drv (io_sup s)"
    using none by (simp add: service_core_def only_opened_def guard_of_def)
  have "only_opened drv (io_sup s1)"
  proof (cases "connect_spine drv su s")
    case None
    with assms(2) w s show ?thesis by (auto simp: start_service_def split: sum.splits)
  next
    case (Some rs)
    obtain r s' where rs: "rs = (r, s')" by fastforce
    have "only_opened drv (io_sup s')"
      by (rule connect_spine_preserves [of "\<lambda>s. only_opened drv (io_sup s)", OF only_opened_fields bring_up_opened s])
        (use Some rs in auto)
    with assms(2) w s Some rs show ?thesis by (auto simp: start_service_def split: sum.splits)
  qed
  with assms(3) show ?thesis by (auto simp: only_opened_def is_at_safe_state_def)
qed

theorem startup_assumes_safe_witness:
  "\<exists>p s1 g. start_service (snapping_driver 0) (Some boot) (Inr ()) boot_env fresh_hub = Some (p, s1)
     \<and> guard_of (io_sup s1) ''blue'' = Some g \<and> g_device g = PwmLevel 1 \<and> is_at_safe_state ''blue'' (io_sup s1) = Inr True"
proof -
  obtain p s1 g where s1: "start_service (snapping_driver 0) (Some boot) (Inr ()) boot_env fresh_hub = Some (p, s1)"
    "guard_of (io_sup s1) ''blue'' = Some g" "g_device g = PwmLevel 1"
    using hub_starts by blast
  from startup_assumes_safe [OF fresh_hub_init s1(1,2)] s1 show ?thesis by blast
qed

end
