(* ===== verification/Curve.thy ===== *)
theory Curve
  imports Contracts
begin

text \<open>
  The lighting curve: \<open>contracts/python/bellasreef_contracts/schedules.py\<close> (points, the
  one curve-validity rule, the API's definition) and
  \<open>services/control_engine/bellasreef_control_engine/profiles.py\<close> (the engine's profile and
  its interpolation). The time-zone database is data the repository does not hold: which
  zones exist is the parameter \<open>known_zone\<close>, and the local clock of a zone is the
  parameter \<open>utcoffset\<close>, in seconds to add to the instant.
\<close>

section \<open>Points\<close>

record pytime =
  hour :: int
  minute :: int
  second :: int
  microsecond :: int

definition pytime_ok :: "pytime \<Rightarrow> bool" where
  "pytime_ok t = (0 \<le> hour t \<and> hour t < 24 \<and> 0 \<le> minute t \<and> minute t < 60
     \<and> 0 \<le> second t \<and> second t < 60 \<and> 0 \<le> microsecond t \<and> microsecond t < 1000000)"

record schedule_point =
  sp_at :: pytime
  sp_duty :: duty

definition schedule_point_new :: "pytime \<Rightarrow> duty \<Rightarrow> schedule_point result" where
  "schedule_point_new t d =
     (if \<not> (0 \<le> d \<and> d \<le> 1) then Inl (ValueError ''duty'')
      else Inr \<lparr>sp_at = t\<lparr>microsecond := 0\<rparr>, sp_duty = d\<rparr>)"

definition point_seconds :: "schedule_point \<Rightarrow> int" where
  "point_seconds p = hour (sp_at p) * 3600 + minute (sp_at p) * 60 + second (sp_at p)"

section \<open>Definitions and profiles\<close>

datatype anchor = Clock | SolarNatural | SolarCustom
datatype on_miss = Converge | Skip

record locale_model =
  lm_name :: string
  lm_lat :: rat
  lm_lon :: rat

definition locale_ok :: "locale_model \<Rightarrow> bool" where
  "locale_ok l = (str_len_ok 1 64 (lm_name l) \<and> -90 \<le> lm_lat l \<and> lm_lat l \<le> 90
     \<and> -180 \<le> lm_lon l \<and> lm_lon l \<le> 180)"

definition validate_curve ::
    "(string \<Rightarrow> bool) \<Rightarrow> schedule_point list \<Rightarrow> string \<Rightarrow> anchor \<Rightarrow> locale_model option \<Rightarrow> py_error option" where
  "validate_curve known_zone points zone anchor loc =
     (let seconds = map point_seconds points in
      first_failure
       [(anchor \<notin> {SolarNatural, SolarCustom}, ValueError ''anchor needs the solar model''),
        (\<not> (anchor = Clock \<and> loc \<noteq> None), ValueError ''locale is only meaningful with a solar anchor''),
        (known_zone zone, ValueError ''unknown timezone''),
        (seconds = sort seconds, ValueError ''points must be in ascending time order''),
        (card (set seconds) = length seconds, ValueError ''two points share the same time of day'')])"

record schedule_definition =
  sd_name :: string
  sd_zone :: string
  sd_anchor :: anchor
  sd_locale :: "locale_model option"
  sd_points :: "schedule_point list"

definition validate_schedule_definition ::
    "(string \<Rightarrow> bool) \<Rightarrow> schedule_definition \<Rightarrow> schedule_definition result" where
  "validate_schedule_definition known_zone d =
     res_bind (validated
       [(str_len_ok 1 64 (sd_name d), ValueError ''name''),
        (opt_ok locale_ok (sd_locale d), ValueError ''locale''),
        (list_all (\<lambda>p. 0 \<le> sp_duty p \<and> sp_duty p \<le> 1) (sd_points d), ValueError ''duty''),
        (2 \<le> length (sd_points d), ValueError ''points'')] d) (\<lambda>d.
     case validate_curve known_zone (sd_points d) (sd_zone d) (sd_anchor d) (sd_locale d) of
       Some e \<Rightarrow> Inl e | None \<Rightarrow> Inr d)"

record channel_profile =
  cp_channel_id :: string
  cp_anchor :: anchor
  cp_zone :: string
  cp_points :: "schedule_point list"
  cp_locale :: "locale_model option"
  cp_on_miss :: on_miss

definition validate_channel_profile ::
    "(string \<Rightarrow> bool) \<Rightarrow> channel_profile \<Rightarrow> channel_profile result" where
  "validate_channel_profile known_zone p =
     res_bind (validated
       [(token_body (cp_channel_id p), ValueError ''channel_id''),
        (opt_ok locale_ok (cp_locale p), ValueError ''locale''),
        (list_all (\<lambda>p. 0 \<le> sp_duty p \<and> sp_duty p \<le> 1) (cp_points p), ValueError ''duty''),
        (2 \<le> length (cp_points p), ValueError ''points'')] p) (\<lambda>p.
     case validate_curve known_zone (cp_points p) (cp_zone p) (cp_anchor p) (cp_locale p) of
       Some e \<Rightarrow> Inl e | None \<Rightarrow> Inr p)"

definition from_definition ::
    "(string \<Rightarrow> bool) \<Rightarrow> string \<Rightarrow> schedule_definition \<Rightarrow> channel_profile result" where
  "from_definition known_zone channel_id d =
     validate_channel_profile known_zone
       \<lparr>cp_channel_id = channel_id, cp_anchor = sd_anchor d, cp_zone = sd_zone d,
        cp_points = sd_points d, cp_locale = sd_locale d, cp_on_miss = Converge\<rparr>"

section \<open>Interpolation\<close>

definition lerp :: "rat \<Rightarrow> rat \<Rightarrow> rat \<Rightarrow> rat" where
  "lerp a b t = (let value = a + (b - a) * t in min 1 (max 0 value))"

fun pairwise :: "'a list \<Rightarrow> ('a \<times> 'a) list" where
  "pairwise (x # y # zs) = (x, y) # pairwise (y # zs)"
| "pairwise _ = []"

text \<open>The loop over neighbouring points: the first segment that holds the time of day.\<close>

fun scan_segments :: "(schedule_point \<times> schedule_point) list \<Rightarrow> int \<Rightarrow> duty option" where
  "scan_segments [] now_s = None"
| "scan_segments ((lo, hi) # rest) now_s =
     (if point_seconds lo \<le> now_s \<and> now_s < point_seconds hi
      then let span = point_seconds hi - point_seconds lo
           in Some (lerp (sp_duty lo) (sp_duty hi) (of_int (now_s - point_seconds lo) / of_int span))
      else scan_segments rest now_s)"

definition duty_at_second :: "schedule_point list \<Rightarrow> int \<Rightarrow> duty" where
  "duty_at_second points now_s =
     (let p0 = hd points; pn = last points in
      if now_s < point_seconds p0 \<or> point_seconds pn \<le> now_s then
        (let span = (point_seconds p0 + 86400) - point_seconds pn in
         if span = 0 then sp_duty pn
         else let elapsed = (now_s - point_seconds pn) mod 86400
              in lerp (sp_duty pn) (sp_duty p0) (of_int elapsed / of_int span))
      else case scan_segments (pairwise points) now_s of
             Some d \<Rightarrow> d
           | None \<Rightarrow> sp_duty pn)"

definition local_second :: "(string \<Rightarrow> instant \<Rightarrow> int) \<Rightarrow> string \<Rightarrow> instant \<Rightarrow> int" where
  "local_second utcoffset zone t = \<lfloor>t + of_int (utcoffset zone t)\<rfloor> mod 86400"

fun duty_at :: "(string \<Rightarrow> instant \<Rightarrow> int) \<Rightarrow> channel_profile \<Rightarrow> pydatetime \<Rightarrow> duty result" where
  "duty_at utcoffset p (Naive _) = Inl (ValueError ''instant must be timezone-aware'')"
| "duty_at utcoffset p (Aware t) =
     Inr (duty_at_second (cp_points p) (local_second utcoffset (cp_zone p) t))"

section \<open>What a valid curve is\<close>

text \<open>The fact every proof about a valid curve uses: strictly ascending seconds.\<close>

definition curve_ok :: "schedule_point list \<Rightarrow> bool" where
  "curve_ok ps = (2 \<le> length ps \<and> sorted_wrt (<) (map point_seconds ps)
     \<and> (\<forall>p \<in> set ps. 0 \<le> sp_duty p \<and> sp_duty p \<le> 1))"


lemma strictly_sorted_check:
  "(xs = sort xs \<and> card (set xs) = length xs) \<longleftrightarrow> sorted_wrt (<) (xs :: int list)"
proof -
  have "xs = sort xs \<longleftrightarrow> sorted xs"
    by (metis sorted_sort sorted_sort_id)
  moreover have "card (set xs) = length xs \<longleftrightarrow> distinct xs"
    by (metis card_distinct distinct_card)
  ultimately show ?thesis by (simp add: strict_sorted_iff)
qed

lemma validate_curve_None:
  "validate_curve kz ps zone a l = None \<longleftrightarrow>
     a = Clock \<and> l = None \<and> kz zone \<and> sorted_wrt (<) (map point_seconds ps)"
  unfolding validate_curve_def Let_def first_failure_None strictly_sorted_check [symmetric]
  by (cases a) auto


lemma case_option_Inr: "(case x of Some e \<Rightarrow> Inl e | None \<Rightarrow> Inr p) = Inr q \<longleftrightarrow> x = None \<and> q = p"
  by (auto split: option.splits)

lemma validate_channel_profile_Inr:
  "validate_channel_profile kz p = Inr q \<longleftrightarrow>
     q = p \<and> token_body (cp_channel_id p) \<and> curve_ok (cp_points p) \<and> kz (cp_zone p)
     \<and> cp_anchor p = Clock \<and> cp_locale p = None"
  unfolding validate_channel_profile_def curve_ok_def res_bind_eq_Inr validated_Inr
    case_option_Inr validate_curve_None list_all_iff
  by auto

lemma lerp_range [simp]: "0 \<le> lerp a b t \<and> lerp a b t \<le> 1"
  by (auto simp: lerp_def Let_def)

lemma lerp_convex:
  fixes a b t :: rat
  assumes "0 \<le> t" "t \<le> 1"
  shows "min a b \<le> a + (b - a) * t \<and> a + (b - a) * t \<le> max a b"
proof (cases "a \<le> b")
  case True
  then have "0 \<le> (b - a) * t" "(b - a) * t \<le> (b - a) * 1"
    using assms by (simp, intro mult_left_mono) auto
  with True show ?thesis by (auto simp: min_def max_def)
next
  case False
  define k where "k = (b - a) * t"
  have "(b - a) * 1 \<le> k" "k \<le> 0"
    unfolding k_def using False assms
    by (intro mult_left_mono_neg, simp_all add: mult_nonpos_nonneg)
  with False show ?thesis unfolding k_def [symmetric] by (simp add: min_def max_def)
qed

text \<open>Between two valid duties the clamp of \<open>_lerp\<close> never acts on exact numbers.\<close>

lemma lerp_exact:
  assumes "0 \<le> a" "a \<le> 1" "0 \<le> b" "b \<le> 1" "0 \<le> t" "t \<le> 1"
  shows "lerp a b t = a + (b - a) * t"
  using lerp_convex [OF assms(5,6), of a b] assms by (auto simp: lerp_def Let_def min_def max_def split: if_splits)

lemma lerp_zero [simp]: "0 \<le> a \<Longrightarrow> a \<le> 1 \<Longrightarrow> lerp a b 0 = a"
  by (simp add: lerp_def Let_def)

lemma pairwise_mem: "(p, q) \<in> set (pairwise ps) \<Longrightarrow> p \<in> set ps \<and> q \<in> set ps"
  by (induction ps rule: pairwise.induct) auto

lemma pairwise_first:
  "sorted_wrt (<) (map point_seconds ps) \<Longrightarrow> (lo, hi) \<in> set (pairwise ps)
   \<Longrightarrow> point_seconds (hd ps) \<le> point_seconds lo \<and> point_seconds lo < point_seconds hi
     \<and> point_seconds hi \<le> point_seconds (last ps)"
proof (induction ps rule: pairwise.induct)
  case (1 x y zs)
  have last: "point_seconds y \<le> point_seconds (last (y # zs))"
    using "1.prems"(1) by (cases zs rule: rev_cases) auto
  show ?case
  proof (cases "(lo, hi) = (x, y)")
    case True
    with "1.prems" last show ?thesis by auto
  next
    case False
    with "1.prems" have "(lo, hi) \<in> set (pairwise (y # zs))" by auto
    with "1.IH" "1.prems"(1) show ?thesis by auto
  qed
qed auto

lemma scan_segments_hit:
  "sorted_wrt (<) (map point_seconds ps) \<Longrightarrow> (lo, hi) \<in> set (pairwise ps)
   \<Longrightarrow> point_seconds lo \<le> now \<Longrightarrow> now < point_seconds hi
   \<Longrightarrow> scan_segments (pairwise ps) now =
        Some (lerp (sp_duty lo) (sp_duty hi)
               (of_int (now - point_seconds lo) / of_int (point_seconds hi - point_seconds lo)))"
proof (induction ps rule: pairwise.induct)
  case (1 x y zs)
  show ?case
  proof (cases "(lo, hi) = (x, y)")
    case True
    with "1.prems" show ?thesis by (simp add: Let_def)
  next
    case False
    with "1.prems" have m: "(lo, hi) \<in> set (pairwise (y # zs))" by auto
    with pairwise_first [of "y # zs" lo hi] "1.prems" have "point_seconds y \<le> now" by auto
    with m "1.IH" "1.prems" show ?thesis by auto
  qed
qed auto

lemma segment_exists:
  "ps \<noteq> [] \<Longrightarrow> point_seconds (hd ps) \<le> now \<Longrightarrow> now < point_seconds (last ps)
   \<Longrightarrow> \<exists>lo hi. (lo, hi) \<in> set (pairwise ps) \<and> point_seconds lo \<le> now \<and> now < point_seconds hi"
proof (induction ps rule: pairwise.induct)
  case (1 x y zs)
  show ?case
  proof (cases "now < point_seconds y")
    case True
    with "1.prems" show ?thesis by auto
  next
    case False
    with "1.IH" "1.prems" show ?thesis by auto
  qed
qed auto

section \<open>The cyclic specification\<close>

text \<open>
  A curve read as a closed polygon: the segments between neighbours, and the one that
  wraps midnight, each with the seconds where it starts and ends.
\<close>

definition cyclic_segments :: "schedule_point list \<Rightarrow> (schedule_point \<times> schedule_point \<times> int \<times> int) list" where
  "cyclic_segments ps =
     map (\<lambda>(p, q). (p, q, point_seconds p, point_seconds q)) (pairwise ps)
     @ [(last ps, hd ps, point_seconds (last ps), point_seconds (hd ps) + 86400)]"

definition on_segment :: "schedule_point \<times> schedule_point \<times> int \<times> int \<Rightarrow> int \<Rightarrow> rat" where
  "on_segment seg x = (case seg of (p, q, a, b) \<Rightarrow>
     sp_duty p + (sp_duty q - sp_duty p) * (of_int (x - a) / of_int (b - a)))"

definition day_curve :: "schedule_point list \<Rightarrow> bool" where
  "day_curve ps = (curve_ok ps \<and> (\<forall>p \<in> set ps. 0 \<le> point_seconds p \<and> point_seconds p < 86400))"

lemma fraction_range:
  "(a::int) \<le> x \<Longrightarrow> x < b \<Longrightarrow>
     (0::rat) \<le> of_int (x - a) / of_int (b - a) \<and> of_int (x - a) / of_int (b - a) \<le> (1::rat)"
  by (simp add: divide_le_eq_1)

lemma duty_inner:
  assumes c: "day_curve ps" and m: "(lo, hi) \<in> set (pairwise ps)"
    and x: "point_seconds lo \<le> now" "now < point_seconds hi"
  shows "duty_at_second ps now = on_segment (lo, hi, point_seconds lo, point_seconds hi) now"
proof -
  have srt: "sorted_wrt (<) (map point_seconds ps)" and d: "\<forall>p \<in> set ps. 0 \<le> sp_duty p \<and> sp_duty p \<le> 1"
    using c by (auto simp: day_curve_def curve_ok_def)
  note b = pairwise_first [OF srt m]
  have "lerp (sp_duty lo) (sp_duty hi)
          (of_int (now - point_seconds lo) / of_int (point_seconds hi - point_seconds lo))
      = on_segment (lo, hi, point_seconds lo, point_seconds hi) now"
    unfolding on_segment_def prod.case
    using fraction_range [OF x] pairwise_mem [OF m] d by (intro lerp_exact) auto
  moreover have "\<not> (now < point_seconds (hd ps) \<or> point_seconds (last ps) \<le> now)"
    using b x by auto
  ultimately show ?thesis
    using scan_segments_hit [OF srt m x] by (simp add: duty_at_second_def Let_def)
qed

lemma wrap_mod:
  fixes x :: int
  assumes "0 \<le> now" "now < 86400" "x = now \<or> x = now + 86400" "a \<le> x" "x < b + 86400" "b \<le> a"
  shows "(now - a) mod 86400 = x - a"
proof -
  have "0 \<le> x - a" "x - a < 86400" using assms by auto
  then have "(x - a) mod 86400 = x - a" by simp
  moreover have "(x - a) mod 86400 = (now - a) mod 86400"
    using assms(3) mod_add_self2 [of "now - a" "86400::int"] by (auto simp: algebra_simps)
  ultimately show ?thesis by simp
qed

lemma duty_wrap:
  assumes c: "day_curve ps" and now: "0 \<le> now" "now < 86400"
    and x: "x = now \<or> x = now + 86400" "point_seconds (last ps) \<le> x" "x < point_seconds (hd ps) + 86400"
  shows "duty_at_second ps now
     = on_segment (last ps, hd ps, point_seconds (last ps), point_seconds (hd ps) + 86400) x"
proof -
  let ?a = "point_seconds (last ps)" and ?b = "point_seconds (hd ps)"
  have ne: "ps \<noteq> []" and d: "\<forall>p \<in> set ps. 0 \<le> sp_duty p \<and> sp_duty p \<le> 1"
    and srt: "sorted_wrt (<) (map point_seconds ps)"
    using c by (auto simp: day_curve_def curve_ok_def)
  have ab: "?b \<le> ?a"
    using srt ne by (cases ps; cases "tl ps" rule: rev_cases) auto
  have outer: "now < ?b \<or> ?a \<le> now" using x by auto
  have m: "(now - ?a) mod 86400 = x - ?a" by (rule wrap_mod [OF now x ab])
  have frac: "(0::rat) \<le> of_int (x - ?a) / of_int (?b + 86400 - ?a)
       \<and> of_int (x - ?a) / of_int (?b + 86400 - ?a) \<le> (1::rat)"
    using fraction_range [of ?a x "?b + 86400"] x by simp
  have "lerp (sp_duty (last ps)) (sp_duty (hd ps)) (of_int (x - ?a) / of_int (?b + 86400 - ?a))
      = on_segment (last ps, hd ps, ?a, ?b + 86400) x"
    unfolding on_segment_def prod.case
    using frac ne d by (intro lerp_exact) auto
  moreover have "?b + 86400 - ?a \<noteq> 0" using x by auto
  ultimately show ?thesis
    unfolding duty_at_second_def Let_def using outer m by simp
qed

section \<open>Range and exactness\<close>

lemma scan_segments_range:
  "scan_segments segs now = Some d \<Longrightarrow> 0 \<le> d \<and> d \<le> 1"
  by (induction segs now rule: scan_segments.induct) (auto simp: Let_def split: if_splits)

lemma duty_at_second_range:
  assumes "curve_ok ps" shows "0 \<le> duty_at_second ps now \<and> duty_at_second ps now \<le> 1"
proof -
  have "0 \<le> sp_duty (last ps) \<and> sp_duty (last ps) \<le> 1"
    using assms last_in_set [of ps] by (cases ps) (auto simp: curve_ok_def)
  then show ?thesis
    by (auto simp: duty_at_second_def Let_def dest: scan_segments_range split: option.splits)
qed

lemma pairwise_starts:
  "q \<in> set ps \<Longrightarrow> q \<noteq> last ps \<Longrightarrow> \<exists>hi. (q, hi) \<in> set (pairwise ps)"
  by (induction ps rule: pairwise.induct) (auto split: if_splits)

lemma duty_at_point:
  assumes c: "curve_ok ps" and q: "q \<in> set ps"
  shows "duty_at_second ps (point_seconds q) = sp_duty q"
proof (cases "q = last ps")
  case True
  then show ?thesis using c q by (auto simp: duty_at_second_def Let_def curve_ok_def)
next
  case False
  have srt: "sorted_wrt (<) (map point_seconds ps)" and d: "0 \<le> sp_duty q \<and> sp_duty q \<le> 1"
    using c q by (auto simp: curve_ok_def)
  obtain hi where m: "(q, hi) \<in> set (pairwise ps)" using pairwise_starts [OF q False] by blast
  note b = pairwise_first [OF srt m]
  with scan_segments_hit [OF srt m, of "point_seconds q"] d show ?thesis
    by (simp add: duty_at_second_def Let_def)
qed

section \<open>Properties\<close>

text \<open>
  C38. The interpolation is the closed polygon through the points. For a valid curve and a
  second of the day, some segment of the polygon holds that second (the wrapping one holds
  it before the first point or after the last), and the duty is exactly the linear
  interpolation on whichever segment holds it; the loop never falls through, and the clamp
  of the interpolation never acts.
\<close>

theorem duty_is_cyclic_interpolation:
  assumes "day_curve ps" "0 \<le> now" "now < 86400"
  shows "(\<exists>(p, q, a, b) \<in> set (cyclic_segments ps). \<exists>x \<in> {now, now + 86400}. a \<le> x \<and> x < b)
    \<and> (\<forall>(p, q, a, b) \<in> set (cyclic_segments ps). \<forall>x \<in> {now, now + 86400}.
          a \<le> x \<and> x < b \<longrightarrow> duty_at_second ps now = on_segment (p, q, a, b) x)"
proof (intro conjI)
  have ne: "ps \<noteq> []" and srt: "sorted_wrt (<) (map point_seconds ps)"
    and day: "\<forall>p \<in> set ps. 0 \<le> point_seconds p \<and> point_seconds p < 86400"
    using assms(1) by (auto simp: day_curve_def curve_ok_def)
  show "\<exists>(p, q, a, b) \<in> set (cyclic_segments ps). \<exists>x \<in> {now, now + 86400}. a \<le> x \<and> x < b"
  proof (cases "point_seconds (hd ps) \<le> now \<and> now < point_seconds (last ps)")
    case True
    then obtain lo hi where "(lo, hi) \<in> set (pairwise ps)"
        "point_seconds lo \<le> now" "now < point_seconds hi"
      using segment_exists [OF ne, of now] by blast
    then show ?thesis
      by (intro bexI [of _ "(lo, hi, point_seconds lo, point_seconds hi)"])
        (auto simp: cyclic_segments_def)
  next
    case False
    have "point_seconds (last ps) < 86400" "0 \<le> point_seconds (hd ps)"
      using day ne by auto
    with False assms(2,3) have "\<exists>x \<in> {now, now + 86400}.
        point_seconds (last ps) \<le> x \<and> x < point_seconds (hd ps) + 86400" by auto
    then show ?thesis
      by (intro bexI [of _ "(last ps, hd ps, point_seconds (last ps), point_seconds (hd ps) + 86400)"])
        (auto simp: cyclic_segments_def)
  qed
  show "\<forall>(p, q, a, b) \<in> set (cyclic_segments ps). \<forall>x \<in> {now, now + 86400}.
          a \<le> x \<and> x < b \<longrightarrow> duty_at_second ps now = on_segment (p, q, a, b) x"
  proof clarify
    fix p q a b x
    assume seg: "(p, q, a, b) \<in> set (cyclic_segments ps)" and x: "x \<in> {now, now + 86400}"
      and ab: "a \<le> x" "x < b"
    show "duty_at_second ps now = on_segment (p, q, a, b) x"
    proof (cases "(p, q) \<in> set (pairwise ps) \<and> a = point_seconds p \<and> b = point_seconds q")
      case True
      moreover from True pairwise_mem [of p q ps] day ab x assms(2) have "x = now" by force
      ultimately show ?thesis using duty_inner [OF assms(1), of p q now] ab by simp
    next
      case False
      with seg have "p = last ps" "q = hd ps" "a = point_seconds (last ps)"
          "b = point_seconds (hd ps) + 86400"
        by (auto simp: cyclic_segments_def)
      then show ?thesis using duty_wrap [OF assms, of x] x ab by simp
    qed
  qed
qed

definition sample_points :: "schedule_point list" where
  "sample_points =
     [\<lparr>sp_at = \<lparr>hour = 8, minute = 0, second = 0, microsecond = 0\<rparr>, sp_duty = 0\<rparr>,
      \<lparr>sp_at = \<lparr>hour = 12, minute = 0, second = 0, microsecond = 0\<rparr>, sp_duty = 1\<rparr>,
      \<lparr>sp_at = \<lparr>hour = 20, minute = 0, second = 0, microsecond = 0\<rparr>, sp_duty = 0\<rparr>]"

lemma sample_points_day: "day_curve sample_points"
  by (simp add: day_curve_def curve_ok_def sample_points_def point_seconds_def)

theorem duty_is_cyclic_interpolation_witness:
  "duty_at_second sample_points 36000 = 1/2"
proof -
  let ?p = "sample_points ! 0" and ?q = "sample_points ! 1"
  have "(?p, ?q, 28800, 43200) \<in> set (cyclic_segments sample_points)"
    by (simp add: cyclic_segments_def sample_points_def point_seconds_def)
  with duty_is_cyclic_interpolation [OF sample_points_day, of 36000]
  have "duty_at_second sample_points 36000 = on_segment (?p, ?q, 28800, 43200) 36000"
    by force
  then show ?thesis by (simp add: on_segment_def sample_points_def)
qed

text \<open>
  Every duty a profile can produce is a valid duty. For a profile that passed
  validation, \<open>duty_at\<close> returns a value between 0 and 1 for every instant and every zone
  offset, and at the second of one of its points exactly that point's duty; it raises only
  for a clock without a zone.
\<close>

theorem duty_at_valid:
  assumes "validate_channel_profile kz p = Inr p"
  shows "(\<exists>d. duty_at off p (Aware t) = Inr d \<and> 0 \<le> d \<and> d \<le> 1
           \<and> (\<forall>q \<in> set (cp_points p). local_second off (cp_zone p) t = point_seconds q \<longrightarrow> d = sp_duty q))
       \<and> (\<forall>s. duty_at off p (Naive s) = Inl (ValueError ''instant must be timezone-aware''))"
proof -
  let ?ps = "cp_points p" and ?now = "local_second off (cp_zone p) t"
  have c: "curve_ok ?ps" using assms by (simp add: validate_channel_profile_Inr)
  then have ne: "?ps \<noteq> []" and d: "\<forall>p \<in> set ?ps. 0 \<le> sp_duty p \<and> sp_duty p \<le> 1"
    and srt: "sorted_wrt (<) (map point_seconds ?ps)"
    by (auto simp: curve_ok_def)
  have "0 \<le> duty_at_second ?ps ?now \<and> duty_at_second ?ps ?now \<le> 1"
    using duty_at_second_range [OF c] by blast
  moreover have "\<forall>q \<in> set ?ps. ?now = point_seconds q \<longrightarrow> duty_at_second ?ps ?now = sp_duty q"
    using duty_at_point [OF c] by metis
  ultimately show ?thesis by simp
qed

definition sample_profile :: channel_profile where
  "sample_profile =
     \<lparr>cp_channel_id = ''blue'', cp_anchor = Clock, cp_zone = ''UTC'', cp_points = sample_points,
      cp_locale = None, cp_on_miss = Converge\<rparr>"

lemma sample_profile_valid: "validate_channel_profile (\<lambda>z. z = ''UTC'') sample_profile = Inr sample_profile"
  using sample_points_day
  by (simp add: validate_channel_profile_Inr sample_profile_def day_curve_def token_body_def
      lower_alnum_def token_chars_def)

theorem duty_at_valid_witness:
  "\<exists>d. duty_at (\<lambda>z t. 0) sample_profile (Aware 43200) = Inr d \<and> d = 1"
proof -
  have "local_second (\<lambda>z t. 0) ''UTC'' 43200 = 43200" by (simp add: local_second_def)
  with duty_at_valid [OF sample_profile_valid, of "\<lambda>z t. 0" 43200]
  show ?thesis by (auto simp: sample_profile_def sample_points_def point_seconds_def)
qed

end
