(* ===== verification/Overrides.thy ===== *)
theory Overrides
  imports Prelude
begin

text \<open>
  Manual overrides, \<open>db/bellasreef_db/overrides.py\<close>: the table behind
  \<open>OverrideStore\<close> as the list of its rows in insertion order, every SQL statement as the
  function on rows it denotes, and the in-process \<open>ActiveOverride\<close> with its two clocks.
  A fresh UUID, the wall clock and the monotonic clock are arguments of the operations
  that read them.
\<close>

section \<open>Vocabulary\<close>

datatype transition = Snap | Ramp
datatype release_reason = Expired | Lapsed | Manual | Superseded

text \<open>\<open>_transition\<close>: the column holds text; anything else raises.\<close>

definition transition_text :: "transition \<Rightarrow> string" where
  "transition_text t = (case t of Snap \<Rightarrow> ''snap'' | Ramp \<Rightarrow> ''ramp'')"

definition parse_transition :: "string \<Rightarrow> transition result" where
  "parse_transition raw =
     (if raw = ''snap'' then Inr Snap
      else if raw = ''ramp'' then Inr Ramp
      else Inl (ValueError ''overrides.transition''))"

section \<open>An override in the process\<close>

record active_override =
  ao_id :: uuid
  ao_target :: string
  ao_duty :: duty
  ao_expires_at :: instant
  ao_transition :: transition
  ao_monotonic_deadline :: "seconds option"

text \<open>
  \<open>monotonic_now or time.monotonic()\<close>: a missing argument and the number zero are both
  false, so both read the clock. A \<open>datetime\<close> is never false.
\<close>

definition num_or :: "rat option \<Rightarrow> rat \<Rightarrow> rat" where
  "num_or x clock = (case x of None \<Rightarrow> clock | Some v \<Rightarrow> if v = 0 then clock else v)"

definition date_or :: "instant option \<Rightarrow> instant \<Rightarrow> instant" where
  "date_or x clock = (case x of None \<Rightarrow> clock | Some v \<Rightarrow> v)"

definition ao_is_expired ::
    "seconds option \<Rightarrow> instant option \<Rightarrow> seconds \<Rightarrow> instant \<Rightarrow> active_override \<Rightarrow> bool" where
  "ao_is_expired monotonic_now wall_now mclk wclk o' =
     (case ao_monotonic_deadline o' of
        Some d \<Rightarrow> d \<le> num_or monotonic_now mclk
      | None \<Rightarrow> ao_expires_at o' \<le> date_or wall_now wclk)"

definition ao_arm ::
    "seconds option \<Rightarrow> instant option \<Rightarrow> seconds \<Rightarrow> instant \<Rightarrow> active_override \<Rightarrow> active_override" where
  "ao_arm monotonic_now wall_now mclk wclk o' =
     (let remaining = ao_expires_at o' - date_or wall_now wclk
      in o'\<lparr>ao_monotonic_deadline := Some (num_or monotonic_now mclk + max remaining 0)\<rparr>)"

record released_override =
  ro_id :: uuid
  ro_target :: string

record placed_override =
  po_override :: active_override
  po_superseded :: "released_override list"

record wake_report =
  wr_live :: "active_override list"
  wr_lapsed :: "released_override list"

section \<open>The table\<close>

record override_row =
  or_id :: uuid
  or_target :: string
  or_duty :: duty
  or_reason :: "string option"
  or_created_at :: instant
  or_expires_at :: instant
  or_transition :: string
  or_released_at :: "instant option"
  or_release_reason :: "release_reason option"

type_synonym override_table = "override_row list"

definition row_live :: "override_row \<Rightarrow> bool" where
  "row_live r = (or_released_at r = None)"

definition row_close :: "instant \<Rightarrow> release_reason \<Rightarrow> override_row \<Rightarrow> override_row" where
  "row_close now why r = r\<lparr>or_released_at := Some now, or_release_reason := Some why\<rparr>"

text \<open>\<open>UPDATE overrides SET released_at, release_reason WHERE P RETURNING id, target\<close>\<close>

definition close_where ::
    "instant \<Rightarrow> release_reason \<Rightarrow> (override_row \<Rightarrow> bool) \<Rightarrow> override_table
       \<Rightarrow> released_override list \<times> override_table" where
  "close_where now why P db =
     (map (\<lambda>r. \<lparr>ro_id = or_id r, ro_target = or_target r\<rparr>) (filter P db),
      map (\<lambda>r. if P r then row_close now why r else r) db)"

text \<open>A row read back; the transition is parsed, and an unreadable one raises.\<close>

definition row_to_active :: "override_row \<Rightarrow> active_override result" where
  "row_to_active r =
     res_bind (parse_transition (or_transition r)) (\<lambda>t.
     Inr \<lparr>ao_id = or_id r, ao_target = or_target r, ao_duty = or_duty r,
          ao_expires_at = or_expires_at r, ao_transition = t, ao_monotonic_deadline = None\<rparr>)"

section \<open>The store\<close>

definition override_create ::
    "bool \<Rightarrow> uuid \<Rightarrow> seconds \<Rightarrow> instant \<Rightarrow>
     string \<Rightarrow> duty \<Rightarrow> seconds \<Rightarrow> string option \<Rightarrow> string \<Rightarrow> instant option \<Rightarrow>
     override_table \<Rightarrow> (placed_override \<times> override_table) result" where
  "override_create trusted fresh mclk wclk target duty duration_s reason how now db =
     (if duration_s \<le> 0 then Inl (ValueError ''duration_s must be > 0'')
      else if \<not> (0 \<le> duty \<and> duty \<le> 1) then Inl (ValueError ''duty must be within 0.0-1.0'')
      else res_bind (parse_transition how) (\<lambda>t.
      if \<not> trusted then Inl ClockUntrustedError
      else
        let issued = date_or now wclk;
            expires_at = issued + duration_s;
            (displaced, db1) = close_where issued Superseded (\<lambda>r. or_target r = target \<and> row_live r) db;
            db2 = db1 @ [\<lparr>or_id = fresh, or_target = target, or_duty = duty, or_reason = reason,
                          or_created_at = issued, or_expires_at = expires_at, or_transition = how,
                          or_released_at = None, or_release_reason = None\<rparr>];
            active = ao_arm None (Some issued) mclk wclk
                       \<lparr>ao_id = fresh, ao_target = target, ao_duty = duty, ao_expires_at = expires_at,
                        ao_transition = t, ao_monotonic_deadline = None\<rparr>
        in Inr (\<lparr>po_override = active, po_superseded = displaced\<rparr>, db2)))"

definition override_load_active ::
    "seconds \<Rightarrow> instant \<Rightarrow> instant option \<Rightarrow> override_table \<Rightarrow> (wake_report \<times> override_table) result" where
  "override_load_active mclk wclk now db =
     (let wall_now = date_or now wclk;
          (lapsed, db1) = close_where wall_now Lapsed (\<lambda>r. row_live r \<and> or_expires_at r \<le> wall_now) db
      in res_bind (map_result row_to_active (filter row_live db1)) (\<lambda>rows.
         Inr (\<lparr>wr_live = map (ao_arm None (Some wall_now) mclk wclk) rows, wr_lapsed = lapsed\<rparr>, db1)))"

definition override_release ::
    "instant \<Rightarrow> uuid \<Rightarrow> release_reason \<Rightarrow> instant option \<Rightarrow> override_table
       \<Rightarrow> string option \<times> override_table" where
  "override_release wclk i why now db =
     (let (hit, db1) = close_where (date_or now wclk) why (\<lambda>r. or_id r = i \<and> row_live r) db
      in (case hit of [] \<Rightarrow> None | r # _ \<Rightarrow> Some (ro_target r), db1))"

definition override_active_for :: "string \<Rightarrow> override_table \<Rightarrow> active_override option result" where
  "override_active_for target db =
     (case filter (\<lambda>r. or_target r = target \<and> row_live r) db of
        [] \<Rightarrow> Inr None
      | r # _ \<Rightarrow> res_bind (row_to_active r) (\<lambda>a. Inr (Some a)))"

definition override_list_active :: "override_table \<Rightarrow> active_override list result" where
  "override_list_active db = map_result row_to_active (sort_key or_created_at (filter row_live db))"

definition override_active_count :: "string \<Rightarrow> override_table \<Rightarrow> nat" where
  "override_active_count target db = length (filter (\<lambda>r. or_target r = target \<and> row_live r) db)"

section \<open>The table invariant\<close>

text \<open>
  What the schema promises and every operation keeps: ids are unique, at most one live row
  per target (the partial unique index), the transition column readable, duties in range.
\<close>

definition live_targets :: "override_table \<Rightarrow> string list" where
  "live_targets db = map or_target (filter row_live db)"

definition table_ok :: "override_table \<Rightarrow> bool" where
  "table_ok db = (distinct (map or_id db) \<and> distinct (live_targets db)
     \<and> (\<forall>r \<in> set db. or_transition r \<in> {''snap'', ''ramp''} \<and> 0 \<le> or_duty r \<and> or_duty r \<le> 1))"

lemma row_close_simps [simp]:
  "or_id (row_close now why r) = or_id r" "or_target (row_close now why r) = or_target r"
  "or_duty (row_close now why r) = or_duty r" "or_transition (row_close now why r) = or_transition r"
  "or_expires_at (row_close now why r) = or_expires_at r"
  "or_released_at (row_close now why r) = Some now" "\<not> row_live (row_close now why r)"
  by (simp_all add: row_close_def row_live_def)

lemma filter_live_close:
  "filter row_live (snd (close_where now why P db)) = filter (\<lambda>r. row_live r \<and> \<not> P r) db"
  by (induction db) (auto simp: close_where_def)

lemma close_where_fields:
  "map or_id (snd (close_where now why P db)) = map or_id db"
  "r \<in> set (snd (close_where now why P db)) \<Longrightarrow> \<exists>q \<in> set db. or_transition r = or_transition q \<and> or_duty r = or_duty q"
  by (induction db) (auto simp: close_where_def)

lemma live_targets_close:
  "live_targets (snd (close_where now why P db))
     = map or_target (filter (\<lambda>r. \<not> P r) (filter row_live db))"
  by (simp add: live_targets_def filter_live_close conj_commute)

lemma distinct_map_filter_sub: "distinct (map f (filter Q xs)) \<Longrightarrow> distinct (map f (filter P (filter Q xs)))"
  by (rule distinct_map_filter)

lemma table_ok_close [inv_intros]:
  assumes "table_ok db" shows "table_ok (snd (close_where now why P db))"
proof -
  have "distinct (live_targets (snd (close_where now why P db)))"
    unfolding live_targets_close using assms
    by (intro distinct_map_filter_sub) (simp add: table_ok_def live_targets_def)
  then show ?thesis
    using assms close_where_fields(2) [of _ now why P db]
    by (fastforce simp: table_ok_def close_where_fields(1))
qed

lemma parse_transition_ok: "raw \<in> {''snap'', ''ramp''} \<Longrightarrow> isOk (parse_transition raw)"
  by (auto simp: parse_transition_def)

lemma parse_transition_text [simp]: "parse_transition (transition_text t) = Inr t"
  by (cases t) (simp_all add: parse_transition_def transition_text_def)

lemma parse_transition_Inr: "parse_transition raw = Inr t \<longleftrightarrow> raw = transition_text t"
  by (cases t) (auto simp: parse_transition_def transition_text_def)

lemma row_to_active_ok: "or_transition r \<in> {''snap'', ''ramp''} \<Longrightarrow> isOk (row_to_active r)"
  by (auto simp: row_to_active_def parse_transition_def)

lemma row_to_active_Inr:
  "row_to_active r = Inr a \<Longrightarrow> ao_id a = or_id r \<and> ao_target a = or_target r \<and> ao_duty a = or_duty r
     \<and> ao_expires_at a = or_expires_at r \<and> transition_text (ao_transition a) = or_transition r
     \<and> ao_monotonic_deadline a = None"
  by (auto simp: row_to_active_def res_bind_eq_Inr parse_transition_Inr)

section \<open>The operations as equations\<close>

text \<open>\<open>on_target\<close> and \<open>due_by\<close> are the two \<open>WHERE\<close> clauses.\<close>

abbreviation on_target :: "string \<Rightarrow> override_row \<Rightarrow> bool" where
  "on_target target r \<equiv> or_target r = target \<and> row_live r"

abbreviation due_by :: "instant \<Rightarrow> override_row \<Rightarrow> bool" where
  "due_by now r \<equiv> row_live r \<and> or_expires_at r \<le> now"

lemma override_create_Inr:
  "override_create trusted fresh mclk wclk target duty dur reason how now db = Inr (p, db') \<longleftrightarrow>
     0 < dur \<and> 0 \<le> duty \<and> duty \<le> 1 \<and> trusted \<and>
     (\<exists>t. parse_transition how = Inr t
        \<and> p = \<lparr>po_override = ao_arm None (Some (date_or now wclk)) mclk wclk
                 \<lparr>ao_id = fresh, ao_target = target, ao_duty = duty,
                  ao_expires_at = date_or now wclk + dur, ao_transition = t,
                  ao_monotonic_deadline = None\<rparr>,
              po_superseded = fst (close_where (date_or now wclk) Superseded (on_target target) db)\<rparr>
        \<and> db' = snd (close_where (date_or now wclk) Superseded (on_target target) db)
              @ [\<lparr>or_id = fresh, or_target = target, or_duty = duty, or_reason = reason,
                  or_created_at = date_or now wclk, or_expires_at = date_or now wclk + dur,
                  or_transition = how, or_released_at = None, or_release_reason = None\<rparr>])"
  by (cases "parse_transition how")
    (auto simp: override_create_def Let_def case_prod_unfold not_le)

lemma override_load_active_eq:
  "override_load_active mclk wclk (Some now) db =
     res_bind (map_result row_to_active (filter row_live (snd (close_where now Lapsed (due_by now) db))))
       (\<lambda>rows. Inr (\<lparr>wr_live = map (ao_arm None (Some now) mclk wclk) rows,
                       wr_lapsed = fst (close_where now Lapsed (due_by now) db)\<rparr>,
                     snd (close_where now Lapsed (due_by now) db)))"
  by (simp add: override_load_active_def date_or_def Let_def case_prod_unfold)

lemma list_all2_expiry:
  assumes "list_all2 (\<lambda>x y. row_to_active x = Inr y) xs ys" "a \<in> set ys"
  shows "\<exists>r \<in> set xs. ao_expires_at a = or_expires_at r"
  using assms
proof (induction rule: list_all2_induct)
  case (Cons x xs y ys)
  then show ?case using row_to_active_Inr [of x y] by (cases "a = y") auto
qed simp

section \<open>What each operation does to the table\<close>

lemma set_live_targets: "t \<in> set (live_targets db) \<longleftrightarrow> (\<exists>r \<in> set db. row_live r \<and> or_target r = t)"
  by (auto simp: live_targets_def)

lemma table_ok_create [inv_intros]:
  assumes ok: "table_ok db" and fresh: "fresh \<notin> set (map or_id db)"
    and c: "override_create trusted fresh mclk wclk target duty dur reason how now db = Inr (p, db')"
  shows "table_ok db'"
proof -
  define db1 where "db1 = snd (close_where (date_or now wclk) Superseded (on_target target) db)"
  obtain r where db': "db' = db1 @ [r]" and r: "or_id r = fresh" "or_target r = target"
      "or_transition r = how" "or_duty r = duty"
    using c unfolding override_create_Inr db1_def [symmetric] by force
  have v: "0 \<le> duty" "duty \<le> 1" "how \<in> {''snap'', ''ramp''}"
    using c by (auto simp: override_create_Inr parse_transition_def split: if_splits)
  have "table_ok db1" unfolding db1_def using ok by (rule inv_intros)
  moreover have "target \<notin> set (live_targets db1)"
    unfolding db1_def live_targets_close by auto
  moreover have "fresh \<notin> set (map or_id db1)"
    unfolding db1_def close_where_fields(1) by (rule fresh)
  ultimately show ?thesis using r v by (auto simp: table_ok_def live_targets_def db')
qed

lemma table_ok_release [inv_intros]:
  "table_ok db \<Longrightarrow> table_ok (snd (override_release wclk i why now db))"
  using table_ok_close by (simp add: override_release_def Let_def split: prod.splits)
    (metis snd_conv)

lemma table_ok_load [inv_intros]:
  assumes "table_ok db" "override_load_active mclk wclk (Some now) db = Inr (w, db')"
  shows "table_ok db'"
  using assms(2) table_ok_close [OF assms(1)] by (auto simp: override_load_active_eq res_bind_eq_Inr)

lemma override_create_returns:
  assumes "0 < dur" "0 \<le> duty" "duty \<le> 1" "how \<in> {''snap'', ''ramp''}"
  shows "\<exists>p db'. override_create True fresh mclk wclk target duty dur reason how now db = Inr (p, db')"
proof -
  obtain t where "parse_transition how = Inr t"
    using parse_transition_ok [OF assms(4)] by (auto simp: isOk_iff)
  with assms show ?thesis
    by (simp add: override_create_def Let_def split: prod.split)
qed

lemma live_count_le_one:
  assumes "table_ok db" shows "override_active_count t db \<le> 1"
proof -
  let ?L = "filter (\<lambda>r. or_target r = t) (filter row_live db)"
  have "distinct (map or_target ?L)"
    using assms distinct_map_filter unfolding table_ok_def live_targets_def by blast
  moreover have "set (map or_target ?L) \<subseteq> {t}" by auto
  ultimately have "length (map or_target ?L) \<le> card {t}"
    by (metis card_mono distinct_card finite.emptyI finite.insertI)
  then show ?thesis by (simp add: override_active_count_def conj_commute)
qed

section \<open>Properties\<close>

text \<open>
  Placing an override keeps the table sound and leaves exactly one live hold on its
  target, the new one. What it displaced is what it reports: each reported hold was live on
  that target, and no hold on another target is touched.
\<close>

theorem create_supersedes:
  assumes ok: "table_ok db" and fresh: "fresh \<notin> set (map or_id db)"
    and c: "override_create trusted fresh mclk wclk target duty dur reason how now db = Inr (p, db')"
  shows "table_ok db' \<and> override_active_count target db' = 1
    \<and> ao_id (po_override p) = fresh \<and> ao_target (po_override p) = target
    \<and> map ro_id (po_superseded p) = map or_id (filter (on_target target) db)
    \<and> (\<forall>t. t \<noteq> target \<longrightarrow> filter (\<lambda>r. or_target r = t) db' = filter (\<lambda>r. or_target r = t) db)"
proof -
  let ?close = "close_where (date_or now wclk) Superseded (on_target target) db"
  obtain r where db': "db' = snd ?close @ [r]" and r: "or_target r = target" "row_live r"
    using c unfolding override_create_Inr by (force simp: row_live_def)
  have p: "ao_id (po_override p) = fresh" "ao_target (po_override p) = target"
      "po_superseded p = fst ?close"
    using c unfolding override_create_Inr by (auto simp: ao_arm_def)
  have "filter (on_target target) (snd ?close) = []"
    by (induction db) (simp_all add: close_where_def)
  then have "override_active_count target db' = 1"
    using r by (simp add: override_active_count_def db')
  moreover have "filter (\<lambda>r. or_target r = t) db' = filter (\<lambda>r. or_target r = t) db"
    if "t \<noteq> target" for t
    using that r unfolding db' by (induction db) (auto simp: close_where_def)
  moreover have "map ro_id (po_superseded p) = map or_id (filter (on_target target) db)"
    unfolding p(3) by (simp add: close_where_def comp_def)
  ultimately show ?thesis
    using table_ok_create [OF assms] p by blast
qed

definition sample_row :: override_row where
  "sample_row = \<lparr>or_id = 1, or_target = ''blue'', or_duty = 1/2, or_reason = None, or_created_at = 0,
     or_expires_at = 600, or_transition = ''snap'', or_released_at = None, or_release_reason = None\<rparr>"

lemma sample_table_ok: "table_ok [sample_row]"
  by (simp add: table_ok_def live_targets_def sample_row_def)

theorem create_supersedes_witness:
  "\<exists>p db'. override_create True 2 50 100 ''blue'' 1 1800 None ''ramp'' None [sample_row] = Inr (p, db')
     \<and> override_active_count ''blue'' db' = 1 \<and> map ro_id (po_superseded p) = [1]"
proof -
  obtain p db' where c: "override_create True 2 50 100 ''blue'' 1 1800 None ''ramp'' None [sample_row]
      = Inr (p, db')"
    using override_create_returns [of 1800 1 "''ramp''"] by force
  have f: "2 \<notin> set (map or_id [sample_row])" by (simp add: sample_row_def)
  from create_supersedes [OF sample_table_ok f c] c show ?thesis
    by (auto simp: sample_row_def row_live_def)
qed

text \<open>
  A hold lasts the duration the operator asked for, measured by the monotonic clock: it
  is expired exactly from the moment \<open>duration_s\<close> has elapsed since it was placed, whatever
  the wall clock is stepped to meanwhile. Nothing is placed while the clock is untrusted.
\<close>

theorem hold_duration_is_monotonic:
  assumes "override_create trusted fresh mclk wclk target duty dur reason how now db = Inr (p, db')"
    and "0 < mclk" "mclk \<le> m"
  shows "trusted \<and> (ao_is_expired None wn m w (po_override p) \<longleftrightarrow> mclk + dur \<le> m)"
proof -
  have "trusted \<and> 0 < dur \<and> ao_monotonic_deadline (po_override p) = Some (mclk + max dur 0)"
    using assms(1) unfolding override_create_Inr
    by (auto simp: ao_arm_def date_or_def num_or_def)
  then show ?thesis using assms(2,3) by (auto simp: ao_is_expired_def num_or_def)
qed

theorem hold_duration_is_monotonic_witness:
  "\<exists>p db'. override_create True 2 50 100 ''blue'' 1 1800 None ''ramp'' None [] = Inr (p, db')
     \<and> \<not> ao_is_expired None None 1849 999999 (po_override p)
     \<and> ao_is_expired None None 1850 0 (po_override p)"
proof -
  obtain p db' where c: "override_create True 2 50 100 ''blue'' 1 1800 None ''ramp'' None [] = Inr (p, db')"
    using override_create_returns [of 1800 1 "''ramp''"] by force
  have h: "(0::rat) < 50" "(50::rat) \<le> 1849" "(50::rat) \<le> 1850" by simp_all
  from hold_duration_is_monotonic [OF c h(1,2), of None 999999]
    hold_duration_is_monotonic [OF c h(1,3), of None 0] c
  show ?thesis by auto
qed

text \<open>
  Lapse on wake. Loading at \<open>now\<close> succeeds on a sound table, returns exactly the live
  holds whose deadline is still ahead, each armed for its remaining time, and reports
  exactly the live holds whose deadline has passed; those are closed in the table, so no
  later read sees them.
\<close>

theorem load_lapses_expired:
  assumes ok: "table_ok db"
  shows "\<exists>w db'. override_load_active mclk wclk (Some now) db = Inr (w, db')
    \<and> map ao_id (wr_live w) = map or_id (filter (\<lambda>r. row_live r \<and> now < or_expires_at r) db)
    \<and> (\<forall>a \<in> set (wr_live w). now < ao_expires_at a
          \<and> ao_monotonic_deadline a = Some (mclk + (ao_expires_at a - now)))
    \<and> map ro_id (wr_lapsed w) = map or_id (filter (\<lambda>r. row_live r \<and> or_expires_at r \<le> now) db)
    \<and> (\<forall>r \<in> set db'. row_live r \<longrightarrow> now < or_expires_at r) \<and> table_ok db'"
proof -
  let ?close = "close_where now Lapsed (due_by now) db"
  let ?live = "filter row_live (snd ?close)"
  have live: "?live = filter (\<lambda>r. row_live r \<and> now < or_expires_at r) db"
    unfolding filter_live_close by (rule filter_cong) auto
  have "\<forall>r \<in> set ?live. isOk (row_to_active r)"
    using ok unfolding live by (auto simp: table_ok_def intro!: row_to_active_ok)
  then obtain rows where rows: "map_result row_to_active ?live = Inr rows"
      "length rows = length ?live" "list_all2 (\<lambda>x y. row_to_active x = Inr y) ?live rows"
    using map_result_ok by blast
  have ids: "map ao_id rows = map or_id ?live"
    using rows(3) by (induction rule: list_all2_induct) (auto dest: row_to_active_Inr)
  have exp: "\<forall>a \<in> set rows. now < ao_expires_at a"
    using list_all2_expiry [OF rows(3)] unfolding live by force
  let ?w = "\<lparr>wr_live = map (ao_arm None (Some now) mclk wclk) rows, wr_lapsed = fst ?close\<rparr>"
  have "override_load_active mclk wclk (Some now) db = Inr (?w, snd ?close)"
    using rows(1) by (simp add: override_load_active_eq)
  moreover have "map ao_id (wr_live ?w) = map or_id (filter (\<lambda>r. row_live r \<and> now < or_expires_at r) db)"
    using ids by (simp add: live ao_arm_def comp_def)
  moreover have "\<forall>a \<in> set (wr_live ?w). now < ao_expires_at a
      \<and> ao_monotonic_deadline a = Some (mclk + (ao_expires_at a - now))"
    using exp by (auto simp: ao_arm_def date_or_def num_or_def)
  moreover have "map ro_id (wr_lapsed ?w) = map or_id (filter (due_by now) db)"
    by (simp add: close_where_def comp_def)
  moreover have "\<forall>r \<in> set (snd ?close). row_live r \<longrightarrow> now < or_expires_at r"
    by (auto simp: close_where_def not_le)
  moreover have "table_ok (snd ?close)" using ok by (rule inv_intros)
  ultimately show ?thesis by blast
qed

theorem load_lapses_expired_witness:
  "\<exists>w db'. override_load_active 50 700 (Some 700) [sample_row] = Inr (w, db')
     \<and> wr_live w = [] \<and> map ro_id (wr_lapsed w) = [1]"
  using load_lapses_expired [OF sample_table_ok, of 50 700 700]
  by (auto simp: sample_row_def row_live_def)

end
