(* ===== verification/Scheduler.thy ===== *)
theory Scheduler
  imports Curve Overrides "HOL-Library.List_Lexorder" "HOL-Library.Char_ord"
begin

text \<open>
  The lighting scheduler, \<open>services/control_engine/bellasreef_control_engine/scheduler.py\<close>:
  from profiles, a clock and the operator's holds to intents. The object's fields are the
  record \<open>scheduler\<close>; \<open>due\<close> reads it, \<open>mark_emitted\<close>, \<open>reset\<close>, \<open>forget\<close> and
  \<open>set_profiles\<close> return it updated. The channel dictionaries are association lists, since
  \<open>due\<close> iterates over them.
\<close>

definition SAFE_DUTY :: duty where "SAFE_DUTY = 0"
definition DEFAULT_DEADBAND :: duty where "DEFAULT_DEADBAND = 5 / 1000"
definition DEFAULT_REFRESH_S :: seconds where "DEFAULT_REFRESH_S = 300"

record intent =
  in_channel_id :: string
  in_duty :: duty
  in_reason :: string
  in_hold :: "transition option"
  in_converging :: bool

definition Intent :: "string \<Rightarrow> duty \<Rightarrow> string \<Rightarrow> transition option \<Rightarrow> bool \<Rightarrow> intent" where
  "Intent c d r h v =
     \<lparr>in_channel_id = c, in_duty = d, in_reason = r, in_hold = h, in_converging = v\<rparr>"

record held_target =
  ht_duty :: duty
  ht_transition :: transition

record scheduler =
  sc_profiles :: "channel_profile list"
  sc_deadband :: duty
  sc_refresh_s :: seconds
  sc_slew :: "rat option"
  sc_last_duty :: "(string \<times> duty) list"
  sc_last_emitted_at :: "(string \<times> instant) list"
  sc_last_hold :: "(string \<times> transition) list"
  sc_slewing :: "string set"

section \<open>Construction\<close>

definition channel_ids :: "channel_profile list \<Rightarrow> string list" where
  "channel_ids ps = map cp_channel_id ps"

definition scheduler_new ::
    "channel_profile list \<Rightarrow> duty \<Rightarrow> seconds \<Rightarrow> rat option \<Rightarrow> scheduler result" where
  "scheduler_new profiles deadband refresh_s slew = validated
     [(\<not> deadband < 0, ValueError ''deadband must be >= 0''),
      (\<not> refresh_s \<le> 0, ValueError ''refresh_s must be > 0''),
      (opt_ok (\<lambda>r. \<not> r \<le> 0) slew, ValueError ''max_duty_delta_per_s must be > 0, or None to disable''),
      (distinct (channel_ids profiles), ValueError ''duplicate channel_id in profiles'')]
     \<lparr>sc_profiles = profiles, sc_deadband = deadband, sc_refresh_s = refresh_s, sc_slew = slew,
      sc_last_duty = [], sc_last_emitted_at = [], sc_last_hold = [], sc_slewing = {}\<rparr>"

definition set_profiles :: "channel_profile list \<Rightarrow> scheduler \<Rightarrow> scheduler result" where
  "set_profiles profiles sc = validated
     [(distinct (channel_ids profiles), ValueError ''duplicate channel_id in profiles'')]
     (sc\<lparr>sc_profiles := profiles\<rparr>)"

section \<open>The decision for one channel\<close>

definition limit :: "scheduler \<Rightarrow> duty \<Rightarrow> duty \<Rightarrow> seconds \<Rightarrow> duty" where
  "limit sc previous target dt_s =
     (case sc_slew sc of
        None \<Rightarrow> target
      | Some rate \<Rightarrow>
          (let allowed = rate * max dt_s 0
           in if \<bar>target - previous\<bar> \<le> allowed then target
              else if previous < target then previous + allowed
              else previous - allowed))"

definition previous_of :: "scheduler \<Rightarrow> string \<Rightarrow> duty" where
  "previous_of sc c = (case map_of (sc_last_duty sc) c of None \<Rightarrow> SAFE_DUTY | Some d \<Rightarrow> d)"

definition elapsed_of :: "scheduler \<Rightarrow> string \<Rightarrow> instant \<Rightarrow> seconds" where
  "elapsed_of sc c now =
     now - (case map_of (sc_last_emitted_at sc) c of None \<Rightarrow> now | Some t \<Rightarrow> t)"

text \<open>The target and the duty this tick may reach, for a channel that is not releasing a snap.\<close>

definition plan :: "scheduler \<Rightarrow> string \<Rightarrow> duty \<Rightarrow> instant \<Rightarrow> held_target option \<Rightarrow> duty \<times> duty" where
  "plan sc c resting now hold =
     (case hold of
        None \<Rightarrow> (resting, limit sc (previous_of sc c) resting (elapsed_of sc c now))
      | Some h \<Rightarrow>
          (ht_duty h,
           if ht_transition h = Snap then ht_duty h
           else limit sc (previous_of sc c) (ht_duty h) (elapsed_of sc c now)))"

definition emit_for ::
    "scheduler \<Rightarrow> string \<Rightarrow> duty \<Rightarrow> instant \<Rightarrow> held_target option \<Rightarrow> intent option" where
  "emit_for sc c resting now hold =
     (let cold = (map_of (sc_last_duty sc) c = None);
          previous = previous_of sc c;
          dt_s = elapsed_of sc c now;
          remembered = map_of (sc_last_hold sc) c;
          (target, duty) = plan sc c resting now hold;
          tag = map_option ht_transition hold;
          converging = (duty \<noteq> target)
      in if hold = None \<and> remembered = Some Snap then Some (Intent c resting ''release'' None False)
         else if hold \<noteq> None \<and> remembered \<noteq> tag then Some (Intent c duty ''hold'' tag converging)
         else if tag = Some Snap \<and> duty \<noteq> previous then Some (Intent c duty ''hold'' tag converging)
         else if cold then Some (Intent c duty ''initial'' tag converging)
         else if converging then Some (Intent c duty ''converge'' tag True)
         else if sc_deadband sc \<le> \<bar>duty - previous\<bar> then Some (Intent c duty ''ramp'' tag False)
         else if c \<in> sc_slewing sc then Some (Intent c duty ''converge'' tag False)
         else if map_of (sc_last_emitted_at sc) c = None \<or> sc_refresh_s sc \<le> dt_s
              then Some (Intent c duty ''refresh'' tag False)
         else None)"

section \<open>The tick\<close>

definition synthetic_channels :: "scheduler \<Rightarrow> (string \<times> held_target) list \<Rightarrow> string list" where
  "synthetic_channels sc held =
     sort (remdups (filter (\<lambda>c. c \<notin> set (channel_ids (sc_profiles sc)))
       (map fst held
        @ map fst (filter (\<lambda>cd. snd cd \<noteq> SAFE_DUTY) (sc_last_duty sc))
        @ map fst (filter (\<lambda>ct. snd ct = Snap) (sc_last_hold sc)))))"

fun due ::
    "(string \<Rightarrow> instant \<Rightarrow> int) \<Rightarrow> scheduler \<Rightarrow> pydatetime \<Rightarrow> (string \<times> held_target) list
       \<Rightarrow> intent list result" where
  "due off sc (Naive _) held = Inl (ValueError ''now must be timezone-aware'')"
| "due off sc (Aware now) held =
     res_bind (map_result (\<lambda>p. res_bind (duty_at off p (Aware now)) (\<lambda>d.
                 Inr (emit_for sc (cp_channel_id p) d now (map_of held (cp_channel_id p)))))
               (sc_profiles sc)) (\<lambda>profiled.
     Inr (somes (profiled @ map (\<lambda>c. emit_for sc c SAFE_DUTY now (map_of held c))
                              (synthetic_channels sc held))))"

section \<open>The memory\<close>

definition mark_emitted :: "intent \<Rightarrow> instant \<Rightarrow> scheduler \<Rightarrow> scheduler" where
  "mark_emitted i t sc =
     sc\<lparr>sc_last_duty := alist_put (in_channel_id i) (in_duty i) (sc_last_duty sc),
        sc_last_emitted_at := alist_put (in_channel_id i) t (sc_last_emitted_at sc),
        sc_last_hold := (case in_hold i of
            None \<Rightarrow> alist_pop (in_channel_id i) (sc_last_hold sc)
          | Some h \<Rightarrow> alist_put (in_channel_id i) h (sc_last_hold sc)),
        sc_slewing := (if in_converging i then insert (in_channel_id i) (sc_slewing sc)
                       else sc_slewing sc - {in_channel_id i})\<rparr>"

definition reset :: "scheduler \<Rightarrow> scheduler" where
  "reset sc = sc\<lparr>sc_last_duty := [], sc_last_emitted_at := [], sc_last_hold := [], sc_slewing := {}\<rparr>"

definition forget :: "string \<Rightarrow> scheduler \<Rightarrow> scheduler" where
  "forget c sc =
     sc\<lparr>sc_last_duty := alist_pop c (sc_last_duty sc),
        sc_last_emitted_at := alist_pop c (sc_last_emitted_at sc),
        sc_last_hold := alist_pop c (sc_last_hold sc),
        sc_slewing := sc_slewing sc - {c}\<rparr>"

section \<open>One channel\<close>

definition slew_ok :: "scheduler \<Rightarrow> bool" where
  "slew_ok sc = opt_ok (\<lambda>r. 0 < r) (sc_slew sc)"

lemma limit_step:
  assumes "slew_ok sc" "sc_slew sc = Some r"
  shows "\<bar>limit sc p t dt - p\<bar> \<le> r * max dt 0"
proof -
  have "0 \<le> r * max dt 0" using assms by (simp add: slew_ok_def)
  then show ?thesis using assms(2) by (auto simp: limit_def Let_def abs_if)
qed

lemma limit_between:
  assumes "slew_ok sc" shows "min p t \<le> limit sc p t dt \<and> limit sc p t dt \<le> max p t"
proof (cases "sc_slew sc")
  case (Some r)
  then have "0 \<le> r * max dt 0" using assms by (simp add: slew_ok_def)
  then show ?thesis using Some by (auto simp: limit_def Let_def abs_if min_def max_def)
qed (simp add: limit_def)

lemma limit_arrived [simp]: "slew_ok sc \<Longrightarrow> limit sc t t dt = t"
  by (auto simp: limit_def slew_ok_def Let_def split: option.splits)

lemma limit_closes:
  assumes "slew_ok sc" "sc_slew sc = Some r" "0 \<le> dt"
  shows "\<bar>t - limit sc p t dt\<bar> = max 0 (\<bar>t - p\<bar> - r * dt)"
  using assms by (auto simp: limit_def Let_def abs_if max_def)


lemma Intent_simps [simp]:
  "in_channel_id (Intent c d r h v) = c" "in_duty (Intent c d r h v) = d"
  "in_reason (Intent c d r h v) = r" "in_hold (Intent c d r h v) = h"
  "in_converging (Intent c d r h v) = v"
  by (simp_all add: Intent_def)


text \<open>The chain of returns, read once: which condition fired, or none did.\<close>

lemma if_chain_Some:
  "(if a1 then Some x1 else if a2 then Some x2 else if a3 then Some x3 else if a4 then Some x4
    else if a5 then Some x5 else if a6 then Some x6 else if a7 then Some x7
    else if a8 then Some x8 else None) = Some i \<Longrightarrow>
   (a1 \<and> i = x1) \<or> (\<not> a1 \<and> (i = x2 \<or> i = x3 \<or> i = x4
      \<or> (a5 \<and> i = x5) \<or> (\<not> a5 \<and> (i = x6 \<or> i = x7 \<or> i = x8))))"
  by (simp split: if_split_asm)

lemma if_chain_None:
  "(if a1 then Some x1 else if a2 then Some x2 else if a3 then Some x3 else if a4 then Some x4
    else if a5 then Some x5 else if a6 then Some x6 else if a7 then Some x7
    else if a8 then Some x8 else None) = None \<Longrightarrow>
   \<not> a1 \<and> \<not> a2 \<and> \<not> a3 \<and> \<not> a4 \<and> \<not> a5 \<and> \<not> a6 \<and> \<not> a7 \<and> \<not> a8"
  by (simp split: if_split_asm)

lemma emit_for_Some:
  assumes "emit_for sc c resting now hold = Some i"
  shows "in_channel_id i = c \<and> in_hold i = map_option ht_transition hold
    \<and> ((hold = None \<and> map_of (sc_last_hold sc) c = Some Snap \<and> in_duty i = resting \<and> \<not> in_converging i)
       \<or> (in_duty i = snd (plan sc c resting now hold)
          \<and> (in_converging i \<longleftrightarrow> in_duty i \<noteq> fst (plan sc c resting now hold))))"
  using if_chain_Some [OF assms [unfolded emit_for_def Let_def case_prod_unfold]]
  by (elim disjE conjE) simp_all

lemma emit_for_None:
  assumes "emit_for sc c resting now hold = None"
  shows "snd (plan sc c resting now hold) = fst (plan sc c resting now hold)
   \<and> \<bar>fst (plan sc c resting now hold) - previous_of sc c\<bar> < sc_deadband sc
   \<and> c \<notin> sc_slewing sc \<and> map_of (sc_last_duty sc) c \<noteq> None
   \<and> elapsed_of sc c now < sc_refresh_s sc
   \<and> (hold = None \<longrightarrow> map_of (sc_last_hold sc) c \<noteq> Some Snap)
   \<and> (hold \<noteq> None \<longrightarrow> map_of (sc_last_hold sc) c = map_option ht_transition hold)"
  using if_chain_None [OF assms [unfolded emit_for_def Let_def case_prod_unfold]]
  by (auto simp: not_le)


definition chan_tick ::
    "string \<Rightarrow> duty \<Rightarrow> held_target option \<Rightarrow> instant \<Rightarrow> scheduler \<Rightarrow> scheduler" where
  "chan_tick c resting hold t sc =
     (case emit_for sc c resting t hold of None \<Rightarrow> sc | Some i \<Rightarrow> mark_emitted i t sc)"

fun chan_run ::
    "nat \<Rightarrow> seconds \<Rightarrow> string \<Rightarrow> duty \<Rightarrow> held_target option \<Rightarrow> instant \<Rightarrow> scheduler \<Rightarrow> scheduler" where
  "chan_run 0 dt c resting hold t sc = sc"
| "chan_run (Suc n) dt c resting hold t sc =
     chan_run n dt c resting hold (t + dt) (chan_tick c resting hold t sc)"

text \<open>A channel that moves by the slew: unheld with no snap to release, or under a ramp hold.\<close>

definition ramping :: "scheduler \<Rightarrow> string \<Rightarrow> held_target option \<Rightarrow> bool" where
  "ramping sc c hold = (case hold of
      None \<Rightarrow> map_of (sc_last_hold sc) c \<noteq> Some Snap
    | Some h \<Rightarrow> ht_transition h = Ramp)"

definition target_of :: "duty \<Rightarrow> held_target option \<Rightarrow> duty" where
  "target_of resting hold = (case hold of None \<Rightarrow> resting | Some h \<Rightarrow> ht_duty h)"

lemma plan_ramping:
  "ramping sc c hold \<Longrightarrow> plan sc c resting now hold =
     (target_of resting hold, limit sc (previous_of sc c) (target_of resting hold) (elapsed_of sc c now))"
  by (auto simp: ramping_def plan_def target_of_def split: option.splits)

lemma emit_ramping:
  assumes "emit_for sc c resting now hold = Some i" "ramping sc c hold"
  shows "in_channel_id i = c \<and> in_hold i = map_option ht_transition hold
    \<and> in_duty i = limit sc (previous_of sc c) (target_of resting hold) (elapsed_of sc c now)
    \<and> (in_converging i \<longleftrightarrow> in_duty i \<noteq> target_of resting hold)"
  using emit_for_Some [OF assms(1)] assms(2)
  by (auto simp: plan_ramping [OF assms(2)]) (auto simp: ramping_def)

lemma mark_emitted_simps [simp]:
  "sc_slew (mark_emitted i t sc) = sc_slew sc"
  "sc_profiles (mark_emitted i t sc) = sc_profiles sc"
  "sc_deadband (mark_emitted i t sc) = sc_deadband sc"
  "sc_refresh_s (mark_emitted i t sc) = sc_refresh_s sc"
  "map_of (sc_last_duty (mark_emitted i t sc)) = (map_of (sc_last_duty sc))(in_channel_id i \<mapsto> in_duty i)"
  "map_of (sc_last_emitted_at (mark_emitted i t sc)) = (map_of (sc_last_emitted_at sc))(in_channel_id i \<mapsto> t)"
  "map_of (sc_last_hold (mark_emitted i t sc)) = (map_of (sc_last_hold sc))(in_channel_id i := in_hold i)"
  "c \<in> sc_slewing (mark_emitted i t sc) \<longleftrightarrow>
     (if c = in_channel_id i then in_converging i else c \<in> sc_slewing sc)"
  by (auto simp: mark_emitted_def split: option.splits)

lemma ramping_tick: "ramping sc c hold \<Longrightarrow> ramping (chan_tick c resting hold t sc) c hold"
  by (auto simp: chan_tick_def ramping_def dest: emit_for_Some split: option.splits)

lemma slew_ok_mark [simp]: "slew_ok (mark_emitted i t sc) = slew_ok sc"
  by (simp add: slew_ok_def)

lemma chan_tick_slew [simp]: "sc_slew (chan_tick c resting hold t sc) = sc_slew sc"
  by (simp add: chan_tick_def split: option.splits)

lemma chan_tick_slew_ok [simp]: "slew_ok (chan_tick c resting hold t sc) = slew_ok sc"
  by (simp add: slew_ok_def)

text \<open>At the target a tick leaves the channel there.\<close>

lemma arrived_tick:
  assumes "slew_ok sc" "ramping sc c hold" "map_of (sc_last_duty sc) c = Some (target_of resting hold)"
    and "c \<notin> sc_slewing sc"
  shows "map_of (sc_last_duty (chan_tick c resting hold t sc)) c = Some (target_of resting hold)
    \<and> c \<notin> sc_slewing (chan_tick c resting hold t sc)"
proof (cases "emit_for sc c resting t hold")
  case None
  then show ?thesis using assms by (simp add: chan_tick_def)
next
  case (Some i)
  have "previous_of sc c = target_of resting hold" using assms(3) by (simp add: previous_of_def)
  then show ?thesis
    using emit_ramping [OF Some assms(2)] assms(1) Some by (simp add: chan_tick_def)
qed

lemma arrived_run:
  "slew_ok sc \<Longrightarrow> ramping sc c hold \<Longrightarrow> map_of (sc_last_duty sc) c = Some (target_of resting hold)
   \<Longrightarrow> c \<notin> sc_slewing sc
   \<Longrightarrow> map_of (sc_last_duty (chan_run n dt c resting hold t sc)) c = Some (target_of resting hold)
     \<and> c \<notin> sc_slewing (chan_run n dt c resting hold t sc)"
  by (induction n arbitrary: t sc) (simp_all add: arrived_tick ramping_tick)

text \<open>A tick during a slew is never silent and closes the distance by the rate.\<close>

lemma slewing_tick:
  assumes ok: "slew_ok sc" "sc_slew sc = Some r" and "0 < dt" and rmp: "ramping sc c hold"
    and at: "map_of (sc_last_duty sc) c = Some p" "map_of (sc_last_emitted_at sc) c = Some t0"
    and slewing: "c \<in> sc_slewing sc"
  shows "\<exists>q. map_of (sc_last_duty (chan_tick c resting hold (t0 + dt) sc)) c = Some q
    \<and> map_of (sc_last_emitted_at (chan_tick c resting hold (t0 + dt) sc)) c = Some (t0 + dt)
    \<and> \<bar>target_of resting hold - q\<bar> = max 0 (\<bar>target_of resting hold - p\<bar> - r * dt)
    \<and> (c \<in> sc_slewing (chan_tick c resting hold (t0 + dt) sc) \<longleftrightarrow> q \<noteq> target_of resting hold)"
proof (cases "emit_for sc c resting (t0 + dt) hold")
  case None
  then show ?thesis using emit_for_None slewing by blast
next
  case (Some i)
  have e: "previous_of sc c = p" "elapsed_of sc c (t0 + dt) = dt"
    using at by (simp_all add: previous_of_def elapsed_of_def)
  show ?thesis
    using emit_ramping [OF Some rmp] limit_closes [OF ok, of dt "target_of resting hold" p] \<open>0 < dt\<close>
    by (simp add: chan_tick_def Some e)
qed

section \<open>Properties\<close>


definition slewing_scheduler :: scheduler where
  "slewing_scheduler =
     \<lparr>sc_profiles = [], sc_deadband = 5/1000, sc_refresh_s = 300, sc_slew = Some (1/100),
      sc_last_duty = [(''blue'', 1/2)], sc_last_emitted_at = [(''blue'', 100)],
      sc_last_hold = [], sc_slewing = {''blue''}\<rparr>"


section \<open>All channels\<close>

lemma due_Inr:
  assumes "due off sc (Aware now) held = Inr ints" "i \<in> set ints"
  shows "\<exists>resting. emit_for sc (in_channel_id i) resting now (map_of held (in_channel_id i)) = Some i
    \<and> ((resting = SAFE_DUTY \<and> in_channel_id i \<notin> set (channel_ids (sc_profiles sc)))
       \<or> (\<exists>p \<in> set (sc_profiles sc). cp_channel_id p = in_channel_id i \<and> duty_at off p (Aware now) = Inr resting))"
proof -
  define f where "f p = res_bind (duty_at off p (Aware now))
      (\<lambda>d. Inr (emit_for sc (cp_channel_id p) d now (map_of held (cp_channel_id p))))" for p
  obtain es where es: "map_result f (sc_profiles sc) = Inr es"
    and ints: "ints = somes (es @ map (\<lambda>c. emit_for sc c SAFE_DUTY now (map_of held c)) (synthetic_channels sc held))"
    using assms(1) by (auto simp: res_bind_eq_Inr f_def [abs_def])
  consider (profiled) "Some i \<in> set es"
    | (synthetic) c where "c \<in> set (synthetic_channels sc held)"
        "emit_for sc c SAFE_DUTY now (map_of held c) = Some i"
    using assms(2) unfolding ints set_somes by auto
  then show ?thesis
  proof cases
    case profiled
    then obtain p where p: "p \<in> set (sc_profiles sc)" "f p = Inr (Some i)"
      using map_result_mem [OF es] by blast
    then obtain d where "duty_at off p (Aware now) = Inr d"
        "emit_for sc (cp_channel_id p) d now (map_of held (cp_channel_id p)) = Some i"
      unfolding f_def res_bind_eq_Inr by blast
    moreover from this(2) have "in_channel_id i = cp_channel_id p" using emit_for_Some by blast
    ultimately show ?thesis using p(1) by auto
  next
    case synthetic
    then have "in_channel_id i = c" using emit_for_Some by blast
    with synthetic show ?thesis by (auto simp: synthetic_channels_def)
  qed
qed

text \<open>What the engine keeps true of its scheduler.\<close>

definition scheduler_ok :: "(string \<Rightarrow> bool) \<Rightarrow> scheduler \<Rightarrow> bool" where
  "scheduler_ok kz sc = (slew_ok sc \<and> 0 \<le> sc_deadband sc \<and> 0 < sc_refresh_s sc
     \<and> distinct (channel_ids (sc_profiles sc))
     \<and> (\<forall>p \<in> set (sc_profiles sc). validate_channel_profile kz p = Inr p)
     \<and> (\<forall>c d. map_of (sc_last_duty sc) c = Some d \<longrightarrow> 0 \<le> d \<and> d \<le> 1))"

definition held_ok :: "(string \<times> held_target) list \<Rightarrow> bool" where
  "held_ok held = (\<forall>h \<in> set held. 0 \<le> ht_duty (snd h) \<and> ht_duty (snd h) \<le> 1)"

lemma scheduler_ok_new [inv_intros]:
  "scheduler_new ps db rf sl = Inr sc \<Longrightarrow> \<forall>p \<in> set ps. validate_channel_profile kz p = Inr p
   \<Longrightarrow> scheduler_ok kz sc"
  by (auto simp: scheduler_new_def validated_Inr scheduler_ok_def slew_ok_def opt_ok_def not_le
      split: option.splits)

lemma scheduler_ok_set_profiles [inv_intros]:
  "scheduler_ok kz sc \<Longrightarrow> set_profiles ps sc = Inr sc' \<Longrightarrow> \<forall>p \<in> set ps. validate_channel_profile kz p = Inr p
   \<Longrightarrow> scheduler_ok kz sc'"
  by (auto simp: set_profiles_def validated_Inr scheduler_ok_def slew_ok_def)

lemma scheduler_ok_mark [inv_intros]:
  "scheduler_ok kz sc \<Longrightarrow> 0 \<le> in_duty i \<Longrightarrow> in_duty i \<le> 1 \<Longrightarrow> scheduler_ok kz (mark_emitted i t sc)"
  by (auto simp: scheduler_ok_def)

lemma scheduler_ok_reset [inv_intros]: "scheduler_ok kz sc \<Longrightarrow> scheduler_ok kz (reset sc)"
  by (auto simp: scheduler_ok_def reset_def slew_ok_def)

lemma scheduler_ok_forget [inv_intros]: "scheduler_ok kz sc \<Longrightarrow> scheduler_ok kz (forget c sc)"
  by (auto simp: scheduler_ok_def forget_def slew_ok_def)

lemma due_total:
  assumes "scheduler_ok kz sc" shows "\<exists>ints. due off sc (Aware now) held = Inr ints"
proof -
  define f :: "channel_profile \<Rightarrow> intent option" where "f p = emit_for sc (cp_channel_id p)
      (duty_at_second (cp_points p) (local_second off (cp_zone p) now)) now
      (map_of held (cp_channel_id p))" for p
  have "map_result (\<lambda>p. res_bind (duty_at off p (Aware now)) (\<lambda>d.
      Inr (emit_for sc (cp_channel_id p) d now (map_of held (cp_channel_id p))))) (sc_profiles sc)
    = Inr (map f (sc_profiles sc))"
    by (rule map_result_total) (simp add: f_def)
  then show ?thesis by simp
qed

lemma previous_range:
  "scheduler_ok kz sc \<Longrightarrow> 0 \<le> previous_of sc c \<and> previous_of sc c \<le> 1"
  by (auto simp: previous_of_def scheduler_ok_def SAFE_DUTY_def split: option.splits)

lemma resting_range:
  assumes "scheduler_ok kz sc" "due off sc (Aware now) held = Inr ints" "i \<in> set ints"
  shows "\<exists>resting. 0 \<le> resting \<and> resting \<le> 1
    \<and> emit_for sc (in_channel_id i) resting now (map_of held (in_channel_id i)) = Some i"
proof -
  obtain resting where e: "emit_for sc (in_channel_id i) resting now (map_of held (in_channel_id i)) = Some i"
    and r: "resting = SAFE_DUTY \<or> (\<exists>p \<in> set (sc_profiles sc). duty_at off p (Aware now) = Inr resting)"
    using due_Inr [OF assms(2,3)] by blast
  have "0 \<le> resting \<and> resting \<le> 1"
  proof (cases "resting = SAFE_DUTY")
    case False
    with r obtain p where p: "p \<in> set (sc_profiles sc)" "duty_at off p (Aware now) = Inr resting" by blast
    then have "curve_ok (cp_points p)"
      using assms(1) by (auto simp: scheduler_ok_def validate_channel_profile_Inr)
    with p(2) show ?thesis using duty_at_second_range by auto
  qed (simp add: SAFE_DUTY_def)
  with e show ?thesis by blast
qed

lemma plan_range:
  assumes "scheduler_ok kz sc" "0 \<le> resting" "resting \<le> 1"
    and "\<forall>h. hold = Some h \<longrightarrow> 0 \<le> ht_duty h \<and> ht_duty h \<le> 1"
  shows "0 \<le> snd (plan sc c resting now hold) \<and> snd (plan sc c resting now hold) \<le> 1"
proof -
  have "slew_ok sc" using assms(1) by (simp add: scheduler_ok_def)
  then have "0 \<le> limit sc (previous_of sc c) t dt \<and> limit sc (previous_of sc c) t dt \<le> 1"
    if "0 \<le> t" "t \<le> 1" for t dt
    using limit_between [of sc "previous_of sc c" t dt] previous_range [OF assms(1), of c] that
    by (auto simp: min_def max_def split: if_splits)
  then show ?thesis using assms(2-4) by (auto simp: plan_def split: option.splits)
qed

lemma due_range:
  assumes ok: "scheduler_ok kz sc" and h: "held_ok held"
    and ints: "due off sc (Aware now) held = Inr ints" and i: "i \<in> set ints"
  shows "0 \<le> in_duty i \<and> in_duty i \<le> 1"
proof -
  obtain resting where r: "0 \<le> resting" "resting \<le> 1"
    "emit_for sc (in_channel_id i) resting now (map_of held (in_channel_id i)) = Some i"
    using resting_range [OF ok ints i] by blast
  have "\<forall>h. map_of held (in_channel_id i) = Some h \<longrightarrow> 0 \<le> ht_duty h \<and> ht_duty h \<le> 1"
    using h by (force simp: held_ok_def dest: map_of_SomeD)
  from plan_range [OF ok r(1,2) this] emit_for_Some [OF r(3)] r show ?thesis by metis
qed

text \<open>
  The scheduler only ever asks for valid duties, and its memory stays sound. From a
  sound state, whatever the clock and the (valid) holds, a tick returns intents, every one
  of them with a duty between 0 and 1, and recording any of them as emitted keeps the state
  sound.
\<close>

theorem due_duties_valid:
  assumes ok: "scheduler_ok kz sc" and h: "held_ok held"
  shows "\<exists>ints. due off sc (Aware now) held = Inr ints
    \<and> (\<forall>i \<in> set ints. 0 \<le> in_duty i \<and> in_duty i \<le> 1 \<and> scheduler_ok kz (mark_emitted i t sc))"
proof -
  obtain ints where ints: "due off sc (Aware now) held = Inr ints" using due_total [OF ok] by blast
  with due_range [OF ok h ints] scheduler_ok_mark [OF ok] show ?thesis by blast
qed

theorem due_duties_valid_witness:
  "\<exists>ints. due (\<lambda>z t. 0) (slewing_scheduler\<lparr>sc_profiles := [sample_profile]\<rparr>) (Aware 43200) [] = Inr ints
     \<and> list_all (\<lambda>i. 0 \<le> in_duty i \<and> in_duty i \<le> 1) ints"
proof -
  have ok: "scheduler_ok (\<lambda>z. z = ''UTC'') (slewing_scheduler\<lparr>sc_profiles := [sample_profile]\<rparr>)"
    using sample_profile_valid by (simp add: scheduler_ok_def slewing_scheduler_def slew_ok_def channel_ids_def)
  from due_duties_valid [OF ok, of "[]" "\<lambda>z t. 0" 43200] show ?thesis
    by (auto simp: held_ok_def list_all_iff)
qed

text \<open>
  The light never pops on its own. With a slew rate configured, every intent for a channel
  that is not under a snap hold, and not releasing one, moves the duty from the last one
  emitted (or from dark, when nothing was) by at most the rate times the time since that
  emission.
\<close>

theorem due_never_pops:
  assumes "slew_ok sc" "sc_slew sc = Some rate" "due off sc (Aware now) held = Inr ints" "i \<in> set ints"
    and "ramping sc (in_channel_id i) (map_of held (in_channel_id i))"
  shows "\<bar>in_duty i - previous_of sc (in_channel_id i)\<bar>
     \<le> rate * max (elapsed_of sc (in_channel_id i) now) 0"
proof -
  obtain resting where "emit_for sc (in_channel_id i) resting now (map_of held (in_channel_id i)) = Some i"
    using due_Inr [OF assms(3,4)] by blast
  from emit_ramping [OF this assms(5)] limit_step [OF assms(1,2)] show ?thesis by simp
qed

theorem due_never_pops_witness:
  "\<exists>ints. due (\<lambda>z t. 0) slewing_scheduler (Aware 110) [] = Inr ints
     \<and> list_all (\<lambda>i. \<bar>in_duty i - previous_of slewing_scheduler (in_channel_id i)\<bar>
           \<le> 1/100 * max (elapsed_of slewing_scheduler (in_channel_id i) 110) 0) ints"
proof -
  have ok: "slew_ok slewing_scheduler" "sc_slew slewing_scheduler = Some (1/100)"
    "\<And>c. ramping slewing_scheduler c None"
    by (simp_all add: slewing_scheduler_def slew_ok_def ramping_def)
  obtain ints where ints: "due (\<lambda>z t. 0) slewing_scheduler (Aware 110) [] = Inr ints"
    by (simp add: slewing_scheduler_def)
  with due_never_pops [OF ok(1,2) ints] ok(3) show ?thesis by (auto simp: list_all_iff)
qed

section \<open>One intent per channel and the hold memory\<close>

definition decided :: "(string \<Rightarrow> instant \<Rightarrow> int) \<Rightarrow> scheduler \<Rightarrow> instant \<Rightarrow> (string \<times> held_target) list
    \<Rightarrow> (string \<times> intent option) list" where
  "decided off sc now held =
     map (\<lambda>p. (cp_channel_id p, emit_for sc (cp_channel_id p)
            (duty_at_second (cp_points p) (local_second off (cp_zone p) now)) now
            (map_of held (cp_channel_id p)))) (sc_profiles sc)
     @ map (\<lambda>c. (c, emit_for sc c SAFE_DUTY now (map_of held c))) (synthetic_channels sc held)"

lemma due_decided: "due off sc (Aware now) held = Inr (somes (map snd (decided off sc now held)))"
proof -
  define f :: "channel_profile \<Rightarrow> intent option" where "f p = emit_for sc (cp_channel_id p)
      (duty_at_second (cp_points p) (local_second off (cp_zone p) now)) now
      (map_of held (cp_channel_id p))" for p
  have "(\<lambda>p. res_bind (duty_at off p (Aware now)) (\<lambda>d.
      Inr (emit_for sc (cp_channel_id p) d now (map_of held (cp_channel_id p))))) = (\<lambda>p. Inr (f p))"
    by (rule ext) (simp add: f_def)
  moreover have "map_result (\<lambda>p. Inr (f p)) (sc_profiles sc) = Inr (map f (sc_profiles sc))"
    by (rule map_result_total) simp
  moreover have "map snd (decided off sc now held) = map f (sc_profiles sc)
      @ map (\<lambda>c. emit_for sc c SAFE_DUTY now (map_of held c)) (synthetic_channels sc held)"
    by (simp add: decided_def f_def comp_def)
  ultimately show ?thesis by (simp only: due.simps res_bind_simps)
qed

lemma decided_channels:
  "map fst (decided off sc now held) = channel_ids (sc_profiles sc) @ synthetic_channels sc held"
  by (simp add: decided_def channel_ids_def comp_def)

lemma decided_distinct:
  "distinct (channel_ids (sc_profiles sc)) \<Longrightarrow> distinct (map fst (decided off sc now held))"
  by (auto simp: decided_channels synthetic_channels_def)

lemma decided_emit:
  "(c, e) \<in> set (decided off sc now held) \<Longrightarrow>
     \<exists>resting. e = emit_for sc c resting now (map_of held c)
       \<and> ((\<exists>p \<in> set (sc_profiles sc). cp_channel_id p = c \<and> duty_at off p (Aware now) = Inr resting)
          \<or> (c \<notin> set (channel_ids (sc_profiles sc)) \<and> resting = SAFE_DUTY))"
  by (auto simp: decided_def synthetic_channels_def)

lemma decided_Some: "(c, Some i) \<in> set (decided off sc now held) \<Longrightarrow> in_channel_id i = c"
  using decided_emit [of c "Some i" off sc now held] emit_for_Some by (metis (no_types, lifting))

lemma somes_channels:
  "\<forall>(c, e) \<in> set xs. \<forall>i. e = Some i \<longrightarrow> in_channel_id i = c \<Longrightarrow> distinct (map fst xs)
   \<Longrightarrow> distinct (map in_channel_id (somes (map snd xs)))
     \<and> set (map in_channel_id (somes (map snd xs))) \<subseteq> set (map fst xs)"
proof (induction xs)
  case (Cons x xs)
  then show ?case by (cases x; cases "snd x") auto
qed simp

lemma due_channel:
  assumes "due off sc (Aware now) held = Inr ints" "i \<in> set ints"
  shows "in_channel_id i \<in> set (channel_ids (sc_profiles sc)) \<union> fst ` set held
    \<union> fst ` set (sc_last_duty sc) \<union> fst ` set (sc_last_hold sc)"
proof -
  have "ints = somes (map snd (decided off sc now held))"
    using assms(1) unfolding due_decided by (simp only: sum.inject)
  with assms(2) have "Some i \<in> set (map snd (decided off sc now held))" by (simp add: set_somes)
  from snd_memD [OF this] obtain c where c: "(c, Some i) \<in> set (decided off sc now held)" by (elim exE)
  then have "in_channel_id i \<in> set (map fst (decided off sc now held))"
    using decided_Some [OF c] imageI [OF c, of fst] by simp
  then show ?thesis unfolding decided_channels synthetic_channels_def by auto
qed

lemma due_distinct:
  assumes "distinct (channel_ids (sc_profiles sc))" "due off sc (Aware now) held = Inr ints"
  shows "distinct (map in_channel_id ints)"
proof -
  have ints: "ints = somes (map snd (decided off sc now held))"
    using assms(2) unfolding due_decided by (simp only: sum.inject)
  have "\<forall>(c, e) \<in> set (decided off sc now held). \<forall>i. e = Some i \<longrightarrow> in_channel_id i = c"
    using decided_Some by blast
  from somes_channels [OF this decided_distinct [OF assms(1)]] show ?thesis by (simp add: ints)
qed

lemma fold_mark_other:
  "c \<notin> set (map in_channel_id ints) \<Longrightarrow>
     map_of (sc_last_hold (fold (\<lambda>i. mark_emitted i t) ints sc)) c = map_of (sc_last_hold sc) c"
  by (induction ints arbitrary: sc) auto

lemma fold_mark_hold:
  "distinct (map in_channel_id ints) \<Longrightarrow> i \<in> set ints \<Longrightarrow>
     map_of (sc_last_hold (fold (\<lambda>i. mark_emitted i t) ints sc)) (in_channel_id i) = in_hold i"
proof (induction ints arbitrary: sc)
  case (Cons j ints)
  then show ?case by (cases "i = j") (auto simp: fold_mark_other)
qed simp

lemma remembered_after:
  fixes sc c resting now hold
  defines "m \<equiv> (case emit_for sc c resting now hold of Some i \<Rightarrow> in_hold i
                   | None \<Rightarrow> map_of (sc_last_hold sc) c)"
  shows "hold = Some h \<Longrightarrow> m = Some (ht_transition h)" "hold = None \<Longrightarrow> m \<noteq> Some Snap"
proof -
  show "hold = Some h \<Longrightarrow> m = Some (ht_transition h)"
    using emit_for_None [of sc c resting now hold] emit_for_Some [of sc c resting now hold]
    by (cases "emit_for sc c resting now hold") (simp_all add: m_def)
  show "hold = None \<Longrightarrow> m \<noteq> Some Snap"
    using emit_for_None [of sc c resting now hold] emit_for_Some [of sc c resting now hold]
    by (cases "emit_for sc c resting now hold") (simp_all add: m_def)
qed

lemma considered:
  "map_of held c \<noteq> None \<or> map_of (sc_last_hold sc) c = Some Snap \<Longrightarrow>
     \<exists>e. (c, e) \<in> set (decided off sc now held)"
proof -
  assume "map_of held c \<noteq> None \<or> map_of (sc_last_hold sc) c = Some Snap"
  then have "c \<in> fst ` set held \<or> (c, Snap) \<in> set (sc_last_hold sc)"
    by (auto simp: map_of_eq_None_iff dest: map_of_SomeD)
  then have "c \<in> fst ` set held \<union> fst ` set (filter (\<lambda>ct. snd ct = Snap) (sc_last_hold sc))"
    by force
  then have "c \<in> set (map fst (decided off sc now held))"
    unfolding decided_channels synthetic_channels_def by auto
  then show ?thesis unfolding set_map by auto
qed

text \<open>
  Within one tick every channel is asked to move at most once, and publishing everything
  the tick asked for makes the hold memory exact: a held channel is remembered with its
  hold's transition, and no snap hold is remembered for a channel that is not held.
\<close>

theorem tick_hold_memory:
  assumes ok: "distinct (channel_ids (sc_profiles sc))"
    and d: "due off sc (Aware now) held = Inr ints"
  shows "distinct (map in_channel_id ints)
    \<and> (\<forall>c h. map_of held c = Some h \<longrightarrow>
         map_of (sc_last_hold (fold (\<lambda>i. mark_emitted i t) ints sc)) c = Some (ht_transition h))
    \<and> (\<forall>c. map_of held c = None \<longrightarrow>
         map_of (sc_last_hold (fold (\<lambda>i. mark_emitted i t) ints sc)) c \<noteq> Some Snap)"
proof -
  let ?D = "decided off sc now held" and ?sc = "fold (\<lambda>i. mark_emitted i t) ints sc"
  have ints: "ints = somes (map snd ?D)" using d unfolding due_decided by (simp only: sum.inject)
  have emit: "\<forall>(c, e) \<in> set ?D. \<forall>i. e = Some i \<longrightarrow> in_channel_id i = c"
    using decided_emit emit_for_Some by fastforce
  note dist = somes_channels [OF emit decided_distinct [OF ok]]
  have memory: "map_of (sc_last_hold ?sc) c =
      (case e of Some i \<Rightarrow> in_hold i | None \<Rightarrow> map_of (sc_last_hold sc) c)" if ce: "(c, e) \<in> set ?D" for c e
  proof (cases e)
    case (Some i)
    with ce have "Some i \<in> set (map snd ?D)" unfolding set_map by (metis image_eqI snd_conv)
    then have "i \<in> set ints" unfolding ints set_somes by simp
    moreover have "in_channel_id i = c" using ce Some emit by blast
    ultimately show ?thesis using fold_mark_hold [of ints i t sc] dist Some ints by auto
  next
    case None
    have "c \<notin> set (map in_channel_id ints)"
    proof
      assume "c \<in> set (map in_channel_id ints)"
      then obtain i where i: "in_channel_id i = c" "i \<in> set ints" unfolding set_map by blast
      from i(2) have "Some i \<in> set (map snd ?D)" unfolding ints set_somes by (rule CollectD)
      from snd_memD [OF this] obtain c' where c': "(c', Some i) \<in> set ?D" by (elim exE)
      from decided_Some [OF c'] i(1) c' have "(c, Some i) \<in> set ?D" by simp
      from eq_key_imp_eq_value [OF decided_distinct [OF ok] ce this] None show False by simp
    qed
    with None fold_mark_other show ?thesis by simp
  qed
  have "map_of (sc_last_hold ?sc) c = Some (ht_transition h)" if h: "map_of held c = Some h" for c h
  proof -
    obtain e where e: "(c, e) \<in> set ?D" using considered [of held c sc off now] h by auto
    with decided_emit obtain resting where r: "e = emit_for sc c resting now (Some h)" using h by metis
    show ?thesis using memory [OF e] remembered_after(1) [OF refl] unfolding r by simp
  qed
  moreover have "map_of (sc_last_hold ?sc) c \<noteq> Some Snap" if h: "map_of held c = None" for c
  proof (cases "\<exists>e. (c, e) \<in> set ?D")
    case True
    then obtain e where e: "(c, e) \<in> set ?D" by blast
    with decided_emit obtain resting where r: "e = emit_for sc c resting now None" using h by metis
    show ?thesis using memory [OF e] remembered_after(2) [OF refl] unfolding r by simp
  next
    case False
    then have "map_of (sc_last_hold sc) c \<noteq> Some Snap" using considered by blast
    moreover have "c \<notin> set (map in_channel_id ints)"
      using False dist unfolding ints by auto
    ultimately show ?thesis using fold_mark_other by simp
  qed
  ultimately show ?thesis using dist unfolding ints by blast
qed

theorem tick_hold_memory_witness:
  "\<exists>ints. due (\<lambda>z t. 0) slewing_scheduler (Aware 110) [(''blue'', \<lparr>ht_duty = 1, ht_transition = Snap\<rparr>)] = Inr ints
     \<and> map_of (sc_last_hold (fold (\<lambda>i. mark_emitted i 110) ints slewing_scheduler)) ''blue'' = Some Snap"
proof -
  let ?held = "[(''blue'', \<lparr>ht_duty = 1, ht_transition = Snap\<rparr>)]"
  have "distinct (channel_ids (sc_profiles slewing_scheduler))"
    by (simp add: slewing_scheduler_def channel_ids_def)
  note m = tick_hold_memory [OF this due_decided, where t = 110 and now = 110 and held = ?held and off = "\<lambda>z t. 0"]
  have "map_of ?held ''blue'' = Some \<lparr>ht_duty = 1, ht_transition = Snap\<rparr>" by simp
  with m show ?thesis unfolding due_decided by (metis held_target.select_convs(2))
qed

lemma emit_forgotten:
  "sc_slew sc = Some rate \<Longrightarrow>
     emit_for (forget c sc) c r now None = Some (Intent c SAFE_DUTY ''initial'' None (SAFE_DUTY \<noteq> r))"
  by (simp add: emit_for_def plan_def previous_of_def elapsed_of_def forget_def limit_def SAFE_DUTY_def)

lemma decided_profile:
  "p \<in> set (sc_profiles sc) \<Longrightarrow> (cp_channel_id p, emit_for sc (cp_channel_id p)
     (duty_at_second (cp_points p) (local_second off (cp_zone p) now)) now
     (map_of held (cp_channel_id p))) \<in> set (decided off sc now held)"
  by (simp add: decided_def)

text \<open>
  Cold starts are dark. After \<open>forget\<close> (a tombstone, or hardware that moved on its own)
  the next intent of a profiled, unheld channel is its initial one, and with a slew rate
  configured it asks for the safe duty, whatever the curve says at that moment.
\<close>

theorem forget_cold_start:
  assumes "slew_ok sc" "sc_slew sc = Some rate"
    and "p \<in> set (sc_profiles sc)" "distinct (channel_ids (sc_profiles sc))"
    and "map_of held (cp_channel_id p) = None"
  shows "\<exists>ints. due off (forget (cp_channel_id p) sc) (Aware now) held = Inr ints
    \<and> Intent (cp_channel_id p) SAFE_DUTY ''initial'' None
        (Inr SAFE_DUTY \<noteq> duty_at off p (Aware now)) \<in> set ints
    \<and> (\<forall>i \<in> set ints. in_channel_id i = cp_channel_id p \<longrightarrow>
         in_duty i = SAFE_DUTY \<and> in_reason i = ''initial'')"
proof -
  let ?c = "cp_channel_id p" and ?sc = "forget (cp_channel_id p) sc"
  define r where "r = duty_at_second (cp_points p) (local_second off (cp_zone p) now)"
  define i0 where "i0 = Intent ?c SAFE_DUTY ''initial'' None (SAFE_DUTY \<noteq> r)"
  have r: "duty_at off p (Aware now) = Inr r" by (simp add: r_def)
  have e: "emit_for ?sc ?c r now None = Some i0" using assms(2) by (simp add: i0_def emit_forgotten)
  have "(?c, emit_for ?sc ?c r now None) \<in> set (decided off ?sc now held)"
    using decided_profile [of p ?sc off now held] assms(3,5) by (simp add: r_def forget_def)
  then have D: "(?c, Some i0) \<in> set (decided off ?sc now held)" unfolding e .
  have dist: "distinct (map fst (decided off ?sc now held))"
    using assms(4) by (intro decided_distinct) (simp add: forget_def)
  have uniq: "i = i0" if h: "Some i \<in> set (map snd (decided off ?sc now held))" "in_channel_id i = ?c" for i
  proof -
    from h(1) obtain c where c: "(c, Some i) \<in> set (decided off ?sc now held)" by auto
    from decided_emit [OF c] obtain resting where
      "emit_for ?sc c resting now (map_of held c) = Some i" by auto
    from emit_for_Some [OF this] h(2) have "c = ?c" by simp
    from eq_key_imp_eq_value [OF dist D] c this show ?thesis by auto
  qed
  have "i0 \<in> set (somes (map snd (decided off ?sc now held)))"
    unfolding set_somes using imageI [OF D, of snd] by simp
  moreover have "in_duty i = SAFE_DUTY \<and> in_reason i = ''initial''"
    if "i \<in> set (somes (map snd (decided off ?sc now held)))" "in_channel_id i = ?c" for i
    using uniq [of i] that by (simp add: set_somes i0_def)
  moreover have "(Inr SAFE_DUTY \<noteq> duty_at off p (Aware now)) = (SAFE_DUTY \<noteq> r)"
    unfolding r by simp
  ultimately show ?thesis
    unfolding due_decided i0_def
    by (intro exI [of _ "somes (map snd (decided off ?sc now held))"]) simp
qed

theorem forget_cold_start_witness:
  "\<exists>ints. due (\<lambda>z t. 0) (forget ''blue'' (slewing_scheduler\<lparr>sc_profiles := [sample_profile]\<rparr>)) (Aware 43200) [] = Inr ints
     \<and> (\<exists>i \<in> set ints. in_duty i = 0 \<and> in_reason i = ''initial'')"
proof -
  let ?sc = "slewing_scheduler\<lparr>sc_profiles := [sample_profile]\<rparr>"
  have h: "slew_ok ?sc" "sc_slew ?sc = Some (1/100)" "sample_profile \<in> set (sc_profiles ?sc)"
    "distinct (channel_ids (sc_profiles ?sc))" "map_of [] (cp_channel_id sample_profile) = None"
    and c: "cp_channel_id sample_profile = ''blue''"
    by (simp_all add: slewing_scheduler_def slew_ok_def channel_ids_def sample_profile_def)
  from forget_cold_start [OF h, of "\<lambda>z t. 0" 43200] obtain ints where
    i: "due (\<lambda>z t. 0) (forget ''blue'' ?sc) (Aware 43200) [] = Inr ints"
      "Intent ''blue'' SAFE_DUTY ''initial'' None
        (Inr SAFE_DUTY \<noteq> duty_at (\<lambda>z t. 0) sample_profile (Aware 43200)) \<in> set ints"
    unfolding c by blast
  show ?thesis
    by (rule exI [of _ ints], intro conjI bexI [OF _ i(2)]) (simp_all only: i(1) Intent_simps SAFE_DUTY_def)
qed

end
