(* ===== verification/Alerts.thy ===== *)
theory Alerts
  imports Contracts
begin

text \<open>
  Threshold alerts and the silence alarm,
  \<open>services/control_engine/bellasreef_control_engine/alerts.py\<close>, with the episodes table
  behind them, \<open>db/bellasreef_db/alerts.py\<close>. The two protocols the supervisor and the
  watcher are constructed with (\<open>AlertStore\<close>, \<open>SilenceStore\<close>) are records of functions,
  the publish callable a function that may raise; the contracts the stores promise are
  locales, interpreted on the Postgres store.
\<close>

section \<open>Thresholds with hysteresis\<close>

record thresholds =
  th_minimum :: "rat option"
  th_maximum :: "rat option"
  th_clear_margin :: rat

definition both_bounds :: "(rat \<Rightarrow> rat \<Rightarrow> bool) \<Rightarrow> thresholds \<Rightarrow> bool" where
  "both_bounds P t =
     (case th_minimum t of None \<Rightarrow> True
      | Some lo \<Rightarrow> (case th_maximum t of None \<Rightarrow> True | Some hi \<Rightarrow> P lo hi))"

definition validate_thresholds :: "thresholds \<Rightarrow> thresholds result" where
  "validate_thresholds t = validated
     [(\<not> th_clear_margin t \<le> 0, ValueError ''clear_margin must be > 0''),
      (both_bounds (\<lambda>lo hi. \<not> hi \<le> lo) t, ValueError ''minimum must be below maximum''),
      (both_bounds (\<lambda>lo hi. \<not> hi - th_clear_margin t \<le> lo + th_clear_margin t) t,
       ValueError ''clear_margin is wider than half the band'')] t"

definition configured :: "thresholds \<Rightarrow> bool" where
  "configured t = (th_minimum t \<noteq> None \<or> th_maximum t \<noteq> None)"

record change =
  ch_bound :: alert_bound
  ch_state :: alert_state
  ch_value :: rat
  ch_threshold :: rat

definition Change :: "alert_bound \<Rightarrow> alert_state \<Rightarrow> rat \<Rightarrow> rat \<Rightarrow> change" where
  "Change b s v t = \<lparr>ch_bound = b, ch_state = s, ch_value = v, ch_threshold = t\<rparr>"

lemma Change_simps [simp]:
  "ch_bound (Change b s v t) = b" "ch_state (Change b s v t) = s"
  "ch_value (Change b s v t) = v" "ch_threshold (Change b s v t) = t"
  by (simp_all add: Change_def)

definition evaluate :: "rat \<Rightarrow> thresholds \<Rightarrow> alert_bound set \<Rightarrow> change list" where
  "evaluate value t open_bounds =
     (case th_minimum t of None \<Rightarrow> []
      | Some lo \<Rightarrow>
          if Min \<notin> open_bounds \<and> value < lo then [Change Min Breach value lo]
          else if Min \<in> open_bounds \<and> lo + th_clear_margin t \<le> value then [Change Min Clear value lo]
          else [])
     @ (case th_maximum t of None \<Rightarrow> []
      | Some hi \<Rightarrow>
          if Max \<notin> open_bounds \<and> hi < value then [Change Max Breach value hi]
          else if Max \<in> open_bounds \<and> value \<le> hi - th_clear_margin t then [Change Max Clear value hi]
          else [])"

definition should_evaluate :: "sensor_reading \<Rightarrow> bool" where
  "should_evaluate r = (sr_quality r = Ok \<and> sr_value r \<noteq> None)"

section \<open>The episodes table\<close>

datatype alert_class = ThresholdClass | SilenceClass

record episode =
  ep_id :: uuid
  ep_device :: string
  ep_sensor_type :: string
  ep_class :: alert_class
  ep_bound :: "string option"
  ep_threshold :: "rat option"
  ep_clear_margin :: "rat option"
  ep_unit :: "string option"
  ep_raised_at :: instant
  ep_raised_value :: "rat option"
  ep_last_reading_at :: "instant option"
  ep_cleared_at :: "instant option"
  ep_cleared_value :: "rat option"

record sensor_device =
  sd_device :: string
  sd_is_sensor :: bool
  sd_poll_interval_s :: "rat option"
  sd_enabled :: bool
  sd_alert_min :: "rat option"
  sd_alert_max :: "rat option"
  sd_alert_clear_margin :: "rat option"

record alert_db =
  adb_episodes :: "episode list"
  adb_devices :: "sensor_device list"

definition bound_text :: "alert_bound \<Rightarrow> string" where
  "bound_text b = (case b of Min \<Rightarrow> ''min'' | Max \<Rightarrow> ''max'')"

definition ep_open :: "episode \<Rightarrow> bool" where
  "ep_open e = (ep_cleared_at e = None)"

text \<open>The table's \<open>CHECK\<close> constraints and its partial unique index.\<close>

definition episode_check :: "episode \<Rightarrow> bool" where
  "episode_check e =
     ((ep_class e = ThresholdClass \<longrightarrow>
         ep_bound e \<in> {Some ''min'', Some ''max''} \<and> ep_threshold e \<noteq> None \<and> ep_clear_margin e \<noteq> None
         \<and> ep_unit e \<noteq> None \<and> ep_raised_value e \<noteq> None)
      \<and> (ep_class e = SilenceClass \<longrightarrow>
         ep_bound e = None \<and> ep_threshold e = None \<and> ep_clear_margin e = None \<and> ep_raised_value e = None)
      \<and> (ep_cleared_at e = None \<longleftrightarrow> ep_cleared_value e = None)
      \<and> opt_ok (\<lambda>c. ep_raised_at e \<le> c) (ep_cleared_at e))"

definition open_key :: "string \<Rightarrow> alert_class \<Rightarrow> string option \<Rightarrow> episode \<Rightarrow> bool" where
  "open_key d k b e = (ep_device e = d \<and> ep_class e = k \<and> ep_bound e = b \<and> ep_open e)"

definition insert_episode :: "episode \<Rightarrow> alert_db \<Rightarrow> alert_db result" where
  "insert_episode e db =
     (if \<not> episode_check e then Inl (IntegrityError ''sensor_alerts check'')
      else if ep_open e \<and> list_ex (open_key (ep_device e) (ep_class e) (ep_bound e)) (adb_episodes db)
      then Inl (IntegrityError ''uq_sensor_alerts_one_active_per_class_bound'')
      else Inr (db\<lparr>adb_episodes := adb_episodes db @ [e]\<rparr>))"

text \<open>\<open>UPDATE sensor_alerts SET cleared_at, cleared_value WHERE P\<close>, with its constraints.\<close>

definition close_episodes ::
    "instant \<Rightarrow> rat \<Rightarrow> string \<Rightarrow> (episode \<Rightarrow> bool) \<Rightarrow> alert_db \<Rightarrow> alert_db result" where
  "close_episodes at' value what P db =
     (let close = (\<lambda>e. if P e then e\<lparr>ep_cleared_at := Some at', ep_cleared_value := Some value\<rparr> else e)
      in if \<not> list_all episode_check (map close (adb_episodes db))
         then Inl (IntegrityError ''cleared_after_raised'')
         else if \<not> list_ex P (adb_episodes db) then Inl (AlertStoreError what)
         else Inr (db\<lparr>adb_episodes := map close (adb_episodes db)\<rparr>))"

section \<open>The store\<close>

definition open_bounds :: "alert_db \<Rightarrow> (string \<rightharpoonup> string option set)" where
  "open_bounds db = (\<lambda>d.
     let rows = filter (\<lambda>e. ep_device e = d \<and> ep_open e \<and> ep_class e = ThresholdClass) (adb_episodes db)
     in if rows = [] then None else Some (ep_bound ` set rows))"

definition raise_episode :: "uuid \<Rightarrow> sensor_alert \<Rightarrow> alert_db \<Rightarrow> alert_db result" where
  "raise_episode fresh a =
     insert_episode \<lparr>ep_id = fresh, ep_device = sa_device_id a, ep_sensor_type = sa_sensor_type a,
       ep_class = ThresholdClass, ep_bound = Some (bound_text (sa_bound a)),
       ep_threshold = Some (sa_threshold a), ep_clear_margin = Some (sa_clear_margin a),
       ep_unit = Some (sa_unit a), ep_raised_at = emitted_at a, ep_raised_value = Some (sa_value a),
       ep_last_reading_at = None, ep_cleared_at = None, ep_cleared_value = None\<rparr>"

definition clear_episode :: "sensor_alert \<Rightarrow> alert_db \<Rightarrow> alert_db result" where
  "clear_episode a =
     close_episodes (emitted_at a) (sa_value a) ''no open episode''
       (open_key (sa_device_id a) ThresholdClass (Some (bound_text (sa_bound a))))"

definition open_silences :: "alert_db \<Rightarrow> string set" where
  "open_silences db =
     ep_device ` set (filter (\<lambda>e. ep_open e \<and> ep_class e = SilenceClass) (adb_episodes db))"

definition raise_silence ::
    "uuid \<Rightarrow> string \<Rightarrow> string \<Rightarrow> instant \<Rightarrow> instant option \<Rightarrow> alert_db \<Rightarrow> alert_db result" where
  "raise_silence fresh d sensor_type' at' last_reading_at =
     insert_episode \<lparr>ep_id = fresh, ep_device = d, ep_sensor_type = sensor_type',
       ep_class = SilenceClass, ep_bound = None, ep_threshold = None, ep_clear_margin = None,
       ep_unit = None, ep_raised_at = at', ep_raised_value = None,
       ep_last_reading_at = last_reading_at, ep_cleared_at = None, ep_cleared_value = None\<rparr>"

definition clear_silence :: "string \<Rightarrow> instant \<Rightarrow> rat \<Rightarrow> alert_db \<Rightarrow> alert_db result" where
  "clear_silence d at' value =
     close_episodes at' value ''no open silence''
       (\<lambda>e. ep_device e = d \<and> ep_class e = SilenceClass \<and> ep_open e)"

definition cadences :: "alert_db \<Rightarrow> (string \<times> rat) list" where
  "cadences db = somes (map (\<lambda>r. map_option (Pair (sd_device r)) (sd_poll_interval_s r))
     (filter (\<lambda>r. sd_is_sensor r \<and> sd_enabled r) (adb_devices db)))"

definition configured_bands :: "alert_db \<Rightarrow> (string \<times> rat option \<times> rat option \<times> rat) list" where
  "configured_bands db =
     map (\<lambda>r. (sd_device r, sd_alert_min r, sd_alert_max r,
            case sd_alert_clear_margin r of None \<Rightarrow> 0 | Some m \<Rightarrow> m))
       (filter (\<lambda>r. sd_is_sensor r \<and> (sd_alert_min r \<noteq> None \<or> sd_alert_max r \<noteq> None)) (adb_devices db))"

text \<open>The API's reads: newest first.\<close>

definition active_episodes :: "alert_db \<Rightarrow> episode list" where
  "active_episodes db = sort_key (\<lambda>e. - ep_raised_at e) (filter ep_open (adb_episodes db))"

definition recent_episodes :: "nat \<Rightarrow> alert_db \<Rightarrow> episode list" where
  "recent_episodes n db = take n (sort_key (\<lambda>e. - ep_raised_at e) (adb_episodes db))"

section \<open>The supervisor\<close>

text \<open>The protocol the supervisor is constructed with; the UUID is the row's fresh id.\<close>

record 'db alert_store_ops =
  aso_open_bounds :: "'db \<Rightarrow> (string \<rightharpoonup> string option set)"
  aso_raise :: "uuid \<Rightarrow> sensor_alert \<Rightarrow> 'db \<Rightarrow> 'db result"
  aso_clear :: "sensor_alert \<Rightarrow> 'db \<Rightarrow> 'db result"

definition postgres_alert_store :: "alert_db alert_store_ops" where
  "postgres_alert_store =
     \<lparr>aso_open_bounds = open_bounds, aso_raise = raise_episode, aso_clear = clear_episode\<rparr>"

type_synonym ('msg, 'bus) publish = "string \<Rightarrow> 'msg \<Rightarrow> 'bus \<Rightarrow> py_error option \<times> 'bus"

text \<open>
  What the environment supplies to the \<open>n\<close>-th message of a call: its message id, the fresh
  row id and the wall clock.
\<close>

record env =
  env_mid :: "nat \<Rightarrow> uuid"
  env_row :: "nat \<Rightarrow> uuid"
  env_now :: "nat \<Rightarrow> instant"

text \<open>
  The mirror is \<open>_open\<close>. \<open>resync\<close> replaces the dictionary and every set in it while a
  reading may be suspended on the store with a reference to an old set; \<open>su_gen\<close> counts the
  replacements, so a reference taken in an older generation no longer reaches the mirror.
\<close>

record ('db, 'bus) alert_supervisor =
  su_open :: "string \<rightharpoonup> alert_bound set"
  su_gen :: nat
  su_db :: 'db
  su_bus :: 'bus

definition bounds_of :: "(string \<rightharpoonup> alert_bound set) \<Rightarrow> string \<Rightarrow> alert_bound set" where
  "bounds_of m d = (case m d of None \<Rightarrow> {} | Some bs \<Rightarrow> bs)"

text \<open>\<open>_load_open\<close>: unknown bounds are logged and dropped.\<close>

definition load_open :: "(string \<rightharpoonup> string option set) \<Rightarrow> (string \<rightharpoonup> alert_bound set)" where
  "load_open stored = (\<lambda>d. case stored d of None \<Rightarrow> None
     | Some bs \<Rightarrow>
         (let known = Set.filter (\<lambda>b. Some (bound_text b) \<in> bs) {Min, Max}
          in if known = {} then None else Some known))"

definition prime_supervisor ::
    "'db alert_store_ops \<Rightarrow> ('db, 'bus) alert_supervisor \<Rightarrow> ('db, 'bus) alert_supervisor" where
  "prime_supervisor S su =
     su\<lparr>su_open := load_open (aso_open_bounds S (su_db su)), su_gen := Suc (su_gen su)\<rparr>"

text \<open>\<open>resync\<close>: \<open>before\<close> was copied when it began, \<open>fresh\<close> is what the read returned.\<close>

definition resync_merge ::
    "(string \<rightharpoonup> alert_bound set) \<Rightarrow> (string \<rightharpoonup> alert_bound set) \<Rightarrow> (string \<rightharpoonup> alert_bound set)
       \<Rightarrow> (string \<rightharpoonup> alert_bound set)" where
  "resync_merge before fresh after = (\<lambda>d.
     let raised = bounds_of after d - bounds_of before d;
         cleared = bounds_of before d - bounds_of after d;
         fresh1 = (if raised = {} then fresh d else Some (bounds_of fresh d \<union> raised));
         fresh2 = map_option (\<lambda>bs. bs - cleared) fresh1
     in case fresh2 of None \<Rightarrow> None | Some bs \<Rightarrow> if bs = {} then None else Some bs)"

definition resync_finish ::
    "(string \<rightharpoonup> alert_bound set) \<Rightarrow> (string \<rightharpoonup> string option set)
       \<Rightarrow> ('db, 'bus) alert_supervisor \<Rightarrow> ('db, 'bus) alert_supervisor" where
  "resync_finish before rows su =
     su\<lparr>su_open := resync_merge before (load_open rows) (su_open su), su_gen := Suc (su_gen su)\<rparr>"

definition resync ::
    "'db alert_store_ops \<Rightarrow> ('db, 'bus) alert_supervisor \<Rightarrow> ('db, 'bus) alert_supervisor" where
  "resync S su = resync_finish (su_open su) (aso_open_bounds S (su_db su)) su"

text \<open>The alert one change becomes.\<close>

definition build_alert ::
    "uuid \<Rightarrow> instant \<Rightarrow> string \<Rightarrow> sensor_reading \<Rightarrow> thresholds \<Rightarrow> change \<Rightarrow> sensor_alert result" where
  "build_alert mid now src r t ch = validate_sensor_alert
     \<lparr>schema_version = SCHEMA_VERSION, message_id = mid, emitted_at = now, source = src,
      sa_device_id = sr_sensor_id r, sa_sensor_type = sr_sensor_type r, sa_state = ch_state ch,
      sa_bound = ch_bound ch, sa_value = ch_value ch, sa_threshold = ch_threshold ch,
      sa_clear_margin = th_clear_margin t, sa_unit = sr_unit r\<rparr>"

text \<open>The store write of a change, and the mirror's update once the write has returned.\<close>

definition record_change ::
    "'db alert_store_ops \<Rightarrow> uuid \<Rightarrow> sensor_alert \<Rightarrow> 'db \<Rightarrow> 'db result" where
  "record_change S row a db =
     (if sa_state a = Breach then aso_raise S row a db else aso_clear S a db)"

definition mirror_change ::
    "nat \<Rightarrow> sensor_alert \<Rightarrow> ('db, 'bus) alert_supervisor \<Rightarrow> ('db, 'bus) alert_supervisor" where
  "mirror_change gen a su =
     (if gen \<noteq> su_gen su then su
      else su\<lparr>su_open := (su_open su)(sa_device_id a \<mapsto>
             (if sa_state a = Breach then insert (sa_bound a) (bounds_of (su_open su) (sa_device_id a))
              else bounds_of (su_open su) (sa_device_id a) - {sa_bound a}))\<rparr>)"

fun apply_changes ::
    "'db alert_store_ops \<Rightarrow> (sensor_alert, 'bus) publish \<Rightarrow> env \<Rightarrow> string \<Rightarrow> sensor_reading
       \<Rightarrow> thresholds \<Rightarrow> nat \<Rightarrow> change list \<Rightarrow> ('db, 'bus) alert_supervisor
       \<Rightarrow> sensor_alert list result \<times> ('db, 'bus) alert_supervisor" where
  "apply_changes S pub env src r t n [] su = (Inr [], su)"
| "apply_changes S pub env src r t n (ch # rest) su =
     (case build_alert (env_mid env n) (env_now env n) src r t ch of
        Inl e \<Rightarrow> (Inl e, su)
      | Inr a \<Rightarrow>
         (case record_change S (env_row env n) a (su_db su) of
            Inl e \<Rightarrow> (Inl e, su)
          | Inr db' \<Rightarrow>
             (let su1 = mirror_change (su_gen su) a (su\<lparr>su_db := db'\<rparr>) in
              case alert (sr_sensor_id r) of
                Inl e \<Rightarrow> (Inl e, su1)
              | Inr subj \<Rightarrow>
                 (case pub subj a (su_bus su1) of
                    (Some e, bus) \<Rightarrow> (Inl e, su1\<lparr>su_bus := bus\<rparr>)
                  | (None, bus) \<Rightarrow>
                     (case apply_changes S pub env src r t (Suc n) rest (su1\<lparr>su_bus := bus\<rparr>) of
                        (Inl e, su2) \<Rightarrow> (Inl e, su2)
                      | (Inr as, su2) \<Rightarrow> (Inr (a # as), su2))))))"

definition supervisor_on_reading ::
    "'db alert_store_ops \<Rightarrow> (sensor_alert, 'bus) publish \<Rightarrow> env \<Rightarrow> string \<Rightarrow> sensor_reading
       \<Rightarrow> thresholds \<Rightarrow> ('db, 'bus) alert_supervisor \<Rightarrow> sensor_alert list result \<times> ('db, 'bus) alert_supervisor" where
  "supervisor_on_reading S pub env src r t su =
     (case sr_value r of
        None \<Rightarrow> (Inr [], su)
      | Some value \<Rightarrow>
          if \<not> should_evaluate r \<or> \<not> configured t then (Inr [], su)
          else
            let held = bounds_of (su_open su) (sr_sensor_id r) in
            apply_changes S pub env src r t 0 (evaluate value t held)
              (su\<lparr>su_open := (su_open su)(sr_sensor_id r \<mapsto> held)\<rparr>))"

section \<open>The silence watcher\<close>

definition SILENCE_CADENCE_MULTIPLE :: rat where "SILENCE_CADENCE_MULTIPLE = 6"
definition SILENCE_FLOOR_S :: rat where "SILENCE_FLOOR_S = 30"

definition silence_deadline_s :: "rat \<Rightarrow> rat" where
  "silence_deadline_s cadence_s = max (cadence_s * SILENCE_CADENCE_MULTIPLE) SILENCE_FLOOR_S"

record 'db silence_store_ops =
  sso_cadences :: "'db \<Rightarrow> (string \<times> rat) list"
  sso_open_silences :: "'db \<Rightarrow> string set"
  sso_raise :: "uuid \<Rightarrow> string \<Rightarrow> string \<Rightarrow> instant \<Rightarrow> instant option \<Rightarrow> 'db \<Rightarrow> 'db result"
  sso_clear :: "string \<Rightarrow> instant \<Rightarrow> rat \<Rightarrow> 'db \<Rightarrow> 'db result"

definition postgres_silence_store :: "alert_db silence_store_ops" where
  "postgres_silence_store =
     \<lparr>sso_cadences = cadences, sso_open_silences = open_silences,
      sso_raise = raise_silence, sso_clear = clear_silence\<rparr>"

record ('db, 'bus) watcher =
  sw_last_seen :: "string \<rightharpoonup> instant"
  sw_sensor_types :: "string \<rightharpoonup> string"
  sw_silent :: "string set"
  sw_db :: 'db
  sw_bus :: 'bus

definition prime_watcher ::
    "'db silence_store_ops \<Rightarrow> instant \<Rightarrow> ('db, 'bus) watcher \<Rightarrow> ('db, 'bus) watcher" where
  "prime_watcher S now w =
     w\<lparr>sw_silent := sso_open_silences S (sw_db w),
       sw_last_seen := (\<lambda>d. case sw_last_seen w d of
           Some t \<Rightarrow> Some t
         | None \<Rightarrow> if d \<in> fst ` set (sso_cadences S (sw_db w)) then Some now else None)\<rparr>"

definition is_silent :: "string \<Rightarrow> ('db, 'bus) watcher \<Rightarrow> bool" where
  "is_silent d w = (d \<in> sw_silent w)"

definition emit_silence ::
    "(sensor_silence, 'bus) publish \<Rightarrow> uuid \<Rightarrow> string \<Rightarrow> string \<Rightarrow> alert_state \<Rightarrow> rat \<Rightarrow> rat
       \<Rightarrow> instant option \<Rightarrow> instant \<Rightarrow> ('db, 'bus) watcher
       \<Rightarrow> unit result \<times> ('db, 'bus) watcher" where
  "emit_silence pub mid d ty st silent_for threshold last_reading_at at' w =
     (case silence d of
        Inl e \<Rightarrow> (Inl e, w)
      | Inr subj \<Rightarrow>
         (case validate_sensor_silence
             \<lparr>schema_version = SCHEMA_VERSION, message_id = mid, emitted_at = at',
              source = ''control-engine'', ss_device_id = d, ss_sensor_type = ty, ss_state = st,
              ss_silent_for_s = silent_for, ss_silence_threshold_s = threshold,
              ss_last_reading_at = last_reading_at\<rparr> of
            Inl e \<Rightarrow> (Inl e, w)
          | Inr msg \<Rightarrow>
             (case pub subj msg (sw_bus w) of
                (Some e, bus) \<Rightarrow> (Inl e, w\<lparr>sw_bus := bus\<rparr>)
              | (None, bus) \<Rightarrow> (Inr (), w\<lparr>sw_bus := bus\<rparr>))))"

definition watcher_on_reading ::
    "'db silence_store_ops \<Rightarrow> (sensor_silence, 'bus) publish \<Rightarrow> uuid \<Rightarrow> instant \<Rightarrow> sensor_reading
       \<Rightarrow> ('db, 'bus) watcher \<Rightarrow> unit result \<times> ('db, 'bus) watcher" where
  "watcher_on_reading S pub mid at' r w =
     (case sr_value r of
        None \<Rightarrow> (Inr (), w)
      | Some value \<Rightarrow>
          if \<not> should_evaluate r then (Inr (), w)
          else
            let d = sr_sensor_id r;
                w1 = w\<lparr>sw_last_seen := (sw_last_seen w)(d \<mapsto> at'),
                       sw_sensor_types := (sw_sensor_types w)(d \<mapsto> sr_sensor_type r)\<rparr>
            in if d \<notin> sw_silent w1 then (Inr (), w1)
               else case sso_clear S d at' value (sw_db w1) of
                 Inl e \<Rightarrow> (Inl e, w1)
               | Inr db' \<Rightarrow>
                   (let w2 = w1\<lparr>sw_db := db', sw_silent := sw_silent w1 - {d}\<rparr>;
                        cadence = map_of (sso_cadences S db') d;
                        threshold = (case cadence of
                            None \<Rightarrow> SILENCE_FLOOR_S
                          | Some c \<Rightarrow> if c = 0 then SILENCE_FLOOR_S else silence_deadline_s c)
                    in emit_silence pub mid d (sr_sensor_type r) Clear 0 threshold (Some at') at' w2))"

text \<open>One turn of the sweep's loop, and the loop; the first exception ends it.\<close>

definition sweep_one ::
    "'db silence_store_ops \<Rightarrow> (sensor_silence, 'bus) publish \<Rightarrow> (string \<Rightarrow> uuid) \<Rightarrow> (string \<Rightarrow> uuid)
       \<Rightarrow> instant \<Rightarrow> string \<times> rat \<Rightarrow> ('db, 'bus) watcher \<Rightarrow> unit result \<times> ('db, 'bus) watcher" where
  "sweep_one S pub mid row at' dc w =
     (let d = fst dc; deadline = silence_deadline_s (snd dc) in
      if d \<in> sw_silent w then (Inr (), w)
      else case sw_last_seen w d of
        None \<Rightarrow> (Inr (), w)
      | Some seen \<Rightarrow>
          if at' - seen < deadline then (Inr (), w)
          else
            let ty = (case sw_sensor_types w d of None \<Rightarrow> ''unknown'' | Some ty \<Rightarrow> ty) in
            case sso_raise S (row d) d ty at' (Some seen) (sw_db w) of
              Inl e \<Rightarrow> (Inl e, w)
            | Inr db' \<Rightarrow>
                emit_silence pub (mid d) d ty Breach (at' - seen) deadline (Some seen) at'
                  (w\<lparr>sw_db := db', sw_silent := insert d (sw_silent w)\<rparr>))"

fun sweep_loop ::
    "'db silence_store_ops \<Rightarrow> (sensor_silence, 'bus) publish \<Rightarrow> (string \<Rightarrow> uuid) \<Rightarrow> (string \<Rightarrow> uuid)
       \<Rightarrow> instant \<Rightarrow> (string \<times> rat) list \<Rightarrow> ('db, 'bus) watcher \<Rightarrow> unit result \<times> ('db, 'bus) watcher" where
  "sweep_loop S pub mid row at' [] w = (Inr (), w)"
| "sweep_loop S pub mid row at' (dc # rest) w =
     (case sweep_one S pub mid row at' dc w of
        (Inl e, w1) \<Rightarrow> (Inl e, w1)
      | (Inr _, w1) \<Rightarrow> sweep_loop S pub mid row at' rest w1)"

definition sweep ::
    "'db silence_store_ops \<Rightarrow> (sensor_silence, 'bus) publish \<Rightarrow> (string \<Rightarrow> uuid) \<Rightarrow> (string \<Rightarrow> uuid)
       \<Rightarrow> instant \<Rightarrow> ('db, 'bus) watcher \<Rightarrow> unit result \<times> ('db, 'bus) watcher" where
  "sweep S pub mid row at' w = sweep_loop S pub mid row at' (sso_cadences S (sw_db w)) w"

section \<open>Evaluating one reading\<close>


definition open_after :: "alert_bound set \<Rightarrow> change list \<Rightarrow> alert_bound set" where
  "open_after held chs = fold (\<lambda>ch bs. if ch_state ch = Breach then insert (ch_bound ch) bs
     else bs - {ch_bound ch}) chs held"

lemma open_after_simps [simp]:
  "open_after held [] = held"
  "open_after held (ch # chs) = open_after (if ch_state ch = Breach then insert (ch_bound ch) held
     else held - {ch_bound ch}) chs"
  by (simp_all add: open_after_def)

lemma open_after_append [simp]: "open_after held (xs @ ys) = open_after (open_after held xs) ys"
  by (simp add: open_after_def)

lemma validate_thresholds_Inr:
  "validate_thresholds t = Inr t' \<longleftrightarrow> t' = t \<and> 0 < th_clear_margin t
     \<and> both_bounds (\<lambda>lo hi. lo < hi \<and> lo + th_clear_margin t < hi - th_clear_margin t) t"
  by (auto simp: validate_thresholds_def validated_Inr both_bounds_def not_le split: option.splits)

text \<open>The bound a side is compared with, and what makes that side breach or clear.\<close>

definition threshold_of :: "thresholds \<Rightarrow> alert_bound \<Rightarrow> rat option" where
  "threshold_of t b = (case b of Min \<Rightarrow> th_minimum t | Max \<Rightarrow> th_maximum t)"

definition breaches :: "thresholds \<Rightarrow> alert_bound \<Rightarrow> rat \<Rightarrow> bool" where
  "breaches t b v = (case threshold_of t b of None \<Rightarrow> False
     | Some x \<Rightarrow> (case b of Min \<Rightarrow> v < x | Max \<Rightarrow> x < v))"

definition recovers :: "thresholds \<Rightarrow> alert_bound \<Rightarrow> rat \<Rightarrow> bool" where
  "recovers t b v = (case threshold_of t b of None \<Rightarrow> False
     | Some x \<Rightarrow> (case b of Min \<Rightarrow> x + th_clear_margin t \<le> v | Max \<Rightarrow> v \<le> x - th_clear_margin t))"

lemmas side_defs = threshold_of_def breaches_def recovers_def

lemma evaluate_mem:
  "ch \<in> set (evaluate v t held) \<longleftrightarrow>
     ch_value ch = v \<and> threshold_of t (ch_bound ch) = Some (ch_threshold ch)
     \<and> (if ch_state ch = Breach then ch_bound ch \<notin> held \<and> breaches t (ch_bound ch) v
        else ch_bound ch \<in> held \<and> recovers t (ch_bound ch) v)"
proof -
  have "(ch = Change b s w x) = (ch_bound ch = b \<and> ch_state ch = s \<and> ch_value ch = w \<and> ch_threshold ch = x)"
    for b s w x by (cases ch) (auto simp: Change_def)
  then show ?thesis
    by (cases "ch_bound ch"; cases "ch_state ch"; cases "th_minimum t"; cases "th_maximum t")
      (auto simp: evaluate_def side_defs)
qed

lemma evaluate_bounds_distinct: "distinct (map ch_bound (evaluate v t held))"
  by (auto simp: evaluate_def split: option.splits)

lemma open_after_evaluate:
  assumes "0 < th_clear_margin t"
  shows "open_after held (evaluate v t held) =
     {b. (b \<in> held \<and> \<not> recovers t b v) \<or> (b \<notin> held \<and> breaches t b v)}"
  using assms
  apply (intro set_eqI)
  subgoal for b
  by (cases b; cases "th_minimum t"; cases "th_maximum t")
    (auto simp: evaluate_def side_defs)
  done


section \<open>The contract of the stores\<close>

text \<open>A publisher that never raises.\<close>

definition reliable :: "('msg, 'bus) publish \<Rightarrow> bool" where
  "reliable pub = (\<forall>s m b. fst (pub s m b) = None)"

lemma reliable_fails [simp]: "pub s m b = (Some e, b') \<Longrightarrow> reliable pub = False"
  unfolding reliable_def by (metis fst_conv option.simps(3))

definition recorded :: "'db alert_store_ops \<Rightarrow> 'db \<Rightarrow> string \<Rightarrow> alert_bound set" where
  "recorded S db = bounds_of (load_open (aso_open_bounds S db))"

definition mirrors :: "'db alert_store_ops \<Rightarrow> ('db, 'bus) alert_supervisor \<Rightarrow> bool" where
  "mirrors S su = (bounds_of (su_open su) = recorded S (su_db su))"

definition change_fits :: "alert_bound set \<Rightarrow> change \<Rightarrow> bool" where
  "change_fits held ch = (ch_state ch = Breach \<longleftrightarrow> ch_bound ch \<notin> held)"

lemma bounds_of_put [simp]: "bounds_of (m(d \<mapsto> bs)) = (bounds_of m)(d := bs)"
  by (rule ext) (simp add: bounds_of_def)

lemma build_alert_Inr:
  "build_alert mid now src r t ch = Inr a \<Longrightarrow>
     sa_device_id a = sr_sensor_id r \<and> sa_bound a = ch_bound ch \<and> sa_state a = ch_state ch
     \<and> emitted_at a = now \<and> sa_value a = ch_value ch \<and> validate_sensor_alert a = Inr a"
  by (auto simp: build_alert_def validate_sensor_alert_def validated_Inr)

lemma mirror_change_simps [simp]:
  "su_db (mirror_change g a su) = su_db su" "su_bus (mirror_change g a su) = su_bus su"
  "su_gen (mirror_change g a su) = su_gen su"
  by (auto simp: mirror_change_def)

locale alert_store =
  fixes S :: "'db alert_store_ops" and ok :: "'db \<Rightarrow> bool" and raised_by :: "'db \<Rightarrow> instant \<Rightarrow> bool"
  assumes raise_law:
      "ok db \<Longrightarrow> sa_bound a \<notin> recorded S db (sa_device_id a) \<Longrightarrow> raised_by db (emitted_at a) \<Longrightarrow>
         \<exists>db'. aso_raise S row a db = Inr db' \<and> ok db' \<and> raised_by db' (emitted_at a)
           \<and> recorded S db' = (recorded S db)
               (sa_device_id a := insert (sa_bound a) (recorded S db (sa_device_id a)))"
    and clear_law:
      "ok db \<Longrightarrow> sa_bound a \<in> recorded S db (sa_device_id a) \<Longrightarrow> raised_by db (emitted_at a) \<Longrightarrow>
         \<exists>db'. aso_clear S a db = Inr db' \<and> ok db' \<and> raised_by db' (emitted_at a)
           \<and> recorded S db' = (recorded S db)
               (sa_device_id a := recorded S db (sa_device_id a) - {sa_bound a})"
    and raised_by_mono: "raised_by db x \<Longrightarrow> x \<le> y \<Longrightarrow> raised_by db y"
begin

lemma record_change_law:
  assumes "ok db" "raised_by db (emitted_at a)"
    and "sa_state a = Breach \<longleftrightarrow> sa_bound a \<notin> recorded S db (sa_device_id a)"
  shows "\<exists>db'. record_change S row a db = Inr db' \<and> ok db' \<and> raised_by db' (emitted_at a)
    \<and> recorded S db' = (recorded S db)(sa_device_id a :=
        (if sa_state a = Breach then insert (sa_bound a) (recorded S db (sa_device_id a))
         else recorded S db (sa_device_id a) - {sa_bound a}))"
proof (cases "sa_state a = Breach")
  case True
  then show ?thesis using raise_law [OF assms(1) _ assms(2)] assms(3) by (simp add: record_change_def)
next
  case False
  then show ?thesis using clear_law [OF assms(1) _ assms(2)] assms(3) by (simp add: record_change_def)
qed

text \<open>
  Whatever the publisher does, the mirror agrees with the record afterwards; and with a
  publisher that does not fail every change is made and published.
\<close>

lemma apply_changes_mirrors:
  assumes "ok (su_db su)" "mirrors S su" "raised_by (su_db su) (env_now env n)"
    and "\<And>i j. i \<le> j \<Longrightarrow> env_now env i \<le> env_now env j"
    and "\<And>ch mid now. ch \<in> set chs \<Longrightarrow> isOk (build_alert mid now src r t ch)"
    and "isOk (alert (sr_sensor_id r))"
    and "\<And>ch. ch \<in> set chs \<Longrightarrow> change_fits (recorded S (su_db su) (sr_sensor_id r)) ch"
    and "distinct (map ch_bound chs)"
  shows "\<exists>res su'. apply_changes S pub env src r t n chs su = (res, su')
    \<and> ok (su_db su') \<and> mirrors S su'
    \<and> (reliable pub \<longrightarrow>
         recorded S (su_db su') = (recorded S (su_db su))
           (sr_sensor_id r := open_after (recorded S (su_db su) (sr_sensor_id r)) chs)
         \<and> (\<exists>as. res = Inr as \<and> map sa_bound as = map ch_bound chs \<and> map sa_state as = map ch_state chs
              \<and> (\<forall>a \<in> set as. validate_sensor_alert a = Inr a)))"
  using assms
proof (induction chs arbitrary: n su)
  case Nil
  then show ?case by simp
next
  case (Cons ch chs)
  let ?d = "sr_sensor_id r" and ?rec = "recorded S (su_db su)"
  obtain a where a: "build_alert (env_mid env n) (env_now env n) src r t ch = Inr a"
    using Cons.prems(5) [of ch] by (auto simp: isOk_iff)
  note fa = build_alert_Inr [OF a]
  obtain subj where subj: "alert ?d = Inr subj" using Cons.prems(6) by (auto simp: isOk_iff)
  have fits: "sa_state a = Breach \<longleftrightarrow> sa_bound a \<notin> ?rec (sa_device_id a)"
    using Cons.prems(7) [of ch] fa by (simp add: change_fits_def)
  obtain db' where db': "record_change S (env_row env n) a (su_db su) = Inr db'" "ok db'"
      "raised_by db' (env_now env n)"
      "recorded S db' = ?rec(?d := if ch_state ch = Breach then insert (ch_bound ch) (?rec ?d)
         else ?rec ?d - {ch_bound ch})"
    using record_change_law [OF Cons.prems(1) _ fits, of "env_row env n"] Cons.prems(3) fa by auto
  define su1 where "su1 = mirror_change (su_gen su) a (su\<lparr>su_db := db'\<rparr>)"
  have su1: "su_db su1 = db'" "su_bus su1 = su_bus su" by (simp_all add: su1_def)
  have "bounds_of (su_open su1) = recorded S db'"
    using Cons.prems(2) fa unfolding su1_def db'(4) by (simp add: mirror_change_def mirrors_def)
  then have m1: "mirrors S (su1\<lparr>su_bus := b\<rparr>)" for b by (simp add: mirrors_def su1(1))
  show ?case
  proof (cases "pub subj a (su_bus su)")
    case (Pair e b)
    show ?thesis
    proof (cases e)
      case (Some x)
      then have "\<not> reliable pub" using Pair by simp
      moreover have "apply_changes S pub env src r t n (ch # chs) su = (Inl x, su1\<lparr>su_bus := b\<rparr>)"
        using a db'(1) subj Pair Some su1 by (simp add: su1_def [symmetric])
      ultimately show ?thesis using m1 [of b] db'(2) su1(1) by (auto simp: su1(1))
    next
      case None
      have fits': "change_fits (recorded S (su_db (su1\<lparr>su_bus := b\<rparr>)) ?d) c" if "c \<in> set chs" for c
        using Cons.prems(7) [of c] Cons.prems(8) that unfolding change_fits_def
        by (auto simp: su1(1) db'(4) image_iff)
      have later: "raised_by (su_db (su1\<lparr>su_bus := b\<rparr>)) (env_now env (Suc n))"
        using raised_by_mono [OF db'(3) Cons.prems(4) [of n "Suc n"]] by (simp add: su1(1))
      obtain res su' where ih: "apply_changes S pub env src r t (Suc n) chs (su1\<lparr>su_bus := b\<rparr>) = (res, su')"
        "ok (su_db su') \<and> mirrors S su'
         \<and> (reliable pub \<longrightarrow>
             recorded S (su_db su') = (recorded S (su_db (su1\<lparr>su_bus := b\<rparr>)))
               (?d := open_after (recorded S (su_db (su1\<lparr>su_bus := b\<rparr>)) ?d) chs)
             \<and> (\<exists>as. res = Inr as \<and> map sa_bound as = map ch_bound chs \<and> map sa_state as = map ch_state chs
                  \<and> (\<forall>a \<in> set as. validate_sensor_alert a = Inr a)))"
        using Cons.IH [of "su1\<lparr>su_bus := b\<rparr>" "Suc n"] db'(2) m1 [of b] later Cons.prems(4-6) fits'
          Cons.prems(8) su1(1) by fastforce
      have "apply_changes S pub env src r t n (ch # chs) su =
          (case res of Inl e \<Rightarrow> (Inl e, su') | Inr as \<Rightarrow> (Inr (a # as), su'))"
        using a db'(1) subj Pair None su1 ih(1) by (simp add: su1_def [symmetric])
      then show ?thesis using ih(2) fa unfolding su1(1)
        by (cases res) (auto simp: su1(1) db'(4))
    qed
  qed
qed

end


section \<open>The Postgres store keeps the contract\<close>

definition ep_key :: "episode \<Rightarrow> string \<times> alert_class \<times> string option" where
  "ep_key e = (ep_device e, ep_class e, ep_bound e)"

definition adb_ok :: "alert_db \<Rightarrow> bool" where
  "adb_ok db = (list_all episode_check (adb_episodes db)
     \<and> distinct (map ep_key (filter ep_open (adb_episodes db))))"

definition adb_raised_by :: "alert_db \<Rightarrow> instant \<Rightarrow> bool" where
  "adb_raised_by db x = list_all (\<lambda>e. ep_raised_at e \<le> x) (adb_episodes db)"

lemma bound_text_inj [simp]: "bound_text a = bound_text b \<longleftrightarrow> a = b"
  by (cases a; cases b) (simp_all add: bound_text_def)

lemma recorded_postgres:
  "b \<in> recorded postgres_alert_store db d \<longleftrightarrow>
     (\<exists>e \<in> set (adb_episodes db). open_key d ThresholdClass (Some (bound_text b)) e)"
proof -
  let ?rows = "filter (\<lambda>e. ep_device e = d \<and> ep_open e \<and> ep_class e = ThresholdClass) (adb_episodes db)"
  have "b \<in> recorded postgres_alert_store db d \<longleftrightarrow> Some (bound_text b) \<in> ep_bound ` set ?rows"
    by (cases b; cases "?rows = []")
      (auto simp: recorded_def postgres_alert_store_def load_open_def open_bounds_def bounds_of_def Let_def)
  then show ?thesis by (auto simp: open_key_def image_iff)
qed

lemma insert_episode_law:
  assumes "adb_ok db" "episode_check e" "ep_open e"
    and "\<not> (\<exists>f \<in> set (adb_episodes db). open_key (ep_device e) (ep_class e) (ep_bound e) f)"
  shows "insert_episode e db = Inr (db\<lparr>adb_episodes := adb_episodes db @ [e]\<rparr>)
    \<and> adb_ok (db\<lparr>adb_episodes := adb_episodes db @ [e]\<rparr>)"
  using assms by (auto simp: insert_episode_def adb_ok_def list_ex_iff open_key_def ep_key_def)

lemma close_episodes_law:
  assumes "adb_ok db" "adb_raised_by db x" "\<exists>e \<in> set (adb_episodes db). P e" "\<And>e. P e \<Longrightarrow> ep_open e"
  shows "\<exists>db'. close_episodes x v what P db = Inr db' \<and> adb_ok db' \<and> adb_raised_by db' x
    \<and> adb_devices db' = adb_devices db
    \<and> (\<forall>Q. (\<forall>e. Q e \<longrightarrow> ep_open e) \<and> (\<forall>e. Q (e\<lparr>ep_cleared_at := Some x, ep_cleared_value := Some v\<rparr>) \<longrightarrow> False)
         \<longrightarrow> (\<exists>e \<in> set (adb_episodes db'). Q e) = (\<exists>e \<in> set (adb_episodes db). Q e \<and> \<not> P e))"
proof -
  define close where "close = (\<lambda>e. if P e then e\<lparr>ep_cleared_at := Some x, ep_cleared_value := Some v\<rparr> else e)"
  define db' where "db' = db\<lparr>adb_episodes := map close (adb_episodes db)\<rparr>"
  have chk: "list_all episode_check (map close (adb_episodes db))"
    using assms(1,2) by (auto simp: adb_ok_def adb_raised_by_def list_all_iff close_def episode_check_def)
  have "close_episodes x v what P db = Inr db'"
    using chk assms(3) by (simp add: close_episodes_def Let_def db'_def close_def [symmetric] list_ex_iff)
  moreover have still: "filter ep_open (map close es) = filter (\<lambda>e. \<not> P e) (filter ep_open es)" for es
    using assms(4) by (induction es) (auto simp: close_def ep_open_def)
  have "distinct (map ep_key (filter ep_open (map close (adb_episodes db))))"
    unfolding still using assms(1) by (simp only: adb_ok_def distinct_map_filter)
  then have "adb_ok db'" using chk by (simp add: adb_ok_def db'_def)
  moreover have "adb_raised_by db' x"
    using assms(2) by (auto simp: adb_raised_by_def db'_def list_all_iff close_def)
  moreover have "(\<exists>e \<in> set (adb_episodes db'). Q e) = (\<exists>e \<in> set (adb_episodes db). Q e \<and> \<not> P e)"
    if "\<forall>e. Q (e\<lparr>ep_cleared_at := Some x, ep_cleared_value := Some v\<rparr>) \<longrightarrow> False" for Q
    using that by (auto simp: db'_def close_def)
  ultimately show ?thesis by (intro exI [of _ db']) (simp add: db'_def)
qed

interpretation pg: alert_store postgres_alert_store adb_ok adb_raised_by
proof unfold_locales
  fix db :: alert_db and a :: sensor_alert and row
  assume ok: "adb_ok db" and new: "sa_bound a \<notin> recorded postgres_alert_store db (sa_device_id a)"
    and before: "adb_raised_by db (emitted_at a)"
  define e where "e = \<lparr>ep_id = row, ep_device = sa_device_id a, ep_sensor_type = sa_sensor_type a,
       ep_class = ThresholdClass, ep_bound = Some (bound_text (sa_bound a)),
       ep_threshold = Some (sa_threshold a), ep_clear_margin = Some (sa_clear_margin a),
       ep_unit = Some (sa_unit a), ep_raised_at = emitted_at a, ep_raised_value = Some (sa_value a),
       ep_last_reading_at = None, ep_cleared_at = None, ep_cleared_value = None\<rparr>"
  have chk: "episode_check e" "ep_open e"
    by (cases "sa_bound a") (simp_all add: e_def episode_check_def bound_text_def ep_open_def)
  have none: "\<not> (\<exists>f \<in> set (adb_episodes db). open_key (ep_device e) (ep_class e) (ep_bound e) f)"
    using new by (simp add: recorded_postgres e_def)
  let ?db' = "db\<lparr>adb_episodes := adb_episodes db @ [e]\<rparr>"
  have "recorded postgres_alert_store ?db' = (recorded postgres_alert_store db)
      (sa_device_id a := insert (sa_bound a) (recorded postgres_alert_store db (sa_device_id a)))"
    by (rule ext, rule set_eqI) (auto simp: recorded_postgres open_key_def e_def ep_open_def)
  moreover have "adb_raised_by ?db' (emitted_at a)" using before by (simp add: adb_raised_by_def e_def)
  moreover have "raise_episode row a db = insert_episode e db" by (simp add: raise_episode_def e_def)
  ultimately show "\<exists>db'. aso_raise postgres_alert_store row a db = Inr db' \<and> adb_ok db'
      \<and> adb_raised_by db' (emitted_at a) \<and> recorded postgres_alert_store db' =
        (recorded postgres_alert_store db)(sa_device_id a :=
           insert (sa_bound a) (recorded postgres_alert_store db (sa_device_id a)))"
    using insert_episode_law [OF ok chk none] by (simp add: postgres_alert_store_def)
next
  fix db :: alert_db and a :: sensor_alert
  assume ok: "adb_ok db" and held: "sa_bound a \<in> recorded postgres_alert_store db (sa_device_id a)"
    and before: "adb_raised_by db (emitted_at a)"
  let ?P = "open_key (sa_device_id a) ThresholdClass (Some (bound_text (sa_bound a)))"
  have "\<exists>e \<in> set (adb_episodes db). ?P e" using held by (simp add: recorded_postgres)
  then obtain db' where db': "clear_episode a db = Inr db'" "adb_ok db'" "adb_raised_by db' (emitted_at a)"
      and Q: "\<And>Q. (\<forall>e. Q e \<longrightarrow> ep_open e) \<Longrightarrow>
        (\<forall>e. Q (e\<lparr>ep_cleared_at := Some (emitted_at a), ep_cleared_value := Some (sa_value a)\<rparr>) \<longrightarrow> False) \<Longrightarrow>
        (\<exists>e \<in> set (adb_episodes db'). Q e) = (\<exists>e \<in> set (adb_episodes db). Q e \<and> \<not> ?P e)"
    using close_episodes_law [OF ok before, of ?P "sa_value a" "''no open episode''"]
    by (auto simp: clear_episode_def open_key_def)
  have "recorded postgres_alert_store db' = (recorded postgres_alert_store db)
      (sa_device_id a := recorded postgres_alert_store db (sa_device_id a) - {sa_bound a})"
    by (rule ext, rule set_eqI, simp only: recorded_postgres, subst Q)
      (auto simp: recorded_postgres open_key_def ep_open_def)
  with db' show "\<exists>db'. aso_clear postgres_alert_store a db = Inr db' \<and> adb_ok db'
      \<and> adb_raised_by db' (emitted_at a) \<and> recorded postgres_alert_store db' =
        (recorded postgres_alert_store db)(sa_device_id a :=
           recorded postgres_alert_store db (sa_device_id a) - {sa_bound a})"
    by (simp add: postgres_alert_store_def)
next
  fix db x y
  show "adb_raised_by db x \<Longrightarrow> x \<le> y \<Longrightarrow> adb_raised_by db y"
    by (auto simp: adb_raised_by_def list_all_iff)
qed


section \<open>Properties of the threshold alerts\<close>

text \<open>
  C32. Hysteresis. After a reading exactly the bounds that breach, or were open and have not
  come back past the clear margin, are open; evaluating the same value again changes
  nothing; and with a valid configuration the two bounds are never open together.
\<close>

theorem evaluate_hysteresis:
  assumes "validate_thresholds t = Inr t'"
  shows "let held' = open_after held (evaluate v t held) in
    held' = {b. (b \<in> held \<and> \<not> recovers t b v) \<or> (b \<notin> held \<and> breaches t b v)}
    \<and> evaluate v t held' = []
    \<and> (th_minimum t \<noteq> None \<and> th_maximum t \<noteq> None \<longrightarrow> \<not> {Min, Max} \<subseteq> held')
    \<and> (\<forall>ch \<in> set (evaluate v t held). change_fits held ch)"
proof -
  define held' where "held' = open_after held (evaluate v t held)"
  have m: "0 < th_clear_margin t" and b: "both_bounds (\<lambda>lo hi. lo < hi \<and>
      lo + th_clear_margin t < hi - th_clear_margin t) t"
    using assms(1) by (auto simp: validate_thresholds_Inr)
  have held': "held' = {b. (b \<in> held \<and> \<not> recovers t b v) \<or> (b \<notin> held \<and> breaches t b v)}"
    unfolding held'_def by (rule open_after_evaluate [OF m])
  have "\<not> (breaches t x v \<and> recovers t x v)" for x
    using m by (cases x) (auto simp: side_defs split: option.splits)
  then have "ch \<notin> set (evaluate v t held')" for ch
    unfolding evaluate_mem held' by auto
  moreover have "\<not> {Min, Max} \<subseteq> held'" if "th_minimum t \<noteq> None" "th_maximum t \<noteq> None"
    using m b that unfolding held' by (auto simp: side_defs both_bounds_def)
  moreover have "change_fits held ch" if "ch \<in> set (evaluate v t held)" for ch
    using that by (auto simp: evaluate_mem change_fits_def split: if_splits)
  moreover have "evaluate v t held' = []"
    using calculation(1) by (cases "evaluate v t held'") auto
  ultimately show ?thesis
    using held' unfolding Let_def held'_def [symmetric] by blast
qed

definition sample_thresholds :: thresholds where
  "sample_thresholds = \<lparr>th_minimum = Some 24, th_maximum = Some 27, th_clear_margin = 1/2\<rparr>"

lemma sample_thresholds_valid: "validate_thresholds sample_thresholds = Inr sample_thresholds"
  by (simp add: validate_thresholds_Inr sample_thresholds_def both_bounds_def)

theorem evaluate_hysteresis_witness:
  "evaluate 23 sample_thresholds {} = [Change Min Breach 23 24]
     \<and> evaluate 23 sample_thresholds (open_after {} (evaluate 23 sample_thresholds {})) = []"
  using evaluate_hysteresis [OF sample_thresholds_valid, of "{}" 23]
  by (simp add: Let_def side_defs evaluate_def sample_thresholds_def)

fun run_changes :: "thresholds \<Rightarrow> alert_bound set \<Rightarrow> rat list \<Rightarrow> change list list" where
  "run_changes t held [] = []"
| "run_changes t held (v # vs) =
     evaluate v t held # run_changes t (open_after held (evaluate v t held)) vs"

text \<open>
  Noise cannot make an alert chatter: once a reading has raised or cleared a bound, no
  later reading within the clear margin of it changes that bound again, however many there
  are.
\<close>

theorem alerts_cannot_chatter:
  assumes "validate_thresholds t = Inr t'" and "ch \<in> set (evaluate v t held)"
    and "\<forall>w \<in> set vs. \<bar>w - v\<bar> < th_clear_margin t"
  shows "\<forall>chs \<in> set (run_changes t (open_after held (evaluate v t held)) vs).
           ch_bound ch \<notin> ch_bound ` set chs"
proof -
  have m: "0 < th_clear_margin t" using assms(1) by (simp add: validate_thresholds_Inr)
  define P where "P hs \<longleftrightarrow> (ch_bound ch \<in> hs \<longleftrightarrow> ch_state ch = Breach)" for hs
  have quiet: "if ch_state ch = Breach then \<not> recovers t (ch_bound ch) w else \<not> breaches t (ch_bound ch) w"
    if "\<bar>w - v\<bar> < th_clear_margin t" for w
    using assms(2) that m unfolding evaluate_mem
    by (cases "ch_bound ch") (auto simp: side_defs split: if_splits)
  have step: "P (open_after hs (evaluate w t hs)) \<and> ch_bound ch \<notin> ch_bound ` set (evaluate w t hs)"
    if "P hs" "\<bar>w - v\<bar> < th_clear_margin t" for hs w
    using quiet [OF that(2)] that(1) unfolding open_after_evaluate [OF m] P_def
    by (auto simp: evaluate_mem split: if_splits)
  have "P (open_after held (evaluate v t held))"
    using assms(2) quiet [of v] m unfolding open_after_evaluate [OF m] P_def
    by (auto simp: evaluate_mem split: if_splits)
  moreover have "\<forall>chs \<in> set (run_changes t hs ws). ch_bound ch \<notin> ch_bound ` set chs"
    if "P hs" "\<forall>w \<in> set ws. \<bar>w - v\<bar> < th_clear_margin t" for hs ws
    using that
  proof (induction ws arbitrary: hs)
    case (Cons w ws)
    then show ?case using step [of hs w] by auto
  qed simp
  ultimately show ?thesis using assms(3) by blast
qed

theorem alerts_cannot_chatter_witness:
  "list_all (\<lambda>chs. Min \<notin> ch_bound ` set chs)
     (run_changes sample_thresholds {Min} [24, 24 + 1/4, 24 - 1/4])"
proof -
  have "Change Min Breach (24 - 1/8) 24 \<in> set (evaluate (24 - 1/8) sample_thresholds {})"
    by (simp add: evaluate_def sample_thresholds_def)
  from alerts_cannot_chatter [OF sample_thresholds_valid this, of "[24, 24 + 1/4, 24 - 1/4]"]
  show ?thesis by (simp add: sample_thresholds_def evaluate_def list_all_iff)
qed

text \<open>A reading that validates, with a valid configuration, makes alerts that validate.\<close>

lemma alert_valid:
  assumes "validate_sensor_reading r = Inr r'" "validate_thresholds t = Inr t'" "device_id_ok src"
    and "ch \<in> set (evaluate v t held)"
  shows "isOk (build_alert mid now src r t ch)"
proof -
  have "0 < th_clear_margin t" using assms(2) by (simp add: validate_thresholds_Inr)
  then show ?thesis
    using assms(1,3,4) unfolding evaluate_mem
    by (auto simp: build_alert_def validate_sensor_alert_def validate_sensor_reading_def
        validation_defs side_defs split: if_splits)
qed

lemma alert_subject_ok: "validate_sensor_reading r = Inr r' \<Longrightarrow> isOk (alert (sr_sensor_id r))"
  by (auto simp: alert_def one_token_subject_def validate_sensor_reading_def validated_Inr)

text \<open>
  C31. Record before announcement. Whatever the publisher does with an alert, failure
  included, after a reading the supervisor's mirror of open bounds equals the open episodes
  in Postgres, so a bound is never raised twice nor cleared while closed. With a publisher
  that works, the record holds exactly what hysteresis says, and each change became one
  valid alert, in order.
\<close>

theorem reading_keeps_record:
  assumes r: "validate_sensor_reading r = Inr r'" and v: "sr_value r = Some v" "sr_quality r = Ok"
    and t: "validate_thresholds t = Inr t'" "configured t" and src: "device_id_ok src"
    and su: "adb_ok (su_db su)" "mirrors postgres_alert_store su"
    and clock: "adb_raised_by (su_db su) (env_now env 0)" "\<And>i j. i \<le> j \<Longrightarrow> env_now env i \<le> env_now env j"
  shows "\<exists>res su'. supervisor_on_reading postgres_alert_store pub env src r t su = (res, su')
    \<and> adb_ok (su_db su') \<and> mirrors postgres_alert_store su'
    \<and> (reliable pub \<longrightarrow>
         recorded postgres_alert_store (su_db su') (sr_sensor_id r) =
           (let held = recorded postgres_alert_store (su_db su) (sr_sensor_id r) in
            {b. (b \<in> held \<and> \<not> recovers t b v) \<or> (b \<notin> held \<and> breaches t b v)})
         \<and> (\<exists>as. res = Inr as \<and> (\<forall>a \<in> set as. validate_sensor_alert a = Inr a)
              \<and> map sa_bound as = map ch_bound
                  (evaluate v t (recorded postgres_alert_store (su_db su) (sr_sensor_id r)))))"
proof -
  let ?d = "sr_sensor_id r" and ?S = postgres_alert_store
  define held where "held = recorded ?S (su_db su) ?d"
  have b: "bounds_of (su_open su) ?d = held" using su(2) by (simp add: mirrors_def held_def)
  define su0 where "su0 = su\<lparr>su_open := (su_open su)(?d \<mapsto> held)\<rparr>"
  have su0: "su_db su0 = su_db su" "mirrors ?S su0"
    using su(2) b by (simp_all add: su0_def mirrors_def held_def)
  have m: "0 < th_clear_margin t" using t(1) by (simp add: validate_thresholds_Inr)
  have "\<exists>res su'. apply_changes ?S pub env src r t 0 (evaluate v t held) su0 = (res, su')
    \<and> adb_ok (su_db su') \<and> mirrors ?S su'
    \<and> (reliable pub \<longrightarrow>
         recorded ?S (su_db su') = (recorded ?S (su_db su0))
           (?d := open_after (recorded ?S (su_db su0) ?d) (evaluate v t held))
         \<and> (\<exists>as. res = Inr as \<and> map sa_bound as = map ch_bound (evaluate v t held)
              \<and> map sa_state as = map ch_state (evaluate v t held)
              \<and> (\<forall>a \<in> set as. validate_sensor_alert a = Inr a)))"
    using su(1) su0 clock alert_valid [OF r t(1) src] alert_subject_ok [OF r] evaluate_bounds_distinct
    by (intro pg.apply_changes_mirrors)
      (auto simp: held_def change_fits_def evaluate_mem split: if_splits)
  moreover have "supervisor_on_reading ?S pub env src r t su =
      apply_changes ?S pub env src r t 0 (evaluate v t held) su0"
    using v t(2) by (simp add: supervisor_on_reading_def should_evaluate_def b Let_def su0_def)
  ultimately show ?thesis
    unfolding su0(1) Let_def held_def [symmetric] open_after_evaluate [OF m] by auto
qed

definition sample_reading :: sensor_reading where
  "sample_reading = \<lparr>schema_version = 2, message_id = 1, emitted_at = 100, source = ''hardware-io'',
     sr_sensor_id = ''tank'', sr_sensor_type = ''temp'', sr_value = Some 23, sr_unit = ''C'',
     sr_quality = Ok, sr_calibration_id = None\<rparr>"

lemma sample_reading_valid: "validate_sensor_reading sample_reading = Inr sample_reading"
  by (simp add: sample_reading_def validate_sensor_reading_def validation_defs device_id_ok_def
      token_body_def lower_alnum_def token_chars_def str_len_ok_def)

definition empty_supervisor :: "(alert_db, nat) alert_supervisor" where
  "empty_supervisor = \<lparr>su_open = Map.empty, su_gen = 0,
     su_db = \<lparr>adb_episodes = [], adb_devices = []\<rparr>, su_bus = 0\<rparr>"

theorem reading_keeps_record_witness:
  "\<exists>su'. fst (supervisor_on_reading postgres_alert_store (\<lambda>s a n. (Some (RuntimeError ''nats''), n))
        \<lparr>env_mid = id, env_row = id, env_now = of_nat\<rparr> ''control-engine'' sample_reading
        sample_thresholds empty_supervisor) = Inl (RuntimeError ''nats'')
     \<and> su' = snd (supervisor_on_reading postgres_alert_store (\<lambda>s a n. (Some (RuntimeError ''nats''), n))
        \<lparr>env_mid = id, env_row = id, env_now = of_nat\<rparr> ''control-engine'' sample_reading
        sample_thresholds empty_supervisor)
     \<and> mirrors postgres_alert_store su'"
proof -
  let ?env = "\<lparr>env_mid = id, env_row = id, env_now = of_nat\<rparr>"
  have h: "sr_value sample_reading = Some 23" "sr_quality sample_reading = Ok" "configured sample_thresholds"
    "device_id_ok ''control-engine''" "adb_ok (su_db empty_supervisor)"
    "mirrors postgres_alert_store empty_supervisor"
    "adb_raised_by (su_db empty_supervisor) (env_now ?env 0)"
    by (simp_all add: sample_reading_def configured_def sample_thresholds_def device_id_ok_def token_body_def
        lower_alnum_def token_chars_def adb_ok_def empty_supervisor_def adb_raised_by_def mirrors_def
        fun_eq_iff recorded_def load_open_def open_bounds_def bounds_of_def postgres_alert_store_def)
  have inc: "i \<le> j \<Longrightarrow> env_now ?env i \<le> env_now ?env j" for i j by simp
  have "fst (supervisor_on_reading postgres_alert_store (\<lambda>s a n. (Some (RuntimeError ''nats''), n)) ?env
      ''control-engine'' sample_reading sample_thresholds empty_supervisor) = Inl (RuntimeError ''nats'')"
    by (simp add: supervisor_on_reading_def should_evaluate_def sample_reading_def configured_def
        sample_thresholds_def empty_supervisor_def bounds_of_def evaluate_def Let_def build_alert_def
        validate_sensor_alert_def validated_def message_guards_def SCHEMA_VERSION_def device_id_ok_def
        token_body_def lower_alnum_def token_chars_def str_len_ok_def record_change_def
        postgres_alert_store_def raise_episode_def insert_episode_def episode_check_def bound_text_def
        ep_open_def alert_def one_token_subject_def validate_token_def token_re_match_def)
  with reading_keeps_record [OF sample_reading_valid h(1,2) sample_thresholds_valid h(3,4,5,6,7) inc,
      of "\<lambda>s a n. (Some (RuntimeError ''nats''), n)"]
  show ?thesis by (metis snd_conv)
qed

text \<open>
  Resynchronising loses nothing that was recorded meanwhile: if the record was read
  either before or after the changes the supervisor made during the read, the merged mirror
  is the record as it stands when the resync ends.
\<close>

theorem resync_reconciles:
  assumes "bounds_of before = recorded postgres_alert_store db0"
    and "mirrors postgres_alert_store su"
    and "rows = open_bounds db0 \<or> rows = open_bounds (su_db su)"
  shows "mirrors postgres_alert_store (resync_finish before rows su)"
proof -
  let ?S = postgres_alert_store
  have f: "bounds_of (load_open (open_bounds db)) = recorded ?S db" for db
    by (simp add: recorded_def postgres_alert_store_def)
  have merge: "bounds_of (resync_merge b fr a) d =
      (bounds_of fr d \<union> (bounds_of a d - bounds_of b d)) - (bounds_of b d - bounds_of a d)" for b fr a d
    by (auto simp: resync_merge_def bounds_of_def Let_def split: option.splits)
  have "bounds_of (load_open rows) d \<in> {bounds_of before d, bounds_of (su_open su) d}" for d
    using assms by (auto simp: f mirrors_def)
  then have "bounds_of (resync_merge before (load_open rows) (su_open su)) d = bounds_of (su_open su) d" for d
    unfolding merge by auto
  then show ?thesis using assms(2) by (auto simp: mirrors_def resync_finish_def)
qed

theorem resync_reconciles_witness:
  "mirrors postgres_alert_store
     (resync_finish Map.empty (open_bounds \<lparr>adb_episodes = [], adb_devices = []\<rparr>) empty_supervisor)"
  by (rule resync_reconciles [of _ "\<lparr>adb_episodes = [], adb_devices = []\<rparr>"])
    (simp_all add: mirrors_def fun_eq_iff recorded_def load_open_def open_bounds_def bounds_of_def
      postgres_alert_store_def empty_supervisor_def)

text \<open>
  C33. A resync that finishes between a breach's commit and the supervisor's resumption loses
  the breach: the read saw the table before the commit, the mirror's sets were replaced, and
  the suspended reading adds its bound to the set that was discarded. The episode is open in
  Postgres, the mirror calls the bound quiet, and raising it again is refused.
\<close>

theorem resync_race_loses_breach:
  assumes "adb_ok (su_db su)" "adb_raised_by (su_db su) (emitted_at a)" "mirrors postgres_alert_store su"
    and "sa_state a = Breach" "sa_bound a \<notin> recorded postgres_alert_store (su_db su) (sa_device_id a)"
    and "sa_device_id a2 = sa_device_id a" "sa_bound a2 = sa_bound a"
  shows "\<exists>db'. record_change postgres_alert_store row a (su_db su) = Inr db'
    \<and> (let su1 = su\<lparr>su_db := db'\<rparr>;
           su2 = resync_finish (su_open su) (open_bounds (su_db su)) su1;
           su3 = mirror_change (su_gen su) a su2
       in sa_bound a \<in> recorded postgres_alert_store (su_db su3) (sa_device_id a)
          \<and> sa_bound a \<notin> bounds_of (su_open su3) (sa_device_id a)
          \<and> (\<forall>row2. \<not> isOk (raise_episode row2 a2 (su_db su3))))"
proof -
  let ?S = postgres_alert_store
  obtain db' where db': "record_change ?S row a (su_db su) = Inr db'"
    "recorded ?S db' = (recorded ?S (su_db su))(sa_device_id a :=
        insert (sa_bound a) (recorded ?S (su_db su) (sa_device_id a)))"
    using pg.record_change_law [OF assms(1,2), of row] assms(4,5) by auto
  have rec: "sa_bound a \<in> recorded ?S db' (sa_device_id a)" by (simp add: db'(2))
  then have dup: "\<not> isOk (raise_episode row2 a2 db')" for row2
    using assms(6,7) unfolding recorded_postgres
    by (auto simp: raise_episode_def insert_episode_def list_ex_iff ep_open_def)
  have "sa_bound a \<notin> bounds_of (resync_merge (su_open su) (load_open (open_bounds (su_db su))) (su_open su))
      (sa_device_id a)"
    using assms(5) unfolding recorded_def postgres_alert_store_def
    by (auto simp: resync_merge_def bounds_of_def Let_def split: option.splits)
  with db'(1) rec dup show ?thesis
    by (auto simp: resync_finish_def mirror_change_def Let_def)
qed

definition sample_alert :: sensor_alert where
  "sample_alert = \<lparr>schema_version = 2, message_id = 1, emitted_at = 100, source = ''control-engine'',
     sa_device_id = ''tank'', sa_sensor_type = ''temp'', sa_state = Breach, sa_bound = Min,
     sa_value = 23, sa_threshold = 24, sa_clear_margin = 1/2, sa_unit = ''C''\<rparr>"

theorem resync_race_loses_breach_witness:
  "\<exists>db'. record_change postgres_alert_store 5 sample_alert (su_db empty_supervisor) = Inr db'
     \<and> Min \<notin> bounds_of (su_open (mirror_change 0 sample_alert
          (resync_finish Map.empty (open_bounds (su_db empty_supervisor)) (empty_supervisor\<lparr>su_db := db'\<rparr>)))) ''tank''"
proof -
  have h: "adb_ok (su_db empty_supervisor)" "adb_raised_by (su_db empty_supervisor) (emitted_at sample_alert)"
    "mirrors postgres_alert_store empty_supervisor" "sa_state sample_alert = Breach"
    "sa_bound sample_alert \<notin> recorded postgres_alert_store (su_db empty_supervisor) (sa_device_id sample_alert)"
    by (simp_all add: sample_alert_def adb_ok_def empty_supervisor_def adb_raised_by_def mirrors_def
        fun_eq_iff recorded_def load_open_def open_bounds_def bounds_of_def postgres_alert_store_def)
  from resync_race_loses_breach [OF h refl refl, of 5] show ?thesis
    unfolding Let_def by (simp add: empty_supervisor_def sample_alert_def) blast
qed

section \<open>The silence watcher keeps the record\<close>

definition watches :: "'db silence_store_ops \<Rightarrow> ('db, 'bus) watcher \<Rightarrow> bool" where
  "watches S w = (sw_silent w = sso_open_silences S (sw_db w))"

text \<open>The probes a sweep at this instant has to report.\<close>

definition overdue :: "instant \<Rightarrow> (string \<rightharpoonup> instant) \<Rightarrow> (string \<times> rat) list \<Rightarrow> string set" where
  "overdue at' seen cs = {d. \<exists>c t. (d, c) \<in> set cs \<and> seen d = Some t \<and> silence_deadline_s c \<le> at' - t}"

lemma silence_deadline_pos: "30 \<le> silence_deadline_s c"
  by (simp add: silence_deadline_s_def SILENCE_FLOOR_S_def)

lemma silence_message_valid:
  assumes "device_id_ok d" "device_id_ok ty" "0 < threshold" "0 \<le> silent_for"
    and "st = Breach \<Longrightarrow> threshold \<le> silent_for"
  shows "\<exists>subj m. silence d = Inr subj \<and> emit_silence pub mid d ty st silent_for threshold seen at' w =
    (case pub subj m (sw_bus w) of (Some e, bus) \<Rightarrow> (Inl e, w\<lparr>sw_bus := bus\<rparr>)
      | (None, bus) \<Rightarrow> (Inr (), w\<lparr>sw_bus := bus\<rparr>))
    \<and> validate_sensor_silence m = Inr m"
proof -
  let ?m = "\<lparr>schema_version = SCHEMA_VERSION, message_id = mid, emitted_at = at',
      source = ''control-engine'', ss_device_id = d, ss_sensor_type = ty, ss_state = st,
      ss_silent_for_s = silent_for, ss_silence_threshold_s = threshold, ss_last_reading_at = seen\<rparr>"
  have "device_id_ok ''control-engine''"
    by (simp add: device_id_ok_def token_body_def lower_alnum_def token_chars_def)
  then have "validate_sensor_silence ?m = Inr ?m"
    using assms by (auto simp: validate_sensor_silence_def validation_defs)
  moreover obtain subj where "silence d = Inr subj"
    using assms(1) by (simp add: silence_def one_token_subject_def)
  ultimately show ?thesis by (auto simp: emit_silence_def)
qed

locale silence_store =
  fixes S :: "'db silence_store_ops" and ok :: "'db \<Rightarrow> bool" and raised_by :: "'db \<Rightarrow> instant \<Rightarrow> bool"
  assumes raise_law:
      "ok db \<Longrightarrow> d \<notin> sso_open_silences S db \<Longrightarrow> raised_by db x \<Longrightarrow>
         \<exists>db'. sso_raise S row d ty x seen db = Inr db' \<and> ok db' \<and> raised_by db' x
           \<and> sso_open_silences S db' = insert d (sso_open_silences S db)
           \<and> sso_cadences S db' = sso_cadences S db"
    and clear_law:
      "ok db \<Longrightarrow> d \<in> sso_open_silences S db \<Longrightarrow> raised_by db x \<Longrightarrow>
         \<exists>db'. sso_clear S d x v db = Inr db' \<and> ok db' \<and> raised_by db' x
           \<and> sso_open_silences S db' = sso_open_silences S db - {d}
           \<and> sso_cadences S db' = sso_cadences S db"
    and raised_by_mono: "raised_by db x \<Longrightarrow> x \<le> y \<Longrightarrow> raised_by db y"
begin

lemma sweep_one_law:
  assumes "ok (sw_db w)" "raised_by (sw_db w) x" "watches S w" "device_id_ok (fst dc)"
    and "\<forall>ty \<in> ran (sw_sensor_types w). device_id_ok ty"
  shows "\<exists>res w'. sweep_one S pub mid row x dc w = (res, w') \<and> ok (sw_db w') \<and> raised_by (sw_db w') x
    \<and> watches S w' \<and> sw_last_seen w' = sw_last_seen w \<and> sw_sensor_types w' = sw_sensor_types w
    \<and> sso_cadences S (sw_db w') = sso_cadences S (sw_db w)
    \<and> sw_silent w' = sw_silent w \<union> overdue x (sw_last_seen w) [dc]
    \<and> (reliable pub \<longrightarrow> res = Inr ())"
proof -
  let ?d = "fst dc" and ?dl = "silence_deadline_s (snd dc)"
  have od: "overdue x (sw_last_seen w) [dc] =
      (case sw_last_seen w ?d of None \<Rightarrow> {} | Some t \<Rightarrow> if x - t < ?dl then {} else {?d})"
    by (cases dc) (auto simp: overdue_def split: option.splits)
  show ?thesis
  proof (cases "?d \<in> sw_silent w \<or> overdue x (sw_last_seen w) [dc] = {}")
    case True
    then have "sweep_one S pub mid row x dc w = (Inr (), w)"
      by (auto simp: sweep_one_def Let_def od split: option.splits if_splits)
    moreover have "sw_silent w = sw_silent w \<union> overdue x (sw_last_seen w) [dc]"
      using True by (auto simp: od split: option.splits if_splits)
    ultimately show ?thesis using assms by simp
  next
    case False
    then obtain t where t: "sw_last_seen w ?d = Some t" "\<not> x - t < ?dl" "overdue x (sw_last_seen w) [dc] = {?d}"
      unfolding od by (auto split: option.splits if_splits)
    define ty where "ty = (case sw_sensor_types w ?d of None \<Rightarrow> ''unknown'' | Some ty \<Rightarrow> ty)"
    have ty: "device_id_ok ty"
    proof (cases "sw_sensor_types w ?d")
      case None
      then show ?thesis
        by (simp add: ty_def device_id_ok_def token_body_def lower_alnum_def token_chars_def)
    next
      case (Some x)
      then show ?thesis using assms(5) by (simp add: ty_def ranI)
    qed
    obtain db' where db': "sso_raise S (row ?d) ?d ty x (Some t) (sw_db w) = Inr db'" "ok db'" "raised_by db' x"
        "sso_open_silences S db' = insert ?d (sso_open_silences S (sw_db w))"
        "sso_cadences S db' = sso_cadences S (sw_db w)"
      using raise_law [OF assms(1) _ assms(2), of ?d "row ?d" ty "Some t"] False assms(3)
      by (auto simp: watches_def)
    let ?w1 = "w\<lparr>sw_db := db', sw_silent := insert ?d (sw_silent w)\<rparr>"
    have "sweep_one S pub mid row x dc w =
        emit_silence pub (mid ?d) ?d ty Breach (x - t) ?dl (Some t) x ?w1"
      using False t db'(1) by (simp add: sweep_one_def Let_def ty_def [symmetric])
    moreover have "0 < ?dl" "0 \<le> x - t" "?dl \<le> x - t"
      using silence_deadline_pos [of "snd dc"] t(2) by linarith+
    then obtain subj m where "emit_silence pub (mid ?d) ?d ty Breach (x - t) ?dl (Some t) x ?w1 =
      (case pub subj m (sw_bus ?w1) of (Some e, bus) \<Rightarrow> (Inl e, ?w1\<lparr>sw_bus := bus\<rparr>)
        | (None, bus) \<Rightarrow> (Inr (), ?w1\<lparr>sw_bus := bus\<rparr>))"
      using silence_message_valid [OF assms(4) ty, of ?dl "x - t" Breach pub "mid ?d" "Some t" x ?w1] by blast
    ultimately have e: "sweep_one S pub mid row x dc w =
      (case pub subj m (sw_bus w) of (Some e, bus) \<Rightarrow> (Inl e, ?w1\<lparr>sw_bus := bus\<rparr>)
        | (None, bus) \<Rightarrow> (Inr (), ?w1\<lparr>sw_bus := bus\<rparr>))" by simp
    show ?thesis
    proof (cases "pub subj m (sw_bus w)")
      case (Pair o' bus)
      have "watches S (?w1\<lparr>sw_bus := bus\<rparr>)" using assms(3) db'(4) by (simp add: watches_def)
      then show ?thesis using e Pair db' t(3) by (cases o') auto
    qed
  qed
qed

text \<open>
  A sweep raises exactly the overdue probes; when the publisher fails it stops early, with
  mirror and record still in agreement and nothing raised that was not overdue.
\<close>

lemma sweep_loop_law:
  assumes "ok (sw_db w)" "raised_by (sw_db w) x" "watches S w" "\<forall>dc \<in> set cs. device_id_ok (fst dc)"
    and "\<forall>ty \<in> ran (sw_sensor_types w). device_id_ok ty"
  shows "\<exists>res w'. sweep_loop S pub mid row x cs w = (res, w') \<and> ok (sw_db w') \<and> raised_by (sw_db w') x
    \<and> watches S w' \<and> sw_last_seen w' = sw_last_seen w \<and> sw_sensor_types w' = sw_sensor_types w
    \<and> sso_cadences S (sw_db w') = sso_cadences S (sw_db w)
    \<and> sw_silent w \<subseteq> sw_silent w' \<and> sw_silent w' \<subseteq> sw_silent w \<union> overdue x (sw_last_seen w) cs
    \<and> (reliable pub \<longrightarrow>
         res = Inr () \<and> sw_silent w' = sw_silent w \<union> overdue x (sw_last_seen w) cs)"
  using assms
proof (induction cs arbitrary: w)
  case Nil
  then show ?case by (simp add: overdue_def)
next
  case (Cons dc cs)
  have od: "overdue x seen (dc # cs) = overdue x seen [dc] \<union> overdue x seen cs" for seen
    by (auto simp: overdue_def)
  obtain res w1 where w1: "sweep_one S pub mid row x dc w = (res, w1)" "ok (sw_db w1)" "raised_by (sw_db w1) x"
      "watches S w1" "sw_last_seen w1 = sw_last_seen w" "sw_sensor_types w1 = sw_sensor_types w"
      "sso_cadences S (sw_db w1) = sso_cadences S (sw_db w)"
      "sw_silent w1 = sw_silent w \<union> overdue x (sw_last_seen w) [dc]"
      "reliable pub \<longrightarrow> res = Inr ()"
    using sweep_one_law [OF Cons.prems(1-3) _ Cons.prems(5), of dc pub mid row] Cons.prems(4)
    by (metis list.set_intros(1))
  show ?case
  proof (cases res)
    case (Inl e)
    then show ?thesis using w1 unfolding od by auto
  next
    case (Inr u)
    obtain res' w' where "sweep_loop S pub mid row x cs w1 = (res', w')" "ok (sw_db w')" "raised_by (sw_db w') x"
      "watches S w'" "sw_last_seen w' = sw_last_seen w1" "sw_sensor_types w' = sw_sensor_types w1"
      "sso_cadences S (sw_db w') = sso_cadences S (sw_db w1)"
      "sw_silent w1 \<subseteq> sw_silent w'" "sw_silent w' \<subseteq> sw_silent w1 \<union> overdue x (sw_last_seen w1) cs"
      "reliable pub \<longrightarrow>
         res' = Inr () \<and> sw_silent w' = sw_silent w1 \<union> overdue x (sw_last_seen w1) cs"
      using Cons.IH [OF w1(2-4)] Cons.prems(4,5) w1(6) by auto
    then show ?thesis using w1 Inr unfolding od by (auto simp: Un_assoc)
  qed
qed

lemma reading_law:
  assumes "ok (sw_db w)" "raised_by (sw_db w) x" "watches S w"
    and r: "validate_sensor_reading r = Inr r'" "should_evaluate r"
  shows "\<exists>res w'. watcher_on_reading S pub mid x r w = (res, w') \<and> ok (sw_db w') \<and> raised_by (sw_db w') x
    \<and> watches S w' \<and> sw_silent w' = sw_silent w - {sr_sensor_id r}
    \<and> sw_last_seen w' = (sw_last_seen w)(sr_sensor_id r \<mapsto> x)
    \<and> sw_sensor_types w' = (sw_sensor_types w)(sr_sensor_id r \<mapsto> sr_sensor_type r)
    \<and> sso_cadences S (sw_db w') = sso_cadences S (sw_db w)
    \<and> (reliable pub \<longrightarrow> res = Inr ())"
proof -
  let ?d = "sr_sensor_id r"
  obtain v where v: "sr_value r = Some v" using r(2) by (auto simp: should_evaluate_def)
  have ids: "device_id_ok ?d" "device_id_ok (sr_sensor_type r)"
    using r(1) by (auto simp: validate_sensor_reading_def validated_Inr)
  define w1 where "w1 = w\<lparr>sw_last_seen := (sw_last_seen w)(?d \<mapsto> x),
      sw_sensor_types := (sw_sensor_types w)(?d \<mapsto> sr_sensor_type r)\<rparr>"
  show ?thesis
  proof (cases "?d \<in> sw_silent w")
    case False
    then have "watcher_on_reading S pub mid x r w = (Inr (), w1)"
      using v r(2) by (simp add: watcher_on_reading_def Let_def w1_def)
    then show ?thesis using assms(1-3) False by (simp add: w1_def watches_def)
  next
    case True
    obtain db' where db': "sso_clear S ?d x v (sw_db w) = Inr db'" "ok db'" "raised_by db' x"
        "sso_open_silences S db' = sso_open_silences S (sw_db w) - {?d}"
        "sso_cadences S db' = sso_cadences S (sw_db w)"
      using clear_law [OF assms(1) _ assms(2), of ?d v] True assms(3) by (auto simp: watches_def)
    let ?w2 = "w1\<lparr>sw_db := db', sw_silent := sw_silent w1 - {?d}\<rparr>"
    let ?th = "case map_of (sso_cadences S db') ?d of None \<Rightarrow> SILENCE_FLOOR_S
      | Some c \<Rightarrow> if c = 0 then SILENCE_FLOOR_S else silence_deadline_s c"
    have "watcher_on_reading S pub mid x r w =
        emit_silence pub mid ?d (sr_sensor_type r) Clear 0 ?th (Some x) x ?w2"
      using v r(2) True db'(1) by (simp add: watcher_on_reading_def Let_def w1_def)
    moreover have "0 < ?th"
      using less_le_trans [OF _ silence_deadline_pos]
      by (auto simp: SILENCE_FLOOR_S_def split: option.splits)
    then obtain subj m where "emit_silence pub mid ?d (sr_sensor_type r) Clear 0 ?th (Some x) x ?w2 =
      (case pub subj m (sw_bus ?w2) of (Some e, bus) \<Rightarrow> (Inl e, ?w2\<lparr>sw_bus := bus\<rparr>)
        | (None, bus) \<Rightarrow> (Inr (), ?w2\<lparr>sw_bus := bus\<rparr>))"
      using silence_message_valid [OF ids, of ?th 0 Clear pub mid "Some x" x ?w2] by auto
    ultimately have e: "watcher_on_reading S pub mid x r w =
      (case pub subj m (sw_bus w) of (Some e, bus) \<Rightarrow> (Inl e, ?w2\<lparr>sw_bus := bus\<rparr>)
        | (None, bus) \<Rightarrow> (Inr (), ?w2\<lparr>sw_bus := bus\<rparr>))" by (simp add: w1_def)
    show ?thesis
    proof (cases "pub subj m (sw_bus w)")
      case (Pair o' bus)
      have "watches S (?w2\<lparr>sw_bus := bus\<rparr>)" using assms(3) db'(4) by (simp add: watches_def w1_def)
      then show ?thesis using e Pair db' by (cases o') (auto simp: w1_def)
    qed
  qed
qed

end

lemma open_silences_mem:
  "d \<in> open_silences db \<longleftrightarrow> (\<exists>e \<in> set (adb_episodes db). ep_device e = d \<and> ep_class e = SilenceClass \<and> ep_open e)"
  by (auto simp: open_silences_def)

interpretation pgs: silence_store postgres_silence_store adb_ok adb_raised_by
proof unfold_locales
  fix db :: alert_db and d ty :: string and row :: uuid and x :: instant and seen
  assume ok: "adb_ok db" and new: "d \<notin> sso_open_silences postgres_silence_store db"
    and before: "adb_raised_by db x"
  define e where "e = \<lparr>ep_id = row, ep_device = d, ep_sensor_type = ty,
       ep_class = SilenceClass, ep_bound = None, ep_threshold = None, ep_clear_margin = None,
       ep_unit = None, ep_raised_at = x, ep_raised_value = None,
       ep_last_reading_at = seen, ep_cleared_at = None, ep_cleared_value = None\<rparr>"
  have chk: "episode_check e" "ep_open e"
    by (simp_all add: e_def episode_check_def ep_open_def)
  have none: "\<not> (\<exists>f \<in> set (adb_episodes db). open_key (ep_device e) (ep_class e) (ep_bound e) f)"
    using new by (auto simp: open_silences_mem postgres_silence_store_def e_def open_key_def)
  let ?db' = "db\<lparr>adb_episodes := adb_episodes db @ [e]\<rparr>"
  have "open_silences ?db' = insert d (open_silences db)"
    by (rule set_eqI) (auto simp: open_silences_mem e_def ep_open_def)
  moreover have "adb_raised_by ?db' x" using before by (simp add: adb_raised_by_def e_def)
  moreover have "raise_silence row d ty x seen db = insert_episode e db" by (simp add: raise_silence_def e_def)
  moreover have "cadences ?db' = cadences db" by (simp add: cadences_def)
  ultimately show "\<exists>db'. sso_raise postgres_silence_store row d ty x seen db = Inr db' \<and> adb_ok db'
      \<and> adb_raised_by db' x
      \<and> sso_open_silences postgres_silence_store db' = insert d (sso_open_silences postgres_silence_store db)
      \<and> sso_cadences postgres_silence_store db' = sso_cadences postgres_silence_store db"
    using insert_episode_law [OF ok chk none] by (simp add: postgres_silence_store_def)
next
  fix db :: alert_db and d :: string and x v
  assume ok: "adb_ok db" and held: "d \<in> sso_open_silences postgres_silence_store db"
    and before: "adb_raised_by db x"
  let ?P = "\<lambda>e. ep_device e = d \<and> ep_class e = SilenceClass \<and> ep_open e"
  have "\<exists>e \<in> set (adb_episodes db). ?P e" using held by (simp add: postgres_silence_store_def open_silences_mem)
  then obtain db' where db': "clear_silence d x v db = Inr db'" "adb_ok db'" "adb_raised_by db' x"
      "adb_devices db' = adb_devices db"
      and Q: "\<And>Q. (\<forall>e. Q e \<longrightarrow> ep_open e) \<Longrightarrow>
        (\<forall>e. Q (e\<lparr>ep_cleared_at := Some x, ep_cleared_value := Some v\<rparr>) \<longrightarrow> False) \<Longrightarrow>
        (\<exists>e \<in> set (adb_episodes db'). Q e) = (\<exists>e \<in> set (adb_episodes db). Q e \<and> \<not> ?P e)"
    using close_episodes_law [OF ok before, of ?P v "''no open silence''"]
    by (auto simp: clear_silence_def)
  have "open_silences db' = open_silences db - {d}"
    by (rule set_eqI, simp only: open_silences_mem, subst Q) (auto simp: open_silences_mem ep_open_def)
  moreover have "cadences db' = cadences db" using db'(4) by (simp add: cadences_def)
  ultimately show "\<exists>db'. sso_clear postgres_silence_store d x v db = Inr db' \<and> adb_ok db'
      \<and> adb_raised_by db' x
      \<and> sso_open_silences postgres_silence_store db' = sso_open_silences postgres_silence_store db - {d}
      \<and> sso_cadences postgres_silence_store db' = sso_cadences postgres_silence_store db"
    using db'(1-3) by (simp add: postgres_silence_store_def)
next
  fix db x y
  show "adb_raised_by db x \<Longrightarrow> x \<le> y \<Longrightarrow> adb_raised_by db y"
    by (auto simp: adb_raised_by_def list_all_iff)
qed

section \<open>Properties of the silence alarm\<close>

text \<open>
  A sweep raises exactly the probes that have been quiet for their own deadline: with a
  working publisher the silent set, which stays equal to the open silences in Postgres,
  grows by the overdue probes and nothing else; with a failing one it grows by a part of
  them, and mirror and record still agree.
\<close>

theorem sweep_raises_overdue:
  assumes "adb_ok (sw_db w)" "adb_raised_by (sw_db w) x" "watches postgres_silence_store w"
    and "\<forall>dc \<in> set (cadences (sw_db w)). device_id_ok (fst dc)"
    and "\<forall>ty \<in> ran (sw_sensor_types w). device_id_ok ty"
  shows "\<exists>res w'. sweep postgres_silence_store pub mid row x w = (res, w')
    \<and> watches postgres_silence_store w' \<and> adb_ok (sw_db w')
    \<and> sw_silent w \<subseteq> sw_silent w'
    \<and> sw_silent w' \<subseteq> sw_silent w \<union> overdue x (sw_last_seen w) (cadences (sw_db w))
    \<and> (reliable pub \<longrightarrow> res = Inr ()
         \<and> sw_silent w' = sw_silent w \<union> overdue x (sw_last_seen w) (cadences (sw_db w)))"
proof -
  have c: "sso_cadences postgres_silence_store = cadences" by (simp add: postgres_silence_store_def)
  show ?thesis
    using pgs.sweep_loop_law [OF assms, of pub mid row] unfolding sweep_def c by blast
qed

definition sample_watcher :: "(alert_db, nat) watcher" where
  "sample_watcher = \<lparr>sw_last_seen = [''tank'' \<mapsto> 100], sw_sensor_types = Map.empty, sw_silent = {},
     sw_db = \<lparr>adb_episodes = [], adb_devices = [\<lparr>sd_device = ''tank'', sd_is_sensor = True,
       sd_poll_interval_s = Some 10, sd_enabled = True, sd_alert_min = None, sd_alert_max = None,
       sd_alert_clear_margin = None\<rparr>]\<rparr>, sw_bus = 0\<rparr>"

lemma sample_watcher_ok:
  "adb_ok (sw_db sample_watcher)" "adb_raised_by (sw_db sample_watcher) x"
  "watches postgres_silence_store sample_watcher"
  "\<forall>dc \<in> set (cadences (sw_db sample_watcher)). device_id_ok (fst dc)"
  "\<forall>ty \<in> ran (sw_sensor_types sample_watcher). device_id_ok ty"
  by (simp_all add: sample_watcher_def adb_ok_def adb_raised_by_def watches_def postgres_silence_store_def
      open_silences_def cadences_def device_id_ok_def token_body_def lower_alnum_def token_chars_def)

theorem sweep_raises_overdue_witness:
  "sw_silent (snd (sweep postgres_silence_store (\<lambda>s m n. (None, n)) (\<lambda>_. 1) (\<lambda>_. 2) 160 sample_watcher))
     = {''tank''}"
proof -
  have "reliable (\<lambda>s (m :: sensor_silence) n :: nat. (None, n))" by (simp add: reliable_def)
  moreover have "overdue 160 (sw_last_seen sample_watcher) (cadences (sw_db sample_watcher)) = {''tank''}"
    by (auto simp: overdue_def sample_watcher_def cadences_def silence_deadline_s_def
        SILENCE_CADENCE_MULTIPLE_def SILENCE_FLOOR_S_def split: if_splits)
  moreover have "sw_silent sample_watcher = {}" by (simp add: sample_watcher_def)
  ultimately show ?thesis
    using sweep_raises_overdue [OF sample_watcher_ok(1,2,3,4,5), of "\<lambda>s m n. (None, n)" "\<lambda>_. 1" "\<lambda>_. 2" 160]
    by (metis Un_empty_left snd_conv)
qed

text \<open>The life of the watcher: readings and sweeps, each with the clock it saw.\<close>

datatype watch_event = Reading sensor_reading | Sweep

definition watch_step ::
    "(sensor_silence, 'bus) publish \<Rightarrow> (string \<Rightarrow> uuid) \<Rightarrow> (string \<Rightarrow> uuid) \<Rightarrow> instant \<times> watch_event
       \<Rightarrow> (alert_db, 'bus) watcher \<Rightarrow> (alert_db, 'bus) watcher" where
  "watch_step pub mid row xe w =
     (case snd xe of
        Reading r \<Rightarrow> snd (watcher_on_reading postgres_silence_store pub (mid (sr_sensor_id r)) (fst xe) r w)
      | Sweep \<Rightarrow> snd (sweep postgres_silence_store pub mid row (fst xe) w))"

text \<open>At every sweep of the trace the probe's last good reading is younger than the deadline.\<close>

fun steady :: "seconds \<Rightarrow> string \<Rightarrow> instant \<Rightarrow> (instant \<times> watch_event) list \<Rightarrow> bool" where
  "steady dl d t [] = True"
| "steady dl d t ((x, Reading r) # es) =
     steady dl d (if sr_sensor_id r = d \<and> should_evaluate r then x else t) es"
| "steady dl d t ((x, Sweep) # es) = (x - t < dl \<and> steady dl d t es)"

definition events_ok :: "instant \<Rightarrow> (instant \<times> watch_event) list \<Rightarrow> bool" where
  "events_ok x0 es \<longleftrightarrow> sorted (x0 # map fst es)
     \<and> (\<forall>(x, e) \<in> set es. case e of Reading r \<Rightarrow> isOk (validate_sensor_reading r) | Sweep \<Rightarrow> True)"

definition watching :: "instant \<Rightarrow> (alert_db, 'bus) watcher \<Rightarrow> bool" where
  "watching x w \<longleftrightarrow> adb_ok (sw_db w) \<and> adb_raised_by (sw_db w) x \<and> watches postgres_silence_store w
     \<and> (\<forall>dc \<in> set (cadences (sw_db w)). device_id_ok (fst dc))
     \<and> (\<forall>ty \<in> ran (sw_sensor_types w). device_id_ok ty)"

lemma watching_mono: "watching x w \<Longrightarrow> x \<le> y \<Longrightarrow> watching y w"
  by (auto simp: watching_def intro: pgs.raised_by_mono)

lemma ran_update_all: "\<forall>y \<in> ran m. P y \<Longrightarrow> P v \<Longrightarrow> \<forall>y \<in> ran (m(k \<mapsto> v)). P y"
  by (auto simp: ran_def)

lemma watching_reading:
  assumes "watching x w" "isOk (validate_sensor_reading r)"
  shows "watching x (watch_step pub mid row (x, Reading r) w)
    \<and> cadences (sw_db (watch_step pub mid row (x, Reading r) w)) = cadences (sw_db w)
    \<and> sw_silent (watch_step pub mid row (x, Reading r) w) \<subseteq> sw_silent w
    \<and> sw_last_seen (watch_step pub mid row (x, Reading r) w) =
        (if should_evaluate r then (sw_last_seen w)(sr_sensor_id r \<mapsto> x) else sw_last_seen w)"
proof (cases "should_evaluate r")
  case True
  obtain r' where r: "validate_sensor_reading r = Inr r'" using assms(2) by (auto simp: isOk_iff)
  then have ty: "device_id_ok (sr_sensor_type r)"
    by (auto simp: validate_sensor_reading_def validated_Inr)
  have c: "sso_cadences postgres_silence_store = cadences" by (simp add: postgres_silence_store_def)
  from assms(1) have w: "adb_ok (sw_db w)" "adb_raised_by (sw_db w) x" "watches postgres_silence_store w"
    "\<forall>dc \<in> set (cadences (sw_db w)). device_id_ok (fst dc)" "\<forall>ty \<in> ran (sw_sensor_types w). device_id_ok ty"
    by (simp_all add: watching_def)
  obtain res w' where e: "watcher_on_reading postgres_silence_store pub (mid (sr_sensor_id r)) x r w = (res, w')"
    and w': "adb_ok (sw_db w')" "adb_raised_by (sw_db w') x" "watches postgres_silence_store w'"
    "sw_silent w' = sw_silent w - {sr_sensor_id r}" "sw_last_seen w' = (sw_last_seen w)(sr_sensor_id r \<mapsto> x)"
    "sw_sensor_types w' = (sw_sensor_types w)(sr_sensor_id r \<mapsto> sr_sensor_type r)"
    "cadences (sw_db w') = cadences (sw_db w)"
    using pgs.reading_law [OF w(1-3) r True, of pub "mid (sr_sensor_id r)"] unfolding c by blast
  have e': "watch_step pub mid row (x, Reading r) w = w'" by (simp add: watch_step_def e)
  have "\<forall>ty \<in> ran (sw_sensor_types w'). device_id_ok ty"
    unfolding w'(6) by (rule ran_update_all [OF w(5) ty])
  then show ?thesis unfolding e' using w' w(4) True by (auto simp: watching_def)
next
  case False
  then show ?thesis
    using assms(1) by (cases "sr_value r") (simp_all add: watch_step_def watcher_on_reading_def)
qed

lemma watching_sweep:
  assumes "watching x w"
  shows "watching x (watch_step pub mid row (x, Sweep) w)
    \<and> cadences (sw_db (watch_step pub mid row (x, Sweep) w)) = cadences (sw_db w)
    \<and> sw_last_seen (watch_step pub mid row (x, Sweep) w) = sw_last_seen w
    \<and> sw_silent (watch_step pub mid row (x, Sweep) w)
        \<subseteq> sw_silent w \<union> overdue x (sw_last_seen w) (cadences (sw_db w))"
proof -
  have c: "sso_cadences postgres_silence_store = cadences" by (simp add: postgres_silence_store_def)
  show ?thesis
    using pgs.sweep_loop_law [of w x "cadences (sw_db w)" pub mid row] assms
    unfolding watching_def watch_step_def sweep_def c by auto
qed

lemma steady_run:
  assumes "watching x0 w" "events_ok x0 es" "sw_last_seen w d = Some t" "d \<notin> sw_silent w"
    and "\<And>k. (d, k) \<in> set (cadences (sw_db w)) \<Longrightarrow> k = c" "steady (silence_deadline_s c) d t es"
  shows "d \<notin> sw_silent (fold (watch_step pub mid row) es w)
    \<and> watches postgres_silence_store (fold (watch_step pub mid row) es w)"
  using assms
proof (induction es arbitrary: x0 w t)
  case Nil
  then show ?case by (simp add: watching_def)
next
  case (Cons xe es)
  obtain x e where xe: "xe = (x, e)" by (cases xe)
  have x: "x0 \<le> x" "events_ok x es" using Cons.prems(2) by (auto simp: events_ok_def xe)
  note w = watching_mono [OF Cons.prems(1) x(1)]
  show ?case
  proof (cases e)
    case (Reading r)
    have ok: "isOk (validate_sensor_reading r)" using Cons.prems(2) by (auto simp: events_ok_def xe Reading)
    note law = watching_reading [OF w ok, of pub mid row]
    let ?w = "watch_step pub mid row (x, Reading r) w"
    let ?t = "if sr_sensor_id r = d \<and> should_evaluate r then x else t"
    have "sw_last_seen ?w d = Some ?t" using law Cons.prems(3) by simp
    moreover have "d \<notin> sw_silent ?w" using law Cons.prems(4) by auto
    moreover have "k = c" if "(d, k) \<in> set (cadences (sw_db ?w))" for k
      using that law Cons.prems(5) by simp
    moreover have "steady (silence_deadline_s c) d ?t es" using Cons.prems(6) by (simp add: xe Reading)
    ultimately show ?thesis using Cons.IH [of x ?w ?t] law x(2) by (simp add: xe Reading)
  next
    case Sweep
    note law = watching_sweep [OF w, of pub mid row]
    let ?w = "watch_step pub mid row (x, Sweep) w"
    have "d \<notin> overdue x (sw_last_seen w) (cadences (sw_db w))"
      using Cons.prems(3,5,6) by (auto simp: overdue_def xe Sweep not_le)
    then have "d \<notin> sw_silent ?w" using law Cons.prems(4) by blast
    moreover have "k = c" if "(d, k) \<in> set (cadences (sw_db ?w))" for k
      using that law Cons.prems(5) by simp
    moreover have "sw_last_seen ?w d = Some t" using law Cons.prems(3) by simp
    moreover have "steady (silence_deadline_s c) d t es" using Cons.prems(6) by (simp add: xe Sweep)
    ultimately show ?thesis using Cons.IH [of x ?w t] law x(2) by (simp add: xe Sweep)
  qed
qed

text \<open>
  No false alarm and no lost one. Through any sequence of readings and sweeps, whatever
  the publisher does, a probe whose good readings keep arriving within its deadline is never
  called silent; and the silent set is always the open silences in Postgres, so a restart
  resumes it.
\<close>

theorem steady_probe_never_silent:
  assumes "watching x0 w" "events_ok x0 es" "sw_last_seen w d = Some t" "d \<notin> sw_silent w"
    and "\<forall>k. (d, k) \<in> set (cadences (sw_db w)) \<longrightarrow> k = c" "steady (silence_deadline_s c) d t es"
  shows "\<not> is_silent d (fold (watch_step pub mid row) es w)
    \<and> sw_silent (prime_watcher postgres_silence_store x (fold (watch_step pub mid row) es w))
        = sw_silent (fold (watch_step pub mid row) es w)"
  using steady_run [OF assms(1-4) _ assms(6), of pub mid row] assms(5)
  by (auto simp: is_silent_def prime_watcher_def watches_def)

theorem steady_probe_never_silent_witness:
  "\<not> is_silent ''tank'' (fold (watch_step (\<lambda>s m n. (None, n)) (\<lambda>_. 1) (\<lambda>_. 2))
      [(130, Sweep), (140, Reading sample_reading), (199, Sweep)]
      sample_watcher)"
proof -
  have h: "watching 100 sample_watcher" using sample_watcher_ok by (simp add: watching_def)
  have e: "events_ok 100 [(130, Sweep), (140, Reading sample_reading), (199, Sweep)]"
    using sample_reading_valid by (simp add: events_ok_def sample_reading_def)
  have s: "sw_last_seen sample_watcher ''tank'' = Some 100" "''tank'' \<notin> sw_silent sample_watcher"
    "\<forall>k. (''tank'', k) \<in> set (cadences (sw_db sample_watcher)) \<longrightarrow> k = 10"
    "steady (silence_deadline_s 10) ''tank'' 100
       [(130, Sweep), (140, Reading sample_reading), (199, Sweep)]"
    by (simp_all add: sample_watcher_def cadences_def silence_deadline_s_def SILENCE_CADENCE_MULTIPLE_def
        SILENCE_FLOOR_S_def sample_reading_def should_evaluate_def)
  from steady_probe_never_silent [OF h e s, of "\<lambda>s m n. (None, n)"] show ?thesis by blast
qed

end
