(* ===== verification/Engine.thy ===== *)
theory Engine
  imports Scheduler Alerts Clock
begin

text \<open>
  The control engine, \<open>services/control_engine/bellasreef_control_engine/app.py\<close>, with the
  publisher it sends through (\<open>publisher.py\<close>) and the ledger of adopted devices
  (\<open>assignments.py\<close>). One record is the process's state together with the tables it is
  connected to and everything that has reached the broker; what a tick is told by its
  surroundings (clocks, fresh ids, whether a call to the database or the broker succeeds)
  is a record of its own. Metrics other than the suppression and error counters are not
  modelled.
\<close>

section \<open>What goes on the wire\<close>

datatype audit_event =
    OverrideReleased uuid string release_reason
  | AlertAudited sensor_alert

datatype wire =
    WCommand string actuator_command
  | WAlert string sensor_alert
  | WSilence string sensor_silence
  | WAudit string uuid audit_event
  | WBeat string heartbeat_message

text \<open>
  The broker's answer to a publish. A lost acknowledgement is a message that was taken and a
  call that raised.
\<close>

datatype broker_answer = Acked | Refused py_error | AckLost py_error

type_synonym accept = "wire \<Rightarrow> broker_answer"

definition send :: "accept \<Rightarrow> wire \<Rightarrow> wire list \<Rightarrow> py_error option \<times> wire list" where
  "send acc m bus =
     (case acc m of Acked \<Rightarrow> (None, bus @ [m]) | Refused e \<Rightarrow> (Some e, bus)
      | AckLost e \<Rightarrow> (Some e, bus @ [m]))"

section \<open>The publisher\<close>

definition DEFAULT_COMMAND_TTL_S :: seconds where "DEFAULT_COMMAND_TTL_S = 30"
definition UNPROVISIONED_WARN_INTERVAL_S :: seconds where "UNPROVISIONED_WARN_INTERVAL_S = 60"

record publisher =
  pb_source :: string
  pb_ttl_s :: seconds
  pb_nc :: bool
  pb_js :: bool
  pb_is_connected :: bool
  pb_beat_seq :: int
  pb_unprovisioned_warned_at :: "seconds option"

definition publisher_new :: "string \<Rightarrow> seconds \<Rightarrow> publisher result" where
  "publisher_new src ttl_s = validated [(\<not> ttl_s \<le> 0, ValueError ''ttl_s must be > 0'')]
     \<lparr>pb_source = src, pb_ttl_s = ttl_s, pb_nc = False, pb_js = False, pb_is_connected = False,
      pb_beat_seq = 0, pb_unprovisioned_warned_at = None\<rparr>"

definition publisher_connect :: "publisher \<Rightarrow> publisher" where
  "publisher_connect p = p\<lparr>pb_nc := True, pb_js := True, pb_is_connected := True\<rparr>"

definition publisher_close :: "publisher \<Rightarrow> publisher" where
  "publisher_close p = (if pb_nc p then p\<lparr>pb_nc := False, pb_js := False\<rparr> else p)"

definition connected :: "publisher \<Rightarrow> bool" where
  "connected p = (pb_nc p \<and> pb_is_connected p)"

definition build_pwm_command ::
    "publisher \<Rightarrow> uuid \<Rightarrow> uuid \<Rightarrow> string \<Rightarrow> duty \<Rightarrow> string \<Rightarrow> instant \<Rightarrow> actuator_command result" where
  "build_pwm_command p mid key channel_id duty reason now = validate_actuator_command
     \<lparr>schema_version = SCHEMA_VERSION, message_id = mid, emitted_at = now, source = pb_source p,
      ac_actuator_id = channel_id, ac_actuator_class = Pwm, ac_level = PwmLevel duty,
      ac_idempotency_key = key, ac_expires_at = now + pb_ttl_s p, ac_reason = Some reason\<rparr>"

definition emit :: "accept \<Rightarrow> publisher \<Rightarrow> actuator_command \<Rightarrow> wire list \<Rightarrow> py_error option \<times> wire list" where
  "emit acc p c bus =
     (if \<not> pb_js p then (Some (RuntimeError ''publisher not connected''), bus)
      else case cmd (class_token (ac_actuator_class c)) (ac_actuator_id c) of
        Inl e \<Rightarrow> (Some e, bus)
      | Inr subj \<Rightarrow> send acc (WCommand subj c) bus)"

definition publish_alert ::
    "accept \<Rightarrow> publisher \<Rightarrow> string \<Rightarrow> sensor_alert \<Rightarrow> wire list \<Rightarrow> py_error option \<times> wire list" where
  "publish_alert acc p subj a bus =
     (if \<not> pb_nc p then (Some (RuntimeError ''publisher not connected''), bus)
      else send acc (WAlert subj a) bus)"

definition publish_silence ::
    "accept \<Rightarrow> publisher \<Rightarrow> string \<Rightarrow> sensor_silence \<Rightarrow> wire list \<Rightarrow> py_error option \<times> wire list" where
  "publish_silence acc p subj s bus =
     (if \<not> pb_nc p then (Some (RuntimeError ''publisher not connected''), bus)
      else send acc (WSilence subj s) bus)"

definition publish_audit ::
    "accept \<Rightarrow> publisher \<Rightarrow> string \<Rightarrow> uuid \<Rightarrow> audit_event \<Rightarrow> wire list \<Rightarrow> py_error option \<times> wire list" where
  "publish_audit acc p category mid ev bus =
     (if \<not> pb_js p then (Some (RuntimeError ''publisher not connected''), bus)
      else case audit category of
        Inl e \<Rightarrow> (Some e, bus)
      | Inr subj \<Rightarrow> send acc (WAudit subj mid ev) bus)"

definition publisher_heartbeat ::
    "accept \<Rightarrow> uuid \<Rightarrow> instant \<Rightarrow> seconds \<Rightarrow> publisher \<Rightarrow> wire list
       \<Rightarrow> py_error option \<times> publisher \<times> wire list" where
  "publisher_heartbeat acc mid now interval_s p bus =
     (if \<not> pb_nc p then (Some (RuntimeError ''publisher not connected''), p, bus)
      else
        let p1 = p\<lparr>pb_beat_seq := pb_beat_seq p + 1\<rparr> in
        case validate_heartbeat
            \<lparr>schema_version = SCHEMA_VERSION, message_id = mid, emitted_at = now, source = pb_source p,
             hb_component = pb_source p, hb_sequence = pb_beat_seq p1, hb_interval_s = interval_s\<rparr> of
          Inl e \<Rightarrow> (Some e, p1, bus)
        | Inr b \<Rightarrow>
           (case heartbeat (hb_component b) of
              Inl e \<Rightarrow> (Some e, p1, bus)
            | Inr subj \<Rightarrow> (let (e, bus') = send acc (WBeat subj b) bus in (e, p1, bus'))))"

section \<open>The engine's state\<close>

record engine =
  en_scheduler :: scheduler
  en_overrides :: "override_table option"
  en_held :: "(string \<times> active_override) list"
  en_override_io_failing :: bool
  en_override_io_errors :: nat
  en_publisher :: "publisher option"
  en_bus :: "wire list"
  en_adopted :: "string set"
  en_assignments_loaded :: bool
  en_suppressed_unassigned :: "string set"
  en_suppressed :: "string \<Rightarrow> nat"
  en_loop_interval_s :: seconds
  en_liveness :: liveness_guard
  en_clock_trusted :: bool
  en_clock_was_trusted :: bool
  en_clock_refresh_due :: seconds
  en_alert_db :: alert_db
  en_alerts :: "(alert_db, wire list) alert_supervisor option"
  en_silence :: "(alert_db, wire list) watcher option"
  en_thresholds :: "string \<rightharpoonup> thresholds"
  en_threshold_refresh_s :: seconds
  en_thresholds_read_at :: seconds
  en_has_schedules :: bool
  en_last_curves :: "(string \<times> schedule_definition) list"
  en_schedule_read_failing :: bool
  en_schedule_reload_errors :: nat

definition CLOCK_REFRESH_S :: seconds where "CLOCK_REFRESH_S = 30"

definition suppress :: "string \<Rightarrow> engine \<Rightarrow> engine" where
  "suppress cause en = en\<lparr>en_suppressed := (en_suppressed en)(cause := Suc (en_suppressed en cause))\<rparr>"

text \<open>A database call can succeed, fail, or commit and lose its answer.\<close>

datatype store_outcome = Done | Failed | CommitLost

record tick_env =
  te_now :: instant
  te_off :: "string \<Rightarrow> instant \<Rightarrow> int"
  te_known_zone :: "string \<Rightarrow> bool"
  te_expire_clock :: "uuid \<Rightarrow> seconds \<times> instant"
  te_release :: "uuid \<Rightarrow> store_outcome"
  te_list :: bool
  te_arm_clock :: "uuid \<Rightarrow> seconds \<times> instant"
  te_curves :: "(string \<times> schedule_definition) list result"
  te_accept :: accept
  te_mid :: "string \<Rightarrow> uuid"
  te_key :: "string \<Rightarrow> uuid"
  te_audit_mid :: "uuid \<Rightarrow> uuid"
  te_row :: "string \<Rightarrow> uuid"

section \<open>Assignments and the hardware's own transitions\<close>

definition is_adopted :: "string \<Rightarrow> engine \<Rightarrow> bool" where
  "is_adopted d en = (d \<in> en_adopted en)"

text \<open>\<open>AssignmentLedger.apply\<close>, with \<open>on_tombstone\<close> wired to the scheduler's \<open>forget\<close>.\<close>

definition apply_assignment :: "device_assignment \<Rightarrow> engine \<Rightarrow> engine" where
  "apply_assignment a en =
     (if da_adopted a then en\<lparr>en_adopted := insert (da_device_id a) (en_adopted en)\<rparr>
      else en\<lparr>en_adopted := en_adopted en - {da_device_id a},
              en_scheduler := forget (da_device_id a) (en_scheduler en)\<rparr>)"

text \<open>A payload on the live subscription or in the drain: one that does not parse is skipped.\<close>

definition receive_assignment :: "device_assignment result \<Rightarrow> engine \<Rightarrow> engine" where
  "receive_assignment payload en = (case payload of Inl _ \<Rightarrow> en | Inr a \<Rightarrow> apply_assignment a en)"

definition on_reconnected :: "engine \<Rightarrow> engine" where
  "on_reconnected en = en\<lparr>en_assignments_loaded := False\<rparr>"

definition AUTONOMOUS_STATE_REASONS :: "state_reason set" where
  "AUTONOMOUS_STATE_REASONS = {Startup, SafeState, InterlockLatch}"

definition on_actuator_state :: "actuator_state \<Rightarrow> engine \<Rightarrow> engine" where
  "on_actuator_state st en =
     (if as_reason st \<notin> AUTONOMOUS_STATE_REASONS then en
      else en\<lparr>en_scheduler := forget (as_actuator_id st) (en_scheduler en)\<rparr>)"

definition receive_state :: "actuator_state result \<Rightarrow> engine \<Rightarrow> engine" where
  "receive_state payload en = (case payload of Inl _ \<Rightarrow> en | Inr st \<Rightarrow> on_actuator_state st en)"

text \<open>
  \<open>load_assignments\<close>: the retained stream's messages, or \<open>None\<close> when the stream is not
  provisioned yet.
\<close>

definition load_assignments ::
    "seconds \<Rightarrow> device_assignment result list option \<Rightarrow> engine \<Rightarrow> bool result \<times> engine" where
  "load_assignments mclk stream en =
     (case en_publisher en of
        None \<Rightarrow> (Inr (en_assignments_loaded en), en)
      | Some p \<Rightarrow>
          if \<not> pb_js p then (Inl (RuntimeError ''publisher not connected''), en)
          else case stream of
            None \<Rightarrow>
              (Inr False, en\<lparr>en_publisher := Some (p\<lparr>pb_unprovisioned_warned_at :=
                 (case pb_unprovisioned_warned_at p of
                    None \<Rightarrow> Some mclk
                  | Some t \<Rightarrow> if UNPROVISIONED_WARN_INTERVAL_S \<le> mclk - t then Some mclk else Some t)\<rparr>)\<rparr>)
          | Some payloads \<Rightarrow> (Inr True, fold receive_assignment payloads en))"

section \<open>Holds\<close>

definition audit_override_release ::
    "tick_env \<Rightarrow> uuid \<Rightarrow> string \<Rightarrow> release_reason \<Rightarrow> engine \<Rightarrow> engine" where
  "audit_override_release env i target why en =
     (case en_publisher en of
        None \<Rightarrow> en
      | Some p \<Rightarrow> en\<lparr>en_bus := snd (publish_audit (te_accept env) p ''command'' (te_audit_mid env i)
                                  (OverrideReleased i target why) (en_bus en))\<rparr>)"

definition rearm_overrides ::
    "tick_env \<Rightarrow> seconds \<Rightarrow> instant \<Rightarrow> engine \<Rightarrow> unit result \<times> engine" where
  "rearm_overrides env mclk wclk en =
     (case en_overrides en of
        None \<Rightarrow> (Inr (), en)
      | Some db \<Rightarrow>
         (case override_load_active mclk wclk None db of
            Inl e \<Rightarrow> (Inl e, en)
          | Inr (woke, db') \<Rightarrow>
             (Inr (), fold (\<lambda>r. audit_override_release env (ro_id r) (ro_target r) Lapsed) (wr_lapsed woke)
                (en\<lparr>en_overrides := Some db',
                    en_held := fold (\<lambda>o'. alist_put (ao_target o') o') (wr_live woke) []\<rparr>))))"

definition io_failed :: "engine \<Rightarrow> engine" where
  "io_failed en = en\<lparr>en_override_io_errors := Suc (en_override_io_errors en),
                     en_override_io_failing := True\<rparr>"

definition expire_one :: "tick_env \<Rightarrow> string \<times> active_override \<Rightarrow> engine \<Rightarrow> engine" where
  "expire_one env to en =
     (case en_overrides en of None \<Rightarrow> en
      | Some db \<Rightarrow>
         (let target = fst to; o' = snd to; (mclk, wclk) = te_expire_clock env (ao_id o') in
          if \<not> ao_is_expired None None mclk wclk o' then en
          else
            let outcome = te_release env (ao_id o');
                db' = (if outcome = Failed then db
                       else snd (override_release wclk (ao_id o') Expired None db));
                en1 = en\<lparr>en_overrides := Some db'\<rparr>
            in if outcome \<noteq> Done then io_failed en1
               else audit_override_release env (ao_id o') target Expired
                      (suppress ''override_expired''
                        (en1\<lparr>en_override_io_failing := False,
                             en_held := alist_pop target (en_held en1)\<rparr>))))"

definition expire_overrides :: "tick_env \<Rightarrow> engine \<Rightarrow> engine" where
  "expire_overrides env en = fold (expire_one env) (en_held en) en"

definition reload_one ::
    "tick_env \<Rightarrow> (string \<times> active_override) list \<Rightarrow> active_override
       \<Rightarrow> (string \<times> active_override) list \<Rightarrow> (string \<times> active_override) list" where
  "reload_one env old fresh held =
     (let (mclk, wclk) = te_arm_clock env (ao_id fresh) in
      case map_of old (ao_target fresh) of
        Some current \<Rightarrow>
          alist_put (ao_target fresh)
            (if ao_id current = ao_id fresh then current else ao_arm None None mclk wclk fresh) held
      | None \<Rightarrow> alist_put (ao_target fresh) (ao_arm None None mclk wclk fresh) held)"

definition reload_overrides :: "tick_env \<Rightarrow> engine \<Rightarrow> engine" where
  "reload_overrides env en =
     (case en_overrides en of
        None \<Rightarrow> en
      | Some db \<Rightarrow>
         (case (if te_list env then override_list_active db else Inl (OSError ''database'')) of
            Inl _ \<Rightarrow> io_failed en
          | Inr rows \<Rightarrow> en\<lparr>en_override_io_failing := False,
                           en_held := fold (reload_one env (en_held en)) rows []\<rparr>))"

section \<open>Schedules\<close>

text \<open>Dictionaries compare as dictionaries: their keys are unique, so sorted they are equal lists.\<close>

definition read_schedules ::
    "tick_env \<Rightarrow> engine \<Rightarrow> ((string \<times> schedule_definition) list \<times> channel_profile list option) result" where
  "read_schedules env en =
     res_bind (te_curves env) (\<lambda>curves.
       if sort_key fst curves = sort_key fst (en_last_curves en) then Inr (curves, None)
       else res_bind (map_result (\<lambda>cd. from_definition (te_known_zone env) (fst cd) (snd cd))
                        (sort_key fst curves))
              (\<lambda>profiles. Inr (curves, Some profiles)))"

definition reload_schedules :: "tick_env \<Rightarrow> engine \<Rightarrow> unit result \<times> engine" where
  "reload_schedules env en =
     (if \<not> en_has_schedules en then (Inr (), en)
      else case read_schedules env en of
          Inl _ \<Rightarrow> (Inr (), en\<lparr>en_schedule_reload_errors := Suc (en_schedule_reload_errors en),
                              en_schedule_read_failing := True\<rparr>)
        | Inr (curves, None) \<Rightarrow> (Inr (), en\<lparr>en_schedule_read_failing := False\<rparr>)
        | Inr (curves, Some profiles) \<Rightarrow>
           (case set_profiles profiles (en_scheduler en) of
              Inl e \<Rightarrow> (Inl e, en\<lparr>en_schedule_read_failing := False\<rparr>)
            | Inr sc \<Rightarrow> (Inr (), en\<lparr>en_schedule_read_failing := False, en_scheduler := sc,
                                  en_last_curves := curves\<rparr>)))"

section \<open>Alerting\<close>

text \<open>The supervisor and the watcher act on the engine's database and broker.\<close>

definition with_alerts ::
    "((alert_db, wire list) alert_supervisor \<Rightarrow> 'a \<times> (alert_db, wire list) alert_supervisor) \<Rightarrow>
     (alert_db, wire list) alert_supervisor \<Rightarrow> engine \<Rightarrow> 'a \<times> engine" where
  "with_alerts f su en =
     (let (res, su') = f (su\<lparr>su_db := en_alert_db en, su_bus := en_bus en\<rparr>)
      in (res, en\<lparr>en_alerts := Some su', en_alert_db := su_db su', en_bus := su_bus su'\<rparr>))"

definition with_silence ::
    "((alert_db, wire list) watcher \<Rightarrow> 'a \<times> (alert_db, wire list) watcher) \<Rightarrow>
     (alert_db, wire list) watcher \<Rightarrow> engine \<Rightarrow> 'a \<times> engine" where
  "with_silence f w en =
     (let (res, w') = f (w\<lparr>sw_db := en_alert_db en, sw_bus := en_bus en\<rparr>)
      in (res, en\<lparr>en_silence := Some w', en_alert_db := sw_db w', en_bus := sw_bus w'\<rparr>))"

definition alert_publish :: "accept \<Rightarrow> publisher option \<Rightarrow> (sensor_alert, wire list) publish" where
  "alert_publish acc p = (\<lambda>subj a bus. case p of
     None \<Rightarrow> (Some (RuntimeError ''no publisher''), bus) | Some p \<Rightarrow> publish_alert acc p subj a bus)"

definition silence_publish :: "accept \<Rightarrow> publisher option \<Rightarrow> (sensor_silence, wire list) publish" where
  "silence_publish acc p = (\<lambda>subj m bus. case p of
     None \<Rightarrow> (Some (RuntimeError ''no publisher''), bus) | Some p \<Rightarrow> publish_silence acc p subj m bus)"

text \<open>\<open>_refresh_thresholds\<close>: what the bands read returned; unusable bands are skipped.\<close>

definition load_bands :: "(string \<times> rat option \<times> rat option \<times> rat) list \<Rightarrow> (string \<rightharpoonup> thresholds)" where
  "load_bands bands = map_of (rev (somes (map (\<lambda>(d, lo, hi, m).
     case validate_thresholds \<lparr>th_minimum = lo, th_maximum = hi, th_clear_margin = m\<rparr> of
       Inl _ \<Rightarrow> None | Inr t \<Rightarrow> Some (d, t)) bands)))"

definition refresh_thresholds ::
    "seconds \<Rightarrow> bool \<Rightarrow> bool \<Rightarrow> bool \<Rightarrow> engine \<Rightarrow> unit result \<times> engine" where
  "refresh_thresholds mclk db_up resync_up force en =
     (if \<not> force \<and> mclk - en_thresholds_read_at en < en_threshold_refresh_s en then (Inr (), en)
      else
        let en1 = en\<lparr>en_thresholds_read_at := mclk\<rparr> in
        if \<not> db_up then (Inl (OSError ''database''), en1)
        else
          let en2 = en1\<lparr>en_thresholds := load_bands (configured_bands (en_alert_db en1))\<rparr> in
          case en_alerts en2 of
            None \<Rightarrow> (Inr (), en2)
          | Some su \<Rightarrow>
              if \<not> resync_up then (Inl (OSError ''database''), en2)
              else with_alerts (\<lambda>su. (Inr (), resync postgres_alert_store su)) su en2)"

text \<open>What one reading is told by its surroundings.\<close>

record reading_env =
  re_clock :: instant
  re_mono :: seconds
  re_db_up :: bool
  re_resync_up :: bool
  re_silence_mid :: uuid
  re_alerts :: env
  re_accept :: accept

fun audit_alerts :: "reading_env \<Rightarrow> sensor_alert list \<Rightarrow> engine \<Rightarrow> unit result \<times> engine" where
  "audit_alerts env [] en = (Inr (), en)"
| "audit_alerts env (a # as) en =
     (case en_publisher en of
        None \<Rightarrow> audit_alerts env as en
      | Some p \<Rightarrow>
         (case publish_audit (re_accept env) p ''alert'' (message_id a) (AlertAudited a) (en_bus en) of
            (Some e, bus) \<Rightarrow> (Inl e, en\<lparr>en_bus := bus\<rparr>)
          | (None, bus) \<Rightarrow> audit_alerts env as (en\<lparr>en_bus := bus\<rparr>)))"

definition evaluate_reading :: "reading_env \<Rightarrow> sensor_reading \<Rightarrow> engine \<Rightarrow> unit result \<times> engine" where
  "evaluate_reading env r en =
     (case refresh_thresholds (re_mono env) (re_db_up env) (re_resync_up env) False en of
        (Inl e, en1) \<Rightarrow> (Inl e, en1)
      | (Inr _, en1) \<Rightarrow>
         (case (en_thresholds en1 (sr_sensor_id r), en_alerts en1) of
            (Some t, Some su) \<Rightarrow>
              if (case en_silence en1 of None \<Rightarrow> False | Some w \<Rightarrow> is_silent (sr_sensor_id r) w)
              then (Inr (), en1)
              else
                (case with_alerts (supervisor_on_reading postgres_alert_store
                        (alert_publish (re_accept env) (en_publisher en1)) (re_alerts env)
                        ''control-engine'' r t) su en1 of
                   (Inl e, en2) \<Rightarrow> (Inl e, en2)
                 | (Inr published, en2) \<Rightarrow> audit_alerts env published en2)
          | _ \<Rightarrow> (Inr (), en1)))"

definition on_reading :: "reading_env \<Rightarrow> sensor_reading \<Rightarrow> engine \<Rightarrow> unit result \<times> engine" where
  "on_reading env r en =
     (case en_alerts en of
        None \<Rightarrow> (Inr (), en)
      | Some _ \<Rightarrow>
         (case en_silence en of
            None \<Rightarrow> evaluate_reading env r en
          | Some w \<Rightarrow>
             (case with_silence (watcher_on_reading postgres_silence_store
                     (silence_publish (re_accept env) (en_publisher en)) (re_silence_mid env)
                     (re_clock env) r) w en of
                (Inl e, en1) \<Rightarrow> (Inl e, en1)
              | (Inr _, en1) \<Rightarrow> evaluate_reading env r en1)))"

text \<open>The subscription's callback: a payload that does not parse is dropped, a handler that raises is logged.\<close>

definition receive_reading :: "reading_env \<Rightarrow> sensor_reading result \<Rightarrow> engine \<Rightarrow> engine" where
  "receive_reading env payload en =
     (case payload of Inl _ \<Rightarrow> en | Inr r \<Rightarrow> snd (on_reading env r en))"

definition sweep_silence :: "tick_env \<Rightarrow> engine \<Rightarrow> engine" where
  "sweep_silence env en =
     (case en_silence en of
        None \<Rightarrow> en
      | Some w \<Rightarrow> snd (with_silence (sweep postgres_silence_store
                     (silence_publish (te_accept env) (en_publisher en)) (te_mid env) (te_row env)
                     (te_now env)) w en))"

section \<open>The tick\<close>

definition publish_intent :: "tick_env \<Rightarrow> intent \<Rightarrow> engine \<Rightarrow> unit result \<times> engine" where
  "publish_intent env i en =
     (case en_publisher en of
        None \<Rightarrow> (Inr (), suppress ''no_spine'' en)
      | Some p \<Rightarrow>
          if \<not> connected p then (Inr (), suppress ''no_spine'' en)
          else case build_pwm_command p (te_mid env (in_channel_id i)) (te_key env (in_channel_id i))
                      (in_channel_id i) (in_duty i) (''lighting:'' @ in_reason i) (te_now env) of
            Inl e \<Rightarrow> (Inl e, en)
          | Inr c \<Rightarrow>
             (case emit (te_accept env) p c (en_bus en) of
                (Some _, bus) \<Rightarrow> (Inr (), suppress ''publish_failed'' (en\<lparr>en_bus := bus\<rparr>))
              | (None, bus) \<Rightarrow>
                  (Inr (), en\<lparr>en_bus := bus,
                              en_scheduler := mark_emitted i (te_now env) (en_scheduler en)\<rparr>)))"

definition intent_step :: "tick_env \<Rightarrow> intent \<Rightarrow> engine \<Rightarrow> unit result \<times> engine" where
  "intent_step env i en =
     (if \<not> is_adopted (in_channel_id i) en
      then (Inr (), suppress ''unassigned''
              (en\<lparr>en_suppressed_unassigned := insert (in_channel_id i) (en_suppressed_unassigned en)\<rparr>))
      else publish_intent env i
             (en\<lparr>en_suppressed_unassigned := en_suppressed_unassigned en - {in_channel_id i}\<rparr>))"

fun intent_loop :: "tick_env \<Rightarrow> intent list \<Rightarrow> engine \<Rightarrow> unit result \<times> engine" where
  "intent_loop env [] en = (Inr (), en)"
| "intent_loop env (i # is') en =
     (case intent_step env i en of
        (Inl e, en1) \<Rightarrow> (Inl e, en1)
      | (Inr _, en1) \<Rightarrow> intent_loop env is' en1)"

definition held_targets :: "(string \<times> active_override) list \<Rightarrow> (string \<times> held_target) list" where
  "held_targets held =
     map (\<lambda>to. (fst to, \<lparr>ht_duty = ao_duty (snd to), ht_transition = ao_transition (snd to)\<rparr>)) held"

definition tick :: "tick_env \<Rightarrow> engine \<Rightarrow> unit result \<times> engine" where
  "tick env en =
     (case reload_schedules env (reload_overrides env (expire_overrides env en)) of
        (Inl e, en1) \<Rightarrow> (Inl e, en1)
      | (Inr _, en1) \<Rightarrow>
         (let en2 = sweep_silence env en1 in
          case due (te_off env) (en_scheduler en2) (Aware (te_now env)) (held_targets (en_held en2)) of
            Inl e \<Rightarrow> (Inl e, en2)
          | Inr ints \<Rightarrow> intent_loop env ints en2))"

section \<open>The clock and the loop\<close>

definition refresh_clock_trust :: "seconds \<Rightarrow> bool \<Rightarrow> engine \<Rightarrow> engine" where
  "refresh_clock_trust mclk answer en =
     (if mclk < en_clock_refresh_due en then en
      else
        let en1 = en\<lparr>en_clock_refresh_due := mclk + CLOCK_REFRESH_S, en_clock_trusted := answer\<rparr> in
        if en_clock_trusted en1 = en_clock_was_trusted en1 then en1
        else
          let en2 = (if \<not> en_clock_trusted en1
                     then suppress ''clock_untrusted'' (en1\<lparr>en_scheduler := reset (en_scheduler en1)\<rparr>)
                     else en1)
          in en2\<lparr>en_clock_was_trusted := en_clock_trusted en2\<rparr>)"

record loop_env =
  le_mono :: seconds
  le_clock_answer :: bool
  le_beat_mid :: uuid
  le_stream :: "device_assignment result list option"
  le_tick :: tick_env

definition loop_heartbeat :: "loop_env \<Rightarrow> engine \<Rightarrow> engine" where
  "loop_heartbeat env en =
     (case en_publisher en of
        None \<Rightarrow> en
      | Some p \<Rightarrow>
          if \<not> en_clock_trusted en then en
          else
            let (_, p', bus) = publisher_heartbeat (te_accept (le_tick env)) (le_beat_mid env)
                  (te_now (le_tick env)) (en_loop_interval_s en) p (en_bus en)
            in en\<lparr>en_publisher := Some p', en_bus := bus\<rparr>)"

definition loop_assignments :: "loop_env \<Rightarrow> engine \<Rightarrow> unit result \<times> engine" where
  "loop_assignments env en =
     (case en_publisher en of
        None \<Rightarrow> (Inr (), en)
      | Some p \<Rightarrow>
          if connected p \<and> \<not> en_assignments_loaded en then
            (case load_assignments (le_mono env) (le_stream env) en of
               (Inl e, en1) \<Rightarrow> (Inl e, en1)
             | (Inr ok, en1) \<Rightarrow> (Inr (), en1\<lparr>en_assignments_loaded := ok\<rparr>))
          else (Inr (), en))"

definition loop_body :: "loop_env \<Rightarrow> engine \<Rightarrow> unit result \<times> engine" where
  "loop_body env en =
     (let en1 = refresh_clock_trust (le_mono env) (le_clock_answer env)
                  (en\<lparr>en_liveness := liveness_beat (le_mono env) (en_liveness en)\<rparr>);
          en2 = loop_heartbeat env en1
      in case loop_assignments env en2 of
           (Inl e, en3) \<Rightarrow> (Inl e, en3)
         | (Inr _, en3) \<Rightarrow> if en_clock_trusted en3 then tick (le_tick env) en3 else (Inr (), en3))"

fun engine_loop :: "loop_env list \<Rightarrow> engine \<Rightarrow> unit result \<times> engine" where
  "engine_loop [] en = (Inr (), en)"
| "engine_loop (env # envs) en =
     (case loop_body env en of
        (Inl e, en1) \<Rightarrow> (Inl e, en1)
      | (Inr _, en1) \<Rightarrow> engine_loop envs en1)"

section \<open>Health\<close>

definition engine_health :: "seconds \<Rightarrow> engine \<Rightarrow> bool \<times> string" where
  "engine_health mclk en =
     (if lg_timeout_s (en_liveness en) < liveness_age_s mclk (en_liveness en) then (False, ''loop stalled'')
      else if \<not> en_clock_trusted en then (False, ''host clock is not synchronised'')
      else if (case en_publisher en of None \<Rightarrow> False | Some p \<Rightarrow> \<not> connected p)
           then (False, ''spine not connected'')
      else (True, ''ok''))"

end
