(* ===== verification/EngineTick.thy ===== *)
theory EngineTick
  imports Engine
begin

text \<open>
  The engine's invariant and what its tick and its loop do: which commands reach the broker,
  what the scheduler may remember, that nothing the database or the broker does stops the
  loop.
\<close>

section \<open>What reaches the broker\<close>

fun command_of :: "wire \<Rightarrow> actuator_command option" where
  "command_of (WCommand _ c) = Some c"
| "command_of _ = None"

definition commands_of :: "wire list \<Rightarrow> actuator_command list" where
  "commands_of bus = somes (map command_of bus)"

lemma commands_of_simps [simp]:
  "commands_of [] = []"
  "commands_of (xs @ ys) = commands_of xs @ commands_of ys"
  "commands_of [WCommand s c] = [c]"
  "commands_of [WAlert s a] = []" "commands_of [WSilence s m] = []"
  "commands_of [WAudit s u e] = []" "commands_of [WBeat s b] = []"
  by (simp_all add: commands_of_def)

lemma send_quiet:
  "command_of m = None \<Longrightarrow> commands_of (snd (send acc m bus)) = commands_of bus"
  by (cases "acc m"; cases m) (simp_all add: send_def)

lemma publish_quiet [simp]:
  "commands_of (snd (publish_audit acc p category mid ev bus)) = commands_of bus"
  "commands_of (snd (publish_silence acc p subj sm bus)) = commands_of bus"
  "commands_of (snd (publish_alert acc p subj sa bus)) = commands_of bus"
  by (auto simp: publish_audit_def publish_silence_def publish_alert_def send_quiet split: sum.splits)

lemma silence_publish_quiet [simp]:
  "commands_of (snd (silence_publish acc p subj m bus)) = commands_of bus"
  by (simp add: silence_publish_def split: option.splits)

lemma emit_silence_quiet:
  assumes "\<And>s m b. commands_of (snd (pub s m b)) = commands_of b"
  shows "commands_of (sw_bus (snd (emit_silence pub mid d ty st x y z at' w))) = commands_of (sw_bus w)"
proof -
  have "commands_of b' = commands_of b" if "pub s m b = (e, b')" for s m b e b'
    using assms [of s m b] that by simp
  then show ?thesis by (auto simp: emit_silence_def split: sum.splits prod.splits option.splits)
qed

lemma sweep_loop_quiet:
  assumes "\<And>s m b. commands_of (snd (pub s m b)) = commands_of b"
  shows "commands_of (sw_bus (snd (sweep_loop S pub mid row at' cs w))) = commands_of (sw_bus w)"
proof (induction cs arbitrary: w)
  case (Cons dc cs)
  have "commands_of (sw_bus (snd (sweep_one S pub mid row at' dc w))) = commands_of (sw_bus w)"
    by (auto simp: sweep_one_def Let_def emit_silence_quiet [OF assms] split: sum.splits option.splits)
  then show ?case using Cons.IH by (auto split: prod.splits sum.splits)
qed simp

lemma sweep_quiet [simp]:
  "commands_of (sw_bus (snd (sweep_loop S (silence_publish acc p) mid row at' cs w))) = commands_of (sw_bus w)"
  by (rule sweep_loop_quiet) simp

section \<open>What the parts of a tick leave alone\<close>

lemma suppress_simps [simp]:
  "en_scheduler (suppress x en) = en_scheduler en" "en_overrides (suppress x en) = en_overrides en"
  "en_held (suppress x en) = en_held en" "en_publisher (suppress x en) = en_publisher en"
  "en_bus (suppress x en) = en_bus en" "en_adopted (suppress x en) = en_adopted en"
  "en_override_io_failing (suppress x en) = en_override_io_failing en"
  by (simp_all add: suppress_def)

lemma io_failed_simps [simp]:
  "en_scheduler (io_failed en) = en_scheduler en" "en_overrides (io_failed en) = en_overrides en"
  "en_held (io_failed en) = en_held en" "en_publisher (io_failed en) = en_publisher en"
  "en_bus (io_failed en) = en_bus en" "en_adopted (io_failed en) = en_adopted en"
  by (simp_all add: io_failed_def)

lemma audit_release_simps [simp]:
  "en_scheduler (audit_override_release env i t why en) = en_scheduler en"
  "en_overrides (audit_override_release env i t why en) = en_overrides en"
  "en_held (audit_override_release env i t why en) = en_held en"
  "en_publisher (audit_override_release env i t why en) = en_publisher en"
  "en_adopted (audit_override_release env i t why en) = en_adopted en"
  "commands_of (en_bus (audit_override_release env i t why en)) = commands_of (en_bus en)"
  by (simp_all add: audit_override_release_def split: option.splits)

definition same_core :: "engine \<Rightarrow> engine \<Rightarrow> bool" where
  "same_core en en' \<longleftrightarrow> en_scheduler en' = en_scheduler en \<and> en_publisher en' = en_publisher en
     \<and> en_adopted en' = en_adopted en \<and> commands_of (en_bus en') = commands_of (en_bus en)"

lemma same_core_refl [simp]: "same_core en en"
  by (simp add: same_core_def)

lemma same_core_trans: "same_core a b \<Longrightarrow> same_core b c \<Longrightarrow> same_core a c"
  by (simp add: same_core_def)

lemma expire_one_core: "same_core en (expire_one env to en)"
  by (auto simp: same_core_def expire_one_def Let_def case_prod_unfold split: option.splits)

lemma expire_core: "same_core en (expire_overrides env en)"
proof -
  have "same_core a b \<Longrightarrow> same_core a (fold (expire_one env) xs b)" for a b xs
    by (induction xs arbitrary: b) (simp, simp only: fold.simps comp_apply, metis same_core_trans expire_one_core)
  then show ?thesis by (simp add: expire_overrides_def)
qed

lemma reload_core: "same_core en (reload_overrides env en)"
  by (auto simp: same_core_def reload_overrides_def split: option.splits sum.splits)

lemma sweep_core: "same_core en (sweep_silence env en) \<and> en_held (sweep_silence env en) = en_held en
    \<and> en_overrides (sweep_silence env en) = en_overrides en"
  by (auto simp: same_core_def sweep_silence_def with_silence_def Let_def case_prod_unfold sweep_def
      split: option.splits)

section \<open>One intent\<close>

definition publisher_ok :: "publisher \<Rightarrow> bool" where
  "publisher_ok p \<longleftrightarrow> device_id_ok (pb_source p) \<and> 0 < pb_ttl_s p \<and> pb_nc p = pb_js p"

definition intent_ok :: "intent \<Rightarrow> bool" where
  "intent_ok i \<longleftrightarrow> device_id_ok (in_channel_id i) \<and> 0 \<le> in_duty i \<and> in_duty i \<le> 1
     \<and> length (in_reason i) \<le> 500"

text \<open>The command an intent becomes.\<close>

definition carries :: "tick_env \<Rightarrow> publisher \<Rightarrow> intent \<Rightarrow> actuator_command \<Rightarrow> bool" where
  "carries env p i c \<longleftrightarrow> validate_actuator_command c = Inr c \<and> ac_actuator_id c = in_channel_id i
     \<and> ac_level c = PwmLevel (in_duty i) \<and> emitted_at c = te_now env
     \<and> ac_expires_at c = te_now env + pb_ttl_s p"

lemma build_ok:
  assumes "publisher_ok p" "intent_ok i"
  shows "\<exists>c. build_pwm_command p mid key (in_channel_id i) (in_duty i) (''lighting:'' @ in_reason i) (te_now env)
    = Inr c \<and> carries env p i c \<and> ac_actuator_class c = Pwm"
  using assms
  by (auto simp: build_pwm_command_def validate_actuator_command_def validation_defs carries_def
      publisher_ok_def intent_ok_def str_len_ok_def)

lemma token_pwm: "cmd (class_token Pwm) c = cmd ''pwm'' c"
  by (simp add: class_token_def)

lemma emit_effect:
  "commands_of (snd (emit acc p c bus)) = commands_of bus \<and> fst (emit acc p c bus) \<noteq> None
   \<or> commands_of (snd (emit acc p c bus)) = commands_of bus @ [c]"
  by (auto simp: emit_def send_def split: sum.splits broker_answer.splits)

definition step_rel :: "tick_env \<Rightarrow> intent \<Rightarrow> engine \<Rightarrow> engine \<Rightarrow> actuator_command list \<Rightarrow> bool" where
  "step_rel env i en en' cs \<longleftrightarrow>
     en_publisher en' = en_publisher en \<and> en_adopted en' = en_adopted en \<and> en_held en' = en_held en
     \<and> en_overrides en' = en_overrides en \<and> commands_of (en_bus en') = commands_of (en_bus en) @ cs
     \<and> (cs = [] \<and> en_scheduler en' = en_scheduler en
        \<or> (\<exists>c p. cs = [c] \<and> en_publisher en = Some p \<and> in_channel_id i \<in> en_adopted en \<and> carries env p i c
             \<and> en_scheduler en' \<in> {en_scheduler en, mark_emitted i (te_now env) (en_scheduler en)}))"

lemma intent_step_effect:
  assumes "\<forall>p. en_publisher en = Some p \<longrightarrow> publisher_ok p" "intent_ok i"
  shows "\<exists>en' cs. intent_step env i en = (Inr (), en') \<and> step_rel env i en en' cs"
proof (cases "in_channel_id i \<in> en_adopted en \<and> (\<exists>p. en_publisher en = Some p \<and> connected p)")
  case False
  then show ?thesis
    by (auto simp: intent_step_def publish_intent_def is_adopted_def step_rel_def split: option.splits)
next
  case True
  then obtain p where p: "en_publisher en = Some p" "connected p" by blast
  obtain c where c: "build_pwm_command p (te_mid env (in_channel_id i)) (te_key env (in_channel_id i))
      (in_channel_id i) (in_duty i) (''lighting:'' @ in_reason i) (te_now env) = Inr c" "carries env p i c"
    using build_ok [OF _ assms(2)] assms(1) p(1) by blast
  obtain e bus where e: "emit (te_accept env) p c (en_bus en) = (e, bus)" by (cases "emit (te_accept env) p c (en_bus en)")
  show ?thesis
    using emit_effect [of "te_accept env" p c "en_bus en"] True p c e
    by (cases e) (auto simp: intent_step_def publish_intent_def is_adopted_def step_rel_def)
qed

definition loop_rel ::
    "tick_env \<Rightarrow> intent list \<Rightarrow> engine \<Rightarrow> engine \<Rightarrow> actuator_command list \<Rightarrow> intent list \<Rightarrow> bool" where
  "loop_rel env ints en en' cs acked \<longleftrightarrow>
    en_publisher en' = en_publisher en \<and> en_adopted en' = en_adopted en \<and> en_held en' = en_held en
    \<and> en_overrides en' = en_overrides en \<and> commands_of (en_bus en') = commands_of (en_bus en) @ cs
    \<and> distinct (map ac_actuator_id cs)
    \<and> (\<forall>c \<in> set cs. \<exists>i \<in> set ints. \<exists>p. en_publisher en = Some p \<and> in_channel_id i \<in> en_adopted en \<and> carries env p i c)
    \<and> en_scheduler en' = fold (\<lambda>i. mark_emitted i (te_now env)) acked (en_scheduler en)
    \<and> (\<forall>i \<in> set acked. i \<in> set ints \<and> (\<exists>c \<in> set cs. \<exists>p. en_publisher en = Some p \<and> carries env p i c))"

lemma intent_loop_rel:
  assumes "\<forall>p. en_publisher en = Some p \<longrightarrow> publisher_ok p" "\<forall>i \<in> set ints. intent_ok i"
    and "distinct (map in_channel_id ints)"
  shows "\<exists>en' cs acked. intent_loop env ints en = (Inr (), en')
    \<and> en_publisher en' = en_publisher en \<and> en_adopted en' = en_adopted en \<and> en_held en' = en_held en
    \<and> en_overrides en' = en_overrides en \<and> commands_of (en_bus en') = commands_of (en_bus en) @ cs
    \<and> distinct (map ac_actuator_id cs)
    \<and> (\<forall>c \<in> set cs. \<exists>i \<in> set ints. \<exists>p. en_publisher en = Some p \<and> in_channel_id i \<in> en_adopted en \<and> carries env p i c)
    \<and> en_scheduler en' = fold (\<lambda>i. mark_emitted i (te_now env)) acked (en_scheduler en)
    \<and> (\<forall>i \<in> set acked. i \<in> set ints \<and> (\<exists>c \<in> set cs. \<exists>p. en_publisher en = Some p \<and> carries env p i c))"
  using assms
proof (induction ints arbitrary: en)
  case Nil
  then show ?case by (intro exI [of _ en] exI [of _ "[]"]) simp
next
  case (Cons i is')
  obtain en1 cs1 where s1: "intent_step env i en = (Inr (), en1)" "step_rel env i en en1 cs1"
    using intent_step_effect [of en i env] Cons.prems(1,2) by auto
  then have same: "en_publisher en1 = en_publisher en" "en_adopted en1 = en_adopted en" by (auto simp: step_rel_def)
  obtain en' cs acked where ih: "intent_loop env is' en1 = (Inr (), en')"
    "en_publisher en' = en_publisher en1" "en_adopted en' = en_adopted en1" "en_held en' = en_held en1"
    "en_overrides en' = en_overrides en1" "commands_of (en_bus en') = commands_of (en_bus en1) @ cs"
    "distinct (map ac_actuator_id cs)"
    "\<forall>c \<in> set cs. \<exists>i \<in> set is'. \<exists>p. en_publisher en1 = Some p \<and> in_channel_id i \<in> en_adopted en1 \<and> carries env p i c"
    "en_scheduler en' = fold (\<lambda>i. mark_emitted i (te_now env)) acked (en_scheduler en1)"
    "\<forall>i \<in> set acked. i \<in> set is' \<and> (\<exists>c \<in> set cs. \<exists>p. en_publisher en1 = Some p \<and> carries env p i c)"
    using Cons.IH [of en1] Cons.prems same by auto
  have run: "intent_loop env (i # is') en = (Inr (), en')" using s1(1) ih(1) by simp
  have fresh: "in_channel_id i \<notin> ac_actuator_id ` set cs"
    using ih(8) Cons.prems(3) by (force simp: carries_def)
  consider (none) "cs1 = []" "en_scheduler en1 = en_scheduler en"
    | (sent) c p where "cs1 = [c]" "en_publisher en = Some p" "in_channel_id i \<in> en_adopted en" "carries env p i c"
        "en_scheduler en1 \<in> {en_scheduler en, mark_emitted i (te_now env) (en_scheduler en)}"
    using s1(2) unfolding step_rel_def by blast
  then show ?case
  proof cases
    case none
    with ih run s1(2) same show ?thesis
      by (intro exI [of _ en'] exI [of _ cs] exI [of _ acked]) (auto simp: step_rel_def)
  next
    case sent
    have "distinct (map ac_actuator_id (c # cs))" using ih(7) fresh sent(4) by (auto simp: carries_def)
    then show ?thesis
    proof (cases "en_scheduler en1 = en_scheduler en")
      case True
      with \<open>distinct (map ac_actuator_id (c # cs))\<close> sent ih run s1(2) same show ?thesis
        by (intro exI [of _ en'] exI [of _ "c # cs"] exI [of _ acked]) (auto simp: step_rel_def)
    next
      case False
      with \<open>distinct (map ac_actuator_id (c # cs))\<close> sent ih run s1(2) same show ?thesis
        by (intro exI [of _ en'] exI [of _ "c # cs"] exI [of _ "i # acked"]) (auto simp: step_rel_def)
    qed
  qed
qed

lemma intent_loop_effect:
  assumes "\<forall>p. en_publisher en = Some p \<longrightarrow> publisher_ok p" "\<forall>i \<in> set ints. intent_ok i"
    and "distinct (map in_channel_id ints)"
  shows "\<exists>en' cs acked. intent_loop env ints en = (Inr (), en') \<and> loop_rel env ints en en' cs acked"
  unfolding loop_rel_def by (rule intent_loop_rel [OF assms])

section \<open>The engine's invariant\<close>

definition memory_channels :: "scheduler \<Rightarrow> string set" where
  "memory_channels sc = set (channel_ids (sc_profiles sc)) \<union> fst ` set (sc_last_duty sc)
     \<union> fst ` set (sc_last_hold sc)"

definition hold_entry_ok :: "string \<times> active_override \<Rightarrow> bool" where
  "hold_entry_ok to \<longleftrightarrow> device_id_ok (fst to) \<and> 0 \<le> ao_duty (snd to) \<and> ao_duty (snd to) \<le> 1"

definition store_ok :: "override_table option \<Rightarrow> bool" where
  "store_ok db \<longleftrightarrow> (case db of None \<Rightarrow> True
     | Some rows \<Rightarrow> table_ok rows \<and> (\<forall>r \<in> set rows. device_id_ok (or_target r)))"

definition engine_ok :: "(string \<Rightarrow> bool) \<Rightarrow> engine \<Rightarrow> bool" where
  "engine_ok kz en \<longleftrightarrow> scheduler_ok kz (en_scheduler en)
     \<and> (\<forall>c \<in> memory_channels (en_scheduler en). device_id_ok c)
     \<and> (\<forall>to \<in> set (en_held en). hold_entry_ok to)
     \<and> store_ok (en_overrides en)
     \<and> (\<forall>p. en_publisher en = Some p \<longrightarrow> publisher_ok p)"

definition tick_env_ok :: "(string \<Rightarrow> bool) \<Rightarrow> tick_env \<Rightarrow> bool" where
  "tick_env_ok kz env \<longleftrightarrow> te_known_zone env = kz
     \<and> (\<forall>cs. te_curves env = Inr cs \<longrightarrow> distinct (map fst cs))"

lemma emit_for_reason:
  assumes "emit_for sc c resting now hold = Some i" shows "length (in_reason i) \<le> 500"
  using if_chain_Some [OF assms [unfolded emit_for_def Let_def case_prod_unfold]]
  by (elim disjE conjE) simp_all

lemma memory_mark: "memory_channels (mark_emitted i t sc) \<subseteq> insert (in_channel_id i) (memory_channels sc)"
  by (auto simp: memory_channels_def mark_emitted_def fst_alist_put split: option.splits)

lemma memory_forget: "memory_channels (forget c sc) \<subseteq> memory_channels sc"
  by (auto simp: memory_channels_def forget_def)

lemma memory_reset: "memory_channels (reset sc) \<subseteq> memory_channels sc"
  by (auto simp: memory_channels_def reset_def)

lemma memory_fold_mark:
  "memory_channels (fold (\<lambda>i. mark_emitted i t) is' sc) \<subseteq> in_channel_id ` set is' \<union> memory_channels sc"
proof (induction is' arbitrary: sc)
  case (Cons i is')
  then show ?case using memory_mark [of i t sc] by fastforce
qed simp

lemma scheduler_ok_fold_mark:
  "scheduler_ok kz sc \<Longrightarrow> \<forall>i \<in> set is'. 0 \<le> in_duty i \<and> in_duty i \<le> 1
   \<Longrightarrow> scheduler_ok kz (fold (\<lambda>i. mark_emitted i t) is' sc)"
  by (induction is' arbitrary: sc) (auto intro: scheduler_ok_mark)

lemma due_intents_ok:
  assumes "scheduler_ok kz sc" "\<forall>c \<in> memory_channels sc. device_id_ok c" "\<forall>to \<in> set held. hold_entry_ok to"
    and "due off sc (Aware now) (held_targets held) = Inr ints"
  shows "\<forall>i \<in> set ints. intent_ok i"
proof
  fix i assume i: "i \<in> set ints"
  have h: "held_ok (held_targets held)" using assms(3) by (auto simp: held_ok_def held_targets_def hold_entry_ok_def)
  have "in_channel_id i \<in> memory_channels sc \<union> fst ` set held"
    using due_channel [OF assms(4) i] by (auto simp: memory_channels_def held_targets_def image_image)
  then have "device_id_ok (in_channel_id i)" using assms(2,3) by (auto simp: hold_entry_ok_def)
  moreover obtain resting where "emit_for sc (in_channel_id i) resting now
      (map_of (held_targets held) (in_channel_id i)) = Some i"
    using due_Inr [OF assms(4) i] by blast
  ultimately show "intent_ok i"
    using due_range [OF assms(1) h assms(4) i] emit_for_reason by (auto simp: intent_ok_def)
qed

section \<open>Every part of the tick keeps the invariant\<close>

lemma store_ok_release:
  assumes "store_ok (Some db)"
  shows "store_ok (Some (snd (override_release wclk i why now db)))"
proof -
  have "or_target ` set (snd (override_release wclk i why now db)) \<subseteq> or_target ` set db"
    by (auto simp: override_release_def close_where_def Let_def)
  then show ?thesis
    using assms table_ok_release [of db wclk i why now] by (fastforce simp: store_ok_def)
qed

lemma expire_one_ok:
  assumes "engine_ok kz en" shows "engine_ok kz (expire_one env to en)"
proof (cases "en_overrides en")
  case None
  then show ?thesis using assms by (simp add: expire_one_def)
next
  case (Some db)
  then have "store_ok (Some db)" using assms by (simp add: engine_ok_def)
  note rel = store_ok_release [OF this]
  have sub: "set (alist_pop t xs) \<subseteq> set xs" for t and xs :: "(string \<times> active_override) list"
    by (auto simp: alist_pop_def)
  show ?thesis
    using assms rel Some sub unfolding engine_ok_def
    by (auto simp: expire_one_def Let_def case_prod_unfold subset_iff)
qed

lemma expire_ok: "engine_ok kz en \<Longrightarrow> engine_ok kz (expire_overrides env en)"
proof -
  have "engine_ok kz en \<Longrightarrow> engine_ok kz (fold (expire_one env) xs en)" for xs
    by (induction xs arbitrary: en) (simp_all add: expire_one_ok)
  then show "engine_ok kz en \<Longrightarrow> engine_ok kz (expire_overrides env en)" by (simp add: expire_overrides_def)
qed

lemma list_active_entry:
  assumes "store_ok (Some db)" "override_list_active db = Inr rows" "o' \<in> set rows"
  shows "hold_entry_ok (ao_target o', o')"
proof -
  obtain r where r: "r \<in> set (sort_key or_created_at (filter row_live db))" "row_to_active r = Inr o'"
    using map_result_mem [OF assms(2) [unfolded override_list_active_def] assms(3)] by blast
  then show ?thesis
    using assms(1) row_to_active_Inr [OF r(2)] by (auto simp: store_ok_def table_ok_def hold_entry_ok_def)
qed

lemma ao_arm_simps [simp]:
  "ao_duty (ao_arm m w mc wc o') = ao_duty o'" "ao_id (ao_arm m w mc wc o') = ao_id o'"
  "ao_target (ao_arm m w mc wc o') = ao_target o'"
  by (simp_all add: ao_arm_def)

text \<open>What a row read from the store becomes in memory.\<close>

definition kept_or_armed ::
    "tick_env \<Rightarrow> (string \<times> active_override) list \<Rightarrow> active_override \<Rightarrow> active_override" where
  "kept_or_armed env old fresh =
     (case map_of old (ao_target fresh) of
        Some current \<Rightarrow> if ao_id current = ao_id fresh then current
          else ao_arm None None (fst (te_arm_clock env (ao_id fresh))) (snd (te_arm_clock env (ao_id fresh))) fresh
      | None \<Rightarrow>
          ao_arm None None (fst (te_arm_clock env (ao_id fresh))) (snd (te_arm_clock env (ao_id fresh))) fresh)"

lemma reload_one_eq:
  "reload_one env old o' held = alist_put (ao_target o') (kept_or_armed env old o') held"
  by (simp add: reload_one_def kept_or_armed_def Let_def case_prod_unfold split: option.split)

lemma kept_or_armed_entry:
  assumes "\<forall>to \<in> set old. hold_entry_ok to" "hold_entry_ok (ao_target o', o')"
  shows "hold_entry_ok (ao_target o', kept_or_armed env old o')"
proof (cases "map_of old (ao_target o')")
  case (Some current)
  then have "hold_entry_ok (ao_target o', current)" using assms(1) map_of_SomeD by fast
  then show ?thesis using assms(2) Some by (simp add: kept_or_armed_def hold_entry_ok_def)
qed (use assms(2) in \<open>simp add: kept_or_armed_def hold_entry_ok_def\<close>)

lemma reload_one_entry:
  assumes "\<forall>to \<in> set old. hold_entry_ok to" "hold_entry_ok (ao_target o', o')"
    and "to \<in> set (reload_one env old o' held)"
  shows "hold_entry_ok to \<or> to \<in> set held"
  using set_alist_putD [OF assms(3) [unfolded reload_one_eq]] kept_or_armed_entry [OF assms(1,2)] by auto

lemma reload_fold_entries:
  assumes "\<forall>to \<in> set old. hold_entry_ok to" "\<forall>o' \<in> set rows. hold_entry_ok (ao_target o', o')"
    and "\<forall>to \<in> set held. hold_entry_ok to"
  shows "\<forall>to \<in> set (fold (reload_one env old) rows held). hold_entry_ok to"
  using assms(2,3)
proof (induction rows arbitrary: held)
  case (Cons o' rows)
  have "\<forall>to \<in> set (reload_one env old o' held). hold_entry_ok to"
    using reload_one_entry [OF assms(1), of o' _ env held] Cons.prems by auto
  then show ?case using Cons.IH Cons.prems by simp
qed simp

lemma reload_overrides_ok:
  assumes "engine_ok kz en" shows "engine_ok kz (reload_overrides env en)"
proof (cases "en_overrides en")
  case None
  then show ?thesis using assms by (simp add: reload_overrides_def)
next
  case (Some db)
  show ?thesis
  proof (cases "if te_list env then override_list_active db else Inl (OSError ''database'')")
    case (Inl e)
    then show ?thesis using assms Some by (simp add: reload_overrides_def engine_ok_def)
  next
    case (Inr rows)
    then have "override_list_active db = Inr rows" by (simp split: if_splits)
    moreover have "store_ok (Some db)" using assms Some by (simp add: engine_ok_def)
    ultimately have "\<forall>o' \<in> set rows. hold_entry_ok (ao_target o', o')" using list_active_entry by blast
    then have "\<forall>to \<in> set (fold (reload_one env (en_held en)) rows []). hold_entry_ok to"
      using assms by (intro reload_fold_entries) (simp_all add: engine_ok_def)
    then show ?thesis using assms Some Inr by (simp add: reload_overrides_def engine_ok_def)
  qed
qed

lemma from_definition_profiles:
  assumes "map_result (\<lambda>cd. from_definition kz (fst cd) (snd cd)) cs = Inr ps"
  shows "channel_ids ps = map fst cs \<and> (\<forall>p \<in> set ps. validate_channel_profile kz p = Inr p)"
proof -
  have "list_all2 (\<lambda>cd p. from_definition kz (fst cd) (snd cd) = Inr p) cs ps"
    using assms by (simp add: map_result_Inr)
  then show ?thesis
    by (induction rule: list_all2_induct)
      (auto simp: channel_ids_def from_definition_def validate_channel_profile_Inr)
qed

lemma reload_schedules_ok:
  assumes "engine_ok kz en" "tick_env_ok kz env"
  shows "\<exists>en'. reload_schedules env en = (Inr (), en') \<and> engine_ok kz en'
    \<and> en_publisher en' = en_publisher en \<and> en_adopted en' = en_adopted en \<and> en_held en' = en_held en
    \<and> en_bus en' = en_bus en \<and> sc_last_duty (en_scheduler en') = sc_last_duty (en_scheduler en)
    \<and> sc_last_hold (en_scheduler en') = sc_last_hold (en_scheduler en)
    \<and> sc_last_emitted_at (en_scheduler en') = sc_last_emitted_at (en_scheduler en)"
proof (cases "en_has_schedules en")
  case False
  then show ?thesis using assms(1) by (simp add: reload_schedules_def)
next
  case has: True
  show ?thesis
  proof (cases "read_schedules env en")
    case (Inl e)
    then show ?thesis using assms(1) has by (simp add: reload_schedules_def engine_ok_def)
  next
    case (Inr r)
    obtain cs x where r: "r = (cs, x)" by (cases r)
    show ?thesis
    proof (cases x)
      case None
      then show ?thesis using assms(1) has Inr r by (simp add: reload_schedules_def engine_ok_def)
    next
      case (Some ps)
      have cs: "te_curves env = Inr cs"
        "map_result (\<lambda>cd. from_definition kz (fst cd) (snd cd)) (sort_key fst cs) = Inr ps"
        using Inr assms(2) unfolding r Some
        by (auto simp: read_schedules_def res_bind_eq_Inr tick_env_ok_def split: if_splits)
      note fd = from_definition_profiles [OF cs(2)]
      have "distinct (channel_ids ps)"
        using assms(2) cs(1) fd by (simp add: tick_env_ok_def distinct_map)
      then have sp: "set_profiles ps (en_scheduler en) = Inr ((en_scheduler en)\<lparr>sc_profiles := ps\<rparr>)"
        by (simp add: set_profiles_def validated_def)
      have "scheduler_ok kz ((en_scheduler en)\<lparr>sc_profiles := ps\<rparr>)"
        using scheduler_ok_set_profiles [OF _ sp] assms(1) fd by (simp add: engine_ok_def)
      moreover have "device_id_ok c" if "c \<in> set (channel_ids ps)" for c
        using that fd by (auto simp: channel_ids_def validate_channel_profile_Inr device_id_ok_def)
      ultimately have "engine_ok kz (en\<lparr>en_schedule_read_failing := False,
          en_scheduler := (en_scheduler en)\<lparr>sc_profiles := ps\<rparr>, en_last_curves := cs\<rparr>)"
        using assms(1) by (auto simp: engine_ok_def memory_channels_def)
      then show ?thesis using Inr r Some has sp by (simp add: reload_schedules_def)
    qed
  qed
qed

section \<open>The tick\<close>

lemma sweep_ok: "engine_ok kz en \<Longrightarrow> engine_ok kz (sweep_silence env en)"
  using sweep_core [of en env] by (simp add: engine_ok_def same_core_def)

text \<open>What a tick does to the broker and to the scheduler's memory.\<close>

lemma tick_effect:
  assumes "engine_ok kz en" "tick_env_ok kz env"
  shows "\<exists>en' cs sc acked. tick env en = (Inr (), en') \<and> engine_ok kz en'
    \<and> en_adopted en' = en_adopted en \<and> en_publisher en' = en_publisher en
    \<and> commands_of (en_bus en') = commands_of (en_bus en) @ cs \<and> distinct (map ac_actuator_id cs)
    \<and> (\<forall>c \<in> set cs. ac_actuator_id c \<in> en_adopted en \<and> validate_actuator_command c = Inr c
         \<and> (\<exists>p. en_publisher en = Some p \<and> emitted_at c = te_now env
               \<and> ac_expires_at c = te_now env + pb_ttl_s p))
    \<and> sc_last_duty sc = sc_last_duty (en_scheduler en) \<and> sc_last_hold sc = sc_last_hold (en_scheduler en)
    \<and> en_scheduler en' = fold (\<lambda>i. mark_emitted i (te_now env)) acked sc
    \<and> (\<forall>i \<in> set acked. \<exists>c \<in> set cs. ac_actuator_id c = in_channel_id i \<and> ac_level c = PwmLevel (in_duty i))"
proof -
  define en0 where "en0 = reload_overrides env (expire_overrides env en)"
  have core0: "same_core en en0" unfolding en0_def using same_core_trans [OF expire_core reload_core] .
  have "engine_ok kz en0" unfolding en0_def using assms(1) by (intro reload_overrides_ok expire_ok)
  then obtain en1 where en1: "reload_schedules env en0 = (Inr (), en1)" "engine_ok kz en1"
    "en_publisher en1 = en_publisher en0" "en_adopted en1 = en_adopted en0" "en_bus en1 = en_bus en0"
    "sc_last_duty (en_scheduler en1) = sc_last_duty (en_scheduler en0)"
    "sc_last_hold (en_scheduler en1) = sc_last_hold (en_scheduler en0)"
    using reload_schedules_ok [OF _ assms(2)] by metis
  define en2 where "en2 = sweep_silence env en1"
  have core2: "same_core en1 en2" unfolding en2_def using sweep_core by blast
  have ok2: "engine_ok kz en2" unfolding en2_def using en1(2) by (rule sweep_ok)
  then have sc2: "scheduler_ok kz (en_scheduler en2)" "\<forall>c \<in> memory_channels (en_scheduler en2). device_id_ok c"
    "\<forall>to \<in> set (en_held en2). hold_entry_ok to" "\<forall>p. en_publisher en2 = Some p \<longrightarrow> publisher_ok p"
    by (auto simp: engine_ok_def)
  obtain ints where ints: "due (te_off env) (en_scheduler en2) (Aware (te_now env)) (held_targets (en_held en2)) = Inr ints"
    using due_total [OF sc2(1)] by blast
  note iok = due_intents_ok [OF sc2(1-3) ints]
  have dist: "distinct (map in_channel_id ints)"
    using due_distinct [OF _ ints] sc2(1) by (simp add: scheduler_ok_def)
  obtain en' cs acked where run: "intent_loop env ints en2 = (Inr (), en')"
    and rel: "loop_rel env ints en2 en' cs acked"
    using intent_loop_effect [where env = env, OF sc2(4) iok dist] by (elim exE conjE)
  have l: "intent_loop env ints en2 = (Inr (), en')"
    "en_publisher en' = en_publisher en2" "en_adopted en' = en_adopted en2" "en_held en' = en_held en2"
    "en_overrides en' = en_overrides en2" "commands_of (en_bus en') = commands_of (en_bus en2) @ cs"
    "distinct (map ac_actuator_id cs)"
    "\<forall>c \<in> set cs. \<exists>i \<in> set ints. \<exists>p. en_publisher en2 = Some p \<and> in_channel_id i \<in> en_adopted en2 \<and> carries env p i c"
    "en_scheduler en' = fold (\<lambda>i. mark_emitted i (te_now env)) acked (en_scheduler en2)"
    "\<forall>i \<in> set acked. i \<in> set ints \<and> (\<exists>c \<in> set cs. \<exists>p. en_publisher en2 = Some p \<and> carries env p i c)"
    using run rel unfolding loop_rel_def by blast+
  have "tick env en = (Inr (), en')"
    using en1(1) ints l(1) unfolding tick_def en0_def [symmetric] by (simp add: en2_def [symmetric] Let_def)
  moreover have "engine_ok kz en'"
  proof -
    have "scheduler_ok kz (en_scheduler en')"
      unfolding l(9) using sc2(1) l(10) iok by (intro scheduler_ok_fold_mark) (auto simp: intent_ok_def)
    moreover have "\<forall>c \<in> memory_channels (en_scheduler en'). device_id_ok c"
      using memory_fold_mark [where t = "te_now env" and is' = acked and sc = "en_scheduler en2"] sc2(2) l(10) iok
      unfolding l(9) by (auto simp: intent_ok_def)
    ultimately show ?thesis using ok2 l(2,4,5) by (simp add: engine_ok_def)
  qed
  moreover have "en_adopted en' = en_adopted en" "en_publisher en' = en_publisher en"
    "commands_of (en_bus en') = commands_of (en_bus en) @ cs"
    "en_publisher en2 = en_publisher en" "en_adopted en2 = en_adopted en"
    using core0 core2 en1 l by (simp_all add: same_core_def)
  moreover have "sc_last_duty (en_scheduler en2) = sc_last_duty (en_scheduler en)"
    "sc_last_hold (en_scheduler en2) = sc_last_hold (en_scheduler en)"
    using core0 core2 en1 by (simp_all add: same_core_def)
  moreover have "\<forall>c \<in> set cs. ac_actuator_id c \<in> en_adopted en \<and> validate_actuator_command c = Inr c
      \<and> (\<exists>p. en_publisher en = Some p \<and> emitted_at c = te_now env \<and> ac_expires_at c = te_now env + pb_ttl_s p)"
    using l(8) calculation(6,7) by (fastforce simp: carries_def)
  moreover have "\<forall>i \<in> set acked. \<exists>c \<in> set cs. ac_actuator_id c = in_channel_id i \<and> ac_level c = PwmLevel (in_duty i)"
    using l(10) by (fastforce simp: carries_def)
  ultimately show ?thesis using l(7,9)
    by (intro exI [of _ en'] exI [of _ cs] exI [of _ "en_scheduler en2"] exI [of _ acked]) simp
qed

text \<open>
  C2. Nobody's channel is commanded. Whatever the database and the broker do, a tick of a
  sound engine returns, leaves it sound, and everything it put on the wire as a command is
  for an adopted device, at most one per device, validates, and expires one TTL after the
  tick.
\<close>

theorem unadopted_never_commanded:
  assumes "engine_ok kz en" "tick_env_ok kz env"
  shows "\<exists>en' cs. tick env en = (Inr (), en') \<and> engine_ok kz en'
    \<and> commands_of (en_bus en') = commands_of (en_bus en) @ cs \<and> distinct (map ac_actuator_id cs)
    \<and> (\<forall>c \<in> set cs. is_adopted (ac_actuator_id c) en \<and> validate_actuator_command c = Inr c
         \<and> (\<exists>p. en_publisher en = Some p \<and> emitted_at c = te_now env
               \<and> ac_expires_at c = te_now env + pb_ttl_s p))"
  using tick_effect [OF assms] unfolding is_adopted_def by blast

definition sample_engine :: engine where
  "sample_engine = \<lparr>en_scheduler = slewing_scheduler\<lparr>sc_profiles := [sample_profile]\<rparr>,
     en_overrides = Some [], en_held = [], en_override_io_failing = False, en_override_io_errors = 0,
     en_publisher = Some \<lparr>pb_source = ''control-engine'', pb_ttl_s = 30, pb_nc = True, pb_js = True,
       pb_is_connected = True, pb_beat_seq = 0, pb_unprovisioned_warned_at = None\<rparr>,
     en_bus = [], en_adopted = {''blue''}, en_assignments_loaded = True, en_suppressed_unassigned = {},
     en_suppressed = (\<lambda>_. 0), en_loop_interval_s = 1,
     en_liveness = \<lparr>lg_timeout_s = 15, lg_check_interval_s = 1/2, lg_last_beat = 0, lg_exited = None\<rparr>,
     en_clock_trusted = True, en_clock_was_trusted = True, en_clock_refresh_due = 0,
     en_alert_db = \<lparr>adb_episodes = [], adb_devices = []\<rparr>, en_alerts = None, en_silence = None,
     en_thresholds = Map.empty, en_threshold_refresh_s = 30, en_thresholds_read_at = 0,
     en_has_schedules = False, en_last_curves = [], en_schedule_read_failing = False,
     en_schedule_reload_errors = 0\<rparr>"

definition sample_env :: tick_env where
  "sample_env = \<lparr>te_now = 43200, te_off = (\<lambda>z t. 0), te_known_zone = (\<lambda>z. z = ''UTC''),
     te_expire_clock = (\<lambda>_. (1000, 43200)), te_release = (\<lambda>_. Done), te_list = True,
     te_arm_clock = (\<lambda>_. (1000, 43200)), te_curves = Inr [], te_accept = (\<lambda>_. Acked),
     te_mid = (\<lambda>_. 1), te_key = (\<lambda>_. 2), te_audit_mid = (\<lambda>_. 3), te_row = (\<lambda>_. 4)\<rparr>"

lemma sample_engine_ok: "engine_ok (\<lambda>z. z = ''UTC'') sample_engine"
  using sample_profile_valid
  by (auto simp: engine_ok_def sample_engine_def scheduler_ok_def slewing_scheduler_def slew_ok_def
      channel_ids_def memory_channels_def store_ok_def table_ok_def live_targets_def publisher_ok_def
      device_id_ok_def token_body_def lower_alnum_def token_chars_def sample_profile_def)

lemma sample_env_ok: "tick_env_ok (\<lambda>z. z = ''UTC'') sample_env"
  by (simp add: tick_env_ok_def sample_env_def)

theorem unadopted_never_commanded_witness:
  "\<exists>en' cs. tick sample_env sample_engine = (Inr (), en') \<and> commands_of (en_bus en') = cs
     \<and> list_all (\<lambda>c. is_adopted (ac_actuator_id c) sample_engine) cs"
  using unadopted_never_commanded [OF sample_engine_ok sample_env_ok]
  by (auto simp: sample_engine_def list_all_iff)

lemma fold_mark_duty:
  "map_of (sc_last_duty (fold (\<lambda>i. mark_emitted i t) is' sc)) c = map_of (sc_last_duty sc) c
   \<or> (\<exists>i \<in> set is'. in_channel_id i = c
        \<and> map_of (sc_last_duty (fold (\<lambda>i. mark_emitted i t) is' sc)) c = Some (in_duty i))"
proof (induction is' arbitrary: sc)
  case (Cons i is')
  from Cons.IH [of "mark_emitted i t sc"] show ?case by auto
qed simp

text \<open>
  The scheduler believes only what the broker took. If a tick changes the duty remembered
  for a channel, a command for that channel carrying exactly that duty reached the broker in
  this tick; a publish that failed leaves the memory as it was, so the next tick retries.
\<close>

theorem memory_follows_broker:
  assumes "engine_ok kz en" "tick_env_ok kz env"
    and "map_of (sc_last_duty (en_scheduler (snd (tick env en)))) ch \<noteq> map_of (sc_last_duty (en_scheduler en)) ch"
  shows "\<exists>cs c d. commands_of (en_bus (snd (tick env en))) = commands_of (en_bus en) @ cs \<and> c \<in> set cs
    \<and> ac_actuator_id c = ch \<and> ac_level c = PwmLevel d
    \<and> map_of (sc_last_duty (en_scheduler (snd (tick env en)))) ch = Some d"
proof -
  obtain en' cs sc acked where e: "tick env en = (Inr (), en')"
    "commands_of (en_bus en') = commands_of (en_bus en) @ cs"
    "sc_last_duty sc = sc_last_duty (en_scheduler en)"
    "en_scheduler en' = fold (\<lambda>i. mark_emitted i (te_now env)) acked sc"
    "\<forall>i \<in> set acked. \<exists>c \<in> set cs. ac_actuator_id c = in_channel_id i \<and> ac_level c = PwmLevel (in_duty i)"
    using tick_effect [OF assms(1,2)] by blast
  from fold_mark_duty [of "te_now env" acked sc ch] assms(3) e(1,3,4)
  obtain i where i: "i \<in> set acked" "in_channel_id i = ch"
    "map_of (sc_last_duty (en_scheduler en')) ch = Some (in_duty i)" by auto
  with e(5) obtain c where "c \<in> set cs" "ac_actuator_id c = ch" "ac_level c = PwmLevel (in_duty i)" by metis
  with e(1,2) i(3) show ?thesis by auto
qed

definition holding_engine :: engine where
  "holding_engine = sample_engine\<lparr>en_scheduler := slewing_scheduler\<lparr>sc_profiles := [], sc_last_duty := []\<rparr>,
     en_overrides := None,
     en_held := [(''blue'', \<lparr>ao_id = 1, ao_target = ''blue'', ao_duty = 1, ao_expires_at = 90000,
       ao_transition = Snap, ao_monotonic_deadline = Some 2000\<rparr>)]\<rparr>"

theorem memory_follows_broker_witness:
  "\<exists>cs c. commands_of (en_bus (snd (tick sample_env holding_engine))) = commands_of (en_bus holding_engine) @ cs
     \<and> c \<in> set cs \<and> ac_actuator_id c = ''blue'' \<and> ac_level c = PwmLevel 1"
proof -
  have ok: "engine_ok (\<lambda>z. z = ''UTC'') holding_engine"
    using sample_engine_ok
    by (auto simp: engine_ok_def holding_engine_def memory_channels_def hold_entry_ok_def store_ok_def
        device_id_ok_def token_body_def lower_alnum_def token_chars_def scheduler_ok_def slew_ok_def
        slewing_scheduler_def sample_engine_def channel_ids_def)
  have "map_of (sc_last_duty (en_scheduler (snd (tick sample_env holding_engine)))) ''blue'' = Some 1"
    by (simp add: tick_def reload_schedules_def reload_overrides_def expire_overrides_def expire_one_def
        sweep_silence_def holding_engine_def sample_engine_def sample_env_def synthetic_channels_def
        held_targets_def slewing_scheduler_def channel_ids_def emit_for_def plan_def previous_of_def
        intent_step_def is_adopted_def publish_intent_def connected_def build_pwm_command_def
        validate_actuator_command_def validated_def message_guards_def SCHEMA_VERSION_def device_id_ok_def
        token_body_def lower_alnum_def token_chars_def str_len_ok_def Intent_def emit_def class_token_def
        cmd_def validate_token_def token_re_match_def send_def Let_def)
  with memory_follows_broker [OF ok sample_env_ok, of "''blue''"]
  show ?thesis by (auto simp: holding_engine_def slewing_scheduler_def)
qed

section \<open>The loop\<close>

definition loop_env_ok :: "(string \<Rightarrow> bool) \<Rightarrow> loop_env \<Rightarrow> bool" where
  "loop_env_ok kz env \<longleftrightarrow> tick_env_ok kz (le_tick env)"

lemma liveness_ok: "engine_ok kz en \<Longrightarrow> engine_ok kz (en\<lparr>en_liveness := g\<rparr>)"
  by (simp add: engine_ok_def)

lemma refresh_clock_ok: "engine_ok kz en \<Longrightarrow> engine_ok kz (refresh_clock_trust m b en)"
  using scheduler_ok_reset [of kz "en_scheduler en"] memory_reset [of "en_scheduler en"]
  by (auto simp: engine_ok_def refresh_clock_trust_def Let_def)

lemma heartbeat_ok:
  assumes "engine_ok kz en" shows "engine_ok kz (loop_heartbeat env en)"
proof (cases "en_publisher en")
  case (Some p)
  then have "publisher_ok p" using assms by (simp add: engine_ok_def)
  then have "publisher_ok (fst (snd (publisher_heartbeat acc mid now iv p bus)))" for acc mid now iv bus
    by (auto simp: publisher_heartbeat_def publisher_ok_def Let_def split: sum.splits prod.splits)
  then show ?thesis using assms Some
    by (simp add: loop_heartbeat_def engine_ok_def Let_def case_prod_unfold)
qed (use assms in \<open>simp add: loop_heartbeat_def\<close>)

lemma apply_assignment_ok: "engine_ok kz en \<Longrightarrow> engine_ok kz (receive_assignment x en)"
  using scheduler_ok_forget [of kz "en_scheduler en"] memory_forget [of _ "en_scheduler en"]
  by (cases x) (auto simp: receive_assignment_def apply_assignment_def engine_ok_def subset_iff)

lemma fold_assignment_ok: "engine_ok kz en \<Longrightarrow> engine_ok kz (fold receive_assignment xs en)"
  by (induction xs arbitrary: en) (simp_all add: apply_assignment_ok)

lemma fold_assignment_bus: "en_bus (fold receive_assignment xs en) = en_bus en"
proof (induction xs arbitrary: en)
  case (Cons x xs)
  then show ?case by (cases x) (simp_all add: receive_assignment_def apply_assignment_def)
qed simp

lemma loop_assignments_ok:
  assumes "engine_ok kz en"
  shows "\<exists>en'. loop_assignments env en = (Inr (), en') \<and> engine_ok kz en' \<and> en_bus en' = en_bus en
    \<and> en_clock_trusted en' = en_clock_trusted en"
proof -
  have trust: "en_clock_trusted (fold receive_assignment xs e) = en_clock_trusted e" for xs e
  proof (induction xs arbitrary: e)
    case (Cons x xs)
    then show ?case by (cases x) (simp_all add: receive_assignment_def apply_assignment_def)
  qed simp
  show ?thesis
  proof (cases "en_publisher en")
    case None
    then show ?thesis using assms by (simp add: loop_assignments_def)
  next
    case (Some p)
    then have p: "publisher_ok p" using assms by (simp add: engine_ok_def)
    show ?thesis
    proof (cases "connected p \<and> \<not> en_assignments_loaded en")
      case False
      then show ?thesis using assms Some by (auto simp: loop_assignments_def)
    next
      case True
      then have js: "pb_js p" using p by (simp add: connected_def publisher_ok_def)
      show ?thesis
      proof (cases "le_stream env")
        case None
        then show ?thesis using True js p Some assms
          by (simp add: loop_assignments_def load_assignments_def engine_ok_def publisher_ok_def)
      next
        case (Some payloads)
        have "engine_ok kz ((fold receive_assignment payloads en)\<lparr>en_assignments_loaded := b\<rparr>)" for b
          using fold_assignment_ok [OF assms] by (simp add: engine_ok_def)
        then show ?thesis using True js Some \<open>en_publisher en = Some p\<close>
          by (simp add: loop_assignments_def load_assignments_def fold_assignment_bus trust)
      qed
    qed
  qed
qed

lemma loop_body_ok:
  assumes "engine_ok kz en" "loop_env_ok kz env"
  shows "\<exists>en'. loop_body env en = (Inr (), en') \<and> engine_ok kz en'"
proof -
  define en2 where "en2 = loop_heartbeat env (refresh_clock_trust (le_mono env) (le_clock_answer env)
      (en\<lparr>en_liveness := liveness_beat (le_mono env) (en_liveness en)\<rparr>))"
  have "engine_ok kz en2"
    unfolding en2_def by (intro heartbeat_ok refresh_clock_ok liveness_ok assms(1))
  then obtain en3 where en3: "loop_assignments env en2 = (Inr (), en3)" "engine_ok kz en3"
    using loop_assignments_ok by blast
  obtain en4 where "tick (le_tick env) en3 = (Inr (), en4)" "engine_ok kz en4"
    using tick_effect [OF en3(2)] assms(2) unfolding loop_env_ok_def by blast
  then show ?thesis using en3 by (simp add: loop_body_def Let_def en2_def [symmetric])
qed


definition sample_loop_env :: loop_env where
  "sample_loop_env = \<lparr>le_mono = 5, le_clock_answer = False, le_beat_mid = 9, le_stream = None, le_tick = sample_env\<rparr>"




end
