(* ===== verification/EngineHolds.thy ===== *)
theory EngineHolds
  imports EngineTick
begin

text \<open>
  The holds the engine watches, against the table they live in, and the ledger of adopted
  devices.
\<close>

section \<open>Holds\<close>

lemma list_active_rows:
  assumes "table_ok db"
  shows "\<exists>rows. override_list_active db = Inr rows \<and> distinct (map ao_target rows)
    \<and> (\<forall>r \<in> set db. row_live r \<longrightarrow> (\<exists>o' \<in> set rows. ao_id o' = or_id r \<and> ao_target o' = or_target r
         \<and> ao_expires_at o' = or_expires_at r))
    \<and> (\<forall>o' \<in> set rows. \<exists>r \<in> set db. row_live r \<and> ao_id o' = or_id r \<and> ao_target o' = or_target r)"
proof -
  let ?live = "sort_key or_created_at (filter row_live db)"
  have "\<forall>r \<in> set ?live. isOk (row_to_active r)"
    using assms by (auto simp: table_ok_def intro!: row_to_active_ok)
  then obtain rows where rows: "map_result row_to_active ?live = Inr rows"
      "list_all2 (\<lambda>r o'. row_to_active r = Inr o') ?live rows"
    using map_result_ok by blast
  have "map ao_target rows = map or_target ?live"
    using rows(2) by (induction rule: list_all2_induct) (auto dest: row_to_active_Inr)
  moreover have "distinct (map or_target ?live)"
    using assms by (simp add: table_ok_def live_targets_def distinct_map)
  ultimately have "distinct (map ao_target rows)" by simp
  moreover have "\<exists>o' \<in> set rows. ao_id o' = or_id r \<and> ao_target o' = or_target r \<and> ao_expires_at o' = or_expires_at r"
    if "r \<in> set ?live" for r
    using list_all2_mem1 [OF rows(2) that] row_to_active_Inr by blast
  moreover have "\<exists>r \<in> set ?live. ao_id o' = or_id r \<and> ao_target o' = or_target r" if "o' \<in> set rows" for o'
    using list_all2_mem2 [OF rows(2) that] row_to_active_Inr by blast
  ultimately show ?thesis using rows(1) by (auto simp: override_list_active_def)
qed

text \<open>
  Re-reading the store keeps the promises already made. After a successful read the holds
  are exactly the live rows; a hold the process was already watching is kept as it is,
  monotonic deadline included, whatever the clocks say now, and only an unknown one is
  armed. When the read fails, every hold is kept.
\<close>

theorem reload_keeps_deadlines:
  assumes "store_ok (Some db)" "en_overrides en = Some db"
  shows "if te_list env
    then (\<forall>r \<in> set db. row_live r \<longrightarrow>
            (\<exists>o'. map_of (en_held (reload_overrides env en)) (or_target r) = Some o' \<and> ao_id o' = or_id r
               \<and> (\<forall>cur. map_of (en_held en) (or_target r) = Some cur \<and> ao_id cur = or_id r \<longrightarrow> o' = cur)))
       \<and> (\<forall>t. map_of (en_held (reload_overrides env en)) t \<noteq> None \<longrightarrow>
            (\<exists>r \<in> set db. row_live r \<and> or_target r = t))
    else en_held (reload_overrides env en) = en_held en"
proof (cases "te_list env")
  case False
  then show ?thesis using assms(2) by (simp add: reload_overrides_def)
next
  case True
  have ok: "table_ok db" using assms(1) by (simp add: store_ok_def)
  obtain rows where rows: "override_list_active db = Inr rows" "distinct (map ao_target rows)"
    "\<And>r. r \<in> set db \<Longrightarrow> row_live r \<Longrightarrow> \<exists>o' \<in> set rows. ao_id o' = or_id r \<and> ao_target o' = or_target r
       \<and> ao_expires_at o' = or_expires_at r"
    "\<And>o'. o' \<in> set rows \<Longrightarrow> \<exists>r \<in> set db. row_live r \<and> ao_id o' = or_id r \<and> ao_target o' = or_target r"
    using list_active_rows [OF ok] by blast
  have f: "reload_one env old = (\<lambda>o'. alist_put (ao_target o') (kept_or_armed env old o'))" for old
    by (rule ext, rule ext) (rule reload_one_eq)
  have held: "map_of (en_held (reload_overrides env en)) t =
      (case find (\<lambda>o'. ao_target o' = t) rows of Some o' \<Rightarrow> Some (kept_or_armed env (en_held en) o') | None \<Rightarrow> None)" for t
    using True assms(2) rows(1) by (simp add: reload_overrides_def f map_of_fold_put [OF rows(2)] split: option.split)
  have "\<exists>o'. map_of (en_held (reload_overrides env en)) (or_target r) = Some o' \<and> ao_id o' = or_id r
      \<and> (\<forall>cur. map_of (en_held en) (or_target r) = Some cur \<and> ao_id cur = or_id r \<longrightarrow> o' = cur)"
    if r: "r \<in> set db" "row_live r" for r
  proof -
    obtain o' where o': "o' \<in> set rows" "ao_id o' = or_id r" "ao_target o' = or_target r"
      using rows(3) [OF r] by blast
    have "find (\<lambda>x. ao_target x = or_target r) rows = Some o'"
    proof (cases "find (\<lambda>x. ao_target x = or_target r) rows")
      case None
      then show ?thesis using o' by (auto simp: find_None_iff)
    next
      case (Some x)
      then have "x \<in> set rows" "ao_target x = ao_target o'" using o'(3) by (auto simp: find_Some_iff)
      then show ?thesis using Some o'(1) rows(2) by (auto simp: distinct_map inj_on_def)
    qed
    then have "map_of (en_held (reload_overrides env en)) (or_target r) = Some (kept_or_armed env (en_held en) o')"
      using held by simp
    then show ?thesis using o' by (auto simp: kept_or_armed_def split: option.splits)
  qed
  moreover have "\<exists>r \<in> set db. row_live r \<and> or_target r = t"
    if h: "map_of (en_held (reload_overrides env en)) t \<noteq> None" for t
  proof -
    obtain o' where "find (\<lambda>o'. ao_target o' = t) rows = Some o'"
      using h unfolding held by (cases "find (\<lambda>o'. ao_target o' = t) rows") auto
    then have "o' \<in> set rows" "ao_target o' = t" by (auto simp: find_Some_iff)
    with rows(4) [of o'] show ?thesis by auto
  qed
  ultimately show ?thesis using True by simp
qed

theorem reload_keeps_deadlines_witness:
  "let en = sample_engine\<lparr>en_overrides := Some [sample_row],
              en_held := [(''blue'', \<lparr>ao_id = 1, ao_target = ''blue'', ao_duty = 1/2, ao_expires_at = 600,
                 ao_transition = Snap, ao_monotonic_deadline = Some 77\<rparr>)]\<rparr>
   in \<exists>o'. map_of (en_held (reload_overrides sample_env en)) ''blue'' = Some o' \<and> ao_monotonic_deadline o' = Some 77"
proof -
  have "store_ok (Some [sample_row])"
    using sample_table_ok
    by (simp add: store_ok_def sample_row_def device_id_ok_def token_body_def lower_alnum_def token_chars_def)
  from reload_keeps_deadlines [OF this, of "sample_engine\<lparr>en_overrides := Some [sample_row],
      en_held := [(''blue'', \<lparr>ao_id = 1, ao_target = ''blue'', ao_duty = 1/2, ao_expires_at = 600,
        ao_transition = Snap, ao_monotonic_deadline = Some 77\<rparr>)]\<rparr>" sample_env]
  show ?thesis by (auto simp: sample_env_def sample_row_def row_live_def Let_def)
qed

definition hold_due :: "tick_env \<Rightarrow> active_override \<Rightarrow> bool" where
  "hold_due env o' = ao_is_expired None None (fst (te_expire_clock env (ao_id o')))
     (snd (te_expire_clock env (ao_id o'))) o'"

definition live_ids :: "override_table \<Rightarrow> uuid set" where
  "live_ids db = or_id ` set (filter row_live db)"

lemma live_ids_release: "live_ids (snd (override_release w i why now db)) = live_ids db - {i}"
  by (auto simp: live_ids_def override_release_def filter_live_close Let_def case_prod_unfold simp del: set_filter)
    (auto simp: image_iff)

lemma expire_one_held:
  assumes "en_overrides en = Some db"
  shows "map_of (en_held (expire_one env (t, o') en)) =
      (if hold_due env o' \<and> te_release env (ao_id o') = Done then (map_of (en_held en))(t := None)
       else map_of (en_held en))
    \<and> (\<exists>db'. en_overrides (expire_one env (t, o') en) = Some db' \<and> live_ids db' =
        (if hold_due env o' \<and> te_release env (ao_id o') \<noteq> Failed then live_ids db - {ao_id o'} else live_ids db))"
  using assms
  by (auto simp: expire_one_def hold_due_def Let_def case_prod_unfold live_ids_release)

lemma expire_fold_held:
  assumes "en_overrides en = Some db" "distinct (map fst xs)"
  shows "(\<forall>t. t \<notin> fst ` set xs \<longrightarrow> map_of (en_held (fold (expire_one env) xs en)) t = map_of (en_held en) t)
    \<and> (\<forall>(t, o') \<in> set xs. map_of (en_held (fold (expire_one env) xs en)) t =
         (if hold_due env o' \<and> te_release env (ao_id o') = Done then None else map_of (en_held en) t))
    \<and> (\<exists>db'. en_overrides (fold (expire_one env) xs en) = Some db' \<and> live_ids db' =
         live_ids db - {i. \<exists>(t, o') \<in> set xs. ao_id o' = i \<and> hold_due env o' \<and> te_release env i \<noteq> Failed})"
  using assms
proof (induction xs arbitrary: en db)
  case (Cons to xs)
  obtain t o' where to: "to = (t, o')" by (cases to)
  note one = expire_one_held [OF Cons.prems(1), of env t o']
  then obtain db1 where db1: "en_overrides (expire_one env (t, o') en) = Some db1"
    "live_ids db1 = (if hold_due env o' \<and> te_release env (ao_id o') \<noteq> Failed then live_ids db - {ao_id o'} else live_ids db)"
    by blast
  have fresh: "t \<notin> fst ` set xs" using Cons.prems(2) by (simp add: to)
  obtain db' where ih:
    "\<forall>u. u \<notin> fst ` set xs \<longrightarrow> map_of (en_held (fold (expire_one env) xs (expire_one env (t, o') en))) u
        = map_of (en_held (expire_one env (t, o') en)) u"
    "\<forall>(u, p) \<in> set xs. map_of (en_held (fold (expire_one env) xs (expire_one env (t, o') en))) u =
        (if hold_due env p \<and> te_release env (ao_id p) = Done then None
         else map_of (en_held (expire_one env (t, o') en)) u)"
    "en_overrides (fold (expire_one env) xs (expire_one env (t, o') en)) = Some db'"
    "live_ids db' = live_ids db1 - {i. \<exists>(t, o') \<in> set xs. ao_id o' = i \<and> hold_due env o' \<and> te_release env i \<noteq> Failed}"
    using Cons.IH [OF db1(1)] Cons.prems(2) by (auto simp: to)
  have other: "map_of (en_held (expire_one env (t, o') en)) u = map_of (en_held en) u" if "u \<noteq> t" for u
    using one that by auto
  have "\<forall>u. u \<notin> fst ` set (to # xs) \<longrightarrow> map_of (en_held (fold (expire_one env) (to # xs) en)) u = map_of (en_held en) u"
    using ih(1) other by (auto simp: to)
  moreover have "\<forall>(u, p) \<in> set (to # xs). map_of (en_held (fold (expire_one env) (to # xs) en)) u =
      (if hold_due env p \<and> te_release env (ao_id p) = Done then None else map_of (en_held en) u)"
  proof (rule ballI, clarify)
    fix u p assume "(u, p) \<in> set (to # xs)"
    then consider (this) "u = t" "p = o'" | (later) "(u, p) \<in> set xs" "u \<noteq> t"
      using fresh by (force simp: to)
    then show "map_of (en_held (fold (expire_one env) (to # xs) en)) u =
        (if hold_due env p \<and> te_release env (ao_id p) = Done then None else map_of (en_held en) u)"
    proof cases
      case this
      then show ?thesis using ih(1) fresh one by (simp add: to)
    next
      case later
      then show ?thesis using ih(2) other [OF later(2)] by (auto simp: to)
    qed
  qed
  moreover have "live_ids db' = live_ids db -
      {i. \<exists>(t, o') \<in> set (to # xs). ao_id o' = i \<and> hold_due env o' \<and> te_release env i \<noteq> Failed}"
    unfolding ih(4) db1(2) to by auto
  ultimately show ?case using ih(3) by (simp add: to)
qed auto

text \<open>
  A hold ends when its own clock says so, and not before. Of the holds the process is
  watching, one that is not due is kept untouched; one that is due is dropped exactly when
  the store confirmed its release, and otherwise kept, so the next tick retries; and no row
  whose release reached the store is live afterwards.
\<close>

theorem expiry_retries_until_confirmed:
  assumes "en_overrides en = Some db" "distinct (map fst (en_held en))"
  shows "(\<forall>(t, o') \<in> set (en_held en). map_of (en_held (expire_overrides env en)) t =
        (if hold_due env o' \<and> te_release env (ao_id o') = Done then None else Some o'))
    \<and> (\<exists>db'. en_overrides (expire_overrides env en) = Some db' \<and> live_ids db' =
         live_ids db - {i. \<exists>(t, o') \<in> set (en_held en). ao_id o' = i \<and> hold_due env o' \<and> te_release env i \<noteq> Failed})"
proof -
  have "map_of (en_held en) t = Some o'" if "(t, o') \<in> set (en_held en)" for t o'
    using that assms(2) by simp
  then show ?thesis
    using expire_fold_held [OF assms, of env] unfolding expire_overrides_def by auto
qed

theorem expiry_retries_until_confirmed_witness:
  "let en = sample_engine\<lparr>en_overrides := Some [sample_row],
              en_held := [(''blue'', \<lparr>ao_id = 1, ao_target = ''blue'', ao_duty = 1/2, ao_expires_at = 600,
                 ao_transition = Snap, ao_monotonic_deadline = Some 77\<rparr>)]\<rparr>
   in map_of (en_held (expire_overrides (sample_env\<lparr>te_release := \<lambda>_. Failed\<rparr>) en)) ''blue'' \<noteq> None
      \<and> map_of (en_held (expire_overrides sample_env en)) ''blue'' = None"
proof -
  let ?en = "sample_engine\<lparr>en_overrides := Some [sample_row],
      en_held := [(''blue'', \<lparr>ao_id = 1, ao_target = ''blue'', ao_duty = 1/2, ao_expires_at = 600,
        ao_transition = Snap, ao_monotonic_deadline = Some 77\<rparr>)]\<rparr>"
  have h: "en_overrides ?en = Some [sample_row]" "distinct (map fst (en_held ?en))" by simp_all
  from expiry_retries_until_confirmed [OF h, of sample_env]
    expiry_retries_until_confirmed [OF h, of "sample_env\<lparr>te_release := \<lambda>_. Failed\<rparr>"]
  show ?thesis by (simp add: Let_def sample_env_def hold_due_def ao_is_expired_def num_or_def)
qed

text \<open>
  A hold somebody else already ended is audited as expired all the same. When the due hold
  has no live row any more (a manual release or a superseding hold closed it since the last
  read), the release changes nothing, yet the engine publishes an \<open>override.released\<close> event
  with reason \<open>expired\<close>, so the trail shows two endings for one hold.
\<close>

theorem ended_hold_audited_twice:
  assumes "en_overrides en = Some db" "en_held en = [(t, o')]" "hold_due env o'"
    and "ao_id o' \<notin> live_ids db" "te_release env (ao_id o') = Done"
    and "en_publisher en = Some p" "pb_js p" "\<And>m. te_accept env m = Acked"
  shows "en_overrides (expire_overrides env en) = Some db
    \<and> (\<exists>subj. en_bus (expire_overrides env en) =
         en_bus en @ [WAudit subj (te_audit_mid env (ao_id o')) (OverrideReleased (ao_id o') t Expired)])"
proof -
  have none: "snd (override_release w (ao_id o') Expired None db) = db" for w
    using assms(4) unfolding override_release_def close_where_def Let_def
    by (auto simp: live_ids_def image_iff intro!: map_idI)
  obtain subj where "audit ''command'' = Inr subj"
    by (simp add: audit_def one_token_subject_def validate_token_def token_re_match_def token_body_def
        lower_alnum_def token_chars_def)
  then show ?thesis
    using assms none
    by (auto simp: expire_overrides_def expire_one_def hold_due_def Let_def case_prod_unfold
        audit_override_release_def publish_audit_def send_def)
qed

definition released_row :: override_row where
  "released_row = sample_row\<lparr>or_released_at := Some 90, or_release_reason := Some Manual\<rparr>"

theorem ended_hold_audited_twice_witness:
  "let en = sample_engine\<lparr>en_overrides := Some [released_row],
              en_held := [(''blue'', \<lparr>ao_id = 1, ao_target = ''blue'', ao_duty = 1/2, ao_expires_at = 600,
                 ao_transition = Snap, ao_monotonic_deadline = Some 77\<rparr>)]\<rparr>
   in \<exists>subj. en_bus (expire_overrides sample_env en) = [WAudit subj 3 (OverrideReleased 1 ''blue'' Expired)]"
proof -
  let ?o = "\<lparr>ao_id = 1, ao_target = ''blue'', ao_duty = 1/2, ao_expires_at = 600,
      ao_transition = Snap, ao_monotonic_deadline = Some 77\<rparr> :: active_override"
  let ?en = "sample_engine\<lparr>en_overrides := Some [released_row], en_held := [(''blue'', ?o)]\<rparr>"
  have h: "en_overrides ?en = Some [released_row]" "en_held ?en = [(''blue'', ?o)]" "hold_due sample_env ?o"
    "ao_id ?o \<notin> live_ids [released_row]" "te_release sample_env (ao_id ?o) = Done"
    "\<And>m. te_accept sample_env m = Acked"
    by (simp_all add: hold_due_def sample_env_def ao_is_expired_def num_or_def live_ids_def released_row_def
        row_live_def)
  have p: "en_publisher ?en = Some \<lparr>pb_source = ''control-engine'', pb_ttl_s = 30, pb_nc = True, pb_js = True,
       pb_is_connected = True, pb_beat_seq = 0, pb_unprovisioned_warned_at = None\<rparr>"
    by (simp add: sample_engine_def)
  from ended_hold_audited_twice [OF h(1-5) p _ h(6)] show ?thesis
    by (simp add: Let_def sample_engine_def sample_env_def)
qed

section \<open>The ledger\<close>

definition messages_for :: "string \<Rightarrow> device_assignment result list \<Rightarrow> device_assignment list" where
  "messages_for d xs = filter (\<lambda>a. da_device_id a = d)
     (somes (map (\<lambda>x. case x of Inl _ \<Rightarrow> None | Inr a \<Rightarrow> Some a) xs))"

lemma messages_for_simps [simp]:
  "messages_for d [] = []" "messages_for d (Inl e # xs) = messages_for d xs"
  "messages_for d (Inr a # xs) = (if da_device_id a = d then a # messages_for d xs else messages_for d xs)"
  "messages_for d (xs @ ys) = messages_for d xs @ messages_for d ys"
  by (simp_all add: messages_for_def)

text \<open>
  The ledger is the last word on each device: after any sequence of assignment messages,
  readable or not, a device is adopted exactly when its last message says so, and as before
  when it had none; and a device some message released has no scheduler memory left, so
  re-adopting it starts cold.
\<close>

theorem ledger_last_word:
  "(is_adopted d (fold receive_assignment xs en) \<longleftrightarrow>
      (if messages_for d xs = [] then is_adopted d en else da_adopted (last (messages_for d xs))))
   \<and> ((\<exists>a \<in> set (messages_for d xs). \<not> da_adopted a) \<longrightarrow>
        map_of (sc_last_duty (en_scheduler (fold receive_assignment xs en))) d = None)"
proof (induction xs rule: rev_induct)
  case (snoc x xs)
  then show ?case
    by (cases x) (auto simp: receive_assignment_def apply_assignment_def is_adopted_def forget_def)
qed simp

theorem ledger_last_word_witness:
  "\<not> is_adopted ''blue'' (fold receive_assignment
     [Inr \<lparr>schema_version = 2, message_id = 1, emitted_at = 0, source = ''api'', da_device_id = ''blue'',
        da_adopted = False, da_role = None, da_driver_type = None, da_binding = None\<rparr>] sample_engine)"
  using ledger_last_word [of "''blue''" "[Inr \<lparr>schema_version = 2, message_id = 1, emitted_at = 0,
      source = ''api'', da_device_id = ''blue'', da_adopted = False, da_role = None, da_driver_type = None,
      da_binding = None\<rparr>]" sample_engine]
  by simp

end
