(* ===== verification/Reconnect.thy ===== *)
theory Reconnect
  imports HardwareLife EngineHolds
begin

text \<open>
  The two services across an outage of the broker: what the hardware says of itself when the
  connection is back (\<open>_republish_safe_states\<close>), and what the engine's scheduler makes of it.
\<close>

section \<open>What the hardware republishes\<close>

definition resent :: "consumer_env \<Rightarrow> 'd supervisor \<Rightarrow> actuator_registration \<Rightarrow> broker_call list" where
  "resent env sv r =
     (case guard_of sv (ar_actuator_id r) of
        None \<Rightarrow> []
      | Some g \<Rightarrow>
          if \<not> g_at_safe_state g then []
          else (case ar_safe_state r of
                  None \<Rightarrow> []
                | Some l \<Rightarrow> state_calls env (ar_actuator_id r) l SafeState (g_latched g)))"

lemma republish_logs:
  assumes "spine_up env s" "guard_of (io_sup s) (ar_actuator_id r) = Some g"
  shows "republish_safe_state env r s = (Inr (), logged s (resent env (io_sup s) r))"
  using assms publish_state_logs [OF assms(1)]
  by (auto simp: republish_safe_state_def io_bind_def io_result_def io_return_def is_at_safe_state_def
      is_latched_def resent_def split: option.split)

lemma republish_all_logs:
  assumes "spine_up env s" "\<forall>r \<in> set rs. \<exists>g. guard_of (io_sup s) (ar_actuator_id r) = Some g"
  shows "each_io (republish_safe_state env) rs s = (Inr (), logged s (concat (map (resent env (io_sup s)) rs)))"
  using assms
proof (induction rs arbitrary: s)
  case (Cons r rs)
  then obtain g where g: "guard_of (io_sup s) (ar_actuator_id r) = Some g" by auto
  have "each_io (republish_safe_state env) rs (logged s (resent env (io_sup s) r))
      = (Inr (), logged (logged s (resent env (io_sup s) r)) (concat (map (resent env (io_sup s)) rs)))"
    using Cons.IH [of "logged s (resent env (io_sup s) r)"] Cons.prems by simp
  with republish_logs [OF Cons.prems(1) g] show ?case by (simp add: io_bind_def)
qed (simp add: io_return_def)

lemma reconnected_logs:
  assumes "service_ok s" "spine_up env s"
  shows "io_reconnected env s = (Inr (), logged s (concat (map (resent env (io_sup s)) (io_registrations s))))"
proof -
  have "\<forall>r \<in> set (io_registrations s). \<exists>g. guard_of (io_sup s) (ar_actuator_id r) = Some g"
    using service_ok_guard [OF assms(1)] by blast
  from republish_all_logs [OF assms(2) this] show ?thesis
    by (simp add: io_reconnected_def swallow_def republish_safe_states_def)
qed

section \<open>What the engine hears\<close>

text \<open>The actuator states among the requests, as the broker retains and delivers them.\<close>

fun heard_states :: "broker_call list \<Rightarrow> actuator_state list" where
  "heard_states [] = []"
| "heard_states (StreamPublish subj (PState st) mid # cs) = st # heard_states cs"
| "heard_states (_ # cs) = heard_states cs"

lemma heard_append [simp]: "heard_states (cs @ ds) = heard_states cs @ heard_states ds"
  by (induction cs rule: heard_states.induct) auto

lemma heard_concat: "heard_states (concat css) = concat (map heard_states css)"
  by (induction css) auto

lemma heard_calls:
  assumes "st \<in> set (heard_states (state_calls env aid l rs b))"
  shows "as_actuator_id st = aid \<and> as_reason st = rs"
  using assms state_message_cases(1) [of env aid l rs b st]
  by (auto simp: state_calls_def split: sum.splits)

lemma state_calls_sent:
  assumes "device_id_ok aid" "level_ok l"
  shows "\<exists>st. heard_states (state_calls env aid l rs b) = [st]"
proof -
  have "isOk (state_message env aid l rs b)"
    using assms by (simp add: state_message_def validate_actuator_state_def validated_isOk message_guards_def
        SCHEMA_VERSION_def device_id_ok_def token_body_def lower_alnum_def token_chars_def)
  moreover have "isOk (Subjects.state aid)"
    using assms(1) by (simp add: Subjects.state_def one_token_subject_def device_id_ok_def validate_token_def
        token_re_match_def res_bind_def)
  ultimately show ?thesis by (auto simp: state_calls_def isOk_def split: sum.splits)
qed

text \<open>Forgetting several channels, in closed form.\<close>

lemma fold_forget:
  "fold forget cs sc = sc\<lparr>sc_last_duty := filter (\<lambda>kv. fst kv \<notin> set cs) (sc_last_duty sc),
     sc_last_emitted_at := filter (\<lambda>kv. fst kv \<notin> set cs) (sc_last_emitted_at sc),
     sc_last_hold := filter (\<lambda>kv. fst kv \<notin> set cs) (sc_last_hold sc),
     sc_slewing := sc_slewing sc - set cs\<rparr>"
proof (induction cs arbitrary: sc)
  case (Cons c cs)
  have "sc_slewing sc - {c} - set cs = sc_slewing sc - insert c (set cs)" by auto
  with Cons show ?case by (simp add: forget_def alist_pop_def)
qed simp

lemma pop_filtered: "c \<in> S \<Longrightarrow> alist_pop c (filter (\<lambda>kv. fst kv \<notin> S) xs) = filter (\<lambda>kv. fst kv \<notin> S) xs"
  by (induction xs) (auto simp: alist_pop_def)

lemma forgotten_again:
  assumes "c \<in> set cs"
  shows "forget c (fold forget cs sc) = fold forget cs sc"
proof -
  have "sc_slewing sc - set cs - {c} = sc_slewing sc - set cs" using assms by auto
  then show ?thesis using assms by (simp add: fold_forget forget_def pop_filtered)
qed

lemma remembered_duty: "c \<notin> set cs \<Longrightarrow> map_of (sc_last_duty (fold forget cs sc)) c = map_of (sc_last_duty sc) c"
proof -
  have "map_of (filter (\<lambda>kv. fst kv \<notin> set cs) xs) c = map_of xs c" if "c \<notin> set cs" for xs :: "(string \<times> duty) list"
    using that by (induction xs) auto
  then show "c \<notin> set cs \<Longrightarrow> ?thesis" by (simp add: fold_forget)
qed

lemma engine_forgets:
  assumes "\<forall>st \<in> set sts. as_reason st = SafeState"
  shows "en_scheduler (fold receive_state (map Inr sts) en) = fold forget (map as_actuator_id sts) (en_scheduler en)"
  using assms
proof (induction sts arbitrary: en)
  case (Cons st sts)
  then show ?case by (simp add: receive_state_def on_actuator_state_def AUTONOMOUS_STATE_REASONS_def)
qed simp

section \<open>Across an outage\<close>

lemma resent_states:
  assumes "st \<in> set (heard_states (resent env sv r))"
  shows "as_reason st = SafeState \<and> as_actuator_id st = ar_actuator_id r
    \<and> is_at_safe_state (ar_actuator_id r) sv = Inr True"
  using assms by (auto simp: resent_def is_at_safe_state_def dest: heard_calls split: option.splits if_splits)

lemma forget_profiles: "sc_profiles (fold forget cs sc) = sc_profiles sc" "sc_slew (fold forget cs sc) = sc_slew sc"
  by (simp_all add: fold_forget)


text \<open>A light that tripped dark while the engine still remembers it at full duty.\<close>

definition dark_hub :: "level service" where
  "dark_hub = lit_hub\<lparr>io_core := (io_core lit_hub)\<lparr>co_sup := blue_sup (PwmLevel 0)\<rparr>\<rparr>"

definition bright_engine :: engine where
  "bright_engine = sample_engine\<lparr>en_scheduler := (en_scheduler sample_engine)\<lparr>sc_last_duty := [(''blue'', 1)]\<rparr>\<rparr>"


end
