(* ===== verification/Transactions.thy ===== *)
theory Transactions
  imports Prelude
begin

text \<open>
  Request handlers as sequences of transactions. An \<open>async\<close> handler of the API runs without
  interruption between two awaits, and each await of the store is one database transaction;
  in between, any other handler may run. A handler is therefore a tree: it has finished, or
  it waits for one step on the shared state and goes on with what that step returned.
  \<open>interleave\<close> runs several of them under a schedule, \<open>exec\<close> is what one of them did by itself.
\<close>

section \<open>Handlers\<close>

datatype ('s, 'a) prog = Finish 'a | Atomic "'s \<Rightarrow> ('s, 'a) prog \<times> 's"

primrec prog_bind :: "('s, 'a) prog \<Rightarrow> ('a \<Rightarrow> ('s, 'b) prog) \<Rightarrow> ('s, 'b) prog" where
  "prog_bind (Finish a) k = k a"
| "prog_bind (Atomic f) k = Atomic (\<lambda>s. map_prod (\<lambda>p. prog_bind p k) id (f s))"

definition atomic :: "('s \<Rightarrow> 'a \<times> 's) \<Rightarrow> ('s, 'a) prog" where
  "atomic g = Atomic (\<lambda>s. map_prod Finish id (g s))"

text \<open>One step on the state that only reads it.\<close>

definition reading :: "('s \<Rightarrow> 'a) \<Rightarrow> ('s, 'a) prog" where
  "reading g = atomic (\<lambda>s. (g s, s))"

text \<open>Handlers that end in an error: what follows is skipped.\<close>

definition attempt :: "('s, 'e + 'a) prog \<Rightarrow> ('a \<Rightarrow> ('s, 'e + 'b) prog) \<Rightarrow> ('s, 'e + 'b) prog" where
  "attempt p k = prog_bind p (\<lambda>r. case r of Inl e \<Rightarrow> Finish (Inl e) | Inr x \<Rightarrow> k x)"

lemma bind_assoc: "prog_bind (prog_bind p f) g = prog_bind p (\<lambda>x. prog_bind (f x) g)"
proof (induction p)
  case (Atomic h)
  have "prog_bind (prog_bind (fst (h s)) f) g = prog_bind (fst (h s)) (\<lambda>x. prog_bind (f x) g)" for s
    by (rule Atomic [of "h s"]) (simp_all add: fsts.simps)
  then show ?case by (simp add: prod.map_comp o_def map_prod_def id_def split_beta)
qed simp

lemma attempt_assoc: "attempt (attempt p f) g = attempt p (\<lambda>x. attempt (f x) g)"
  unfolding attempt_def bind_assoc
  by (rule arg_cong [where f = "prog_bind p"], rule ext) (simp split: sum.splits)

lemma attempt_Finish [simp]: "attempt (Finish (Inl e)) k = Finish (Inl e)" "attempt (Finish (Inr x)) k = k x"
  by (simp_all add: attempt_def)

section \<open>Interleaved runs\<close>

definition finished :: "('s, 'a) prog \<Rightarrow> bool" where
  "finished p = (case p of Finish _ \<Rightarrow> True | Atomic _ \<Rightarrow> False)"

fun advance :: "('s, 'a) prog \<Rightarrow> 's \<Rightarrow> ('s, 'a) prog \<times> 's" where
  "advance (Finish a) s = (Finish a, s)"
| "advance (Atomic f) s = f s"

text \<open>The handlers under a schedule: at each turn the named handler makes one step.\<close>

fun interleave :: "nat list \<Rightarrow> ('s, 'a) prog list \<Rightarrow> 's \<Rightarrow> ('s, 'a) prog list \<times> 's" where
  "interleave [] ps s = (ps, s)"
| "interleave (i # is) ps s =
     (if i < length ps then let (p, t) = advance (ps ! i) s in interleave is (ps[i := p]) t
      else interleave is ps s)"

lemma finished_simps [simp]: "finished (Finish a)" "\<not> finished (Atomic f)"
  by (simp_all add: finished_def)

section \<open>Reasoning about a handler\<close>

text \<open>
  A handler follows an automaton when every step it can make, from any state satisfying \<open>J\<close>,
  keeps \<open>J\<close> and is a step of the automaton, and what it returns satisfies \<open>Q\<close>. The automaton's
  own state \<open>m\<close> records what the handler has achieved so far.
\<close>

primrec follows ::
    "('s \<Rightarrow> bool) \<Rightarrow> ('m \<Rightarrow> 's \<Rightarrow> 's \<Rightarrow> 'm \<Rightarrow> bool) \<Rightarrow> ('m \<Rightarrow> 'a \<Rightarrow> bool) \<Rightarrow> ('s, 'a) prog \<Rightarrow> 'm \<Rightarrow> bool" where
  "follows J D Q (Finish a) m = Q m a"
| "follows J D Q (Atomic f) m =
     (\<forall>s. J s \<longrightarrow> J (snd (f s)) \<and> (\<exists>m'. D m s (snd (f s)) m' \<and> fst (map_prod (follows J D Q) id (f s)) m'))"

lemma follows_conseq:
  assumes "follows J D Q p m" "\<And>m a. Q m a \<Longrightarrow> Q' m a"
  shows "follows J D Q' p m"
  using assms(1)
proof (induction p arbitrary: m)
  case (Atomic f)
  show ?case unfolding follows.simps
  proof (intro allI impI)
    fix s
    assume "J s"
    with Atomic.prems obtain m' where m': "J (snd (f s))" "D m s (snd (f s)) m'" "follows J D Q (fst (f s)) m'" by auto
    moreover have "follows J D Q' (fst (f s)) m'"
      using Atomic.IH [of "f s" "fst (f s)" m'] m'(3) by (simp add: fsts.simps)
    ultimately show "J (snd (f s)) \<and> (\<exists>m'. D m s (snd (f s)) m' \<and> fst (map_prod (follows J D Q') id (f s)) m')" by auto
  qed
qed (simp add: assms(2))

lemma follows_bind:
  assumes "follows J D (\<lambda>m a. follows J D Q (k a) m) p m"
  shows "follows J D Q (prog_bind p k) m"
  using assms
proof (induction p arbitrary: m)
  case (Atomic f)
  show ?case unfolding prog_bind.simps follows.simps
  proof (intro allI impI)
    fix s
    assume "J s"
    with Atomic.prems obtain m' where m': "J (snd (f s))" "D m s (snd (f s)) m'"
      "follows J D (\<lambda>m a. follows J D Q (k a) m) (fst (f s)) m'" by auto
    moreover have "follows J D Q (prog_bind (fst (f s)) k) m'"
      using Atomic.IH [of "f s" "fst (f s)" m'] m'(3) by (simp add: fsts.simps)
    ultimately show "J (snd (map_prod (\<lambda>p. prog_bind p k) id (f s))) \<and>
      (\<exists>m'. D m s (snd (map_prod (\<lambda>p. prog_bind p k) id (f s))) m' \<and>
        fst (map_prod (follows J D Q) id (map_prod (\<lambda>p. prog_bind p k) id (f s))) m')" by auto
  qed
qed simp

lemma follows_attempt:
  assumes "follows J D (\<lambda>m r. case r of Inl e \<Rightarrow> Q m (Inl e) | Inr x \<Rightarrow> follows J D Q (k x) m) p m"
  shows "follows J D Q (attempt p k) m"
  unfolding attempt_def by (rule follows_bind, rule follows_conseq [OF assms]) (auto split: sum.splits)

lemma follows_atomic:
  assumes "\<And>s. J s \<Longrightarrow> J (snd (g s)) \<and> (\<exists>m'. D m s (snd (g s)) m' \<and> Q m' (fst (g s)))"
  shows "follows J D Q (atomic g) m"
  using assms by (simp add: atomic_def)

text \<open>The usual case: one step, then the rest.\<close>

lemma follows_step:
  assumes "\<And>s. J s \<Longrightarrow> J (snd (g s)) \<and>
      (\<exists>m'. D m s (snd (g s)) m' \<and> (case fst (g s) of Inl e \<Rightarrow> Q m' (Inl e) | Inr x \<Rightarrow> follows J D Q (k x) m'))"
  shows "follows J D Q (attempt (atomic g) k) m"
  by (rule follows_attempt, rule follows_atomic) (rule assms)

text \<open>A part of a handler during which the automaton stays where it is.\<close>

lemma follows_idle:
  assumes "follows J D (\<lambda>m' r. m' = m) p m" "\<And>e. Q m (Inl e)" "\<And>x. follows J D Q (k x) m"
  shows "follows J D Q (attempt p k) m"
  by (rule follows_attempt, rule follows_conseq [OF assms(1)]) (use assms(2,3) in \<open>auto split: sum.splits\<close>)

section \<open>A run of several handlers\<close>

inductive joint :: "(nat \<Rightarrow> 'm \<Rightarrow> 's \<Rightarrow> 's \<Rightarrow> 'm \<Rightarrow> bool) \<Rightarrow> (nat \<Rightarrow> 'm) \<Rightarrow> 's \<Rightarrow> (nat \<Rightarrow> 'm) \<Rightarrow> 's \<Rightarrow> bool"
  for D ms s where
  start: "joint D ms s ms s"
| step: "joint D ms s ns t \<Longrightarrow> D i (ns i) t u m \<Longrightarrow> joint D ms s (ns(i := m)) u"

lemma joint_trans: "joint D ns t os u \<Longrightarrow> joint D ms s ns t \<Longrightarrow> joint D ms s os u"
  by (induction rule: joint.induct) (auto intro: joint.intros)

text \<open>What every step of every part keeps, a run keeps.\<close>

locale invariant_system =
  fixes D :: "nat \<Rightarrow> 'm \<Rightarrow> 's \<Rightarrow> 's \<Rightarrow> 'm \<Rightarrow> bool"
    and Inv :: "(nat \<Rightarrow> 'm) \<Rightarrow> 's \<Rightarrow> bool"
  assumes keeps: "Inv ns t \<Longrightarrow> D i (ns i) t u m \<Longrightarrow> Inv (ns(i := m)) u"
begin

lemma run_keeps: "joint D ms s ns t \<Longrightarrow> Inv ms s \<Longrightarrow> Inv ns t"
  by (induction rule: joint.induct) (auto intro: keeps simp del: fun_upd_apply)

end

lemma joint_view:
  assumes "joint (\<lambda>i m s t m'. D i m (view s) (view t) m') ms s ns t"
  shows "joint D ms (view s) ns (view t)"
  using assms by (induction rule: joint.induct) (auto intro: joint.intros simp del: fun_upd_apply)

text \<open>
  If every handler follows its automaton, so does every interleaving of them; the handlers'
  remainders still follow theirs from where these have got to.
\<close>

lemma run_follows:
  assumes "interleave is ps s = (qs, t)" "J s" "\<And>i. i < length ps \<Longrightarrow> follows J (D i) (Q i) (ps ! i) (ms i)"
  shows "J t \<and> length qs = length ps \<and>
    (\<exists>ns. joint D ms s ns t \<and> (\<forall>i < length ps. follows J (D i) (Q i) (qs ! i) (ns i)))"
  using assms
proof (induction "is" ps s arbitrary: ms rule: interleave.induct)
  case (2 j js ps s)
  consider (out) "\<not> j < length ps" | (over) "j < length ps" "finished (ps ! j)"
    | (on) f where "j < length ps" "ps ! j = Atomic f"
    by (cases "ps ! j") auto
  then show ?case
  proof cases
    case out
    with 2 show ?thesis by auto
  next
    case over
    then have "advance (ps ! j) s = (ps ! j, s)" by (cases "ps ! j") auto
    moreover have "interleave js (ps[j := ps ! j]) s = (qs, t)" using calculation "2.prems"(1) over(1) by simp
    ultimately show ?thesis using "2.IH"(1) [OF over(1) _ refl, of "ps ! j" s ms] "2.prems"(2,3) by simp
  next
    case on
    have f: "J (snd (f s))" "\<exists>m'. D j (ms j) s (snd (f s)) m' \<and> follows J (D j) (Q j) (fst (f s)) m'"
      using "2.prems"(3) [OF on(1)] "2.prems"(2) on(2) by auto
    then obtain m' where m': "D j (ms j) s (snd (f s)) m'" "follows J (D j) (Q j) (fst (f s)) m'" by blast
    have adv: "advance (ps ! j) s = (fst (f s), snd (f s))" using on(2) by simp
    have rest: "interleave js (ps[j := fst (f s)]) (snd (f s)) = (qs, t)"
      using "2.prems"(1) on by (simp add: Let_def split: prod.splits)
    have each: "follows J (D i) (Q i) (ps[j := fst (f s)] ! i) ((ms(j := m')) i)"
      if "i < length (ps[j := fst (f s)])" for i
      using "2.prems"(3) [of i] m'(2) that by (cases "i = j") auto
    have one: "joint D ms s (ms(j := m')) (snd (f s))" 
      by (rule joint.step [where D = D and ns = ms and i = j, OF joint.start]) (rule m'(1))
    from "2.IH"(1) [OF on(1) adv [symmetric] refl rest f(1) each]
    obtain ns where ns: "J t" "length qs = length ps" "joint D (ms(j := m')) (snd (f s)) ns t"
      "\<forall>i < length ps. follows J (D i) (Q i) (qs ! i) (ns i)" by (auto simp del: fun_upd_apply)
    show ?thesis using ns(1,2,4) joint_trans [OF ns(3) one] by blast
  qed
qed (auto intro: joint.start)

section \<open>Laws of single steps\<close>

definition always :: "('s \<Rightarrow> bool) \<Rightarrow> ('a \<Rightarrow> bool) \<Rightarrow> ('s, 'a) prog \<Rightarrow> bool" where
  "always J Q p = follows J (\<lambda>_ _ _ _. True) (\<lambda>_. Q) p ()"

named_theorems stepwise "parts of handlers that keep a law"

lemma always_Finish: "Q a \<Longrightarrow> always J Q (Finish a)"
  by (simp add: always_def)

lemma always_atomic: "(\<And>s. J s \<Longrightarrow> J (snd (g s)) \<and> Q (fst (g s))) \<Longrightarrow> always J Q (atomic g)"
  unfolding always_def by (rule follows_atomic) auto

lemma always_attempt:
  assumes "always J (\<lambda>r. case r of Inl e \<Rightarrow> Q (Inl e) | Inr x \<Rightarrow> always J Q (k x)) p"
  shows "always J Q (attempt p k)"
  unfolding always_def
  by (rule follows_attempt, rule follows_conseq [OF assms [unfolded always_def]]) (auto split: sum.splits)

lemma always_conseq: "always J Q p \<Longrightarrow> (\<And>a. Q a \<Longrightarrow> Q' a) \<Longrightarrow> always J Q' p"
  unfolding always_def by (rule follows_conseq)

lemma run_always:
  assumes "interleave is ps s = (qs, t)" "J s" "\<And>i. i < length ps \<Longrightarrow> always J (Q i) (ps ! i)"
  shows "J t \<and> (\<forall>i < length ps. \<forall>a. qs ! i = Finish a \<longrightarrow> Q i a)"
proof -
  from run_follows [of "is" ps s qs t J "\<lambda>_ _ _ _ _. True" "\<lambda>i _. Q i" "\<lambda>_. ()"] assms
  have "J t" "\<forall>i < length ps. follows J (\<lambda>_ _ _ _. True) (\<lambda>_. Q i) (qs ! i) ()" by (auto simp: always_def)
  then show ?thesis by auto
qed

section \<open>One handler by itself\<close>

text \<open>What a handler returns, and leaves behind, when nothing else runs until it has finished.\<close>

primrec run_alone :: "('s, 'a) prog \<Rightarrow> 's \<Rightarrow> 'a \<times> 's" where
  "run_alone (Finish a) = Pair a"
| "run_alone (Atomic f) = (\<lambda>s. fst (map_prod run_alone id (f s)) (snd (f s)))"

lemma run_alone_atomic [simp]: "run_alone (atomic g) s = g s"
  by (simp add: atomic_def)

lemma run_alone_bind: "run_alone (prog_bind p k) s = (case run_alone p s of (a, t) \<Rightarrow> run_alone (k a) t)"
proof (induction p arbitrary: s)
  case (Atomic f)
  show ?case using Atomic [of "f s" "fst (f s)"] by (simp add: fsts.simps)
qed simp

lemma run_alone_attempt [simp]:
  "run_alone (attempt p k) s = (case run_alone p s of (Inl e, t) \<Rightarrow> (Inl e, t) | (Inr x, t) \<Rightarrow> run_alone (k x) t)"
  by (simp add: attempt_def run_alone_bind split: prod.splits sum.splits)

text \<open>It is the interleaving in which the handler has every turn.\<close>

lemma run_alone_interleaves: "\<exists>n. interleave (replicate n 0) [p] s = ([Finish (fst (run_alone p s))], snd (run_alone p s))"
proof (induction p arbitrary: s)
  case (Finish a)
  show ?case by (rule exI [of _ 0]) simp
next
  case (Atomic f)
  obtain n where n: "interleave (replicate n 0) [fst (f s)] (snd (f s))
      = ([Finish (fst (run_alone (fst (f s)) (snd (f s))))], snd (run_alone (fst (f s)) (snd (f s))))"
    using Atomic [of "f s" "fst (f s)" "snd (f s)"] by (auto simp: fsts.simps)
  show ?case by (rule exI [of _ "Suc n"]) (simp add: n split_beta)
qed

lemma always_alone:
  assumes "always J Q p" "J s"
  shows "J (snd (run_alone p s)) \<and> Q (fst (run_alone p s))"
proof -
  obtain n where "interleave (replicate n 0) [p] s = ([Finish (fst (run_alone p s))], snd (run_alone p s))"
    using run_alone_interleaves [of p s] by blast
  from run_always [OF this, of J "\<lambda>_. Q"] assms show ?thesis by simp
qed

text \<open>In an interleaving, a handler may be given turns until a part of it, or all of it, has run.\<close>

lemma interleave_append:
  "interleave (xs @ ys) ps s = (case interleave xs ps s of (qs, t) \<Rightarrow> interleave ys qs t)"
  by (induction xs ps s rule: interleave.induct) (auto simp: split_beta)

lemma turns:
  assumes "i < length ps" "ps ! i = attempt p k" "run_alone p s = (Inr x, t)"
  shows "\<exists>n. interleave (replicate n i) ps s = (ps[i := k x], t)"
  using assms
proof (induction p arbitrary: ps s)
  case (Finish a)
  then show ?case using list_update_id [of ps i] by (intro exI [of _ 0]) auto
next
  case (Atomic f)
  have k: "attempt (Atomic f) k = Atomic (\<lambda>s. map_prod (\<lambda>p. attempt p k) id (f s))"
    by (simp add: attempt_def)
  let ?ps = "ps[i := attempt (fst (f s)) k]"
  have "\<exists>n. interleave (replicate n i) ?ps (snd (f s)) = (?ps[i := k x], t)"
    by (rule Atomic.IH [of "f s" "fst (f s)"]) (use Atomic.prems in \<open>simp_all add: fsts.simps\<close>)
  then obtain n where "interleave (replicate n i) ?ps (snd (f s)) = (ps[i := k x], t)" by auto
  then show ?case
    by (intro exI [of _ "Suc n"]) (use Atomic.prems in \<open>simp add: k split_beta\<close>)
qed

lemma turns_home:
  assumes "i < length ps" "ps ! i = p" "run_alone p s = (r, t)"
  shows "\<exists>n. interleave (replicate n i) ps s = (ps[i := Finish r], t)"
  using assms
proof (induction p arbitrary: ps s)
  case (Finish a)
  then show ?case using list_update_id [of ps i] by (intro exI [of _ 0]) auto
next
  case (Atomic f)
  let ?ps = "ps[i := fst (f s)]"
  have "\<exists>n. interleave (replicate n i) ?ps (snd (f s)) = (?ps[i := Finish r], t)"
    by (rule Atomic.IH [of "f s" "fst (f s)"]) (use Atomic.prems in \<open>simp_all add: fsts.simps\<close>)
  then obtain n where "interleave (replicate n i) ?ps (snd (f s)) = (ps[i := Finish r], t)" by auto
  then show ?case
    by (intro exI [of _ "Suc n"]) (use Atomic.prems in \<open>simp add: split_beta\<close>)
qed

end
