(* ===== verification/Tables.thy ===== *)
theory Tables
  imports Prelude
begin

text \<open>
  Tables as lists of rows: what a query by key sees after an insertion, an update and a deletion,
  and columns that are unique where they are not null.
\<close>

text \<open>\<open>ORDER BY key DESC LIMIT 1\<close>\<close>

fun newest :: "('r \<Rightarrow> instant) \<Rightarrow> 'r list \<Rightarrow> 'r option" where
  "newest key [] = None"
| "newest key (r # rs) =
     (case newest key rs of None \<Rightarrow> Some r | Some q \<Rightarrow> if key r < key q then Some q else Some r)"

section \<open>Tables with a key\<close>

lemma find_append: "find P (xs @ ys) = (case find P xs of None \<Rightarrow> find P ys | Some x \<Rightarrow> Some x)"
  by (induction xs) auto

lemma find_map_key:
  assumes "\<And>r. key (f r) = key r"
  shows "find (\<lambda>r. key r = k) (map f rs) = map_option f (find (\<lambda>r. key r = k) rs)"
  using assms by (induction rs) auto

lemma find_filter_key:
  assumes "distinct (map key rs)"
  shows "find (\<lambda>r. key r = k) (filter P rs) = Option.bind (find (\<lambda>r. key r = k) rs) (\<lambda>r. if P r then Some r else None)"
  using assms
proof (induction rs)
  case (Cons r rs)
  have "find (\<lambda>q. key q = key r) rs = None" using Cons.prems by (induction rs) auto
  then show ?case using Cons by (auto split: option.splits)
qed simp

lemma find_key_in: "find (\<lambda>r. key r = k) rs = Some r \<Longrightarrow> r \<in> set rs \<and> key r = k"
  by (induction rs) (auto split: if_splits)

lemma find_key_out: "find (\<lambda>r. key r = k) rs = None \<longleftrightarrow> k \<notin> key ` set rs"
  by (force simp: find_None_iff)

lemma find_key_mem: "distinct (map key rs) \<Longrightarrow> r \<in> set rs \<Longrightarrow> find (\<lambda>q. key q = key r) rs = Some r"
  by (induction rs) force+

lemma in_somes: "x \<in> set (somes xs) \<longleftrightarrow> Some x \<in> set xs"
  by (induction xs rule: somes.induct) auto

lemma distinct_somes_map:
  assumes "distinct (somes (map f rs))" "\<And>r. g r = f r \<or> g r = None"
  shows "distinct (somes (map g rs)) \<and> set (somes (map g rs)) \<subseteq> set (somes (map f rs))"
  using assms(1)
proof (induction rs)
  case (Cons r rs)
  show ?case using Cons assms(2) [of r] by (cases "f r") auto
qed simp

lemma distinct_somes_filter: "distinct (somes (map f rs)) \<Longrightarrow> distinct (somes (map f (filter P rs)))"
proof (induction rs)
  case (Cons r rs)
  then show ?case by (cases "f r") (auto simp: in_somes)
qed simp

lemma somes_unique:
  assumes "distinct (somes (map f rs))" "r \<in> set rs" "q \<in> set rs" "f r = Some v" "f q = Some v"
  shows "r = q"
  using assms
proof (induction rs)
  case (Cons x rs)
  show ?case
  proof (cases "f x")
    case None
    with Cons show ?thesis by auto
  next
    case (Some w)
    then have "\<forall>y \<in> set rs. f y \<noteq> Some w" using Cons.prems(1) by (force simp: in_somes)
    with Some Cons show ?thesis by auto
  qed
qed simp

end
