(* ===== verification/AuthStore.thy ===== *)
theory AuthStore
  imports Transactions Tables
begin

text \<open>
  The tables behind pairing and tokens, \<open>services/api/store.py\<close>, with \<open>security.py\<close> and the two
  pieces of process memory the handlers share (\<open>_PendingTokens\<close>, \<open>_SetupThrottle\<close>). A method of
  \<open>Store\<close> is one transaction, a function on the tables; PostgreSQL's constraints are the guards
  of the insertions. SHA-256 and the JWT library are arguments, and so are the values drawn from
  \<open>secrets\<close>, \<open>uuid4\<close> and \<open>random()\<close>. So is the text of
  a UUID. The wall clock and the monotonic clock are part of the state.
\<close>

section \<open>Tables\<close>

record client_row =
  cl_id :: uuid
  cl_name :: string
  cl_hash :: "string option"
  cl_created_at :: instant
  cl_last_seen_at :: "instant option"
  cl_revoked_at :: "instant option"

record identity_row =
  hi_id :: uuid
  hi_setup_code_hash :: "string option"
  hi_setup_completed_at :: "instant option"

record window_row =
  wn_id :: uuid
  wn_opened_at :: instant
  wn_expires_at :: instant
  wn_opened_by :: string
  wn_used_at :: "instant option"
  wn_used_by :: "uuid option"

datatype request_state = ReqPending | ReqApproved | ReqDenied | ReqExpired

record request_row =
  rq_id :: uuid
  rq_client_name :: string
  rq_state :: request_state
  rq_pairing_code :: "string option"
  rq_created_at :: instant
  rq_expires_at :: instant
  rq_decided_at :: "instant option"
  rq_client_pk :: "uuid option"

text \<open>The audit events of pairing; the sink never fails a request.\<close>

datatype trail_event =
    PairCodeRejected string
  | PairCodeGranted uuid string
  | PairWindowUsed uuid uuid string
  | PairTofuGranted uuid string
  | PairNoApprover string
  | PairRequested uuid string
  | PairCollected uuid
  | PairApproved uuid uuid uuid
  | PairDenied uuid uuid
  | TokenRejected
  | TokenMinted uuid
  | ClientRevoked uuid string uuid bool
  | ClientRevokedByCli uuid string
  | WindowOpened uuid string

record hub =
  hb_clients :: "client_row list"
  hb_identity :: "identity_row option"
  hb_windows :: "window_row list"
  hb_requests :: "request_row list"
  hb_keys :: "string list"
  hb_secret_cache :: "string option"
  hb_pending_tokens :: "(uuid \<times> uuid \<times> string) list"
  hb_failures :: "seconds list"
  hb_trail :: "trail_event list"
  hb_wall :: instant
  hb_mono :: seconds

text \<open>What ends a request: an \<open>HTTPException\<close>, the one with a \<open>Retry-After\<close>, or a bug's 500.\<close>

datatype fault = Http nat | TooManyAttempts int | Crash py_error

type_synonym 'a txn = "hub \<Rightarrow> (fault + 'a) \<times> hub"

section \<open>security.py\<close>

definition REFRESH_TOKEN_BYTES :: nat where "REFRESH_TOKEN_BYTES = 32"
definition ACCESS_TOKEN_TTL_S :: nat where "ACCESS_TOKEN_TTL_S = 900"

definition SETUP_ALPHABET :: string where
  "SETUP_ALPHABET = filter (\<lambda>ch. ch \<notin> set ''0OI1'') ''0123456789ABCDEFGHJKMNPQRSTVWXYZ''"

text \<open>\<open>secrets.choice\<close> eight times; the drawn numbers are the argument.\<close>

definition new_setup_code :: "nat list \<Rightarrow> string" where
  "new_setup_code draws = map (\<lambda>n. SETUP_ALPHABET ! (n mod length SETUP_ALPHABET)) (take 8 draws)"

definition format_setup_code :: "string \<Rightarrow> string" where
  "format_setup_code code = take 4 code @ ''-'' @ drop 4 code"

definition upper_char :: "char \<Rightarrow> char" where
  "upper_char ch = (if 97 \<le> (of_char ch :: nat) \<and> (of_char ch :: nat) \<le> 122 then char_of ((of_char ch :: nat) - 32) else ch)"

definition normalize_setup_code :: "string \<Rightarrow> string" where
  "normalize_setup_code entry = map upper_char (py_strip (filter (\<lambda>ch. ch \<noteq> CHR ''-'') entry))"

definition hash_refresh_token :: "(string \<Rightarrow> string) \<Rightarrow> string \<Rightarrow> string" where
  "hash_refresh_token sha tok = sha tok"

definition hash_setup_code :: "(string \<Rightarrow> string) \<Rightarrow> string \<Rightarrow> string" where
  "hash_setup_code sha code = sha (normalize_setup_code code)"

text \<open>
  A JWT. \<open>jwt.encode\<close> and \<open>jwt.decode\<close> are the library's; the \<open>client_id\<close> claim of a payload is
  missing or not a string, or a string that is a UUID or is not.
\<close>

datatype claim = NoClaim | TextClaim "uuid option"

record jwt_payload =
  jp_client_id :: claim
  jp_iat :: int
  jp_exp :: int

datatype decoded = ExpiredSignature | InvalidToken | Payload jwt_payload

record crypto =
  cr_sha256 :: "string \<Rightarrow> string"
  cr_encode :: "jwt_payload \<Rightarrow> string \<Rightarrow> string"
  cr_decode :: "instant \<Rightarrow> string \<Rightarrow> string \<Rightarrow> decoded"
  cr_uuid :: "string \<Rightarrow> uuid option"
  cr_uuid_text :: "uuid \<Rightarrow> string"

definition issue_access_token :: "crypto \<Rightarrow> uuid \<Rightarrow> string \<Rightarrow> nat \<Rightarrow> instant \<Rightarrow> string \<times> nat" where
  "issue_access_token lib client_id secret ttl_s issued =
     (cr_encode lib \<lparr>jp_client_id = TextClaim (Some client_id), jp_iat = py_int issued,
        jp_exp = py_int (issued + of_nat ttl_s)\<rparr> secret, ttl_s)"

text \<open>\<open>TokenError\<close> on the left.\<close>

definition verify_access_token :: "crypto \<Rightarrow> string \<Rightarrow> string \<Rightarrow> instant \<Rightarrow> string + uuid" where
  "verify_access_token lib tok secret now =
     (case cr_decode lib now tok secret of
        ExpiredSignature \<Rightarrow> Inl ''access token expired''
      | InvalidToken \<Rightarrow> Inl ''invalid access token''
      | Payload p \<Rightarrow>
          (case jp_client_id p of
             NoClaim \<Rightarrow> Inl ''token carries no client_id''
           | TextClaim None \<Rightarrow> Inl ''token client_id is not a uuid''
           | TextClaim (Some c) \<Rightarrow> Inr c))"

section \<open>Process memory\<close>

definition pending_put :: "uuid \<Rightarrow> uuid \<Rightarrow> string \<Rightarrow> unit txn" where
  "pending_put request_id client_id tok s =
     (Inr (), s\<lparr>hb_pending_tokens := alist_put request_id (client_id, tok) (hb_pending_tokens s)\<rparr>)"

definition pending_take :: "uuid \<Rightarrow> (uuid \<times> string) option txn" where
  "pending_take request_id s =
     (Inr (map_of (hb_pending_tokens s) request_id),
      s\<lparr>hb_pending_tokens := alist_pop request_id (hb_pending_tokens s)\<rparr>)"

definition THROTTLE_LIMIT :: nat where "THROTTLE_LIMIT = 10"
definition THROTTLE_WINDOW_S :: seconds where "THROTTLE_WINDOW_S = 60"

text \<open>\<open>retry_after\<close>: the answer, and the failures it keeps.\<close>

definition retry_after :: "seconds \<Rightarrow> seconds list \<Rightarrow> int option \<times> seconds list" where
  "retry_after now failures =
     (let kept = dropWhile (\<lambda>t. now - t > THROTTLE_WINDOW_S) failures
      in if length kept < THROTTLE_LIMIT then (None, kept)
         else (Some (py_int (THROTTLE_WINDOW_S - (now - hd kept)) + 1), kept))"

definition record_failure :: "seconds \<Rightarrow> seconds list \<Rightarrow> seconds list" where
  "record_failure now failures = failures @ [now]"

section \<open>Keys and identity\<close>

text \<open>The newest key that is not retired; nothing in the code retires one.\<close>

definition select_key :: "string option txn" where
  "select_key s = (Inr (if hb_keys s = [] then None else Some (last (hb_keys s))), s)"

definition insert_key :: "string \<Rightarrow> unit txn" where
  "insert_key secret s = (Inr (), s\<lparr>hb_keys := hb_keys s @ [secret]\<rparr>)"

definition store_hub_id :: "uuid \<Rightarrow> uuid txn" where
  "store_hub_id fresh s =
     (case hb_identity s of
        Some r \<Rightarrow> (Inr (hi_id r), s)
      | None \<Rightarrow> (Inr fresh, s\<lparr>hb_identity := Some \<lparr>hi_id = fresh, hi_setup_code_hash = None,
                                                  hi_setup_completed_at = None\<rparr>\<rparr>))"

section \<open>Setup\<close>

definition setup_state :: "(string option \<times> instant option) txn" where
  "setup_state s =
     (Inr (case hb_identity s of
             None \<Rightarrow> (None, None)
           | Some r \<Rightarrow> (hi_setup_code_hash r, hi_setup_completed_at r)), s)"

definition set_setup_code_hash :: "string \<Rightarrow> unit txn" where
  "set_setup_code_hash h s =
     (Inr (), s\<lparr>hb_identity := map_option (\<lambda>r. r\<lparr>hi_setup_code_hash := Some h\<rparr>) (hb_identity s)\<rparr>)"

definition complete_setup :: "bool txn" where
  "complete_setup s =
     (case hb_identity s of
        Some r \<Rightarrow>
          if hi_setup_completed_at r = None
          then (Inr True, s\<lparr>hb_identity := Some (r\<lparr>hi_setup_completed_at := Some (hb_wall s),
                                                 hi_setup_code_hash := None\<rparr>)\<rparr>)
          else (Inr False, s)
      | None \<Rightarrow> (Inr False, s))"

section \<open>Clients\<close>

definition total_clients_ever :: "nat txn" where
  "total_clients_ever s = (Inr (length (hb_clients s)), s)"

definition list_clients :: "client_row list txn" where
  "list_clients s = (Inr (sort_key cl_created_at (hb_clients s)), s)"

definition name_blank :: "string \<Rightarrow> bool" where
  "name_blank name = list_all (\<lambda>ch. ch = CHR '' '') name"

definition create_client :: "crypto \<Rightarrow> uuid \<Rightarrow> string \<Rightarrow> string \<Rightarrow> (uuid \<times> string) txn" where
  "create_client lib client_id tok name s =
     (let h = hash_refresh_token (cr_sha256 lib) tok
      in if name_blank name \<or> list_ex (\<lambda>r. cl_id r = client_id \<or> cl_hash r = Some h) (hb_clients s)
         then (Inl (Crash (IntegrityError ''paired_clients'')), s)
         else (Inr (client_id, tok),
               s\<lparr>hb_clients := hb_clients s @ [\<lparr>cl_id = client_id, cl_name = name, cl_hash = Some h,
                   cl_created_at = hb_wall s, cl_last_seen_at = None, cl_revoked_at = None\<rparr>]\<rparr>))"

text \<open>
  The count and the insertion share a transaction, and the advisory lock keeps every other
  first-client transaction out of it: one step.
\<close>

definition create_first_client :: "crypto \<Rightarrow> uuid \<Rightarrow> string \<Rightarrow> string \<Rightarrow> (uuid \<times> string) option txn" where
  "create_first_client lib client_id tok name s =
     (if hb_clients s \<noteq> [] then (Inr None, s)
      else apfst (map_sum id Some) (create_client lib client_id tok name s))"

definition client_for_refresh_token :: "crypto \<Rightarrow> string \<Rightarrow> uuid option txn" where
  "client_for_refresh_token lib tok s =
     (case find (\<lambda>r. cl_hash r = Some (hash_refresh_token (cr_sha256 lib) tok)) (hb_clients s) of
        None \<Rightarrow> (Inr None, s)
      | Some row \<Rightarrow>
          (Inr (Some (cl_id row)),
           s\<lparr>hb_clients := map (\<lambda>r. if cl_id r = cl_id row then r\<lparr>cl_last_seen_at := Some (hb_wall s)\<rparr> else r)
                             (hb_clients s)\<rparr>))"

text \<open>The two tables that refer to a client, both \<open>ON DELETE RESTRICT\<close>.\<close>

definition client_referenced :: "uuid \<Rightarrow> hub \<Rightarrow> bool" where
  "client_referenced c s =
     (list_ex (\<lambda>w. wn_used_by w = Some c) (hb_windows s) \<or> list_ex (\<lambda>r. rq_client_pk r = Some c) (hb_requests s))"

definition discard_client :: "uuid \<Rightarrow> unit txn" where
  "discard_client client_id s =
     (if list_ex (\<lambda>r. cl_id r = client_id) (hb_clients s) \<and> client_referenced client_id s
      then (Inl (Crash (IntegrityError ''paired_clients'')), s)
      else (Inr (), s\<lparr>hb_clients := filter (\<lambda>r. cl_id r \<noteq> client_id) (hb_clients s)\<rparr>))"

definition find_client :: "uuid \<Rightarrow> hub \<Rightarrow> client_row option" where
  "find_client client_id s = find (\<lambda>r. cl_id r = client_id) (hb_clients s)"

definition store_client_name :: "uuid \<Rightarrow> string option txn" where
  "store_client_name client_id s = (Inr (map_option cl_name (find_client client_id s)), s)"

definition client_is_active :: "uuid \<Rightarrow> bool txn" where
  "client_is_active client_id s =
     (Inr (case find_client client_id s of None \<Rightarrow> False | Some r \<Rightarrow> cl_revoked_at r = None), s)"

definition store_revoke :: "uuid \<Rightarrow> bool txn" where
  "store_revoke client_id s =
     (Inr (list_ex (\<lambda>r. cl_id r = client_id \<and> cl_revoked_at r = None) (hb_clients s)),
      s\<lparr>hb_clients := map (\<lambda>r. if cl_id r = client_id \<and> cl_revoked_at r = None
                                then r\<lparr>cl_hash := None, cl_revoked_at := Some (hb_wall s)\<rparr> else r) (hb_clients s)\<rparr>)"

definition active_client_count :: "nat txn" where
  "active_client_count s = (Inr (length (filter (\<lambda>r. cl_revoked_at r = None) (hb_clients s))), s)"

section \<open>Recovery windows\<close>

definition open_pairing_window :: "uuid \<Rightarrow> string \<Rightarrow> seconds \<Rightarrow> (uuid \<times> instant) txn" where
  "open_pairing_window window_id opened_by ttl_s s =
     (let opened = hb_wall s; expires = opened + ttl_s
      in if \<not> expires > opened \<or> list_ex (\<lambda>w. wn_id w = window_id) (hb_windows s)
         then (Inl (Crash (IntegrityError ''pairing_windows'')), s)
         else (Inr (window_id, expires),
               s\<lparr>hb_windows := hb_windows s @ [\<lparr>wn_id = window_id, wn_opened_at = opened, wn_expires_at = expires,
                   wn_opened_by = opened_by, wn_used_at = None, wn_used_by = None\<rparr>]\<rparr>))"

definition open_window :: "uuid option txn" where
  "open_window s =
     (Inr (map_option wn_id
        (newest wn_opened_at (filter (\<lambda>w. wn_used_at w = None \<and> wn_expires_at w > hb_wall s) (hb_windows s)))), s)"

definition spendable :: "uuid \<Rightarrow> instant \<Rightarrow> window_row \<Rightarrow> bool" where
  "spendable window_id now w = (wn_id w = window_id \<and> wn_used_at w = None \<and> wn_expires_at w > now)"

definition consume_window :: "uuid \<Rightarrow> uuid \<Rightarrow> bool txn" where
  "consume_window window_id client_id s =
     (if \<not> list_ex (spendable window_id (hb_wall s)) (hb_windows s) then (Inr False, s)
      else if find_client client_id s = None then (Inl (Crash (IntegrityError ''pairing_windows'')), s)
      else (Inr True,
            s\<lparr>hb_windows := map (\<lambda>w. if spendable window_id (hb_wall s) w
                  then w\<lparr>wn_used_at := Some (hb_wall s), wn_used_by := Some client_id\<rparr> else w) (hb_windows s)\<rparr>))"

section \<open>Pairing requests\<close>

definition PAIRING_TTL_S :: seconds where "PAIRING_TTL_S = 300"
definition PAIRING_RETENTION_S :: seconds where "PAIRING_RETENTION_S = 24 * 3600"
definition CODE_CANDIDATES :: nat where "CODE_CANDIDATES = 64"

definition sweep_pairing :: "unit txn" where
  "sweep_pairing s =
     (let moment = hb_wall s;
          cutoff = moment - PAIRING_RETENTION_S;
          aged = map (\<lambda>r. if rq_state r = ReqPending \<and> rq_expires_at r \<le> moment then r\<lparr>rq_state := ReqExpired\<rparr> else r)
                   (hb_requests s)
      in (Inr (), s\<lparr>hb_requests := filter (\<lambda>r. \<not> (rq_state r \<in> {ReqExpired, ReqDenied} \<and> rq_expires_at r < cutoff)) aged,
                    hb_windows := filter (\<lambda>w. \<not> (wn_used_at w = None \<and> wn_expires_at w < cutoff)) (hb_windows s)\<rparr>))"

definition code_in_play :: "string \<Rightarrow> hub \<Rightarrow> bool" where
  "code_in_play code s = list_ex (\<lambda>r. rq_state r = ReqPending \<and> rq_pairing_code r = Some code) (hb_requests s)"

definition insert_request :: "uuid \<Rightarrow> string list \<Rightarrow> string \<Rightarrow> (uuid \<times> string) txn" where
  "insert_request request_id drawn client_name s =
     (case find (\<lambda>code. \<not> code_in_play code s) (take CODE_CANDIDATES drawn) of
        None \<Rightarrow> (Inl (Crash (RuntimeError ''no free pairing code: too many requests are pending'')), s)
      | Some code \<Rightarrow>
          if list_ex (\<lambda>r. rq_id r = request_id) (hb_requests s)
          then (Inl (Crash (IntegrityError ''pairing_requests'')), s)
          else (Inr (request_id, code),
                s\<lparr>hb_requests := hb_requests s @ [\<lparr>rq_id = request_id, rq_client_name = client_name,
                    rq_state = ReqPending, rq_pairing_code = Some code, rq_created_at = hb_wall s,
                    rq_expires_at = hb_wall s + PAIRING_TTL_S, rq_decided_at = None, rq_client_pk = None\<rparr>]\<rparr>))"

definition open_pairing_request :: "uuid \<Rightarrow> string list \<Rightarrow> string \<Rightarrow> (hub, fault + uuid \<times> string) prog" where
  "open_pairing_request request_id drawn client_name =
     attempt (atomic sweep_pairing) (\<lambda>_. atomic (insert_request request_id drawn client_name))"

definition claimable :: "instant \<Rightarrow> request_row \<Rightarrow> bool" where
  "claimable now r = (rq_state r = ReqPending \<and> rq_expires_at r > now)"

text \<open>The state a reader sees: a pending request past its expiry reads as expired.\<close>

definition read_state :: "instant \<Rightarrow> request_row \<Rightarrow> request_state" where
  "read_state now r = (if rq_state r = ReqPending \<and> rq_expires_at r \<le> now then ReqExpired else rq_state r)"

definition pairing_request_for_code :: "string \<Rightarrow> (uuid \<times> request_state) option txn" where
  "pairing_request_for_code code s =
     (let rows = filter (\<lambda>r. rq_pairing_code r = Some code) (hb_requests s);
          live = filter (claimable (hb_wall s)) rows
      in (Inr (map_option (\<lambda>r. (rq_id r, read_state (hb_wall s) r))
                 (newest rq_created_at (if live \<noteq> [] then live else rows))), s))"

definition pairing_state :: "uuid \<Rightarrow> (request_state \<times> uuid option \<times> string) option txn" where
  "pairing_state request_id s =
     (Inr (map_option (\<lambda>r. (read_state (hb_wall s) r,
             if read_state (hb_wall s) r = ReqExpired \<and> rq_state r = ReqPending then None else rq_client_pk r,
             rq_client_name r))
        (find (\<lambda>r. rq_id r = request_id) (hb_requests s))), s)"

definition decidable_now :: "uuid \<Rightarrow> request_row \<Rightarrow> bool" where
  "decidable_now request_id r = (rq_id r = request_id \<and> rq_state r = ReqPending)"

text \<open>The deciding transaction of \<open>approve_pairing\<close>: the update, or the roll-back of the client.\<close>

definition decide_approval :: "uuid \<Rightarrow> uuid \<Rightarrow> string \<Rightarrow> (uuid \<times> string) option txn" where
  "decide_approval request_id client_id tok s =
     (if list_ex (decidable_now request_id) (hb_requests s)
      then if find_client client_id s = None then (Inl (Crash (IntegrityError ''pairing_requests'')), s)
           else (Inr (Some (client_id, tok)),
                 s\<lparr>hb_requests := map (\<lambda>r. if decidable_now request_id r
                     then r\<lparr>rq_state := ReqApproved, rq_client_pk := Some client_id, rq_decided_at := Some (hb_wall s)\<rparr>
                     else r) (hb_requests s)\<rparr>)
      else apfst (map_sum id (\<lambda>_. None)) (discard_client client_id s))"

definition approve_pairing :: "crypto \<Rightarrow> uuid \<Rightarrow> string \<Rightarrow> uuid \<Rightarrow> (hub, fault + (uuid \<times> string) option) prog" where
  "approve_pairing lib fresh tok request_id =
     attempt (atomic (pairing_state request_id)) (\<lambda>found.
       case found of
         Some (ReqPending, _, name) \<Rightarrow>
           attempt (atomic (create_client lib fresh tok name)) (\<lambda>(client_id, tok).
             atomic (decide_approval request_id client_id tok))
       | _ \<Rightarrow> Finish (Inr None))"

definition deny_pairing :: "uuid \<Rightarrow> bool txn" where
  "deny_pairing request_id s =
     (Inr (list_ex (decidable_now request_id) (hb_requests s)),
      s\<lparr>hb_requests := map (\<lambda>r. if decidable_now request_id r
            then r\<lparr>rq_state := ReqDenied, rq_decided_at := Some (hb_wall s)\<rparr> else r) (hb_requests s)\<rparr>)"

end
