(* ===== verification/PairingApi.thy ===== *)
theory PairingApi
  imports AuthStore
begin

text \<open>
  The handlers of \<open>services/api/app.py\<close> for pairing, tokens and clients, and the operator's commands of
  \<open>cli.py\<close> that write the same tables. Each is a tree of steps, one per await on the store or
  on the audit sink; what the code does between two awaits belongs to one step.
\<close>

section \<open>Who is asking\<close>

type_synonym 'a handler = "(hub, fault + 'a) prog"

definition raise :: "nat \<Rightarrow> 'a handler" where
  "raise status = Finish (Inl (Http status))"

definition sink :: "trail_event \<Rightarrow> unit handler" where
  "sink e = atomic (\<lambda>s. (Inr (), s\<lparr>hb_trail := hb_trail s @ [e]\<rparr>))"

definition cached_secret :: "string option txn" where
  "cached_secret s = (Inr (hb_secret_cache s), s)"

definition cache_secret :: "string \<Rightarrow> string txn" where
  "cache_secret secret s = (Inr secret, s\<lparr>hb_secret_cache := Some secret\<rparr>)"

text \<open>\<open>Store.signing_secret\<close>, whose two statements are two steps, behind the process's cache.\<close>

definition signing_secret :: "string \<Rightarrow> string handler" where
  "signing_secret fresh =
     attempt (atomic cached_secret) (\<lambda>cached. case cached of
       Some secret \<Rightarrow> Finish (Inr secret)
     | None \<Rightarrow> attempt (atomic select_key) (\<lambda>row. case row of
         Some secret \<Rightarrow> atomic (cache_secret secret)
       | None \<Rightarrow> attempt (atomic (insert_key fresh)) (\<lambda>_. atomic (cache_secret fresh))))"

definition wall_clock :: "instant txn" where
  "wall_clock s = (Inr (hb_wall s), s)"

definition bearer :: "string option \<Rightarrow> string option" where
  "bearer authorization =
     (case authorization of
        None \<Rightarrow> None
      | Some h \<Rightarrow> if take 7 h = ''Bearer '' then Some (drop 7 h) else None)"

definition current_client :: "crypto \<Rightarrow> string \<Rightarrow> string option \<Rightarrow> uuid handler" where
  "current_client lib fresh authorization =
     (case bearer authorization of
        None \<Rightarrow> raise 401
      | Some tok \<Rightarrow>
          attempt (signing_secret fresh) (\<lambda>secret. attempt (atomic wall_clock) (\<lambda>now.
            case verify_access_token lib tok secret now of
              Inl _ \<Rightarrow> raise 401
            | Inr client_id \<Rightarrow>
                attempt (atomic (client_is_active client_id)) (\<lambda>active.
                  if \<not> active then raise 401 else Finish (Inr client_id)))))"

section \<open>Pairing\<close>

text \<open>The values a call draws: a client id, its refresh token, a request id, candidates for a code.\<close>

record draws =
  dr_client :: uuid
  dr_token :: string
  dr_request :: uuid
  dr_codes :: "string list"
  dr_key :: string

datatype answer =
    PairGranted string uuid
  | PairPending uuid string
  | StillPending
  | PairClaimed uuid
  | Decided
  | AccessToken string nat
  | Revoked
  | NotRevoked string
  | Window uuid instant
  | SetupCode "string option"
  | Nothing

text \<open>
  The throttle, the comparison with the minted code and the record of a failure: no await
  separates them, so they are one step. \<open>monotonic()\<close> is read twice there; both reads are the
  state's clock.
\<close>

definition setup_gate :: "crypto \<Rightarrow> string \<Rightarrow> string option \<Rightarrow> bool txn" where
  "setup_gate lib entry code_hash s =
     (case retry_after (hb_mono s) (hb_failures s) of
        (Some after, kept) \<Rightarrow> (Inl (TooManyAttempts after), s\<lparr>hb_failures := kept\<rparr>)
      | (None, kept) \<Rightarrow>
          if code_hash \<noteq> Some (hash_setup_code (cr_sha256 lib) entry)
          then (Inr False, s\<lparr>hb_failures := record_failure (hb_mono s) kept\<rparr>)
          else (Inr True, s\<lparr>hb_failures := kept\<rparr>))"

definition pair_with_code :: "crypto \<Rightarrow> draws \<Rightarrow> string \<Rightarrow> string \<Rightarrow> string option \<Rightarrow> bool \<Rightarrow> answer handler" where
  "pair_with_code lib d name entry code_hash in_setup =
     (if \<not> in_setup then raise 422
      else attempt (atomic (setup_gate lib entry code_hash)) (\<lambda>right.
        if \<not> right then attempt (sink (PairCodeRejected name)) (\<lambda>_. raise 422)
        else attempt (atomic (create_client lib (dr_client d) (dr_token d) name)) (\<lambda>(client_id, tok).
          attempt (atomic complete_setup) (\<lambda>latched.
            if \<not> latched then attempt (atomic (discard_client client_id)) (\<lambda>_. raise 409)
            else attempt (sink (PairCodeGranted client_id name)) (\<lambda>_.
              Finish (Inr (PairGranted tok client_id)))))))"

definition pair_by_window :: "crypto \<Rightarrow> draws \<Rightarrow> string \<Rightarrow> uuid \<Rightarrow> answer handler" where
  "pair_by_window lib d name window_id =
     attempt (atomic (create_client lib (dr_client d) (dr_token d) name)) (\<lambda>(client_id, tok).
       attempt (atomic (consume_window window_id client_id)) (\<lambda>spent.
         if \<not> spent then attempt (atomic (discard_client client_id)) (\<lambda>_. raise 409)
         else attempt (atomic complete_setup) (\<lambda>_.
           attempt (sink (PairWindowUsed window_id client_id name)) (\<lambda>_.
             Finish (Inr (PairGranted tok client_id))))))"

definition pair_first :: "crypto \<Rightarrow> draws \<Rightarrow> string \<Rightarrow> answer handler" where
  "pair_first lib d name =
     attempt (atomic (create_first_client lib (dr_client d) (dr_token d) name)) (\<lambda>first.
       case first of
         None \<Rightarrow> raise 409
       | Some (client_id, tok) \<Rightarrow>
           attempt (atomic complete_setup) (\<lambda>_.
             attempt (sink (PairTofuGranted client_id name)) (\<lambda>_.
               Finish (Inr (PairGranted tok client_id)))))"

definition ask_for_approval :: "draws \<Rightarrow> string \<Rightarrow> answer handler" where
  "ask_for_approval d name =
     attempt (atomic active_client_count) (\<lambda>active.
       if active = 0 then attempt (sink (PairNoApprover name)) (\<lambda>_. raise 403)
       else attempt (open_pairing_request (dr_request d) (dr_codes d) name) (\<lambda>(request_id, code).
         attempt (sink (PairRequested request_id name)) (\<lambda>_.
           Finish (Inr (PairPending request_id code)))))"

definition pair_client :: "crypto \<Rightarrow> draws \<Rightarrow> string \<Rightarrow> string option \<Rightarrow> answer handler" where
  "pair_client lib d name setup_code =
     attempt (atomic setup_state) (\<lambda>(code_hash, completed_at).
       let in_setup = (completed_at = None)
       in case setup_code of
            Some entry \<Rightarrow> pair_with_code lib d name entry code_hash in_setup
          | None \<Rightarrow>
              attempt (atomic open_window) (\<lambda>window_id. case window_id of
                Some w \<Rightarrow> pair_by_window lib d name w
              | None \<Rightarrow>
                  if in_setup \<and> code_hash \<noteq> None then raise 422
                  else attempt (atomic total_clients_ever) (\<lambda>total.
                    if total = 0 then pair_first lib d name else ask_for_approval d name)))"

definition poll_pair :: "uuid \<Rightarrow> answer handler" where
  "poll_pair request_id =
     attempt (atomic (pairing_state request_id)) (\<lambda>found. case found of
       None \<Rightarrow> raise 404
     | Some (st, _) \<Rightarrow>
         (case st of
            ReqExpired \<Rightarrow> raise 410
          | ReqDenied \<Rightarrow> raise 403
          | ReqPending \<Rightarrow> Finish (Inr StillPending)
          | ReqApproved \<Rightarrow>
              attempt (atomic (pending_take request_id)) (\<lambda>collected. case collected of
                None \<Rightarrow> raise 410
              | Some (client_id, tok) \<Rightarrow>
                  attempt (sink (PairCollected client_id)) (\<lambda>_. Finish (Inr (PairGranted tok client_id))))))"

text \<open>\<open>_approve\<close>\<close>

definition approve_request :: "crypto \<Rightarrow> draws \<Rightarrow> uuid \<Rightarrow> uuid \<Rightarrow> unit handler" where
  "approve_request lib d request_id approver =
     attempt (approve_pairing lib (dr_client d) (dr_token d) request_id) (\<lambda>result. case result of
       None \<Rightarrow> raise 409
     | Some (client_id, tok) \<Rightarrow>
         attempt (atomic (pending_put request_id client_id tok)) (\<lambda>_.
           attempt (atomic complete_setup) (\<lambda>_.
             sink (PairApproved request_id client_id approver))))"

definition claim_pairing :: "crypto \<Rightarrow> draws \<Rightarrow> string option \<Rightarrow> string \<Rightarrow> answer handler" where
  "claim_pairing lib d authorization code =
     attempt (current_client lib (dr_key d) authorization) (\<lambda>approver.
       attempt (atomic (pairing_request_for_code code)) (\<lambda>found. case found of
         None \<Rightarrow> raise 404
       | Some (request_id, st) \<Rightarrow>
           if st \<noteq> ReqPending then raise 409
           else attempt (approve_request lib d request_id approver) (\<lambda>_. Finish (Inr (PairClaimed request_id)))))"

definition approve_by_id :: "crypto \<Rightarrow> draws \<Rightarrow> string option \<Rightarrow> uuid \<Rightarrow> answer handler" where
  "approve_by_id lib d authorization request_id =
     attempt (current_client lib (dr_key d) authorization) (\<lambda>approver.
       attempt (approve_request lib d request_id approver) (\<lambda>_. Finish (Inr Decided)))"

definition deny_by_id :: "crypto \<Rightarrow> draws \<Rightarrow> string option \<Rightarrow> uuid \<Rightarrow> answer handler" where
  "deny_by_id lib d authorization request_id =
     attempt (current_client lib (dr_key d) authorization) (\<lambda>approver.
       attempt (atomic (deny_pairing request_id)) (\<lambda>denied.
         if \<not> denied then raise 409
         else attempt (sink (PairDenied request_id approver)) (\<lambda>_. Finish (Inr Decided))))"

section \<open>Tokens and clients\<close>

definition mint_token :: "crypto \<Rightarrow> draws \<Rightarrow> nat \<Rightarrow> string \<Rightarrow> answer handler" where
  "mint_token lib d access_ttl_s refresh_token =
     attempt (atomic (client_for_refresh_token lib refresh_token)) (\<lambda>found. case found of
       None \<Rightarrow> attempt (sink TokenRejected) (\<lambda>_. raise 401)
     | Some client_id \<Rightarrow>
         attempt (signing_secret (dr_key d)) (\<lambda>secret. attempt (atomic wall_clock) (\<lambda>now.
           let (access, expires_in) = issue_access_token lib client_id secret access_ttl_s now
           in attempt (sink (TokenMinted client_id)) (\<lambda>_. Finish (Inr (AccessToken access expires_in))))))"

text \<open>\<open>actor_fields\<close>: the name recorded beside an event, the id when there is none.\<close>

definition actor_name :: "(uuid \<Rightarrow> string) \<Rightarrow> uuid \<Rightarrow> string option \<Rightarrow> string" where
  "actor_name text_of client_id name =
     (case name of Some n \<Rightarrow> if n = [] then text_of client_id else n | None \<Rightarrow> text_of client_id)"

definition revoke_self :: "crypto \<Rightarrow> draws \<Rightarrow> string option \<Rightarrow> answer handler" where
  "revoke_self lib d authorization =
     attempt (current_client lib (dr_key d) authorization) (\<lambda>actor.
       attempt (atomic (store_revoke actor)) (\<lambda>_.
         attempt (atomic (store_client_name actor)) (\<lambda>name.
           attempt (sink (ClientRevoked actor (actor_name (cr_uuid_text lib) actor name) actor True)) (\<lambda>_. Finish (Inr Revoked)))))"

definition revoke_client :: "crypto \<Rightarrow> draws \<Rightarrow> string option \<Rightarrow> uuid \<Rightarrow> answer handler" where
  "revoke_client lib d authorization client_id =
     attempt (current_client lib (dr_key d) authorization) (\<lambda>actor.
       attempt (atomic (store_revoke client_id)) (\<lambda>revoked.
         if \<not> revoked then raise 404
         else attempt (atomic (store_client_name actor)) (\<lambda>name.
           attempt (sink (ClientRevoked client_id (actor_name (cr_uuid_text lib) actor name) actor False)) (\<lambda>_.
             Finish (Inr Revoked)))))"

section \<open>The operator at the hub\<close>

text \<open>\<open>bellasreef pair\<close>: open a recovery window. The numbers it prints are left out.\<close>

definition cli_open_window :: "uuid \<Rightarrow> string \<Rightarrow> seconds \<Rightarrow> answer handler" where
  "cli_open_window window_id opened_by ttl_s =
     (if ttl_s \<le> 0 then Finish (Inr Nothing)
      else attempt (atomic (open_pairing_window window_id opened_by ttl_s)) (\<lambda>(w, expires).
        attempt (sink (WindowOpened w opened_by)) (\<lambda>_. Finish (Inr (Window w expires)))))"

text \<open>\<open>bellasreef setup-code\<close>\<close>

definition cli_setup_code :: "crypto \<Rightarrow> uuid \<Rightarrow> nat list \<Rightarrow> answer handler" where
  "cli_setup_code lib fresh_hub drawn =
     attempt (atomic (store_hub_id fresh_hub)) (\<lambda>_.
       attempt (atomic setup_state) (\<lambda>(_, completed_at).
         if completed_at \<noteq> None then Finish (Inr (SetupCode None))
         else let code = new_setup_code drawn
              in attempt (atomic (set_setup_code_hash (hash_setup_code (cr_sha256 lib) code))) (\<lambda>_.
                   Finish (Inr (SetupCode (Some (format_setup_code code)))))))"

text \<open>
  \<open>bellasreef revoke\<close>. A target that parses as a UUID names a row by id or none at all; a name
  must match exactly one row, first as written, then ignoring case (of ASCII letters).
\<close>

definition resolve_client :: "(string \<Rightarrow> uuid option) \<Rightarrow> client_row list \<Rightarrow> string \<Rightarrow> client_row option \<times> client_row list" where
  "resolve_client uuid_of rows target =
     (case uuid_of target of
        Some wanted \<Rightarrow> (find (\<lambda>r. cl_id r = wanted) rows, [])
      | None \<Rightarrow>
          let exact = filter (\<lambda>r. cl_name r = target) rows;
              matches = (if exact = [] then filter (\<lambda>r. map upper_char (cl_name r) = map upper_char target) rows else exact)
          in if length matches = 1 then (Some (hd matches), []) else (None, matches))"

definition cli_revoke :: "(string \<Rightarrow> uuid option) \<Rightarrow> string \<Rightarrow> answer handler" where
  "cli_revoke uuid_of target =
     attempt (atomic list_clients) (\<lambda>rows.
       case resolve_client uuid_of rows target of
         (None, candidates) \<Rightarrow> Finish (Inr (NotRevoked (if candidates = [] then ''unknown'' else ''ambiguous'')))
       | (Some row, _) \<Rightarrow>
           if cl_revoked_at row \<noteq> None then Finish (Inr (NotRevoked ''already-revoked''))
           else attempt (atomic (store_revoke (cl_id row))) (\<lambda>revoked.
             if \<not> revoked then Finish (Inr (NotRevoked ''raced''))
             else attempt (sink (ClientRevokedByCli (cl_id row) (cl_name row))) (\<lambda>_. Finish (Inr Revoked))))"

text \<open>The part of the API's start that concerns these tables.\<close>

definition establish_identity :: "uuid \<Rightarrow> answer handler" where
  "establish_identity fresh_hub = attempt (atomic (store_hub_id fresh_hub)) (\<lambda>_. Finish (Inr Nothing))"

section \<open>What may happen to a hub\<close>

text \<open>
  A request, a command, the passing of time, or a restart of the API, which loses the tokens
  nobody collected, the throttle and the cached key.
\<close>

datatype call =
    PostPair draws string "string option"
  | GetPair uuid
  | PostClaim draws "string option" string
  | PostApprove draws "string option" uuid
  | PostDeny draws "string option" uuid
  | PostToken draws string
  | DeleteMe draws "string option"
  | DeleteClient draws "string option" uuid
  | PairCommand uuid string seconds
  | RevokeCommand string
  | SetupCodeCommand uuid "nat list"
  | StartApi uuid
  | ForgetMemory
  | SetWallClock instant
  | TimePasses seconds

definition forget_memory :: "answer txn" where
  "forget_memory s = (Inr Nothing, s\<lparr>hb_pending_tokens := [], hb_failures := [], hb_secret_cache := None\<rparr>)"

definition set_wall :: "instant \<Rightarrow> answer txn" where
  "set_wall t s = (Inr Nothing, s\<lparr>hb_wall := t\<rparr>)"

definition pass_time :: "seconds \<Rightarrow> answer txn" where
  "pass_time dt s = (Inr Nothing, s\<lparr>hb_mono := hb_mono s + max dt 0\<rparr>)"

fun serve_call :: "crypto \<Rightarrow> call \<Rightarrow> answer handler" where
  "serve_call lib (PostPair d name code) = pair_client lib d name code"
| "serve_call lib (GetPair r) = poll_pair r"
| "serve_call lib (PostClaim d h code) = claim_pairing lib d h code"
| "serve_call lib (PostApprove d h r) = approve_by_id lib d h r"
| "serve_call lib (PostDeny d h r) = deny_by_id lib d h r"
| "serve_call lib (PostToken d tok) = mint_token lib d ACCESS_TOKEN_TTL_S tok"
| "serve_call lib (DeleteMe d h) = revoke_self lib d h"
| "serve_call lib (DeleteClient d h c) = revoke_client lib d h c"
| "serve_call lib (PairCommand w by ttl) = cli_open_window w by ttl"
| "serve_call lib (RevokeCommand target) = cli_revoke (cr_uuid lib) target"
| "serve_call lib (SetupCodeCommand h drawn) = cli_setup_code lib h drawn"
| "serve_call lib (StartApi h) = establish_identity h"
| "serve_call lib ForgetMemory = atomic forget_memory"
| "serve_call lib (SetWallClock t) = atomic (set_wall t)"
| "serve_call lib (TimePasses dt) = atomic (pass_time dt)"

text \<open>The client id a call may mint.\<close>

fun minted_id :: "call \<Rightarrow> uuid option" where
  "minted_id (PostPair d _ _) = Some (dr_client d)"
| "minted_id (PostClaim d _ _) = Some (dr_client d)"
| "minted_id (PostApprove d _ _) = Some (dr_client d)"
| "minted_id _ = None"

end
