(* ===== verification/Desk.thy ===== *)
theory Desk
  imports PairingApi Alerts Overrides Spine Scheduler
    "HOL-Library.List_Lexorder" "HOL-Library.Char_ord" "HOL-Library.Product_Lexorder"
begin

text \<open>
  What the handlers of \<open>services/api/app.py\<close> for devices and lights share: the tables with the
  constraints of \<open>db/models.py\<close>, the retained stream of assignments the API writes beside them, the
  errors of the stores, and how a handler finds who is asking, announces and records. A store
  method whose transaction reads before it writes is a sequence of steps, one per statement:
  PostgreSQL runs these transactions at READ COMMITTED, so another one may commit in between.
  Where a query without an order may find several rows, the model takes the first of the table;
  texts are ordered by their characters, where PostgreSQL uses the database's collation.
\<close>

section \<open>Tables\<close>

datatype device_kind = KindSensor | KindActuator

record device_row =
  dv_id :: uuid
  dv_device_id :: string
  dv_kind :: device_kind
  dv_driver_id :: string
  dv_sensor_type :: "string option"
  dv_poll_interval_s :: "seconds option"
  dv_actuator_class :: "actuator_class option"
  dv_control_authority :: "control_authority option"
  dv_failsafe_capable :: "bool option"
  dv_transport :: "transport option"
  dv_role :: "actuator_role option"
  dv_safe_state :: "level option"
  dv_max_runtime_s :: "seconds option"
  dv_heartbeat_timeout_s :: "seconds option"
  dv_alert_min :: "rat option"
  dv_alert_max :: "rat option"
  dv_alert_clear_margin :: "rat option"
  dv_display_name :: "string option"
  dv_location :: "string option"
  dv_driver_type :: "string option"
  dv_binding :: "(string \<times> string) list option"
  dv_adopted :: bool
  dv_enabled :: bool

definition known_driver :: "string \<Rightarrow> bool" where
  "known_driver d = (d \<in> set [''pi-pwm'', ''pca9685'', ''ds18b20''])"

text \<open>The \<open>CHECK\<close> constraints of the table. SQL's NULL comparisons are written out.\<close>

definition device_check :: "device_row \<Rightarrow> bool" where
  "device_check r =
     (pred_option known_driver (dv_driver_type r)
      \<and> (dv_adopted r \<longrightarrow> dv_driver_type r \<noteq> None \<and> dv_binding r \<noteq> None)
      \<and> pred_option (\<lambda>n. \<not> list_all (\<lambda>ch. ch = CHR '' '') n) (dv_display_name r)
      \<and> (dv_kind r = KindActuator \<longrightarrow>
           dv_actuator_class r \<noteq> None \<and> dv_control_authority r \<noteq> None \<and> dv_failsafe_capable r \<noteq> None
           \<and> dv_transport r \<noteq> None \<and> dv_role r \<noteq> None
           \<and> dv_alert_min r = None \<and> dv_alert_max r = None \<and> dv_alert_clear_margin r = None)
      \<and> (dv_kind r = KindSensor \<longrightarrow>
           dv_control_authority r = None \<and> dv_failsafe_capable r = None
           \<and> dv_sensor_type r \<noteq> None \<and> (case dv_poll_interval_s r of None \<Rightarrow> False | Some p \<Rightarrow> 0 < p)
           \<and> dv_transport r \<noteq> None)
      \<and> (dv_control_authority r = Some Authoritative \<longrightarrow>
           dv_failsafe_capable r = Some True \<and> dv_transport r = Some Local \<and> dv_safe_state r \<noteq> None
           \<and> (case dv_max_runtime_s r of None \<Rightarrow> False | Some p \<Rightarrow> 0 < p)
           \<and> (case dv_heartbeat_timeout_s r of None \<Rightarrow> False | Some p \<Rightarrow> 0 < p))
      \<and> (dv_control_authority r \<in> {Some Advisory, Some ObserveOnly} \<longrightarrow> dv_safe_state r = None)
      \<and> pred_option (\<lambda>m. 0 < m) (dv_alert_clear_margin r)
      \<and> (dv_alert_min r \<noteq> None \<or> dv_alert_max r \<noteq> None \<longrightarrow> dv_alert_clear_margin r \<noteq> None)
      \<and> (case (dv_alert_min r, dv_alert_max r, dv_alert_clear_margin r) of
           (Some lo, Some hi, Some m) \<Rightarrow> lo < hi \<and> lo + m < hi - m
         | (Some lo, Some hi, None) \<Rightarrow> lo < hi
         | _ \<Rightarrow> True))"

record capability_row =
  cp_source :: string
  cp_channel :: string
  cp_detail :: "(string \<times> scalar) list"
  cp_announced_at :: instant

record chip_row =
  ch_source :: string
  ch_instance :: string
  ch_initialised :: bool
  ch_initialised_at :: "instant option"
  ch_facts :: "(string \<times> scalar) list"
  ch_announced_at :: instant

record schedule_row =
  ls_id :: uuid
  ls_definition :: schedule_definition

text \<open>The audit events of the categories \<open>config\<close> and \<open>command\<close>; the last text is the actor.\<close>

datatype config_event =
    DeviceBound string string string bool string
  | DeviceReadopted string string
  | DeviceUnbound string "string option" "(string \<times> string) list option" string
  | DeviceForgotten string string
  | DeviceRenamed string "string option" string
  | ThresholdsSet string "rat option" "rat option" "rat option" "string list" string
  | ScheduleCreated uuid string string
  | ScheduleUpdated uuid string string
  | ScheduleDeleted uuid string string
  | ScheduleUnassigned string uuid "uuid option" string
  | ScheduleAssigned string uuid string
  | HoldReleased uuid string release_reason "uuid option" string
  | HoldCreated uuid string duty instant transition "string option" string

text \<open>
  The database, the retained stream, whether the spine can be reached, whether the clock is
  trusted, and the tables of pairing, which know the callers and carry the clocks.
\<close>

record tank =
  tk_devices :: "device_row list"
  tk_capabilities :: "capability_row list"
  tk_chips :: "chip_row list"
  tk_calibrations :: "uuid list"
  tk_journal :: "uuid list"
  tk_episodes :: "episode list"
  tk_schedules :: "schedule_row list"
  tk_channel_schedules :: "(string \<times> uuid) list"
  tk_overrides :: override_table
  tk_assignments :: "device_assignment list"
  tk_spine_up :: bool
  tk_clock_trusted :: bool
  tk_trail :: "config_event list"
  tk_hub :: hub

datatype store_error =
    ChannelHeldError string
  | DeviceIdConflictError string
  | DeviceReferencedError "(string \<times> nat) list"
  | ScheduleInUseError string
  | StoreError py_error

type_synonym 'a step = "tank \<Rightarrow> (store_error + 'a) \<times> tank"
type_synonym 'a stored = "(tank, store_error + 'a) prog"
type_synonym 'a desk = "(tank, fault + 'a) prog"

section \<open>Parts of a handler\<close>

text \<open>A step of the pairing tables, seen from the whole state.\<close>

primrec at_hub :: "(hub, 'a) prog \<Rightarrow> (tank, 'a) prog" where
  "at_hub (Finish a) = Finish a"
| "at_hub (Atomic f) = Atomic (\<lambda>s. map_prod at_hub (\<lambda>h. s\<lparr>tk_hub := h\<rparr>) (f (tk_hub s)))"

definition refuse_with :: "nat \<Rightarrow> 'a desk" where
  "refuse_with status = Finish (Inl (Http status))"

definition reply_with :: "'a \<Rightarrow> 'a desk" where
  "reply_with a = Finish (Inr a)"

text \<open>An exception of a store that the handler does not catch is a 500.\<close>

definition uncaught :: "store_error \<Rightarrow> fault" where
  "uncaught e =
     (case e of
        ChannelHeldError h \<Rightarrow> Crash (RuntimeError ''ChannelHeldError'')
      | DeviceIdConflictError d \<Rightarrow> Crash (RuntimeError ''DeviceIdConflictError'')
      | DeviceReferencedError hs \<Rightarrow> Crash (RuntimeError ''DeviceReferencedError'')
      | ScheduleInUseError c \<Rightarrow> Crash (RuntimeError ''ScheduleInUseError'')
      | StoreError p \<Rightarrow> Crash p)"

definition catching :: "(store_error \<Rightarrow> fault) \<Rightarrow> 'a stored \<Rightarrow> 'a desk" where
  "catching handle p = prog_bind p (\<lambda>r. Finish (map_sum handle id r))"

definition from_store :: "'a step \<Rightarrow> 'a desk" where
  "from_store g = catching uncaught (atomic g)"

record desk_draws =
  dd_key :: string
  dd_id :: uuid
  dd_message :: uuid

definition caller :: "crypto \<Rightarrow> desk_draws \<Rightarrow> string option \<Rightarrow> uuid desk" where
  "caller lib d authorization = at_hub (current_client lib (dd_key d) authorization)"

definition actor_fields :: "crypto \<Rightarrow> uuid \<Rightarrow> string desk" where
  "actor_fields lib actor =
     attempt (at_hub (atomic (store_client_name actor))) (\<lambda>name. reply_with (actor_name (cr_uuid_text lib) actor name))"

definition record_event :: "config_event \<Rightarrow> unit desk" where
  "record_event e = atomic (\<lambda>s. (Inr (), s\<lparr>tk_trail := tk_trail s @ [e]\<rparr>))"

text \<open>\<open>**await actor_fields(actor)\<close> inside the arguments of \<open>sink\<close>: first the name, then the event.\<close>

definition audited :: "crypto \<Rightarrow> uuid \<Rightarrow> (string \<Rightarrow> config_event) \<Rightarrow> unit desk" where
  "audited lib actor event = attempt (actor_fields lib actor) (\<lambda>who. record_event (event who))"

section \<open>The retained assignments\<close>

text \<open>
  \<open>AssignmentPublisher.publish\<close>: a message replaces the one retained on its subject, or is lost
  and logged. The message is built before, and a bad one raises.
\<close>

definition retain :: "device_assignment \<Rightarrow> device_assignment list \<Rightarrow> device_assignment list" where
  "retain a as = filter (\<lambda>b. da_device_id b \<noteq> da_device_id a) as @ [a]"

definition publish_assignment :: "device_assignment \<Rightarrow> tank \<Rightarrow> tank" where
  "publish_assignment a s = (if tk_spine_up s then s\<lparr>tk_assignments := retain a (tk_assignments s)\<rparr> else s)"

definition assignment_message ::
    "uuid \<Rightarrow> instant \<Rightarrow> string \<Rightarrow> bool \<Rightarrow> actuator_role option \<Rightarrow> string option \<Rightarrow> (string \<times> string) list option
       \<Rightarrow> device_assignment" where
  "assignment_message mid now device_id adopted role driver_type binding =
     \<lparr>schema_version = SCHEMA_VERSION, message_id = mid, emitted_at = now, source = ''api'',
      da_device_id = device_id, da_adopted = adopted, da_role = role, da_driver_type = driver_type,
      da_binding = binding\<rparr>"

definition announce ::
    "uuid \<Rightarrow> string \<Rightarrow> bool \<Rightarrow> actuator_role option \<Rightarrow> string option \<Rightarrow> (string \<times> string) list option \<Rightarrow> unit desk" where
  "announce mid device_id adopted role driver_type binding =
     atomic (\<lambda>s. case validate_device_assignment
                   (assignment_message mid (hb_wall (tk_hub s)) device_id adopted role driver_type binding) of
                   Inl e \<Rightarrow> (Inl (Crash e), s)
                 | Inr a \<Rightarrow> (Inr (), publish_assignment a s))"

end
