(* ===== verification/DeviceStore.thy ===== *)
theory DeviceStore
  imports Desk
begin

text \<open>
  The device registry, \<open>services/api/store.py\<close>: the announced capabilities and chips, binding,
  unbinding, re-adopting and forgetting devices, their names and their alert bands.
\<close>

section \<open>Channels\<close>

text \<open>\<open>COALESCE(binding ->> 'channel', binding ->> 'rom')\<close>\<close>

definition binding_channel :: "(string \<times> string) list option \<Rightarrow> string option" where
  "binding_channel b =
     (case b of
        None \<Rightarrow> None
      | Some ks \<Rightarrow> (case map_of ks ''channel'' of Some c \<Rightarrow> Some c | None \<Rightarrow> map_of ks ''rom''))"

definition on_channel :: "string \<Rightarrow> string \<Rightarrow> device_row \<Rightarrow> bool" where
  "on_channel driver_type channel r = (dv_driver_type r = Some driver_type \<and> binding_channel (dv_binding r) = Some channel)"

definition row_of :: "string \<Rightarrow> tank \<Rightarrow> device_row option" where
  "row_of device_id s = find (\<lambda>r. dv_device_id r = device_id) (tk_devices s)"

text \<open>\<open>UPDATE devices SET ... WHERE P\<close>: a row that would break a constraint refuses the statement.\<close>

definition update_devices :: "(device_row \<Rightarrow> device_row) \<Rightarrow> (device_row \<Rightarrow> bool) \<Rightarrow> tank \<Rightarrow> (store_error + device_row list) \<times> tank" where
  "update_devices f P s =
     (let changed = map f (filter P (tk_devices s))
      in if list_all device_check changed
         then (Inr changed, s\<lparr>tk_devices := map (\<lambda>r. if P r then f r else r) (tk_devices s)\<rparr>)
         else (Inl (StoreError (IntegrityError ''devices'')), s))"

section \<open>Capabilities and chips\<close>

definition announced :: "string \<Rightarrow> string \<Rightarrow> capability_row \<Rightarrow> bool" where
  "announced src channel c = (cp_source c = src \<and> cp_channel c = channel)"

definition upsert_capability :: "string \<Rightarrow> instant \<Rightarrow> capability_channel \<Rightarrow> capability_row list \<Rightarrow> capability_row list" where
  "upsert_capability src now c rows =
     (if list_ex (announced src (cc_channel c)) rows
      then map (\<lambda>r. if announced src (cc_channel c) r then r\<lparr>cp_detail := cc_detail c, cp_announced_at := now\<rparr> else r) rows
      else rows @ [\<lparr>cp_source = src, cp_channel = cc_channel c, cp_detail = cc_detail c, cp_announced_at = now\<rparr>])"

definition replace_capabilities :: "string \<Rightarrow> capability_channel list \<Rightarrow> unit step" where
  "replace_capabilities src channels s =
     (let kept = filter (\<lambda>r. \<not> (cp_source r = src \<and> cp_channel r \<notin> set (map cc_channel channels))) (tk_capabilities s)
      in (Inr (), s\<lparr>tk_capabilities := fold (upsert_capability src (hb_wall (tk_hub s))) channels kept\<rparr>))"

text \<open>
  \<open>ORDER BY source, (CASE WHEN channel ~ '^[0-9]+$' THEN channel::integer END) NULLS LAST, channel\<close>;
  a number beyond the range of \<open>integer\<close>, which the statement refuses, does not occur on a board.
\<close>

definition channel_number :: "string \<Rightarrow> nat option" where
  "channel_number channel =
     (if channel \<noteq> [] \<and> list_all (\<lambda>ch. char_digit ch \<noteq> None) channel then digits_value 0 channel else None)"

definition nulls_last :: "'a option \<Rightarrow> 'a \<Rightarrow> bool \<times> 'a" where
  "nulls_last x d = (case x of None \<Rightarrow> (True, d) | Some v \<Rightarrow> (False, v))"

definition capability_key :: "capability_row \<Rightarrow> string \<times> (bool \<times> nat) \<times> string" where
  "capability_key c = (cp_source c, nulls_last (channel_number (cp_channel c)) 0, cp_channel c)"

definition claims :: "capability_row \<Rightarrow> device_row \<Rightarrow> bool" where
  "claims c d =
     ((dv_driver_type d = Some (cp_source c) \<or> (dv_driver_type d = Some ''ds18b20'' \<and> cp_source c = ''w1-bus''))
      \<and> dv_adopted d \<and> binding_channel (dv_binding d) = Some (cp_channel c))"

definition bound_to :: "device_row list \<Rightarrow> capability_row \<Rightarrow> string option list" where
  "bound_to ds c =
     (case filter (claims c) ds of [] \<Rightarrow> [None] | hs \<Rightarrow> map (\<lambda>d. Some (dv_device_id d)) hs)"

definition list_capabilities :: "(capability_row \<times> string option) list step" where
  "list_capabilities s =
     (Inr (concat (map (\<lambda>c. map (\<lambda>b. (c, b)) (bound_to (tk_devices s) c)) (sort_key capability_key (tk_capabilities s)))), s)"

definition capability_exists :: "string \<Rightarrow> string \<Rightarrow> bool step" where
  "capability_exists src channel s = (Inr (list_ex (announced src channel) (tk_capabilities s)), s)"

definition upsert_chip_state :: "chip_row \<Rightarrow> unit step" where
  "upsert_chip_state c s =
     (Inr (), s\<lparr>tk_chips :=
        (if list_ex (\<lambda>r. ch_source r = ch_source c \<and> ch_instance r = ch_instance c) (tk_chips s)
         then map (\<lambda>r. if ch_source r = ch_source c \<and> ch_instance r = ch_instance c then c else r) (tk_chips s)
         else tk_chips s @ [c])\<rparr>)"

definition list_chip_state :: "chip_row list step" where
  "list_chip_state s = (Inr (sort_key (\<lambda>c. (ch_source c, ch_instance c)) (tk_chips s)), s)"

section \<open>Binding\<close>

definition device_bound_to :: "string \<Rightarrow> string \<Rightarrow> string option step" where
  "device_bound_to driver_type channel s =
     (Inr (map_option dv_device_id (find (\<lambda>r. dv_adopted r \<and> on_channel driver_type channel r) (tk_devices s))), s)"

record bind_request =
  br_device_id :: string
  br_kind :: device_kind
  br_driver_type :: string
  br_channel :: string
  br_binding :: "(string \<times> string) list"
  br_role :: "actuator_role option"
  br_display_name :: "string option"
  br_location :: "string option"
  br_sensor_type :: "string option"
  br_poll_interval_s :: "seconds option"

definition match_channel :: "bind_request \<Rightarrow> string option step" where
  "match_channel b s =
     (Inr (map_option dv_device_id (find (on_channel (br_driver_type b) (br_channel b)) (tk_devices s))), s)"

definition match_announced :: "bind_request \<Rightarrow> string option step" where
  "match_announced b s =
     (Inr (map_option dv_device_id
        (find (\<lambda>r. dv_binding r = None \<and> dv_kind r = KindSensor \<and> dv_device_id r = br_device_id b) (tk_devices s))), s)"

definition new_device :: "uuid \<Rightarrow> bind_request \<Rightarrow> device_row" where
  "new_device pk b =
     \<lparr>dv_id = pk, dv_device_id = br_device_id b, dv_kind = br_kind b, dv_driver_id = br_driver_type b,
          dv_sensor_type = br_sensor_type b, dv_poll_interval_s = br_poll_interval_s b,
          dv_actuator_class = (if br_kind b = KindSensor then None else Some Pwm),
          dv_control_authority = (if br_kind b = KindSensor then None else Some Authoritative),
          dv_failsafe_capable = (if br_kind b = KindSensor then None else Some True),
          dv_transport = Some Local, dv_role = br_role b,
          dv_safe_state = (if br_kind b = KindSensor then None else Some (PwmLevel 0)),
          dv_max_runtime_s = (if br_kind b = KindSensor then None else Some LIGHT_MAX_RUNTIME_S),
          dv_heartbeat_timeout_s = (if br_kind b = KindSensor then None else Some LIGHT_HEARTBEAT_TIMEOUT_S),
          dv_alert_min = None, dv_alert_max = None, dv_alert_clear_margin = None,
          dv_display_name = br_display_name b, dv_location = br_location b,
          dv_driver_type = Some (br_driver_type b), dv_binding = Some (br_binding b), dv_adopted = True, dv_enabled = True\<rparr>"

text \<open>\<open>INSERT ... ON CONFLICT (device_id) DO NOTHING\<close>, and the error when nothing was written.\<close>

definition insert_device :: "uuid \<Rightarrow> bind_request \<Rightarrow> (string \<times> bool) step" where
  "insert_device pk b s =
     (if \<not> device_check (new_device pk b) then (Inl (StoreError (IntegrityError ''devices'')), s)
      else if row_of (br_device_id b) s \<noteq> None then (Inl (DeviceIdConflictError (br_device_id b)), s)
      else if pk \<in> dv_id ` set (tk_devices s) then (Inl (StoreError (IntegrityError ''pk_devices'')), s)
      else (Inr (br_device_id b, True), s\<lparr>tk_devices := tk_devices s @ [new_device pk b]\<rparr>))"

definition or_kept :: "'a option \<Rightarrow> 'a option \<Rightarrow> 'a option" where
  "or_kept x y = (case x of None \<Rightarrow> y | Some v \<Rightarrow> Some v)"

definition rebound :: "bind_request \<Rightarrow> device_row \<Rightarrow> device_row" where
  "rebound b r =
     r\<lparr>dv_driver_type := Some (br_driver_type b), dv_binding := Some (br_binding b), dv_adopted := True,
       dv_role := or_kept (br_role b) (dv_role r), dv_display_name := or_kept (br_display_name b) (dv_display_name r),
       dv_location := or_kept (br_location b) (dv_location r)\<rparr>"

definition adopt_existing :: "string \<Rightarrow> bind_request \<Rightarrow> (string \<times> bool) step" where
  "adopt_existing target b s =
     apfst (map_sum id (\<lambda>_. (target, False))) (update_devices (rebound b) (\<lambda>r. dv_device_id r = target) s)"

definition store_bind_device :: "uuid \<Rightarrow> bind_request \<Rightarrow> (string \<times> bool) stored" where
  "store_bind_device pk b =
     attempt (atomic (match_channel b)) (\<lambda>holder. case holder of
       Some target \<Rightarrow> atomic (adopt_existing target b)
     | None \<Rightarrow>
         if br_sensor_type b = None then atomic (insert_device pk b)
         else attempt (atomic (match_announced b)) (\<lambda>known. case known of
           Some target \<Rightarrow> atomic (adopt_existing target b)
         | None \<Rightarrow> atomic (insert_device pk b)))"

section \<open>Letting go and taking back\<close>

definition unadopt_device :: "string \<Rightarrow> device_row option step" where
  "unadopt_device device_id s =
     apfst (map_sum id (\<lambda>rows. case rows of [] \<Rightarrow> None | r # _ \<Rightarrow> Some r))
       (update_devices (\<lambda>r. r\<lparr>dv_adopted := False\<rparr>) (\<lambda>r. dv_device_id r = device_id \<and> dv_adopted r) s)"

definition detached_row :: "string \<Rightarrow> device_row option step" where
  "detached_row device_id s =
     (Inr (find (\<lambda>r. dv_device_id r = device_id \<and> \<not> dv_adopted r \<and> dv_driver_type r \<noteq> None \<and> dv_binding r \<noteq> None)
        (tk_devices s)), s)"

text \<open>\<open>binding.get("channel") or binding.get("rom")\<close>: an empty text counts as absent.\<close>

definition remembered_channel :: "(string \<times> string) list option \<Rightarrow> string option" where
  "remembered_channel b =
     (case b of
        None \<Rightarrow> None
      | Some ks \<Rightarrow>
          (case map_of ks ''channel'' of
             Some c \<Rightarrow> if c = [] then map_of ks ''rom'' else Some c
           | None \<Rightarrow> map_of ks ''rom''))"

definition channel_rival :: "device_row \<Rightarrow> string option step" where
  "channel_rival target s =
     (Inr (map_option dv_device_id
        (find (\<lambda>r. dv_driver_type r = dv_driver_type target \<and> remembered_channel (dv_binding target) \<noteq> None
                 \<and> binding_channel (dv_binding r) = remembered_channel (dv_binding target)
                 \<and> dv_adopted r \<and> dv_device_id r \<noteq> dv_device_id target) (tk_devices s))), s)"

definition adopt_again :: "string \<Rightarrow> device_row option step" where
  "adopt_again device_id s =
     (case update_devices (\<lambda>r. r\<lparr>dv_adopted := True\<rparr>) (\<lambda>r. dv_device_id r = device_id) s of
        (Inl e, t) \<Rightarrow> (Inl e, t)
      | (Inr [r], t) \<Rightarrow> (Inr (Some r), t)
      | (Inr _, _) \<Rightarrow> (Inl (StoreError (RuntimeError ''one() found no single row'')), s))"

definition store_readopt_device :: "string \<Rightarrow> device_row option stored" where
  "store_readopt_device device_id =
     attempt (atomic (detached_row device_id)) (\<lambda>found. case found of
       None \<Rightarrow> Finish (Inr None)
     | Some target \<Rightarrow>
         attempt (atomic (channel_rival target)) (\<lambda>rival. case rival of
           Some holder \<Rightarrow> Finish (Inl (ChannelHeldError holder))
         | None \<Rightarrow> atomic (adopt_again device_id)))"

datatype forget_outcome = Forgotten | StillAdopted | Missing

definition select_device :: "string \<Rightarrow> (uuid \<times> bool) option step" where
  "select_device device_id s = (Inr (map_option (\<lambda>r. (dv_id r, dv_adopted r)) (row_of device_id s)), s)"

definition holders_of :: "uuid \<Rightarrow> tank \<Rightarrow> (string \<times> nat) list" where
  "holders_of pk s =
     filter (\<lambda>h. snd h \<noteq> 0)
       [(''calibration_records'', count_list (tk_calibrations s) pk), (''dosing_journal'', count_list (tk_journal s) pk)]"

definition forget_holders :: "uuid \<Rightarrow> (string \<times> nat) list step" where
  "forget_holders pk s = (Inr (holders_of pk s), s)"

text \<open>
  The deletion, refused by the two restricting keys; the handler of that \<open>IntegrityError\<close> counts
  again on a connection of its own, the next step.
\<close>

definition delete_device :: "string \<Rightarrow> bool step" where
  "delete_device device_id s =
     (case row_of device_id s of
        None \<Rightarrow> (Inr True, s)
      | Some r \<Rightarrow>
          if dv_id r \<in> set (tk_calibrations s) \<or> dv_id r \<in> set (tk_journal s) then (Inr False, s)
          else (Inr True, s\<lparr>tk_devices := filter (\<lambda>r. dv_device_id r \<noteq> device_id) (tk_devices s)\<rparr>))"

definition store_forget_device :: "string \<Rightarrow> forget_outcome stored" where
  "store_forget_device device_id =
     attempt (atomic (select_device device_id)) (\<lambda>row. case row of
       None \<Rightarrow> Finish (Inr Missing)
     | Some (pk, adopted) \<Rightarrow>
         if adopted then Finish (Inr StillAdopted)
         else attempt (atomic (forget_holders pk)) (\<lambda>holders.
           if holders \<noteq> [] then Finish (Inl (DeviceReferencedError holders))
           else attempt (atomic (delete_device device_id)) (\<lambda>gone.
             if gone then Finish (Inr Forgotten)
             else attempt (atomic (forget_holders pk)) (\<lambda>held. Finish (Inl (DeviceReferencedError held))))))"

definition adopted_assignments :: "device_row list step" where
  "adopted_assignments s =
     (Inr (sort_key dv_device_id
        (filter (\<lambda>r. dv_adopted r \<and> dv_driver_type r \<noteq> None \<and> dv_binding r \<noteq> None) (tk_devices s))), s)"

section \<open>Reading and editing rows\<close>

definition device_key ::
    "device_row \<Rightarrow> nat \<times> (bool \<times> string) \<times> (bool \<times> nat) \<times> (bool \<times> string) \<times> string" where
  "device_key r =
     ((case dv_kind r of KindActuator \<Rightarrow> 0 | KindSensor \<Rightarrow> 1),
      nulls_last (dv_driver_type r) [],
      nulls_last (Option.bind (binding_channel (dv_binding r)) channel_number) 0,
      nulls_last (binding_channel (dv_binding r)) [],
      dv_device_id r)"

text \<open>A listed device with its channel, which only an adopted one has.\<close>

definition list_devices :: "device_kind option \<Rightarrow> (device_row \<times> string option) list step" where
  "list_devices kind s =
     (Inr (map (\<lambda>r. (r, if dv_adopted r then binding_channel (dv_binding r) else None))
        (sort_key device_key (filter (\<lambda>r. pred_option (\<lambda>k. dv_kind r = k) kind) (tk_devices s)))), s)"

definition device_labels :: "string \<Rightarrow> (bool \<times> control_authority option \<times> transport option) step" where
  "device_labels device_id s =
     (Inr (case row_of device_id s of
             None \<Rightarrow> (False, None, None)
           | Some r \<Rightarrow> (True, dv_control_authority r, dv_transport r)), s)"

definition control_authority_of :: "string \<Rightarrow> (bool \<times> control_authority option) step" where
  "control_authority_of device_id s =
     (Inr (case row_of device_id s of None \<Rightarrow> (False, None) | Some r \<Rightarrow> (True, dv_control_authority r)), s)"

definition announced_sensor :: "uuid \<Rightarrow> sensor_registration \<Rightarrow> device_row" where
  "announced_sensor pk g =
     \<lparr>dv_id = pk, dv_device_id = sg_sensor_id g, dv_kind = KindSensor, dv_driver_id = sg_driver_id g,
      dv_sensor_type = Some (sg_sensor_type g), dv_poll_interval_s = Some (sg_poll_interval_s g),
      dv_actuator_class = None, dv_control_authority = None, dv_failsafe_capable = None,
      dv_transport = Some (sg_transport g), dv_role = None, dv_safe_state = None, dv_max_runtime_s = None,
      dv_heartbeat_timeout_s = None, dv_alert_min = None, dv_alert_max = None, dv_alert_clear_margin = None,
      dv_display_name = None, dv_location = None, dv_driver_type = None, dv_binding = None, dv_adopted = False,
      dv_enabled = True\<rparr>"

definition upsert_sensor :: "uuid \<Rightarrow> sensor_registration \<Rightarrow> bool step" where
  "upsert_sensor pk g s =
     (if row_of (sg_sensor_id g) s = None
      then if device_check (announced_sensor pk g) \<and> pk \<notin> dv_id ` set (tk_devices s)
           then (Inr True, s\<lparr>tk_devices := tk_devices s @ [announced_sensor pk g]\<rparr>)
           else (Inl (StoreError (IntegrityError ''devices'')), s)
      else apfst (map_sum id (\<lambda>_. False))
             (update_devices (\<lambda>r. r\<lparr>dv_driver_id := sg_driver_id g, dv_sensor_type := Some (sg_sensor_type g),
                  dv_poll_interval_s := Some (sg_poll_interval_s g), dv_transport := Some (sg_transport g)\<rparr>)
                (\<lambda>r. dv_device_id r = sg_sensor_id g) s))"

definition set_display_name :: "string \<Rightarrow> string option \<Rightarrow> device_row option step" where
  "set_display_name device_id name s =
     apfst (map_sum id (\<lambda>rows. case rows of [] \<Rightarrow> None | r # _ \<Rightarrow> Some r))
       (update_devices (\<lambda>r. r\<lparr>dv_display_name := name\<rparr>) (\<lambda>r. dv_device_id r = device_id) s)"

definition thresholds_for :: "string \<Rightarrow> device_row option step" where
  "thresholds_for device_id s = (Inr (row_of device_id s), s)"

text \<open>The band and, in the same transaction, the open episodes of a bound it removes.\<close>

definition removed_bound :: "rat option \<Rightarrow> rat option \<Rightarrow> string \<Rightarrow> episode \<Rightarrow> bool" where
  "removed_bound minimum maximum device_id e =
     (ep_device e = device_id \<and> ep_class e = ThresholdClass \<and> ep_open e
      \<and> (ep_bound e = Some ''min'' \<and> minimum = None \<or> ep_bound e = Some ''max'' \<and> maximum = None))"

definition with_band :: "rat option \<Rightarrow> rat option \<Rightarrow> rat option \<Rightarrow> device_row \<Rightarrow> device_row" where
  "with_band minimum maximum clear_margin r =
     r\<lparr>dv_alert_min := minimum, dv_alert_max := maximum, dv_alert_clear_margin := clear_margin\<rparr>"

definition closed_by_config :: "instant \<Rightarrow> episode \<Rightarrow> episode" where
  "closed_by_config now e = e\<lparr>ep_cleared_at := Some now, ep_cleared_value := ep_raised_value e\<rparr>"

definition set_thresholds ::
    "string \<Rightarrow> rat option \<Rightarrow> rat option \<Rightarrow> rat option \<Rightarrow> (device_row \<times> string list) option step" where
  "set_thresholds device_id minimum maximum clear_margin s =
     (case update_devices (with_band minimum maximum clear_margin) (\<lambda>r. dv_device_id r = device_id) s of
        (Inl e, t) \<Rightarrow> (Inl e, s)
      | (Inr [], t) \<Rightarrow> (Inr None, s)
      | (Inr (r # _), t) \<Rightarrow>
          let gone = removed_bound minimum maximum device_id;
              closing = closed_by_config (hb_wall (tk_hub s));
              closed = filter gone (tk_episodes s)
          in if list_all (\<lambda>e. episode_check (closing e)) closed
             then (Inr (Some (r, sort (somes (map ep_bound closed)))),
                   t\<lparr>tk_episodes := map (\<lambda>e. if gone e then closing e else e) (tk_episodes s)\<rparr>)
             else (Inl (StoreError (IntegrityError ''sensor_alerts'')), s))"

end
