(* ===== verification/DeviceApi.thy ===== *)
theory DeviceApi
  imports DeviceStore
begin

text \<open>
  The handlers of \<open>services/api/app.py\<close> for devices, capabilities, chips and alert bands, what the
  consumers of \<open>registry.py\<close> do with a message, and the part of the API's start that republishes the
  assignments. Each is a tree of steps, one per statement, publication or audit record.
\<close>

section \<open>Requests and answers\<close>

record bind_body =
  bb_device_id :: string
  bb_driver_type :: string
  bb_channel :: string
  bb_role :: "actuator_role option"
  bb_display_name :: "string option"
  bb_location :: "string option"
  bb_poll_interval_s :: "seconds option"

definition valid_bind_body :: "bind_body \<Rightarrow> bool" where
  "valid_bind_body b =
     (device_id_ok (bb_device_id b) \<and> known_driver (bb_driver_type b) \<and> str_len_ok 1 64 (bb_channel b)
      \<and> bb_role b \<in> {None, Some Light}
      \<and> opt_ok (str_len_ok 1 128) (bb_display_name b) \<and> opt_ok (str_len_ok 1 128) (bb_location b)
      \<and> opt_ok (\<lambda>p. 0 < p) (bb_poll_interval_s b))"

text \<open>\<open>DeviceName\<close>: at most 128 characters as sent; trimmed, and nothing left means no name.\<close>

definition valid_name_body :: "string option \<Rightarrow> bool" where
  "valid_name_body name = opt_ok (str_len_ok 0 128) name"

definition blank_is_not_a_name :: "string option \<Rightarrow> string option" where
  "blank_is_not_a_name name =
     (case name of None \<Rightarrow> None | Some n \<Rightarrow> if py_strip n = [] then None else Some (py_strip n))"

record band_body =
  tb_minimum :: "rat option"
  tb_maximum :: "rat option"
  tb_clear_margin :: "rat option"

text \<open>\<open>AlertThresholds\<close>\<close>

definition valid_band_body :: "band_body \<Rightarrow> bool" where
  "valid_band_body b =
     (opt_ok (\<lambda>m. 0 < m) (tb_clear_margin b)
      \<and> (tb_minimum b = None \<and> tb_maximum b = None
         \<or> (case tb_clear_margin b of
              None \<Rightarrow> False
            | Some m \<Rightarrow> (case (tb_minimum b, tb_maximum b) of
                (Some lo, Some hi) \<Rightarrow> lo < hi \<and> lo + m < hi - m
              | _ \<Rightarrow> True))))"

record band_view =
  tv_device_id :: string
  tv_minimum :: "rat option"
  tv_maximum :: "rat option"
  tv_clear_margin :: "rat option"

datatype desk_answer =
    BoundDevice string bool string string
  | Devices "(device_row \<times> string option) list"
  | OneDevice device_row "string option"
  | DeviceNamed string "string option"
  | NoContent
  | Band band_view
  | Capabilities "(capability_row \<times> string option) list"
  | Chips "chip_row list"
  | Heard

section \<open>Binding\<close>

definition CAPABILITY_SOURCE_FOR_DRIVER :: "string \<Rightarrow> string" where
  "CAPABILITY_SOURCE_FOR_DRIVER d = (if d = ''ds18b20'' then ''w1-bus'' else d)"

definition bind_request_of :: "bind_body \<Rightarrow> bind_request" where
  "bind_request_of b =
     (let is_sensor = (bb_driver_type b = ''ds18b20'')
      in \<lparr>br_device_id = bb_device_id b, br_kind = (if is_sensor then KindSensor else KindActuator),
          br_driver_type = bb_driver_type b, br_channel = bb_channel b,
          br_binding = [(if is_sensor then ''rom'' else ''channel'', bb_channel b)], br_role = bb_role b,
          br_display_name = bb_display_name b, br_location = bb_location b,
          br_sensor_type = (if is_sensor then Some ''temp'' else None),
          br_poll_interval_s = (if is_sensor then bb_poll_interval_s b else None)\<rparr>)"

definition bind_conflict :: "store_error \<Rightarrow> fault" where
  "bind_conflict e = (case e of DeviceIdConflictError _ \<Rightarrow> Http 409 | _ \<Rightarrow> uncaught e)"

text \<open>What \<open>bind_device\<close> refuses without asking the database, after the two questions it asks.\<close>

definition declared :: "bind_body \<Rightarrow> bool" where
  "declared b =
     (if bb_driver_type b = ''ds18b20'' then bb_poll_interval_s b \<noteq> None \<and> bb_role b = None else bb_role b \<noteq> None)"

definition carry_out_binding :: "crypto \<Rightarrow> desk_draws \<Rightarrow> uuid \<Rightarrow> bind_body \<Rightarrow> desk_answer desk" where
  "carry_out_binding lib d actor b =
     attempt (catching bind_conflict (store_bind_device (dd_id d) (bind_request_of b))) (\<lambda>(device_id, created).
     attempt (announce (dd_message d) device_id True (bb_role b) (Some (bb_driver_type b))
                (Some (br_binding (bind_request_of b)))) (\<lambda>_.
     attempt (audited lib actor (DeviceBound device_id (bb_driver_type b) (bb_channel b) created)) (\<lambda>_.
     reply_with (BoundDevice device_id created (bb_driver_type b) (bb_channel b)))))"

definition bind_device :: "crypto \<Rightarrow> desk_draws \<Rightarrow> string option \<Rightarrow> bind_body \<Rightarrow> desk_answer desk" where
  "bind_device lib d authorization b =
     attempt (caller lib d authorization) (\<lambda>actor.
       if \<not> valid_bind_body b then refuse_with 422
       else attempt (from_store (capability_exists (CAPABILITY_SOURCE_FOR_DRIVER (bb_driver_type b)) (bb_channel b)))
         (\<lambda>known. if \<not> known then refuse_with 404
       else attempt (from_store (device_bound_to (bb_driver_type b) (bb_channel b))) (\<lambda>holder.
         if bb_driver_type b \<noteq> ''ds18b20'' \<and> holder \<noteq> None \<and> holder \<noteq> Some (bb_device_id b) then refuse_with 409
         else if \<not> declared b then refuse_with 422
         else carry_out_binding lib d actor b)))"

section \<open>Reading\<close>

definition devices :: "crypto \<Rightarrow> desk_draws \<Rightarrow> string option \<Rightarrow> desk_answer desk" where
  "devices lib d authorization =
     attempt (caller lib d authorization) (\<lambda>_.
       attempt (from_store (list_devices None)) (\<lambda>rows. reply_with (Devices rows)))"

definition sensors :: "crypto \<Rightarrow> desk_draws \<Rightarrow> string option \<Rightarrow> desk_answer desk" where
  "sensors lib d authorization =
     attempt (caller lib d authorization) (\<lambda>_.
       attempt (from_store (list_devices (Some KindSensor))) (\<lambda>rows. reply_with (Devices rows)))"

definition capabilities :: "crypto \<Rightarrow> desk_draws \<Rightarrow> string option \<Rightarrow> desk_answer desk" where
  "capabilities lib d authorization =
     attempt (caller lib d authorization) (\<lambda>_.
       attempt (from_store list_capabilities) (\<lambda>rows. reply_with (Capabilities rows)))"

definition list_hardware :: "crypto \<Rightarrow> desk_draws \<Rightarrow> string option \<Rightarrow> desk_answer desk" where
  "list_hardware lib d authorization =
     attempt (caller lib d authorization) (\<lambda>_.
       attempt (from_store list_chip_state) (\<lambda>rows. reply_with (Chips rows)))"

section \<open>Names\<close>

definition rename_device :: "crypto \<Rightarrow> desk_draws \<Rightarrow> string option \<Rightarrow> string \<Rightarrow> string option \<Rightarrow> desk_answer desk" where
  "rename_device lib d authorization device_id body =
     attempt (caller lib d authorization) (\<lambda>actor.
       if \<not> valid_name_body body then refuse_with 422
       else let name = blank_is_not_a_name body
            in attempt (from_store (set_display_name device_id name)) (\<lambda>row. case row of
                 None \<Rightarrow> refuse_with 404
               | Some r \<Rightarrow>
                   attempt (audited lib actor (DeviceRenamed device_id name)) (\<lambda>_.
                     reply_with (DeviceNamed (dv_device_id r) (dv_display_name r)))))"

section \<open>Letting go and taking back\<close>

definition unbind_device :: "crypto \<Rightarrow> desk_draws \<Rightarrow> string option \<Rightarrow> string \<Rightarrow> desk_answer desk" where
  "unbind_device lib d authorization device_id =
     attempt (caller lib d authorization) (\<lambda>actor.
       attempt (from_store (unadopt_device device_id)) (\<lambda>row. case row of
         None \<Rightarrow> refuse_with 404
       | Some r \<Rightarrow>
           attempt (announce (dd_message d) (dv_device_id r) False (dv_role r) (dv_driver_type r) (dv_binding r)) (\<lambda>_.
           attempt (audited lib actor (DeviceUnbound (dv_device_id r) (dv_driver_type r) (dv_binding r))) (\<lambda>_.
           reply_with NoContent))))"

definition readopt_conflict :: "store_error \<Rightarrow> fault" where
  "readopt_conflict e = (case e of ChannelHeldError _ \<Rightarrow> Http 409 | _ \<Rightarrow> uncaught e)"

text \<open>\<open>next(...)\<close> over an empty selection ends the handler with an error.\<close>

definition readopt_device :: "crypto \<Rightarrow> desk_draws \<Rightarrow> string option \<Rightarrow> string \<Rightarrow> desk_answer desk" where
  "readopt_device lib d authorization device_id =
     attempt (caller lib d authorization) (\<lambda>actor.
       attempt (catching readopt_conflict (store_readopt_device device_id)) (\<lambda>row. case row of
         None \<Rightarrow> refuse_with 404
       | Some r \<Rightarrow>
           attempt (announce (dd_message d) (dv_device_id r) True (dv_role r) (dv_driver_type r) (dv_binding r)) (\<lambda>_.
           attempt (audited lib actor (DeviceReadopted device_id)) (\<lambda>_.
           attempt (from_store (list_devices None)) (\<lambda>rows.
             case find (\<lambda>q. dv_device_id (fst q) = device_id) rows of
               None \<Rightarrow> Finish (Inl (Crash (RuntimeError ''coroutine raised StopIteration'')))
             | Some q \<Rightarrow> reply_with (OneDevice (fst q) (snd q)))))))"

definition forget_conflict :: "store_error \<Rightarrow> fault" where
  "forget_conflict e = (case e of DeviceReferencedError _ \<Rightarrow> Http 409 | _ \<Rightarrow> uncaught e)"

definition forget_device :: "crypto \<Rightarrow> desk_draws \<Rightarrow> string option \<Rightarrow> string \<Rightarrow> desk_answer desk" where
  "forget_device lib d authorization device_id =
     attempt (caller lib d authorization) (\<lambda>actor.
       attempt (catching forget_conflict (store_forget_device device_id)) (\<lambda>outcome. case outcome of
         Missing \<Rightarrow> refuse_with 404
       | StillAdopted \<Rightarrow> refuse_with 409
       | Forgotten \<Rightarrow>
           attempt (audited lib actor (DeviceForgotten device_id)) (\<lambda>_. reply_with NoContent)))"

section \<open>Alert bands\<close>

definition band_of :: "device_row \<Rightarrow> band_view" where
  "band_of r = \<lparr>tv_device_id = dv_device_id r, tv_minimum = dv_alert_min r, tv_maximum = dv_alert_max r,
     tv_clear_margin = dv_alert_clear_margin r\<rparr>"

definition get_thresholds :: "crypto \<Rightarrow> desk_draws \<Rightarrow> string option \<Rightarrow> string \<Rightarrow> desk_answer desk" where
  "get_thresholds lib d authorization device_id =
     attempt (caller lib d authorization) (\<lambda>_.
       attempt (from_store (thresholds_for device_id)) (\<lambda>row. case row of
         None \<Rightarrow> refuse_with 404 | Some r \<Rightarrow> reply_with (Band (band_of r))))"

definition put_thresholds :: "crypto \<Rightarrow> desk_draws \<Rightarrow> string option \<Rightarrow> string \<Rightarrow> band_body \<Rightarrow> desk_answer desk" where
  "put_thresholds lib d authorization device_id b =
     attempt (caller lib d authorization) (\<lambda>actor.
       if \<not> valid_band_body b then refuse_with 422
       else attempt (from_store (thresholds_for device_id)) (\<lambda>existing. case existing of
         None \<Rightarrow> refuse_with 404
       | Some q \<Rightarrow>
           if dv_kind q \<noteq> KindSensor \<and> (tb_minimum b \<noteq> None \<or> tb_maximum b \<noteq> None) then refuse_with 409
           else attempt (from_store (set_thresholds device_id (tb_minimum b) (tb_maximum b) (tb_clear_margin b)))
             (\<lambda>row. case row of
               None \<Rightarrow> refuse_with 404
             | Some (r, closed_bounds) \<Rightarrow>
                 attempt (audited lib actor
                   (ThresholdsSet device_id (tb_minimum b) (tb_maximum b) (tb_clear_margin b) closed_bounds)) (\<lambda>_.
                 reply_with (Band (band_of r))))))"

section \<open>What the hardware announces\<close>

text \<open>
  \<open>_on_message\<close> of the three consumers: a message that does not parse or validate is ignored, an
  error of the store is logged. Acknowledging belongs to the client library.
\<close>

definition swallowing :: "'a stored \<Rightarrow> desk_answer desk" where
  "swallowing p = prog_bind p (\<lambda>_. reply_with Heard)"

definition on_registration :: "uuid \<Rightarrow> sensor_registration result \<Rightarrow> desk_answer desk" where
  "on_registration pk data =
     (case res_bind data validate_sensor_registration of
        Inl _ \<Rightarrow> reply_with Heard
      | Inr g \<Rightarrow> swallowing (atomic (upsert_sensor pk g)))"

definition on_capabilities :: "capability_announcement result \<Rightarrow> desk_answer desk" where
  "on_capabilities data =
     (case res_bind data validate_capability_announcement of
        Inl _ \<Rightarrow> reply_with Heard
      | Inr a \<Rightarrow> swallowing (atomic (replace_capabilities (source_token (ca_hardware_source a)) (ca_channels a))))"

definition chip_row_of :: "chip_state \<Rightarrow> chip_row" where
  "chip_row_of c = \<lparr>ch_source = source_token (cs_hardware_source c), ch_instance = cs_instance c,
     ch_initialised = cs_initialised c, ch_initialised_at = cs_initialised_at c, ch_facts = cs_facts c,
     ch_announced_at = emitted_at c\<rparr>"

definition on_chip :: "chip_state result \<Rightarrow> desk_answer desk" where
  "on_chip data =
     (case res_bind data validate_chip_state of
        Inl _ \<Rightarrow> reply_with Heard
      | Inr c \<Rightarrow> swallowing (atomic (upsert_chip_state (chip_row_of c))))"

section \<open>The start\<close>

primrec republish :: "(nat \<Rightarrow> uuid) \<Rightarrow> device_row list \<Rightarrow> unit desk" where
  "republish mids [] = reply_with ()"
| "republish mids (r # rs) =
     attempt (announce (mids (length rs)) (dv_device_id r) True (dv_role r) (dv_driver_type r) (dv_binding r))
       (\<lambda>_. republish mids rs)"

definition start_api :: "uuid \<Rightarrow> (nat \<Rightarrow> uuid) \<Rightarrow> desk_answer desk" where
  "start_api fresh_hub mids =
     prog_bind (at_hub (establish_identity fresh_hub)) (\<lambda>_.
       prog_bind (attempt (from_store adopted_assignments) (republish mids)) (\<lambda>_. reply_with Heard))"

end
