(* ===== verification/LightApi.thy ===== *)
theory LightApi
  imports DeviceStore
begin

text \<open>
  Named lighting curves and holds, as the API serves them: \<open>db/schedules.py\<close> and the handlers of
  \<open>services/api/app.py\<close> for schedules, their channels and overrides. The stored points are JSON that is
  validated again whenever a row is read; the zone database is the argument \<open>known_zone\<close>.
\<close>

section \<open>db/schedules.py\<close>

record stored_schedule =
  ss_id :: uuid
  ss_definition :: schedule_definition
  ss_assigned_channels :: "string list"

definition schedule_row_of :: "uuid \<Rightarrow> tank \<Rightarrow> schedule_row option" where
  "schedule_row_of i s = find (\<lambda>r. ls_id r = i) (tk_schedules s)"

text \<open>\<open>_build_definition\<close>\<close>

definition build_definition :: "(string \<Rightarrow> bool) \<Rightarrow> schedule_row \<Rightarrow> store_error + schedule_definition" where
  "build_definition known_zone r =
     (case validate_schedule_definition known_zone (ls_definition r) of
        Inl e \<Rightarrow> Inl (StoreError (ValueError ''stored schedule no longer validates''))
      | Inr d \<Rightarrow> Inr d)"

text \<open>\<open>str(...)\<close>, sorted: the channels a schedule drives.\<close>

definition channels_of :: "uuid \<Rightarrow> tank \<Rightarrow> string list" where
  "channels_of i s = sort (map fst (filter (\<lambda>(c, j). j = i) (tk_channel_schedules s)))"

definition name_taken :: "schedule_row list \<Rightarrow> string \<Rightarrow> bool" where
  "name_taken rows name = list_ex (\<lambda>r. sd_name (ls_definition r) = name) rows"

definition schedule_exists_error :: store_error where
  "schedule_exists_error = StoreError (ValueError ''a schedule with this name already exists'')"

definition schedule_create :: "uuid \<Rightarrow> schedule_definition \<Rightarrow> stored_schedule step" where
  "schedule_create i d s =
     (if schedule_row_of i s \<noteq> None then (Inl (StoreError (IntegrityError ''pk_lighting_schedules'')), s)
      else if name_taken (tk_schedules s) (sd_name d) then (Inl schedule_exists_error, s)
      else (Inr \<lparr>ss_id = i, ss_definition = d, ss_assigned_channels = []\<rparr>,
            s\<lparr>tk_schedules := tk_schedules s @ [\<lparr>ls_id = i, ls_definition = d\<rparr>]\<rparr>))"

text \<open>\<open>UPDATE ... WHERE id\<close>: the unique name is checked against the other rows; the result is the row count.\<close>

definition write_definition :: "uuid \<Rightarrow> schedule_definition \<Rightarrow> bool step" where
  "write_definition i d s =
     (if schedule_row_of i s \<noteq> None \<and> name_taken (filter (\<lambda>r. ls_id r \<noteq> i) (tk_schedules s)) (sd_name d)
      then (Inl schedule_exists_error, s)
      else (Inr (schedule_row_of i s \<noteq> None),
            s\<lparr>tk_schedules := map (\<lambda>r. if ls_id r = i then r\<lparr>ls_definition := d\<rparr> else r) (tk_schedules s)\<rparr>))"

definition select_channels :: "uuid \<Rightarrow> string list step" where
  "select_channels i s = (Inr (channels_of i s), s)"

definition schedule_update :: "uuid \<Rightarrow> schedule_definition \<Rightarrow> stored_schedule stored" where
  "schedule_update i d =
     attempt (atomic (write_definition i d)) (\<lambda>hit.
       if \<not> hit then Finish (Inl (StoreError (KeyError ''schedule_id'')))
       else attempt (atomic (select_channels i)) (\<lambda>channels.
         Finish (Inr \<lparr>ss_id = i, ss_definition = d, ss_assigned_channels = channels\<rparr>)))"

definition first_channel :: "uuid \<Rightarrow> string option step" where
  "first_channel i s = (Inr (map_option fst (find (\<lambda>(c, j). j = i) (tk_channel_schedules s))), s)"

text \<open>The deletion; the restricting key refuses it, and nothing catches that.\<close>

definition delete_schedule_row :: "uuid \<Rightarrow> bool step" where
  "delete_schedule_row i s =
     (if schedule_row_of i s = None then (Inr False, s)
      else if i \<in> snd ` set (tk_channel_schedules s) then (Inl (StoreError (IntegrityError ''schedule_assignments'')), s)
      else (Inr True, s\<lparr>tk_schedules := filter (\<lambda>r. ls_id r \<noteq> i) (tk_schedules s)\<rparr>))"

definition schedule_delete :: "uuid \<Rightarrow> unit stored" where
  "schedule_delete i =
     attempt (atomic (first_channel i)) (\<lambda>assigned. case assigned of
       Some c \<Rightarrow> Finish (Inl (ScheduleInUseError c))
     | None \<Rightarrow> attempt (atomic (delete_schedule_row i)) (\<lambda>hit.
         if hit then Finish (Inr ()) else Finish (Inl (StoreError (KeyError ''schedule_id'')))))"

definition select_schedule :: "uuid \<Rightarrow> schedule_row option step" where
  "select_schedule i s = (Inr (schedule_row_of i s), s)"

definition schedule_get :: "(string \<Rightarrow> bool) \<Rightarrow> uuid \<Rightarrow> stored_schedule stored" where
  "schedule_get known_zone i =
     attempt (atomic (select_schedule i)) (\<lambda>row. case row of
       None \<Rightarrow> Finish (Inl (StoreError (KeyError ''schedule_id'')))
     | Some r \<Rightarrow> attempt (atomic (select_channels i)) (\<lambda>channels.
         case build_definition known_zone r of
           Inl e \<Rightarrow> Finish (Inl e)
         | Inr d \<Rightarrow> Finish (Inr \<lparr>ss_id = i, ss_definition = d, ss_assigned_channels = channels\<rparr>)))"

definition select_schedules :: "schedule_row list step" where
  "select_schedules s = (Inr (sort_key (\<lambda>r. sd_name (ls_definition r)) (tk_schedules s)), s)"

definition select_assignments :: "(string \<times> uuid) list step" where
  "select_assignments s = (Inr (tk_channel_schedules s), s)"

fun stored_schedules ::
    "(string \<Rightarrow> bool) \<Rightarrow> (string \<times> uuid) list \<Rightarrow> schedule_row list \<Rightarrow> store_error + stored_schedule list" where
  "stored_schedules known_zone assigned [] = Inr []"
| "stored_schedules known_zone assigned (r # rs) =
     (case build_definition known_zone r of
        Inl e \<Rightarrow> Inl e
      | Inr d \<Rightarrow> map_sum id
          (Cons \<lparr>ss_id = ls_id r, ss_definition = d,
                 ss_assigned_channels = sort (map fst (filter (\<lambda>(c, j). j = ls_id r) assigned))\<rparr>)
          (stored_schedules known_zone assigned rs))"

definition schedule_list :: "(string \<Rightarrow> bool) \<Rightarrow> stored_schedule list stored" where
  "schedule_list known_zone =
     attempt (atomic select_schedules) (\<lambda>rows. attempt (atomic select_assignments) (\<lambda>assigned.
       Finish (stored_schedules known_zone assigned rows)))"

text \<open>The two columns are \<open>VARCHAR(64)\<close> and a reference to the schedules.\<close>

definition upsert_channel :: "string \<Rightarrow> uuid \<Rightarrow> unit step" where
  "upsert_channel channel_id i s =
     (if 64 < length channel_id then (Inl (StoreError (ValueError ''value too long for type character varying(64)'')), s)
      else if schedule_row_of i s = None then (Inl (StoreError (IntegrityError ''schedule_assignments'')), s)
      else (Inr (), s\<lparr>tk_channel_schedules := alist_put channel_id i (tk_channel_schedules s)\<rparr>))"

definition schedule_assign :: "string \<Rightarrow> uuid \<Rightarrow> unit stored" where
  "schedule_assign channel_id i =
     attempt (atomic (select_schedule i)) (\<lambda>row.
       if row = None then Finish (Inl (StoreError (KeyError ''schedule_id'')))
       else atomic (upsert_channel channel_id i))"

definition schedule_unassign :: "string \<Rightarrow> bool step" where
  "schedule_unassign channel_id s =
     (Inr (channel_id \<in> fst ` set (tk_channel_schedules s)),
      s\<lparr>tk_channel_schedules := filter (\<lambda>(c, j). c \<noteq> channel_id) (tk_channel_schedules s)\<rparr>)"

text \<open>\<open>assigned_curves\<close>, the engine's read: one join, each row validated.\<close>

definition joined :: "tank \<Rightarrow> (string \<times> schedule_row) list" where
  "joined s = concat (map (\<lambda>(c, i). map (Pair c) (filter (\<lambda>r. ls_id r = i) (tk_schedules s))) (tk_channel_schedules s))"

fun build_curves ::
    "(string \<Rightarrow> bool) \<Rightarrow> (string \<times> schedule_row) list \<Rightarrow> (string \<times> schedule_definition) list
       \<Rightarrow> store_error + (string \<times> schedule_definition) list" where
  "build_curves known_zone [] curves = Inr curves"
| "build_curves known_zone ((c, r) # rows) curves =
     (case build_definition known_zone r of
        Inl e \<Rightarrow> Inl e
      | Inr d \<Rightarrow> build_curves known_zone rows (alist_put c d curves))"

definition assigned_curves :: "(string \<Rightarrow> bool) \<Rightarrow> (string \<times> schedule_definition) list step" where
  "assigned_curves known_zone s = (build_curves known_zone (joined s) [], s)"

section \<open>Schedules\<close>

record schedule_body =
  sb_name :: string
  sb_zone :: string
  sb_anchor :: anchor
  sb_locale :: "locale_model option"
  sb_points :: "schedule_point list"

text \<open>\<open>ScheduleRequest\<close>: what the fields require; the points and the locale have been built.\<close>

definition valid_schedule_body :: "schedule_body \<Rightarrow> bool" where
  "valid_schedule_body b =
     (str_len_ok 1 64 (sb_name b) \<and> opt_ok locale_ok (sb_locale b)
      \<and> list_all (\<lambda>p. 0 \<le> sp_duty p \<and> sp_duty p \<le> 1) (sb_points b) \<and> 2 \<le> length (sb_points b))"

definition parse_curve :: "(string \<Rightarrow> bool) \<Rightarrow> schedule_body \<Rightarrow> schedule_definition desk" where
  "parse_curve known_zone b =
     (case validate_schedule_definition known_zone
             \<lparr>sd_name = sb_name b, sd_zone = sb_zone b, sd_anchor = sb_anchor b, sd_locale = sb_locale b,
              sd_points = sb_points b\<rparr> of
        Inl e \<Rightarrow> refuse_with 422
      | Inr d \<Rightarrow> reply_with d)"

datatype light_answer =
    Schedules "stored_schedule list"
  | OneSchedule stored_schedule
  | NoSchedule
  | Unassigned
  | Holds "(active_override \<times> seconds) list"
  | HoldPlaced active_override seconds
  | Released

definition schedule_missing :: "store_error \<Rightarrow> fault" where
  "schedule_missing e = (case e of StoreError (KeyError _) \<Rightarrow> Http 404 | _ \<Rightarrow> uncaught e)"

definition schedule_conflict :: "store_error \<Rightarrow> fault" where
  "schedule_conflict e = (case e of StoreError (ValueError _) \<Rightarrow> Http 409 | _ \<Rightarrow> uncaught e)"

definition update_conflict :: "store_error \<Rightarrow> fault" where
  "update_conflict e =
     (case e of StoreError (KeyError _) \<Rightarrow> Http 404 | StoreError (ValueError _) \<Rightarrow> Http 409 | _ \<Rightarrow> uncaught e)"

definition delete_conflict :: "store_error \<Rightarrow> fault" where
  "delete_conflict e =
     (case e of ScheduleInUseError _ \<Rightarrow> Http 409 | StoreError (KeyError _) \<Rightarrow> Http 404 | _ \<Rightarrow> uncaught e)"

definition list_schedules :: "crypto \<Rightarrow> (string \<Rightarrow> bool) \<Rightarrow> desk_draws \<Rightarrow> string option \<Rightarrow> light_answer desk" where
  "list_schedules lib known_zone d authorization =
     attempt (caller lib d authorization) (\<lambda>_.
       attempt (catching uncaught (schedule_list known_zone)) (\<lambda>rows. reply_with (Schedules rows)))"

definition create_schedule ::
    "crypto \<Rightarrow> (string \<Rightarrow> bool) \<Rightarrow> desk_draws \<Rightarrow> string option \<Rightarrow> schedule_body \<Rightarrow> light_answer desk" where
  "create_schedule lib known_zone d authorization b =
     attempt (caller lib d authorization) (\<lambda>actor.
       if \<not> valid_schedule_body b then refuse_with 422
       else attempt (parse_curve known_zone b) (\<lambda>definition.
         attempt (catching schedule_conflict (atomic (schedule_create (dd_id d) definition))) (\<lambda>stored.
         attempt (audited lib actor (ScheduleCreated (ss_id stored) (sd_name (ss_definition stored)))) (\<lambda>_.
         reply_with (OneSchedule stored)))))"

definition get_schedule ::
    "crypto \<Rightarrow> (string \<Rightarrow> bool) \<Rightarrow> desk_draws \<Rightarrow> string option \<Rightarrow> uuid \<Rightarrow> light_answer desk" where
  "get_schedule lib known_zone d authorization i =
     attempt (caller lib d authorization) (\<lambda>_.
       attempt (catching schedule_missing (schedule_get known_zone i)) (\<lambda>stored. reply_with (OneSchedule stored)))"

definition update_schedule ::
    "crypto \<Rightarrow> (string \<Rightarrow> bool) \<Rightarrow> desk_draws \<Rightarrow> string option \<Rightarrow> uuid \<Rightarrow> schedule_body \<Rightarrow> light_answer desk" where
  "update_schedule lib known_zone d authorization i b =
     attempt (caller lib d authorization) (\<lambda>actor.
       if \<not> valid_schedule_body b then refuse_with 422
       else attempt (parse_curve known_zone b) (\<lambda>definition.
         attempt (catching update_conflict (schedule_update i definition)) (\<lambda>stored.
         attempt (audited lib actor (ScheduleUpdated (ss_id stored) (sd_name (ss_definition stored)))) (\<lambda>_.
         reply_with (OneSchedule stored)))))"

definition delete_schedule ::
    "crypto \<Rightarrow> (string \<Rightarrow> bool) \<Rightarrow> desk_draws \<Rightarrow> string option \<Rightarrow> uuid \<Rightarrow> light_answer desk" where
  "delete_schedule lib known_zone d authorization i =
     attempt (caller lib d authorization) (\<lambda>actor.
       attempt (catching schedule_missing (schedule_get known_zone i)) (\<lambda>stored.
       attempt (catching delete_conflict (schedule_delete i)) (\<lambda>_.
       attempt (audited lib actor (ScheduleDeleted i (sd_name (ss_definition stored)))) (\<lambda>_.
       reply_with NoSchedule))))"

definition holder_schedule :: "string \<Rightarrow> stored_schedule list \<Rightarrow> uuid option" where
  "holder_schedule channel_id rows = map_option ss_id (find (\<lambda>r. channel_id \<in> set (ss_assigned_channels r)) rows)"

text \<open>\<open>_CHANNEL_ID_RE.match\<close> is \<open>re.match\<close> with the token pattern; the route's path takes any text without a slash.\<close>

definition assign_schedule ::
    "crypto \<Rightarrow> (string \<Rightarrow> bool) \<Rightarrow> desk_draws \<Rightarrow> string option \<Rightarrow> string \<Rightarrow> uuid \<Rightarrow> light_answer desk" where
  "assign_schedule lib known_zone d authorization channel_id i =
     attempt (caller lib d authorization) (\<lambda>actor.
       if \<not> token_re_match channel_id then refuse_with 422
       else attempt (from_store (control_authority_of channel_id)) (\<lambda>(_, authority).
         if authority = Some ObserveOnly then refuse_with 409
         else attempt (catching uncaught (schedule_list known_zone)) (\<lambda>rows.
           let previous = holder_schedule channel_id rows
           in attempt (catching schedule_missing (schedule_assign channel_id i)) (\<lambda>_.
              attempt (case previous of
                         Some old \<Rightarrow> if old \<noteq> i then audited lib actor (ScheduleUnassigned channel_id old (Some i))
                                      else reply_with ()
                       | None \<Rightarrow> reply_with ()) (\<lambda>_.
              attempt (audited lib actor (ScheduleAssigned channel_id i)) (\<lambda>_.
              attempt (catching uncaught (schedule_get known_zone i)) (\<lambda>stored. reply_with (OneSchedule stored))))))))"

definition unassign_schedule ::
    "crypto \<Rightarrow> (string \<Rightarrow> bool) \<Rightarrow> desk_draws \<Rightarrow> string option \<Rightarrow> string \<Rightarrow> light_answer desk" where
  "unassign_schedule lib known_zone d authorization channel_id =
     attempt (caller lib d authorization) (\<lambda>actor.
       attempt (catching uncaught (schedule_list known_zone)) (\<lambda>rows.
         case holder_schedule channel_id rows of
           None \<Rightarrow> refuse_with 404
         | Some i \<Rightarrow>
             attempt (from_store (schedule_unassign channel_id)) (\<lambda>_.
             attempt (audited lib actor (ScheduleUnassigned channel_id i None)) (\<lambda>_. reply_with Unassigned))))"

section \<open>Holds\<close>

record hold_body =
  ob_target :: string
  ob_duty :: duty
  ob_duration_s :: seconds
  ob_reason :: "string option"
  ob_transition :: transition

definition valid_hold_body :: "hold_body \<Rightarrow> bool" where
  "valid_hold_body b =
     (str_len_ok 1 64 (ob_target b) \<and> 0 \<le> ob_duty b \<and> ob_duty b \<le> 1 \<and> 0 < ob_duration_s b \<and> ob_duration_s b \<le> 86400
      \<and> opt_ok (str_len_ok 0 256) (ob_reason b))"

definition place_hold :: "uuid \<Rightarrow> hold_body \<Rightarrow> placed_override step" where
  "place_hold i b s =
     (case override_create (tk_clock_trusted s) i (hb_mono (tk_hub s)) (hb_wall (tk_hub s)) (ob_target b) (ob_duty b)
             (ob_duration_s b) (ob_reason b) (transition_text (ob_transition b)) None (tk_overrides s) of
        Inl e \<Rightarrow> (Inl (StoreError e), s)
      | Inr (placed, db) \<Rightarrow> (Inr placed, s\<lparr>tk_overrides := db\<rparr>))"

definition active_holds :: "active_override list step" where
  "active_holds s = (map_sum StoreError id (override_list_active (tk_overrides s)), s)"

definition release_hold :: "uuid \<Rightarrow> string option step" where
  "release_hold i s =
     (let (target, db) = override_release (hb_wall (tk_hub s)) i Manual None (tk_overrides s)
      in (Inr target, s\<lparr>tk_overrides := db\<rparr>))"

definition hold_refusal :: "store_error \<Rightarrow> fault" where
  "hold_refusal e =
     (case e of StoreError ClockUntrustedError \<Rightarrow> Http 503 | StoreError (ValueError _) \<Rightarrow> Http 422 | _ \<Rightarrow> uncaught e)"

definition list_overrides :: "crypto \<Rightarrow> desk_draws \<Rightarrow> string option \<Rightarrow> light_answer desk" where
  "list_overrides lib d authorization =
     attempt (caller lib d authorization) (\<lambda>_.
       attempt (at_hub (atomic wall_clock)) (\<lambda>now.
       attempt (from_store active_holds) (\<lambda>rows.
       reply_with (Holds (map (\<lambda>o'. (o', max 0 (py_round_1 (ao_expires_at o' - now)))) rows)))))"

fun record_displaced :: "crypto \<Rightarrow> uuid \<Rightarrow> uuid \<Rightarrow> released_override list \<Rightarrow> unit desk" where
  "record_displaced lib actor placed [] = reply_with ()"
| "record_displaced lib actor placed (r # rs) =
     attempt (audited lib actor (HoldReleased (ro_id r) (ro_target r) Superseded (Some placed))) (\<lambda>_.
       record_displaced lib actor placed rs)"

definition create_override :: "crypto \<Rightarrow> desk_draws \<Rightarrow> string option \<Rightarrow> hold_body \<Rightarrow> light_answer desk" where
  "create_override lib d authorization b =
     attempt (caller lib d authorization) (\<lambda>actor.
       if \<not> valid_hold_body b then refuse_with 422
       else attempt (from_store (control_authority_of (ob_target b))) (\<lambda>(_, authority).
         if authority = Some ObserveOnly then refuse_with 409
         else attempt (catching hold_refusal (atomic (place_hold (dd_id d) b))) (\<lambda>placement.
           let placed = po_override placement
           in attempt (record_displaced lib actor (ao_id placed) (po_superseded placement)) (\<lambda>_.
              attempt (audited lib actor (\<lambda>who. HoldCreated (ao_id placed) (ao_target placed) (ao_duty placed)
                         (ao_expires_at placed) (ao_transition placed) (ob_reason b) who)) (\<lambda>_.
              reply_with (HoldPlaced placed (py_round_1 (ob_duration_s b))))))))"

definition release_override :: "crypto \<Rightarrow> desk_draws \<Rightarrow> string option \<Rightarrow> uuid \<Rightarrow> light_answer desk" where
  "release_override lib d authorization i =
     attempt (caller lib d authorization) (\<lambda>actor.
       attempt (from_store (release_hold i)) (\<lambda>target. case target of
         None \<Rightarrow> refuse_with 404
       | Some t \<Rightarrow>
           attempt (audited lib actor (HoldReleased i t Manual None)) (\<lambda>_. reply_with Released)))"

end
