(* ===== verification/Ledger.thy ===== *)
theory Ledger
  imports Transactions AuthStore
begin

text \<open>
  What pairing promises, as a small system of its own: a ledger of who has been let in and by
  which invitation. Each call is an automaton that may enter its new client into the ledger and
  then be admitted by one invitation - the first pairing of the hub, the setup code, one
  recovery window, or one approved request. The promises are invariants of this system, by
  rule induction; that the handlers run it is shown in \<open>PairingRun\<close>.
\<close>

section \<open>The ledger\<close>

record ledger =
  lg_clients :: "uuid list"
  lg_set_up :: bool
  lg_holder :: "uuid \<Rightarrow> uuid option"
  lg_approved :: "uuid \<Rightarrow> uuid option"
  lg_grants :: "trail_event list"
  lg_waiting :: "uuid \<Rightarrow> (uuid \<times> string) option"

datatype standing =
    Outside
  | Minted
  | ByTofu bool
  | ByCode bool
  | ByWindow uuid bool
  | ByRequest uuid
  | Filed uuid
  | Took uuid uuid string

text \<open>Steps that let nobody in: setup may complete, tokens that wait may be lost.\<close>

definition settles :: "ledger \<Rightarrow> ledger \<Rightarrow> bool" where
  "settles L L' =
     (lg_clients L' = lg_clients L \<and> lg_holder L' = lg_holder L \<and> lg_approved L' = lg_approved L
      \<and> lg_grants L' = lg_grants L \<and> (lg_set_up L \<longrightarrow> lg_set_up L') \<and> lg_waiting L' \<subseteq>\<^sub>m lg_waiting L)"

inductive ledger_step :: "uuid option \<Rightarrow> standing \<Rightarrow> ledger \<Rightarrow> ledger \<Rightarrow> standing \<Rightarrow> bool" for c where
  quiet: "settles L L' \<Longrightarrow> ledger_step c m L L' m"
| enter_first: "c = Some k \<Longrightarrow> lg_clients L = [] \<Longrightarrow> L' = L\<lparr>lg_clients := [k]\<rparr> \<Longrightarrow>
    ledger_step c Outside L L' (ByTofu False)"
| enter: "c = Some k \<Longrightarrow> k \<notin> set (lg_clients L) \<Longrightarrow> L' = L\<lparr>lg_clients := lg_clients L @ [k]\<rparr> \<Longrightarrow>
    ledger_step c Outside L L' Minted"
| leave: "c = Some k \<Longrightarrow> L' = L\<lparr>lg_clients := filter (\<lambda>x. x \<noteq> k) (lg_clients L)\<rparr> \<Longrightarrow>
    ledger_step c Minted L L' Outside"
| latch: "\<not> lg_set_up L \<Longrightarrow> L' = L\<lparr>lg_set_up := True\<rparr> \<Longrightarrow> ledger_step c Minted L L' (ByCode False)"
| spend: "c = Some k \<Longrightarrow> lg_holder L w = None \<Longrightarrow> L' = L\<lparr>lg_holder := (lg_holder L)(w := Some k)\<rparr> \<Longrightarrow>
    ledger_step c Minted L L' (ByWindow w False)"
| approve: "c = Some k \<Longrightarrow> lg_approved L r = None \<Longrightarrow> L' = L\<lparr>lg_approved := (lg_approved L)(r := Some k)\<rparr> \<Longrightarrow>
    ledger_step c Minted L L' (ByRequest r)"
| deposit: "c = Some k \<Longrightarrow> L' = L\<lparr>lg_waiting := (lg_waiting L)(r := Some (k, tok))\<rparr> \<Longrightarrow>
    ledger_step c (ByRequest r) L L' (Filed r)"
| take: "lg_waiting L r = Some (k, tok) \<Longrightarrow> L' = L\<lparr>lg_waiting := (lg_waiting L)(r := None)\<rparr> \<Longrightarrow>
    ledger_step c Outside L L' (Took r k tok)"
| tell_tofu: "c = Some k \<Longrightarrow> L' = L\<lparr>lg_grants := lg_grants L @ [PairTofuGranted k n]\<rparr> \<Longrightarrow>
    ledger_step c (ByTofu False) L L' (ByTofu True)"
| tell_code: "c = Some k \<Longrightarrow> L' = L\<lparr>lg_grants := lg_grants L @ [PairCodeGranted k n]\<rparr> \<Longrightarrow>
    ledger_step c (ByCode False) L L' (ByCode True)"
| tell_window: "c = Some k \<Longrightarrow> L' = L\<lparr>lg_grants := lg_grants L @ [PairWindowUsed w k n]\<rparr> \<Longrightarrow>
    ledger_step c (ByWindow w False) L L' (ByWindow w True)"

section \<open>What it keeps\<close>

fun inside :: "standing \<Rightarrow> bool" where
  "inside Outside = False"
| "inside (Took _ _ _) = False"
| "inside _ = True"

text \<open>The evidence behind each standing, for the call whose client is \<open>c\<close>.\<close>

fun evidence :: "uuid option \<Rightarrow> ledger \<Rightarrow> standing \<Rightarrow> bool" where
  "evidence c L (ByTofu _) = (\<exists>k ks. c = Some k \<and> lg_clients L = k # ks)"
| "evidence c L (ByCode _) = lg_set_up L"
| "evidence c L (ByWindow w _) = (c \<noteq> None \<and> lg_holder L w = c)"
| "evidence c L (ByRequest r) = (c \<noteq> None \<and> lg_approved L r = c)"
| "evidence c L (Filed r) = (c \<noteq> None \<and> lg_approved L r = c)"
| "evidence c L (Took r _ _) = (lg_waiting L r = None)"
| "evidence c L _ = True"

definition told :: "standing \<Rightarrow> uuid \<Rightarrow> string \<Rightarrow> trail_event option" where
  "told m k n = (case m of
      ByTofu True \<Rightarrow> Some (PairTofuGranted k n)
    | ByCode True \<Rightarrow> Some (PairCodeGranted k n)
    | ByWindow w True \<Rightarrow> Some (PairWindowUsed w k n)
    | _ \<Rightarrow> None)"

text \<open>Every standing has its evidence, and whoever is in is in the ledger.\<close>

definition vouched :: "(nat \<Rightarrow> uuid option) \<Rightarrow> (nat \<Rightarrow> standing) \<Rightarrow> ledger \<Rightarrow> bool" where
  "vouched ids ms L =
     (\<forall>i. evidence (ids i) L (ms i) \<and> (inside (ms i) \<longrightarrow> (\<exists>k. ids i = Some k \<and> k \<in> set (lg_clients L))))"

text \<open>A token waits for a client that was approved, and whoever took one took the only one.\<close>

definition filed :: "(nat \<Rightarrow> uuid option) \<Rightarrow> (nat \<Rightarrow> standing) \<Rightarrow> uuid \<Rightarrow> uuid \<Rightarrow> bool" where
  "filed ids ms r x = (\<exists>j. ms j = Filed r \<and> ids j = Some x)"

definition tokens_ok :: "(nat \<Rightarrow> uuid option) \<Rightarrow> (nat \<Rightarrow> standing) \<Rightarrow> ledger \<Rightarrow> bool" where
  "tokens_ok ids ms L =
     ((\<forall>r x y. lg_waiting L r = Some (x, y) \<longrightarrow> filed ids ms r x)
      \<and> (\<forall>i r x y. ms i = Took r x y \<longrightarrow> filed ids ms r x)
      \<and> (\<forall>i j r x y u v. ms i = Took r x y \<longrightarrow> ms j = Took r u v \<longrightarrow> i = j))"

definition one_code :: "(nat \<Rightarrow> standing) \<Rightarrow> bool" where
  "one_code ms = (\<forall>i j b d. ms i = ByCode b \<longrightarrow> ms j = ByCode d \<longrightarrow> i = j)"

text \<open>The recorded grants are those of the calls that say so.\<close>

definition recorded_ok :: "(nat \<Rightarrow> uuid option) \<Rightarrow> (nat \<Rightarrow> standing) \<Rightarrow> ledger \<Rightarrow> bool" where
  "recorded_ok ids ms L =
     ((\<forall>e \<in> set (lg_grants L). \<exists>i k n. ids i = Some k \<and> told (ms i) k n = Some e)
      \<and> (\<forall>i k. ids i = Some k \<longrightarrow> told (ms i) k [] \<noteq> None \<longrightarrow> (\<exists>n e. told (ms i) k n = Some e \<and> e \<in> set (lg_grants L))))"

definition ids_distinct :: "(nat \<Rightarrow> uuid option) \<Rightarrow> bool" where
  "ids_distinct ids = (\<forall>i j k. ids i = Some k \<longrightarrow> ids j = Some k \<longrightarrow> i = j)"

lemma told_simps [simp]:
  "told Outside k n = None" "told Minted k n = None" "told (ByRequest r) k n = None" "told (Filed r) k n = None"
  "told (Took r x y) k n = None" "told (ByTofu False) k n = None" "told (ByCode False) k n = None"
  "told (ByWindow w False) k n = None"
  "told (ByTofu True) k n = Some (PairTofuGranted k n)" "told (ByCode True) k n = Some (PairCodeGranted k n)"
  "told (ByWindow w True) k n = Some (PairWindowUsed w k n)"
  by (simp_all add: told_def)


lemmas ledger_fields = ledger.simps ledger.update_convs

lemma settles_waiting: "settles L L' \<Longrightarrow> lg_waiting L' r = Some p \<Longrightarrow> lg_waiting L r = Some p"
  by (auto simp: settles_def map_le_def dom_def)

lemma settles_evidence:
  assumes "settles L L'" "evidence c L m"
  shows "evidence c L' m"
proof -
  have "lg_waiting L r = None \<Longrightarrow> lg_waiting L' r = None" for r
    using settles_waiting [OF assms(1), of r] by (cases "lg_waiting L' r") auto
  with assms show ?thesis by (cases m) (auto simp: settles_def)
qed

text \<open>What a step does to the evidence of another call.\<close>

lemma others_evidence:
  assumes "ledger_step c m L L' m'" "evidence d L n" "c \<noteq> d \<or> c = None"
    and "inside n \<Longrightarrow> \<exists>k. d = Some k \<and> k \<in> set (lg_clients L)"
    and "\<And>r x y. m = ByRequest r \<Longrightarrow> n \<noteq> Took r x y"
  shows "evidence d L' n \<and> (inside n \<longrightarrow> (\<exists>k. d = Some k \<and> k \<in> set (lg_clients L')))"
  using assms
proof (cases rule: ledger_step.cases)
  case quiet
  then show ?thesis using assms(2,4) settles_evidence [of L L' d n] by (auto simp: settles_def)
qed (use assms in \<open>cases n; auto\<close>)+

lemma own_evidence:
  assumes "ledger_step c m L L' m'" "evidence c L m" "inside m \<Longrightarrow> \<exists>k. c = Some k \<and> k \<in> set (lg_clients L)"
  shows "evidence c L' m' \<and> (inside m' \<longrightarrow> (\<exists>k. c = Some k \<and> k \<in> set (lg_clients L')))"
  using assms
proof (cases rule: ledger_step.cases)
  case quiet
  then show ?thesis using assms(2,3) settles_evidence [of L L' c m] by (auto simp: settles_def)
qed auto

lemma vouched_step:
  assumes "ledger_step (ids i) (ms i) L L' m" "vouched ids ms L" "tokens_ok ids ms L" "ids_distinct ids"
  shows "vouched ids (ms(i := m)) L'"
  unfolding vouched_def
proof (rule allI)
  fix j
  have own: "evidence (ids k) L (ms k)" "inside (ms k) \<Longrightarrow> \<exists>x. ids k = Some x \<and> x \<in> set (lg_clients L)" for k
    using assms(2) by (auto simp: vouched_def)
  show "evidence (ids j) L' ((ms(i := m)) j) \<and> (inside ((ms(i := m)) j) \<longrightarrow> (\<exists>k. ids j = Some k \<and> k \<in> set (lg_clients L')))"
  proof (cases "j = i")
    case True
    then show ?thesis using own_evidence [OF assms(1) own] by simp
  next
    case False
    have ne: "ids i \<noteq> ids j \<or> ids i = None" using assms(4) False unfolding ids_distinct_def by (metis not_None_eq)
    have "ms j \<noteq> Took r x y" if "ms i = ByRequest r" for r x y
    proof
      assume "ms j = Took r x y"
      then obtain k where k: "ms k = Filed r" "ids k = Some x" using assms(3) unfolding tokens_ok_def filed_def by blast
      have "lg_approved L r = ids k" "lg_approved L r = ids i" using own(1) [of k] own(1) [of i] k that by simp_all
      then have "k = i" using assms(4) k(2) by (auto simp: ids_distinct_def)
      with k that show False by simp
    qed
    with others_evidence [OF assms(1) own(1) ne own(2)] False show ?thesis by simp
  qed
qed

lemma filed_upd: "filed ids ms r x \<Longrightarrow> (ms i = Filed r \<Longrightarrow> m = Filed r) \<Longrightarrow> filed ids (ms(i := m)) r x"
  unfolding filed_def by (metis fun_upd_apply)

lemma tokens_frame:
  assumes "tokens_ok ids ms L" "\<And>r p. lg_waiting L' r = Some p \<Longrightarrow> lg_waiting L r = Some p"
    and "\<And>r. ms i = Filed r \<Longrightarrow> m = Filed r" "\<And>r x y. m = Took r x y \<Longrightarrow> ms i = m"
  shows "tokens_ok ids (ms(i := m)) L'"
proof -
  have upd: "filed ids ms r x \<Longrightarrow> filed ids (ms(i := m)) r x" for r x
    by (erule filed_upd) (rule assms(3))
  have took: "ms j = Took r x y" if "(ms(i := m)) j = Took r x y" for j r x y
    using that assms(4) by (cases "j = i") auto
  show ?thesis unfolding tokens_ok_def
  proof (intro conjI allI impI)
    fix r x y assume "lg_waiting L' r = Some (x, y)"
    with assms(1,2) show "filed ids (ms(i := m)) r x" unfolding tokens_ok_def by (blast intro: upd)
  next
    fix j r x y assume "(ms(i := m)) j = Took r x y"
    with assms(1) took show "filed ids (ms(i := m)) r x" unfolding tokens_ok_def by (blast intro: upd)
  next
    fix j k r x y u v assume "(ms(i := m)) j = Took r x y" "(ms(i := m)) k = Took r u v"
    with assms(1) took show "j = k" unfolding tokens_ok_def by blast
  qed
qed

lemma tokens_step:
  assumes "ledger_step (ids i) (ms i) L L' m" "vouched ids ms L" "tokens_ok ids ms L"
  shows "tokens_ok ids (ms(i := m)) L'"
  using assms(1)
proof (cases rule: ledger_step.cases)
  case quiet
  show ?thesis by (rule tokens_frame [OF assms(3)]) (use quiet settles_waiting [OF quiet(2)] in auto)
next
  case (take r k tok)
  have gone: "ms j \<noteq> Took r x y" for j x y
    using assms(2) take(3) by (auto simp: vouched_def dest: spec [of _ j])
  have upd: "filed ids ms r' x \<Longrightarrow> filed ids (ms(i := m)) r' x" for r' x
    by (erule filed_upd) (simp add: take(1))
  show ?thesis unfolding tokens_ok_def
  proof (intro conjI allI impI)
    fix r' x y assume "lg_waiting L' r' = Some (x, y)"
    with take(4) have "lg_waiting L r' = Some (x, y)" by (simp split: if_splits)
    with assms(3) show "filed ids (ms(i := m)) r' x" unfolding tokens_ok_def by (blast intro: upd)
  next
    fix j r' x y assume "(ms(i := m)) j = Took r' x y"
    then have "(r' = r \<and> x = k) \<or> ms j = Took r' x y" using take(2) by (cases "j = i") auto
    with assms(3) take(3) have "filed ids ms r' x" unfolding tokens_ok_def by blast
    then show "filed ids (ms(i := m)) r' x" by (rule upd)
  next
    fix j l r' x y u v assume "(ms(i := m)) j = Took r' x y" "(ms(i := m)) l = Took r' u v"
    with assms(3) take(2) gone show "j = l" unfolding tokens_ok_def by (cases "j = i"; cases "l = i") auto
  qed
next
  case (deposit k r tok)
  have mine: "filed ids (ms(i := m)) r k" unfolding filed_def using deposit(2,3) by (intro exI [of _ i]) simp
  have upd: "filed ids ms r' x \<Longrightarrow> filed ids (ms(i := m)) r' x" for r' x
    by (erule filed_upd) (simp add: deposit(1))
  show ?thesis unfolding tokens_ok_def
  proof (intro conjI allI impI)
    fix r' x y assume "lg_waiting L' r' = Some (x, y)"
    with deposit(4) have "(r' = r \<and> x = k) \<or> lg_waiting L r' = Some (x, y)" by (auto split: if_splits)
    with assms(3) mine show "filed ids (ms(i := m)) r' x" unfolding tokens_ok_def by (blast intro: upd)
  next
    fix j r' x y assume "(ms(i := m)) j = Took r' x y"
    then have "ms j = Took r' x y" using deposit(2) by (cases "j = i") auto
    with assms(3) have "filed ids ms r' x" unfolding tokens_ok_def by blast
    then show "filed ids (ms(i := m)) r' x" by (rule upd)
  next
    fix j l r' x y u v assume "(ms(i := m)) j = Took r' x y" "(ms(i := m)) l = Took r' u v"
    with assms(3) deposit(2) show "j = l" unfolding tokens_ok_def by (cases "j = i"; cases "l = i") auto
  qed
qed (rule tokens_frame [OF assms(3)], auto)+

lemma one_code_step:
  assumes "ledger_step (ids i) (ms i) L L' m" "vouched ids ms L" "one_code ms"
  shows "one_code (ms(i := m))"
  using assms(1)
proof (cases rule: ledger_step.cases)
  case latch
  have "ms j \<noteq> ByCode b" for j b
    using assms(2) latch(3) by (auto simp: vouched_def dest: spec [of _ j])
  then show ?thesis using latch by (auto simp: one_code_def)
qed (use assms(3) in \<open>auto simp: one_code_def\<close>)+

lemma recorded_step:
  assumes "ledger_step (ids i) (ms i) L L' m" "recorded_ok ids ms L"
  shows "recorded_ok ids (ms(i := m)) L'"
proof -
  have keep: "recorded_ok ids (ms(i := m)) L'"
    if "lg_grants L' = lg_grants L" "\<And>k n. told m k n = told (ms i) k n"
  proof -
    have "told ((ms(i := m)) j) k n = told (ms j) k n" for j k n using that(2) by simp
    with assms(2) that(1) show ?thesis unfolding recorded_ok_def by presburger
  qed
  have tell: "recorded_ok ids (ms(i := m)) L'"
    if "ids i = Some k" "lg_grants L' = lg_grants L @ [e]" "told m k n = Some e" "\<And>k n. told (ms i) k n = None" for k e n
    unfolding recorded_ok_def
  proof (intro conjI ballI allI impI)
    fix f assume "f \<in> set (lg_grants L')"
    with that(2) consider "f = e" | "f \<in> set (lg_grants L)" by auto
    then show "\<exists>j l n. ids j = Some l \<and> told ((ms(i := m)) j) l n = Some f"
    proof cases
      case 1
      with that(1,3) show ?thesis by (intro exI [of _ i] exI [of _ k] exI [of _ n]) simp
    next
      case 2
      with assms(2) obtain j l n where "ids j = Some l" "told (ms j) l n = Some f" unfolding recorded_ok_def by blast
      moreover from this that(4) have "j \<noteq> i" by auto
      ultimately show ?thesis by (intro exI [of _ j] exI [of _ l] exI [of _ n]) simp
    qed
  next
    fix j l assume l: "ids j = Some l" "told ((ms(i := m)) j) l [] \<noteq> None"
    show "\<exists>n e. told ((ms(i := m)) j) l n = Some e \<and> e \<in> set (lg_grants L')"
    proof (cases "j = i")
      case True
      with that(1-3) l(1) show ?thesis by auto
    next
      case False
      with l assms(2) that(2) show ?thesis unfolding recorded_ok_def by fastforce
    qed
  qed
  show ?thesis using assms(1)
  proof (cases rule: ledger_step.cases)
    case quiet
    then show ?thesis using keep by (simp add: settles_def)
  next
    case (tell_tofu k n)
    then show ?thesis using tell [of k "PairTofuGranted k n" n] by simp
  next
    case (tell_code k n)
    then show ?thesis using tell [of k "PairCodeGranted k n" n] by simp
  next
    case (tell_window k w n)
    then show ?thesis using tell [of k "PairWindowUsed w k n" n] by simp
  qed (rule keep; simp)+
qed

section \<open>What it promises\<close>

definition ledger_ok :: "(nat \<Rightarrow> uuid option) \<Rightarrow> (nat \<Rightarrow> standing) \<Rightarrow> ledger \<Rightarrow> bool" where
  "ledger_ok ids ms L = (vouched ids ms L \<and> tokens_ok ids ms L \<and> one_code ms \<and> recorded_ok ids ms L)"

interpretation book: invariant_system "\<lambda>i. ledger_step (ids i)" "\<lambda>ms L. ids_distinct ids \<and> ledger_ok ids ms L" for ids
  by unfold_locales
    (auto simp: ledger_ok_def simp del: fun_upd_apply intro: vouched_step tokens_step one_code_step recorded_step)

lemma ledger_invariant:
  assumes "joint (\<lambda>i. ledger_step (ids i)) ms L ns L'" "ledger_ok ids ms L" "ids_distinct ids"
  shows "ledger_ok ids ns L'"
  using book.run_keeps [OF assms(1)] assms(2,3) by blast

lemma ledger_starts:
  assumes "lg_grants L = []" "lg_waiting L = (\<lambda>_. None)"
  shows "ledger_ok ids (\<lambda>_. Outside) L"
  using assms by (simp add: ledger_ok_def vouched_def tokens_ok_def one_code_def recorded_ok_def)

lemma vouched_evidence: "vouched ids ms L \<Longrightarrow> evidence (ids i) L (ms i)"
  by (simp add: vouched_def)

text \<open>One invitation, one client.\<close>

lemma invitation_used_once:
  assumes "ledger_ok ids ms L" "ids_distinct ids"
  shows "ms i = ByTofu a \<Longrightarrow> ms j = ByTofu b \<Longrightarrow> i = j"
    and "ms i = ByCode a \<Longrightarrow> ms j = ByCode b \<Longrightarrow> i = j"
    and "ms i = ByWindow w a \<Longrightarrow> ms j = ByWindow w b \<Longrightarrow> i = j"
    and "ms i = Took r x y \<Longrightarrow> ms j = Took r u v \<Longrightarrow> i = j"
proof -
  have v: "evidence (ids k) L (ms k)" for k using assms(1) by (simp add: ledger_ok_def vouched_def)
  show "ms i = ByTofu a \<Longrightarrow> ms j = ByTofu b \<Longrightarrow> i = j"
    using v [of i] v [of j] assms(2) by (auto simp: ids_distinct_def)
  show "ms i = ByWindow w a \<Longrightarrow> ms j = ByWindow w b \<Longrightarrow> i = j"
    using v [of i] v [of j] assms(2) by (auto simp: ids_distinct_def)
  show "ms i = ByCode a \<Longrightarrow> ms j = ByCode b \<Longrightarrow> i = j"
    using assms(1) unfolding ledger_ok_def one_code_def by blast
  show "ms i = Took r x y \<Longrightarrow> ms j = Took r u v \<Longrightarrow> i = j"
    using assms(1) unfolding ledger_ok_def tokens_ok_def by blast
qed

lemma took_filed: "ledger_ok ids ms L \<Longrightarrow> ms i = Took r x y \<Longrightarrow> filed ids ms r x"
  unfolding ledger_ok_def tokens_ok_def by blast

lemma ok_evidence: "ledger_ok ids ms L \<Longrightarrow> evidence (ids i) L (ms i)"
  by (simp add: ledger_ok_def vouched_def)

lemma ok_inside: "ledger_ok ids ms L \<Longrightarrow> inside (ms i) \<Longrightarrow> ids i = Some k \<Longrightarrow> k \<in> set (lg_clients L)"
  unfolding ledger_ok_def vouched_def by fastforce

lemma told_inv:
  "told m k n = Some (PairTofuGranted c q) \<Longrightarrow> m = ByTofu True \<and> k = c"
  "told m k n = Some (PairCodeGranted c q) \<Longrightarrow> m = ByCode True \<and> k = c"
  "told m k n = Some (PairWindowUsed w c q) \<Longrightarrow> m = ByWindow w True \<and> k = c"
  by (auto simp: told_def split: standing.splits bool.splits)

lemma granted_once:
  assumes "ledger_ok ids ms L" "ids_distinct ids"
  shows "PairTofuGranted c n \<in> set (lg_grants L) \<Longrightarrow> PairTofuGranted d q \<in> set (lg_grants L) \<Longrightarrow> c = d"
    and "PairCodeGranted c n \<in> set (lg_grants L) \<Longrightarrow> PairCodeGranted d q \<in> set (lg_grants L) \<Longrightarrow> c = d"
    and "PairWindowUsed w c n \<in> set (lg_grants L) \<Longrightarrow> PairWindowUsed w d q \<in> set (lg_grants L) \<Longrightarrow> c = d"
proof -
  have who: "\<exists>i k n. ids i = Some k \<and> told (ms i) k n = Some e" if "e \<in> set (lg_grants L)" for e
    using assms(1) that unfolding ledger_ok_def recorded_ok_def by blast
  note once = invitation_used_once [OF assms]
  have same: "c = d" if "ids i = Some c" "ids j = Some d" "i = j" for i j using that by simp
  show "c = d" if g: "PairTofuGranted c n \<in> set (lg_grants L)" "PairTofuGranted d q \<in> set (lg_grants L)"
  proof -
    obtain i where i: "ids i = Some c" "ms i = ByTofu True" using who [OF g(1)] by (blast dest: told_inv(1))
    obtain j where j: "ids j = Some d" "ms j = ByTofu True" using who [OF g(2)] by (blast dest: told_inv(1))
    show ?thesis by (rule same [OF i(1) j(1) once(1) [OF i(2) j(2)]])
  qed
  show "c = d" if g: "PairCodeGranted c n \<in> set (lg_grants L)" "PairCodeGranted d q \<in> set (lg_grants L)"
  proof -
    obtain i where i: "ids i = Some c" "ms i = ByCode True" using who [OF g(1)] by (blast dest: told_inv(2))
    obtain j where j: "ids j = Some d" "ms j = ByCode True" using who [OF g(2)] by (blast dest: told_inv(2))
    show ?thesis by (rule same [OF i(1) j(1) once(2) [OF i(2) j(2)]])
  qed
  show "c = d" if g: "PairWindowUsed w c n \<in> set (lg_grants L)" "PairWindowUsed w d q \<in> set (lg_grants L)"
  proof -
    obtain i where i: "ids i = Some c" "ms i = ByWindow w True" using who [OF g(1)] by (blast dest: told_inv(3))
    obtain j where j: "ids j = Some d" "ms j = ByWindow w True" using who [OF g(2)] by (blast dest: told_inv(3))
    show ?thesis by (rule same [OF i(1) j(1) once(3) [OF i(2) j(2)]])
  qed
qed

end
