(* ===== verification/PairingRun.thy ===== *)
theory PairingRun
  imports Ledger PairingApi
begin

text \<open>
  The handlers run the ledger: what a hub's tables say of it, the schema's constraints, and for
  every transaction the step of the ledger it is.
\<close>

section \<open>The schema\<close>

definition clients_ok :: "client_row list \<Rightarrow> bool" where
  "clients_ok cs =
     (distinct (map cl_id cs) \<and> distinct (somes (map cl_hash cs))
      \<and> list_all (\<lambda>r. (cl_revoked_at r = None) \<noteq> (cl_hash r = None)) cs)"

definition windows_ok :: "window_row list \<Rightarrow> bool" where
  "windows_ok ws =
     (distinct (map wn_id ws)
      \<and> list_all (\<lambda>w. (wn_used_at w = None) = (wn_used_by w = None) \<and> wn_expires_at w > wn_opened_at w) ws)"

definition in_play :: "request_row \<Rightarrow> string option" where
  "in_play r = (if rq_state r = ReqPending then rq_pairing_code r else None)"

definition requests_ok :: "request_row list \<Rightarrow> bool" where
  "requests_ok rs =
     (distinct (map rq_id rs) \<and> distinct (somes (map in_play rs))
      \<and> list_all (\<lambda>r. rq_state r = ReqApproved \<longrightarrow> rq_client_pk r \<noteq> None \<and> rq_decided_at r \<noteq> None) rs)"

definition refs_ok :: "hub \<Rightarrow> bool" where
  "refs_ok s =
     (list_all (\<lambda>w. pred_option (\<lambda>c. c \<in> cl_id ` set (hb_clients s)) (wn_used_by w)) (hb_windows s)
      \<and> list_all (\<lambda>r. pred_option (\<lambda>c. c \<in> cl_id ` set (hb_clients s)) (rq_client_pk r)) (hb_requests s))"

definition hub_ok :: "hub \<Rightarrow> bool" where
  "hub_ok s =
     (clients_ok (hb_clients s) \<and> windows_ok (hb_windows s) \<and> requests_ok (hb_requests s) \<and> refs_ok s
      \<and> distinct (map fst (hb_pending_tokens s)))"

section \<open>The ledger in the tables\<close>

fun is_grant :: "trail_event \<Rightarrow> bool" where
  "is_grant (PairTofuGranted _ _) = True"
| "is_grant (PairCodeGranted _ _) = True"
| "is_grant (PairWindowUsed _ _ _) = True"
| "is_grant _ = False"

definition holder_of :: "window_row list \<Rightarrow> uuid \<Rightarrow> uuid option" where
  "holder_of ws w = Option.bind (find (\<lambda>r. wn_id r = w) ws) wn_used_by"

definition approved_in :: "request_row list \<Rightarrow> uuid \<Rightarrow> uuid option" where
  "approved_in rs k =
     Option.bind (find (\<lambda>r. rq_id r = k) rs) (\<lambda>r. if rq_state r = ReqApproved then rq_client_pk r else None)"

definition view :: "hub \<Rightarrow> ledger" where
  "view s =
     \<lparr>lg_clients = map cl_id (hb_clients s),
      lg_set_up = (case hb_identity s of None \<Rightarrow> False | Some r \<Rightarrow> hi_setup_completed_at r \<noteq> None),
      lg_holder = holder_of (hb_windows s),
      lg_approved = approved_in (hb_requests s),
      lg_grants = filter is_grant (hb_trail s),
      lg_waiting = map_of (hb_pending_tokens s)\<rparr>"

section \<open>Transactions that let nobody in\<close>

definition calm :: "'a txn \<Rightarrow> bool" where
  "calm g = (\<forall>s. hub_ok s \<longrightarrow> hub_ok (snd (g s)) \<and> settles (view s) (view (snd (g s))))"

lemma settles_refl [simp]: "settles L L"
  by (simp add: settles_def)

lemma calm_reader: "(\<And>s. snd (g s) = s) \<Longrightarrow> calm g"
  by (simp add: calm_def)

named_theorems calming "transactions that let nobody in"

lemma calm_readers [calming]:
  "calm cached_secret" "calm select_key" "calm wall_clock" "calm (client_is_active c)" "calm setup_state"
  "calm open_window" "calm total_clients_ever" "calm active_client_count" "calm (pairing_request_for_code code)"
  "calm (pairing_state r)" "calm (store_client_name c)" "calm list_clients"
  by (rule calm_reader; simp add: cached_secret_def select_key_def wall_clock_def client_is_active_def setup_state_def
      open_window_def total_clients_ever_def active_client_count_def pairing_request_for_code_def Let_def
      pairing_state_def store_client_name_def list_clients_def)+

lemma calm_memory [calming]:
  "calm (cache_secret k)" "calm (insert_key k)" "calm forget_memory" "calm (set_wall t)" "calm (pass_time dt)"
  by (auto simp: calm_def cache_secret_def insert_key_def forget_memory_def set_wall_def pass_time_def
      hub_ok_def refs_ok_def view_def settles_def)

lemma calm_setup [calming]: "calm (store_hub_id h)" "calm (set_setup_code_hash x)" "calm complete_setup"
  by (auto simp: calm_def store_hub_id_def set_setup_code_hash_def complete_setup_def hub_ok_def refs_ok_def
      view_def settles_def split: option.splits)

lemma calm_gate [calming]: "calm (setup_gate lib entry h)"
  by (auto simp: calm_def setup_gate_def hub_ok_def refs_ok_def view_def settles_def split: prod.splits option.splits)

text \<open>Changes of the rows of clients that keep their ids.\<close>

lemma calm_clients:
  assumes "\<And>r. cl_id (f r) = cl_id r" "\<And>r. cl_hash (f r) = cl_hash r \<or> cl_hash (f r) = None"
    and "\<And>r. (cl_revoked_at r = None) \<noteq> (cl_hash r = None) \<Longrightarrow> (cl_revoked_at (f r) = None) \<noteq> (cl_hash (f r) = None)"
    and "hub_ok s"
  shows "hub_ok (s\<lparr>hb_clients := map f (hb_clients s)\<rparr>) \<and> settles (view s) (view (s\<lparr>hb_clients := map f (hb_clients s)\<rparr>))"
proof -
  have ids: "map cl_id (map f cs) = map cl_id cs" "cl_id ` f ` set cs = cl_id ` set cs" for cs
    using assms(1) by (auto simp: image_image)
  have "distinct (somes (map (cl_hash \<circ> f) cs))" if "distinct (somes (map cl_hash cs))" for cs
    using distinct_somes_map [of cl_hash cs "cl_hash \<circ> f"] that assms(2) by auto
  then have "clients_ok (map f (hb_clients s))"
    using assms(3,4) ids by (auto simp: hub_ok_def clients_ok_def list_all_iff simp del: map_map)
      (simp add: map_map)
  then show ?thesis using assms(4) ids by (auto simp: hub_ok_def refs_ok_def view_def settles_def simp del: map_map)
qed

lemma calm_refresh [calming]: "calm (client_for_refresh_token lib tok)"
  unfolding calm_def
proof (intro allI impI)
  fix s
  assume ok: "hub_ok s"
  show "hub_ok (snd (client_for_refresh_token lib tok s)) \<and> settles (view s) (view (snd (client_for_refresh_token lib tok s)))"
    using ok calm_clients [OF _ _ _ ok, of "\<lambda>r. if cl_id r = c then r\<lparr>cl_last_seen_at := Some (hb_wall s)\<rparr> else r" for c]
    by (auto simp: client_for_refresh_token_def split: option.splits)
qed

lemma calm_revoke [calming]: "calm (store_revoke c)"
  unfolding calm_def
proof (intro allI impI)
  fix s
  assume ok: "hub_ok s"
  show "hub_ok (snd (store_revoke c s)) \<and> settles (view s) (view (snd (store_revoke c s)))"
    using calm_clients [OF _ _ _ ok, of "\<lambda>r. if cl_id r = c \<and> cl_revoked_at r = None
        then r\<lparr>cl_hash := None, cl_revoked_at := Some (hb_wall s)\<rparr> else r"]
    by (auto simp: store_revoke_def)
qed

text \<open>Changes of the windows and requests that leave what is spent and decided alone.\<close>

lemma holder_append: "holder_of (ws @ [w]) = holder_of ws" if "wn_id w \<notin> wn_id ` set ws" "wn_used_by w = None"
  using that find_key_out [of wn_id "wn_id w" ws] by (auto simp: holder_of_def find_append fun_eq_iff split: option.splits)

lemma holder_filter:
  assumes "windows_ok ws" "\<And>w. w \<in> set ws \<Longrightarrow> \<not> P w \<Longrightarrow> wn_used_by w = None"
  shows "holder_of (filter P ws) = holder_of ws"
proof
  fix k
  have "distinct (map wn_id ws)" using assms(1) by (simp add: windows_ok_def)
  note f = find_filter_key [OF this, of k P]
  show "holder_of (filter P ws) k = holder_of ws k"
  proof (cases "find (\<lambda>r. wn_id r = k) ws")
    case (Some w)
    then have "w \<in> set ws" using find_key_in by fast
    with assms(2) show ?thesis unfolding holder_of_def f by (simp add: Some)
  qed (simp add: holder_of_def f)
qed

lemma windows_ok_filter: "windows_ok ws \<Longrightarrow> windows_ok (filter P ws)"
  by (auto simp: windows_ok_def list_all_iff distinct_map_filter)

lemma approved_append: "approved_in (rs @ [r]) = approved_in rs" if "rq_id r \<notin> rq_id ` set rs" "rq_state r \<noteq> ReqApproved"
  using that find_key_out [of rq_id "rq_id r" rs] by (auto simp: approved_in_def find_append fun_eq_iff split: option.splits)

lemma approved_map:
  assumes "\<And>r. rq_id (f r) = rq_id r" "\<And>r. f r = r \<or> (rq_state r \<noteq> ReqApproved \<and> rq_state (f r) \<noteq> ReqApproved)"
  shows "approved_in (map f rs) = approved_in rs"
proof
  fix k
  note f = find_map_key [where key = rq_id and f = f, OF assms(1)]
  show "approved_in (map f rs) k = approved_in rs k"
  proof (cases "find (\<lambda>r. rq_id r = k) rs")
    case (Some r)
    with assms(2) [of r] show ?thesis unfolding approved_in_def f by auto
  qed (simp add: approved_in_def f)
qed

lemma approved_filter:
  assumes "distinct (map rq_id rs)" "\<And>r. r \<in> set rs \<Longrightarrow> \<not> P r \<Longrightarrow> rq_state r \<noteq> ReqApproved"
  shows "approved_in (filter P rs) = approved_in rs"
proof
  fix k
  note f = find_filter_key [OF assms(1), of k P]
  show "approved_in (filter P rs) k = approved_in rs k"
  proof (cases "find (\<lambda>r. rq_id r = k) rs")
    case (Some r)
    then have "r \<in> set rs" using find_key_in by fast
    with assms(2) show ?thesis unfolding approved_in_def f by (simp add: Some)
  qed (simp add: approved_in_def f)
qed

lemma requests_ok_filter: "requests_ok rs \<Longrightarrow> requests_ok (filter P rs)"
  by (auto simp: requests_ok_def list_all_iff distinct_map_filter distinct_somes_filter)

lemma requests_ok_map:
  assumes "\<And>r. rq_id (f r) = rq_id r" "\<And>r. in_play (f r) = in_play r \<or> in_play (f r) = None"
    and "\<And>r. (rq_state r = ReqApproved \<longrightarrow> rq_client_pk r \<noteq> None \<and> rq_decided_at r \<noteq> None) \<Longrightarrow>
      (rq_state (f r) = ReqApproved \<longrightarrow> rq_client_pk (f r) \<noteq> None \<and> rq_decided_at (f r) \<noteq> None)"
    and "requests_ok rs"
  shows "requests_ok (map f rs)"
proof -
  have "distinct (somes (map (in_play \<circ> f) rs))"
    using distinct_somes_map [of in_play rs "in_play \<circ> f"] assms(2,4) by (auto simp: requests_ok_def)
  moreover have "map (rq_id \<circ> f) rs = map rq_id rs" using assms(1) by auto
  then have "distinct (map (rq_id \<circ> f) rs)" using assms(4) by (simp only: requests_ok_def)
  moreover have "list_all (\<lambda>r. rq_state r = ReqApproved \<longrightarrow> rq_client_pk r \<noteq> None \<and> rq_decided_at r \<noteq> None) (map f rs)"
    using assms(3,4) by (simp add: requests_ok_def list_all_iff)
  ultimately show ?thesis by (simp add: requests_ok_def)
qed

text \<open>What changes the requests and windows, and nothing else.\<close>

lemma calm_rows:
  assumes "hub_ok s" "windows_ok ws" "requests_ok rs" "holder_of ws = holder_of (hb_windows s)"
    and "approved_in rs = approved_in (hb_requests s)"
    and "\<And>w c. w \<in> set ws \<Longrightarrow> wn_used_by w = Some c \<Longrightarrow> c \<in> cl_id ` set (hb_clients s)"
    and "\<And>r c. r \<in> set rs \<Longrightarrow> rq_client_pk r = Some c \<Longrightarrow> c \<in> cl_id ` set (hb_clients s)"
  shows "hub_ok (s\<lparr>hb_requests := rs, hb_windows := ws\<rparr>) \<and> settles (view s) (view (s\<lparr>hb_requests := rs, hb_windows := ws\<rparr>))"
  using assms(1-5) assms(6,7)
  by (auto simp: hub_ok_def refs_ok_def view_def settles_def list_all_iff pred_option_def)

lemma refs_window: "hub_ok s \<Longrightarrow> w \<in> set (hb_windows s) \<Longrightarrow> wn_used_by w = Some c \<Longrightarrow> c \<in> cl_id ` set (hb_clients s)"
  by (force simp: hub_ok_def refs_ok_def list_all_iff)

lemma refs_request: "hub_ok s \<Longrightarrow> r \<in> set (hb_requests s) \<Longrightarrow> rq_client_pk r = Some c \<Longrightarrow> c \<in> cl_id ` set (hb_clients s)"
  by (force simp: hub_ok_def refs_ok_def list_all_iff)

lemma calm_windows:
  assumes "hub_ok s" "windows_ok ws" "holder_of ws = holder_of (hb_windows s)"
    and "\<And>w c. w \<in> set ws \<Longrightarrow> wn_used_by w = Some c \<Longrightarrow> c \<in> cl_id ` set (hb_clients s)"
  shows "hub_ok (s\<lparr>hb_windows := ws\<rparr>) \<and> settles (view s) (view (s\<lparr>hb_windows := ws\<rparr>))"
proof -
  have "requests_ok (hb_requests s)" using assms(1) by (simp add: hub_ok_def)
  from calm_rows [OF assms(1,2) this assms(3) refl assms(4) refs_request [OF assms(1)]] show ?thesis by simp
qed

lemma calm_request_rows:
  assumes "hub_ok s" "requests_ok rs" "approved_in rs = approved_in (hb_requests s)"
    and "\<And>r c. r \<in> set rs \<Longrightarrow> rq_client_pk r = Some c \<Longrightarrow> c \<in> cl_id ` set (hb_clients s)"
  shows "hub_ok (s\<lparr>hb_requests := rs\<rparr>) \<and> settles (view s) (view (s\<lparr>hb_requests := rs\<rparr>))"
proof -
  have "windows_ok (hb_windows s)" using assms(1) by (simp add: hub_ok_def)
  from calm_rows [OF assms(1) this assms(2) refl assms(3) refs_window [OF assms(1)] assms(4)] show ?thesis by simp
qed

lemma calm_open_window [calming]: "calm (open_pairing_window w by' ttl)"
  unfolding calm_def
proof (intro allI impI)
  fix s
  assume ok: "hub_ok s"
  let ?w = "\<lparr>wn_id = w, wn_opened_at = hb_wall s, wn_expires_at = hb_wall s + ttl, wn_opened_by = by', wn_used_at = None,
    wn_used_by = None\<rparr>"
  have "hub_ok (s\<lparr>hb_windows := hb_windows s @ [?w]\<rparr>) \<and> settles (view s) (view (s\<lparr>hb_windows := hb_windows s @ [?w]\<rparr>))"
    if "0 < ttl" "w \<notin> wn_id ` set (hb_windows s)"
  proof (rule calm_windows [OF ok])
    show "windows_ok (hb_windows s @ [?w])" using that ok by (auto simp: hub_ok_def windows_ok_def)
    show "holder_of (hb_windows s @ [?w]) = holder_of (hb_windows s)" using that(2) by (intro holder_append) simp_all
  next
    fix v c assume "v \<in> set (hb_windows s @ [?w])" "wn_used_by v = Some c"
    then show "c \<in> cl_id ` set (hb_clients s)" using refs_window [OF ok, of v c] by auto
  qed
  then show "hub_ok (snd (open_pairing_window w by' ttl s)) \<and> settles (view s) (view (snd (open_pairing_window w by' ttl s)))"
    using ok by (auto simp: open_pairing_window_def Let_def list_ex_iff)
qed

lemma calm_insert_request [calming]: "calm (insert_request k drawn name)"
  unfolding calm_def
proof (intro allI impI)
  fix s
  assume ok: "hub_ok s"
  have step: "hub_ok (s\<lparr>hb_requests := hb_requests s @ [r]\<rparr>) \<and> settles (view s) (view (s\<lparr>hb_requests := hb_requests s @ [r]\<rparr>))"
    if "rq_id r \<notin> rq_id ` set (hb_requests s)" "rq_state r = ReqPending" "rq_pairing_code r = Some code"
      "\<not> code_in_play code s" "rq_client_pk r = None" for r code
  proof -
    have "Some code \<notin> in_play ` set (hb_requests s)"
      using that(4) by (auto simp: code_in_play_def list_ex_iff in_play_def split: if_splits)
    then have "requests_ok (hb_requests s @ [r])"
      using ok that by (auto simp: hub_ok_def requests_ok_def in_play_def [of r] in_somes)
    then show ?thesis
    proof (rule calm_request_rows [OF ok])
      show "approved_in (hb_requests s @ [r]) = approved_in (hb_requests s)" using that(1,2) by (intro approved_append) simp_all
    next
      fix q c assume "q \<in> set (hb_requests s @ [r])" "rq_client_pk q = Some c"
      then show "c \<in> cl_id ` set (hb_clients s)" using refs_request [OF ok, of q c] that(5) by auto
    qed
  qed
  show "hub_ok (snd (insert_request k drawn name s)) \<and> settles (view s) (view (snd (insert_request k drawn name s)))"
  proof (cases "find (\<lambda>code. \<not> code_in_play code s) (take CODE_CANDIDATES drawn)")
    case (Some code)
    then have free: "\<not> code_in_play code s" by (auto simp: find_Some_iff)
    show ?thesis
    proof (cases "list_ex (\<lambda>r. rq_id r = k) (hb_requests s)")
      case False
      then have "k \<notin> rq_id ` set (hb_requests s)" by (auto simp: list_ex_iff)
      then show ?thesis using Some False by (simp add: insert_request_def step [OF _ _ _ free])
    qed (use ok Some in \<open>simp add: insert_request_def\<close>)
  qed (use ok in \<open>simp add: insert_request_def\<close>)
qed

lemma calm_requests:
  assumes "hub_ok s" "\<And>r. rq_id (f r) = rq_id r" "\<And>r. in_play (f r) = in_play r \<or> in_play (f r) = None"
    and "\<And>r. f r = r \<or> (rq_state r \<noteq> ReqApproved \<and> rq_state (f r) \<noteq> ReqApproved)"
    and "\<And>r. rq_client_pk (f r) = rq_client_pk r"
  shows "hub_ok (s\<lparr>hb_requests := map f (hb_requests s)\<rparr>)
    \<and> settles (view s) (view (s\<lparr>hb_requests := map f (hb_requests s)\<rparr>))"
proof -
  have "requests_ok (map f (hb_requests s))"
  proof (rule requests_ok_map [OF assms(2,3)])
    fix r :: request_row
    assume "rq_state r = ReqApproved \<longrightarrow> rq_client_pk r \<noteq> None \<and> rq_decided_at r \<noteq> None"
    then show "rq_state (f r) = ReqApproved \<longrightarrow> rq_client_pk (f r) \<noteq> None \<and> rq_decided_at (f r) \<noteq> None"
      using assms(4) [of r] by auto
  qed (use assms(1) in \<open>simp add: hub_ok_def\<close>)
  then show ?thesis
  proof (rule calm_request_rows [OF assms(1)])
    show "approved_in (map f (hb_requests s)) = approved_in (hb_requests s)" by (rule approved_map [OF assms(2,4)])
  next
    fix q c assume "q \<in> set (map f (hb_requests s))" "rq_client_pk q = Some c"
    then show "c \<in> cl_id ` set (hb_clients s)" using refs_request [OF assms(1)] assms(5) by auto
  qed
qed

lemma calm_deny [calming]: "calm (deny_pairing k)"
  unfolding calm_def
proof (intro allI impI)
  fix s
  assume ok: "hub_ok s"
  show "hub_ok (snd (deny_pairing k s)) \<and> settles (view s) (view (snd (deny_pairing k s)))"
    unfolding deny_pairing_def snd_conv
    by (rule calm_requests [OF ok]) (auto simp: in_play_def decidable_now_def)
qed

lemma calm_sweep [calming]: "calm sweep_pairing"
  unfolding calm_def
proof (intro allI impI)
  fix s
  assume ok: "hub_ok s"
  let ?age = "\<lambda>r. if rq_state r = ReqPending \<and> rq_expires_at r \<le> hb_wall s then r\<lparr>rq_state := ReqExpired\<rparr> else r"
  let ?rs = "map ?age (hb_requests s)"
  let ?P = "\<lambda>r. \<not> (rq_state r \<in> {ReqExpired, ReqDenied} \<and> rq_expires_at r < hb_wall s - PAIRING_RETENTION_S)"
  let ?W = "\<lambda>w. \<not> (wn_used_at w = None \<and> wn_expires_at w < hb_wall s - PAIRING_RETENTION_S)"
  have ws: "windows_ok (hb_windows s)" using ok by (simp add: hub_ok_def)
  have aged: "requests_ok ?rs"
    by (rule requests_ok_map) (use ok in \<open>auto simp: in_play_def hub_ok_def\<close>)
  have same: "approved_in ?rs = approved_in (hb_requests s)"
    by (rule approved_map) auto
  have "approved_in (filter ?P ?rs) = approved_in ?rs"
    by (rule approved_filter) (use aged in \<open>auto simp: requests_ok_def\<close>)
  moreover have "holder_of (filter ?W (hb_windows s)) = holder_of (hb_windows s)"
    by (rule holder_filter [OF ws]) (use ws in \<open>auto simp: windows_ok_def list_all_iff\<close>)
  moreover have "snd (sweep_pairing s) = s\<lparr>hb_requests := filter ?P ?rs, hb_windows := filter ?W (hb_windows s)\<rparr>"
    by (simp add: sweep_pairing_def Let_def)
  ultimately show "hub_ok (snd (sweep_pairing s)) \<and> settles (view s) (view (snd (sweep_pairing s)))"
    using ok aged same windows_ok_filter [OF ws] requests_ok_filter [OF aged]
    by (simp only:, intro calm_rows) (auto split: if_splits dest: refs_window [OF ok] refs_request [OF ok])
qed

section \<open>Every transaction is a step of the ledger\<close>

definition hub_step :: "uuid option \<Rightarrow> standing \<Rightarrow> hub \<Rightarrow> hub \<Rightarrow> standing \<Rightarrow> bool" where
  "hub_step c m s t m' = ledger_step c m (view s) (view t) m'"

lemma hub_stay: "hub_step c m s s m"
  by (simp add: hub_step_def ledger_step.quiet)

abbreviation plays ::
    "uuid option \<Rightarrow> (standing \<Rightarrow> (fault + 'a) \<Rightarrow> bool) \<Rightarrow> 'a handler \<Rightarrow> standing \<Rightarrow> bool" where
  "plays c \<equiv> follows hub_ok (hub_step c)"

lemma plays_calm:
  assumes "calm g" "\<And>e. Q m (Inl e)" "\<And>x. plays c Q (k x) m"
  shows "plays c Q (attempt (atomic g) k) m"
proof (rule follows_step)
  fix s
  assume "hub_ok s"
  then have "hub_ok (snd (g s))" "hub_step c m s (snd (g s)) m"
    using assms(1) by (auto simp: calm_def hub_step_def intro: ledger_step.quiet)
  then show "hub_ok (snd (g s)) \<and> (\<exists>m'. hub_step c m s (snd (g s)) m' \<and>
      (case fst (g s) of Inl e \<Rightarrow> Q m' (Inl e) | Inr x \<Rightarrow> plays c Q (k x) m'))"
    using assms(2,3) by (auto split: sum.splits)
qed

lemma plays_calm_last:
  assumes "calm g" "\<And>s. Q m (fst (g s))"
  shows "plays c Q (atomic g) m"
  by (rule follows_atomic) (use assms in \<open>auto simp: calm_def hub_step_def intro: ledger_step.quiet\<close>)

lemma calm_tell: "\<not> is_grant e \<Longrightarrow> calm (\<lambda>s. (Inr (), s\<lparr>hb_trail := hb_trail s @ [e]\<rparr>))"
  by (auto simp: calm_def hub_ok_def refs_ok_def view_def settles_def)

lemma plays_sink:
  assumes "\<not> is_grant e" "\<And>e. Q m (Inl e)" "\<And>x. plays c Q (k x) m"
  shows "plays c Q (attempt (sink e) k) m"
  unfolding sink_def by (rule plays_calm [OF calm_tell]) (use assms in auto)

text \<open>A step that changes the ledger, given by what it does to the state.\<close>

lemma plays_step:
  assumes "\<And>s e. hub_ok s \<Longrightarrow> g s = (Inl e, s) \<Longrightarrow> Q m (Inl e)"
    and "\<And>s x t. hub_ok s \<Longrightarrow> g s = (Inr x, t) \<Longrightarrow> hub_ok t \<and> (\<exists>m'. hub_step c m s t m' \<and> plays c Q (k x) m')"
    and "\<And>s e t. g s = (Inl e, t) \<Longrightarrow> t = s"
  shows "plays c Q (attempt (atomic g) k) m"
proof (rule follows_step)
  fix s
  assume ok: "hub_ok s"
  obtain r t where g: "g s = (r, t)" by fastforce
  show "hub_ok (snd (g s)) \<and> (\<exists>m'. hub_step c m s (snd (g s)) m' \<and>
      (case fst (g s) of Inl e \<Rightarrow> Q m' (Inl e) | Inr x \<Rightarrow> plays c Q (k x) m'))"
  proof (cases r)
    case (Inl e)
    with g assms(3) have "g s = (Inl e, s)" by auto
    moreover from this have "Q m (Inl e)" by (rule assms(1) [OF ok])
    moreover have "hub_step c m s s m" by (simp add: hub_step_def ledger_step.quiet)
    ultimately show ?thesis using ok by auto
  next
    case (Inr x)
    with g assms(2) [OF ok] show ?thesis by auto
  qed
qed

lemma view_clients: "view (s\<lparr>hb_clients := cs\<rparr>) = view s\<lparr>lg_clients := map cl_id cs\<rparr>"
  by (simp add: view_def)

lemma create_client_cases:
  assumes "hub_ok s" "create_client lib c tok name s = (r, t)"
  obtains e where "r = Inl e" "t = s"
  | row where "r = Inr (c, tok)" "t = s\<lparr>hb_clients := hb_clients s @ [row]\<rparr>" "cl_id row = c" "hub_ok t"
      "c \<notin> set (lg_clients (view s))" "view t = view s\<lparr>lg_clients := lg_clients (view s) @ [c]\<rparr>"
proof -
  let ?h = "hash_refresh_token (cr_sha256 lib) tok"
  let ?row = "\<lparr>cl_id = c, cl_name = name, cl_hash = Some ?h, cl_created_at = hb_wall s, cl_last_seen_at = None, cl_revoked_at = None\<rparr>"
  show ?thesis
  proof (cases "name_blank name \<or> list_ex (\<lambda>r. cl_id r = c \<or> cl_hash r = Some ?h) (hb_clients s)")
    case True
    with assms(2) that(1) show ?thesis by (auto simp: create_client_def Let_def)
  next
    case False
    then have t: "r = Inr (c, tok)" "t = s\<lparr>hb_clients := hb_clients s @ [?row]\<rparr>"
      using assms(2) by (auto simp: create_client_def Let_def)
    have new: "c \<notin> cl_id ` set (hb_clients s)" "Some ?h \<notin> cl_hash ` set (hb_clients s)"
      using False by (auto simp: list_ex_iff)
    have "clients_ok (hb_clients s @ [?row])"
      using assms(1) new by (auto simp: hub_ok_def clients_ok_def in_somes)
    moreover have "refs_ok t" using assms(1) t(2) by (fastforce simp: hub_ok_def refs_ok_def list_all_iff pred_option_def)
    ultimately have "hub_ok t" using assms(1) t(2) by (simp add: hub_ok_def)
    moreover have "c \<notin> set (lg_clients (view s))" using new(1) by (simp add: view_def)
    moreover have "view t = view s\<lparr>lg_clients := lg_clients (view s) @ [c]\<rparr>" using t(2) by (simp add: view_def)
    ultimately show ?thesis using that(2) [of ?row] t by simp
  qed
qed

lemma plays_create:
  assumes "\<And>e. Q Outside (Inl e)" "plays (Some c) Q (k (c, tok)) Minted"
  shows "plays (Some c) Q (attempt (atomic (create_client lib c tok name)) k) Outside"
proof (rule plays_step)
  fix s x t
  assume "hub_ok s" "create_client lib c tok name s = (Inr x, t)"
  then show "hub_ok t \<and> (\<exists>m'. hub_step (Some c) Outside s t m' \<and> plays (Some c) Q (k x) m')"
    by (cases rule: create_client_cases) (use assms(2) in \<open>auto simp: hub_step_def intro: ledger_step.enter\<close>)
qed (use assms(1) in \<open>auto simp: create_client_def Let_def split: if_splits\<close>)

lemma plays_first:
  assumes "\<And>e. Q Outside (Inl e)" "plays (Some c) Q (k None) Outside" "plays (Some c) Q (k (Some (c, tok))) (ByTofu False)"
  shows "plays (Some c) Q (attempt (atomic (create_first_client lib c tok name)) k) Outside"
proof (rule plays_step)
  fix s x t
  assume ok: "hub_ok s" and g: "create_first_client lib c tok name s = (Inr x, t)"
  show "hub_ok t \<and> (\<exists>m'. hub_step (Some c) Outside s t m' \<and> plays (Some c) Q (k x) m')"
  proof (cases "hb_clients s = []")
    case False
    with g have "x = None" "t = s" by (simp_all add: create_first_client_def)
    with ok assms(2) hub_stay show ?thesis by blast
  next
    case True
    obtain r u where c: "create_client lib c tok name s = (r, u)" by fastforce
    from ok c show ?thesis
    proof (cases rule: create_client_cases)
      case (1 e)
      with g c True show ?thesis by (simp add: create_first_client_def)
    next
      case (2 row)
      have x: "x = Some (c, tok)" "t = u" using g c 2 True by (simp_all add: create_first_client_def)
      have "lg_clients (view s) = []" using True by (simp add: view_def)
      with 2 x have "hub_step (Some c) Outside s t (ByTofu False)"
        by (auto simp: hub_step_def intro!: ledger_step.enter_first)
      with assms(3) 2 x show ?thesis by auto
    qed
  qed
qed (use assms(1) in \<open>auto simp: create_first_client_def create_client_def Let_def apfst_def split: if_splits\<close>)

lemma view_setup:
  "complete_setup s = (Inr b, t) \<Longrightarrow> b \<longleftrightarrow> hb_identity s \<noteq> None \<and> \<not> lg_set_up (view s)"
  "complete_setup s = (Inr True, t) \<Longrightarrow> view t = view s\<lparr>lg_set_up := True\<rparr>"
  "complete_setup s = (Inr False, t) \<Longrightarrow> t = s"
  by (auto simp: complete_setup_def view_def split: option.splits if_splits)

lemma complete_setup_ok: "hub_ok s \<Longrightarrow> complete_setup s = (r, t) \<Longrightarrow> hub_ok t"
  using calm_setup(3) unfolding calm_def by (metis snd_conv)

lemma plays_latch:
  assumes "plays (Some c) Q (k True) (ByCode False)" "plays (Some c) Q (k False) Minted"
  shows "plays (Some c) Q (attempt (atomic complete_setup) k) Minted"
proof (rule plays_step)
  fix s x t
  assume ok: "hub_ok s" and g: "complete_setup s = (Inr x, t)"
  show "hub_ok t \<and> (\<exists>m'. hub_step (Some c) Minted s t m' \<and> plays (Some c) Q (k x) m')"
  proof (cases x)
    case True
    with g view_setup(1) [OF g] view_setup(2) [of s t] have "hub_step (Some c) Minted s t (ByCode False)"
      by (auto simp: hub_step_def intro!: ledger_step.latch)
    with assms(1) True complete_setup_ok [OF ok g] show ?thesis by auto
  next
    case False
    with g view_setup(3) have "t = s" by auto
    moreover have "plays (Some c) Q (k x) Minted" using assms(2) False by simp
    ultimately show ?thesis using ok hub_stay by blast
  qed
qed (auto simp: complete_setup_def split: option.splits if_splits)

lemma discard_ok:
  assumes "hub_ok s" "discard_client c s = (Inr x, t)"
  shows "hub_ok t \<and> hub_step (Some c) Minted s t Outside"
proof -
  have t: "t = s\<lparr>hb_clients := filter (\<lambda>r. cl_id r \<noteq> c) (hb_clients s)\<rparr>"
    and free: "c \<notin> cl_id ` set (hb_clients s) \<or> \<not> client_referenced c s"
    using assms(2) by (auto simp: discard_client_def list_ex_iff split: if_splits)
  have "wn_used_by w \<noteq> Some c" if "w \<in> set (hb_windows s)" for w
    using free that refs_window [OF assms(1) that, of c] by (auto simp: client_referenced_def list_ex_iff)
  moreover have "rq_client_pk r \<noteq> Some c" if "r \<in> set (hb_requests s)" for r
    using free that refs_request [OF assms(1) that, of c] by (auto simp: client_referenced_def list_ex_iff)
  ultimately have "refs_ok t"
    using assms(1) unfolding t by (fastforce simp: hub_ok_def refs_ok_def list_all_iff pred_option_def)
  moreover have "clients_ok (hb_clients t)"
    using assms(1) unfolding t by (auto simp: hub_ok_def clients_ok_def distinct_map_filter distinct_somes_filter list_all_iff)
  ultimately have "hub_ok t" using assms(1) unfolding t by (simp add: hub_ok_def)
  moreover have "view t = view s\<lparr>lg_clients := filter (\<lambda>x. x \<noteq> c) (lg_clients (view s))\<rparr>"
    unfolding t by (simp add: view_def filter_map o_def)
  ultimately show ?thesis by (auto simp: hub_step_def intro!: ledger_step.leave)
qed

lemma plays_discard:
  assumes "\<And>e. Q Minted (Inl e)" "plays (Some c) Q (k ()) Outside"
  shows "plays (Some c) Q (attempt (atomic (discard_client c)) k) Minted"
proof (rule plays_step)
  fix s x t
  assume "hub_ok s" "discard_client c s = (Inr x, t)"
  from discard_ok [OF this] assms(2) show "hub_ok t \<and> (\<exists>m'. hub_step (Some c) Minted s t m' \<and> plays (Some c) Q (k x) m')"
    by (cases x) auto
qed (use assms(1) in \<open>auto simp: discard_client_def split: if_splits\<close>)

lemma spend_ok:
  assumes "hub_ok s" "consume_window w c s = (Inr True, t)"
  shows "hub_ok t \<and> hub_step (Some c) Minted s t (ByWindow w False)"
proof -
  let ?now = "hb_wall s"
  let ?f = "\<lambda>r. if spendable w ?now r then r\<lparr>wn_used_at := Some ?now, wn_used_by := Some c\<rparr> else r"
  have t: "t = s\<lparr>hb_windows := map ?f (hb_windows s)\<rparr>" and live: "list_ex (spendable w ?now) (hb_windows s)"
    and fk: "find_client c s \<noteq> None"
    using assms(2) by (auto simp: consume_window_def split: if_splits)
  have ws: "windows_ok (hb_windows s)" using assms(1) by (simp add: hub_ok_def)
  obtain v where v: "v \<in> set (hb_windows s)" "spendable w ?now v" using live by (auto simp: list_ex_iff)
  then have at_w: "find (\<lambda>r. wn_id r = w) (hb_windows s) = Some v" "wn_used_by v = None"
    using ws find_key_mem [of wn_id "hb_windows s" v] by (auto simp: windows_ok_def spendable_def list_all_iff)
  have ids: "map wn_id (map ?f (hb_windows s)) = map wn_id (hb_windows s)" by (auto simp: comp_def)
  have "windows_ok (map ?f (hb_windows s))"
    using ws unfolding windows_ok_def ids by (auto simp: list_all_iff)
  moreover have "c \<in> cl_id ` set (hb_clients s)"
    using fk find_key_out [of cl_id c "hb_clients s"] by (auto simp: find_client_def)
  then have "refs_ok t" using assms(1) unfolding t by (auto simp: hub_ok_def refs_ok_def list_all_iff)
  ultimately have "hub_ok t" using assms(1) unfolding t by (simp add: hub_ok_def)
  moreover have "holder_of (map ?f (hb_windows s)) = (holder_of (hb_windows s))(w := Some c)"
  proof
    fix k
    have f: "find (\<lambda>r. wn_id r = k) (map ?f (hb_windows s)) = map_option ?f (find (\<lambda>r. wn_id r = k) (hb_windows s))"
      by (rule find_map_key) simp
    show "holder_of (map ?f (hb_windows s)) k = ((holder_of (hb_windows s))(w := Some c)) k"
    proof (cases "k = w")
      case True
      then show ?thesis unfolding holder_of_def f using at_w(1) v(2) by simp
    next
      case False
      show ?thesis
      proof (cases "find (\<lambda>r. wn_id r = k) (hb_windows s)")
        case (Some r)
        then have "wn_id r = k" using find_key_in by fast
        with False have "\<not> spendable w ?now r" by (simp add: spendable_def)
        with False show ?thesis unfolding holder_of_def f by (simp add: Some)
      next
        case None
        show ?thesis unfolding holder_of_def f using False by (simp add: None)
      qed
    qed
  qed
  then have "view t = view s\<lparr>lg_holder := (lg_holder (view s))(w := Some c)\<rparr>" unfolding t by (simp add: view_def)
  moreover have "lg_holder (view s) w = None" using at_w by (simp add: view_def holder_of_def)
  ultimately show ?thesis by (auto simp: hub_step_def intro!: ledger_step.spend)
qed

lemma plays_spend:
  assumes "\<And>e. Q Minted (Inl e)" "plays (Some c) Q (k True) (ByWindow w False)" "plays (Some c) Q (k False) Minted"
  shows "plays (Some c) Q (attempt (atomic (consume_window w c)) k) Minted"
proof (rule plays_step)
  fix s x t
  assume ok: "hub_ok s" and g: "consume_window w c s = (Inr x, t)"
  show "hub_ok t \<and> (\<exists>m'. hub_step (Some c) Minted s t m' \<and> plays (Some c) Q (k x) m')"
  proof (cases x)
    case True
    with spend_ok [OF ok] g assms(2) show ?thesis by auto
  next
    case False
    with g have "t = s" by (auto simp: consume_window_def split: if_splits)
    moreover have "plays (Some c) Q (k x) Minted" using assms(3) False by simp
    ultimately show ?thesis using ok hub_stay by blast
  qed
qed (use assms(1) in \<open>auto simp: consume_window_def split: if_splits\<close>)

lemma approve_ok:
  assumes "hub_ok s" "list_ex (decidable_now k) (hb_requests s)" "find_client c s \<noteq> None"
    and "f = (\<lambda>r. if decidable_now k r then r\<lparr>rq_state := ReqApproved, rq_client_pk := Some c, rq_decided_at := Some (hb_wall s)\<rparr> else r)"
    and "t = s\<lparr>hb_requests := map f (hb_requests s)\<rparr>"
  shows "hub_ok t \<and> hub_step (Some c) Minted s t (ByRequest k)"
proof -
  have rs: "requests_ok (hb_requests s)" using assms(1) by (simp add: hub_ok_def)
  obtain v where v: "v \<in> set (hb_requests s)" "decidable_now k v" using assms(2) by (auto simp: list_ex_iff)
  then have at_k: "find (\<lambda>r. rq_id r = k) (hb_requests s) = Some v" "rq_state v = ReqPending"
    using rs find_key_mem [of rq_id "hb_requests s" v] by (auto simp: requests_ok_def decidable_now_def)
  have "requests_ok (map f (hb_requests s))"
    by (rule requests_ok_map) (use rs in \<open>auto simp: assms(4) in_play_def\<close>)
  moreover have "c \<in> cl_id ` set (hb_clients s)"
    using assms(3) find_key_out [of cl_id c "hb_clients s"] by (auto simp: find_client_def)
  then have "refs_ok t" using assms(1) unfolding assms(4,5) by (auto simp: hub_ok_def refs_ok_def list_all_iff)
  ultimately have "hub_ok t" using assms(1) unfolding assms(5) by (simp add: hub_ok_def)
  moreover have "approved_in (map f (hb_requests s)) = (approved_in (hb_requests s))(k := Some c)"
  proof
    fix j
    have g: "find (\<lambda>r. rq_id r = j) (map f (hb_requests s)) = map_option f (find (\<lambda>r. rq_id r = j) (hb_requests s))"
      by (rule find_map_key) (simp add: assms(4))
    show "approved_in (map f (hb_requests s)) j = ((approved_in (hb_requests s))(k := Some c)) j"
    proof (cases "j = k")
      case True
      then show ?thesis unfolding approved_in_def g using at_k(1) v(2) by (simp add: assms(4))
    next
      case False
      show ?thesis
      proof (cases "find (\<lambda>r. rq_id r = j) (hb_requests s)")
        case (Some r)
        then have "rq_id r = j" using find_key_in by fast
        with False have "f r = r" by (simp add: decidable_now_def assms(4))
        with False show ?thesis unfolding approved_in_def g by (simp add: Some)
      next
        case None
        show ?thesis unfolding approved_in_def g using False by (simp add: None)
      qed
    qed
  qed
  then have "view t = view s\<lparr>lg_approved := (lg_approved (view s))(k := Some c)\<rparr>" unfolding assms(5) by (simp add: view_def)
  moreover have "lg_approved (view s) k = None" using at_k by (simp add: view_def approved_in_def)
  ultimately show ?thesis by (auto simp: hub_step_def intro!: ledger_step.approve)
qed

lemma plays_decide:
  assumes "\<And>e. Q Minted (Inl e)" "\<And>e. Q Outside (Inl e)" "plays (Some c) Q (k (Some (c, tok))) (ByRequest r)"
    and "plays (Some c) Q (k None) Outside"
  shows "plays (Some c) Q (attempt (atomic (decide_approval r c tok)) k) Minted"
proof (rule plays_step)
  fix s x t
  assume ok: "hub_ok s" and g: "decide_approval r c tok s = (Inr x, t)"
  show "hub_ok t \<and> (\<exists>m'. hub_step (Some c) Minted s t m' \<and> plays (Some c) Q (k x) m')"
  proof (cases "list_ex (decidable_now r) (hb_requests s)")
    case True
    with g have fk: "find_client c s \<noteq> None" by (auto simp: decide_approval_def split: if_splits)
    from approve_ok [OF ok True fk refl refl] g True fk assms(3) show ?thesis by (auto simp: decide_approval_def)
  next
    case False
    obtain q u where d: "discard_client c s = (q, u)" by fastforce
    with g False obtain y where "q = Inr y" "x = None" "t = u" by (cases q) (auto simp: decide_approval_def)
    with discard_ok [OF ok] d assms(4) show ?thesis by blast
  qed
qed (use assms(1) in \<open>auto simp: decide_approval_def discard_client_def apfst_def split: if_splits\<close>)

lemma plays_put:
  assumes "plays (Some c) Q (k ()) (Filed r)"
  shows "plays (Some c) Q (attempt (atomic (pending_put r c tok)) k) (ByRequest r)"
proof (rule plays_step)
  fix s x t
  assume ok: "hub_ok s" and g: "pending_put r c tok s = (Inr x, t)"
  then have t: "t = s\<lparr>hb_pending_tokens := alist_put r (c, tok) (hb_pending_tokens s)\<rparr>" by (simp add: pending_put_def)
  then have "hub_ok t" using ok by (auto simp: hub_ok_def refs_ok_def distinct_alist_put)
  moreover have "view t = view s\<lparr>lg_waiting := (lg_waiting (view s))(r := Some (c, tok))\<rparr>"
    unfolding t by (simp add: view_def map_of_alist_put fun_eq_iff)
  ultimately show "hub_ok t \<and> (\<exists>m'. hub_step (Some c) (ByRequest r) s t m' \<and> plays (Some c) Q (k x) m')"
    using assms by (cases x) (auto simp: hub_step_def intro!: exI [of _ "Filed r"] ledger_step.deposit)
qed (auto simp: pending_put_def)

lemma plays_take:
  assumes "plays c Q (k None) Outside" "\<And>x tok. plays c Q (k (Some (x, tok))) (Took r x tok)"
  shows "plays c Q (attempt (atomic (pending_take r)) k) Outside"
proof (rule plays_step)
  fix s y t
  assume ok: "hub_ok s" and g: "pending_take r s = (Inr y, t)"
  then have t: "t = s\<lparr>hb_pending_tokens := alist_pop r (hb_pending_tokens s)\<rparr>" "y = map_of (hb_pending_tokens s) r"
    by (simp_all add: pending_take_def)
  then have "hub_ok t" using ok by (auto simp: hub_ok_def refs_ok_def distinct_alist_pop)
  moreover have v: "view t = view s\<lparr>lg_waiting := (lg_waiting (view s))(r := None)\<rparr>"
    unfolding t by (simp add: view_def map_of_alist_pop fun_eq_iff)
  moreover have "lg_waiting (view s) r = y" using t(2) by (simp add: view_def)
  ultimately show "hub_ok t \<and> (\<exists>m'. hub_step c Outside s t m' \<and> plays c Q (k y) m')"
  proof (cases y)
    case None
    then have "hub_step c Outside s t Outside"
      using v \<open>lg_waiting (view s) r = y\<close> by (auto simp: hub_step_def settles_def map_le_def intro!: ledger_step.quiet)
    with \<open>hub_ok t\<close> assms(1) None show ?thesis by auto
  next
    case (Some p)
    obtain x tok where p: "p = (x, tok)" by fastforce
    have "hub_step c Outside s t (Took r x tok)"
      unfolding hub_step_def by (rule ledger_step.take) (use v \<open>lg_waiting (view s) r = y\<close> Some p in simp_all)
    with \<open>hub_ok t\<close> assms(2) Some p show ?thesis by auto
  qed
qed (auto simp: pending_take_def)

text \<open>Recording a grant.\<close>

lemma plays_tell:
  assumes "\<And>L. ledger_step c m L (L\<lparr>lg_grants := lg_grants L @ [e]\<rparr>) m'" "is_grant e" "plays c Q (k ()) m'"
  shows "plays c Q (attempt (sink e) k) m"
  unfolding sink_def
proof (rule plays_step)
  fix s x t
  assume ok: "hub_ok s" and g: "(Inr (), s\<lparr>hb_trail := hb_trail s @ [e]\<rparr>) = (Inr x, t)"
  then have t: "t = s\<lparr>hb_trail := hb_trail s @ [e]\<rparr>" by simp
  then have "hub_ok t" using ok by (simp add: hub_ok_def refs_ok_def)
  moreover have "view t = view s\<lparr>lg_grants := lg_grants (view s) @ [e]\<rparr>" unfolding t using assms(2) by (simp add: view_def)
  then have "hub_step c m s t m'" using assms(1) [of "view s"] by (simp add: hub_step_def)
  ultimately show "hub_ok t \<and> (\<exists>m'. hub_step c m s t m' \<and> plays c Q (k x) m')" using assms(3) by (cases x) auto
qed simp_all

lemmas plays_told =
  plays_tell [OF ledger_step.tell_tofu [OF refl refl]]
  plays_tell [OF ledger_step.tell_code [OF refl refl]]
  plays_tell [OF ledger_step.tell_window [OF refl refl]]

section \<open>The handlers\<close>

text \<open>Parts of handlers that let nobody in.\<close>

abbreviation idle :: "uuid option \<Rightarrow> standing \<Rightarrow> 'a handler \<Rightarrow> bool" where
  "idle c m p \<equiv> plays c (\<lambda>m' r. m' = m) p m"

lemma plays_idle:
  assumes "\<And>m. idle c m p" "\<And>e. Q m (Inl e)" "\<And>x. plays c Q (k x) m"
  shows "plays c Q (attempt p k) m"
  by (rule follows_idle [OF assms(1)]) (rule assms(2,3))+

lemma plays_raise [simp]: "plays c Q (raise n) m = Q m (Inl (Http n))"
  by (simp add: raise_def)

lemma idle_secret: "idle c m (signing_secret fresh)"
  unfolding signing_secret_def
  by (auto intro!: plays_calm plays_calm_last calming split: option.splits)

lemma idle_client: "idle c m (current_client lib fresh h)"
  unfolding current_client_def
  by (auto intro!: plays_idle [OF idle_secret] plays_calm calming split: option.splits sum.splits)

lemma idle_open_request: "idle c m (open_pairing_request r codes name)"
  unfolding open_pairing_request_def by (intro plays_calm plays_calm_last calming) simp_all

text \<open>What a call may answer, given what it has achieved.\<close>

definition earned :: "call \<Rightarrow> standing \<Rightarrow> fault + answer \<Rightarrow> bool" where
  "earned call m r =
     (case r of
        Inr (PairGranted tok c) \<Rightarrow>
          (case call of
             PostPair d _ _ \<Rightarrow> c = dr_client d \<and> (m = ByTofu True \<or> m = ByCode True \<or> (\<exists>w. m = ByWindow w True))
           | GetPair k \<Rightarrow> m = Took k c tok
           | _ \<Rightarrow> False)
      | _ \<Rightarrow> True)"

definition ungranted :: "fault + answer \<Rightarrow> bool" where
  "ungranted r = (case r of Inr (PairGranted _ _) \<Rightarrow> False | _ \<Rightarrow> True)"

lemma earned_ungranted [simp]: "ungranted r \<Longrightarrow> earned call m r"
  by (auto simp: ungranted_def earned_def split: sum.splits answer.splits)

lemma earned_granted [simp]:
  "earned (PostPair d n x) m (Inr (PairGranted tok c)) =
     (c = dr_client d \<and> (m = ByTofu True \<or> m = ByCode True \<or> (\<exists>w. m = ByWindow w True)))"
  "earned (GetPair k) m (Inr (PairGranted tok c)) = (m = Took k c tok)"
  by (simp_all add: earned_def)

lemma ungranted_simps [simp]:
  "ungranted (Inl e)" "ungranted (Inr (PairPending r x))" "ungranted (Inr StillPending)" "ungranted (Inr (PairClaimed r))"
  "ungranted (Inr Decided)" "ungranted (Inr (AccessToken x n))" "ungranted (Inr Revoked)" "ungranted (Inr (NotRevoked x))"
  "ungranted (Inr (Window w t))" "ungranted (Inr (SetupCode q))" "ungranted (Inr Nothing)"
  by (simp_all add: ungranted_def)

lemma follows_pair_with_code:
  "plays (Some (dr_client d)) (earned (PostPair d n' c')) (pair_with_code lib d name entry h in_setup) Outside"
  unfolding pair_with_code_def
  by (auto intro!: plays_calm calming plays_sink plays_create plays_latch plays_discard plays_told(2))

lemma follows_pair_by_window:
  "plays (Some (dr_client d)) (earned (PostPair d n' c')) (pair_by_window lib d name w) Outside"
  unfolding pair_by_window_def
  by (auto intro!: plays_create plays_spend plays_discard) (auto intro!: plays_calm calming plays_told(3))

lemma follows_pair_first:
  "plays (Some (dr_client d)) (earned (PostPair d n' c')) (pair_first lib d name) Outside"
  unfolding pair_first_def
  by (rule plays_first) (auto intro!: plays_told(1) plays_calm calming)

lemma follows_ask:
  "plays c (earned (PostPair d n' c')) (ask_for_approval d' name) Outside"
  unfolding ask_for_approval_def
  by (auto intro!: plays_calm calming plays_sink plays_idle [OF idle_open_request])

lemma follows_pair: "plays (Some (dr_client d)) (earned (PostPair d name code)) (pair_client lib d name code) Outside"
  unfolding pair_client_def
  by (auto intro!: plays_calm calming follows_pair_with_code follows_pair_by_window follows_pair_first follows_ask
      simp: Let_def split: option.splits)

lemma follows_poll: "plays c (earned (GetPair r)) (poll_pair r) Outside"
  unfolding poll_pair_def
  by (auto intro!: plays_calm calming plays_take plays_sink split: option.splits request_state.splits)

lemma plays_approve_request:
  assumes "\<And>m e. Q m (Inl e)" "\<And>m x. plays (Some (dr_client d)) Q (k x) m"
  shows "plays (Some (dr_client d)) Q (attempt (approve_request lib d r approver) k) Outside"
proof -
  have put: "plays (Some (dr_client d)) Q (attempt (atomic (pending_put r (dr_client d) (dr_token d))) (\<lambda>_.
      attempt (atomic complete_setup) (\<lambda>_. attempt (sink (PairApproved r (dr_client d) approver)) k))) (ByRequest r)"
    by (rule plays_put, rule plays_calm [OF calm_setup(3)], rule assms(1), rule plays_sink) (simp_all add: assms)
  have decide: "plays (Some (dr_client d)) Q (attempt (atomic (create_client lib (dr_client d) (dr_token d) name)) (\<lambda>x.
      attempt (case x of (client_id, tok) \<Rightarrow> atomic (decide_approval r client_id tok)) k')) Outside"
    if "plays (Some (dr_client d)) Q (k' None) Outside"
      "plays (Some (dr_client d)) Q (k' (Some (dr_client d, dr_token d))) (ByRequest r)" for name k'
    by (rule plays_create, rule assms(1), unfold prod.case, rule plays_decide) (simp_all add: assms(1) that)
  show ?thesis
    unfolding approve_request_def approve_pairing_def attempt_assoc
    by (rule plays_calm [OF calm_readers(10)], rule assms(1))
      (auto simp: attempt_assoc assms(1) raise_def put split: option.splits request_state.splits prod.splits intro!: decide)
qed

lemma follows_claim: "plays (Some (dr_client d)) (earned (PostClaim d h code)) (claim_pairing lib d h code) Outside"
  unfolding claim_pairing_def
  by (auto intro!: plays_idle [OF idle_client] plays_calm calming plays_approve_request split: option.splits)

lemma follows_approve_by_id: "plays (Some (dr_client d)) (earned (PostApprove d h r)) (approve_by_id lib d h r) Outside"
  unfolding approve_by_id_def
  by (auto intro!: plays_idle [OF idle_client] plays_approve_request)

lemma follows_others:
  "plays c (earned (PostDeny d h r)) (deny_by_id lib d h r) m"
  "plays c (earned (PostToken d tok)) (mint_token lib d ttl tok) m"
  "plays c (earned (DeleteMe d h)) (revoke_self lib d h) m"
  "plays c (earned (DeleteClient d h k)) (revoke_client lib d h k) m"
  "plays c (earned (PairCommand w by' t)) (cli_open_window w by' t) m"
  "plays c (earned (RevokeCommand target)) (cli_revoke uuid_of target) m"
  "plays c (earned (SetupCodeCommand hid drawn)) (cli_setup_code lib hid drawn) m"
  "plays c (earned (StartApi hid)) (establish_identity hid) m"
  unfolding deny_by_id_def mint_token_def revoke_self_def revoke_client_def cli_open_window_def cli_revoke_def
    cli_setup_code_def establish_identity_def
  by (auto intro!: plays_idle [OF idle_client] plays_idle [OF idle_secret] plays_calm calming plays_sink
      simp: issue_access_token_def Let_def split: option.splits prod.splits)

theorem every_call_plays:
  "plays (minted_id call) (earned call) (serve_call lib call) Outside"
  by (cases call)
    (auto intro!: follows_pair follows_poll follows_claim follows_approve_by_id follows_others plays_calm_last calming
      simp: forget_memory_def set_wall_def pass_time_def)

end
