(* ===== verification/Pairing.thy ===== *)
theory Pairing
  imports PairingRun
begin

text \<open>
  What pairing guarantees whatever requests, commands and restarts interleave at a hub: one
  client per invitation, one collection per approval, no way back for a revoked client, and a
  bounded number of guesses at the setup code.
\<close>

definition ids_of :: "call list \<Rightarrow> nat \<Rightarrow> uuid option" where
  "ids_of calls i = (if i < length calls then minted_id (calls ! i) else None)"

lemma somes_index:
  assumes "distinct (somes xs)" "i < length xs" "j < length xs" "xs ! i = Some k" "xs ! j = Some k"
  shows "i = j"
  using assms
proof (induction xs arbitrary: i j)
  case (Cons x xs)
  have absent: "Some k \<notin> set xs" if "x = Some k" using Cons.prems(1) that by (simp add: in_somes)
  have tl: "distinct (somes xs)" using Cons.prems(1) by (cases x) auto
  show ?case
  proof (cases i; cases j)
    fix a b assume "i = Suc a" "j = Suc b"
    with Cons.IH [OF tl, of a b] Cons.prems show ?thesis by simp
  next
    fix b assume "i = 0" "j = Suc b"
    with absent Cons.prems have False by (auto simp: in_set_conv_nth)
    then show ?thesis ..
  next
    fix a assume "i = Suc a" "j = 0"
    with absent Cons.prems have False by (auto simp: in_set_conv_nth)
    then show ?thesis ..
  qed simp
qed simp

lemma ids_of_distinct: "distinct (somes (map minted_id calls)) \<Longrightarrow> ids_distinct (ids_of calls)"
  unfolding ids_distinct_def ids_of_def
  by (auto split: if_splits intro!: somes_index [of "map minted_id calls"])

text \<open>A run of calls, as a run of the ledger.\<close>

lemma calls_play:
  assumes "interleave sched (map (serve_call lib) calls) s = (qs, t)" "hub_ok s"
  shows "hub_ok t \<and> length qs = length calls \<and>
    (\<exists>ns. joint (\<lambda>i. ledger_step (ids_of calls i)) (\<lambda>_. Outside) (view s) ns (view t)
      \<and> (\<forall>i < length calls. \<forall>r. qs ! i = Finish r \<longrightarrow> earned (calls ! i) (ns i) r))"
proof -
  have each: "follows hub_ok (hub_step (ids_of calls i)) (earned (calls ! i)) (map (serve_call lib) calls ! i) Outside"
    if "i < length (map (serve_call lib) calls)" for i
    using that every_call_plays [of "calls ! i" lib] by (simp add: ids_of_def)
  from run_follows [where D = "\<lambda>i. hub_step (ids_of calls i)" and Q = "\<lambda>i. earned (calls ! i)" and ms = "\<lambda>_. Outside",
      OF assms each]
  obtain ns where ns: "hub_ok t" "length qs = length calls" "joint (\<lambda>i. hub_step (ids_of calls i)) (\<lambda>_. Outside) s ns t"
    "\<forall>i < length calls. follows hub_ok (hub_step (ids_of calls i)) (earned (calls ! i)) (qs ! i) (ns i)" by auto
  have "joint (\<lambda>i. ledger_step (ids_of calls i)) (\<lambda>_. Outside) (view s) ns (view t)"
    using ns(3) by (intro joint_view [where D = "\<lambda>i. ledger_step (ids_of calls i)" and view = view])
      (simp add: hub_step_def [abs_def])
  then show ?thesis using ns(1,2,4) by (intro conjI exI [of _ ns]) auto
qed

section \<open>A hub, for the witnesses\<close>

definition plain_lib :: crypto where
  "plain_lib = \<lparr>cr_sha256 = id, cr_encode = (\<lambda>p k. k), cr_decode = (\<lambda>t x k. InvalidToken), cr_uuid = (\<lambda>_. None),
     cr_uuid_text = (\<lambda>_. [])\<rparr>"

definition new_hub :: hub where
  "new_hub = \<lparr>hb_clients = [], hb_identity = None, hb_windows = [], hb_requests = [], hb_keys = [], hb_secret_cache = None,
     hb_pending_tokens = [], hb_failures = [], hb_trail = [], hb_wall = 1000, hb_mono = 5\<rparr>"

definition phone :: "uuid \<Rightarrow> string \<Rightarrow> draws" where
  "phone k tok = \<lparr>dr_client = k, dr_token = tok, dr_request = k + 100, dr_codes = [''042913''], dr_key = ''key''\<rparr>"

lemma new_hub_ok: "hub_ok new_hub"
  by (simp add: new_hub_def hub_ok_def clients_ok_def windows_ok_def requests_ok_def refs_ok_def)

lemmas call_defs = pair_client_def pair_first_def sink_def raise_def attempt_def atomic_def
  setup_state_def open_window_def total_clients_ever_def create_first_client_def create_client_def complete_setup_def
  name_blank_def hash_refresh_token_def

definition first_race :: "call list" where
  "first_race = [StartApi 9, PostPair (phone 1 ''a'') ''ann'' None, PostPair (phone 2 ''b'') ''bob'' None]"

definition race_schedule :: "nat list" where
  "race_schedule = [0, 1, 2, 1, 2, 1, 2, 1, 2, 1, 1]"

lemma first_race_run:
  "\<exists>p t. interleave race_schedule (map (serve_call plain_lib) first_race) new_hub
     = ([p, Finish (Inr (PairGranted ''a'' 1)), Finish (Inl (Http 409))], t)
     \<and> hb_trail t = [PairTofuGranted 1 ''ann'']"
  by (simp add: race_schedule_def first_race_def new_hub_def plain_lib_def phone_def call_defs establish_identity_def store_hub_id_def Let_def)

text \<open>
  C14. The handlers implement the ledger. However requests for pairing, polls, approvals, commands of
  the operator, restarts and clock changes interleave, between any two awaits, the tables keep
  the constraints of the schema and what they say of clients, windows, requests and grants
  moves only by the ledger's steps; what a call answers is what its standing entitles it to.
\<close>

theorem pairing_implements_ledger:
  assumes "interleave sched (map (serve_call lib) calls) s = (qs, t)" "hub_ok s"
  shows "hub_ok t \<and> (\<exists>ns. joint (\<lambda>i. ledger_step (ids_of calls i)) (\<lambda>_. Outside) (view s) ns (view t)
      \<and> list_all (\<lambda>i. case qs ! i of Finish r \<Rightarrow> earned (calls ! i) (ns i) r | Atomic _ \<Rightarrow> True) [0 ..< length calls])"
proof -
  from calls_play [OF assms] obtain ns where ns: "hub_ok t"
    "joint (\<lambda>i. ledger_step (ids_of calls i)) (\<lambda>_. Outside) (view s) ns (view t)"
    "\<forall>i < length calls. \<forall>r. qs ! i = Finish r \<longrightarrow> earned (calls ! i) (ns i) r" by blast
  then show ?thesis by (intro conjI exI [of _ ns]) (auto simp: list_all_iff split: prog.splits)
qed

theorem pairing_implements_ledger_witness:
  "\<exists>ns. joint (\<lambda>i. ledger_step (ids_of first_race i)) (\<lambda>_. Outside) (view new_hub) ns
      (view (snd (interleave race_schedule (map (serve_call plain_lib) first_race) new_hub)))"
  using pairing_implements_ledger [OF surjective_pairing new_hub_ok, of race_schedule plain_lib first_race] by blast

section \<open>One client per invitation\<close>

definition grant_of :: "uuid \<Rightarrow> trail_event \<Rightarrow> bool" where
  "grant_of c e = (case e of
      PairTofuGranted k _ \<Rightarrow> k = c
    | PairCodeGranted k _ \<Rightarrow> k = c
    | PairWindowUsed _ k _ \<Rightarrow> k = c
    | _ \<Rightarrow> False)"

text \<open>A credential answered to \<open>POST /pair\<close> is the call's own client, and the trail says so.\<close>

definition on_record :: "trail_event list \<Rightarrow> call \<Rightarrow> (hub, fault + answer) prog \<Rightarrow> bool" where
  "on_record trail call q =
     (case (call, q) of
        (PostPair d _ _, Finish (Inr (PairGranted tok c))) \<Rightarrow> c = dr_client d \<and> list_ex (grant_of c) trail
      | _ \<Rightarrow> True)"

lemma card_one: "(\<And>x y. x \<in> A \<Longrightarrow> y \<in> A \<Longrightarrow> x = y) \<Longrightarrow> card A \<le> 1"
proof -
  assume one: "\<And>x y. x \<in> A \<Longrightarrow> y \<in> A \<Longrightarrow> x = y"
  have "A = {} \<or> (\<exists>x. A = {x})" using one by blast
  then show ?thesis by auto
qed

lemma ledger_of_run:
  assumes "interleave sched (map (serve_call lib) calls) s = (qs, t)" "hub_ok s"
    and "distinct (somes (map minted_id calls))" "filter is_grant (hb_trail s) = []" "hb_pending_tokens s = []"
  obtains ns where "ledger_ok (ids_of calls) ns (view t)" "ids_distinct (ids_of calls)" "length qs = length calls"
    "\<And>i r. i < length calls \<Longrightarrow> qs ! i = Finish r \<Longrightarrow> earned (calls ! i) (ns i) r"
proof -
  obtain ns where ns: "length qs = length calls"
    "joint (\<lambda>i. ledger_step (ids_of calls i)) (\<lambda>_. Outside) (view s) ns (view t)"
    "\<forall>i < length calls. \<forall>r. qs ! i = Finish r \<longrightarrow> earned (calls ! i) (ns i) r"
    using calls_play [OF assms(1,2)] by blast
  have "ledger_ok (ids_of calls) (\<lambda>_. Outside) (view s)"
    by (rule ledger_starts) (use assms(4,5) in \<open>simp_all add: view_def\<close>)
  from ledger_invariant [OF ns(2) this ids_of_distinct [OF assms(3)]] ids_of_distinct [OF assms(3)] ns(1,3) that
  show ?thesis by blast
qed

text \<open>
  C13. An invitation lets in one client. Whatever calls race at a hub, at most one client is
  granted the hub's first pairing, at most one the setup code, at most one each recovery
  window, and every credential \<open>POST /pair\<close> answered with is one of those grants.
\<close>

theorem one_client_per_invitation:
  assumes "interleave sched (map (serve_call lib) calls) s = (qs, t)" "hub_ok s"
    and "distinct (somes (map minted_id calls))" "filter is_grant (hb_trail s) = []" "hb_pending_tokens s = []"
  shows "card {c. \<exists>n. PairTofuGranted c n \<in> set (hb_trail t)} \<le> 1
    \<and> card {c. \<exists>n. PairCodeGranted c n \<in> set (hb_trail t)} \<le> 1
    \<and> (\<forall>w. card {c. \<exists>n. PairWindowUsed w c n \<in> set (hb_trail t)} \<le> 1)
    \<and> list_all2 (on_record (hb_trail t)) calls qs"
proof -
  from ledger_of_run [OF assms] obtain ns where ns: "ledger_ok (ids_of calls) ns (view t)" "ids_distinct (ids_of calls)"
    "length qs = length calls" "\<And>i r. i < length calls \<Longrightarrow> qs ! i = Finish r \<Longrightarrow> earned (calls ! i) (ns i) r" by blast
  note once = granted_once [OF ns(1,2)]
  have grants: "e \<in> set (lg_grants (view t)) \<longleftrightarrow> e \<in> set (hb_trail t) \<and> is_grant e" for e by (auto simp: view_def)
  have "on_record (hb_trail t) (calls ! i) (qs ! i)" if i: "i < length calls" for i
  proof (cases "\<exists>d n x tok c. calls ! i = PostPair d n x \<and> qs ! i = Finish (Inr (PairGranted tok c))")
    case True
    then obtain d n x tok c where c: "calls ! i = PostPair d n x" "qs ! i = Finish (Inr (PairGranted tok c))" by blast
    with ns(4) [OF i c(2)] have m: "c = dr_client d" "ns i = ByTofu True \<or> ns i = ByCode True \<or> (\<exists>w. ns i = ByWindow w True)"
      by simp_all
    have id: "ids_of calls i = Some c" using c(1) i m(1) by (simp add: ids_of_def)
    have "told (ns i) c [] \<noteq> None" using m(2) by auto
    then obtain k e where e: "told (ns i) c k = Some e" "e \<in> set (lg_grants (view t))"
      using ns(1) id unfolding ledger_ok_def recorded_ok_def by blast
    then have "grant_of c e" using m(2) by (auto simp: grant_of_def)
    then have "list_ex (grant_of c) (hb_trail t)" using e(2) grants by (auto simp: list_ex_iff)
    with c m(1) show ?thesis by (simp add: on_record_def)
  next
    case False
    then show ?thesis by (auto simp: on_record_def split: call.splits prog.splits sum.splits answer.splits)
  qed
  then have "list_all2 (on_record (hb_trail t)) calls qs" using ns(3) by (simp add: list_all2_conv_all_nth)
  moreover have "card {c. \<exists>n. PairTofuGranted c n \<in> set (hb_trail t)} \<le> 1"
    by (rule card_one) (use once(1) grants in auto)
  moreover have "card {c. \<exists>n. PairCodeGranted c n \<in> set (hb_trail t)} \<le> 1"
    by (rule card_one) (use once(2) grants in auto)
  moreover have "card {c. \<exists>n. PairWindowUsed w c n \<in> set (hb_trail t)} \<le> 1" for w
    by (rule card_one) (use once(3) grants in auto)
  ultimately show ?thesis by blast
qed

theorem one_client_per_invitation_witness:
  "\<exists>p t. interleave race_schedule (map (serve_call plain_lib) first_race) new_hub
       = ([p, Finish (Inr (PairGranted ''a'' 1)), Finish (Inl (Http 409))], t)
     \<and> card {c. \<exists>n. PairTofuGranted c n \<in> set (hb_trail t)} \<le> 1"
proof -
  obtain p t where run: "interleave race_schedule (map (serve_call plain_lib) first_race) new_hub
     = ([p, Finish (Inr (PairGranted ''a'' 1)), Finish (Inl (Http 409))], t)" using first_race_run by blast
  from one_client_per_invitation [OF run new_hub_ok]
  have "card {c. \<exists>n. PairTofuGranted c n \<in> set (hb_trail t)} \<le> 1" by (simp add: first_race_def phone_def new_hub_def)
  with run show ?thesis by blast
qed

section \<open>An approval hands out one credential\<close>

text \<open>
  C16. The credential of an approved request is collected once: two polls of the same request
  that both answered with a credential are the same poll, and what they hand out is the client
  that the approval of that very request minted and that the tables still hold.
\<close>

theorem approval_collected_once:
  assumes "interleave sched (map (serve_call lib) calls) s = (qs, t)" "hub_ok s"
    and "distinct (somes (map minted_id calls))" "filter is_grant (hb_trail s) = []" "hb_pending_tokens s = []"
    and "i < length calls" "calls ! i = GetPair r" "qs ! i = Finish (Inr (PairGranted x c))"
    and "j < length calls" "calls ! j = GetPair r" "qs ! j = Finish (Inr (PairGranted y d))"
  shows "i = j \<and> approved_in (hb_requests t) r = Some c \<and> find_client c t \<noteq> None
    \<and> list_ex (\<lambda>call. minted_id call = Some c) calls"
proof -
  obtain ns where ns: "ledger_ok (ids_of calls) ns (view t)" "ids_distinct (ids_of calls)" "length qs = length calls"
    "\<And>i r. i < length calls \<Longrightarrow> qs ! i = Finish r \<Longrightarrow> earned (calls ! i) (ns i) r"
    by (rule ledger_of_run [OF assms(1-5)], rule that) (assumption | blast)+
  have m: "ns i = Took r c x" "ns j = Took r d y"
    using ns(4) [OF assms(6,8)] ns(4) [OF assms(9,11)] assms(7,10) by simp_all
  obtain k where k: "ns k = Filed r" "ids_of calls k = Some c"
    using took_filed [OF ns(1) m(1)] by (auto simp: filed_def)
  have "approved_in (hb_requests t) r = Some c" using ok_evidence [OF ns(1), of k] k by (simp add: view_def)
  moreover have "find_client c t \<noteq> None"
    using ok_inside [OF ns(1) _ k(2)] k(1) find_key_out [of cl_id c "hb_clients t"] by (auto simp: find_client_def view_def)
  moreover have "list_ex (\<lambda>call. minted_id call = Some c) calls"
    using k(2) by (auto simp: ids_of_def list_ex_iff split: if_splits)
  moreover have "i = j" by (rule invitation_used_once(4) [OF ns(1,2) m])
  ultimately show ?thesis by blast
qed

definition ann_row :: client_row where
  "ann_row = \<lparr>cl_id = 1, cl_name = ''ann'', cl_hash = Some ''a'', cl_created_at = 900, cl_last_seen_at = None, cl_revoked_at = None\<rparr>"

definition ann_hub :: hub where
  "ann_hub = new_hub\<lparr>hb_clients := [ann_row], hb_keys := [''key''], hb_secret_cache := Some ''key'',
     hb_identity := Some \<lparr>hi_id = 9, hi_setup_code_hash = None, hi_setup_completed_at = Some 900\<rparr>\<rparr>"

definition ann_lib :: crypto where
  "ann_lib = plain_lib\<lparr>cr_decode := (\<lambda>t x k. Payload \<lparr>jp_client_id = TextClaim (Some 1), jp_iat = 0, jp_exp = 0\<rparr>)\<rparr>"

definition ann_approves :: "call list" where
  "ann_approves = [PostPair (phone 2 ''b'') ''bob'' None, PostApprove (phone 3 ''c'') (Some ''Bearer ann'') 102, GetPair 102, GetPair 102]"

lemma ann_hub_ok: "hub_ok ann_hub"
  by (simp add: ann_hub_def ann_row_def new_hub_def hub_ok_def clients_ok_def windows_ok_def requests_ok_def refs_ok_def)

lemmas approval_defs = call_defs poll_pair_def approve_by_id_def current_client_def bearer_def signing_secret_def cached_secret_def
  wall_clock_def verify_access_token_def client_is_active_def find_client_def approve_request_def approve_pairing_def
  pairing_state_def read_state_def decide_approval_def decidable_now_def pending_put_def pending_take_def
  ask_for_approval_def active_client_count_def open_pairing_request_def sweep_pairing_def insert_request_def
  code_in_play_def CODE_CANDIDATES_def PAIRING_TTL_S_def PAIRING_RETENTION_S_def alist_pop_def

definition approval_schedule :: "nat list" where
  "approval_schedule = [0, 0, 0, 0, 0, 0, 0, 0, 1, 1, 1, 1, 1, 1, 1, 1, 1, 1, 1, 2, 3, 2, 3, 2, 3, 2]"

lemma ann_approves_run:
  "\<exists>p q t. interleave approval_schedule (map (serve_call ann_lib) ann_approves) ann_hub
     = ([p, q, Finish (Inr (PairGranted ''c'' 3)), Finish (Inl (Http 410))], t)"
  by (simp add: approval_schedule_def ann_approves_def ann_hub_def ann_row_def new_hub_def ann_lib_def plain_lib_def phone_def approval_defs Let_def)

theorem approval_collected_once_witness:
  "\<exists>p q t. interleave approval_schedule (map (serve_call ann_lib) ann_approves) ann_hub
     = ([p, q, Finish (Inr (PairGranted ''c'' 3)), Finish (Inl (Http 410))], t)
     \<and> approved_in (hb_requests t) 102 = Some 3"
proof -
  obtain p q t where run: "interleave approval_schedule (map (serve_call ann_lib) ann_approves) ann_hub
     = ([p, q, Finish (Inr (PairGranted ''c'' 3)), Finish (Inl (Http 410))], t)" using ann_approves_run by blast
  have "approved_in (hb_requests t) 102 = Some 3"
    using approval_collected_once [OF run ann_hub_ok, of 2 102 "''c''" 3 2 "''c''" 3]
    by (simp add: ann_approves_def phone_def ann_hub_def new_hub_def)
  with run show ?thesis by blast
qed

section \<open>A revoked client stays out\<close>

text \<open>The tables know no live row of the client and no row with its token's hash.\<close>

definition shut_out :: "crypto \<Rightarrow> uuid \<Rightarrow> string \<Rightarrow> hub \<Rightarrow> bool" where
  "shut_out lib c tok s =
     list_all (\<lambda>r. (cl_id r = c \<longrightarrow> cl_revoked_at r \<noteq> None) \<and> cl_hash r \<noteq> Some (hash_refresh_token (cr_sha256 lib) tok))
       (hb_clients s)"

text \<open>A bearer header that can only stand for the client.\<close>

definition bears :: "crypto \<Rightarrow> uuid \<Rightarrow> string option \<Rightarrow> bool" where
  "bears lib c h =
     (\<forall>x secret now. bearer h = Some x \<longrightarrow> (case verify_access_token lib x secret now of Inl _ \<Rightarrow> True | Inr k \<Rightarrow> k = c))"

fun presents :: "crypto \<Rightarrow> uuid \<Rightarrow> string \<Rightarrow> call \<Rightarrow> bool" where
  "presents lib c tok (PostToken _ x) = (x = tok)"
| "presents lib c tok (PostClaim _ h _) = bears lib c h"
| "presents lib c tok (PostApprove _ h _) = bears lib c h"
| "presents lib c tok (PostDeny _ h _) = bears lib c h"
| "presents lib c tok (DeleteMe _ h) = bears lib c h"
| "presents lib c tok (DeleteClient _ h _) = bears lib c h"
| "presents lib c tok _ = False"

text \<open>The draws of a call are not the client's: neither its id nor a token of the same hash.\<close>

definition foreign :: "crypto \<Rightarrow> uuid \<Rightarrow> string \<Rightarrow> draws \<Rightarrow> bool" where
  "foreign lib c tok d =
     (dr_client d \<noteq> c \<and> hash_refresh_token (cr_sha256 lib) (dr_token d) \<noteq> hash_refresh_token (cr_sha256 lib) tok)"

fun foreign_call :: "crypto \<Rightarrow> uuid \<Rightarrow> string \<Rightarrow> call \<Rightarrow> bool" where
  "foreign_call lib c tok (PostPair d _ _) = foreign lib c tok d"
| "foreign_call lib c tok (PostClaim d _ _) = foreign lib c tok d"
| "foreign_call lib c tok (PostApprove d _ _) = foreign lib c tok d"
| "foreign_call lib c tok _ = True"

lemma shut_out_rows: "hb_clients t = hb_clients s \<Longrightarrow> shut_out lib c tok t = shut_out lib c tok s"
  by (simp add: shut_out_def)

lemma same_clients:
  "hb_clients (snd (cached_secret s)) = hb_clients s" "hb_clients (snd (cache_secret k s)) = hb_clients s"
  "hb_clients (snd (select_key s)) = hb_clients s" "hb_clients (snd (insert_key k s)) = hb_clients s"
  "hb_clients (snd (wall_clock s)) = hb_clients s" "hb_clients (snd (client_is_active e s)) = hb_clients s"
  "hb_clients (snd (setup_state s)) = hb_clients s" "hb_clients (snd (open_window s)) = hb_clients s"
  "hb_clients (snd (total_clients_ever s)) = hb_clients s" "hb_clients (snd (active_client_count s)) = hb_clients s"
  "hb_clients (snd (pairing_request_for_code x s)) = hb_clients s" "hb_clients (snd (pairing_state r s)) = hb_clients s"
  "hb_clients (snd (store_client_name e s)) = hb_clients s" "hb_clients (snd (list_clients s)) = hb_clients s"
  "hb_clients (snd (forget_memory s)) = hb_clients s" "hb_clients (snd (set_wall w s)) = hb_clients s"
  "hb_clients (snd (pass_time dt s)) = hb_clients s" "hb_clients (snd (store_hub_id h s)) = hb_clients s"
  "hb_clients (snd (set_setup_code_hash x s)) = hb_clients s" "hb_clients (snd (complete_setup s)) = hb_clients s"
  "hb_clients (snd (setup_gate lib x y s)) = hb_clients s" "hb_clients (snd (sweep_pairing s)) = hb_clients s"
  "hb_clients (snd (insert_request r drawn x s)) = hb_clients s" "hb_clients (snd (deny_pairing r s)) = hb_clients s"
  "hb_clients (snd (open_pairing_window r x ttl s)) = hb_clients s" "hb_clients (snd (consume_window r e s)) = hb_clients s"
  "hb_clients (snd (pending_put r e x s)) = hb_clients s" "hb_clients (snd (pending_take r s)) = hb_clients s"
  by (simp_all add: cached_secret_def cache_secret_def select_key_def insert_key_def wall_clock_def client_is_active_def
      setup_state_def open_window_def total_clients_ever_def active_client_count_def pairing_request_for_code_def
      pairing_state_def store_client_name_def list_clients_def forget_memory_def set_wall_def pass_time_def
      store_hub_id_def set_setup_code_hash_def complete_setup_def setup_gate_def sweep_pairing_def insert_request_def
      deny_pairing_def open_pairing_window_def consume_window_def pending_put_def pending_take_def Let_def
      split: option.splits prod.splits)

text \<open>Transactions that keep somebody out.\<close>

definition keeps_out :: "crypto \<Rightarrow> uuid \<Rightarrow> string \<Rightarrow> 'a txn \<Rightarrow> bool" where
  "keeps_out lib c tok g = (\<forall>s. shut_out lib c tok s \<longrightarrow> shut_out lib c tok (snd (g s)))"

named_theorems keeping_out

lemma keeps_same: "(\<And>s. hb_clients (snd (g s)) = hb_clients s) \<Longrightarrow> keeps_out lib c tok g"
  by (simp add: keeps_out_def shut_out_def)

lemmas keeps_same_all [keeping_out] = same_clients [THEN keeps_same]

lemma keeps_rows [keeping_out]:
  "keeps_out lib c tok (client_for_refresh_token lib' x)" "keeps_out lib c tok (store_revoke e)"
  "keeps_out lib c tok (discard_client e)"
  by (auto simp: keeps_out_def shut_out_def client_for_refresh_token_def store_revoke_def discard_client_def list_all_iff
      split: option.splits)

lemma keeps_create:
  assumes "foreign lib c tok d"
  shows "keeps_out lib c tok (create_client lib (dr_client d) (dr_token d) name)"
    "keeps_out lib c tok (create_first_client lib (dr_client d) (dr_token d) name)"
  using assms by (auto simp: keeps_out_def shut_out_def create_client_def create_first_client_def Let_def foreign_def)

lemma keeps_decide [keeping_out]: "keeps_out lib c tok (decide_approval r e x)"
  by (auto simp: keeps_out_def shut_out_def decide_approval_def discard_client_def list_all_iff)

definition barred :: "crypto \<Rightarrow> uuid \<Rightarrow> string \<Rightarrow> ((fault + 'a) \<Rightarrow> bool) \<Rightarrow> 'a handler \<Rightarrow> bool" where
  "barred lib c tok = always (shut_out lib c tok)"

lemma barred_raise [simp]: "barred lib c tok Q (raise n) = Q (Inl (Http n))"
  by (simp add: barred_def raise_def always_def)

lemma barred_Finish [simp]: "barred lib c tok Q (Finish r) = Q r"
  by (simp add: barred_def always_def)

lemma barred_last:
  "keeps_out lib c tok g \<Longrightarrow> (\<And>s. shut_out lib c tok s \<Longrightarrow> Q (fst (g s))) \<Longrightarrow> barred lib c tok Q (atomic g)"
  unfolding barred_def keeps_out_def by (rule always_atomic) simp

lemma barred_attempt:
  "barred lib c tok (\<lambda>r. case r of Inl e \<Rightarrow> Q (Inl e) | Inr x \<Rightarrow> barred lib c tok Q (k x)) p \<Longrightarrow>
     barred lib c tok Q (attempt p k)"
  unfolding barred_def by (rule always_attempt)

lemma barred_step:
  assumes "keeps_out lib c tok g"
    and "\<And>s. shut_out lib c tok s \<Longrightarrow> (case fst (g s) of Inl e \<Rightarrow> Q (Inl e) | Inr x \<Rightarrow> barred lib c tok Q (k x))"
  shows "barred lib c tok Q (attempt (atomic g) k)"
  by (rule barred_attempt, rule barred_last) (rule assms; assumption)+

lemma keeps_tell [keeping_out]: "keeps_out lib c tok (\<lambda>s. (Inr (), s\<lparr>hb_trail := hb_trail s @ [e]\<rparr>))"
  by (rule keeps_same) simp

lemma barred_sink: "barred lib c tok Q (k ()) \<Longrightarrow> barred lib c tok Q (attempt (sink e) k)"
  unfolding sink_def by (rule barred_step [OF keeps_tell]) simp

text \<open>Handlers that may answer anything: every transaction of theirs keeps the client out.\<close>

abbreviation tame :: "crypto \<Rightarrow> uuid \<Rightarrow> string \<Rightarrow> 'a handler \<Rightarrow> bool" where
  "tame lib c tok \<equiv> barred lib c tok (\<lambda>_. True)"

lemma tame_step: "keeps_out lib c tok g \<Longrightarrow> (\<And>x. tame lib c tok (k x)) \<Longrightarrow> tame lib c tok (attempt (atomic g) k)"
  by (rule barred_step) (auto split: sum.splits)

lemma tame_last: "keeps_out lib c tok g \<Longrightarrow> tame lib c tok (atomic g)"
  by (rule barred_last) auto

lemma tame_attempt: "tame lib c tok p \<Longrightarrow> (\<And>x. tame lib c tok (k x)) \<Longrightarrow> tame lib c tok (attempt p k)"
  by (rule barred_attempt, unfold barred_def, erule always_conseq) (simp split: sum.splits)

lemmas tame_rules = tame_step tame_last barred_sink keeping_out

lemma secret_given: "barred lib c tok (\<lambda>r. \<exists>x. r = Inr x) (signing_secret fresh)"
  unfolding signing_secret_def
  by (auto intro!: barred_step barred_last keeping_out
      simp: cached_secret_def select_key_def insert_key_def cache_secret_def split: option.splits)

lemma tame_secret: "tame lib c tok (signing_secret fresh)"
  using secret_given unfolding barred_def by (rule always_conseq) simp

lemma tame_client: "tame lib c tok (current_client lib' fresh h)"
  unfolding current_client_def
  by (auto intro!: tame_attempt [OF tame_secret] tame_rules split: option.splits sum.splits)

lemma tame_approve: "foreign lib c tok d \<Longrightarrow> tame lib c tok (approve_request lib d r a)"
  unfolding approve_request_def approve_pairing_def attempt_assoc
  by (auto intro!: tame_step tame_last keeping_out keeps_create(1) simp: attempt_assoc sink_def
      split: option.splits request_state.splits)

lemma tame_pair: "foreign lib c tok d \<Longrightarrow> tame lib c tok (pair_client lib d name code)"
  unfolding pair_client_def pair_with_code_def pair_by_window_def pair_first_def ask_for_approval_def open_pairing_request_def
  by (auto intro!: tame_rules keeps_create simp: Let_def attempt_assoc split: option.splits)

lemma tame_calls: "foreign_call lib c tok call \<Longrightarrow> tame lib c tok (serve_call lib call)"
  by (cases call)
    (auto intro!: tame_pair tame_attempt [OF tame_client] tame_attempt [OF tame_secret] tame_attempt [OF tame_approve] tame_rules
      simp: poll_pair_def claim_pairing_def approve_by_id_def deny_by_id_def mint_token_def revoke_self_def revoke_client_def
        cli_open_window_def cli_revoke_def cli_setup_code_def establish_identity_def issue_access_token_def Let_def
      split: option.splits request_state.splits prod.splits)

text \<open>What the client itself can still get.\<close>

definition refused :: "fault + 'a \<Rightarrow> bool" where
  "refused r = (r = Inl (Http 401))"

lemma shut_out_inactive: "shut_out lib c tok s \<Longrightarrow> fst (client_is_active c s) = Inr False"
  by (auto simp: client_is_active_def shut_out_def find_client_def list_all_iff find_Some_iff split: option.splits)

lemma refused_client:
  assumes "bears lib c h"
  shows "barred lib c tok refused (current_client lib fresh h)"
proof (cases "bearer h")
  case None
  then show ?thesis by (simp add: current_client_def refused_def)
next
  case (Some x)
  have who: "verify_access_token lib x secret now = Inr k \<Longrightarrow> k = c" for secret now k
    using assms Some by (fastforce simp: bears_def split: sum.splits)
  have "barred lib c tok refused (attempt (atomic wall_clock) (\<lambda>now. case verify_access_token lib x secret now of
      Inl _ \<Rightarrow> raise 401
    | Inr k \<Rightarrow> attempt (atomic (client_is_active k)) (\<lambda>active. if \<not> active then raise 401 else Finish (Inr k))))" for secret
    by (rule barred_step, rule keeping_out)
      (auto simp: wall_clock_def refused_def shut_out_inactive dest!: who intro!: barred_step keeping_out split: sum.splits)
  then show ?thesis
    unfolding current_client_def Some option.case
    by (intro barred_attempt, unfold barred_def, intro always_conseq [OF secret_given [unfolded barred_def]]) auto
qed

lemma refused_attempt: "barred lib c tok refused p \<Longrightarrow> barred lib c tok refused (attempt p k)"
  by (rule barred_attempt, unfold barred_def, erule always_conseq) (auto simp: refused_def)

lemma refused_token: "barred lib c tok refused (mint_token lib d ttl tok)"
proof -
  have "fst (client_for_refresh_token lib tok s) = Inr None" if "shut_out lib c tok s" for s
    using that by (auto simp: client_for_refresh_token_def shut_out_def list_all_iff find_None_iff split: option.splits)
  then show ?thesis
    unfolding mint_token_def by (intro barred_step keeping_out) (simp add: barred_sink refused_def)
qed

lemma refused_calls: "presents lib c tok call \<Longrightarrow> barred lib c tok refused (serve_call lib call)"
  by (cases call)
    (auto intro!: refused_attempt refused_client simp: refused_token claim_pairing_def approve_by_id_def deny_by_id_def
      revoke_self_def revoke_client_def)

lemma revoke_shuts_out:
  assumes "hub_ok s" "find_client c s = Some row" "cl_hash row = Some (hash_refresh_token (cr_sha256 lib) tok)"
  shows "shut_out lib c tok (snd (store_revoke c s))"
proof -
  have cs: "clients_ok (hb_clients s)" using assms(1) by (simp add: hub_ok_def)
  have row: "row \<in> set (hb_clients s)" "cl_id row = c"
    using find_key_in [of cl_id c "hb_clients s" row] assms(2) by (simp_all add: find_client_def)
  have mine: "r = row" if "r \<in> set (hb_clients s)" "cl_hash r = Some (hash_refresh_token (cr_sha256 lib) tok)" for r
    using somes_unique [of cl_hash "hb_clients s" r row] cs row(1) that assms(3) by (simp add: clients_ok_def)
  show ?thesis
    unfolding shut_out_def list_all_iff
  proof
    fix q assume "q \<in> set (hb_clients (snd (store_revoke c s)))"
    then obtain r where r: "r \<in> set (hb_clients s)"
      "q = (if cl_id r = c \<and> cl_revoked_at r = None then r\<lparr>cl_hash := None, cl_revoked_at := Some (hb_wall s)\<rparr> else r)"
      by (auto simp: store_revoke_def)
    have "(cl_revoked_at r = None) \<noteq> (cl_hash r = None)" using cs r(1) by (simp add: clients_ok_def list_all_iff)
    then show "(cl_id q = c \<longrightarrow> cl_revoked_at q \<noteq> None) \<and> cl_hash q \<noteq> Some (hash_refresh_token (cr_sha256 lib) tok)"
      using mine [OF r(1)] row(2) r(2) by auto
  qed
qed

text \<open>
  C15. Revocation is final. After a client is revoked, whatever calls race, none of which draws its
  id or a token of the same hash, it stays revoked: its refresh token is answered 401, and so
  is every request whose bearer token can only name it.
\<close>

theorem revoked_stays_out:
  assumes "hub_ok s" "find_client c s = Some row" "cl_hash row = Some (hash_refresh_token (cr_sha256 lib) tok)"
    and "interleave sched (map (serve_call lib) calls) (snd (store_revoke c s)) = (qs, t)"
    and "list_all (foreign_call lib c tok) calls"
  shows "shut_out lib c tok t \<and>
    (\<forall>i r. i < length calls \<and> presents lib c tok (calls ! i) \<and> qs ! i = Finish r \<longrightarrow> r = Inl (Http 401))"
proof -
  let ?Q = "\<lambda>i r. presents lib c tok (calls ! i) \<longrightarrow> refused r"
  have each: "always (shut_out lib c tok) (?Q i) (map (serve_call lib) calls ! i)" if "i < length (map (serve_call lib) calls)" for i
  proof (cases "presents lib c tok (calls ! i)")
    case True
    then show ?thesis using refused_calls [OF True] that by (simp add: barred_def)
  next
    case False
    have "tame lib c tok (serve_call lib (calls ! i))"
      by (rule tame_calls) (use assms(5) that in \<open>simp add: list_all_length\<close>)
    then show ?thesis using False that by (simp add: barred_def)
  qed
  from run_always [OF assms(4) revoke_shuts_out [OF assms(1-3)] each]
  show ?thesis by (auto simp: refused_def)
qed

theorem revoked_stays_out_witness:
  "\<exists>q t. interleave [0, 0, 1, 1, 0, 1, 1] (map (serve_call ann_lib) [PostToken (phone 5 ''e'') ''a'', DeleteMe (phone 6 ''f'') (Some ''Bearer ann'')])
       (snd (store_revoke 1 ann_hub)) = ([Finish (Inl (Http 401)), q], t) \<and> shut_out ann_lib 1 ''a'' t"
proof -
  let ?calls = "[PostToken (phone 5 ''e'') ''a'', DeleteMe (phone 6 ''f'') (Some ''Bearer ann'')]"
  have row: "find_client 1 ann_hub = Some ann_row" "cl_hash ann_row = Some (hash_refresh_token (cr_sha256 ann_lib) ''a'')"
    by (simp_all add: find_client_def ann_hub_def ann_row_def hash_refresh_token_def ann_lib_def plain_lib_def)
  have "\<exists>q t. interleave [0, 0, 1, 1, 0, 1, 1] (map (serve_call ann_lib) ?calls) (snd (store_revoke 1 ann_hub))
      = ([Finish (Inl (Http 401)), q], t)"
    by (simp add: ann_hub_def ann_row_def new_hub_def ann_lib_def plain_lib_def phone_def approval_defs mint_token_def
        client_for_refresh_token_def revoke_self_def store_revoke_def store_client_name_def Let_def)
  then obtain q t where run: "interleave [0, 0, 1, 1, 0, 1, 1] (map (serve_call ann_lib) ?calls) (snd (store_revoke 1 ann_hub))
      = ([Finish (Inl (Http 401)), q], t)" by blast
  from revoked_stays_out [OF ann_hub_ok row run] run show ?thesis by auto
qed

section \<open>Guesses at the setup code\<close>

text \<open>What \<open>_SetupThrottle\<close> remembers: times in order, none in the future, never more than the limit.\<close>

definition throttle_ok :: "seconds \<Rightarrow> seconds list \<Rightarrow> bool" where
  "throttle_ok now fs = (sorted fs \<and> list_all (\<lambda>t. t \<le> now) fs \<and> length fs \<le> THROTTLE_LIMIT)"

lemma recent_sorted:
  "sorted fs \<Longrightarrow> dropWhile (\<lambda>t. now - t > w) fs = filter (\<lambda>t. now - t \<le> w) (fs :: seconds list)"
proof (induction fs)
  case (Cons f fs)
  show ?case
  proof (cases "now - f > w")
    case False
    then have "\<forall>t \<in> set fs. now - t \<le> w" using Cons.prems by auto
    then show ?thesis using False by (simp add: filter_id_conv)
  qed (use Cons in auto)
qed simp

text \<open>
  C17. Guessing the setup code is bounded. With \<open>recent\<close> the failures of the last 60 seconds, an attempt
  is let through exactly when fewer than ten are recent; otherwise it is told to wait between
  1 and 61 seconds, and after that long an attempt is let through again. A failure recorded
  when one was let through keeps the memory at ten or fewer, in order.
\<close>

theorem setup_attempts_are_bounded:
  assumes "throttle_ok now fs"
  shows "let recent = filter (\<lambda>t. now - t \<le> THROTTLE_WINDOW_S) fs in
    snd (retry_after now fs) = recent
    \<and> (case fst (retry_after now fs) of
         None \<Rightarrow> length recent < THROTTLE_LIMIT \<and> throttle_ok now (record_failure now recent)
       | Some n \<Rightarrow> length recent = THROTTLE_LIMIT \<and> 1 \<le> n \<and> n \<le> 61
           \<and> fst (retry_after (now + of_int n) recent) = None)"
proof -
  let ?r = "filter (\<lambda>t. now - t \<le> THROTTLE_WINDOW_S) fs"
  have s: "sorted fs" "\<And>t. t \<in> set fs \<Longrightarrow> t \<le> now" "length fs \<le> THROTTLE_LIMIT"
    using assms by (auto simp: throttle_ok_def list_all_iff)
  have kept: "snd (retry_after now fs) = ?r" by (simp add: retry_after_def Let_def recent_sorted [OF s(1)])
  have len: "length ?r \<le> THROTTLE_LIMIT" using s(3) length_filter_le [of _ fs] le_trans by blast
  have sr: "sorted ?r" using s(1) by (simp add: sorted_filter [of id, simplified])
  show ?thesis
  proof (cases "length ?r < THROTTLE_LIMIT")
    case True
    have "throttle_ok now (record_failure now ?r)"
      using True sr s(2) by (auto simp: throttle_ok_def record_failure_def sorted_append list_all_iff)
    with True kept show ?thesis by (simp add: retry_after_def Let_def recent_sorted [OF s(1)])
  next
    case False
    with len have full: "length ?r = THROTTLE_LIMIT" by simp
    then obtain h rest where r: "?r = h # rest" by (cases ?r) (auto simp: THROTTLE_LIMIT_def)
    let ?n = "py_int (60 - (now - h)) + 1"
    have "h \<in> set ?r" unfolding r by simp
    then have h: "h \<le> now" "now - h \<le> 60" using s(2) by (auto simp: THROTTLE_WINDOW_S_def)
    then have n: "?n = \<lfloor>60 - (now - h)\<rfloor> + 1" by (simp add: py_int_def)
    have b: "of_int \<lfloor>60 - (now - h)\<rfloor> \<le> 60 - (now - h)" "60 - (now - h) < of_int \<lfloor>60 - (now - h)\<rfloor> + 1" by linarith+
    have "0 \<le> \<lfloor>60 - (now - h)\<rfloor>" "\<lfloor>60 - (now - h)\<rfloor> \<le> 60" using h by (simp_all add: floor_le_iff)
    then have bounds: "1 \<le> ?n" "?n \<le> 61" using n by linarith+
    have "now + of_int ?n - h > 60" using b(2) n by simp
    then have "filter (\<lambda>t. now + of_int ?n - t \<le> THROTTLE_WINDOW_S) ?r = filter (\<lambda>t. now + of_int ?n - t \<le> THROTTLE_WINDOW_S) rest"
      unfolding r by (simp add: THROTTLE_WINDOW_S_def del: of_int_add)
    moreover have "length rest < THROTTLE_LIMIT" using full unfolding r by simp
    ultimately have "length (filter (\<lambda>t. now + of_int ?n - t \<le> THROTTLE_WINDOW_S) ?r) < THROTTLE_LIMIT"
      using le_less_trans [OF length_filter_le] by metis
    then have later: "fst (retry_after (now + of_int ?n) ?r) = None"
      by (simp add: retry_after_def Let_def recent_sorted [OF sr])
    have "fst (retry_after now fs) = Some ?n"
      using full r by (simp add: retry_after_def Let_def recent_sorted [OF s(1)] THROTTLE_WINDOW_S_def)
    with kept full bounds later show ?thesis by (simp add: Let_def)
  qed
qed

theorem setup_attempts_are_bounded_witness:
  "retry_after 100 [50, 51, 52, 53, 54, 55, 56, 57, 58, 99] = (Some 11, [50, 51, 52, 53, 54, 55, 56, 57, 58, 99])
   \<and> fst (retry_after 111 [50, 51, 52, 53, 54, 55, 56, 57, 58, 99]) = None"
proof -
  have ok: "throttle_ok 100 [50, 51, 52, 53, 54, 55, 56, 57, 58, 99]" by (simp add: throttle_ok_def THROTTLE_LIMIT_def)
  have "retry_after 100 [50, 51, 52, 53, 54, 55, 56, 57, 58, 99] = (Some 11, [50, 51, 52, 53, 54, 55, 56, 57, 58, 99])"
    by (simp add: retry_after_def THROTTLE_LIMIT_def THROTTLE_WINDOW_S_def Let_def py_int_def)
  with setup_attempts_are_bounded [OF ok] show ?thesis by (simp add: Let_def THROTTLE_WINDOW_S_def)
qed

end
