(* ===== verification/Registry.thy ===== *)
theory Registry
  imports DeviceApi LightApi Pairing
begin

text \<open>
  What may happen to the API's tables - requests, messages of the hardware, restarts, the broker and
  the clock coming and going - and what every interleaving of it keeps: device ids and primary
  keys are unique, a device that history refers to is never lost, the retained stream holds one
  valid message per device, and every channel's schedule exists and validates.
\<close>

section \<open>Calls\<close>

datatype desk_call =
    PostDevice desk_draws "string option" bind_body
  | GetDevices desk_draws "string option"
  | GetSensors desk_draws "string option"
  | GetCapabilities desk_draws "string option"
  | GetHardware desk_draws "string option"
  | PatchDevice desk_draws "string option" string "string option"
  | DeleteDevice desk_draws "string option" string
  | PostReadopt desk_draws "string option" string
  | PostForget desk_draws "string option" string
  | GetThresholds desk_draws "string option" string
  | PutThresholds desk_draws "string option" string band_body
  | GetSchedules desk_draws "string option"
  | PostSchedule desk_draws "string option" schedule_body
  | GetSchedule desk_draws "string option" uuid
  | PutSchedule desk_draws "string option" uuid schedule_body
  | DeleteSchedule desk_draws "string option" uuid
  | PutChannel desk_draws "string option" string uuid
  | DeleteChannel desk_draws "string option" string
  | GetOverrides desk_draws "string option"
  | PostOverride desk_draws "string option" hold_body
  | DeleteOverride desk_draws "string option" uuid
  | Registration uuid "sensor_registration result"
  | Announcement "capability_announcement result"
  | ChipMessage "chip_state result"
  | StartDesk uuid "nat \<Rightarrow> uuid"
  | PairingCall call
  | CalibrationSaved uuid
  | DoseJournaled uuid
  | SpineTurns bool
  | ClockTurns bool

datatype desk_reply = DeviceReply desk_answer | LightReply light_answer | NoReply

definition to_devices :: "desk_answer desk \<Rightarrow> desk_reply desk" where
  "to_devices p = attempt p (\<lambda>a. reply_with (DeviceReply a))"

definition to_lights :: "light_answer desk \<Rightarrow> desk_reply desk" where
  "to_lights p = attempt p (\<lambda>a. reply_with (LightReply a))"

text \<open>Rows of history that refer to a device; the foreign key wants it to exist.\<close>

definition save_calibration :: "uuid \<Rightarrow> tank \<Rightarrow> tank" where
  "save_calibration pk s =
     (if pk \<in> dv_id ` set (tk_devices s) then s\<lparr>tk_calibrations := tk_calibrations s @ [pk]\<rparr> else s)"

definition journal_dose :: "uuid \<Rightarrow> tank \<Rightarrow> tank" where
  "journal_dose pk s =
     (if pk \<in> dv_id ` set (tk_devices s) then s\<lparr>tk_journal := tk_journal s @ [pk]\<rparr> else s)"

definition outside :: "(tank \<Rightarrow> tank) \<Rightarrow> desk_reply desk" where
  "outside f = atomic (\<lambda>s. (Inr NoReply, f s))"

fun serve_desk :: "crypto \<Rightarrow> (string \<Rightarrow> bool) \<Rightarrow> desk_call \<Rightarrow> desk_reply desk" where
  "serve_desk lib kz (PostDevice d h b) = to_devices (bind_device lib d h b)"
| "serve_desk lib kz (GetDevices d h) = to_devices (devices lib d h)"
| "serve_desk lib kz (GetSensors d h) = to_devices (sensors lib d h)"
| "serve_desk lib kz (GetCapabilities d h) = to_devices (capabilities lib d h)"
| "serve_desk lib kz (GetHardware d h) = to_devices (list_hardware lib d h)"
| "serve_desk lib kz (PatchDevice d h i n) = to_devices (rename_device lib d h i n)"
| "serve_desk lib kz (DeleteDevice d h i) = to_devices (unbind_device lib d h i)"
| "serve_desk lib kz (PostReadopt d h i) = to_devices (readopt_device lib d h i)"
| "serve_desk lib kz (PostForget d h i) = to_devices (forget_device lib d h i)"
| "serve_desk lib kz (GetThresholds d h i) = to_devices (get_thresholds lib d h i)"
| "serve_desk lib kz (PutThresholds d h i b) = to_devices (put_thresholds lib d h i b)"
| "serve_desk lib kz (GetSchedules d h) = to_lights (list_schedules lib kz d h)"
| "serve_desk lib kz (PostSchedule d h b) = to_lights (create_schedule lib kz d h b)"
| "serve_desk lib kz (GetSchedule d h i) = to_lights (get_schedule lib kz d h i)"
| "serve_desk lib kz (PutSchedule d h i b) = to_lights (update_schedule lib kz d h i b)"
| "serve_desk lib kz (DeleteSchedule d h i) = to_lights (delete_schedule lib kz d h i)"
| "serve_desk lib kz (PutChannel d h c i) = to_lights (assign_schedule lib kz d h c i)"
| "serve_desk lib kz (DeleteChannel d h c) = to_lights (unassign_schedule lib kz d h c)"
| "serve_desk lib kz (GetOverrides d h) = to_lights (list_overrides lib d h)"
| "serve_desk lib kz (PostOverride d h b) = to_lights (create_override lib d h b)"
| "serve_desk lib kz (DeleteOverride d h i) = to_lights (release_override lib d h i)"
| "serve_desk lib kz (Registration pk g) = to_devices (on_registration pk g)"
| "serve_desk lib kz (Announcement a) = to_devices (on_capabilities a)"
| "serve_desk lib kz (ChipMessage c) = to_devices (on_chip c)"
| "serve_desk lib kz (StartDesk i mids) = to_devices (start_api i mids)"
| "serve_desk lib kz (PairingCall c) = prog_bind (at_hub (serve_call lib c)) (\<lambda>_. reply_with NoReply)"
| "serve_desk lib kz (CalibrationSaved pk) = outside (save_calibration pk)"
| "serve_desk lib kz (DoseJournaled pk) = outside (journal_dose pk)"
| "serve_desk lib kz (SpineTurns up) = outside (tk_spine_up_update (\<lambda>_. up))"
| "serve_desk lib kz (ClockTurns ok) = outside (tk_clock_trusted_update (\<lambda>_. ok))"

section \<open>The invariants\<close>

definition registry_ok :: "tank \<Rightarrow> bool" where
  "registry_ok s \<longleftrightarrow>
     list_all device_check (tk_devices s) \<and> list_all (\<lambda>r. device_id_ok (dv_device_id r)) (tk_devices s)
     \<and> distinct (map dv_device_id (tk_devices s))
     \<and> distinct (map dv_id (tk_devices s))
     \<and> set (tk_calibrations s) \<union> set (tk_journal s) \<subseteq> dv_id ` set (tk_devices s)
     \<and> distinct (map (\<lambda>c. (cp_source c, cp_channel c)) (tk_capabilities s))
     \<and> distinct (map (\<lambda>c. (ch_source c, ch_instance c)) (tk_chips s))
     \<and> distinct (map da_device_id (tk_assignments s))
     \<and> (\<forall>a \<in> set (tk_assignments s). validate_device_assignment a = Inr a)"

definition schedules_ok :: "(string \<Rightarrow> bool) \<Rightarrow> tank \<Rightarrow> bool" where
  "schedules_ok kz s \<longleftrightarrow>
     distinct (map ls_id (tk_schedules s)) \<and> distinct (map (\<lambda>r. sd_name (ls_definition r)) (tk_schedules s))
     \<and> (\<forall>r \<in> set (tk_schedules s). validate_schedule_definition kz (ls_definition r) = Inr (ls_definition r))
     \<and> distinct (map fst (tk_channel_schedules s))
     \<and> snd ` set (tk_channel_schedules s) \<subseteq> ls_id ` set (tk_schedules s)"

abbreviation keeps :: "('s \<Rightarrow> bool) \<Rightarrow> ('s, 'a) prog \<Rightarrow> bool" where
  "keeps J p \<equiv> always J (\<lambda>_. True) p"

lemma interleave_keeps:
  assumes "interleave is ps s = (qs, t)" "J s" "\<And>p. p \<in> set ps \<Longrightarrow> keeps J p"
  shows "J t"
  using run_always [OF assms(1), of J "\<lambda>_ _. True"] assms(2,3) by simp

section \<open>Keeping a law, by the shape of a handler\<close>

named_theorems keeping "handlers keep a law when their steps do"

lemma keeps_Finish [keeping]: "keeps J (Finish a)"
  by (rule always_Finish) simp

lemma keeps_atomic: "(\<And>s. J s \<Longrightarrow> J (snd (g s))) \<Longrightarrow> keeps J (atomic g)"
  by (rule always_atomic) simp

lemma keeps_bind: "keeps J p \<Longrightarrow> (\<And>x. keeps J (k x)) \<Longrightarrow> keeps J (prog_bind p k)"
  unfolding always_def by (rule follows_bind, erule follows_conseq) simp

lemma keeps_attempt: "keeps J p \<Longrightarrow> (\<And>x. keeps J (k x)) \<Longrightarrow> keeps J (attempt p k)"
  by (rule always_attempt, erule always_conseq) (auto split: sum.splits)

lemma keeps_catching: "keeps J p \<Longrightarrow> keeps J (catching h p)"
  unfolding catching_def by (rule keeps_bind) (auto intro: keeps_Finish)

lemma keeps_from_store: "(\<And>s. J s \<Longrightarrow> J (snd (g s))) \<Longrightarrow> keeps J (from_store g)"
  unfolding from_store_def by (intro keeps_catching keeps_atomic)

lemma keeps_at_hub: "(\<And>s h. J s \<Longrightarrow> J (s\<lparr>tk_hub := h\<rparr>)) \<Longrightarrow> keeps J (at_hub p)"
  unfolding always_def
proof (induction p)
  case (Atomic f)
  show ?case unfolding at_hub.simps follows.simps
    using Atomic.IH [OF _ _ Atomic.prems] Atomic.prems by (auto simp: split_beta fsts.simps)
qed simp

lemma keeps_refuse [keeping]: "keeps J (refuse_with n)" "keeps J (reply_with a)"
  by (simp_all add: refuse_with_def reply_with_def keeps_Finish)

lemma keeps_option [keeping]:
  "(x = None \<Longrightarrow> keeps J a) \<Longrightarrow> (\<And>y. x = Some y \<Longrightarrow> keeps J (b y)) \<Longrightarrow> keeps J (case x of None \<Rightarrow> a | Some y \<Rightarrow> b y)"
  by (cases x) auto

lemma keeps_if [keeping]:
  "(c \<Longrightarrow> keeps J a) \<Longrightarrow> (\<not> c \<Longrightarrow> keeps J b) \<Longrightarrow> keeps J (if c then a else b)"
  by simp

lemma keeps_prod [keeping]: "(\<And>a b. keeps J (f a b)) \<Longrightarrow> keeps J (case x of (a, b) \<Rightarrow> f a b)"
  by (cases x) simp

lemma keeps_outcome [keeping]:
  "keeps J a \<Longrightarrow> keeps J b \<Longrightarrow> keeps J c \<Longrightarrow> keeps J (case x of Forgotten \<Rightarrow> a | StillAdopted \<Rightarrow> b | Missing \<Rightarrow> c)"
  by (cases x) auto

lemma keeps_sum [keeping]:
  "(\<And>e. x = Inl e \<Longrightarrow> keeps J (f e)) \<Longrightarrow> (\<And>y. x = Inr y \<Longrightarrow> keeps J (g y)) \<Longrightarrow> keeps J (case x of Inl e \<Rightarrow> f e | Inr y \<Rightarrow> g y)"
  by (cases x) auto

text \<open>A curve that is stored has been validated.\<close>

lemma keeps_parse_curve:
  "(\<And>d. validate_schedule_definition kz d = Inr d \<Longrightarrow> keeps J (k d)) \<Longrightarrow> keeps J (attempt (parse_curve kz b) k)"
  by (auto simp: parse_curve_def validate_schedule_definition_def validated_def refuse_with_def reply_with_def keeps_Finish
      res_bind_def split: sum.splits option.splits)

lemma sensor_validates: "res_bind data validate_sensor_registration = Inr g \<Longrightarrow> device_id_ok (sg_sensor_id g)"
  by (auto simp: res_bind_eq_Inr validate_sensor_registration_def validated_Inr)

text \<open>Steps that only read.\<close>

lemma reading_steps [simp]:
  "snd (capability_exists src c s) = s" "snd (device_bound_to t c s) = s" "snd (match_channel b s) = s"
  "snd (match_announced b s) = s" "snd (list_devices k s) = s" "snd (list_capabilities s) = s"
  "snd (list_chip_state s) = s" "snd (detached_row i s) = s" "snd (channel_rival r s) = s"
  "snd (select_device i s) = s" "snd (forget_holders pk s) = s" "snd (thresholds_for i s) = s"
  "snd (adopted_assignments s) = s" "snd (control_authority_of i s) = s" "snd (device_labels i s) = s"
  "snd (select_channels j s) = s" "snd (first_channel j s) = s" "snd (select_schedule j s) = s"
  "snd (select_schedules s) = s" "snd (select_assignments s) = s" "snd (active_holds s) = s"
  by (simp_all add: capability_exists_def device_bound_to_def match_channel_def match_announced_def list_devices_def
      list_capabilities_def list_chip_state_def detached_row_def channel_rival_def select_device_def forget_holders_def
      thresholds_for_def adopted_assignments_def control_authority_of_def device_labels_def select_channels_def
      first_channel_def select_schedule_def select_schedules_def select_assignments_def active_holds_def)

section \<open>A law all requests keep\<close>

text \<open>
  What a law has to promise of the single steps; then every call keeps it, bindings set apart.
\<close>

locale desk_law =
  fixes J :: "tank \<Rightarrow> bool" and kz :: "string \<Rightarrow> bool"
  assumes hub: "J s \<Longrightarrow> J (s\<lparr>tk_hub := h\<rparr>)"
    and trail: "J s \<Longrightarrow> J (s\<lparr>tk_trail := es\<rparr>)"
    and switches: "J s \<Longrightarrow> J (s\<lparr>tk_spine_up := b\<rparr>)" "J s \<Longrightarrow> J (s\<lparr>tk_clock_trusted := b\<rparr>)"
    and holds: "J s \<Longrightarrow> J (s\<lparr>tk_overrides := db\<rparr>)"
    and retained: "J s \<Longrightarrow> validate_device_assignment a = Inr a \<Longrightarrow> J (publish_assignment a s)"
    and announcements: "J s \<Longrightarrow> J (snd (replace_capabilities src cs s))" "J s \<Longrightarrow> J (snd (upsert_chip_state c s))"
    and sensor: "J s \<Longrightarrow> device_id_ok (sg_sensor_id g) \<Longrightarrow> J (snd (upsert_sensor pk g s))"
    and adoption: "J s \<Longrightarrow> J (snd (unadopt_device i s))" "J s \<Longrightarrow> J (snd (adopt_again i s))"
    and deletion: "J s \<Longrightarrow> J (snd (delete_device i s))"
    and edits: "J s \<Longrightarrow> J (snd (set_display_name i n s))" "J s \<Longrightarrow> J (snd (set_thresholds i lo hi m s))"
    and history: "J s \<Longrightarrow> J (save_calibration pk s)" "J s \<Longrightarrow> J (journal_dose pk s)"
    and curves: "J s \<Longrightarrow> validate_schedule_definition kz d = Inr d \<Longrightarrow> J (snd (schedule_create i' d s))"
      "J s \<Longrightarrow> validate_schedule_definition kz d = Inr d \<Longrightarrow> J (snd (write_definition i' d s))"
      "J s \<Longrightarrow> J (snd (delete_schedule_row i' s))"
    and channels: "J s \<Longrightarrow> J (snd (upsert_channel c' i' s))" "J s \<Longrightarrow> J (snd (schedule_unassign c' s))"
begin

lemma keeps_caller [keeping]: "keeps J (caller lib d h)"
  unfolding caller_def by (rule keeps_at_hub) (rule hub)

lemma keeps_audited [keeping]: "keeps J (audited lib actor e)"
  unfolding audited_def actor_fields_def record_event_def
  by (intro keeps_attempt keeping keeps_at_hub keeps_atomic; simp add: hub trail)

lemma keeps_announce [keeping]: "keeps J (announce mid i a role t b)"
  unfolding announce_def
  by (rule keeps_atomic) (auto simp: validate_device_assignment_def validated_def split: option.splits
      intro!: retained)

lemmas parts = keeping keeps_attempt keeps_bind keeps_catching keeps_from_store keeps_atomic keeps_at_hub keeps_parse_curve

lemmas laws = hub trail switches holds retained announcements sensor adoption deletion edits history curves channels

lemma keeps_placing: "J s \<Longrightarrow> J (snd (place_hold i b s))" "J s \<Longrightarrow> J (snd (release_hold i s))"
  by (auto simp: place_hold_def release_hold_def holds split_beta split: sum.splits)

lemma keeps_readopt [keeping]: "keeps J (store_readopt_device i)"
  unfolding store_readopt_device_def by (intro parts keeping; simp add: laws)

lemma keeps_forget [keeping]: "keeps J (store_forget_device i)"
  unfolding store_forget_device_def by (intro parts keeping; simp add: laws)

lemma keeps_devices:
  "keeps J (devices lib d h)" "keeps J (sensors lib d h)" "keeps J (capabilities lib d h)" "keeps J (list_hardware lib d h)"
  "keeps J (rename_device lib d h i n)" "keeps J (unbind_device lib d h i)" "keeps J (readopt_device lib d h i)"
  "keeps J (forget_device lib d h i)" "keeps J (get_thresholds lib d h i)" "keeps J (put_thresholds lib d h i band)"
  unfolding devices_def sensors_def capabilities_def list_hardware_def rename_device_def unbind_device_def
    readopt_device_def forget_device_def get_thresholds_def put_thresholds_def Let_def
  by (intro parts keeping; simp add: laws)+

lemma keeps_consumers:
  "keeps J (on_registration pk g)" "keeps J (on_capabilities a)" "keeps J (on_chip c)"
  unfolding on_registration_def on_capabilities_def on_chip_def swallowing_def
  by (intro parts keeping; simp add: laws sensor_validates)+

lemma keeps_republish: "keeps J (republish mids rs)"
  by (induction rs) (auto intro!: parts keeping)

lemma keeps_start: "keeps J (start_api i mids)"
  unfolding start_api_def by (intro parts keeping keeps_republish; simp add: laws)

lemma keeps_schedule_store [keeping]:
  "keeps J (schedule_delete j)" "keeps J (schedule_get kz j)" "keeps J (schedule_list kz)" "keeps J (schedule_assign c j)"
  unfolding schedule_delete_def schedule_get_def schedule_list_def schedule_assign_def
  by (intro parts keeping; simp add: laws)+

lemma keeps_update: "validate_schedule_definition kz dd = Inr dd \<Longrightarrow> keeps J (schedule_update j dd)"
  unfolding schedule_update_def by (intro parts keeping; simp add: laws)

lemma keeps_displaced [keeping]: "keeps J (record_displaced lib actor p rs)"
  by (induction rs) (auto intro!: parts keeping)

lemma keeps_lights:
  "keeps J (list_schedules lib kz d h)" "keeps J (create_schedule lib kz d h b)" "keeps J (get_schedule lib kz d h j)"
  "keeps J (update_schedule lib kz d h j b)" "keeps J (delete_schedule lib kz d h j)"
  "keeps J (assign_schedule lib kz d h c j)" "keeps J (unassign_schedule lib kz d h c)"
  "keeps J (list_overrides lib d h)" "keeps J (create_override lib d h hb)" "keeps J (release_override lib d h j)"
  unfolding list_schedules_def create_schedule_def get_schedule_def update_schedule_def delete_schedule_def
    assign_schedule_def unassign_schedule_def list_overrides_def create_override_def release_override_def Let_def
  by (intro parts keeping keeps_update; simp add: laws keeps_placing)+

lemma keeps_bind_device:
  assumes "\<And>t b s. J s \<Longrightarrow> J (snd (adopt_existing t b s))" "\<And>pk b s. J s \<Longrightarrow> device_id_ok (br_device_id b) \<Longrightarrow> J (snd (insert_device pk b s))"
  shows "keeps J (bind_device lib d h body)"
  unfolding bind_device_def carry_out_binding_def store_bind_device_def
  by (intro parts keeping; simp add: assms bind_request_of_def Let_def valid_bind_body_def)

lemma keeps_call:
  assumes "\<And>d h b. c = PostDevice d h b \<Longrightarrow> keeps J (bind_device lib d h b)"
  shows "keeps J (serve_desk lib kz c)"
  by (cases c; simp add: to_devices_def to_lights_def outside_def)
    (intro parts keeping keeps_devices keeps_lights keeps_consumers keeps_start assms; simp add: laws)+

end

section \<open>Rows of devices\<close>

lemma update_devices_cases:
  obtains "update_devices f P s = (Inl (StoreError (IntegrityError ''devices'')), s)"
  | "list_all device_check (map f (filter P (tk_devices s)))"
    "update_devices f P s = (Inr (map f (filter P (tk_devices s))),
       s\<lparr>tk_devices := map (\<lambda>r. if P r then f r else r) (tk_devices s)\<rparr>)"
proof (cases "list_all device_check (map f (filter P (tk_devices s)))")
  case True
  then show ?thesis by (intro that(2)) (simp_all add: update_devices_def)
next
  case False
  then show ?thesis by (intro that(1)) (simp add: update_devices_def)
qed

lemma registry_ok_frame [simp]:
  "registry_ok (s\<lparr>tk_hub := h\<rparr>) = registry_ok s" "registry_ok (s\<lparr>tk_trail := es\<rparr>) = registry_ok s"
  "registry_ok (s\<lparr>tk_spine_up := b\<rparr>) = registry_ok s" "registry_ok (s\<lparr>tk_clock_trusted := b\<rparr>) = registry_ok s"
  "registry_ok (s\<lparr>tk_overrides := db\<rparr>) = registry_ok s" "registry_ok (s\<lparr>tk_schedules := rs\<rparr>) = registry_ok s"
  "registry_ok (s\<lparr>tk_channel_schedules := cs\<rparr>) = registry_ok s" "registry_ok (s\<lparr>tk_episodes := xs\<rparr>) = registry_ok s"
  by (simp_all add: registry_ok_def)

lemma registry_ok_update:
  assumes "registry_ok s" "\<And>r. dv_device_id (f r) = dv_device_id r" "\<And>r. dv_id (f r) = dv_id r"
  shows "registry_ok (snd (update_devices f P s))"
proof (cases rule: update_devices_cases [of f P s])
  case 2
  define ds where "ds = map (\<lambda>r. if P r then f r else r) (tk_devices s)"
  have ids: "map dv_device_id ds = map dv_device_id (tk_devices s)" "map dv_id ds = map dv_id (tk_devices s)"
    by (simp_all add: ds_def assms(2,3))
  then have "dv_id ` set ds = dv_id ` set (tk_devices s)" by (metis list.set_map)
  moreover have "list_all device_check ds" using assms(1) 2(1) by (auto simp: ds_def registry_ok_def list_all_iff)
  moreover have "list_all (\<lambda>r. device_id_ok (dv_device_id r)) ds"
    using assms(1) by (auto simp: ds_def registry_ok_def list_all_iff assms(2))
  ultimately show ?thesis using assms(1) ids 2(2) by (simp add: registry_ok_def flip: ds_def)
qed (use assms(1) in simp)

lemma adopt_again_update:
  "snd (adopt_again i s) = s \<or> snd (adopt_again i s) = snd (update_devices (\<lambda>r. r\<lparr>dv_adopted := True\<rparr>) (\<lambda>r. dv_device_id r = i) s)"
  by (auto simp: adopt_again_def split: prod.splits sum.splits list.splits)

lemma set_thresholds_update:
  "snd (set_thresholds i lo hi m s) = s \<or>
   (\<exists>xs. snd (set_thresholds i lo hi m s) = (snd (update_devices (with_band lo hi m) (\<lambda>r. dv_device_id r = i) s))\<lparr>tk_episodes := xs\<rparr>)"
  by (auto simp: set_thresholds_def Let_def split: prod.splits sum.splits list.splits)

lemma row_of_None: "row_of i s = None \<longleftrightarrow> i \<notin> dv_device_id ` set (tk_devices s)"
  by (simp add: row_of_def find_key_out)

lemma registry_ok_insert:
  assumes "registry_ok s" "device_check r" "device_id_ok (dv_device_id r)" "dv_device_id r \<notin> dv_device_id ` set (tk_devices s)" "dv_id r \<notin> dv_id ` set (tk_devices s)"
  shows "registry_ok (s\<lparr>tk_devices := tk_devices s @ [r]\<rparr>)"
  using assms by (auto simp: registry_ok_def)

text \<open>An upsert keeps a key unique.\<close>

lemma distinct_upsert:
  assumes "distinct (map key rs)" "\<And>r. P r \<longleftrightarrow> key r = k" "\<And>r. key r = k \<Longrightarrow> key (f r) = k" "key new = k"
  shows "distinct (map key (if list_ex P rs then map (\<lambda>r. if P r then f r else r) rs else rs @ [new]))"
proof -
  have "map key (map (\<lambda>r. if P r then f r else r) rs) = map key rs" by (simp add: assms(2,3))
  with assms(1,2,4) show ?thesis by (auto simp: list_ex_iff simp del: map_map)
qed

lemma distinct_capabilities:
  assumes "distinct (map (\<lambda>c. (cp_source c, cp_channel c)) rows)"
  shows "distinct (map (\<lambda>c. (cp_source c, cp_channel c)) (fold (upsert_capability src now) cs rows))"
  using assms
proof (induction cs arbitrary: rows)
  case (Cons c cs)
  have "distinct (map (\<lambda>c. (cp_source c, cp_channel c)) (upsert_capability src now c rows))"
    unfolding upsert_capability_def
    by (rule distinct_upsert [OF Cons.prems, where k = "(src, cc_channel c)"]) (auto simp: announced_def)
  from Cons.IH [OF this] show ?case by simp
qed simp

lemma distinct_chips:
  assumes "distinct (map (\<lambda>c. (ch_source c, ch_instance c)) (tk_chips s))"
  shows "distinct (map (\<lambda>c. (ch_source c, ch_instance c)) (tk_chips (snd (upsert_chip_state c s))))"
proof -
  have "distinct (map (\<lambda>c. (ch_source c, ch_instance c))
      (if list_ex (\<lambda>r. ch_source r = ch_source c \<and> ch_instance r = ch_instance c) (tk_chips s)
       then map (\<lambda>r. if ch_source r = ch_source c \<and> ch_instance r = ch_instance c then c else r) (tk_chips s)
       else tk_chips s @ [c]))"
    by (rule distinct_upsert [OF assms, where k = "(ch_source c, ch_instance c)"]) auto
  then show ?thesis by (simp add: upsert_chip_state_def)
qed

lemma registry_ok_delete:
  assumes "registry_ok s"
  shows "registry_ok (snd (delete_device i s))"
proof (cases "row_of i s")
  case (Some r)
  then have r: "r \<in> set (tk_devices s)" "dv_device_id r = i" by (auto simp: row_of_def dest: find_key_in)
  have only: "q = r" if "q \<in> set (tk_devices s)" "dv_device_id q = i" for q
    using assms r that by (auto simp: registry_ok_def distinct_map dest: inj_onD)
  show ?thesis
  proof (cases "dv_id r \<in> set (tk_calibrations s) \<or> dv_id r \<in> set (tk_journal s)")
    case False
    have "set (tk_calibrations s) \<union> set (tk_journal s) \<subseteq> dv_id ` set (filter (\<lambda>r. dv_device_id r \<noteq> i) (tk_devices s))"
    proof
      fix pk
      assume pk: "pk \<in> set (tk_calibrations s) \<union> set (tk_journal s)"
      moreover have "set (tk_calibrations s) \<union> set (tk_journal s) \<subseteq> dv_id ` set (tk_devices s)"
        using assms by (simp add: registry_ok_def)
      ultimately obtain q where q: "q \<in> set (tk_devices s)" "dv_id q = pk" by blast
      with only [OF q(1)] pk False have "dv_device_id q \<noteq> i" by blast
      with q show "pk \<in> dv_id ` set (filter (\<lambda>r. dv_device_id r \<noteq> i) (tk_devices s))" by simp blast
    qed
    moreover have "snd (delete_device i s) = s\<lparr>tk_devices := filter (\<lambda>r. dv_device_id r \<noteq> i) (tk_devices s)\<rparr>"
      using Some False by (simp add: delete_device_def)
    ultimately show ?thesis using assms by (simp add: registry_ok_def list_all_iff distinct_map_filter)
  qed (use assms Some in \<open>auto simp: delete_device_def\<close>)
qed (use assms in \<open>simp add: delete_device_def\<close>)

interpretation registry: desk_law registry_ok kz
proof unfold_locales
  fix s :: tank
  assume ok: "registry_ok s"
  show "validate_device_assignment a = Inr a \<Longrightarrow> registry_ok (publish_assignment a s)" for a
    using ok by (auto simp: publish_assignment_def retain_def registry_ok_def distinct_map_filter)
  show "registry_ok (snd (replace_capabilities src cs s))" for src cs
    using ok by (auto simp: replace_capabilities_def registry_ok_def Let_def intro!: distinct_capabilities distinct_map_filter)
  show "registry_ok (snd (upsert_chip_state c s))" for c
    using ok distinct_chips [of s c] by (simp add: upsert_chip_state_def registry_ok_def)
  show "registry_ok (snd (upsert_sensor pk g s))" if g: "device_id_ok (sg_sensor_id g)" for pk g
  proof (cases "row_of (sg_sensor_id g) s = None")
    case True
    with ok g show ?thesis
      by (auto simp: upsert_sensor_def row_of_None announced_sensor_def intro!: registry_ok_insert)
  next
    case False
    then have "snd (upsert_sensor pk g s) = snd (update_devices (\<lambda>r. r\<lparr>dv_driver_id := sg_driver_id g,
        dv_sensor_type := Some (sg_sensor_type g), dv_poll_interval_s := Some (sg_poll_interval_s g),
        dv_transport := Some (sg_transport g)\<rparr>) (\<lambda>r. dv_device_id r = sg_sensor_id g) s)"
      by (auto simp: upsert_sensor_def)
    then show ?thesis using ok by (simp add: registry_ok_update)
  qed
  show "registry_ok (snd (unadopt_device i s))" "registry_ok (snd (set_display_name i n s))" for i n
    using ok by (auto simp: unadopt_device_def set_display_name_def intro!: registry_ok_update)
  show "registry_ok (snd (adopt_again i s))" for i
    using adopt_again_update [of i s] ok by (auto intro!: registry_ok_update)
  show "registry_ok (snd (set_thresholds i lo hi m s))" for i lo hi m
    using set_thresholds_update [of i lo hi m s] ok by (auto simp: with_band_def intro!: registry_ok_update)
  show "registry_ok (snd (delete_device i s))" for i
    using ok by (rule registry_ok_delete)
  show "registry_ok (save_calibration pk s)" "registry_ok (journal_dose pk s)" for pk
    using ok by (auto simp: save_calibration_def journal_dose_def registry_ok_def)
qed (auto simp: schedule_create_def write_definition_def delete_schedule_row_def upsert_channel_def schedule_unassign_def)

section \<open>Curves\<close>

lemma schedules_ok_frame [simp]:
  "schedules_ok kz (s\<lparr>tk_hub := h\<rparr>) = schedules_ok kz s" "schedules_ok kz (s\<lparr>tk_trail := es\<rparr>) = schedules_ok kz s"
  "schedules_ok kz (s\<lparr>tk_spine_up := b\<rparr>) = schedules_ok kz s"
  "schedules_ok kz (s\<lparr>tk_clock_trusted := b\<rparr>) = schedules_ok kz s"
  "schedules_ok kz (s\<lparr>tk_overrides := db\<rparr>) = schedules_ok kz s" "schedules_ok kz (s\<lparr>tk_devices := rs\<rparr>) = schedules_ok kz s"
  "schedules_ok kz (s\<lparr>tk_episodes := xs\<rparr>) = schedules_ok kz s" "schedules_ok kz (s\<lparr>tk_assignments := as\<rparr>) = schedules_ok kz s"
  "schedules_ok kz (s\<lparr>tk_capabilities := cs\<rparr>) = schedules_ok kz s" "schedules_ok kz (s\<lparr>tk_chips := hs\<rparr>) = schedules_ok kz s"
  "schedules_ok kz (s\<lparr>tk_calibrations := pks\<rparr>) = schedules_ok kz s" "schedules_ok kz (s\<lparr>tk_journal := pks\<rparr>) = schedules_ok kz s"
  by (simp_all add: schedules_ok_def)

lemma schedules_ok_update_devices [simp]: "schedules_ok kz (snd (update_devices f P s)) = schedules_ok kz s"
  by (simp add: update_devices_def Let_def)

lemma name_taken_iff: "name_taken rows n \<longleftrightarrow> n \<in> (\<lambda>r. sd_name (ls_definition r)) ` set rows"
  by (auto simp: name_taken_def list_ex_iff)

lemma schedule_row_None: "schedule_row_of i s = None \<longleftrightarrow> i \<notin> ls_id ` set (tk_schedules s)"
  by (simp add: schedule_row_of_def find_key_out)

lemma set_alist_put: "set (alist_put k v xs) \<subseteq> insert (k, v) (set xs)"
  by (induction k v xs rule: alist_put.induct) auto

lemma snd_alist_put: "snd ` set (alist_put k v xs) \<subseteq> insert v (snd ` set xs)"
  using set_alist_put [of k v xs] by force

lemma schedules_ok_channel:
  assumes "schedules_ok kz s"
  shows "schedules_ok kz (snd (upsert_channel c i s))"
proof (cases "64 < length c \<or> schedule_row_of i s = None")
  case False
  then have "snd (upsert_channel c i s) = s\<lparr>tk_channel_schedules := alist_put c i (tk_channel_schedules s)\<rparr>"
    "i \<in> ls_id ` set (tk_schedules s)"
    by (auto simp: upsert_channel_def schedule_row_None)
  moreover have "snd ` set (alist_put c i (tk_channel_schedules s)) \<subseteq> ls_id ` set (tk_schedules s)"
    using snd_alist_put [of c i "tk_channel_schedules s"] assms calculation(2) unfolding schedules_ok_def by blast
  ultimately show ?thesis using assms by (simp add: schedules_ok_def distinct_alist_put)
qed (use assms in \<open>auto simp: upsert_channel_def\<close>)

lemma schedules_ok_create:
  assumes "schedules_ok kz s" "validate_schedule_definition kz d = Inr d"
  shows "schedules_ok kz (snd (schedule_create i d s))"
  using assms by (auto simp: schedule_create_def schedules_ok_def schedule_row_None name_taken_iff)

lemma schedules_ok_write:
  assumes ok: "schedules_ok kz s" and d: "validate_schedule_definition kz d = Inr d"
  shows "schedules_ok kz (snd (write_definition i d s))"
proof (cases "schedule_row_of i s \<noteq> None \<and> name_taken (filter (\<lambda>r. ls_id r \<noteq> i) (tk_schedules s)) (sd_name d)")
  case False
  let ?f = "\<lambda>r. if ls_id r = i then r\<lparr>ls_definition := d\<rparr> else r"
  have ids: "map ls_id (map ?f rs) = map ls_id rs" for rs by simp
  have names: "distinct (map (\<lambda>r. sd_name (ls_definition r)) (map ?f rs))"
    if "distinct (map ls_id rs)" "distinct (map (\<lambda>r. sd_name (ls_definition r)) rs)"
      "i \<notin> ls_id ` set rs \<or> \<not> name_taken (filter (\<lambda>r. ls_id r \<noteq> i) rs) (sd_name d)" for rs
    using that
  proof (induction rs)
    case (Cons r rs)
    show ?case
    proof (cases "ls_id r = i")
      case True
      with Cons.prems(1) have "i \<notin> ls_id ` set rs" by simp
      then have "map ?f rs = rs" "filter (\<lambda>r. ls_id r \<noteq> i) rs = rs" by (induction rs) auto
      with True Cons.prems show ?thesis by (simp add: name_taken_iff)
    next
      case False
      with Cons show ?thesis by (fastforce simp: name_taken_iff)
    qed
  qed simp
  have snd: "snd (write_definition i d s) = s\<lparr>tk_schedules := map ?f (tk_schedules s)\<rparr>"
    using False by (auto simp: write_definition_def)
  have "distinct (map ls_id (map ?f (tk_schedules s)))" "ls_id ` set (map ?f (tk_schedules s)) = ls_id ` set (tk_schedules s)"
    using ok ids [of "tk_schedules s"] list.set_map [of ls_id "map ?f (tk_schedules s)"]
    by (simp_all only: schedules_ok_def list.set_map)
  moreover have "distinct (map (\<lambda>r. sd_name (ls_definition r)) (map ?f (tk_schedules s)))"
    using ok False by (intro names) (auto simp: schedules_ok_def schedule_row_None)
  moreover have "\<forall>r \<in> set (map ?f (tk_schedules s)). validate_schedule_definition kz (ls_definition r) = Inr (ls_definition r)"
    using ok d by (auto simp: schedules_ok_def)
  ultimately show ?thesis using ok unfolding snd by (simp add: schedules_ok_def del: map_map list.set_map)
qed (use ok in \<open>simp add: write_definition_def\<close>)

interpretation curves: desk_law "schedules_ok kz" kz
proof unfold_locales
  fix s :: tank
  assume ok: "schedules_ok kz s"
  show "schedules_ok kz (snd (schedule_create i d s))" "schedules_ok kz (snd (write_definition i d s))"
    if "validate_schedule_definition kz d = Inr d" for i d
    using ok that by (simp_all add: schedules_ok_create schedules_ok_write)
  show "schedules_ok kz (snd (delete_schedule_row i s))" for i
    using ok by (force simp: delete_schedule_row_def schedules_ok_def distinct_map_filter)
  show "schedules_ok kz (snd (upsert_channel c i s))" for c i
    using ok by (rule schedules_ok_channel)
  show "schedules_ok kz (snd (schedule_unassign c s))" for c
    using ok by (auto simp: schedule_unassign_def schedules_ok_def distinct_map_filter)
  show "schedules_ok kz (snd (set_thresholds i lo hi m s))" for i lo hi m
    using set_thresholds_update [of i lo hi m s] ok by auto
  show "schedules_ok kz (snd (adopt_again i s))" for i
    using adopt_again_update [of i s] ok by auto
qed (auto simp: publish_assignment_def replace_capabilities_def upsert_chip_state_def upsert_sensor_def unadopt_device_def
    set_display_name_def delete_device_def save_calibration_def journal_dose_def Let_def split: option.splits)

lemma keeps_binding:
  "keeps registry_ok (bind_device lib d h b)" "keeps (schedules_ok kz) (bind_device lib d h b)"
proof -
  show "keeps registry_ok (bind_device lib d h b)"
    by (rule registry.keeps_bind_device)
      (auto simp: adopt_existing_def insert_device_def row_of_None rebound_def new_device_def
        intro!: registry_ok_update registry_ok_insert)
  show "keeps (schedules_ok kz) (bind_device lib d h b)"
    by (rule curves.keeps_bind_device) (auto simp: adopt_existing_def insert_device_def)
qed

theorem call_keeps: "keeps registry_ok (serve_desk lib kz c)" "keeps (schedules_ok kz) (serve_desk lib kz c)"
  by (rule registry.keeps_call curves.keeps_call, rule keeps_binding)+

section \<open>What the engine reads\<close>

lemma build_curves_ok:
  assumes "\<forall>(c, r) \<in> set rows. validate_schedule_definition kz (ls_definition r) = Inr (ls_definition r)"
  shows "build_curves kz rows cs = Inr (fold (\<lambda>(c, r). alist_put c (ls_definition r)) rows cs)"
  using assms by (induction rows arbitrary: cs) (auto simp: build_definition_def)

lemma joined_rows: "(c, r) \<in> set (joined s) \<longleftrightarrow> r \<in> set (tk_schedules s) \<and> (c, ls_id r) \<in> set (tk_channel_schedules s)"
  by (auto simp: joined_def)

lemma filter_key:
  assumes "distinct (map key rs)"
  shows "filter (\<lambda>r. key r = k) rs = (case find (\<lambda>r. key r = k) rs of None \<Rightarrow> [] | Some r \<Rightarrow> [r])"
  using assms
proof (induction rs)
  case (Cons r rs)
  show ?case
  proof (cases "key r = k")
    case True
    then have "filter (\<lambda>r. key r = k) rs = []" using Cons.prems by (induction rs) auto
    with True show ?thesis by simp
  qed (use Cons in simp)
qed simp

lemma map_of_fold_rows:
  "map_of (fold (\<lambda>(c, r). alist_put c (g r)) rows cs) = (\<lambda>c. case map_of (rev rows) c of None \<Rightarrow> map_of cs c | Some r \<Rightarrow> Some (g r))"
  by (induction rows arbitrary: cs) (auto simp: map_add_def split: option.splits intro!: ext)

lemma distinct_fold_rows:
  "distinct (map fst cs) \<Longrightarrow> distinct (map fst (fold (\<lambda>(c, r). alist_put c (g r)) rows cs))"
  by (induction rows arbitrary: cs) (auto simp: distinct_alist_put)

definition curve_of :: "tank \<Rightarrow> string \<Rightarrow> schedule_definition option" where
  "curve_of s c = Option.bind (map_of (tk_channel_schedules s) c) (\<lambda>i. map_option ls_definition (schedule_row_of i s))"

lemma joined_keys:
  assumes "schedules_ok kz s"
  shows "map fst (joined s) = map fst (tk_channel_schedules s)" "map_of (joined s) c = Option.bind (map_of (tk_channel_schedules s) c) (\<lambda>i. schedule_row_of i s)"
proof -
  have one: "filter (\<lambda>r. ls_id r = i) (tk_schedules s) = (case schedule_row_of i s of None \<Rightarrow> [] | Some r \<Rightarrow> [r])" for i
    using assms by (simp add: schedules_ok_def schedule_row_of_def filter_key)
  have all: "\<forall>(c, i) \<in> set (tk_channel_schedules s). schedule_row_of i s \<noteq> None"
    using assms by (auto simp: schedules_ok_def schedule_row_None)
  have "map fst (concat (map (\<lambda>(c, i). map (Pair c) (filter (\<lambda>r. ls_id r = i) (tk_schedules s))) xs)) = map fst xs
      \<and> map_of (concat (map (\<lambda>(c, i). map (Pair c) (filter (\<lambda>r. ls_id r = i) (tk_schedules s))) xs)) c
        = Option.bind (map_of xs c) (\<lambda>i. schedule_row_of i s)"
    if "\<forall>(c, i) \<in> set xs. schedule_row_of i s \<noteq> None" for xs
    using that by (induction xs) (auto simp: one)
  from this [OF all] show "map fst (joined s) = map fst (tk_channel_schedules s)"
    "map_of (joined s) c = Option.bind (map_of (tk_channel_schedules s) c) (\<lambda>i. schedule_row_of i s)"
    by (simp_all add: joined_def)
qed

lemma curves_read:
  assumes "schedules_ok kz s"
  shows "\<exists>curves. assigned_curves kz s = (Inr curves, s) \<and> distinct (map fst curves) \<and> map_of curves = curve_of s
    \<and> (\<forall>(c, d) \<in> set curves. validate_schedule_definition kz d = Inr d)"
proof -
  let ?curves = "fold (\<lambda>(c, r). alist_put c (ls_definition r)) (joined s) []"
  have valid: "\<forall>(c, r) \<in> set (joined s). validate_schedule_definition kz (ls_definition r) = Inr (ls_definition r)"
    using assms by (auto simp: joined_rows schedules_ok_def)
  have distinct: "distinct (map fst ?curves)" by (rule distinct_fold_rows) simp
  have "distinct (map fst (joined s))" using joined_keys(1) [OF assms] assms by (simp add: schedules_ok_def)
  then have "map_of (rev (joined s)) = map_of (joined s)" by (subst map_of_inject_set) (simp_all flip: rev_map)
  then have "map_of ?curves = curve_of s"
    by (intro ext) (auto simp: map_of_fold_rows joined_keys(2) [OF assms] curve_of_def split: option.splits Option.bind_splits)
  moreover have "validate_schedule_definition kz d = Inr d" if "(c, d) \<in> set ?curves" for c d
  proof -
    have "map_of ?curves c = Some d" using that distinct by simp
    then obtain r where "(c, r) \<in> set (joined s)" "d = ls_definition r"
      by (auto simp: map_of_fold_rows split: option.splits dest!: map_of_SomeD)
    then show ?thesis using valid by auto
  qed
  ultimately show ?thesis using distinct build_curves_ok [OF valid] by (auto simp: assigned_curves_def)
qed

section \<open>A tank, for the witnesses\<close>

definition demo_light :: "uuid \<Rightarrow> string \<Rightarrow> string \<Rightarrow> bool \<Rightarrow> device_row" where
  "demo_light pk i c adopted =
     \<lparr>dv_id = pk, dv_device_id = i, dv_kind = KindActuator, dv_driver_id = ''pi-pwm'', dv_sensor_type = None,
      dv_poll_interval_s = None, dv_actuator_class = Some Pwm, dv_control_authority = Some Authoritative,
      dv_failsafe_capable = Some True, dv_transport = Some Local, dv_role = Some Light, dv_safe_state = Some (PwmLevel 0),
      dv_max_runtime_s = Some 3600, dv_heartbeat_timeout_s = Some 15, dv_alert_min = None, dv_alert_max = None,
      dv_alert_clear_margin = None, dv_display_name = None, dv_location = None, dv_driver_type = Some ''pi-pwm'',
      dv_binding = Some [(''channel'', c)], dv_adopted = adopted, dv_enabled = True\<rparr>"

definition demo_probe :: device_row where
  "demo_probe =
     \<lparr>dv_id = 3, dv_device_id = ''probe'', dv_kind = KindSensor, dv_driver_id = ''ds18b20'', dv_sensor_type = Some ''temp'',
      dv_poll_interval_s = Some 10, dv_actuator_class = None, dv_control_authority = None, dv_failsafe_capable = None,
      dv_transport = Some Local, dv_role = None, dv_safe_state = None, dv_max_runtime_s = None, dv_heartbeat_timeout_s = None,
      dv_alert_min = None, dv_alert_max = None, dv_alert_clear_margin = None, dv_display_name = None, dv_location = None,
      dv_driver_type = Some ''ds18b20'', dv_binding = Some [(''rom'', ''28-0'')], dv_adopted = True, dv_enabled = True\<rparr>"

definition demo_channel :: "string \<Rightarrow> capability_row" where
  "demo_channel c = \<lparr>cp_source = ''pi-pwm'', cp_channel = c, cp_detail = [], cp_announced_at = 900\<rparr>"

definition demo_zone :: "string \<Rightarrow> bool" where
  "demo_zone z = (z = ''UTC'')"

definition demo_day :: schedule_definition where
  "demo_day = \<lparr>sd_name = ''day'', sd_zone = ''UTC'', sd_anchor = Clock, sd_locale = None, sd_points = sample_points\<rparr>"

text \<open>Blue is driven by a schedule, green is detached.\<close>

definition demo_tank :: tank where
  "demo_tank =
     \<lparr>tk_devices = [demo_light 1 ''blue'' ''0'' True, demo_light 2 ''green'' ''1'' False, demo_probe],
      tk_capabilities = [demo_channel ''0'', demo_channel ''1'', demo_channel ''2''], tk_chips = [],
      tk_calibrations = [3], tk_journal = [], tk_episodes = [], tk_schedules = [\<lparr>ls_id = 7, ls_definition = demo_day\<rparr>],
      tk_channel_schedules = [(''blue'', 7)], tk_overrides = [],
      tk_assignments = [assignment_message 8 900 ''blue'' True (Some Light) (Some ''pi-pwm'') (Some [(''channel'', ''0'')])],
      tk_spine_up = True, tk_clock_trusted = True, tk_trail = [], tk_hub = ann_hub\<rparr>"

definition demo_draws :: "nat \<Rightarrow> desk_draws" where
  "demo_draws n = \<lparr>dd_key = ''key'', dd_id = n, dd_message = n + 100\<rparr>"

definition demo_token :: "string option" where
  "demo_token = Some ''Bearer ann''"

lemmas demo_defs = demo_light_def demo_probe_def demo_channel_def demo_tank_def

lemma demo_token_bodies: "token_body ''blue''" "token_body ''green''" "token_body ''probe''" "token_body ''api''"
  "token_body ''red''" "token_body ''azure''"
  by (simp_all add: token_body_def lower_alnum_def token_chars_def)

lemma demo_registry_ok: "registry_ok demo_tank"
  by (simp add: registry_ok_def demo_defs device_check_def known_driver_def device_id_ok_def demo_token_bodies
      validate_device_assignment_def validated_Inr message_guards_def assignment_message_def)

lemma demo_day_valid: "validate_schedule_definition demo_zone demo_day = Inr demo_day"
  by (simp add: validate_schedule_definition_def validated_def demo_day_def str_len_ok_def opt_ok_def sample_points_def
      validate_curve_def point_seconds_def demo_zone_def)

lemma demo_schedules_ok: "schedules_ok demo_zone demo_tank"
  by (simp add: schedules_ok_def demo_defs demo_day_valid)

text \<open>
  C18. What every mix of requests keeps. However the steps of any requests, messages of the hardware,
  restarts, pairings and records of history interleave, device ids and primary keys stay unique, every
  row satisfies its table's constraints, no row of history loses its device, the retained stream
  holds at most one message per device and every message is valid; schedules keep unique ids and
  names, every assigned channel's schedule exists, every stored curve validates, and so the read the
  engine makes succeeds in the state any of these interleavings ends in.
\<close>

theorem registry_is_sound:
  assumes "interleave is (map (serve_desk lib kz) cs) s = (qs, t)" "registry_ok s" "schedules_ok kz s"
  shows "registry_ok t \<and> schedules_ok kz t
    \<and> (\<exists>curves. assigned_curves kz t = (Inr curves, t) \<and> distinct (map fst curves) \<and> map_of curves = curve_of t)"
proof -
  have "registry_ok t"
    by (rule interleave_keeps [where J = registry_ok, OF assms(1,2)]) (auto intro: call_keeps)
  moreover have "schedules_ok kz t"
    by (rule interleave_keeps [where J = "schedules_ok kz", OF assms(1,3)]) (auto intro: call_keeps)
  ultimately show ?thesis using curves_read [of kz t] by blast
qed

theorem registry_is_sound_witness:
  "registry_ok (snd (interleave [0, 1, 0, 2, 0, 1, 0, 1, 0, 1]
     (map (serve_desk ann_lib demo_zone)
       [PostForget (demo_draws 20) demo_token ''green'', PostReadopt (demo_draws 21) demo_token ''green'', DoseJournaled 2]) demo_tank))"
  using registry_is_sound [OF surjective_pairing demo_registry_ok demo_schedules_ok] by blast

end
