(* ===== verification/Devices.thy ===== *)
theory Devices
  imports Registry
begin

text \<open>
  The device registry: what binding, unbinding, re-adopting, forgetting and the alert bands do, one
  request at a time and when two requests race.
\<close>

section \<open>Who is asking\<close>

definition signed_in :: "crypto \<Rightarrow> string option \<Rightarrow> uuid \<Rightarrow> tank \<Rightarrow> bool" where
  "signed_in lib h actor s \<longleftrightarrow> (\<forall>k. run_alone (current_client lib k h) (tk_hub s) = (Inr actor, tk_hub s))"

lemma run_at_hub: "run_alone (at_hub p) s = (case run_alone p (tk_hub s) of (a, h) \<Rightarrow> (a, s\<lparr>tk_hub := h\<rparr>))"
proof (induction p arbitrary: s)
  case (Atomic f)
  show ?case using Atomic [of "f (tk_hub s)" "fst (f (tk_hub s))" "s\<lparr>tk_hub := snd (f (tk_hub s))\<rparr>"]
    by (simp add: fsts.simps split_beta)
qed simp

lemma run_caller: "signed_in lib h actor s \<Longrightarrow> run_alone (caller lib d h) s = (Inr actor, s)"
  by (simp add: signed_in_def caller_def run_at_hub)

lemma run_catching: "run_alone (catching f p) s = (case run_alone p s of (r, t) \<Rightarrow> (map_sum f id r, t))"
  by (simp add: catching_def run_alone_bind split: prod.splits)

lemma run_from_store [simp]: "run_alone (from_store g) s = apfst (map_sum uncaught id) (g s)"
  by (simp add: from_store_def run_catching apfst_def map_prod_def split: prod.splits)

definition actor_of :: "crypto \<Rightarrow> uuid \<Rightarrow> tank \<Rightarrow> string" where
  "actor_of lib actor s = actor_name (cr_uuid_text lib) actor (map_option cl_name (find_client actor (tk_hub s)))"

lemma run_audited [simp]:
  "run_alone (audited lib actor ev) s = (Inr (), s\<lparr>tk_trail := tk_trail s @ [ev (actor_of lib actor s)]\<rparr>)"
  by (simp add: audited_def actor_fields_def record_event_def run_at_hub store_client_name_def reply_with_def actor_of_def)

lemma run_replies [simp]: "run_alone (reply_with a) s = (Inr a, s)" "run_alone (refuse_with n) s = (Inl (Http n), s)"
  by (simp_all add: reply_with_def refuse_with_def)

lemma run_announce:
  assumes "device_id_ok i" "a \<Longrightarrow> t \<noteq> None \<and> b \<noteq> None"
  shows "run_alone (announce mid i a role t b) s
    = (Inr (), publish_assignment (assignment_message mid (hb_wall (tk_hub s)) i a role t b) s)"
proof -
  have "device_id_ok ''api''" by (simp add: device_id_ok_def token_body_def lower_alnum_def token_chars_def)
  then have "validate_device_assignment (assignment_message mid now i a role t b) = Inr (assignment_message mid now i a role t b)" for now
    using assms by (auto simp: validate_device_assignment_def validated_Inr message_guards_def assignment_message_def)
  then show ?thesis by (simp add: announce_def)
qed

lemma signed_in_frame [simp]:
  "signed_in lib h actor (s\<lparr>tk_devices := x1\<rparr>) = signed_in lib h actor s"
  "signed_in lib h actor (s\<lparr>tk_trail := x2\<rparr>) = signed_in lib h actor s"
  "signed_in lib h actor (s\<lparr>tk_assignments := x3\<rparr>) = signed_in lib h actor s"
  "signed_in lib h actor (publish_assignment x4 s) = signed_in lib h actor s"
  by (simp_all add: signed_in_def publish_assignment_def)

section \<open>Alert bands\<close>

text \<open>A valid body is a band the table accepts on a sensor.\<close>

lemma valid_band_checks:
  assumes "valid_band_body b" "device_check r" "dv_kind r = KindSensor"
  shows "device_check (with_band (tb_minimum b) (tb_maximum b) (tb_clear_margin b) r)"
  using assms by (auto simp: device_check_def with_band_def valid_band_body_def split: option.splits)

lemma row_unique:
  assumes "registry_ok s" "r \<in> set (tk_devices s)" "q \<in> set (tk_devices s)" "dv_device_id r = dv_device_id q"
  shows "r = q"
  using assms by (auto simp: registry_ok_def distinct_map dest: inj_onD)

lemma row_of_mem: "row_of i s = Some r \<Longrightarrow> r \<in> set (tk_devices s) \<and> dv_device_id r = i"
  unfolding row_of_def by (rule find_key_in)

lemma filter_row: "registry_ok s \<Longrightarrow> row_of i s = Some r \<Longrightarrow> filter (\<lambda>r. dv_device_id r = i) (tk_devices s) = [r]"
  by (simp add: filter_key registry_ok_def row_of_def)

lemma update_row:
  assumes "registry_ok s" "row_of i s = Some r"
  shows "update_devices f (\<lambda>r. dv_device_id r = i) s =
    (if device_check (f r) then (Inr [f r], s\<lparr>tk_devices := map (\<lambda>r. if dv_device_id r = i then f r else r) (tk_devices s)\<rparr>)
     else (Inl (StoreError (IntegrityError ''devices'')), s))"
  by (simp add: update_devices_def filter_row [OF assms])

lemma row_of_update:
  assumes "row_of i s = Some r" "\<And>r. dv_device_id (f r) = dv_device_id r"
  shows "row_of i (s\<lparr>tk_devices := map (\<lambda>r. if dv_device_id r = i then f r else r) (tk_devices s)\<rparr>) = Some (f r)"
proof -
  have "dv_device_id (if dv_device_id r = i then f r else r) = dv_device_id r" for r by (simp add: assms(2))
  from find_map_key [where key = dv_device_id, OF this] assms(1) row_of_mem [OF assms(1)] show ?thesis
    by (simp add: row_of_def)
qed

lemma with_band_id [simp]: "dv_device_id (with_band lo hi m r) = dv_device_id r"
  by (simp add: with_band_def)

lemma row_of_trail [simp]: "row_of i (s\<lparr>tk_trail := es\<rparr>) = row_of i s" "row_of i (s\<lparr>tk_episodes := xs\<rparr>) = row_of i s"
  by (simp_all add: row_of_def)

lemma closing_checks: "episode_check e \<Longrightarrow> ep_raised_at e \<le> now \<Longrightarrow> removed_bound lo hi i e \<Longrightarrow> episode_check (closed_by_config now e)"
  by (auto simp: episode_check_def closed_by_config_def removed_bound_def ep_open_def)

lemma set_thresholds_stored:
  assumes "registry_ok s" "row_of i s = Some r" "device_check (with_band lo hi m r)"
    "\<forall>e \<in> set (tk_episodes s). episode_check e \<and> ep_raised_at e \<le> hb_wall (tk_hub s)"
  shows "\<exists>bs t. set_thresholds i lo hi m s = (Inr (Some (with_band lo hi m r, bs)), t)
    \<and> row_of i t = Some (with_band lo hi m r) \<and> tk_hub t = tk_hub s
    \<and> (\<forall>e \<in> set (tk_episodes t). \<not> removed_bound lo hi i e)"
proof -
  have "list_all (\<lambda>e. episode_check (closed_by_config (hb_wall (tk_hub s)) e)) (filter (removed_bound lo hi i) (tk_episodes s))"
    using assms(4) closing_checks by (auto simp: list_all_iff)
  moreover have "\<not> removed_bound lo hi i (closed_by_config now e)" for e now
    by (simp add: removed_bound_def closed_by_config_def ep_open_def)
  ultimately show ?thesis
    using assms(3) row_of_update [OF assms(2), of "with_band lo hi m"]
    by (auto simp: set_thresholds_def update_row [OF assms(1,2)] Let_def)
qed

text \<open>
  C26. What a PUT of an alert band answers. A band the request's own checks accept is stored on a
  sensor, closing the open episodes of the bounds it removes, and answered with the band; an
  actuator refuses any bound with a 409. But a body that sets only the clearing margin passes both
  checks on an actuator and then violates the table's constraint: the request ends in a 500, the
  row untouched, although the checks are there so that no constraint is ever what refuses.
\<close>

theorem band_requests:
  assumes "registry_ok s" "signed_in lib h actor s" "valid_band_body b" "row_of i s = Some r"
    "\<forall>e \<in> set (tk_episodes s). episode_check e \<and> ep_raised_at e \<le> hb_wall (tk_hub s)"
    "run_alone (put_thresholds lib d h i b) s = (answer, t)"
  shows "case dv_kind r of
      KindSensor \<Rightarrow>
        answer = Inr (Band \<lparr>tv_device_id = i, tv_minimum = tb_minimum b, tv_maximum = tb_maximum b,
                            tv_clear_margin = tb_clear_margin b\<rparr>)
        \<and> row_of i t = Some (with_band (tb_minimum b) (tb_maximum b) (tb_clear_margin b) r)
        \<and> (\<forall>e \<in> set (tk_episodes t). \<not> removed_bound (tb_minimum b) (tb_maximum b) i e)
    | KindActuator \<Rightarrow>
        (if tb_minimum b \<noteq> None \<or> tb_maximum b \<noteq> None then answer = Inl (Http 409) \<and> t = s
         else if tb_clear_margin b \<noteq> None then answer = Inl (Crash (IntegrityError ''devices'')) \<and> t = s
         else \<exists>v. answer = Inr (Band v))"
proof -
  let ?f = "with_band (tb_minimum b) (tb_maximum b) (tb_clear_margin b)"
  note run = assms(6) [unfolded put_thresholds_def, simplified, unfolded run_caller [OF assms(2)], simplified]
  have r: "device_check r" "dv_device_id r = i"
    using row_of_mem [OF assms(4)] assms(1) by (auto simp: registry_ok_def list_all_iff)
  note stored = set_thresholds_stored [OF assms(1,4) _ assms(5), of "tb_minimum b" "tb_maximum b" "tb_clear_margin b"]
  show ?thesis
  proof (cases "dv_kind r")
    case KindSensor
    with stored [OF valid_band_checks [OF assms(3) r(1) KindSensor]] run assms(3,4) r(2)
    show ?thesis by (auto simp: thresholds_for_def band_of_def with_band_def)
  next
    case KindActuator
    show ?thesis
    proof (cases "tb_minimum b = None \<and> tb_maximum b = None \<and> tb_clear_margin b = None")
      case True
      then have "device_check (?f r)" using r(1) KindActuator by (simp add: device_check_def with_band_def)
      from stored [OF this] run assms(3,4) True KindActuator show ?thesis by (auto simp: thresholds_for_def)
    next
      case False
      then have "\<not> device_check (?f r)" using KindActuator by (auto simp: device_check_def with_band_def)
      then have "set_thresholds i (tb_minimum b) (tb_maximum b) (tb_clear_margin b) s
          = (Inl (StoreError (IntegrityError ''devices'')), s)"
        by (simp add: set_thresholds_def update_row [OF assms(1,4)])
      with run assms(3,4) KindActuator False show ?thesis
        by (auto simp: thresholds_for_def uncaught_def split: if_splits)
    qed
  qed
qed

lemma demo_signed_in: "signed_in ann_lib demo_token 1 demo_tank"
  by (simp add: signed_in_def demo_tank_def demo_token_def ann_hub_def ann_row_def ann_lib_def plain_lib_def new_hub_def approval_defs)

theorem band_requests_witness:
  "fst (run_alone (put_thresholds ann_lib (demo_draws 20) demo_token ''blue'' \<lparr>tb_minimum = None, tb_maximum = None, tb_clear_margin = Some 1\<rparr>)
       demo_tank) = Inl (Crash (IntegrityError ''devices''))
   \<and> fst (run_alone (put_thresholds ann_lib (demo_draws 20) demo_token ''probe'' \<lparr>tb_minimum = Some 24, tb_maximum = Some 27, tb_clear_margin = Some (1/2)\<rparr>)
       demo_tank) = Inr (Band \<lparr>tv_device_id = ''probe'', tv_minimum = Some 24, tv_maximum = Some 27, tv_clear_margin = Some (1/2)\<rparr>)"
proof -
  have blue: "row_of ''blue'' demo_tank = Some (demo_light 1 ''blue'' ''0'' True)"
    and probe: "row_of ''probe'' demo_tank = Some demo_probe"
    by (simp_all add: row_of_def demo_defs)
  have quiet: "\<forall>e \<in> set (tk_episodes demo_tank). episode_check e \<and> ep_raised_at e \<le> hb_wall (tk_hub demo_tank)"
    by (simp add: demo_defs)
  from band_requests [OF demo_registry_ok demo_signed_in _ blue quiet surjective_pairing]
    band_requests [OF demo_registry_ok demo_signed_in _ probe quiet surjective_pairing]
  show ?thesis by (simp add: demo_light_def demo_probe_def valid_band_body_def opt_ok_def)
qed

section \<open>One request at a time\<close>

definition claim_of :: "device_row \<Rightarrow> (string \<times> string) option" where
  "claim_of r = Option.bind (dv_driver_type r) (\<lambda>d. map_option (Pair d) (binding_channel (dv_binding r)))"

lemma claim_of_Some: "claim_of r = Some (d, c) \<longleftrightarrow> on_channel d c r"
  by (auto simp: claim_of_def on_channel_def split: Option.bind_splits)

text \<open>At most one row on every channel, adopted or not.\<close>

definition exclusive :: "tank \<Rightarrow> bool" where
  "exclusive s \<longleftrightarrow> distinct (somes (map claim_of (tk_devices s)))"

lemma exclusive_frame [simp]:
  "exclusive (s\<lparr>tk_hub := x1\<rparr>) = exclusive s" "exclusive (s\<lparr>tk_trail := x2\<rparr>) = exclusive s"
  "exclusive (s\<lparr>tk_spine_up := x3\<rparr>) = exclusive s" "exclusive (s\<lparr>tk_clock_trusted := x4\<rparr>) = exclusive s"
  "exclusive (s\<lparr>tk_overrides := x5\<rparr>) = exclusive s" "exclusive (s\<lparr>tk_schedules := x6\<rparr>) = exclusive s"
  "exclusive (s\<lparr>tk_channel_schedules := x7\<rparr>) = exclusive s" "exclusive (s\<lparr>tk_episodes := x8\<rparr>) = exclusive s"
  "exclusive (s\<lparr>tk_assignments := x9\<rparr>) = exclusive s" "exclusive (s\<lparr>tk_capabilities := x10\<rparr>) = exclusive s"
  "exclusive (s\<lparr>tk_chips := x11\<rparr>) = exclusive s" "exclusive (s\<lparr>tk_calibrations := x12\<rparr>) = exclusive s"
  "exclusive (s\<lparr>tk_journal := x13\<rparr>) = exclusive s"
  by (simp_all add: exclusive_def)

lemma exclusive_update:
  assumes "exclusive s" "\<And>r. claim_of (f r) = claim_of r"
  shows "exclusive (snd (update_devices f P s))"
proof (cases rule: update_devices_cases [of f P s])
  case 2
  have "map claim_of (map (\<lambda>r. if P r then f r else r) rs) = map claim_of rs" for rs by (simp add: assms(2))
  with 2(2) assms(1) show ?thesis by (simp add: exclusive_def del: map_map)
qed (use assms(1) in simp)

lemma exclusive_insert:
  assumes "exclusive s" "claim_of r \<notin> claim_of ` set (tk_devices s) \<or> claim_of r = None"
  shows "exclusive (s\<lparr>tk_devices := tk_devices s @ [r]\<rparr>)"
  using assms by (cases "claim_of r") (auto simp: exclusive_def in_somes)

interpretation exclusive: desk_law exclusive kz
proof unfold_locales
  fix s :: tank
  assume ok: "exclusive s"
  show "exclusive (snd (upsert_sensor pk g s))" for pk g
    using ok by (auto simp: upsert_sensor_def announced_sensor_def claim_of_def intro!: exclusive_update exclusive_insert)
  show "exclusive (snd (adopt_again i s))" for i
    using adopt_again_update [of i s] ok by (auto simp: claim_of_def intro!: exclusive_update)
  show "exclusive (snd (unadopt_device i s))" "exclusive (snd (set_display_name i n s))" for i n
    using ok by (auto simp: unadopt_device_def set_display_name_def claim_of_def intro!: exclusive_update)
  show "exclusive (snd (set_thresholds i lo hi m s))" for i lo hi m
    using set_thresholds_update [of i lo hi m s] ok by (auto simp: with_band_def claim_of_def intro!: exclusive_update)
  show "exclusive (snd (delete_device i s))" for i
    using ok by (auto simp: delete_device_def exclusive_def distinct_somes_filter split: option.splits)
qed (auto simp: publish_assignment_def replace_capabilities_def upsert_chip_state_def Let_def save_calibration_def
    journal_dose_def schedule_create_def write_definition_def delete_schedule_row_def upsert_channel_def schedule_unassign_def)

lemma somes_one_changed:
  assumes "distinct (map key rs)" "distinct (somes (map f rs))" "\<forall>r \<in> set rs. key r \<noteq> k \<longrightarrow> f r \<noteq> Some v"
  shows "distinct (somes (map (\<lambda>r. if key r = k then Some v else f r) rs))"
  using assms
proof (induction rs)
  case (Cons r rs)
  show ?case
  proof (cases "key r = k")
    case True
    then have "\<forall>q \<in> set rs. key q \<noteq> k" using Cons.prems(1) by (induction rs) auto
    then have "map (\<lambda>r. if key r = k then Some v else f r) (r # rs) = Some v # map f rs" "\<forall>q \<in> set rs. f q \<noteq> Some v"
      using Cons.prems(3) True by auto
    moreover have "distinct (somes (map f rs))" using Cons.prems(2) by (cases "f r") auto
    ultimately show ?thesis by (auto simp only: somes.simps in_somes distinct.simps set_map)
  next
    case False
    with Cons show ?thesis by (cases "f r") (auto simp: in_somes)
  qed
qed simp

lemma exclusive_rebound:
  assumes "registry_ok s" "exclusive s" "claim_of (rebound b r) = Some v"
    "\<forall>r \<in> set (tk_devices s). dv_device_id r \<noteq> i \<longrightarrow> claim_of r \<noteq> Some v"
  shows "exclusive (snd (adopt_existing i b s))"
proof (cases rule: update_devices_cases [of "rebound b" "\<lambda>r. dv_device_id r = i" s])
  case 2
  have v: "claim_of (rebound b q) = Some v" for q using assms(3) by (simp add: claim_of_def rebound_def)
  have "map claim_of (map (\<lambda>r. if dv_device_id r = i then rebound b r else r) (tk_devices s))
      = map (\<lambda>r. if dv_device_id r = i then Some v else claim_of r) (tk_devices s)"
    by (simp add: v)
  moreover have "distinct (somes (map (\<lambda>r. if dv_device_id r = i then Some v else claim_of r) (tk_devices s)))"
    using assms(1,2,4) by (intro somes_one_changed) (auto simp: registry_ok_def exclusive_def)
  ultimately show ?thesis using 2(2) by (simp add: adopt_existing_def exclusive_def del: map_map)
qed (use assms(2) in \<open>simp add: adopt_existing_def\<close>)

lemma claim_of_bind:
  assumes "br_binding b = [(''channel'', br_channel b)] \<or> br_binding b = [(''rom'', br_channel b)]"
  shows "claim_of (rebound b r) = Some (br_driver_type b, br_channel b)"
    "claim_of (new_device pk b) = Some (br_driver_type b, br_channel b)"
  using assms by (auto simp: claim_of_def rebound_def new_device_def binding_channel_def)

lemma exclusive_store_bind:
  assumes "registry_ok s" "exclusive s"
    "br_binding b = [(''channel'', br_channel b)] \<or> br_binding b = [(''rom'', br_channel b)]"
  shows "exclusive (snd (run_alone (store_bind_device pk b) s))"
proof -
  note claims = claim_of_bind [OF assms(3)]
  let ?v = "(br_driver_type b, br_channel b)"
  show ?thesis
  proof (cases "find (on_channel (br_driver_type b) (br_channel b)) (tk_devices s)")
    case (Some q)
    then have q: "q \<in> set (tk_devices s)" "claim_of q = Some ?v"
      by (auto simp: find_Some_iff claim_of_Some)
    have "claim_of r \<noteq> Some ?v" if "r \<in> set (tk_devices s)" "dv_device_id r \<noteq> dv_device_id q" for r
      using somes_unique [OF assms(2) [unfolded exclusive_def] that(1) q(1) _ q(2)] that(2) by auto
    then have "exclusive (snd (adopt_existing (dv_device_id q) b s))"
      using assms(1,2) claims(1) by (intro exclusive_rebound [where v = ?v]) auto
    then show ?thesis using Some by (simp add: store_bind_device_def match_channel_def)
  next
    case None
    then have free: "\<forall>r \<in> set (tk_devices s). claim_of r \<noteq> Some ?v"
      by (auto simp: find_None_iff claim_of_Some)
    then have "exclusive (snd (adopt_existing i b s))" for i
      using assms(1,2) claims(1) by (intro exclusive_rebound [where v = ?v]) auto
    moreover have "exclusive (snd (insert_device pk b s))"
      using assms(2) free claims(2) by (auto simp: insert_device_def image_iff intro!: exclusive_insert)
    ultimately show ?thesis using None
      by (auto simp: store_bind_device_def match_channel_def match_announced_def split: option.splits)
  qed
qed

lemma keeps_alone: "keeps J p \<Longrightarrow> J s \<Longrightarrow> J (snd (run_alone p s))"
  using always_alone [of J "\<lambda>_. True" p s] by simp

lemma exclusive_binding:
  assumes "registry_ok s" "exclusive s"
  shows "exclusive (snd (run_alone (carry_out_binding lib d actor b) s))"
proof -
  have "br_binding (bind_request_of b) = [(''channel'', br_channel (bind_request_of b))]
      \<or> br_binding (bind_request_of b) = [(''rom'', br_channel (bind_request_of b))]"
    by (simp add: bind_request_of_def Let_def)
  from exclusive_store_bind [OF assms this, of "dd_id d"]
  obtain r u where u: "run_alone (catching bind_conflict (store_bind_device (dd_id d) (bind_request_of b))) s = (r, u)" "exclusive u"
    by (cases "run_alone (store_bind_device (dd_id d) (bind_request_of b)) s") (auto simp: run_catching)
  show ?thesis unfolding carry_out_binding_def run_alone_attempt u(1)
  proof (cases r)
    case (Inr x)
    show "exclusive (snd (case (r, u) of (Inl e, t) \<Rightarrow> (Inl e, t) | (Inr x, t) \<Rightarrow> run_alone (case x of (device_id, created) \<Rightarrow>
        attempt (announce (dd_message d) device_id True (bb_role b) (Some (bb_driver_type b))
                (Some (br_binding (bind_request_of b)))) (\<lambda>_.
        attempt (audited lib actor (DeviceBound device_id (bb_driver_type b) (bb_channel b) created)) (\<lambda>_.
        reply_with (BoundDevice device_id created (bb_driver_type b) (bb_channel b))))) t))"
      unfolding Inr prod.case sum.case
      by (rule keeps_alone [where J = exclusive], intro keeps_prod keeps_attempt exclusive.keeps_announce exclusive.keeps_audited keeps_refuse, rule u(2))
  qed (use u(2) in simp)
qed

lemma run_bind_device:
  assumes "run_alone (caller lib d h) s = (r, t)"
  shows "snd (run_alone (bind_device lib d h b) s) = t
    \<or> (\<exists>actor. snd (run_alone (bind_device lib d h b) s) = snd (run_alone (carry_out_binding lib d actor b) t))"
  by (cases r) (auto simp: bind_device_def assms capability_exists_def device_bound_to_def)

lemma exclusive_bind_device:
  assumes "registry_ok s" "exclusive s"
  shows "exclusive (snd (run_alone (bind_device lib d h b) s))"
proof -
  obtain r t where t: "run_alone (caller lib d h) s = (r, t)" by fastforce
  have "registry_ok t" "exclusive t"
    using keeps_alone [OF registry.keeps_caller assms(1), of lib d h] keeps_alone [OF exclusive.keeps_caller assms(2), of lib d h] t
    by simp_all
  then show ?thesis using run_bind_device [OF t, of b] exclusive_binding [of t lib d _ b] by auto
qed

definition served :: "crypto \<Rightarrow> (string \<Rightarrow> bool) \<Rightarrow> desk_call list \<Rightarrow> tank \<Rightarrow> tank" where
  "served lib kz = fold (\<lambda>c s. snd (run_alone (serve_desk lib kz c) s))"

lemma run_to_devices: "snd (run_alone (to_devices p) s) = snd (run_alone p s)"
  by (cases "run_alone p s"; cases "fst (run_alone p s)") (auto simp: to_devices_def)

lemma exclusive_call:
  assumes "registry_ok s" "exclusive s"
  shows "exclusive (snd (run_alone (serve_desk lib kz c) s))"
proof (cases "\<exists>d h b. c = PostDevice d h b")
  case True
  then show ?thesis using exclusive_bind_device [OF assms] by (auto simp: run_to_devices)
next
  case False
  then have "keeps exclusive (serve_desk lib kz c)" by (intro exclusive.keeps_call) auto
  then show ?thesis using assms(2) by (rule keeps_alone)
qed

text \<open>
  C20. Requests served one after another never fork a channel: if no two device rows, adopted or
  not, are bound to one channel of one driver, that stays so whatever list of requests, messages
  and restarts is served, each to its end before the next. Matching before creating does what
  \<open>bind_device\<close> promises.
\<close>

theorem bindings_in_turn_stay_exclusive:
  assumes "registry_ok s" "exclusive s" "t = served lib kz cs s"
    "r \<in> set (tk_devices t)" "q \<in> set (tk_devices t)" "on_channel d c r" "on_channel d c q"
  shows "r = q"
proof -
  have "registry_ok (served lib kz cs s) \<and> exclusive (served lib kz cs s)"
    using assms(1,2)
  proof (induction cs arbitrary: s)
    case (Cons x cs)
    have "registry_ok (snd (run_alone (serve_desk lib kz x) s))" using call_keeps(1) Cons.prems(1) by (rule keeps_alone)
    moreover have "exclusive (snd (run_alone (serve_desk lib kz x) s))" using Cons.prems by (rule exclusive_call)
    ultimately show ?case using Cons.IH by (simp add: served_def)
  qed (simp add: served_def)
  then show ?thesis
    using somes_unique [of claim_of "tk_devices t" r q "(d, c)"] assms(3-7) by (auto simp: exclusive_def claim_of_Some)
qed

lemma demo_exclusive: "exclusive demo_tank"
  by (simp add: exclusive_def demo_defs claim_of_def binding_channel_def)

definition demo_handover :: "desk_call list" where
  "demo_handover =
     [DeleteDevice (demo_draws 20) demo_token ''blue'',
      PostDevice (demo_draws 21) demo_token \<lparr>bb_device_id = ''azure'', bb_driver_type = ''pi-pwm'', bb_channel = ''0'',
        bb_role = Some Light, bb_display_name = None, bb_location = None, bb_poll_interval_s = None\<rparr>]"

theorem bindings_in_turn_stay_exclusive_witness:
  "list_all (\<lambda>r. list_all (\<lambda>q. r = q) (filter (on_channel ''pi-pwm'' ''0'') (tk_devices (served ann_lib demo_zone demo_handover demo_tank))))
     (filter (on_channel ''pi-pwm'' ''0'') (tk_devices (served ann_lib demo_zone demo_handover demo_tank)))"
  unfolding list_all_iff set_filter
  using bindings_in_turn_stay_exclusive [OF demo_registry_ok demo_exclusive refl] by blast

end
