(* ===== verification/DeviceRaces.thy ===== *)
theory DeviceRaces
  imports Devices
begin

text \<open>
  The retained stream beside the table: what a restart of the API reconciles, what it cannot, and
  what two racing requests can do to the registry.
\<close>

section \<open>The retained stream\<close>

definition retained_for :: "string \<Rightarrow> tank
    \<Rightarrow> (bool \<times> actuator_role option \<times> string option \<times> (string \<times> string) list option) option" where
  "retained_for i s =
     map_option (\<lambda>a. (da_adopted a, da_role a, da_driver_type a, da_binding a))
       (find (\<lambda>a. da_device_id a = i) (tk_assignments s))"

lemma find_filter_other: "(\<And>x. Q x \<Longrightarrow> P x) \<Longrightarrow> find Q (filter P xs) = find Q xs"
  by (induction xs) auto

lemma retained_publish:
  "retained_for i (publish_assignment (assignment_message mid now j a role t b) s) =
    (if tk_spine_up s \<and> j = i then Some (a, role, t, b) else retained_for i s)"
proof (cases "tk_spine_up s")
  case True
  have none: "find (\<lambda>a. da_device_id a = j) (filter (\<lambda>b. da_device_id b \<noteq> j) as) = None" for as :: "device_assignment list"
    by (auto simp: find_None_iff)
  have other: "i \<noteq> j \<Longrightarrow> find (\<lambda>a. da_device_id a = i) (filter (\<lambda>b. da_device_id b \<noteq> j) as) = find (\<lambda>a. da_device_id a = i) as"
    for as :: "device_assignment list" by (rule find_filter_other) simp
  show ?thesis using True none other
    by (auto simp: retained_for_def publish_assignment_def retain_def find_append assignment_message_def split: option.splits)
qed (simp add: publish_assignment_def)

lemma publish_frame [simp]:
  "tk_devices (publish_assignment a s) = tk_devices s" "tk_spine_up (publish_assignment a s) = tk_spine_up s"
  "tk_hub (publish_assignment a s) = tk_hub s" "tk_calibrations (publish_assignment a s) = tk_calibrations s"
  "tk_journal (publish_assignment a s) = tk_journal s" "row_of i (publish_assignment a s) = row_of i s"
  by (simp_all add: publish_assignment_def row_of_def)

lemma retained_frame [simp]:
  "retained_for i (s\<lparr>tk_trail := x1\<rparr>) = retained_for i s" "retained_for i (s\<lparr>tk_devices := x2\<rparr>) = retained_for i s"
  "retained_for i (s\<lparr>tk_spine_up := x3\<rparr>) = retained_for i s" "retained_for i (s\<lparr>tk_hub := x4\<rparr>) = retained_for i s"
  by (simp_all add: retained_for_def)

lemma run_republish:
  assumes "tk_spine_up s" "distinct (map dv_device_id rs)"
    "\<forall>r \<in> set rs. device_id_ok (dv_device_id r) \<and> dv_driver_type r \<noteq> None \<and> dv_binding r \<noteq> None"
  shows "\<exists>t. run_alone (republish mids rs) s = (Inr (), t) \<and> tk_devices t = tk_devices s \<and> tk_hub t = tk_hub s
    \<and> (\<forall>i. retained_for i t = (case find (\<lambda>r. dv_device_id r = i) rs of
         None \<Rightarrow> retained_for i s | Some r \<Rightarrow> Some (True, dv_role r, dv_driver_type r, dv_binding r)))"
  using assms
proof (induction rs arbitrary: s)
  case (Cons r rs)
  let ?s = "publish_assignment (assignment_message (mids (length rs)) (hb_wall (tk_hub s)) (dv_device_id r) True
      (dv_role r) (dv_driver_type r) (dv_binding r)) s"
  obtain t where t: "run_alone (republish mids rs) ?s = (Inr (), t)" "tk_devices t = tk_devices s" "tk_hub t = tk_hub s"
    "\<And>i. retained_for i t = (case find (\<lambda>r. dv_device_id r = i) rs of
         None \<Rightarrow> retained_for i ?s | Some r \<Rightarrow> Some (True, dv_role r, dv_driver_type r, dv_binding r))"
    using Cons.IH [of ?s] Cons.prems by auto
  have "find (\<lambda>q. dv_device_id q = dv_device_id r) rs = None" using Cons.prems(2) by (simp add: find_key_out)
  with t Cons.prems show ?case
    by (auto simp: run_announce retained_publish split: option.splits)
qed simp

lemma find_sorted_rows:
  assumes "registry_ok s"
  shows "find (\<lambda>r. dv_device_id r = i) (sort_key g (filter P (tk_devices s)))
    = (case row_of i s of None \<Rightarrow> None | Some r \<Rightarrow> if P r then Some r else None)"
proof -
  let ?rs = "sort_key g (filter P (tk_devices s))"
  have distinct: "distinct (map dv_device_id ?rs)"
    using assms by (simp add: registry_ok_def distinct_map inj_on_def)
  show ?thesis
  proof (cases "row_of i s")
    case None
    then have "i \<notin> dv_device_id ` set ?rs" by (auto simp: row_of_None)
    then show ?thesis using None by (simp add: find_key_out)
  next
    case (Some r)
    note r = row_of_mem [OF Some]
    show ?thesis
    proof (cases "P r")
      case True
      with r have "r \<in> set ?rs" by simp
      from find_key_mem [OF distinct this] r Some True show ?thesis by simp
    next
      case False
      have "i \<notin> dv_device_id ` set ?rs" 
      proof
        assume "i \<in> dv_device_id ` set ?rs"
        then obtain q where q: "q \<in> set (tk_devices s)" "P q" "dv_device_id q = i" by auto
        with row_unique [OF assms, of r q] r False show False by auto
      qed
      then show ?thesis using Some False by (simp add: find_key_out)
    qed
  qed
qed

lemma row_checks: "registry_ok s \<Longrightarrow> row_of i s = Some r \<Longrightarrow> device_check r"
  using row_of_mem [of i s r] by (simp add: registry_ok_def list_all_iff)

lemma row_id: "registry_ok s \<Longrightarrow> row_of i s = Some r \<Longrightarrow> device_id_ok i"
  using row_of_mem [of i s r] by (auto simp: registry_ok_def list_all_iff)

lemma adopted_is_bound: "device_check r \<Longrightarrow> dv_adopted r \<Longrightarrow> dv_driver_type r \<noteq> None \<and> dv_binding r \<noteq> None"
  by (simp add: device_check_def)

lemma start_reconciles:
  assumes "registry_ok s" "tk_spine_up s" "run_alone (start_api fresh mids) s = (answer, t)"
  shows "answer = Inr Heard \<and> tk_devices t = tk_devices s
    \<and> retained_for i t = (case row_of i s of
        Some r \<Rightarrow> if dv_adopted r then Some (True, dv_role r, dv_driver_type r, dv_binding r) else retained_for i s
      | None \<Rightarrow> retained_for i s)"
proof -
  let ?P = "\<lambda>r. dv_adopted r \<and> dv_driver_type r \<noteq> None \<and> dv_binding r \<noteq> None"
  let ?rs = "sort_key dv_device_id (filter ?P (tk_devices s))"
  obtain a h where h: "run_alone (at_hub (establish_identity fresh)) s = (a, s\<lparr>tk_hub := h\<rparr>)"
    by (cases "run_alone (establish_identity fresh) (tk_hub s)") (auto simp: run_at_hub)
  have rows: "distinct (map dv_device_id ?rs)" using assms(1) by (simp add: registry_ok_def distinct_map inj_on_def)
  have bound: "\<forall>r \<in> set ?rs. device_id_ok (dv_device_id r) \<and> dv_driver_type r \<noteq> None \<and> dv_binding r \<noteq> None"
    using assms(1) by (simp add: registry_ok_def list_all_iff)
  have "tk_spine_up (s\<lparr>tk_hub := h\<rparr>)" "tk_devices (s\<lparr>tk_hub := h\<rparr>) = tk_devices s" using assms(2) by simp_all
  note up = this
  from run_republish [OF up(1) rows bound, of mids] obtain u where u:
    "run_alone (republish mids ?rs) (s\<lparr>tk_hub := h\<rparr>) = (Inr (), u)" "tk_devices u = tk_devices s"
    "\<And>i. retained_for i u = (case find (\<lambda>r. dv_device_id r = i) ?rs of
         None \<Rightarrow> retained_for i s | Some r \<Rightarrow> Some (True, dv_role r, dv_driver_type r, dv_binding r))"
    unfolding retained_frame up(2) by blast
  have "answer = Inr Heard" "t = u"
    using assms(3) u(1) by (simp_all add: start_api_def run_alone_bind h adopted_assignments_def)
  moreover have "?P r \<longleftrightarrow> dv_adopted r" if "row_of i s = Some r" for r
    using adopted_is_bound [OF row_checks [OF assms(1) that]] by blast
  ultimately show ?thesis
    using u(2) u(3) [of i, unfolded find_sorted_rows [OF assms(1)]] by (cases "row_of i s") auto
qed

text \<open>
  C23. What a start of the API reconciles. With the broker up it republishes every adopted device
  and nothing else: afterwards the retained message of an adopted device says exactly what its row
  says, and that of every other device id - detached, forgotten or never bound - is what it was.
\<close>

theorem start_reconciles_adopted_only:
  assumes "registry_ok s" "tk_spine_up s" "run_alone (start_api fresh mids) s = (answer, t)"
  shows "answer = Inr Heard \<and> tk_devices t = tk_devices s
    \<and> retained_for i t = (case row_of i s of
        Some r \<Rightarrow> if dv_adopted r then Some (True, dv_role r, dv_driver_type r, dv_binding r) else retained_for i s
      | None \<Rightarrow> retained_for i s)"
  using assms by (rule start_reconciles)

theorem start_reconciles_adopted_only_witness:
  "retained_for ''blue'' (snd (run_alone (start_api 5 id) (demo_tank\<lparr>tk_assignments := []\<rparr>)))
     = Some (True, Some Light, Some ''pi-pwm'', Some [(''channel'', ''0'')])
   \<and> retained_for ''green'' (snd (run_alone (start_api 5 id) (demo_tank\<lparr>tk_assignments := []\<rparr>))) = None"
proof -
  have ok: "registry_ok (demo_tank\<lparr>tk_assignments := []\<rparr>)" "tk_spine_up (demo_tank\<lparr>tk_assignments := []\<rparr>)"
    using demo_registry_ok by (simp_all add: registry_ok_def demo_tank_def)
  show ?thesis
    using start_reconciles_adopted_only [OF ok surjective_pairing, of 5 id "''blue''"]
      start_reconciles_adopted_only [OF ok surjective_pairing, of 5 id "''green''"]
    by (simp add: row_of_def retained_for_def demo_defs)
qed

section \<open>An unbinding nobody hears\<close>

lemma filter_adopted_row:
  assumes "registry_ok s" "row_of i s = Some r" "dv_adopted r"
  shows "filter (\<lambda>q. dv_device_id q = i \<and> dv_adopted q) (tk_devices s) = [r]"
proof -
  have "filter (\<lambda>q. dv_device_id q = i \<and> dv_adopted q) (tk_devices s) = filter dv_adopted [r]"
    unfolding filter_row [OF assms(1,2), symmetric] by (simp add: conj_commute)
  with assms(3) show ?thesis by simp
qed

lemma unadopted_checks: "device_check r \<Longrightarrow> device_check (r\<lparr>dv_adopted := False\<rparr>)"
  by (simp add: device_check_def)

lemma run_unadopt:
  assumes "registry_ok s" "row_of i s = Some r" "dv_adopted r"
  shows "\<exists>t. unadopt_device i s = (Inr (Some (r\<lparr>dv_adopted := False\<rparr>)), t) \<and> row_of i t = Some (r\<lparr>dv_adopted := False\<rparr>)
    \<and> retained_for j t = retained_for j s \<and> tk_spine_up t = tk_spine_up s"
proof -
  let ?f = "\<lambda>r. r\<lparr>dv_adopted := False\<rparr>" and ?P = "\<lambda>q. dv_device_id q = i \<and> dv_adopted q"
  have "dv_device_id (if ?P r then ?f r else r) = dv_device_id r" for r by simp
  from find_map_key [where key = dv_device_id, OF this, where k = i and rs = "tk_devices s"]
  have "find (\<lambda>r. dv_device_id r = i) (map (\<lambda>r. if ?P r then ?f r else r) (tk_devices s)) = Some (?f r)"
    unfolding assms(2) [unfolded row_of_def] using assms(3) row_of_mem [OF assms(2)] by simp
  then show ?thesis
    using unadopted_checks [OF row_checks [OF assms(1,2)]]
    by (simp add: unadopt_device_def update_devices_def filter_adopted_row [OF assms] row_of_def retained_for_def)
qed

text \<open>
  C24. An unbinding the broker does not hear is never repaired. The device is adopted and its
  retained message says so; the operator unbinds it while the broker is away and is told that it
  is done. The broker comes back and the API is restarted: the table says the device is free, and
  the retained message, which the hardware builds from, still says it is adopted.
\<close>

theorem lost_tombstone_outlives_restart:
  assumes "registry_ok s" "signed_in lib h actor s" "row_of i s = Some r" "dv_adopted r" "\<not> tk_spine_up s"
    "retained_for i s = Some (True, dv_role r, dv_driver_type r, dv_binding r)"
    "run_alone (unbind_device lib d h i) s = (answer, t)"
    "u = snd (run_alone (start_api fresh mids) (t\<lparr>tk_spine_up := True\<rparr>))"
  shows "answer = Inr NoContent \<and> row_of i u = Some (r\<lparr>dv_adopted := False\<rparr>)
    \<and> retained_for i u = Some (True, dv_role r, dv_driver_type r, dv_binding r)"
proof -
  obtain v where v: "unadopt_device i s = (Inr (Some (r\<lparr>dv_adopted := False\<rparr>)), v)"
    "row_of i v = Some (r\<lparr>dv_adopted := False\<rparr>)" "retained_for i v = retained_for i s" "tk_spine_up v = tk_spine_up s"
    using run_unadopt [OF assms(1,3,4)] by blast
  have "answer = Inr NoContent \<and> row_of i t = Some (r\<lparr>dv_adopted := False\<rparr>) \<and> retained_for i t = retained_for i s"
    using assms(7) v assms(5) row_id [OF assms(1,3)] row_of_mem [OF assms(3)]
    by (auto simp: unbind_device_def run_caller [OF assms(2)] run_announce retained_publish)
  moreover have "registry_ok (t\<lparr>tk_spine_up := True\<rparr>)"
    using keeps_alone [OF registry.keeps_devices(6) assms(1), of lib d h i] assms(7) by simp
  moreover obtain b where "run_alone (start_api fresh mids) (t\<lparr>tk_spine_up := True\<rparr>) = (b, u)"
    using assms(8) by (cases "run_alone (start_api fresh mids) (t\<lparr>tk_spine_up := True\<rparr>)") auto
  ultimately show ?thesis
    using start_reconciles [of "t\<lparr>tk_spine_up := True\<rparr>" fresh mids b u i] assms(6) by (auto simp: row_of_def)
qed

theorem lost_tombstone_outlives_restart_witness:
  "retained_for ''blue'' (snd (run_alone (start_api 5 id)
       ((snd (run_alone (unbind_device ann_lib (demo_draws 20) demo_token ''blue'') (demo_tank\<lparr>tk_spine_up := False\<rparr>)))\<lparr>tk_spine_up := True\<rparr>)))
     = Some (True, Some Light, Some ''pi-pwm'', Some [(''channel'', ''0'')])"
proof -
  let ?s = "demo_tank\<lparr>tk_spine_up := False\<rparr>"
  have "registry_ok ?s" "signed_in ann_lib demo_token 1 ?s"
    using demo_registry_ok demo_signed_in by (simp_all add: registry_ok_def signed_in_def)
  moreover have "row_of ''blue'' ?s = Some (demo_light 1 ''blue'' ''0'' True)" by (simp add: row_of_def demo_defs)
  moreover have "retained_for ''blue'' ?s = Some (True, Some Light, Some ''pi-pwm'', Some [(''channel'', ''0'')])"
    by (simp add: retained_for_def demo_tank_def assignment_message_def)
  ultimately show ?thesis
    using lost_tombstone_outlives_restart [OF _ _ _ _ _ _ surjective_pairing refl, of ?s ann_lib demo_token 1 "''blue''"
        "demo_light 1 ''blue'' ''0'' True" "demo_draws 20" 5 id]
    by (simp add: demo_light_def)
qed

section \<open>Two requests at once\<close>

definition reaches :: "('s, 'a) prog list \<Rightarrow> 's \<Rightarrow> ('s, 'a) prog list \<Rightarrow> 's \<Rightarrow> bool" where
  "reaches ps s qs t \<longleftrightarrow> (\<exists>is. interleave is ps s = (qs, t))"

lemma reaches_trans: "reaches ps s qs t \<Longrightarrow> reaches qs t rs u \<Longrightarrow> reaches ps s rs u"
  unfolding reaches_def using interleave_append by (metis case_prod_conv)

lemma reaches_turn: "i < length ps \<Longrightarrow> ps ! i = attempt p k \<Longrightarrow> run_alone p s = (Inr x, t) \<Longrightarrow> reaches ps s (ps[i := k x]) t"
  unfolding reaches_def by (drule (2) turns) blast

lemma reaches_home: "i < length ps \<Longrightarrow> run_alone (ps ! i) s = (r, t) \<Longrightarrow> reaches ps s (ps[i := Finish r]) t"
  unfolding reaches_def by (drule turns_home [OF _ refl], assumption) blast

lemma first_turn: "run_alone p s = (Inr x, t) \<Longrightarrow> reaches [attempt p k, q] s [k x, q] t"
  using reaches_turn [of 0 "[attempt p k, q]" p k s x t] by simp

lemma second_turn: "run_alone p s = (Inr x, t) \<Longrightarrow> reaches [q, attempt p k] s [q, k x] t"
  using reaches_turn [of 1 "[q, attempt p k]" p k s x t] by simp

lemma first_into: "run_alone p s = (Inr x, t) \<Longrightarrow> k x = k' \<Longrightarrow> reaches [attempt p k, q] s [k', q] t"
  using first_turn [of p s x t k q] by simp

lemma first_home: "run_alone p s = (r, t) \<Longrightarrow> reaches [p, q] s [Finish r, q] t"
  using reaches_home [of 0 "[p, q]" s r t] by simp

lemma second_home: "run_alone p s = (r, t) \<Longrightarrow> reaches [q, p] s [q, Finish r] t"
  using reaches_home [of 1 "[q, p]" s r t] by simp

lemma catching_attempt: "catching h (attempt p k) = attempt (catching h p) (\<lambda>x. catching h (k x))"
  unfolding catching_def attempt_def bind_assoc
  by (rule arg_cong [where f = "prog_bind p"], rule ext) (simp split: sum.splits)

lemma first_inside:
  "run_alone p s = (Inr x, t) \<Longrightarrow>
   reaches [attempt (catching h (attempt p k)) K, q] s [attempt (catching h (k x)) K, q] t"
  unfolding catching_attempt attempt_assoc by (rule first_turn) (simp add: run_catching)

lemma first_inside_to:
  "run_alone p s = (Inr x, t) \<Longrightarrow> k x = k' \<Longrightarrow>
   reaches [attempt (catching h (attempt p k)) K, q] s [attempt (catching h k') K, q] t"
  using first_inside [of p s x t h k K q] by simp

lemma second_inside:
  "run_alone p s = (Inr x, t) \<Longrightarrow>
   reaches [q, attempt (catching h (attempt p k)) K] s [q, attempt (catching h (k x)) K] t"
  unfolding catching_attempt attempt_assoc by (rule second_turn) (simp add: run_catching)

lemma find_map_pair: "find P (map f xs) = map_option f (find (\<lambda>x. P (f x)) xs)"
  by (induction xs) auto

lemma find_conj: "find P xs = Some r \<Longrightarrow> Q r \<Longrightarrow> find (\<lambda>x. P x \<and> Q x) xs = Some r"
  by (induction xs) (auto split: if_splits)

lemma readopted_checks:
  "device_check r \<Longrightarrow> dv_driver_type r \<noteq> None \<Longrightarrow> dv_binding r \<noteq> None \<Longrightarrow> device_check (r\<lparr>dv_adopted := True\<rparr>)"
  by (simp add: device_check_def)

text \<open>A re-adoption that nothing disturbs.\<close>

lemma run_readopt:
  assumes "registry_ok s" "signed_in lib h actor s" "row_of i s = Some r" "\<not> dv_adopted r"
    "dv_driver_type r \<noteq> None" "dv_binding r \<noteq> None" "fst (channel_rival r s) = Inr None"
  shows "\<exists>t. run_alone (readopt_device lib d h i) s
      = (Inr (OneDevice (r\<lparr>dv_adopted := True\<rparr>) (binding_channel (dv_binding r))), t)
    \<and> row_of i t = Some (r\<lparr>dv_adopted := True\<rparr>) \<and> tk_calibrations t = tk_calibrations s \<and> tk_journal t = tk_journal s
    \<and> tk_spine_up t = tk_spine_up s
    \<and> (tk_spine_up s \<longrightarrow> retained_for i t = Some (True, dv_role r, dv_driver_type r, dv_binding r))"
proof -
  let ?q = "r\<lparr>dv_adopted := True\<rparr>"
  let ?s1 = "s\<lparr>tk_devices := map (\<lambda>r. if dv_device_id r = i then r\<lparr>dv_adopted := True\<rparr> else r) (tk_devices s)\<rparr>"
  have id: "dv_device_id r = i" "device_id_ok i" using row_of_mem [OF assms(3)] row_id [OF assms(1,3)] by auto
  have check: "device_check ?q" using readopted_checks row_checks [OF assms(1,3)] assms(5,6) by blast
  have adopt: "adopt_again i s = (Inr (Some ?q), ?s1)"
    by (simp add: adopt_again_def update_row [OF assms(1,3)] check)
  have row1: "row_of i ?s1 = Some ?q" by (rule row_of_update [OF assms(3)]) simp
  have "keeps registry_ok (from_store (adopt_again i))" by (intro keeps_from_store registry.adoption)
  from keeps_alone [OF this assms(1)] have ok1: "registry_ok ?s1" by (simp add: adopt)
  have found: "detached_row i s = (Inr (Some r), s)"
    using find_conj [OF assms(3) [unfolded row_of_def], of "\<lambda>r. \<not> dv_adopted r \<and> dv_driver_type r \<noteq> None \<and> dv_binding r \<noteq> None"]
      assms(4-6) by (simp add: detached_row_def)
  have rival: "channel_rival r s = (Inr None, s)" using assms(7) by (cases "channel_rival r s") (auto simp: channel_rival_def)
  define a where "a = assignment_message (dd_message d) (hb_wall (tk_hub s)) i True (dv_role r) (dv_driver_type r) (dv_binding r)"
  define u where "u = publish_assignment a ?s1"
  define t where "t = u\<lparr>tk_trail := tk_trail u @ [DeviceReadopted i (actor_of lib actor u)]\<rparr>"
  have "tk_devices t = tk_devices ?s1" by (simp add: t_def u_def)
  then have shown: "find (\<lambda>q. dv_device_id (fst q) = i) (map (\<lambda>r. (r, if dv_adopted r then binding_channel (dv_binding r) else None))
      (sort_key device_key (filter (\<lambda>r. pred_option (\<lambda>k. dv_kind r = k) None) (tk_devices t)))) = Some (?q, binding_channel (dv_binding r))"
    using find_sorted_rows [OF ok1, of i device_key "\<lambda>r. pred_option (\<lambda>k. dv_kind r = k) None"] row1
    by (simp add: find_map_pair)
  have listed: "list_devices None t = (Inr (map (\<lambda>r. (r, if dv_adopted r then binding_channel (dv_binding r) else None))
      (sort_key device_key (filter (\<lambda>r. pred_option (\<lambda>k. dv_kind r = k) None) (tk_devices t)))), t)"
    by (simp add: list_devices_def)
  have ann: "run_alone (announce (dd_message d) i True (dv_role r) (dv_driver_type r) (dv_binding r)) ?s1 = (Inr (), u)"
    using run_announce [of i True "dv_driver_type r" "dv_binding r" "dd_message d" "dv_role r" ?s1] id(2) assms(5,6)
    by (simp add: u_def a_def)
  have store: "run_alone (store_readopt_device i) s = (Inr (Some ?q), ?s1)"
    by (simp add: store_readopt_device_def found rival adopt)
  have "run_alone (readopt_device lib d h i) s = (Inr (OneDevice ?q (binding_channel (dv_binding r))), t)"
    using shown by (simp add: readopt_device_def run_caller [OF assms(2)] run_catching store id(1) ann listed flip: t_def)
  moreover have "retained_for i t = (if tk_spine_up s then Some (True, dv_role r, dv_driver_type r, dv_binding r) else retained_for i s)"
    by (simp add: t_def u_def a_def retained_publish)
  ultimately show ?thesis using row1
    by (simp add: t_def u_def)
qed

lemma delete_refused_or_gone:
  assumes "row_of i t = Some q" "dv_id q \<notin> set (tk_calibrations t)" "dv_id q \<notin> set (tk_journal t)"
  shows "delete_device i t = (Inr True, t\<lparr>tk_devices := filter (\<lambda>r. dv_device_id r \<noteq> i) (tk_devices t)\<rparr>)"
    "row_of i (t\<lparr>tk_devices := filter (\<lambda>r. dv_device_id r \<noteq> i) (tk_devices t)\<rparr>) = None"
  using assms by (auto simp: delete_device_def row_of_None)

text \<open>What is left of a forgetting once it has found the row detached and free of holders.\<close>

definition deletion :: "crypto \<Rightarrow> uuid \<Rightarrow> uuid \<Rightarrow> string \<Rightarrow> desk_answer desk" where
  "deletion lib actor pk i =
     attempt (catching forget_conflict (attempt (atomic (delete_device i)) (\<lambda>gone.
         if gone then Finish (Inr Forgotten)
         else attempt (atomic (forget_holders pk)) (\<lambda>held. Finish (Inl (DeviceReferencedError held))))))
       (\<lambda>outcome. case outcome of
          Missing \<Rightarrow> refuse_with 404
        | StillAdopted \<Rightarrow> refuse_with 409
        | Forgotten \<Rightarrow> attempt (audited lib actor (DeviceForgotten i)) (\<lambda>_. reply_with NoContent))"

lemma forget_reaches_deletion:
  assumes "signed_in lib h actor s" "row_of i s = Some r" "\<not> dv_adopted r"
    "dv_id r \<notin> set (tk_calibrations s)" "dv_id r \<notin> set (tk_journal s)"
  shows "reaches [forget_device lib d h i, q] s [deletion lib actor (dv_id r) i, q] s"
proof -
  let ?gone = "\<lambda>gone. if gone then Finish (Inr Forgotten)
       else attempt (atomic (forget_holders (dv_id r))) (\<lambda>held. Finish (Inl (DeviceReferencedError held)))"
  let ?held = "\<lambda>holders. if holders \<noteq> [] then Finish (Inl (DeviceReferencedError holders))
       else attempt (atomic (delete_device i)) ?gone"
  let ?after = "\<lambda>outcome. case outcome of
         Missing \<Rightarrow> refuse_with 404
       | StillAdopted \<Rightarrow> refuse_with 409
       | Forgotten \<Rightarrow> attempt (audited lib actor (DeviceForgotten i)) (\<lambda>_. reply_with NoContent)"
  let ?outer = "\<lambda>p. attempt (catching forget_conflict p) ?after"
  have asked: "reaches [forget_device lib d h i, q] s [?outer (store_forget_device i), q] s"
    unfolding forget_device_def by (rule first_turn) (rule run_caller [OF assms(1)])
  have selected: "reaches [?outer (store_forget_device i), q] s [?outer (attempt (atomic (forget_holders (dv_id r))) ?held), q] s"
    unfolding store_forget_device_def by (rule first_inside_to [where x = "Some (dv_id r, False)"]) (use assms(2,3) in \<open>simp_all add: select_device_def\<close>)
  have "run_alone (atomic (forget_holders (dv_id r))) s = (Inr [], s)"
    using assms(4,5) by (simp add: forget_holders_def holders_of_def count_list_0_iff)
  then have "reaches [?outer (attempt (atomic (forget_holders (dv_id r))) ?held), q] s [deletion lib actor (dv_id r) i, q] s"
    unfolding deletion_def by (rule first_inside_to) simp
  then show ?thesis by (rule reaches_trans [OF asked reaches_trans [OF selected]])
qed

lemma run_deletion:
  assumes "delete_device i t = (Inr True, u)"
  shows "run_alone (deletion lib actor pk i) t
    = (Inr NoContent, u\<lparr>tk_trail := tk_trail u @ [DeviceForgotten i (actor_of lib actor u)]\<rparr>)"
  by (simp add: deletion_def run_catching assms)

text \<open>
  C22. Forgetting a device while it is re-adopted. The device is detached and nothing refers to it.
  In one interleaving the re-adoption answers that the device is adopted again, the forgetting that
  it is forgotten, and the row of the adopted device is gone, although a device is only ever to be
  deleted when it is not adopted; the retained message still says adopted, and still does after
  every later start of the API.
\<close>

theorem forgetting_races_readoption:
  assumes "registry_ok s" "signed_in lib h actor s" "signed_in lib h' actor' s" "row_of i s = Some r" "\<not> dv_adopted r"
    "dv_driver_type r \<noteq> None" "dv_binding r \<noteq> None" "fst (channel_rival r s) = Inr None" "tk_spine_up s"
    "dv_id r \<notin> set (tk_calibrations s)" "dv_id r \<notin> set (tk_journal s)"
  shows "\<exists>is q c t. interleave is [forget_device lib d h i, readopt_device lib d' h' i] s
      = ([Finish (Inr NoContent), Finish (Inr (OneDevice q c))], t)
    \<and> dv_device_id q = i \<and> dv_adopted q \<and> row_of i t = None
    \<and> (\<forall>fresh mids. retained_for i (snd (run_alone (start_api fresh mids) t))
         = Some (True, dv_role r, dv_driver_type r, dv_binding r))"
proof -
  let ?P = "forget_device lib d h i" and ?Q = "readopt_device lib d' h' i" and ?rest = "deletion lib actor (dv_id r) i"
  let ?answer = "Finish (Inr (OneDevice (r\<lparr>dv_adopted := True\<rparr>) (binding_channel (dv_binding r))))"
  obtain t where t: "run_alone ?Q s
        = (Inr (OneDevice (r\<lparr>dv_adopted := True\<rparr>) (binding_channel (dv_binding r))), t)"
      "row_of i t = Some (r\<lparr>dv_adopted := True\<rparr>)" "tk_calibrations t = tk_calibrations s" "tk_journal t = tk_journal s"
      "tk_spine_up t" "retained_for i t = Some (True, dv_role r, dv_driver_type r, dv_binding r)"
    using run_readopt [OF assms(1,3-8)] assms(9) by fastforce
  define u where "u = t\<lparr>tk_devices := filter (\<lambda>r. dv_device_id r \<noteq> i) (tk_devices t)\<rparr>"
  have gone: "delete_device i t = (Inr True, u)" "row_of i u = None" "tk_spine_up u"
    "retained_for i u = Some (True, dv_role r, dv_driver_type r, dv_binding r)"
    using delete_refused_or_gone [OF t(2)] t(3-6) assms(10,11) by (simp_all add: u_def)
  define v where "v = u\<lparr>tk_trail := tk_trail u @ [DeviceForgotten i (actor_of lib actor u)]\<rparr>"
  have "reaches [?P, ?Q] s [Finish (Inr NoContent), ?answer] v"
    unfolding v_def
    by (rule reaches_trans [OF forget_reaches_deletion [OF assms(2,4,5,10,11)] reaches_trans [OF second_home [OF t(1)]
        first_home [OF run_deletion [OF gone(1)]]]])
  then obtain "is" where run: "interleave is [?P, ?Q] s = ([Finish (Inr NoContent), ?answer], v)"
    unfolding reaches_def by blast
  have v: "row_of i v = None" "tk_spine_up v" "retained_for i v = Some (True, dv_role r, dv_driver_type r, dv_binding r)"
    using gone by (simp_all add: v_def)
  have ok: "registry_ok v"
    by (rule interleave_keeps [where J = registry_ok, OF run assms(1)]) (auto simp: registry.keeps_devices)
  have "retained_for i (snd (run_alone (start_api fresh mids) v))
      = Some (True, dv_role r, dv_driver_type r, dv_binding r)" for fresh mids
    using start_reconciles [OF ok v(2), of fresh mids _ _ i] v(1,3)
    by (cases "run_alone (start_api fresh mids) v") simp
  then show ?thesis using run v(1) row_of_mem [OF assms(4)] by (intro exI conjI) auto
qed

theorem forgetting_races_readoption_witness:
  "\<exists>is q c t. interleave is [forget_device ann_lib (demo_draws 20) demo_token ''green'', readopt_device ann_lib (demo_draws 21) demo_token ''green''] demo_tank
      = ([Finish (Inr NoContent), Finish (Inr (OneDevice q c))], t)
    \<and> dv_device_id q = ''green'' \<and> dv_adopted q \<and> row_of ''green'' t = None"
proof -
  have row: "row_of ''green'' demo_tank = Some (demo_light 2 ''green'' ''1'' False)" by (simp add: row_of_def demo_defs)
  have rival: "fst (channel_rival (demo_light 2 ''green'' ''1'' False) demo_tank) = Inr None"
    by (simp add: channel_rival_def demo_defs binding_channel_def remembered_channel_def)
  have rest: "\<not> dv_adopted (demo_light 2 ''green'' ''1'' False)" "dv_driver_type (demo_light 2 ''green'' ''1'' False) \<noteq> None"
    "dv_binding (demo_light 2 ''green'' ''1'' False) \<noteq> None" "tk_spine_up demo_tank"
    "dv_id (demo_light 2 ''green'' ''1'' False) \<notin> set (tk_calibrations demo_tank)"
    "dv_id (demo_light 2 ''green'' ''1'' False) \<notin> set (tk_journal demo_tank)"
    by (simp_all add: demo_defs)
  from forgetting_races_readoption [OF demo_registry_ok demo_signed_in demo_signed_in row rest(1-3) rival rest(4-6), of "demo_draws 20" "demo_draws 21"]
  show ?thesis by blast
qed

section \<open>Two bindings of one channel\<close>

definition named :: "bind_body \<Rightarrow> bool" where
  "named b \<longleftrightarrow> pred_option (\<lambda>n. \<not> list_all (\<lambda>ch. ch = CHR '' '') n) (bb_display_name b)"

text \<open>The row a declared actuator becomes satisfies the table's constraints.\<close>

lemma new_actuator_checks:
  assumes "valid_bind_body b" "declared b" "named b" "bb_driver_type b \<noteq> ''ds18b20''"
  shows "device_check (new_device pk (bind_request_of b))"
  using assms by (auto simp: device_check_def new_device_def bind_request_of_def valid_bind_body_def declared_def named_def
      LIGHT_MAX_RUNTIME_S_def LIGHT_HEARTBEAT_TIMEOUT_S_def)

text \<open>What is left of a binding once it has found the channel announced and free.\<close>

definition insertion :: "crypto \<Rightarrow> desk_draws \<Rightarrow> uuid \<Rightarrow> bind_body \<Rightarrow> desk_answer desk" where
  "insertion lib d actor b =
     attempt (catching bind_conflict (atomic (insert_device (dd_id d) (bind_request_of b)))) (\<lambda>(device_id, created).
       attempt (announce (dd_message d) device_id True (bb_role b) (Some (bb_driver_type b))
                  (Some (br_binding (bind_request_of b)))) (\<lambda>_.
       attempt (audited lib actor (DeviceBound device_id (bb_driver_type b) (bb_channel b) created)) (\<lambda>_.
       reply_with (BoundDevice device_id created (bb_driver_type b) (bb_channel b)))))"

lemma run_insertion:
  assumes "device_check (new_device (dd_id d) (bind_request_of b))" "row_of (bb_device_id b) s = None"
    "dd_id d \<notin> dv_id ` set (tk_devices s)" "device_id_ok (bb_device_id b)"
  shows "\<exists>t. run_alone (insertion lib d actor b) s
      = (Inr (BoundDevice (bb_device_id b) True (bb_driver_type b) (bb_channel b)), t)
    \<and> tk_devices t = tk_devices s @ [new_device (dd_id d) (bind_request_of b)]"
proof -
  have id: "br_device_id (bind_request_of b) = bb_device_id b" by (simp add: bind_request_of_def Let_def)
  show ?thesis
    using assms by (simp add: insertion_def run_catching insert_device_def id run_announce)
qed

definition bindable :: "bind_body \<Rightarrow> tank \<Rightarrow> bool" where
  "bindable b s \<longleftrightarrow> valid_bind_body b \<and> declared b \<and> bb_driver_type b \<noteq> ''ds18b20''
     \<and> list_ex (announced (bb_driver_type b) (bb_channel b)) (tk_capabilities s)
     \<and> (\<forall>r \<in> set (tk_devices s). \<not> on_channel (bb_driver_type b) (bb_channel b) r)"

lemma bindable_steps:
  assumes "bindable b s"
  shows "run_alone (from_store (capability_exists (CAPABILITY_SOURCE_FOR_DRIVER (bb_driver_type b)) (bb_channel b))) s = (Inr True, s)"
    "run_alone (from_store (device_bound_to (bb_driver_type b) (bb_channel b))) s = (Inr None, s)"
    "run_alone (atomic (match_channel (bind_request_of b))) s = (Inr None, s)"
    "br_sensor_type (bind_request_of b) = None"
proof -
  have "find (on_channel (bb_driver_type b) (bb_channel b)) (tk_devices s) = None"
    "find (\<lambda>r. dv_adopted r \<and> on_channel (bb_driver_type b) (bb_channel b) r) (tk_devices s) = None"
    using assms by (auto simp: find_None_iff bindable_def)
  then show "run_alone (from_store (device_bound_to (bb_driver_type b) (bb_channel b))) s = (Inr None, s)"
    "run_alone (atomic (match_channel (bind_request_of b))) s = (Inr None, s)"
    by (simp_all add: device_bound_to_def match_channel_def bind_request_of_def Let_def)
  show "run_alone (from_store (capability_exists (CAPABILITY_SOURCE_FOR_DRIVER (bb_driver_type b)) (bb_channel b))) s = (Inr True, s)"
    "br_sensor_type (bind_request_of b) = None"
    using assms by (simp_all add: bindable_def capability_exists_def CAPABILITY_SOURCE_FOR_DRIVER_def bind_request_of_def Let_def)
qed

lemma bind_reaches_insertion:
  assumes "bindable b s" "signed_in lib h actor s"
  shows "reaches [bind_device lib d h b, q] s [insertion lib d actor b, q] s"
proof -
  note steps = bindable_steps [OF assms(1)]
  have b: "valid_bind_body b" "declared b" using assms(1) by (simp_all add: bindable_def)
  have asked: "reaches [bind_device lib d h b, q] s [carry_out_binding lib d actor b, q] s"
    unfolding bind_device_def
    by (rule reaches_trans [OF first_turn [OF run_caller [OF assms(2)]]], simp only: b(1) not_True_eq_False if_False,
        rule reaches_trans [OF first_turn [OF steps(1)]], simp only: not_True_eq_False if_False,
        rule first_into [OF steps(2)]) (simp add: b(2))
  have "reaches [carry_out_binding lib d actor b, q] s [insertion lib d actor b, q] s"
    using steps(3) unfolding carry_out_binding_def store_bind_device_def insertion_def
    by (rule first_inside_to) (simp add: steps(4))
  then show ?thesis by (rule reaches_trans [OF asked])
qed

lemma bind_runs_insertion:
  assumes "bindable b s" "signed_in lib h actor s"
  shows "run_alone (bind_device lib d h b) s = run_alone (insertion lib d actor b) s"
proof -
  note steps = bindable_steps [OF assms(1)]
  have b: "valid_bind_body b" "declared b" using assms(1) by (simp_all add: bindable_def)
  have "run_alone (store_bind_device (dd_id d) (bind_request_of b)) s = insert_device (dd_id d) (bind_request_of b) s"
    using steps(3,4) by (simp add: store_bind_device_def)
  then have "run_alone (carry_out_binding lib d actor b) s = run_alone (insertion lib d actor b) s"
    by (simp add: carry_out_binding_def insertion_def run_catching)
  then show ?thesis
    unfolding bind_device_def by (simp only: run_alone_attempt run_caller [OF assms(2)] steps(1,2) b prod.case sum.case if_True if_False not_True_eq_False simp_thms)
qed

text \<open>
  C21. Two bindings of one free channel. The channel has been announced and no row of the registry is
  bound to it; two operators declare a light on it at the same time, under two new ids. In one
  interleaving both are told that their device has been created, and both rows are adopted on the
  one channel: both found it free before either had inserted, and no constraint of the table
  keeps a channel to one row.
\<close>

theorem racing_bindings_fork_a_channel:
  assumes "signed_in lib h actor s" "signed_in lib h' actor' s"
    "valid_bind_body b" "declared b" "named b" "valid_bind_body b'" "declared b'" "named b'"
    "bb_driver_type b \<noteq> ''ds18b20''" "bb_driver_type b' = bb_driver_type b" "bb_channel b' = bb_channel b"
    "list_ex (announced (bb_driver_type b) (bb_channel b)) (tk_capabilities s)"
    "\<forall>r \<in> set (tk_devices s). \<not> on_channel (bb_driver_type b) (bb_channel b) r"
    "row_of (bb_device_id b) s = None" "row_of (bb_device_id b') s = None" "bb_device_id b \<noteq> bb_device_id b'"
    "dd_id d \<notin> dv_id ` set (tk_devices s)" "dd_id d' \<notin> dv_id ` set (tk_devices s)" "dd_id d \<noteq> dd_id d'"
  shows "\<exists>is t r q. interleave is [bind_device lib d h b, bind_device lib d' h' b'] s
      = ([Finish (Inr (BoundDevice (bb_device_id b) True (bb_driver_type b) (bb_channel b))),
          Finish (Inr (BoundDevice (bb_device_id b') True (bb_driver_type b) (bb_channel b)))], t)
    \<and> tk_devices t = tk_devices s @ [r, q] \<and> dv_device_id r \<noteq> dv_device_id q \<and> dv_adopted r \<and> dv_adopted q
    \<and> on_channel (bb_driver_type b) (bb_channel b) r \<and> on_channel (bb_driver_type b) (bb_channel b) q"
proof -
  let ?done = "\<lambda>b. Inr (BoundDevice (bb_device_id b) True (bb_driver_type b) (bb_channel b))"
  have ready: "bindable b s" "bindable b' s" using assms(3,4,6,7,9-13) by (simp_all add: bindable_def)
  have ids: "device_id_ok (bb_device_id b)" "device_id_ok (bb_device_id b')" using assms(3,6) by (simp_all add: valid_bind_body_def)
  have light': "bb_driver_type b' \<noteq> ''ds18b20''" using assms(9,10) by simp
  obtain t where t: "run_alone (insertion lib d' actor' b') s = (?done b', t)"
    "tk_devices t = tk_devices s @ [new_device (dd_id d') (bind_request_of b')]"
    using run_insertion [OF new_actuator_checks [OF assms(6-8) light'] assms(15,18) ids(2)] by blast
  have "row_of (bb_device_id b) t = None" "dd_id d \<notin> dv_id ` set (tk_devices t)"
    using assms(14,16,17,19) by (auto simp: row_of_None t(2) new_device_def bind_request_of_def Let_def)
  from run_insertion [OF new_actuator_checks [OF assms(3-5,9)] this ids(1)]
  obtain v where v: "run_alone (insertion lib d actor b) t = (?done b, v)"
    "tk_devices v = tk_devices t @ [new_device (dd_id d) (bind_request_of b)]" by blast
  have "reaches [bind_device lib d h b, bind_device lib d' h' b'] s [Finish (?done b), Finish (?done b')] v"
    by (rule reaches_trans [OF bind_reaches_insertion [OF ready(1) assms(1)]
        reaches_trans [OF second_home [OF trans [OF bind_runs_insertion [OF ready(2) assms(2)] t(1)]] first_home [OF v(1)]]])
  then obtain "is" where run: "interleave is [bind_device lib d h b, bind_device lib d' h' b'] s
      = ([Finish (?done b), Finish (?done b')], v)"
    unfolding reaches_def by blast
  have on: "on_channel (bb_driver_type b) (bb_channel b) (new_device pk (bind_request_of b))"
    "on_channel (bb_driver_type b) (bb_channel b) (new_device pk (bind_request_of b'))" for pk
    using assms(9-11) by (simp_all add: on_channel_def new_device_def bind_request_of_def binding_channel_def)
  show ?thesis
    using run [unfolded assms(10,11)] on v(2) t(2) assms(16)
    by (intro exI [of _ v] exI [of _ "is"] exI [of _ "new_device (dd_id d') (bind_request_of b')"]
        exI [of _ "new_device (dd_id d) (bind_request_of b)"] conjI)
      (simp_all add: new_device_def bind_request_of_def Let_def)
qed

definition demo_body :: "string \<Rightarrow> bind_body" where
  "demo_body i = \<lparr>bb_device_id = i, bb_driver_type = ''pi-pwm'', bb_channel = ''2'', bb_role = Some Light,
     bb_display_name = None, bb_location = None, bb_poll_interval_s = None\<rparr>"

theorem racing_bindings_fork_a_channel_witness:
  "\<exists>is t r q. interleave is [bind_device ann_lib (demo_draws 20) demo_token (demo_body ''red''),
        bind_device ann_lib (demo_draws 21) demo_token (demo_body ''azure'')] demo_tank
      = ([Finish (Inr (BoundDevice ''red'' True ''pi-pwm'' ''2'')), Finish (Inr (BoundDevice ''azure'' True ''pi-pwm'' ''2''))], t)
    \<and> tk_devices t = tk_devices demo_tank @ [r, q] \<and> dv_adopted r \<and> dv_adopted q
    \<and> on_channel ''pi-pwm'' ''2'' r \<and> on_channel ''pi-pwm'' ''2'' q"
proof -
  have body: "valid_bind_body (demo_body ''red'')" "valid_bind_body (demo_body ''azure'')"
    "declared (demo_body i)" "named (demo_body i)" for i
    by (simp_all add: valid_bind_body_def declared_def named_def demo_body_def known_driver_def str_len_ok_def opt_ok_def
        device_id_ok_def demo_token_bodies)
  have free: "list_ex (announced (bb_driver_type (demo_body ''red'')) (bb_channel (demo_body ''red''))) (tk_capabilities demo_tank)"
    "\<forall>r \<in> set (tk_devices demo_tank). \<not> on_channel (bb_driver_type (demo_body ''red'')) (bb_channel (demo_body ''red'')) r"
    "row_of (bb_device_id (demo_body ''red'')) demo_tank = None" "row_of (bb_device_id (demo_body ''azure'')) demo_tank = None"
    by (simp_all add: demo_defs demo_body_def announced_def on_channel_def binding_channel_def row_of_def)
  from racing_bindings_fork_a_channel [OF demo_signed_in demo_signed_in body(1,3,4) body(2,3,4) _ _ _ free, of "demo_draws 20" "demo_draws 21"]
  show ?thesis by (auto simp: demo_body_def demo_draws_def demo_defs)
qed

end
