(* ===== verification/Lights.thy ===== *)
theory Lights
  imports Devices EngineTick
begin

text \<open>
  The curves from the operator's request to the engine: what the API has stored is what the engine's
  next reload drives, and the one text of a channel that the API accepts and the engine does not.
\<close>

section \<open>The engine's reload\<close>

lemma from_definition_ok:
  assumes "validate_schedule_definition kz d = Inr d"
  shows "isOk (from_definition kz c d) \<longleftrightarrow> token_body c"
  using assms by (auto simp: from_definition_def validate_channel_profile_def validate_schedule_definition_def validated_Inr
      validated_isOk res_bind_eq_Inr isOk_iff split: option.splits)

text \<open>The engine's profiles are the curves it last read.\<close>

definition in_step :: "(string \<Rightarrow> bool) \<Rightarrow> engine \<Rightarrow> bool" where
  "in_step kz en \<longleftrightarrow> distinct (map fst (en_last_curves en))
     \<and> map_result (\<lambda>cd. from_definition kz (fst cd) (snd cd)) (sort_key fst (en_last_curves en))
       = Inr (sc_profiles (en_scheduler en))"

lemma in_step_profiles:
  assumes "in_step kz en"
  shows "p \<in> set (sc_profiles (en_scheduler en))
    \<longleftrightarrow> (\<exists>c d. map_of (en_last_curves en) c = Some d \<and> from_definition kz c d = Inr p)"
proof -
  let ?cs = "sort_key fst (en_last_curves en)"
  have all: "list_all2 (\<lambda>cd p. from_definition kz (fst cd) (snd cd) = Inr p) ?cs (sc_profiles (en_scheduler en))"
    using assms by (simp add: in_step_def map_result_Inr)
  have "p \<in> set ps \<longleftrightarrow> (\<exists>cd \<in> set cs. from_definition kz (fst cd) (snd cd) = Inr p)"
    if "list_all2 (\<lambda>cd p. from_definition kz (fst cd) (snd cd) = Inr p) cs ps" for cs ps
    using that by (induction rule: list_all2_induct) auto
  from this [OF all] show ?thesis using assms by (force simp: in_step_def)
qed

lemma reload_takes:
  assumes "te_curves env = Inr curves" "distinct (map fst curves)" "te_known_zone env = kz" "in_step kz en" "en_has_schedules en"
    "\<forall>(c, d) \<in> set curves. validate_schedule_definition kz d = Inr d \<and> token_body c"
  shows "\<exists>en'. reload_schedules env en = (Inr (), en') \<and> in_step kz en' \<and> map_of (en_last_curves en') = map_of curves"
proof (cases "sort_key fst curves = sort_key fst (en_last_curves en)")
  case True
  then have "set curves = set (en_last_curves en)" by (metis set_sort)
  then have "map_of (en_last_curves en) = map_of curves"
    using assms(2,4) by (simp add: map_of_inject_set in_step_def)
  then show ?thesis using True assms(1,4,5) by (simp add: reload_schedules_def read_schedules_def in_step_def)
next
  case False
  have "\<forall>cd \<in> set (sort_key fst curves). isOk (from_definition kz (fst cd) (snd cd))"
    using assms(6) by (auto simp: from_definition_ok)
  from map_result_ok [OF this] obtain ps where ps:
    "map_result (\<lambda>cd. from_definition kz (fst cd) (snd cd)) (sort_key fst curves) = Inr ps" by blast
  have "distinct (channel_ids ps)" using from_definition_profiles [OF ps] assms(2) by (simp add: distinct_map)
  then have "set_profiles ps (en_scheduler en) = Inr ((en_scheduler en)\<lparr>sc_profiles := ps\<rparr>)"
    by (simp add: set_profiles_def validated_def)
  then show ?thesis
    using False assms(1-3,5) ps by (simp add: reload_schedules_def read_schedules_def in_step_def)
qed

lemma map_result_all: "map_result f xs = Inr ys \<Longrightarrow> x \<in> set xs \<Longrightarrow> \<exists>y. f x = Inr y"
  by (induction xs arbitrary: ys) (auto simp: res_bind_eq_Inr)

lemma reload_refuses:
  assumes "te_curves env = Inr curves" "te_known_zone env = kz" "en_has_schedules en"
    "(c, d) \<in> set curves" "validate_schedule_definition kz d = Inr d" "\<not> token_body c" "c \<notin> fst ` set (en_last_curves en)"
  shows "\<exists>en'. reload_schedules env en = (Inr (), en') \<and> en_scheduler en' = en_scheduler en
    \<and> en_last_curves en' = en_last_curves en \<and> en_schedule_read_failing en'"
proof -
  have "sort_key fst curves \<noteq> sort_key fst (en_last_curves en)"
  proof
    assume "sort_key fst curves = sort_key fst (en_last_curves en)"
    then have "set curves = set (en_last_curves en)" by (metis set_sort)
    with assms(4,7) show False by force
  qed
  moreover have "\<exists>e. map_result (\<lambda>cd. from_definition kz (fst cd) (snd cd)) (sort_key fst curves) = Inl e"
  proof (cases "map_result (\<lambda>cd. from_definition kz (fst cd) (snd cd)) (sort_key fst curves)")
    case (Inr ps)
    then have "\<exists>p. from_definition kz c d = Inr p"
      using map_result_all [OF Inr, of "(c, d)"] assms(4) by simp
    then show ?thesis using from_definition_ok [OF assms(5), of c] assms(6) by (auto simp: isOk_iff)
  qed simp
  ultimately show ?thesis using assms(1-3) by (auto simp: reload_schedules_def read_schedules_def)
qed

lemma stored_schedules_ok:
  assumes "\<forall>r \<in> set rs. validate_schedule_definition kz (ls_definition r) = Inr (ls_definition r)"
  shows "\<exists>rows. stored_schedules kz cs rs = Inr rows"
  using assms by (induction rs) (auto simp: build_definition_def)

lemma run_list:
  assumes "schedules_ok kz s"
  shows "\<exists>rows. run_alone (catching uncaught (schedule_list kz)) s = (Inr rows, s)"
proof -
  have "\<exists>rows. stored_schedules kz (tk_channel_schedules s) (sort_key (\<lambda>r. sd_name (ls_definition r)) (tk_schedules s)) = Inr rows"
    using assms by (intro stored_schedules_ok) (simp add: schedules_ok_def)
  then show ?thesis by (auto simp: run_catching schedule_list_def select_schedules_def select_assignments_def)
qed

lemma run_assign:
  assumes "schedules_ok kz s" "signed_in lib h actor s" "token_re_match c" "length c \<le> 64" "row_of c s = None"
    "schedule_row_of i s = Some q"
  shows "\<exists>stored t. run_alone (assign_schedule lib kz d h c i) s = (Inr (OneSchedule stored), t)
    \<and> tk_channel_schedules t = alist_put c i (tk_channel_schedules s) \<and> tk_schedules t = tk_schedules s"
proof -
  obtain rows where rows: "run_alone (catching uncaught (schedule_list kz)) s = (Inr rows, s)" using run_list [OF assms(1)] by blast
  let ?s = "s\<lparr>tk_channel_schedules := alist_put c i (tk_channel_schedules s)\<rparr>"
  have stored: "run_alone (catching schedule_missing (schedule_assign c i)) s = (Inr (), ?s)"
    using assms(4,6) by (simp add: run_catching schedule_assign_def select_schedule_def upsert_channel_def)
  have q: "validate_schedule_definition kz (ls_definition q) = Inr (ls_definition q)"
    using assms(1) find_key_in [OF assms(6) [unfolded schedule_row_of_def]] by (simp add: schedules_ok_def)
  have get: "\<exists>v. run_alone (catching uncaught (schedule_get kz i)) u = (Inr v, u)" if "tk_schedules u = tk_schedules s" for u
  proof -
    have "schedule_row_of i u = Some q" using that assms(6) by (simp add: schedule_row_of_def)
    then show ?thesis by (simp add: run_catching schedule_get_def select_schedule_def select_channels_def build_definition_def q)
  qed
  let ?moved = "case holder_schedule c rows of
      Some old \<Rightarrow> if old \<noteq> i then audited lib actor (ScheduleUnassigned c old (Some i)) else reply_with ()
    | None \<Rightarrow> reply_with ()"
  obtain es where moved: "run_alone ?moved ?s = (Inr (), ?s\<lparr>tk_trail := es\<rparr>)"
  proof (cases "\<exists>old. holder_schedule c rows = Some old \<and> old \<noteq> i")
    case True
    then show ?thesis using that by fastforce
  next
    case False
    then show ?thesis using that [of "tk_trail s"] by (cases "holder_schedule c rows") auto
  qed
  obtain es' where last: "run_alone (audited lib actor (ScheduleAssigned c i)) (?s\<lparr>tk_trail := es\<rparr>) = (Inr (), ?s\<lparr>tk_trail := es'\<rparr>)"
    by simp
  obtain v where v: "run_alone (catching uncaught (schedule_get kz i)) (?s\<lparr>tk_trail := es'\<rparr>) = (Inr v, ?s\<lparr>tk_trail := es'\<rparr>)"
    using get [of "?s\<lparr>tk_trail := es'\<rparr>"] by auto
  have "control_authority_of c s = (Inr (False, None), s)" using assms(5) by (simp add: control_authority_of_def)
  then have "run_alone (assign_schedule lib kz d h c i) s = (Inr (OneSchedule v), ?s\<lparr>tk_trail := es'\<rparr>)"
    using assms(3) by (simp add: assign_schedule_def run_caller [OF assms(2)] rows stored moved last v Let_def del: run_audited)
  then show ?thesis by (intro exI [of _ v] exI [of _ "?s\<lparr>tk_trail := es'\<rparr>"] conjI) simp_all
qed

text \<open>
  C19. What the operator stored is what the engine drives. After any interleaving of requests,
  messages and restarts, from a database whose curves validate, an engine that can read the
  database has after its next reload exactly the profiles of the curves assigned in the tables,
  as long as every assigned channel is a legal channel id: no curve is refused, dropped or stale.
\<close>

theorem stored_curves_reach_the_engine:
  assumes "interleave is (map (serve_desk lib kz) cs) s = (qs, t)" "schedules_ok kz s"
    "\<forall>(c, i) \<in> set (tk_channel_schedules t). token_body c"
    "in_step kz en" "en_has_schedules en" "te_known_zone env = kz"
    "te_curves env = map_sum (\<lambda>_. OSError ''curves'') id (fst (assigned_curves kz t))"
  shows "\<exists>en'. reload_schedules env en = (Inr (), en') \<and> in_step kz en'
    \<and> set (sc_profiles (en_scheduler en')) = {p. \<exists>c d. curve_of t c = Some d \<and> from_definition kz c d = Inr p}"
proof -
  have ok: "schedules_ok kz t"
    by (rule interleave_keeps [where J = "schedules_ok kz", OF assms(1,2)]) (auto intro: call_keeps)
  obtain curves where curves: "assigned_curves kz t = (Inr curves, t)" "distinct (map fst curves)" "map_of curves = curve_of t"
    "\<forall>(c, d) \<in> set curves. validate_schedule_definition kz d = Inr d"
    using curves_read [OF ok] by blast
  have "token_body c" if "(c, d) \<in> set curves" for c d
  proof -
    have "curve_of t c = Some d" using that curves(2) by (simp flip: curves(3))
    then show ?thesis using assms(3) by (auto simp: curve_of_def dest!: map_of_SomeD split: Option.bind_splits)
  qed
  then have legal: "\<forall>(c, d) \<in> set curves. validate_schedule_definition kz d = Inr d \<and> token_body c"
    using curves(4) by blast
  have "te_curves env = Inr curves" using assms(7) curves(1) by simp
  from reload_takes [OF this curves(2) assms(6,4,5) legal]
  obtain en' where "reload_schedules env en = (Inr (), en')" "in_step kz en'" "map_of (en_last_curves en') = map_of curves"
    by blast
  then show ?thesis using in_step_profiles [of kz en'] curves(3) by (intro exI [of _ en']) auto
qed

definition demo_env :: "tank \<Rightarrow> tick_env" where
  "demo_env s = sample_env\<lparr>te_known_zone := demo_zone,
     te_curves := map_sum (\<lambda>_. OSError ''curves'') id (fst (assigned_curves demo_zone s))\<rparr>"

definition demo_engine :: engine where
  "demo_engine = sample_engine\<lparr>en_has_schedules := True, en_scheduler := slewing_scheduler\<rparr>"

lemma demo_engine_in_step: "in_step demo_zone demo_engine"
  by (simp add: in_step_def demo_engine_def sample_engine_def slewing_scheduler_def)

lemma run_to_lights: "snd (run_alone (to_lights p) s) = snd (run_alone p s)"
  by (cases "run_alone p s"; cases "fst (run_alone p s)") (auto simp: to_lights_def)

theorem stored_curves_reach_the_engine_witness:
  "\<exists>is q t en'. interleave is (map (serve_desk ann_lib demo_zone) [PutChannel (demo_draws 20) demo_token ''red'' 7]) demo_tank = ([q], t)
     \<and> reload_schedules (demo_env t) demo_engine = (Inr (), en')
     \<and> sample_profile \<in> set (sc_profiles (en_scheduler en'))
     \<and> sample_profile\<lparr>cp_channel_id := ''red''\<rparr> \<in> set (sc_profiles (en_scheduler en'))"
proof -
  let ?p = "assign_schedule ann_lib demo_zone (demo_draws 20) demo_token ''red'' 7"
  have "row_of ''red'' demo_tank = None" "schedule_row_of 7 demo_tank = Some \<lparr>ls_id = 7, ls_definition = demo_day\<rparr>"
    by (simp_all add: row_of_def schedule_row_of_def demo_defs)
  from run_assign [OF demo_schedules_ok demo_signed_in _ _ this, of "demo_draws 20"]
  obtain stored t where t: "run_alone ?p demo_tank = (Inr (OneSchedule stored), t)"
      "tk_channel_schedules t = [(''blue'', 7), (''red'', 7)]" "tk_schedules t = tk_schedules demo_tank"
    by (auto simp: token_re_match_def demo_token_bodies demo_tank_def)
  obtain n where run: "interleave (replicate n 0) (map (serve_desk ann_lib demo_zone) [PutChannel (demo_draws 20) demo_token ''red'' 7]) demo_tank
      = ([Finish (fst (run_alone (to_lights ?p) demo_tank))], t)"
    using run_alone_interleaves [of "to_lights ?p" demo_tank] run_to_lights [of ?p demo_tank] t(1) by auto
  have curve: "curve_of t ''blue'' = Some demo_day" "curve_of t ''red'' = Some demo_day"
    by (simp_all add: curve_of_def t(2,3) schedule_row_of_def demo_tank_def)
  have "from_definition demo_zone ''blue'' demo_day = Inr sample_profile"
    "from_definition demo_zone ''red'' demo_day = Inr (sample_profile\<lparr>cp_channel_id := ''red''\<rparr>)"
    by (simp_all add: from_definition_def demo_day_def validate_channel_profile_def validated_def sample_profile_def demo_token_bodies
        opt_ok_def sample_points_def validate_curve_def point_seconds_def demo_zone_def)
  moreover have "\<forall>(c, i) \<in> set (tk_channel_schedules t). token_body c" by (simp add: t(2) demo_token_bodies)
  from stored_curves_reach_the_engine [OF run demo_schedules_ok this demo_engine_in_step, of "demo_env t"]
  obtain en' where "reload_schedules (demo_env t) demo_engine = (Inr (), en')"
    "set (sc_profiles (en_scheduler en')) = {p. \<exists>c d. curve_of t c = Some d \<and> from_definition demo_zone c d = Inr p}"
    by (auto simp: demo_env_def demo_engine_def sample_engine_def)
  ultimately show ?thesis using run curve by blast
qed

lemma put_key: "k \<in> fst ` set (alist_put k v xs)"
  by (induction xs rule: alist_put.induct) auto

definition newline :: char where "newline = CHR 0x0A"

text \<open>
  C25. A channel id that ends in a newline stops every later reload. The API's pattern, applied with
  \<open>match\<close>, lets one newline past its end, so the assignment is accepted with a 200, although the
  check is there so that no channel id reaches the table that the engine's profile refuses. From then
  on, whatever else is requested, as long as that assignment stands the engine keeps the profiles
  it had: no edit of any curve on any channel reaches a light.
\<close>

theorem newline_channel_stops_reloads:
  assumes "schedules_ok kz s" "signed_in lib h actor s" "token_body c" "length c < 64" "row_of (c @ [newline]) s = None"
    "schedule_row_of i s = Some q" "run_alone (assign_schedule lib kz d h (c @ [newline]) i) s = (answer, t)"
    "interleave is (map (serve_desk lib kz) cs) t = (qs, u)" "c @ [newline] \<in> fst ` set (tk_channel_schedules u)"
    "en_has_schedules en" "\<forall>cd \<in> set (en_last_curves en). token_body (fst cd)" "te_known_zone env = kz"
    "te_curves env = map_sum (\<lambda>_. OSError ''curves'') id (fst (assigned_curves kz u))"
  shows "(\<exists>stored. answer = Inr (OneSchedule stored)) \<and> c @ [newline] \<in> fst ` set (tk_channel_schedules t)
    \<and> (\<exists>en'. reload_schedules env en = (Inr (), en') \<and> en_scheduler en' = en_scheduler en
         \<and> en_last_curves en' = en_last_curves en \<and> en_schedule_read_failing en')"
proof -
  let ?c = "c @ [newline]"
  have c: "token_re_match ?c" "length ?c \<le> 64" "\<not> token_body ?c"
    using assms(3,4) token_body_chars [of ?c] by (auto simp: token_re_match_def newline_def token_chars_def lower_alnum_def)
  from run_assign [OF assms(1,2) c(1,2) assms(5,6), of d] assms(7)
  have first: "\<exists>stored. answer = Inr (OneSchedule stored)" "tk_channel_schedules t = alist_put ?c i (tk_channel_schedules s)" by auto
  have "keeps (schedules_ok kz) (assign_schedule lib kz d h ?c i)" by (rule curves.keeps_lights)
  from keeps_alone [OF this assms(1)] assms(7) have "schedules_ok kz t" by simp
  then have ok: "schedules_ok kz u"
    by (rule interleave_keeps [where J = "schedules_ok kz", OF assms(8)]) (auto intro: call_keeps)
  obtain curves where curves: "assigned_curves kz u = (Inr curves, u)" "distinct (map fst curves)" "map_of curves = curve_of u"
    "\<forall>(c, d) \<in> set curves. validate_schedule_definition kz d = Inr d"
    using curves_read [OF ok] by blast
  obtain j where "(?c, j) \<in> set (tk_channel_schedules u)" using assms(9) by force
  then have "map_of (tk_channel_schedules u) ?c = Some j" "schedule_row_of j u \<noteq> None"
    using ok by (auto simp: schedules_ok_def schedule_row_None)
  then obtain dd where "curve_of u ?c = Some dd" by (auto simp: curve_of_def)
  then have member: "(?c, dd) \<in> set curves" by (metis curves(3) map_of_SomeD)
  have read: "te_curves env = Inr curves" using assms(13) curves(1) by simp
  have valid: "validate_schedule_definition kz dd = Inr dd" using curves(4) member by blast
  have fresh: "?c \<notin> fst ` set (en_last_curves en)" using assms(11) c(3) by auto
  have "?c \<in> fst ` set (tk_channel_schedules t)"
    unfolding first(2) by (rule put_key)
  with first(1) reload_refuses [OF read assms(12,10) member valid c(3) fresh] show ?thesis by blast
qed

theorem newline_channel_stops_reloads_witness:
  "\<exists>en'. reload_schedules (demo_env (snd (run_alone (assign_schedule ann_lib demo_zone (demo_draws 20) demo_token (''red'' @ [newline]) 7) demo_tank))) demo_engine
       = (Inr (), en') \<and> en_scheduler en' = en_scheduler demo_engine \<and> en_schedule_read_failing en'"
proof -
  let ?c = "''red'' @ [newline]"
  have row: "row_of ?c demo_tank = None" "schedule_row_of 7 demo_tank = Some \<lparr>ls_id = 7, ls_definition = demo_day\<rparr>"
    by (simp_all add: row_of_def schedule_row_of_def demo_defs)
  have match: "token_re_match ?c" by (simp add: token_re_match_def newline_def token_body_def lower_alnum_def token_chars_def)
  from run_assign [OF demo_schedules_ok demo_signed_in match _ row, of "demo_draws 20"]
  obtain answer t where t: "run_alone (assign_schedule ann_lib demo_zone (demo_draws 20) demo_token ?c 7) demo_tank = (answer, t)"
      "tk_channel_schedules t = alist_put ?c 7 (tk_channel_schedules demo_tank)"
    by (auto simp: newline_def)
  have there: "?c \<in> fst ` set (tk_channel_schedules t)" unfolding t(2) by (rule put_key)
  have "interleave [] (map (serve_desk ann_lib demo_zone) []) t = ([], t)" by simp
  from newline_channel_stops_reloads [OF demo_schedules_ok demo_signed_in demo_token_bodies(5) _ row t(1) this there, of demo_engine "demo_env t"] t(1)
  show ?thesis by (auto simp: demo_env_def demo_engine_def sample_engine_def)
qed

end
