(* ===== verification/Spec2Isabelle.thy ===== *)
theory Spec2Isabelle
  imports Trips Races CapRefinement Reconnect DeviceRaces Lights
begin

text \<open>
  Verification of the reef controller in this repository: three Python services that talk
  over NATS. \<open>services/control_engine\<close> decides what every light should do, \<open>services/hardware_io\<close>
  owns the hardware and its safety interlocks, \<open>contracts/python\<close> are the messages and subjects
  between them, \<open>db/bellasreef_db\<close> the stores behind them and \<open>services/shared\<close> what both use.
  \<open>services/api\<close> is the HTTP interface for the keeper's clients.

  Conventions (\<open>Prelude\<close>). Floats, instants and monotonic times are rationals, strings lists of
  characters, UUIDs naturals; an exception is the left value of a sum, an effect a function on
  a state that returns a result and the state. Integers of the hardware are bounded where the
  code bounds them. The zone database, the NATS client, the file systems, the I2C bus and the
  clocks are parameters; what the code relies on about them is a named hypothesis or a locale.

  The parts, in the order of the data.

  \<^item> \<open>Subjects\<close>, \<open>Contracts\<close>: \<open>contracts/subjects.py\<close> and \<open>messages.py\<close>, the subject builders and
    the validators of every message. Lemmas: round trip of subjects, the safety triple.
  \<^item> \<open>Curve\<close>, \<open>Scheduler\<close>, \<open>Overrides\<close>: \<open>schedules.py\<close>, \<open>profiles.py\<close>, \<open>scheduler.py\<close> and
    \<open>db/overrides.py\<close>. Lemmas: the scan of the points is the cyclic interpolation, the slew
    rule, the hold table.
  \<^item> \<open>Alerts\<close>: \<open>control_engine/alerts.py\<close> with \<open>db/alerts.py\<close>: hysteresis, the mirror of the
    open episodes, resync, the silence watcher.
  \<^item> \<open>Clock\<close>: \<open>shared/clock.py\<close> and \<open>watchdog.py\<close>. \<open>Engine\<close>, \<open>EngineTick\<close>, \<open>EngineHolds\<close>:
    \<open>control_engine/app.py\<close>, \<open>publisher.py\<close>, \<open>assignments.py\<close>: one loop iteration as a function
    of what the world answers, the invariant of the engine's state, the holds.
  \<^item> \<open>Drivers\<close>: the actuator protocol as a record and the locale \<open>safety_driver\<close>; \<open>Pca9685\<close> and
    \<open>PiPwm\<close>: the two drivers over a bus and a sysfs, whose rules are the predicates and locales
    \<open>pca_bus\<close>, \<open>pwm_sysfs\<close>, \<open>pwm_channel\<close>, interpreted on a register file and on the file system
    of the repository's own fake. \<open>OneWire\<close>: the temperature probe. \<open>PyText\<close>: regular
    expressions and number texts.
  \<^item> \<open>Safety\<close>, \<open>SafetySteps\<close>: \<open>hardware_io/safety.py\<close>. Every stretch between two awaits is one
    function, \<open>sup_step\<close> interleaves them; \<open>SafetyInv\<close> is the invariant, \<open>SafetyView\<close> what one
    guard sees of a step, \<open>Interlocks\<close>, \<open>Trips\<close> and \<open>Races\<close> the theorems.
  \<^item> \<open>Spine\<close>, \<open>Consumer\<close>: \<open>hardware_io/spine.py\<close>, the broker as a function from the calls made
    so far to the next answer.
    \<open>CapRefinement\<close> is the abstract timer a lit output runs against, and the simulation by
    which the supervisor's runs implement it.
  \<^item> \<open>Discovery\<close>, \<open>Factory\<close>: \<open>capabilities.py\<close> and \<open>factory.py\<close>.
  \<^item> \<open>HardwareIO\<close>: \<open>hardware_io/app.py\<close> and the cadence of \<open>host.py\<close>: building from the retained
    assignments, the loop with the callbacks between two iterations, the shutdown. \<open>HardwareFrame\<close>:
    what each operation leaves alone, collected as the rules \<open>preserving\<close>. \<open>HardwareRun\<close>,
    \<open>HardwareStop\<close>, \<open>HardwareLife\<close>: what is announced is guarded, the stop, the restarts.
  \<^item> \<open>Reconnect\<close>: the hardware and the engine together, across an outage of the broker.

  \<^item> \<open>Transactions\<close>: a handler of the API as a tree of database transactions, which the handlers
    of other requests interleave; a calculus for what holds of a handler in every interleaving.
    \<open>Tables\<close>: tables with a key. \<open>AuthStore\<close>: the clients, identities, pairing windows, requests
    and tokens of \<open>api/store.py\<close>, with \<open>security.py\<close> and \<open>throttle.py\<close>. \<open>PairingApi\<close>: the handlers
    of \<open>api/app.py\<close> for setup, pairing, tokens and clients, and the commands of \<open>cli.py\<close> on the
    same tables; hashes, tokens and randomness are parameters.
  \<^item> \<open>Ledger\<close>: what pairing promises, an abstract machine of invitations and standings with its
    invariant. \<open>PairingRun\<close>: the tables' invariant, and that every request plays only moves of the
    ledger. \<open>Pairing\<close>: the theorems about all interleavings.
  \<^item> \<open>Desk\<close>: what the handlers for devices and lights share: the rows and \<open>CHECK\<close> constraints of
    \<open>db/models.py\<close>, the retained stream of assignments (\<open>registry.py\<close>), the stores' errors, the
    caller and the audit trail. \<open>DeviceStore\<close>: the device methods of \<open>api/store.py\<close>, one step per
    statement. \<open>DeviceApi\<close>: the handlers of \<open>api/app.py\<close> for devices, capabilities and alert bands,
    the consumers of \<open>registry.py\<close> and what the start republishes. \<open>LightApi\<close>: \<open>db/schedules.py\<close>
    and the handlers for schedules, channels and holds.
  \<^item> \<open>Registry\<close>: everything that may happen to these tables as one type of call, the locale
    \<open>desk_law\<close> of a law every call keeps, and its interpretations on the invariants of the registry
    and of the curves. \<open>Devices\<close>: alert bands, and bindings served in turn. \<open>DeviceRaces\<close>: the
    retained stream across a restart, and what two racing requests do. \<open>Lights\<close>: from a stored
    curve to the profiles of the engine (\<open>Engine\<close>).

  Fuel and bounds. Loops that end are total functions; \<open>Spine.read_assignments\<close> may not end and
  is a partial function into options. Nothing runs on fuel.

  Not modelled: logging and metrics, the JSON encoding (pydantic's), processes and signals,
  the history, telemetry and streaming of the API, its audit writer and the listings of alerts,
  audit and hub status, which only read; the backup archive, the printing and argument parsing of
  the command line. The retained stream is written or not, as the broker is up or away when a
  handler publishes: a client that reconnects half way through a publication is one or the other.
\<close>

end
